(* ===== verification/Prelude.thy ===== *)
theory Prelude
  imports Main "HOL-Library.Word"
begin

text \<open>
  Shared vocabulary of the development: the machine integers of the 32-bit x86 target, the error
  codes of \<^verbatim>\<open>uapi/elfboot/errno.h\<close>, the arithmetic macros of
  \<^verbatim>\<open>elfboot/core.h\<close> and \<^verbatim>\<open>uapi/elfboot/common.h\<close>, and generic lemmas on
  words and lists that every component theory uses.
\<close>

unbundle bit_operations_syntax

section \<open>Machine integers\<close>

type_synonym u8 = "8 word"
type_synonym u16 = "16 word"
type_synonym u32 = "32 word"
type_synonym u64 = "64 word"

text \<open>Facts that move a goal about words to natural numbers.\<close>

named_theorems to_nat "word facts stated over unat"

section \<open>Error codes\<close>

text \<open>
  The functions of the program report errors as negated POSIX codes. A function that returns
  \<^verbatim>\<open>0\<close> or \<^verbatim>\<open>-Exxx\<close> is modelled with a result of type
  \<open>errno + 'a\<close>; \<open>errno_val\<close> gives the number where the code uses it as one.
\<close>

datatype errno =
    EPERM | ENOENT | ESRCH | EINTR | EIO | ENXIO | E2BIG | ENOEXEC | EBADF
  | ECHILD | EAGAIN | ENOMEM | EACCES | EFAULT | ENOTEMPTY | EBUSY | EEXIST
  | EXDEV | ENODEV | ENOTDIR | EISDIR | EINVAL | ENFILE | EMFILE | ENOTTY
  | ENAMETOOLONG | EFBIG | ENOSPC | ESPIPE | EROFS | EMLINK | EPIPE | EDEADLK
  | ENOLCK | ENOTSUP | EMSGSIZE

fun errno_val :: "errno \<Rightarrow> int" where
  "errno_val EPERM = 1" | "errno_val ENOENT = 2" | "errno_val ESRCH = 3"
| "errno_val EINTR = 4" | "errno_val EIO = 5" | "errno_val ENXIO = 6"
| "errno_val E2BIG = 7" | "errno_val ENOEXEC = 8" | "errno_val EBADF = 9"
| "errno_val ECHILD = 10" | "errno_val EAGAIN = 11" | "errno_val ENOMEM = 12"
| "errno_val EACCES = 13" | "errno_val EFAULT = 14" | "errno_val ENOTEMPTY = 15"
| "errno_val EBUSY = 16" | "errno_val EEXIST = 17" | "errno_val EXDEV = 18"
| "errno_val ENODEV = 19" | "errno_val ENOTDIR = 20" | "errno_val EISDIR = 21"
| "errno_val EINVAL = 22" | "errno_val ENFILE = 23" | "errno_val EMFILE = 24"
| "errno_val ENOTTY = 25" | "errno_val ENAMETOOLONG = 26" | "errno_val EFBIG = 27"
| "errno_val ENOSPC = 28" | "errno_val ESPIPE = 29" | "errno_val EROFS = 30"
| "errno_val EMLINK = 31" | "errno_val EPIPE = 32" | "errno_val EDEADLK = 33"
| "errno_val ENOLCK = 34" | "errno_val ENOTSUP = 35" | "errno_val EMSGSIZE = 36"

text \<open>A status of a function that returns nothing but success or an error.\<close>

type_synonym status = "errno + unit"

abbreviation ok :: status where "ok \<equiv> Inr ()"

lemma errno_val_pos [simp]: "0 < errno_val e"
  by (cases e) simp_all

section \<open>Arithmetic macros\<close>

text \<open>\<^verbatim>\<open>core.h\<close>: rounding to a power of two, clamping, distance.\<close>

definition round_mask :: "u32 \<Rightarrow> u32" where
  "round_mask y = y - 1"

definition round_up :: "u32 \<Rightarrow> u32 \<Rightarrow> u32" where
  "round_up x y = ((x - 1) OR round_mask y) + 1"

definition round_down :: "u32 \<Rightarrow> u32 \<Rightarrow> u32" where
  "round_down x y = x AND NOT (round_mask y)"

definition clamp :: "u32 \<Rightarrow> u32 \<Rightarrow> u32 \<Rightarrow> u32" where
  "clamp v lo hi = (let w = (if v > lo then v else lo) in if w < hi then w else hi)"

definition abs_difference :: "u32 \<Rightarrow> u32 \<Rightarrow> u32" where
  "abs_difference x y = (if x < y then y - x else x - y)"

section \<open>Lemmas on words\<close>

lemma unat_plus1 [to_nat]: "(x::'a::len word) + 1 \<noteq> 0 \<Longrightarrow> unat (x + 1) = unat x + 1"
  by (metis Suc_eq_plus1 add.commute unatSuc)

lemma unat_minus_le [to_nat]: "(y::'a::len word) \<le> x \<Longrightarrow> unat (x - y) = unat x - unat y"
  by (rule unat_sub)

lemma unat_plus_lt [to_nat]:
  "unat (x::'a::len word) + unat y < 2 ^ LENGTH('a) \<Longrightarrow> unat (x + y) = unat x + unat y"
  by (simp add: unat_word_ariths)

lemma unat_of_nat_lt [to_nat]: "n < 2 ^ LENGTH('a) \<Longrightarrow> unat (of_nat n :: 'a::len word) = n"
  by (simp add: take_bit_nat_eq_self unat_of_nat)

lemma unat_of_nat32: "n < 2 ^ 32 \<Longrightarrow> unat (of_nat n :: u32) = n"
  by (rule unat_of_nat_lt) simp

lemma of_nat_eq_32: "i < 2 ^ 32 \<Longrightarrow> j < 2 ^ 32 \<Longrightarrow> (of_nat i :: u32) = of_nat j \<longleftrightarrow> i = j"
  by (metis unat_of_nat32)

lemma unat_lt32: "unat (x::u32) < 2 ^ 32"
  using unsigned_less [of x] by simp

lemma sint_small:
  assumes "unat (x::u32) < 2 ^ 31"
  shows "sint x = int (unat x)"
proof -
  have "uint x < 2 ^ 31"
    using assms by (simp add: nat_less_iff flip: nat_uint_eq)
  then show ?thesis
    by (simp add: sint_uint signed_take_bit_eq_take_bit_shift take_bit_int_eq_self)
qed

lemma word_mod_pow2_and:
  "k < LENGTH('a) \<Longrightarrow> unat (x AND (2 ^ k - 1 :: 'a::len word)) = unat x mod 2 ^ k"
  by (simp flip: mask_eq_exp_minus_1 take_bit_eq_mask take_bit_eq_mod add: unsigned_take_bit_eq)

lemma and_not_mask_eq:
  "(x::'a::len word) AND NOT (mask k) = x - take_bit k x"
proof -
  have "(x AND NOT (mask k)) + (x AND mask k) = (x AND NOT (mask k)) OR (x AND mask k)"
    by (rule disjunctive_add) (auto simp: bit_simps)
  also have "\<dots> = x"
    by (rule bit_eqI) (auto simp: bit_simps)
  finally show ?thesis
    by (simp add: take_bit_eq_mask eq_diff_eq)
qed

lemma unat_round_down [to_nat]:
  assumes "k < 32"
  shows "unat (round_down x (2 ^ k)) = unat x - unat x mod 2 ^ k"
proof -
  have "take_bit k x \<le> x"
    by (simp add: word_le_nat_alt unsigned_take_bit_eq)
  then show ?thesis
    by (simp add: round_down_def round_mask_def and_not_mask_eq unat_sub unsigned_take_bit_eq
        take_bit_eq_mod [of k "unat x"] flip: mask_eq_exp_minus_1)
qed

lemma or_mask_eq: "(x::'a::len word) OR mask k = (x AND NOT (mask k)) + mask k"
proof -
  have "(x AND NOT (mask k)) + mask k = (x AND NOT (mask k)) OR mask k"
    by (rule disjunctive_add) (auto simp: bit_simps)
  also have "\<dots> = x OR mask k"
    by (rule bit_eqI) (auto simp: bit_simps)
  finally show ?thesis by simp
qed

lemma round_up_eq: "round_up x (2 ^ k) = round_down (x - 1) (2 ^ k) + 2 ^ k"
  by (simp add: round_up_def round_down_def round_mask_def or_mask_eq mask_eq_exp_minus_1
      flip: mask_eq_exp_minus_1) (simp add: mask_eq_exp_minus_1)

lemma round_up_zero [simp]: "round_up 0 y = 0"
  by (simp add: round_up_def)

end
