(* ===== verification/Cmem.thy ===== *)
theory Cmem
  imports Prelude
begin

text \<open>
  The flat byte memory of the bootloader and the routines that move bytes in it. The program runs
  without paging, so every 32-bit address is readable and writable and a memory is a total
  function. \<^verbatim>\<open>src/arch/x86/copy.S\<close> implements \<open>memcpy\<close>, \<open>memset\<close> and
  \<open>memmove\<close> with string instructions, four bytes at a time and then the rest; the loops below
  are those instructions. The byte-order helpers are those of \<^verbatim>\<open>elfboot/types.h\<close>.
\<close>

type_synonym mem = "u32 \<Rightarrow> u8"

section \<open>Reading and writing multi-byte values\<close>

definition load16 :: "mem \<Rightarrow> u32 \<Rightarrow> u16" where
  "load16 m a = ucast (m a) OR push_bit 8 (ucast (m (a + 1)))"

definition load32 :: "mem \<Rightarrow> u32 \<Rightarrow> u32" where
  "load32 m a = ucast (m a) OR push_bit 8 (ucast (m (a + 1)))
     OR push_bit 16 (ucast (m (a + 2))) OR push_bit 24 (ucast (m (a + 3)))"

definition load64 :: "mem \<Rightarrow> u32 \<Rightarrow> u64" where
  "load64 m a = ucast (load32 m a) OR push_bit 32 (ucast (load32 m (a + 4)))"

definition store32 :: "mem \<Rightarrow> u32 \<Rightarrow> u32 \<Rightarrow> mem" where
  "store32 m a v = m(a := ucast v, a + 1 := ucast (drop_bit 8 v),
     a + 2 := ucast (drop_bit 16 v), a + 3 := ucast (drop_bit 24 v))"

definition swap_bytes16 :: "u16 \<Rightarrow> u16" where
  "swap_bytes16 v = push_bit 8 v OR drop_bit 8 v"

definition swap_bytes32 :: "u32 \<Rightarrow> u32" where
  "swap_bytes32 v = push_bit 24 v OR push_bit 8 (v AND 0x0000FF00)
     OR drop_bit 8 (v AND 0x00FF0000) OR drop_bit 24 v"

definition swap_bytes64 :: "u64 \<Rightarrow> u64" where
  "swap_bytes64 v = push_bit 56 v
     OR push_bit 40 (v AND 0x000000000000FF00)
     OR push_bit 24 (v AND 0x0000000000FF0000)
     OR push_bit 8 (v AND 0x00000000FF000000)
     OR drop_bit 8 (v AND 0x000000FF00000000)
     OR drop_bit 24 (v AND 0x0000FF0000000000)
     OR drop_bit 40 (v AND 0x00FF000000000000)
     OR drop_bit 56 v"

text \<open>\<^verbatim>\<open>get_le16\<close> and friends on the little-endian target.\<close>

definition get_le16 :: "mem \<Rightarrow> u32 \<Rightarrow> u16" where "get_le16 m p = load16 m p"
definition get_le32 :: "mem \<Rightarrow> u32 \<Rightarrow> u32" where "get_le32 m p = load32 m p"
definition get_le64 :: "mem \<Rightarrow> u32 \<Rightarrow> u64" where "get_le64 m p = load64 m p"
definition get_be16 :: "mem \<Rightarrow> u32 \<Rightarrow> u16" where "get_be16 m p = swap_bytes16 (load16 m p)"
definition get_be32 :: "mem \<Rightarrow> u32 \<Rightarrow> u32" where "get_be32 m p = swap_bytes32 (load32 m p)"
definition get_be64 :: "mem \<Rightarrow> u32 \<Rightarrow> u64" where "get_be64 m p = swap_bytes64 (load64 m p)"

section \<open>The string instructions\<close>

text \<open>
  One \<^verbatim>\<open>movsl\<close> reads four bytes and then writes them; \<open>w\<close> is the width (4 for
  \<^verbatim>\<open>movsl\<close>, 1 for \<^verbatim>\<open>movsb\<close>). \<open>copied\<close> is the memory after
  \<open>n\<close> bytes were read at once from \<open>src\<close> and then written at \<open>dst\<close>.
\<close>

definition copied :: "mem \<Rightarrow> u32 \<Rightarrow> u32 \<Rightarrow> nat \<Rightarrow> mem" where
  "copied m dst src n = (\<lambda>a. if unat (a - dst) < n then m (src + (a - dst)) else m a)"

definition filled :: "mem \<Rightarrow> u32 \<Rightarrow> u8 \<Rightarrow> nat \<Rightarrow> mem" where
  "filled m dst c n = (\<lambda>a. if unat (a - dst) < n then c else m a)"

text \<open>\<open>rep movs\<close> with the direction flag clear and set; \<open>(m, edi, esi)\<close>.\<close>

fun rep_movs_up :: "nat \<Rightarrow> nat \<Rightarrow> mem \<times> u32 \<times> u32 \<Rightarrow> mem \<times> u32 \<times> u32" where
  "rep_movs_up w 0 s = s"
| "rep_movs_up w (Suc k) (m, d, s) =
     rep_movs_up w k (copied m d s w, d + of_nat w, s + of_nat w)"

fun rep_movs_down :: "nat \<Rightarrow> nat \<Rightarrow> mem \<times> u32 \<times> u32 \<Rightarrow> mem \<times> u32 \<times> u32" where
  "rep_movs_down w 0 s = s"
| "rep_movs_down w (Suc k) (m, d, s) =
     rep_movs_down w k (copied m d s w, d - of_nat w, s - of_nat w)"

fun rep_stos :: "nat \<Rightarrow> nat \<Rightarrow> u8 \<Rightarrow> mem \<times> u32 \<Rightarrow> mem \<times> u32" where
  "rep_stos w 0 c s = s"
| "rep_stos w (Suc k) c (m, d) = rep_stos w k c (filled m d c w, d + of_nat w)"

definition memcpy :: "mem \<Rightarrow> u32 \<Rightarrow> u32 \<Rightarrow> u32 \<Rightarrow> mem" where
  "memcpy m dst src len =
     (let s1 = rep_movs_up 4 (unat len div 4) (m, dst, src);
          s2 = rep_movs_up 1 (unat len mod 4) s1
      in fst s2)"

definition memset :: "mem \<Rightarrow> u32 \<Rightarrow> u8 \<Rightarrow> u32 \<Rightarrow> mem" where
  "memset m dst c len =
     (let s1 = rep_stos 4 (unat len div 4) c (m, dst);
          s2 = rep_stos 1 (unat len mod 4) c s1
      in fst s2)"

text \<open>
  \<^verbatim>\<open>memmove\<close>: upwards when \<open>dst\<close> is below \<open>src\<close>; otherwise both pointers start at
  the last dword (at the last byte when fewer than four bytes move) and run downwards. The byte
  loop continues from where the dword loop left the pointers.
\<close>

definition memmove :: "mem \<Rightarrow> u32 \<Rightarrow> u32 \<Rightarrow> u32 \<Rightarrow> mem" where
  "memmove m dst src len =
     (if dst < src then memcpy m dst src len
      else
        let d = dst + len; s = src + len;
            w = (if sint len \<ge> 4 then 4 else 1);
            s1 = rep_movs_down 4 (unat len div 4) (m, d - w, s - w);
            s2 = rep_movs_down 1 (unat len mod 4) s1
        in fst s2)"

section \<open>Copying\<close>

lemma copied_0 [simp]: "copied m d s 0 = m"
  by (simp add: copied_def)

lemma filled_0 [simp]: "filled m d c 0 = m"
  by (simp add: filled_def)

lemma copied_at: "i < n \<Longrightarrow> n \<le> 2 ^ 32 \<Longrightarrow> copied m d s n (d + of_nat i) = m (s + of_nat i)"
  by (simp add: copied_def to_nat)

lemma copied_same [simp]: "copied m d d n = m"
  by (auto simp: copied_def)

lemma copied_in: "unat (a - d) < n \<Longrightarrow> copied m d s n a = m (s + (a - d))"
  and copied_out: "\<not> unat (a - d) < n \<Longrightarrow> copied m d s n a = m a"
  by (simp_all add: copied_def)

text \<open>
  Reading ahead of the writes is safe: no byte of the source that is still to be read lies in the
  part of the destination already written.
\<close>

definition up_safe :: "u32 \<Rightarrow> u32 \<Rightarrow> nat \<Rightarrow> bool" where
  "up_safe dst src n \<longleftrightarrow> dst = src \<or> n \<le> unat (dst - src)"

lemma unat_shift:
  fixes a d :: u32
  assumes "k < 2 ^ 32"
  shows "unat (a - (d + of_nat k)) =
    (if k \<le> unat (a - d) then unat (a - d) - k else unat (a - d) + 2 ^ 32 - k)"
proof -
  have eq: "a - (d + of_nat k) = (a - d) - of_nat k" by simp
  have k: "unat (of_nat k :: u32) = k" using assms by (simp add: to_nat)
  show ?thesis
    unfolding eq using unat_sub_if' [of "a - d" "of_nat k"] by (simp add: k)
qed

lemma copied_compose:
  assumes safe: "up_safe dst src (k + n)" and le: "k + n \<le> 2 ^ 32" and k: "k < 2 ^ 32"
  shows "copied (copied m dst src k) (dst + of_nat k) (src + of_nat k) n =
    copied m dst src (k + n)" (is "?l = ?r")
proof
  fix a :: u32
  let ?o = "unat (a - dst)"
  have o: "?o < 2 ^ 32" by (rule unat_lt32)
  have sh: "unat (a - (dst + of_nat k)) = (if k \<le> ?o then ?o - k else ?o + 2 ^ 32 - k)"
    by (rule unat_shift [OF k])
  show "?l a = ?r a"
  proof (cases "k \<le> ?o \<and> ?o < k + n")
    case True
    have "unat (src + (a - dst) - dst) < k \<Longrightarrow> dst = src"
    proof (rule ccontr)
      assume lt: "unat (src + (a - dst) - dst) < k" and ne: "dst \<noteq> src"
      with safe have g: "k + n \<le> unat (dst - src)" by (simp add: up_safe_def)
      have "src + (a - dst) - dst = (a - dst) - (dst - src)" by simp
      then have "unat (src + (a - dst) - dst) = unat ((a - dst) - (dst - src))" by metis
      moreover have "unat ((a - dst) - (dst - src)) = ?o + 2 ^ 32 - unat (dst - src)"
        using True g unat_sub_if' [of "a - dst" "dst - src"] by simp
      ultimately show False
        using lt True unat_lt32 [of "dst - src"] by linarith
    qed
    then have "copied m dst src k (src + (a - dst)) = m (src + (a - dst))"
      by (cases "dst = src") (auto simp: copied_def)
    moreover have "src + of_nat k + (a - (dst + of_nat k)) = src + (a - dst)" by simp
    moreover have "unat (a - (dst + of_nat k)) < n" using True sh by auto
    ultimately show ?thesis
      using True by (simp add: copied_in)
  next
    case False
    then have "\<not> unat (a - (dst + of_nat k)) < n" using sh le o by auto
    moreover have "(?o < k) = (?o < k + n)" using False by auto
    ultimately show ?thesis
      by (cases "?o < k") (simp_all add: copied_out copied_in)
  qed
qed

lemma up_safe_mono: "up_safe d s n \<Longrightarrow> k \<le> n \<Longrightarrow> up_safe d s k"
  by (auto simp: up_safe_def)

text \<open>An upward \<open>rep movs\<close> continues a copy of the first \<open>j\<close> bytes.\<close>

lemma rep_movs_up_copied:
  assumes "up_safe dst src (j + w * k)" and "j + w * k < 2 ^ 32"
  shows "rep_movs_up w k (copied m dst src j, dst + of_nat j, src + of_nat j) =
    (copied m dst src (j + w * k), dst + of_nat (j + w * k), src + of_nat (j + w * k))"
  using assms
proof (induction k arbitrary: j)
  case 0
  then show ?case by simp
next
  case (Suc k)
  have c: "copied (copied m dst src j) (dst + of_nat j) (src + of_nat j) w =
      copied m dst src (j + w)"
    using Suc.prems by (intro copied_compose) (auto elim!: up_safe_mono)
  have "rep_movs_up w k (copied m dst src (j + w), dst + of_nat (j + w), src + of_nat (j + w)) =
      (copied m dst src ((j + w) + w * k), dst + of_nat ((j + w) + w * k),
       src + of_nat ((j + w) + w * k))"
    using Suc.prems by (intro Suc.IH) (simp_all add: algebra_simps)
  with c show ?case by (simp add: algebra_simps)
qed

lemma memcpy_copied:
  assumes "up_safe dst src (unat len)"
  shows "memcpy m dst src len = copied m dst src (unat len)"
proof -
  let ?q = "4 * (unat len div 4)" and ?r = "unat len mod 4"
  have sum: "?q + 1 * ?r = unat len" by simp
  have lt: "unat len < 2 ^ 32" by (rule unat_lt32)
  have "up_safe dst src ?q" "?q < 2 ^ 32"
    using assms lt by (auto elim!: up_safe_mono)
  then have "rep_movs_up 4 (unat len div 4) (m, dst, src) =
      (copied m dst src ?q, dst + of_nat ?q, src + of_nat ?q)"
    using rep_movs_up_copied [of dst src 0 4 "unat len div 4" m] by simp
  moreover have "rep_movs_up 1 ?r (copied m dst src ?q, dst + of_nat ?q, src + of_nat ?q) =
      (copied m dst src (?q + 1 * ?r), dst + of_nat (?q + 1 * ?r), src + of_nat (?q + 1 * ?r))"
    using rep_movs_up_copied [of dst src ?q 1 ?r m] assms lt sum by simp
  ultimately show ?thesis
    by (simp only: memcpy_def Let_def sum fst_conv)
qed

text \<open>The downward direction: the last \<open>n\<close> bytes are already in place.\<close>

definition down_safe :: "u32 \<Rightarrow> u32 \<Rightarrow> nat \<Rightarrow> bool" where
  "down_safe dst src n \<longleftrightarrow> dst = src \<or> n \<le> unat (src - dst)"

lemma copied_compose_down:
  assumes safe: "down_safe dst src (k + n)" and le: "k + n \<le> 2 ^ 32" and k: "k < 2 ^ 32"
  shows "copied (copied m (dst + of_nat k) (src + of_nat k) n) dst src k =
    copied m dst src (k + n)" (is "?l = ?r")
proof
  fix a :: u32
  let ?o = "unat (a - dst)"
  have sh: "unat (x - (dst + of_nat k)) =
      (if k \<le> unat (x - dst) then unat (x - dst) - k else unat (x - dst) + 2 ^ 32 - k)" for x
    by (rule unat_shift [OF k])
  show "?l a = ?r a"
  proof (cases "?o < k")
    case True
    have "unat (src + (a - dst) - (dst + of_nat k)) < n \<Longrightarrow> dst = src"
    proof (rule ccontr)
      assume lt: "unat (src + (a - dst) - (dst + of_nat k)) < n" and ne: "dst \<noteq> src"
      with safe have g: "k + n \<le> unat (src - dst)" by (simp add: down_safe_def)
      define b where "b = src + (a - dst)"
      have bd: "b - dst = (a - dst) + (src - dst)" by (simp add: b_def)
      have "unat (b - dst) = (if ?o + unat (src - dst) < 2 ^ 32 then ?o + unat (src - dst)
           else ?o + unat (src - dst) - 2 ^ 32)"
        unfolding bd using unat_plus_if' [of "a - dst" "src - dst"] by simp
      then have "unat (b - dst) \<ge> k + n \<or> unat (b - dst) < ?o"
        using g unat_lt32 [of "src - dst"] unat_lt32 [of "a - dst"] by (auto split: if_splits)
      then show False
        using lt [folded b_def] True sh [of b] le unat_lt32 [of "b - dst"]
        by (auto split: if_splits)
    qed
    then have "copied m (dst + of_nat k) (src + of_nat k) n (src + (a - dst)) = m (src + (a - dst))"
      by (cases "dst = src") (auto simp: copied_def)
    then show ?thesis
      using True by (simp add: copied_in)
  next
    case False
    have s: "src + of_nat k + (a - (dst + of_nat k)) = src + (a - dst)" by simp
    have "(unat (a - (dst + of_nat k)) < n) = (?o < k + n)"
      using False sh [of a] by auto
    then show ?thesis
      using False s by (cases "?o < k + n") (simp_all add: copied_in copied_out)
  qed
qed

lemma down_safe_mono: "down_safe d s n \<Longrightarrow> k \<le> n \<Longrightarrow> down_safe d s k"
  by (auto simp: down_safe_def)

lemma rep_movs_down_copied:
  assumes "down_safe dst src (w * k + n)" and "w * k + n < 2 ^ 32"
  shows "fst (rep_movs_down w k (copied m (dst + of_nat (w * k)) (src + of_nat (w * k)) n,
      dst + of_nat (w * k) - of_nat w, src + of_nat (w * k) - of_nat w)) =
    copied m dst src (w * k + n)"
  using assms
proof (induction k arbitrary: n)
  case 0
  then show ?case by simp
next
  case (Suc k)
  let ?d = "dst + of_nat (w * k)" and ?s = "src + of_nat (w * k)"
  have d: "dst + of_nat (w * Suc k) - of_nat w = ?d" "src + of_nat (w * Suc k) - of_nat w = ?s"
    and d': "dst + of_nat (w * Suc k) = ?d + of_nat w" "src + of_nat (w * Suc k) = ?s + of_nat w"
    by (simp_all add: algebra_simps)
  have ds: "down_safe ?d ?s (w + n)"
    using Suc.prems by (auto simp: down_safe_def)
  have c: "copied (copied m (?d + of_nat w) (?s + of_nat w) n) ?d ?s w = copied m ?d ?s (w + n)"
    using Suc.prems ds by (intro copied_compose_down) auto
  have "fst (rep_movs_down w k (copied m ?d ?s (w + n), ?d - of_nat w, ?s - of_nat w)) =
      copied m dst src (w * k + (w + n))"
    using Suc.prems by (intro Suc.IH) (simp_all add: algebra_simps)
  with c show ?case
    by (simp only: d d' rep_movs_down.simps) (simp add: algebra_simps)
qed

lemma memmove_copied:
  assumes wrap: "unat dst + unat len \<le> 2 ^ 32" "unat src + unat len \<le> 2 ^ 32"
    and tail: "dst < src \<or> unat len mod 4 = 0 \<or> unat len < 4"
    and small: "unat len < 2 ^ 31"
  shows "memmove m dst src len = copied m dst src (unat len)"
proof (cases "dst < src")
  case True
  then have "unat (dst - src) = unat dst + 2 ^ 32 - unat src"
    using unat_sub_if' [of dst src] by (simp add: word_less_nat_alt)
  then have "unat len \<le> unat (dst - src)"
    using wrap by linarith
  then have "up_safe dst src (unat len)"
    by (simp add: up_safe_def)
  with True show ?thesis by (simp add: memmove_def memcpy_copied)
next
  case False
  have "dst = src \<or> unat (src - dst) = unat src + 2 ^ 32 - unat dst"
    using False unat_sub_if' [of src dst] word_unat_eq_iff [of dst src]
    by (auto simp: word_less_nat_alt word_le_nat_alt not_less)
  then have safe: "down_safe dst src (unat len)"
    using wrap by (auto simp: down_safe_def)
  have sint: "sint len = int (unat len)"
    using small by (rule sint_small)
  have len: "of_nat (unat len) = len" by simp
  show ?thesis
  proof (cases "unat len < 4")
    case True
    then have z: "unat len div 4 = 0" "unat len mod 4 = unat len" by simp_all
    have "\<not> 4 \<le> sint len" using True sint by linarith
    then show ?thesis
      using rep_movs_down_copied [of dst src 1 "unat len" 0 m] safe True False z
      by (simp add: memmove_def Let_def)
  next
    case lt: False
    with tail False have m: "unat len mod 4 = 0" by simp
    then have d: "4 * (unat len div 4) = unat len" by presburger
    have "fst (rep_movs_down 4 (unat len div 4) (copied m (dst + len) (src + len) 0,
        dst + len - 4, src + len - 4)) = copied m dst src (unat len)"
      using rep_movs_down_copied [of dst src 4 "unat len div 4" 0 m] safe unat_lt32 [of len]
      by (simp add: d len del: of_nat_mult)
    moreover have "4 \<le> sint len" using lt sint by linarith
    ultimately show ?thesis
      using False m by (simp add: memmove_def Let_def)
  qed
qed

section \<open>Filling\<close>

lemma filled_compose:
  assumes "k + n \<le> 2 ^ 32" "k < 2 ^ 32"
  shows "filled (filled m d c k) (d + of_nat k) c n = filled m d c (k + n)"
proof
  fix a :: u32
  show "filled (filled m d c k) (d + of_nat k) c n a = filled m d c (k + n) a"
    using unat_shift [OF assms(2), of a d] assms(1) unat_lt32 [of "a - d"]
    by (auto simp: filled_def)
qed

lemma rep_stos_filled:
  assumes "j + w * k < 2 ^ 32"
  shows "rep_stos w k c (filled m d c j, d + of_nat j) =
    (filled m d c (j + w * k), d + of_nat (j + w * k))"
  using assms
proof (induction k arbitrary: j)
  case 0
  then show ?case by simp
next
  case (Suc k)
  have "filled (filled m d c j) (d + of_nat j) c w = filled m d c (j + w)"
    using Suc.prems by (intro filled_compose) auto
  moreover have "rep_stos w k c (filled m d c (j + w), d + of_nat (j + w)) =
      (filled m d c ((j + w) + w * k), d + of_nat ((j + w) + w * k))"
    using Suc.prems by (intro Suc.IH) (simp add: algebra_simps)
  ultimately show ?case by (simp add: algebra_simps)
qed

lemma memset_filled: "memset m d c len = filled m d c (unat len)"
proof -
  let ?q = "4 * (unat len div 4)" and ?r = "unat len mod 4"
  have sum: "?q + 1 * ?r = unat len" by simp
  have lt: "unat len < 2 ^ 32" by (rule unat_lt32)
  have "rep_stos 4 (unat len div 4) c (m, d) = (filled m d c ?q, d + of_nat ?q)"
    using rep_stos_filled [of 0 4 "unat len div 4" c m d] lt by simp
  moreover have "rep_stos 1 ?r c (filled m d c ?q, d + of_nat ?q) =
      (filled m d c (?q + 1 * ?r), d + of_nat (?q + 1 * ?r))"
    using rep_stos_filled [of ?q 1 ?r c m d] lt sum by simp
  ultimately show ?thesis
    by (simp only: memset_def Let_def sum fst_conv)
qed

section \<open>Byte order\<close>

lemma swap_bytes16_twice [simp]: "swap_bytes16 (swap_bytes16 v) = v"
  by (rule bit_eqI) (auto simp: swap_bytes16_def bit_simps)

lemma load32_store32 [simp]: "load32 (store32 m a v) a = v"
proof -
  have ne: "a + 1 \<noteq> a" "a + 2 \<noteq> a" "a + 3 \<noteq> a" "a + 2 \<noteq> a + 1" "a + 3 \<noteq> a + 1" "a + 3 \<noteq> a + 2"
    by simp_all
  show ?thesis
  proof (rule bit_eqI)
    fix n :: nat
    consider "n < 8" | "8 \<le> n" "n < 16" | "16 \<le> n" "n < 24" | "24 \<le> n" by linarith
    then show "bit (load32 (store32 m a v) a) n = bit v n"
      by cases (auto simp: load32_def store32_def bit_simps ne dest: bit_imp_le_length)
  qed
qed

end
