(* ===== verification/Cstring.thy ===== *)
theory Cstring
  imports Cmem "HOL-Library.Monad_Syntax"
begin

text \<open>
  \<^verbatim>\<open>src/core/string.c\<close>: the string routines over the flat memory of \<open>Cmem\<close>. Pointers are
  32-bit words and \<open>0\<close> is \<^verbatim>\<open>NULL\<close>. A loop that runs to a terminator is a
  \<open>partial_function\<close> in the option monad: \<open>None\<close> means that the loop does not return. The
  theorems relate each routine to a list of bytes stored with its terminator (\<open>cstr\<close>), and show
  for such arguments that it returns.
\<close>

section \<open>Character classes\<close>

definition is_digit :: "u8 \<Rightarrow> bool" where
  "is_digit ch \<longleftrightarrow> ch \<ge> 0x30 \<and> ch \<le> 0x39"

definition is_xdigit :: "u8 \<Rightarrow> bool" where
  "is_xdigit ch \<longleftrightarrow>
     (if is_digit ch then True
      else if ch \<ge> 0x61 \<and> ch \<le> 0x66 then True
      else ch \<ge> 0x41 \<and> ch \<le> 0x46)"

definition tolower :: "u8 \<Rightarrow> u8" where
  "tolower x = x OR 0x20"

section \<open>The routines\<close>

fun memcmp_loop :: "mem \<Rightarrow> u32 \<Rightarrow> u32 \<Rightarrow> nat \<Rightarrow> int" where
  "memcmp_loop m a b 0 = 0"
| "memcmp_loop m a b (Suc k) =
     (if m a < m b then -1 else if m a > m b then 1 else memcmp_loop m (a + 1) (b + 1) k)"

definition memcmp :: "mem \<Rightarrow> u32 \<Rightarrow> u32 \<Rightarrow> u32 \<Rightarrow> int" where
  "memcmp m p1 p2 n = memcmp_loop m p1 p2 (unat n)"

partial_function (option) strcmp :: "mem \<Rightarrow> u32 \<Rightarrow> u32 \<Rightarrow> int option" where
  "strcmp m s1 s2 =
     (if m s1 \<noteq> 0 \<or> m s2 \<noteq> 0 then
        (let delta = sint (m s1) - sint (m s2)
         in if delta \<noteq> 0 then Some delta else strcmp m (s1 + 1) (s2 + 1))
      else Some 0)"

fun strncmp_loop :: "mem \<Rightarrow> u32 \<Rightarrow> u32 \<Rightarrow> nat \<Rightarrow> int" where
  "strncmp_loop m p1 p2 0 = 0"
| "strncmp_loop m p1 p2 (Suc count) =
     (let c1 = m p1; c2 = m p2 in
      if c1 \<noteq> c2 then (if c1 < c2 then -1 else 1)
      else if c1 = 0 then 0
      else strncmp_loop m (p1 + 1) (p2 + 1) count)"

definition strncmp :: "mem \<Rightarrow> u32 \<Rightarrow> u32 \<Rightarrow> u32 \<Rightarrow> int" where
  "strncmp m p1 p2 count = strncmp_loop m p1 p2 (unat count)"

fun strnlen_loop :: "mem \<Rightarrow> u32 \<Rightarrow> nat \<Rightarrow> u32" where
  "strnlen_loop m es 0 = es"
| "strnlen_loop m es (Suc k) = (if m es \<noteq> 0 then strnlen_loop m (es + 1) k else es)"

definition strnlen :: "mem \<Rightarrow> u32 \<Rightarrow> u32 \<Rightarrow> u32" where
  "strnlen m str maxlen = strnlen_loop m str (unat maxlen) - str"

partial_function (option) strlen_loop :: "mem \<Rightarrow> u32 \<Rightarrow> u32 option" where
  "strlen_loop m sc = (if m sc = 0 then Some sc else strlen_loop m (sc + 1))"

definition strlen :: "mem \<Rightarrow> u32 \<Rightarrow> u32 option" where
  "strlen m str = map_option (\<lambda>sc. sc - str) (strlen_loop m str)"

text \<open>\<^verbatim>\<open>strcpy\<close> copies \<open>strlen\<close> bytes, so not the terminator.\<close>

definition strcpy :: "mem \<Rightarrow> u32 \<Rightarrow> u32 \<Rightarrow> mem option" where
  "strcpy m dst str = do { n \<leftarrow> strlen m str; Some (memcpy m dst str n) }"

fun strncpy_loop :: "mem \<Rightarrow> u32 \<Rightarrow> u32 \<Rightarrow> nat \<Rightarrow> mem" where
  "strncpy_loop m dst str 0 = m"
| "strncpy_loop m dst str (Suc k) = strncpy_loop (m(dst := m str)) (dst + 1) (str + 1) k"

definition strncpy :: "mem \<Rightarrow> u32 \<Rightarrow> u32 \<Rightarrow> u32 \<Rightarrow> mem option" where
  "strncpy m dst str len =
     do { n \<leftarrow> strlen m str;
          if len \<ge> n then strcpy m dst str else Some (strncpy_loop m dst str (unat len)) }"

partial_function (option) strstr_loop :: "mem \<Rightarrow> u32 \<Rightarrow> u32 \<Rightarrow> u32 \<Rightarrow> u32 \<Rightarrow> u32 option" where
  "strstr_loop m str1 str2 len1 len2 =
     (if len1 \<ge> len2 then
        (if memcmp m str1 str2 len2 = 0 then Some str1
         else strstr_loop m (str1 + 1) str2 (len1 - 1) len2)
      else Some 0)"

definition strstr :: "mem \<Rightarrow> u32 \<Rightarrow> u32 \<Rightarrow> u32 option" where
  "strstr m str1 str2 =
     do { len2 \<leftarrow> strlen m str2;
          if len2 = 0 then Some str1
          else do { len1 \<leftarrow> strlen m str1; strstr_loop m str1 str2 len1 len2 } }"

partial_function (option) strchr :: "mem \<Rightarrow> u32 \<Rightarrow> u8 \<Rightarrow> u32 option" where
  "strchr m str c =
     (if m str \<noteq> c then (if m str = 0 then Some 0 else strchr m (str + 1) c) else Some str)"

partial_function (option) strrchr_loop :: "mem \<Rightarrow> u32 \<Rightarrow> u8 \<Rightarrow> u32 \<Rightarrow> u32 option" where
  "strrchr_loop m str c ret =
     (if m ret \<noteq> c then (if ret = str then Some 0 else strrchr_loop m str c (ret - 1))
      else Some ret)"

definition strrchr :: "mem \<Rightarrow> u32 \<Rightarrow> u8 \<Rightarrow> u32 option" where
  "strrchr m str c = do { n \<leftarrow> strlen m str; strrchr_loop m str c (str + n - 1) }"

partial_function (option) strspn_loop :: "mem \<Rightarrow> u32 \<Rightarrow> u32 \<Rightarrow> u32 \<Rightarrow> u32 option" where
  "strspn_loop m str1 str2 ret =
     (if m str1 = 0 then Some ret
      else do { q \<leftarrow> strchr m str2 (m str1);
                if q \<noteq> 0 then strspn_loop m (str1 + 1) str2 (ret + 1) else Some ret })"

definition strspn :: "mem \<Rightarrow> u32 \<Rightarrow> u32 \<Rightarrow> u32 option" where
  "strspn m str1 str2 = strspn_loop m str1 str2 0"

partial_function (option) strcspn_loop :: "mem \<Rightarrow> u32 \<Rightarrow> u32 \<Rightarrow> u32 \<Rightarrow> u32 option" where
  "strcspn_loop m str1 str2 ret =
     (if m str1 = 0 then Some ret
      else do { q \<leftarrow> strchr m str2 (m str1);
                if q \<noteq> 0 then Some ret else strcspn_loop m (str1 + 1) str2 (ret + 1) })"

definition strcspn :: "mem \<Rightarrow> u32 \<Rightarrow> u32 \<Rightarrow> u32 option" where
  "strcspn m str1 str2 = strcspn_loop m str1 str2 0"

text \<open>\<^verbatim>\<open>strtok\<close>: the static pointer \<open>p\<close> is threaded; the result is
  \<open>(token, memory, p)\<close>.\<close>

definition strtok :: "mem \<Rightarrow> u32 \<Rightarrow> u32 \<Rightarrow> u32 \<Rightarrow> (u32 \<times> mem \<times> u32) option" where
  "strtok m p str delim =
     (if str = 0 \<and> p = 0 then Some (0, m, 0)
      else
        (let p = (if str \<noteq> 0 then str else p) in
         do { n \<leftarrow> strspn m p delim;
              let str = p + n;
              k \<leftarrow> strcspn m str delim;
              let p = str + k;
              if p = str then Some (0, m, 0)
              else if m p \<noteq> 0 then Some (str, m(p := 0), p + 1)
              else Some (str, m, 0) }))"

text \<open>\<^verbatim>\<open>strtok_r\<close>: \<open>store\<close> is the value of \<^verbatim>\<open>*store\<close>; the result is
  \<open>(token, memory, store)\<close>.\<close>

definition strtok_r :: "mem \<Rightarrow> u32 \<Rightarrow> u32 \<Rightarrow> u32 \<Rightarrow> (u32 \<times> mem \<times> u32) option" where
  "strtok_r m str delim store =
     (let str = (if str = 0 then store else str) in
      if m str = 0 then Some (0, m, str)
      else do { n \<leftarrow> strspn m str delim;
                let str = str + n;
                if m str = 0 then Some (0, m, str)
                else do { k \<leftarrow> strcspn m str delim;
                          let e = str + k;
                          if m e = 0 then Some (str, m, e)
                          else Some (str, m(e := 0), e + 1) } })"

definition simple_guess_base :: "mem \<Rightarrow> u32 \<Rightarrow> u32" where
  "simple_guess_base m cp =
     (if m cp = 0x30 then
        (if tolower (m (cp + 1)) = 0x78 \<and> is_xdigit (m (cp + 2)) then 16 else 8)
      else 10)"

definition digit_value :: "u8 \<Rightarrow> u32" where
  "digit_value c = (if is_digit c then ucast c - 0x30 else ucast (tolower c) - 0x61 + 10)"

partial_function (option) strtoul_loop ::
  "mem \<Rightarrow> u32 \<Rightarrow> u32 \<Rightarrow> u32 \<Rightarrow> (u32 \<times> u32) option" where
  "strtoul_loop m cp base result =
     (if is_xdigit (m cp) then
        (let value = digit_value (m cp) in
         if value \<ge> base then Some (result, cp)
         else strtoul_loop m (cp + 1) base (result * base + value))
      else Some (result, cp))"

text \<open>The result is \<open>(value, *endp)\<close>.\<close>

definition strtoul :: "mem \<Rightarrow> u32 \<Rightarrow> u32 \<Rightarrow> (u32 \<times> u32) option" where
  "strtoul m cp base =
     (let base = (if base = 0 then simple_guess_base m cp else base);
          cp = (if base = 16 \<and> m cp = 0x30 \<and> tolower (m (cp + 1)) = 0x78 then cp + 2 else cp)
      in strtoul_loop m cp base 0)"

definition strtol :: "mem \<Rightarrow> u32 \<Rightarrow> u32 \<Rightarrow> (u32 \<times> u32) option" where
  "strtol m cp base =
     (if m cp = 0x2D then map_option (\<lambda>(v, e). (- v, e)) (strtoul m (cp + 1) base)
      else strtoul m cp base)"

section \<open>Stored strings\<close>

text \<open>\<open>cstr m p s\<close>: the bytes \<open>s\<close>, none of them zero, lie at \<open>p\<close> with their terminator.\<close>

primrec cstr :: "mem \<Rightarrow> u32 \<Rightarrow> u8 list \<Rightarrow> bool" where
  "cstr m p [] \<longleftrightarrow> m p = 0"
| "cstr m p (c # s) \<longleftrightarrow> m p = c \<and> c \<noteq> 0 \<and> cstr m (p + 1) s"

lemma cstr_nz: "cstr m p s \<Longrightarrow> 0 \<notin> set s"
  by (induction s arbitrary: p) auto

lemma cstr_append:
  "cstr m p (s @ t) \<Longrightarrow> cstr m (p + of_nat (length s)) t"
  by (induction s arbitrary: p) (auto simp flip: add.assoc)

lemma cstr_nth: "cstr m p s \<Longrightarrow> i < length s \<Longrightarrow> m (p + of_nat i) = s ! i"
  by (induction s arbitrary: p i) (auto simp: nth_Cons simp flip: add.assoc split: nat.splits)

lemma cstr_end: "cstr m p s \<Longrightarrow> m (p + of_nat (length s)) = 0"
  by (induction s arbitrary: p) (auto simp flip: add.assoc)

lemma cstr_unique: "cstr m p s \<Longrightarrow> cstr m p t \<Longrightarrow> s = t"
proof (induction s arbitrary: p t)
  case Nil
  then show ?case by (cases t) auto
next
  case (Cons c s)
  then show ?case by (cases t) auto
qed

lemma cstrI:
  "(\<And>i. i < length s \<Longrightarrow> m (p + of_nat i) = s ! i) \<Longrightarrow> 0 \<notin> set s \<Longrightarrow>
   m (p + of_nat (length s)) = 0 \<Longrightarrow> cstr m p s"
proof (induction s arbitrary: p)
  case Nil
  then show ?case by simp
next
  case (Cons c s)
  have "cstr m (p + 1) s"
  proof (rule Cons.IH)
    show "m (p + 1 + of_nat i) = s ! i" if "i < length s" for i
      using Cons.prems(1) [of "Suc i"] that by (simp add: algebra_simps)
  qed (use Cons.prems in \<open>auto simp: algebra_simps\<close>)
  with Cons.prems(1) [of 0] Cons.prems(2) show ?case by auto
qed

section \<open>Lengths and comparison\<close>

lemma strlen_loop_cstr: "cstr m p s \<Longrightarrow> strlen_loop m p = Some (p + of_nat (length s))"
proof (induction s arbitrary: p)
  case Nil
  then show ?case by (subst strlen_loop.simps) simp
next
  case (Cons c s)
  then show ?case by (subst strlen_loop.simps) (auto simp: algebra_simps)
qed

lemma strlen_cstr [simp]: "cstr m p s \<Longrightarrow> strlen m p = Some (of_nat (length s))"
  by (simp add: strlen_def strlen_loop_cstr)

lemma strnlen_loop_cstr:
  "cstr m p s \<Longrightarrow> strnlen_loop m p k = p + of_nat (min (length s) k)"
proof (induction s arbitrary: p k)
  case Nil
  then show ?case by (cases k) auto
next
  case (Cons c s)
  then show ?case by (cases k) (auto simp: algebra_simps)
qed

lemma strnlen_cstr: "cstr m p s \<Longrightarrow> strnlen m p n = of_nat (min (length s) (unat n))"
  by (simp add: strnlen_def strnlen_loop_cstr)

text \<open>The first difference of two terminated strings, as signed characters.\<close>

fun char_delta :: "u8 list \<Rightarrow> u8 list \<Rightarrow> int" where
  "char_delta [] [] = 0"
| "char_delta (c # s) [] = sint c"
| "char_delta [] (d # t) = - sint d"
| "char_delta (c # s) (d # t) = (if c = d then char_delta s t else sint c - sint d)"

lemma sint_eq_iff: "sint (a::'a::len word) = sint b \<longleftrightarrow> a = b"
  by (rule word_eq_iff_signed [symmetric])

lemma sint_zero_iff: "sint (a::'a::len word) = 0 \<longleftrightarrow> a = 0"
  by (metis sint_eq_iff sint_0)

lemma strcmp_delta:
  "cstr m p s \<Longrightarrow> cstr m q t \<Longrightarrow> strcmp m p q = Some (char_delta s t)"
proof (induction s t arbitrary: p q rule: char_delta.induct)
  case 1
  then show ?case by (subst strcmp.simps) simp
next
  case (2 c s)
  then show ?case by (subst strcmp.simps) (auto simp: sint_zero_iff)
next
  case (3 d t)
  then show ?case by (subst strcmp.simps) (auto simp: sint_zero_iff)
next
  case (4 c s d t)
  then show ?case by (subst strcmp.simps) (auto simp: sint_eq_iff Let_def)
qed

lemma char_delta_zero_iff: "0 \<notin> set s \<Longrightarrow> 0 \<notin> set t \<Longrightarrow> char_delta s t = 0 \<longleftrightarrow> s = t"
  by (induction s t rule: char_delta.induct) (auto simp: sint_zero_iff sint_eq_iff)

lemma strcmp_zero_iff:
  assumes "cstr m p s" and "cstr m q t"
  shows "\<exists>d. strcmp m p q = Some d \<and> (d = 0 \<longleftrightarrow> s = t)"
  using strcmp_delta [OF assms] char_delta_zero_iff assms cstr_nz by blast

lemma strncmp_loop_zero_iff:
  "cstr m p s \<Longrightarrow> cstr m q t \<Longrightarrow> strncmp_loop m p q k = 0 \<longleftrightarrow> take k s = take k t"
proof (induction k arbitrary: p q s t)
  case 0
  then show ?case by simp
next
  case (Suc k)
  then show ?case
    by (cases s; cases t) (auto simp: Let_def)
qed

lemma strncmp_zero_iff:
  "cstr m p s \<Longrightarrow> cstr m q t \<Longrightarrow>
   strncmp m p q n = 0 \<longleftrightarrow> take (unat n) s = take (unat n) t"
  by (simp add: strncmp_def strncmp_loop_zero_iff)

lemma memcmp_loop_zero_iff:
  "memcmp_loop m a b k = 0 \<longleftrightarrow> (\<forall>i<k. m (a + of_nat i) = m (b + of_nat i))"
proof (induction k arbitrary: a b)
  case 0
  then show ?case by simp
next
  case (Suc k)
  show ?case
    using Suc.IH [of "a + 1" "b + 1"]
    by (auto simp: All_less_Suc2 algebra_simps)
qed

section \<open>Searching\<close>

lemma strchr_cstr:
  "cstr m p s \<Longrightarrow> c \<noteq> 0 \<Longrightarrow> strchr m p c =
     Some (if c \<in> set s then p + of_nat (length (takeWhile (\<lambda>d. d \<noteq> c) s)) else 0)"
proof (induction s arbitrary: p)
  case Nil
  then show ?case by (subst strchr.simps) simp
next
  case (Cons d s)
  then show ?case by (subst strchr.simps) (auto simp flip: add.assoc)
qed

text \<open>
  \<^verbatim>\<open>strspn\<close> and \<^verbatim>\<open>strcspn\<close> test the result of \<^verbatim>\<open>strchr\<close> against
  \<^verbatim>\<open>NULL\<close>, so the set string must not reach address 0.
\<close>

definition off_null :: "u32 \<Rightarrow> nat \<Rightarrow> bool" where
  "off_null p n \<longleftrightarrow> (\<forall>i<n. p + of_nat i \<noteq> 0)"

lemma strchr_set:
  assumes "cstr m q ds" "off_null q (length ds)" "c \<noteq> 0"
  shows "\<exists>r. strchr m q c = Some r \<and> (r \<noteq> 0 \<longleftrightarrow> c \<in> set ds)"
proof -
  have "length (takeWhile (\<lambda>d. d \<noteq> c) ds) < length ds" if "c \<in> set ds"
    using that by (induction ds) auto
  then show ?thesis
    using strchr_cstr [OF assms(1,3)] assms(2) by (auto simp: off_null_def)
qed

lemma strspn_loop_cstr:
  assumes "cstr m p s" "cstr m q ds" "off_null q (length ds)"
  shows "strspn_loop m p q r = Some (r + of_nat (length (takeWhile (\<lambda>c. c \<in> set ds) s)))"
  using assms(1)
proof (induction s arbitrary: p r)
  case Nil
  then show ?case by (subst strspn_loop.simps) simp
next
  case (Cons c s)
  then obtain w where "strchr m q c = Some w" "w \<noteq> 0 \<longleftrightarrow> c \<in> set ds"
    using strchr_set [OF assms(2,3), of c] by auto
  with Cons show ?case
    by (subst strspn_loop.simps) (auto simp: algebra_simps)
qed

lemma strcspn_loop_cstr:
  assumes "cstr m p s" "cstr m q ds" "off_null q (length ds)"
  shows "strcspn_loop m p q r = Some (r + of_nat (length (takeWhile (\<lambda>c. c \<notin> set ds) s)))"
  using assms(1)
proof (induction s arbitrary: p r)
  case Nil
  then show ?case by (subst strcspn_loop.simps) simp
next
  case (Cons c s)
  then obtain w where "strchr m q c = Some w" "w \<noteq> 0 \<longleftrightarrow> c \<in> set ds"
    using strchr_set [OF assms(2,3), of c] by auto
  with Cons show ?case
    by (subst strcspn_loop.simps) (auto simp: algebra_simps)
qed

lemmas strspn_cstr = strspn_loop_cstr [of _ _ _ _ _ 0, folded strspn_def, simplified]
lemmas strcspn_cstr = strcspn_loop_cstr [of _ _ _ _ _ 0, folded strcspn_def, simplified]

section \<open>Tokens\<close>

text \<open>The fields of a string between delimiters, and the tokens: the fields that are not empty.\<close>

fun fields :: "u8 list \<Rightarrow> u8 list \<Rightarrow> u8 list list" where
  "fields ds [] = [[]]"
| "fields ds (c # s) =
     (if c \<in> set ds then [] # fields ds s
      else (c # hd (fields ds s)) # tl (fields ds s))"

definition tokens :: "u8 list \<Rightarrow> u8 list \<Rightarrow> u8 list list" where
  "tokens ds s = filter (\<lambda>f. f \<noteq> []) (fields ds s)"

lemma fields_nonempty [simp]: "fields ds s \<noteq> []"
  by (cases s) auto

lemma fields_delim_free:
  "hd (fields ds s) = takeWhile (\<lambda>c. c \<notin> set ds) s \<and>
   tl (fields ds s) = (case dropWhile (\<lambda>c. c \<notin> set ds) s of [] \<Rightarrow> [] | _ # r \<Rightarrow> fields ds r)"
  by (induction s) auto

lemma tokens_skip: "tokens ds s = tokens ds (dropWhile (\<lambda>c. c \<in> set ds) s)"
  by (induction s) (auto simp: tokens_def)

lemma tokens_unfold:
  "tokens ds s =
     (case dropWhile (\<lambda>c. c \<in> set ds) s of [] \<Rightarrow> []
      | s1 \<Rightarrow> takeWhile (\<lambda>c. c \<notin> set ds) s1 # tokens ds (tl (dropWhile (\<lambda>c. c \<notin> set ds) s1)))"
proof (cases "dropWhile (\<lambda>c. c \<in> set ds) s")
  case Nil
  then show ?thesis
    by (simp only: tokens_skip [of ds s] list.case) (simp add: tokens_def)
next
  case (Cons c s1)
  then have c: "c \<notin> set ds"
    by (metis (mono_tags) hd_dropWhile list.discI list.sel(1))
  have "fields ds (c # s1) = hd (fields ds (c # s1)) # tl (fields ds (c # s1))"
    by simp
  then have "tokens ds (c # s1) =
      takeWhile (\<lambda>c. c \<notin> set ds) (c # s1) # filter (\<lambda>f. f \<noteq> []) (tl (fields ds (c # s1)))"
    using c fields_delim_free [of ds "c # s1"] by (auto simp: tokens_def)
  moreover have "filter (\<lambda>f. f \<noteq> []) (tl (fields ds (c # s1))) =
      tokens ds (tl (dropWhile (\<lambda>c. c \<notin> set ds) (c # s1)))"
    using fields_delim_free [of ds "c # s1"] c
    by (cases "dropWhile (\<lambda>c. c \<notin> set ds) s1")
      (simp_all add: tokens_def del: dropWhile_eq_Nil_conv)
  ultimately show ?thesis
    using Cons tokens_skip [of ds s] by simp
qed

text \<open>A terminated string occupies distinct addresses.\<close>

lemma cstr_length: "cstr m p s \<Longrightarrow> length s < 2 ^ 32"
proof (rule ccontr)
  assume c: "cstr m p s" and "\<not> length s < 2 ^ 32"
  then have ge: "2 ^ 32 \<le> length s" by simp
  let ?i = "length s - 2 ^ 32"
  have "of_nat (length s) = (of_nat ?i :: u32) + of_nat (2 ^ 32)"
    using ge by (simp only: flip: of_nat_add) simp
  then have "p + of_nat (length s) = p + of_nat ?i" by simp
  then have "m (p + of_nat ?i) = 0" using cstr_end [OF c] by simp
  moreover have lt: "?i < length s"
    by (rule diff_less) (use ge in auto)
  ultimately show False
    using cstr_nz [OF c] cstr_nth [OF c lt] nth_mem [OF lt] by simp
qed

lemma cstr_upd:
  assumes "cstr m p s" and "\<And>i. i \<le> length s \<Longrightarrow> p + of_nat i \<noteq> a"
  shows "cstr (m(a := v)) p s"
  using assms
proof (induction s arbitrary: p)
  case Nil
  from Nil.prems(2) [of 0] Nil.prems(1) show ?case by simp
next
  case (Cons c s)
  have "cstr (m(a := v)) (p + 1) s"
  proof (rule Cons.IH)
    show "p + 1 + of_nat i \<noteq> a" if "i \<le> length s" for i
      using Cons.prems(2) [of "Suc i"] that by (simp add: algebra_simps)
  qed (use Cons.prems in simp)
  moreover have "(m(a := v)) p = c"
    using Cons.prems(1) Cons.prems(2) [of 0] by auto
  ultimately show ?case
    using Cons.prems(1) by (simp only: cstr.simps simp_thms)
qed

lemma cstr_mid:
  assumes "cstr m p (a @ c # b)"
  shows "cstr (m(p + of_nat (length a) := 0)) p a"
    and "cstr m (p + of_nat (length a) + 1) b"
    and "m (p + of_nat (length a)) = c"
proof -
  have len: "length a + length b < 2 ^ 32" using cstr_length [OF assms] by simp
  have "m (p + of_nat i) = a ! i" if "i < length a" for i
    using cstr_nth [OF assms, of i] that by (simp add: nth_append)
  then show "cstr (m(p + of_nat (length a) := 0)) p a"
    using len cstr_nz [OF assms]
    by (intro cstrI) (auto simp: of_nat_eq_32)
  show "cstr m (p + of_nat (length a) + 1) b" "m (p + of_nat (length a)) = c"
    using cstr_append [OF assms] by auto
qed

text \<open>The region of a stored string, terminator excluded.\<close>

definition region :: "u32 \<Rightarrow> nat \<Rightarrow> u32 set" where
  "region p n = (\<lambda>i. p + of_nat i) ` {..<n}"

lemma region_mono: "k + n \<le> n' \<Longrightarrow> region (p + of_nat k) n \<subseteq> region p n'"
proof
  fix a assume le: "k + n \<le> n'" and "a \<in> region (p + of_nat k) n"
  then obtain i where "i < n" "a = p + of_nat (k + i)"
    by (auto simp: region_def add.assoc)
  with le show "a \<in> region p n'"
    by (simp only: region_def) (rule image_eqI [of _ _ "k + i"], auto)
qed

lemma region_disj:
  assumes "i + n \<le> j" "j + n' \<le> 2 ^ 32"
  shows "region (p + of_nat i) n \<inter> region (p + of_nat j) n' = {}"
proof -
  have False if "x < n" "y < n'" "p + of_nat i + of_nat x = p + of_nat j + of_nat y" for x y
  proof -
    from that(3) have "(of_nat (i + x) :: u32) = of_nat (j + y)" by (simp add: add.assoc)
    then show False
      using of_nat_eq_32 [of "i + x" "j + y"] that(1,2) assms by simp
  qed
  then show ?thesis by (auto simp: region_def)
qed

lemma cstr_agree:
  "cstr m p s \<Longrightarrow> (\<And>a. a \<in> region p (Suc (length s)) \<Longrightarrow> m' a = m a) \<Longrightarrow> cstr m' p s"
  using cstr_nth [of m p s] cstr_end [of m p s] cstr_nz [of m p s]
  by (intro cstrI) (auto simp: region_def)

text \<open>One call of \<^verbatim>\<open>strtok_r\<close> on a stored string.\<close>

lemma strtok_r_step:
  assumes s: "cstr m p s" and ds: "cstr m q ds" and q: "off_null q (length ds)"
    and arg: "(if str = 0 then store else str) = p"
    and s1: "s1 = dropWhile (\<lambda>c. c \<in> set ds) s"
    and t: "t = takeWhile (\<lambda>c. c \<notin> set ds) s1" and r: "r = dropWhile (\<lambda>c. c \<notin> set ds) s1"
    and k: "k = length (takeWhile (\<lambda>c. c \<in> set ds) s)"
  shows "s1 = [] \<Longrightarrow> \<exists>st. strtok_r m str q store = Some (0, m, st)"
    and "s1 \<noteq> [] \<Longrightarrow> r = [] \<Longrightarrow> strtok_r m str q store =
      Some (p + of_nat k, m, p + of_nat k + of_nat (length t))"
    and "s1 \<noteq> [] \<Longrightarrow> r \<noteq> [] \<Longrightarrow> strtok_r m str q store =
      Some (p + of_nat k, m(p + of_nat k + of_nat (length t) := 0),
        p + of_nat k + of_nat (length t) + 1)"
proof -
  have split: "s = takeWhile (\<lambda>c. c \<in> set ds) s @ s1" by (simp add: s1)
  have s1p: "cstr m (p + of_nat k) s1"
    using cstr_append [of m p "takeWhile (\<lambda>c. c \<in> set ds) s" s1] s split k by simp
  have m_p: "m p = 0 \<longleftrightarrow> s = []" using s by (cases s) auto
  have m_s1: "m (p + of_nat k) = 0 \<longleftrightarrow> s1 = []" using s1p by (cases s1) auto
  have "cstr m (p + of_nat k) (t @ r)" using s1p by (simp add: t r)
  then have "cstr m (p + of_nat k + of_nat (length t)) r" by (rule cstr_append)
  then have m_e: "m (p + of_nat k + of_nat (length t)) = 0 \<longleftrightarrow> r = []" by (cases r) auto
  note facts = strspn_cstr [OF s ds q] strcspn_cstr [OF s1p ds q]
  show "s1 = [] \<Longrightarrow> \<exists>st. strtok_r m str q store = Some (0, m, st)"
    using arg m_p m_s1 facts k by (auto simp: strtok_r_def Let_def)
  show "s1 \<noteq> [] \<Longrightarrow> r = [] \<Longrightarrow> strtok_r m str q store =
      Some (p + of_nat k, m, p + of_nat k + of_nat (length t))"
    using arg m_p m_s1 m_e facts k t s1 by (auto simp: strtok_r_def Let_def)
  show "s1 \<noteq> [] \<Longrightarrow> r \<noteq> [] \<Longrightarrow> strtok_r m str q store =
      Some (p + of_nat k, m(p + of_nat k + of_nat (length t) := 0),
        p + of_nat k + of_nat (length t) + 1)"
    using arg m_p m_s1 m_e facts k t s1 by (auto simp: strtok_r_def Let_def)
qed

text \<open>
  The way the program uses \<^verbatim>\<open>strtok_r\<close>: call it with the saved pointer until it returns
  \<^verbatim>\<open>NULL\<close>, collecting the tokens. \<open>fuel\<close> bounds the number of calls.
\<close>

fun strtok_r_all :: "nat \<Rightarrow> mem \<Rightarrow> u32 \<Rightarrow> u32 \<Rightarrow> (u32 list \<times> mem) option" where
  "strtok_r_all 0 m store q = None"
| "strtok_r_all (Suc fuel) m store q =
     do { (tok, m', store') \<leftarrow> strtok_r m 0 q store;
          if tok = 0 then Some ([], m')
          else do { (toks, m'') \<leftarrow> strtok_r_all fuel m' store' q; Some (tok # toks, m'') } }"

lemma strtok_r_next:
  assumes s: "cstr m p s" and ds: "cstr m q ds" and q: "off_null q (length ds)"
    and arg: "(if str = 0 then store else str) = p"
    and s1: "s1 = dropWhile (\<lambda>c. c \<in> set ds) s" "s1 \<noteq> []"
    and t: "t = takeWhile (\<lambda>c. c \<notin> set ds) s1"
    and r: "r = tl (dropWhile (\<lambda>c. c \<notin> set ds) s1)"
  obtains m' st' k where "strtok_r m str q store = Some (p + of_nat k, m', st')" "k < length s"
    "cstr m' (p + of_nat k) t" "cstr m' st' r" "length r < length s"
    "region st' (length r) \<subseteq> region p (length s)"
    "region (p + of_nat k) (Suc (length t)) \<inter> region st' (length r) = {}"
    "\<And>a. a \<notin> region p (length s) \<Longrightarrow> m' a = m a"
proof -
  define a where "a = takeWhile (\<lambda>c. c \<in> set ds) s"
  define k where "k = length a"
  define r' where "r' = dropWhile (\<lambda>c. c \<notin> set ds) s1"
  have split: "s = a @ t @ r'" by (simp add: a_def t r'_def s1(1))
  have len: "length s = k + length t + length r'" by (simp add: split k_def)
  have lt: "length s < 2 ^ 32" using s by (rule cstr_length)
  have "hd s1 \<notin> set ds" using hd_dropWhile [of "\<lambda>c. c \<in> set ds" s] s1 by simp
  moreover obtain c0 u0 where "s1 = c0 # u0" using s1(2) by (cases s1) simp_all
  ultimately have tne: "t \<noteq> []" by (simp add: t)
  have s1p: "cstr m (p + of_nat k) (t @ r')"
    using cstr_append [of m p a "t @ r'"] s split k_def by simp
  note step = strtok_r_step [OF s ds q arg s1(1) t r'_def k_def [unfolded a_def]]
  show ?thesis
  proof (cases r')
    case Nil
    have "r = []" using Nil by (simp add: r flip: r'_def)
    moreover have "cstr m (p + of_nat k + of_nat (length t)) []"
      using cstr_append [OF s1p] Nil by simp
    moreover have "length r < length s" "k < length s"
      using len tne \<open>r = []\<close> by (cases t; simp)+
    ultimately show ?thesis
      using that [of k m "p + of_nat k + of_nat (length t)"] step(2) s1(2) Nil s1p
      by (simp add: region_def)
  next
    case (Cons c b)
    let ?e = "p + of_nat k + of_nat (length t)"
    have rb: "r = b" using Cons by (simp add: r flip: r'_def)
    have mid: "cstr (m(?e := 0)) (p + of_nat k) t" "cstr m (?e + 1) b"
      using cstr_mid [of m "p + of_nat k" t c b] s1p Cons by simp_all
    have e1: "?e + 1 = p + of_nat (k + length t + 1)" by (simp add: algebra_simps)
    have l2: "length s = k + length t + 1 + length b" using len Cons by simp
    have "?e \<in> region p (length s)"
      using l2 by (simp only: region_def) (rule image_eqI [of _ _ "k + length t"], auto)
    moreover have "cstr (m(?e := 0)) (?e + 1) b"
    proof (rule cstr_upd [OF mid(2)])
      fix i assume "i \<le> length b"
      then have "(of_nat (k + length t + 1 + i) :: u32) \<noteq> of_nat (k + length t)"
        using of_nat_eq_32 [of "k + length t + 1 + i" "k + length t"] l2 lt by simp
      then show "?e + 1 + of_nat i \<noteq> ?e" by (auto simp: algebra_simps)
    qed
    moreover have "region (?e + 1) (length b) \<subseteq> region p (length s)"
      unfolding e1 by (rule region_mono) (simp add: l2)
    moreover have "region (p + of_nat k) (Suc (length t)) \<inter> region (?e + 1) (length b) = {}"
      unfolding e1 by (rule region_disj) (use l2 lt in simp_all)
    moreover have "strtok_r m str q store = Some (p + of_nat k, m(?e := 0), ?e + 1)"
      using step(3) s1(2) Cons by simp
    moreover have "k < length s" "length r < length s" using l2 rb by simp_all
    moreover have "(m(?e := 0)) a = m a" if "a \<notin> region p (length s)" for a
      using that \<open>?e \<in> region p (length s)\<close> by auto
    ultimately show ?thesis
      using that [of k "m(?e := 0)" "?e + 1"] mid(1) unfolding rb by blast
  qed
qed

lemma strtok_r_all_correct:
  assumes "cstr m p s" and "cstr m q ds" and "off_null q (length ds)" and "off_null p (length s)"
    and "region q (Suc (length ds)) \<inter> region p (length s) = {}" and "length s < fuel"
  shows "\<exists>toks m'. strtok_r_all fuel m p q = Some (toks, m') \<and>
    list_all2 (cstr m') toks (tokens ds s) \<and> (\<forall>a. a \<notin> region p (length s) \<longrightarrow> m' a = m a)"
  using assms
proof (induction fuel arbitrary: m p s)
  case 0
  then show ?case by simp
next
  case (Suc fuel)
  let ?s1 = "dropWhile (\<lambda>c. c \<in> set ds) s"
  have arg: "(if (0::u32) = 0 then p else 0) = p" by simp
  show ?case
  proof (cases "?s1 = []")
    case True
    then obtain st where "strtok_r m 0 q p = Some (0, m, st)"
      using strtok_r_step(1) [OF Suc.prems(1-3) arg refl refl refl refl] by auto
    moreover have "tokens ds s = []"
      by (simp only: tokens_unfold [of ds s] True list.case)
    ultimately show ?thesis by simp
  next
    case False
    define t where "t = takeWhile (\<lambda>c. c \<notin> set ds) ?s1"
    define r where "r = tl (dropWhile (\<lambda>c. c \<notin> set ds) ?s1)"
    obtain m1 st k where st: "strtok_r m 0 q p = Some (p + of_nat k, m1, st)" "k < length s"
      and tok: "cstr m1 (p + of_nat k) t" and rest: "cstr m1 st r" "length r < length s"
      and sub: "region st (length r) \<subseteq> region p (length s)"
      and dis: "region (p + of_nat k) (Suc (length t)) \<inter> region st (length r) = {}"
      and frame: "\<And>a. a \<notin> region p (length s) \<Longrightarrow> m1 a = m a"
      using strtok_r_next [OF Suc.prems(1-3) arg refl False t_def r_def] by metis
    have "off_null st (length r)"
      using Suc.prems(4) sub by (fastforce simp: off_null_def region_def)
    moreover have "cstr m1 q ds"
      by (rule cstr_agree [OF Suc.prems(2)]) (use Suc.prems(5) frame in blast)
    moreover have "region q (Suc (length ds)) \<inter> region st (length r) = {}"
      using Suc.prems(5) sub by blast
    moreover have "length r < fuel" using rest Suc.prems(6) by simp
    ultimately obtain toks m2 where IH: "strtok_r_all fuel m1 st q = Some (toks, m2)"
      "list_all2 (cstr m2) toks (tokens ds r)" "\<forall>a. a \<notin> region st (length r) \<longrightarrow> m2 a = m1 a"
      using Suc.IH [OF rest(1) _ Suc.prems(3)] by blast
    have "p + of_nat k \<noteq> 0" using Suc.prems(4) st(2) by (auto simp: off_null_def)
    then have "strtok_r_all (Suc fuel) m p q = Some ((p + of_nat k) # toks, m2)"
      using st(1) IH(1) by simp
    moreover have "tokens ds s = t # tokens ds r"
      using False by (subst tokens_unfold) (simp add: t_def r_def split: list.split)
    moreover have "cstr m2 (p + of_nat k) t"
      by (rule cstr_agree [OF tok]) (use dis IH(3) in blast)
    moreover have "m2 a = m a" if "a \<notin> region p (length s)" for a
      using that frame IH(3) sub by auto
    ultimately show ?thesis using IH(2) by auto
  qed
qed

section \<open>Numbers\<close>

text \<open>
  The digits of a base and the value of a digit string in base \<open>b\<close>, most significant digit
  first, as a natural number.
\<close>

definition base_digit :: "u32 \<Rightarrow> u8 \<Rightarrow> bool" where
  "base_digit b c \<longleftrightarrow> is_xdigit c \<and> digit_value c < b"

fun digits_value :: "nat \<Rightarrow> u8 list \<Rightarrow> nat \<Rightarrow> nat" where
  "digits_value b [] v = v"
| "digits_value b (c # s) v = digits_value b s (v * b + unat (digit_value c))"

lemma is_xdigit_zero [simp]: "\<not> is_xdigit 0"
  by (simp add: is_xdigit_def is_digit_def)

lemma strtoul_loop_cstr:
  "cstr m p s \<Longrightarrow> strtoul_loop m p b (of_nat r) =
     Some (of_nat (digits_value (unat b) (takeWhile (base_digit b) s) r),
           p + of_nat (length (takeWhile (base_digit b) s)))"
proof (induction s arbitrary: p r)
  case Nil
  then show ?case by (subst strtoul_loop.simps) simp
next
  case (Cons c s)
  let ?r = "r * unat b + unat (digit_value c)"
  have step: "of_nat r * b + digit_value c = of_nat ?r" by simp
  show ?case
  proof (cases "base_digit b c")
    case True
    then have "is_xdigit (m p)" "\<not> b \<le> digit_value (m p)" "m p = c"
      using Cons.prems by (auto simp: base_digit_def)
    then have "strtoul_loop m p b (of_nat r) = strtoul_loop m (p + 1) b (of_nat ?r)"
      using step by (subst strtoul_loop.simps) (simp only: Let_def if_True if_False)
    also have "\<dots> = Some (of_nat (digits_value (unat b) (takeWhile (base_digit b) s) ?r),
        p + 1 + of_nat (length (takeWhile (base_digit b) s)))"
      using Cons.prems by (intro Cons.IH) simp
    finally show ?thesis using True by (simp add: add.assoc)
  next
    case False
    then have "strtoul_loop m p b (of_nat r) = Some (of_nat r, p)"
      using Cons.prems
      by (subst strtoul_loop.simps) (auto simp: base_digit_def Let_def not_less)
    with False show ?thesis by simp
  qed
qed

section \<open>Substrings and last occurrences\<close>

text \<open>The first position at which \<open>t\<close> occurs in \<open>s\<close>.\<close>

definition occurs_at :: "u8 list \<Rightarrow> u8 list \<Rightarrow> nat \<Rightarrow> bool" where
  "occurs_at t s i \<longleftrightarrow> take (length t) (drop i s) = t"

lemma memcmp_cstr:
  assumes "cstr m p s" and "cstr m q t" and "length t \<le> length s"
  shows "memcmp m p q (of_nat (length t)) = 0 \<longleftrightarrow> occurs_at t s 0"
proof -
  have "length t < 2 ^ 32" using cstr_length assms(2) by blast
  then have "unat (of_nat (length t) :: u32) = length t" by (rule unat_of_nat32)
  then have "memcmp m p q (of_nat (length t)) = 0 \<longleftrightarrow> (\<forall>i<length t. s ! i = t ! i)"
    using cstr_nth [OF assms(1)] cstr_nth [OF assms(2)] assms(3)
    by (auto simp: memcmp_def memcmp_loop_zero_iff)
  also have "\<dots> \<longleftrightarrow> take (length t) s = t"
    using assms(3) by (auto simp: list_eq_iff_nth_eq)
  finally show ?thesis by (simp add: occurs_at_def)
qed

definition first_at :: "u8 list \<Rightarrow> u8 list \<Rightarrow> nat option" where
  "first_at t s = List.find (occurs_at t s) [0..<Suc (length s)]"

lemma occurs_at_Cons: "occurs_at t (c # s) (Suc i) = occurs_at t s i"
  by (simp add: occurs_at_def)

lemma find_map: "List.find P (map f xs) = map_option f (List.find (P \<circ> f) xs)"
  by (induction xs) auto

lemma first_at_Cons:
  "first_at t (c # s) = (if occurs_at t (c # s) 0 then Some 0 else map_option Suc (first_at t s))"
proof -
  have "[0..<Suc (length (c # s))] = 0 # map Suc [0..<Suc (length s)]"
    unfolding map_Suc_upt by (simp only: length_Cons upt_conv_Cons [of 0] zero_less_Suc)
  moreover have "occurs_at t (c # s) \<circ> Suc = occurs_at t s"
    by (rule ext) (simp add: occurs_at_Cons)
  ultimately show ?thesis by (simp add: first_at_def find_map del: upt_Suc)
qed

lemma first_at_short: "length s < length t \<Longrightarrow> first_at t s = None"
proof -
  assume lt: "length s < length t"
  have "\<not> occurs_at t s i" for i
    using lt arg_cong [of "take (length t) (drop i s)" t length] by (auto simp: occurs_at_def)
  then show ?thesis by (simp add: first_at_def find_None_iff)
qed

lemma strstr_loop_cstr:
  assumes t: "cstr m q t" "t \<noteq> []"
  shows "cstr m p s \<Longrightarrow> strstr_loop m p q (of_nat (length s)) (of_nat (length t)) =
    Some (case first_at t s of None \<Rightarrow> 0 | Some i \<Rightarrow> p + of_nat i)"
proof (induction s arbitrary: p)
  case Nil
  have "\<not> (of_nat (length t) :: u32) \<le> 0"
    using t unat_of_nat32 [OF cstr_length [OF t(1)]] by (simp add: word_le_nat_alt)
  then show ?case
    using t(2) by (subst strstr_loop.simps) (simp add: first_at_short)
next
  case (Cons c s)
  have len: "length (c # s) < 2 ^ 32" "length t < 2 ^ 32"
    using cstr_length Cons.prems t(1) by blast+
  have ge: "(of_nat (length t) :: u32) \<le> of_nat (length (c # s)) \<longleftrightarrow> length t \<le> length (c # s)"
    unfolding word_le_nat_alt unat_of_nat32 [OF len(1)] unat_of_nat32 [OF len(2)] ..
  show ?case
  proof (cases "length t \<le> length (c # s)")
    case True
    note mc = memcmp_cstr [OF Cons.prems t(1) True]
    have "strstr_loop m p q (of_nat (length (c # s))) (of_nat (length t)) =
        (if occurs_at t (c # s) 0 then Some p
         else strstr_loop m (p + 1) q (of_nat (length s)) (of_nat (length t)))"
      using mc ge True by (subst strstr_loop.simps) simp
    then show ?thesis
      using Cons.IH [of "p + 1"] Cons.prems
      by (simp add: first_at_Cons add.assoc split: option.split)
  next
    case False
    then show ?thesis
      using ge by (subst strstr_loop.simps) (simp add: first_at_short)
  qed
qed

lemma strrchr_loop_cstr:
  "cstr m p s \<Longrightarrow> i < length s \<Longrightarrow> strrchr_loop m p c (p + of_nat i) =
     Some (if c \<in> set (take (Suc i) s)
           then p + of_nat (i - length (takeWhile (\<lambda>d. d \<noteq> c) (rev (take (Suc i) s)))) else 0)"
proof (induction i)
  case 0
  then show ?case by (cases s; subst strrchr_loop.simps) auto
next
  case (Suc i)
  have split: "take (Suc (Suc i)) s = take (Suc i) s @ [s ! Suc i]"
    using Suc.prems(2) by (simp add: take_Suc_conv_app_nth)
  have at: "m (p + of_nat (Suc i)) = s ! Suc i"
    by (rule cstr_nth [OF Suc.prems])
  have ne: "p + of_nat (Suc i) \<noteq> p"
    using of_nat_eq_32 [of "Suc i" 0] cstr_length [OF Suc.prems(1)] Suc.prems(2) by (simp del: of_nat_Suc)
  have "strrchr_loop m p c (p + of_nat (Suc i)) =
      (if s ! Suc i = c then Some (p + of_nat (Suc i)) else strrchr_loop m p c (p + of_nat i))"
    using at ne by (subst strrchr_loop.simps) (simp add: algebra_simps)
  then show ?case
    using Suc.IH [OF Suc.prems(1)] Suc.prems(2) unfolding split by auto
qed

lemma strrchr_cstr:
  assumes "cstr m p s" and "s \<noteq> []"
  shows "strrchr m p c = Some (if c \<in> set s
    then p + of_nat (length s - 1 - length (takeWhile (\<lambda>d. d \<noteq> c) (rev s))) else 0)"
proof -
  obtain n where n: "length s = Suc n" using assms(2) by (cases s) auto
  then have "p + of_nat (length s) - 1 = p + of_nat n" by simp
  then show ?thesis
    using strrchr_loop_cstr [OF assms(1), of n c] assms n by (simp add: strrchr_def)
qed

section \<open>Copies without terminator\<close>

lemma strcpy_copied:
  assumes "cstr m src s" and "up_safe dst src (length s)"
  shows "strcpy m dst src = Some (copied m dst src (length s))"
proof -
  have "unat (of_nat (length s) :: u32) = length s"
    using cstr_length [OF assms(1)] by (rule unat_of_nat32)
  then show ?thesis
    using assms memcpy_copied [of dst src "of_nat (length s)" m] by (simp add: strcpy_def)
qed

section \<open>Properties\<close>

text \<open>
  C26: draining a string with \<^verbatim>\<open>strtok_r\<close>, as the boot loader does with its paths and
  configuration lines, terminates and returns pointers to exactly the nonempty fields of the
  string, in order; the fields do not overwrite each other, and no byte outside of the string
  is written.
\<close>

theorem strtok_r_drains:
  assumes "cstr m p s" and "cstr m q ds" and "off_null q (length ds)" and "off_null p (length s)"
    and "region q (Suc (length ds)) \<inter> region p (length s) = {}" and "length s < fuel"
  shows "\<exists>toks m'. strtok_r_all fuel m p q = Some (toks, m') \<and>
    list_all2 (cstr m') toks (filter (\<lambda>f. f \<noteq> []) (fields ds s)) \<and>
    (\<forall>a. a \<notin> region p (length s) \<longrightarrow> m' a = m a)"
  using strtok_r_all_correct [OF assms] by (simp add: tokens_def)

lemma off_null_Suc: "off_null p 0" "off_null p (Suc n) \<longleftrightarrow> p \<noteq> 0 \<and> off_null (p + 1) n"
  by (auto simp: off_null_def All_less_Suc2 algebra_simps)

lemma region_Suc: "region p 0 = {}" "region p (Suc n) = insert p (region (p + 1) n)"
  by (auto simp: region_def lessThan_Suc_eq_insert_0 image_image algebra_simps)

text \<open>The memory that holds \<open>"/a//b"\<close> at 8 and the delimiters \<open>"/"\<close> at 4.\<close>

definition path_mem :: mem where
  "path_mem = (\<lambda>_. 0)(4 := 0x2F, 8 := 0x2F, 9 := 0x61, 10 := 0x2F, 11 := 0x2F, 12 := 0x62)"

theorem strtok_r_drains_witness:
  "\<exists>toks m'. strtok_r_all 9 path_mem 8 4 = Some (toks, m') \<and>
    list_all2 (cstr m') toks [[0x61], [0x62]]"
proof -
  have "cstr path_mem 8 [0x2F, 0x61, 0x2F, 0x2F, 0x62]" "cstr path_mem 4 [0x2F]"
    by (simp_all add: path_mem_def)
  moreover have "off_null 4 (length [0x2F :: u8])"
    "off_null 8 (length [0x2F, 0x61, 0x2F, 0x2F, 0x62 :: u8])"
    "region 4 (Suc (length [0x2F :: u8])) \<inter> region 8 (length [0x2F, 0x61, 0x2F, 0x2F, 0x62 :: u8]) = {}"
    by (simp_all add: off_null_Suc region_Suc)
  moreover have "filter (\<lambda>f. f \<noteq> []) (fields [0x2F] [0x2F, 0x61, 0x2F, 0x2F, 0x62]) = [[0x61], [0x62]]"
    by simp
  ultimately show ?thesis
    using strtok_r_drains [of path_mem 8 "[0x2F, 0x61, 0x2F, 0x2F, 0x62]" 4 "[0x2F]" 9] by auto
qed

text \<open>
  \<^verbatim>\<open>strtoul\<close> in an explicit base other than 16 on a stored string reads the longest prefix of
  digits of the base, returns its value modulo \<open>2 ^ 32\<close> and leaves \<^verbatim>\<open>endp\<close> behind the prefix.
\<close>

theorem strtoul_value:
  assumes "cstr m p s" and "base \<noteq> 0" and "base \<noteq> 16"
  shows "strtoul m p base =
    Some (of_nat (digits_value (unat base) (takeWhile (base_digit base) s) 0),
          p + of_nat (length (takeWhile (base_digit base) s)))"
  using assms strtoul_loop_cstr [OF assms(1), of base 0] by (simp add: strtoul_def)

theorem strtoul_value_witness:
  "strtoul ((\<lambda>_. 0)(8 := 0x34, 9 := 0x32, 10 := 0x3B)) 8 10 = Some (42, 10)"
  using strtoul_value [of "(\<lambda>_. 0)(8 := 0x34, 9 := 0x32, 10 := 0x3B)" 8 "[0x34, 0x32, 0x3B]" 10]
  by (simp add: base_digit_def is_xdigit_def is_digit_def digit_value_def)

text \<open>
  \<^verbatim>\<open>strstr\<close> with a nonempty needle terminates and returns the first position at which the
  needle occurs in the string, \<^verbatim>\<open>NULL\<close> when there is none.
\<close>

theorem strstr_first:
  assumes "cstr m p s" and "cstr m q t" and "t \<noteq> []"
  shows "strstr m p q = Some (case first_at t s of None \<Rightarrow> 0 | Some i \<Rightarrow> p + of_nat i)"
proof -
  have "(of_nat (length t) :: u32) \<noteq> 0"
    using of_nat_eq_32 [of "length t" 0] cstr_length assms(2,3) by auto
  then show ?thesis
    using assms strstr_loop_cstr [OF assms(2,3,1)] by (simp add: strstr_def)
qed

theorem strstr_first_witness:
  "strstr ((\<lambda>_. 0)(4 := 0x62, 8 := 0x61, 9 := 0x62)) 8 4 = Some 9"
  using strstr_first [of "(\<lambda>_. 0)(4 := 0x62, 8 := 0x61, 9 := 0x62)" 8 "[0x61, 0x62]" 4 "[0x62]"]
  by (simp add: first_at_Cons occurs_at_def)

text \<open>
  \<^verbatim>\<open>strcpy\<close> copies the bytes of the string and leaves the byte behind them as it was: the
  destination is not terminated by the copy.
\<close>

theorem strcpy_no_terminator:
  assumes "cstr m src s" and "up_safe dst src (length s)"
  shows "\<exists>m'. strcpy m dst src = Some m' \<and>
    (\<forall>i<length s. m' (dst + of_nat i) = s ! i) \<and>
    m' (dst + of_nat (length s)) = m (dst + of_nat (length s))"
proof -
  have "unat (of_nat i :: u32) = i" if "i \<le> length s" for i
    using cstr_length [OF assms(1)] that by (intro unat_of_nat32) simp
  then show ?thesis
    using strcpy_copied [OF assms] cstr_nth [OF assms(1)] by (auto simp: copied_def)
qed

theorem strcpy_no_terminator_witness:
  "\<exists>m'. strcpy ((\<lambda>_. 7)(8 := 0x61, 9 := 0)) 4 8 = Some m' \<and> m' 4 = 0x61 \<and> m' 5 = 7"
  using strcpy_no_terminator [of "(\<lambda>_. 7)(8 := 0x61, 9 := 0)" 8 "[0x61]" 4]
  by (simp add: up_safe_def)

end
