(* ===== verification/Cmath.thy ===== *)
theory Cmath
  imports Prelude
begin

text \<open>
  \<^verbatim>\<open>src/core/math.c\<close>, \<^verbatim>\<open>src/arch/x86/math.c\<close> and the bit scans of
  \<^verbatim>\<open>asm/bitops.h\<close>. The instructions \<^verbatim>\<open>bsf\<close>, \<^verbatim>\<open>bsr\<close> and
  \<^verbatim>\<open>div\<close> are modelled by their effect; a division that raises \<^verbatim>\<open>#DE\<close>
  and a shift by the width of the type are \<open>None\<close>.
\<close>

section \<open>Bit scans\<close>

fun bsr_from :: "nat \<Rightarrow> u32 \<Rightarrow> int" where
  "bsr_from 0 v = -1"
| "bsr_from (Suc k) v = (if bit v k then int k else bsr_from k v)"

fun bsf_from :: "nat \<Rightarrow> u32 \<Rightarrow> int" where
  "bsf_from 0 v = -1"
| "bsf_from (Suc k) v = (if bit v (31 - k) then int (31 - k) else bsf_from k v)"

definition ffs :: "u32 \<Rightarrow> int" where
  "ffs val = bsf_from 32 val"

definition fls :: "u32 \<Rightarrow> int" where
  "fls val = bsr_from 32 val + 1"

section \<open>Powers of two\<close>

definition log2 :: "u32 \<Rightarrow> int" where
  "log2 val = fls val - 1"

definition is_pow2 :: "u32 \<Rightarrow> bool" where
  "is_pow2 val \<longleftrightarrow> val \<noteq> 0 \<and> val AND (val - 1) = 0"

text \<open>\<^verbatim>\<open>1UL << n\<close> is defined for shift counts below 32.\<close>

definition shl32 :: "u32 \<Rightarrow> int \<Rightarrow> u32 option" where
  "shl32 x n = (if 0 \<le> n \<and> n < 32 then Some (push_bit (nat n) x) else None)"

definition round_up_pow2 :: "u32 \<Rightarrow> u32 option" where
  "round_up_pow2 val = shl32 1 (fls (val - 1))"

definition round_down_pow2 :: "u32 \<Rightarrow> u32 option" where
  "round_down_pow2 val = shl32 1 (fls val - 1)"

section \<open>Division and power\<close>

text \<open>\<^verbatim>\<open>divl\<close>: the 64-bit dividend \<open>edx:eax\<close> by a 32-bit divisor; the quotient must
  fit into 32 bits.\<close>

definition divl :: "u32 \<Rightarrow> u32 \<Rightarrow> u32 \<Rightarrow> (u32 \<times> u32) option" where
  "divl edx eax d =
     (let n = unat edx * 2 ^ 32 + unat eax in
      if d = 0 \<or> n div unat d \<ge> 2 ^ 32 then None
      else Some (of_nat (n div unat d), of_nat (n mod unat d)))"

text \<open>The result is \<open>(quotient, *rem)\<close>.\<close>

definition arch_div :: "u64 \<Rightarrow> u32 \<Rightarrow> (u64 \<times> u32) option" where
  "arch_div val d =
     (let upp = ucast (drop_bit 32 val) :: u32;
          low = ucast (val AND (push_bit 32 1 - 1)) :: u32
      in if upp \<ge> d then
           if d = 0 then None
           else
             let result = push_bit 32 (ucast (upp div d)) :: u64; upp = upp mod d
             in map_option (\<lambda>(q, r). (result OR ucast q, r)) (divl upp low d)
         else map_option (\<lambda>(q, r). (0 OR ucast q, r)) (divl upp low d))"

definition div_rem :: "u64 \<Rightarrow> u32 \<Rightarrow> (u64 \<times> u32) option" where
  "div_rem val d = arch_div val d"

function pow :: "u64 \<Rightarrow> u64 \<Rightarrow> u64" where
  "pow base e =
     (if e = 0 then 1
      else let val = pow base (e div 2) in
        if e mod 2 = 0 then val * val else base * val * val)"
  by auto
termination
proof (relation "measure (unat \<circ> snd)")
  fix e :: u64
  assume "e \<noteq> 0"
  then show "((base, e div 2), base, e) \<in> measure (unat \<circ> snd)" for base
    by (simp add: unat_div unat_gt_0 del: word_div_def)
qed simp

declare pow.simps [simp del]

section \<open>Lemmas\<close>

lemma bsr_from_eq: "bsr_from k v = int i \<longleftrightarrow> i < k \<and> bit v i \<and> (\<forall>j<k. bit v j \<longrightarrow> j \<le> i)"
proof (induction k)
  case (Suc k)
  show ?case
  proof (cases "bit v k")
    case True
    then show ?thesis by (auto simp: less_Suc_eq dest: spec [of _ k])
  next
    case False
    then show ?thesis using Suc by (auto simp: less_Suc_eq)
  qed
qed simp

lemma bsr_from_range: "-1 \<le> bsr_from k v \<and> bsr_from k v < int k"
  by (induction k) auto

lemma bsr_from_none: "bsr_from k v = -1 \<longleftrightarrow> (\<forall>j<k. \<not> bit v j)"
  by (induction k) (auto simp: less_Suc_eq)

lemma bsr_bounds: "bsr_from k v = int i \<Longrightarrow> k = 32 \<Longrightarrow> 2 ^ i \<le> unat v \<and> unat v < 2 ^ Suc i"
proof -
  assume *: "bsr_from k v = int i" and k: "k = 32"
  then have b: "bit v i" and top: "\<And>j. j < 32 \<Longrightarrow> bit v j \<Longrightarrow> j \<le> i" and i: "i < 32"
    by (auto simp: bsr_from_eq)
  have lo: "2 ^ i \<le> unat v"
  proof (rule ccontr)
    assume "\<not> 2 ^ i \<le> unat v"
    then have "unat v div 2 ^ i = 0" by simp
    then have "\<not> bit (unat v) i" by (simp add: bit_iff_odd)
    with b show False by (simp add: bit_unsigned_iff)
  qed
  have "take_bit (Suc i) (unat v) = unat v"
  proof (rule bit_eqI)
    fix j
    show "bit (take_bit (Suc i) (unat v)) j = bit (unat v) j"
      using top [of j] bit_imp_le_length [of v j] by (auto simp: bit_take_bit_iff bit_unsigned_iff less_Suc_eq_le)
  qed
  then have "unat v < 2 ^ Suc i" by (metis take_bit_nat_less_exp)
  with lo show ?thesis by blast
qed

lemma fls_zero_iff: "fls v = 0 \<longleftrightarrow> v = 0"
proof
  assume "fls v = 0"
  then have "\<forall>j<32. \<not> bit v j" by (simp add: fls_def flip: bsr_from_none)
  then show "v = 0" by (intro bit_word_eqI) simp
next
  assume "v = 0"
  then have "bsr_from 32 v = -1" by (subst bsr_from_none) simp
  then show "fls v = 0" by (simp add: fls_def)
qed

lemma fls_zero: "fls 0 = 0" by (simp only: fls_zero_iff)

lemma fls_cases:
  assumes "v \<noteq> 0"
  obtains i where "fls v = int i + 1" "i < 32" "2 ^ i \<le> unat v" "unat v < 2 ^ Suc i"
proof -
  have "bsr_from 32 v \<noteq> -1" using assms fls_zero_iff [of v] by (simp add: fls_def)
  then have nn: "0 \<le> bsr_from 32 v" using bsr_from_range [of 32 v] by linarith
  then obtain i where i: "bsr_from 32 v = int i" using nonneg_int_cases by blast
  moreover have "i < 32" using i bsr_from_range [of 32 v] by simp
  ultimately show ?thesis using that [of i] bsr_bounds [OF i refl] by (simp add: fls_def)
qed

lemma shl32_one: "n < 32 \<Longrightarrow> shl32 1 (int n) = Some (2 ^ n)"
  by (simp add: shl32_def push_bit_eq_mult)

lemma unat_pow2: "n < 32 \<Longrightarrow> unat ((2::u32) ^ n) = 2 ^ n"
proof -
  assume "n < 32"
  then have "(2::nat) ^ n < 2 ^ 32" by (rule power_strict_increasing) simp
  then have "unat (of_nat (2 ^ n) :: u32) = 2 ^ n" by (rule unat_of_nat32)
  then show ?thesis by simp
qed

lemma is_pow2_iff: "is_pow2 v \<longleftrightarrow> (\<exists>k<32. v = 2 ^ k)"
proof
  assume p: "is_pow2 v"
  then have "v \<noteq> 0" by (simp add: is_pow2_def)
  then obtain i where i: "fls v = int i + 1" "i < 32" and lo: "2 ^ i \<le> unat v" and hi: "unat v < 2 ^ Suc i"
    by (rule fls_cases)
  have "v = 2 ^ i"
  proof (rule ccontr)
    assume ne: "v \<noteq> 2 ^ i"
    have e: "unat ((2::u32) ^ i) = 2 ^ i" using i(2) by (rule unat_pow2)
    have "unat v \<noteq> 2 ^ i" using ne e by (metis unsigned_word_eqI)
    then have gt: "2 ^ i \<le> unat v - 1" using lo by linarith
    moreover have "unat (v - 1) = unat v - 1"
      using \<open>v \<noteq> 0\<close> by (simp add: unat_minus_one)
    ultimately have lo': "2 ^ i \<le> unat (v - 1)" and hi': "unat (v - 1) < 2 ^ Suc i"
      using hi by simp_all
    have "bit w i" if "2 ^ i \<le> unat w" "unat w < 2 ^ Suc i" for w :: u32
    proof -
      have "unat w div 2 ^ i = 1" using that by (simp add: div_nat_eqI)
      then show ?thesis using i(2) by (metis bit_iff_odd bit_unsigned_iff odd_one)
    qed
    then have "bit (v AND (v - 1)) i" using lo hi lo' hi' by (simp add: bit_and_iff)
    with p show False by (simp add: is_pow2_def)
  qed
  with i(2) show "\<exists>k<32. v = 2 ^ k" by blast
next
  assume "\<exists>k<32. v = 2 ^ k"
  then obtain k where k: "k < 32" "v = 2 ^ k" by blast
  have "(2::u32) ^ k AND (2 ^ k - 1) = 0"
    by (rule bit_word_eqI)
      (simp add: bit_and_iff bit_exp_iff bit_mask_iff flip: mask_eq_exp_minus_1)
  moreover have "(2::u32) ^ k \<noteq> 0" using unat_pow2 [OF k(1)] by (metis power_not_zero unat_0 zero_neq_numeral)
  ultimately show "is_pow2 v" using k by (simp add: is_pow2_def)
qed

lemma log2_bounds:
  "v \<noteq> 0 \<Longrightarrow> \<exists>k<32. log2 v = int k \<and> 2 ^ k \<le> unat v \<and> unat v < 2 ^ Suc k"
  by (erule fls_cases) (auto simp: log2_def)

lemma round_down_pow2_eq:
  assumes "v \<noteq> 0"
  shows "\<exists>k<32. round_down_pow2 v = Some (2 ^ k) \<and> 2 ^ k \<le> unat v \<and> unat v < 2 ^ Suc k"
  using fls_cases [OF assms] shl32_one by (metis add_diff_cancel_right' round_down_pow2_def)

lemma round_up_pow2_eq:
  assumes "v \<noteq> 0" and "unat v \<le> 2 ^ 31"
  shows "\<exists>k<32. round_up_pow2 v = Some (2 ^ k) \<and> unat v \<le> 2 ^ k \<and> (\<forall>j<k. 2 ^ j < unat v)"
proof (cases "v = 1")
  case True
  then show ?thesis by (intro exI [of _ 0]) (simp add: round_up_pow2_def shl32_one [of 0, simplified] fls_zero)
next
  case False
  then have "v - 1 \<noteq> 0" by simp
  then obtain i where i: "fls (v - 1) = int i + 1" "i < 32" "2 ^ i \<le> unat (v - 1)" "unat (v - 1) < 2 ^ Suc i"
    by (rule fls_cases)
  have m: "unat (v - 1) = unat v - 1" and pos: "0 < unat v"
    using assms(1) by (simp_all add: unat_minus_one unat_gt_0)
  have "(2::nat) ^ i < 2 ^ 31" using i(3) m assms(2) pos by linarith
  then have "i < 31" by (rule power_less_imp_less_exp [rotated]) simp
  then have i31: "Suc i < 32" by linarith
  have "shl32 1 (int (Suc i)) = Some (2 ^ Suc i)" using i31 by (rule shl32_one)
  then have "round_up_pow2 v = Some (2 ^ Suc i)" by (simp add: round_up_pow2_def i(1) add.commute)
  moreover have "unat v \<le> 2 ^ Suc i" using i(4) m by linarith
  moreover have "2 ^ j < unat v" if "j < Suc i" for j
  proof -
    have "(2::nat) ^ j \<le> 2 ^ i" using that by (simp add: power_increasing)
    then show ?thesis using i(3) m pos by linarith
  qed
  ultimately show ?thesis using i31 by blast
qed

lemma pow_eq: "pow b e = b ^ unat e"
proof (induction b e rule: pow.induct)
  case (1 b e)
  show ?case
  proof (cases "e = 0")
    case True
    then show ?thesis by (simp add: pow.simps)
  next
    case False
    have h: "unat (e div 2) = unat e div 2" by (simp add: unat_div del: word_div_def)
    have "unat (e mod 2) = unat e mod 2" using unat_mod [of e 2] by simp
    then have par: "e mod 2 = 0 \<longleftrightarrow> even (unat e)"
      by (simp only: flip: unat_eq_zero even_iff_mod_2_eq_zero)
    have ih: "pow b (e div 2) = b ^ (unat e div 2)" using 1 False h by simp
    have "unat e = 2 * (unat e div 2) + unat e mod 2" by simp
    then have "b ^ unat e = b ^ (unat e div 2) * b ^ (unat e div 2) * b ^ (unat e mod 2)"
      by (metis mult_2 power_add)
    then show ?thesis
      using False par ih by (subst pow.simps) (auto simp: Let_def odd_iff_mod_2_eq_one ac_simps)
  qed
qed

lemma divl_eq:
  assumes "edx < d"
  shows "divl edx eax d = Some (of_nat ((unat edx * 2 ^ 32 + unat eax) div unat d),
    of_nat ((unat edx * 2 ^ 32 + unat eax) mod unat d))"
    and "(unat edx * 2 ^ 32 + unat eax) div unat d < 2 ^ 32"
proof -
  have d: "d \<noteq> 0" using assms by auto
  have "unat edx + 1 \<le> unat d" using assms by (simp add: word_less_nat_alt)
  then have "(unat edx + 1) * 2 ^ 32 \<le> unat d * 2 ^ 32" by (rule mult_le_mono1)
  then have "unat edx * 2 ^ 32 + unat eax < unat d * 2 ^ 32"
    using unat_lt32 [of eax] by (simp add: algebra_simps)
  then show lt: "(unat edx * 2 ^ 32 + unat eax) div unat d < 2 ^ 32"
    by (intro less_mult_imp_div_less) (simp add: mult.commute)
  show "divl edx eax d = Some (of_nat ((unat edx * 2 ^ 32 + unat eax) div unat d),
    of_nat ((unat edx * 2 ^ 32 + unat eax) mod unat d))"
    using d lt by (simp add: divl_def Let_def)
qed

lemma halves:
  fixes v :: u64
  shows "unat (ucast (drop_bit 32 v) :: u32) = unat v div 2 ^ 32"
    and "unat (ucast (v AND (push_bit 32 1 - 1)) :: u32) = unat v mod 2 ^ 32"
proof -
  have lt: "unat v < 2 ^ 64" using unsigned_less [of v] by simp
  then have "unat v div 2 ^ 32 < 2 ^ 32"
    by (intro less_mult_imp_div_less) simp
  then show "unat (ucast (drop_bit 32 v) :: u32) = unat v div 2 ^ 32"
    by (simp add: unsigned_ucast_eq unat_div_distrib drop_bit_eq_div take_bit_eq_mod)
  have "v AND (push_bit 32 1 - 1) = take_bit 32 v"
    by (simp add: take_bit_eq_mask mask_eq_exp_minus_1 push_bit_eq_mult)
  then show "unat (ucast (v AND (push_bit 32 1 - 1)) :: u32) = unat v mod 2 ^ 32"
    by (simp add: unsigned_ucast_eq unat_mod_distrib take_bit_eq_mod)
qed

lemma push_or_ucast:
  "push_bit 32 (ucast (a::u32)) OR (ucast (b::u32)) = (of_nat (unat a * 2 ^ 32 + unat b) :: u64)"
proof -
  have "push_bit 32 (ucast a) AND (ucast b :: u64) = 0"
    by (rule bit_word_eqI) (auto simp: bit_and_iff bit_push_bit_iff bit_unsigned_iff dest: bit_imp_le_length)
  then have "push_bit 32 (ucast a) OR (ucast b :: u64) = push_bit 32 (ucast a) + ucast b"
    by (rule disjunctive_add_eq_or [symmetric])
  also have "\<dots> = of_nat (unat a * 2 ^ 32 + unat b)"
    by (simp add: push_bit_eq_mult mult.commute)
  finally show ?thesis .
qed

lemma arch_div_eq:
  assumes "d \<noteq> 0"
  shows "arch_div v d = Some (of_nat (unat v div unat d), of_nat (unat v mod unat d))"
proof -
  define u where "u = (ucast (drop_bit 32 v) :: u32)"
  define l where "l = (ucast (v AND (push_bit 32 1 - 1)) :: u32)"
  have v: "unat v = unat u * 2 ^ 32 + unat l" unfolding u_def l_def halves by simp
  have d: "0 < unat d" using assms by (simp add: unat_gt_0)
  have join: "push_bit 32 (ucast a) OR (ucast (of_nat n :: u32)) = (of_nat (unat a * 2 ^ 32 + n) :: u64)"
    if "n < 2 ^ 32" for a :: u32 and n
    using push_or_ucast [of a "of_nat n"] unat_of_nat32 [OF that] by simp
  show ?thesis
  proof (cases "u \<ge> d")
    case True
    have lt: "u mod d < d" using assms by (simp add: word_mod_less_divisor word_neq_0_conv)
    note q = divl_eq [OF lt, of l]
    have um: "unat (u mod d) = unat u mod unat d" "unat (u div d) = unat u div unat d"
      by (rule unat_mod_distrib, rule unat_div_distrib)
    have split: "unat v = unat d * ((unat u div unat d) * 2 ^ 32) +
        (unat u mod unat d * 2 ^ 32 + unat l)"
    proof -
      have "unat u = unat d * (unat u div unat d) + unat u mod unat d" by simp
      then have "unat u * 2 ^ 32 = (unat d * (unat u div unat d) + unat u mod unat d) * 2 ^ 32" by simp
      then show ?thesis by (simp only: v distrib_right add.assoc mult.assoc)
    qed
    have "unat v div unat d = (unat u div unat d) * 2 ^ 32 +
        (unat u mod unat d * 2 ^ 32 + unat l) div unat d"
      using d by (subst split) simp
    moreover have "unat v mod unat d = (unat u mod unat d * 2 ^ 32 + unat l) mod unat d"
      by (subst split) simp
    moreover have "arch_div v d = Some (push_bit 32 (ucast (u div d)) OR
        ucast (of_nat ((unat u mod unat d * 2 ^ 32 + unat l) div unat d) :: u32),
        of_nat ((unat u mod unat d * 2 ^ 32 + unat l) mod unat d))"
      using True assms q(1) 
      unfolding arch_div_def Let_def u_def [symmetric] l_def [symmetric] by (simp add: um)
    ultimately show ?thesis using join [OF q(2)] by (simp only: um)
  next
    case False
    then have lt: "u < d" by simp
    note q = divl_eq [OF lt, of l]
    have "arch_div v d = Some (push_bit 32 (ucast (0::u32)) OR ucast (of_nat (unat v div unat d) :: u32),
        of_nat (unat v mod unat d))"
      using False q(1) v 
      unfolding arch_div_def Let_def u_def [symmetric] l_def [symmetric] by simp
    moreover have "unat v div unat d < 2 ^ 32" using q(2) v by simp
    ultimately show ?thesis using join [of "unat v div unat d" 0] by simp
  qed
qed

section \<open>Properties\<close>

text \<open>
  C40: the division of \<^verbatim>\<open>arch_div\<close> by a divisor other than 0 raises no \<^verbatim>\<open>#DE\<close> and returns
  the quotient and the remainder of the 64-bit value, although it uses 32-bit divisions only.
\<close>

theorem arch_div_correct:
  assumes "d \<noteq> 0"
  shows "\<exists>q r. arch_div v d = Some (q, r) \<and>
    unat q = unat v div unat d \<and> unat r = unat v mod unat d"
proof -
  have "unat v < 2 ^ 64" "0 < unat d"
    using unsigned_less [of v] assms by (simp_all add: unat_gt_0)
  then have "unat v div unat d < 2 ^ 64" "unat v mod unat d < 2 ^ 32"
    using le_less_trans [OF div_le_dividend] mod_less_divisor [of "unat d" "unat v"] unat_lt32 [of d]
    by (blast, linarith)
  then show ?thesis
    using arch_div_eq [OF assms, of v] by (simp add: unat_of_nat_lt)
qed

theorem arch_div_correct_witness:
  "\<exists>q r. arch_div (2 ^ 40 + 5) 7 = Some (q, r) \<and> unat q = (2 ^ 40 + 5) div 7 \<and> unat r = (2 ^ 40 + 5) mod 7"
  using arch_div_correct [of 7 "2 ^ 40 + 5"] by simp

text \<open>
  For values from 1 to \<open>2 ^ 31\<close>, \<^verbatim>\<open>round_up_pow2\<close> returns the least power of two not below
  the value, \<^verbatim>\<open>round_down_pow2\<close> the greatest one not above it, \<^verbatim>\<open>log2\<close> its exponent, and
  \<^verbatim>\<open>is_pow2\<close> decides whether the value is a power of two.
\<close>

theorem pow2_rounding:
  assumes "v \<noteq> 0" and "unat v \<le> 2 ^ 31"
  shows "\<exists>j k. j < 32 \<and> k < 32 \<and> round_up_pow2 v = Some (2 ^ k) \<and>
    unat v \<le> 2 ^ k \<and> (\<forall>i<k. 2 ^ i < unat v) \<and>
    round_down_pow2 v = Some (2 ^ j) \<and> 2 ^ j \<le> unat v \<and> unat v < 2 ^ Suc j \<and>
    log2 v = int j \<and> (is_pow2 v \<longleftrightarrow> (\<exists>i<32. v = 2 ^ i))"
proof -
  obtain i where i: "fls v = int i + 1" "i < 32" "2 ^ i \<le> unat v" "unat v < 2 ^ Suc i"
    using fls_cases [OF assms(1)] by blast
  moreover have "round_down_pow2 v = Some (2 ^ i)"
    using shl32_one [OF i(2)] i(1) by (simp add: round_down_pow2_def)
  moreover have "log2 v = int i" by (simp add: log2_def i(1))
  ultimately show ?thesis
    using round_up_pow2_eq [OF assms] is_pow2_iff [of v] by blast
qed

theorem pow2_rounding_witness:
  "\<exists>j k. round_up_pow2 5 = Some (2 ^ k) \<and> 5 \<le> (2::nat) ^ k \<and> round_down_pow2 5 = Some (2 ^ j) \<and> 2 ^ j \<le> (5::nat)"
proof -
  have "unat (5::u32) \<le> 2 ^ 31" by simp
  from pow2_rounding [OF _ this] show ?thesis by (simp del: power_Suc) blast
qed

end
