(* ===== verification/Printf.thy ===== *)
theory Printf
  imports Cstring Cmath
begin

text \<open>
  \<^verbatim>\<open>src/core/printf.c\<close>: the formatter. The output buffer is the list of bytes written so
  far; the format is the list of its characters, whose end is the terminating zero; the variable
  arguments are the 32-bit words of the caller's stack in order, a \<^verbatim>\<open>long long\<close> taking two.
  \<open>None\<close> means that the formatter does not return or that it reads an argument that was not
  passed.
\<close>

section \<open>State\<close>

definition PAD_NUL :: u32 where "PAD_NUL = 1"
definition PAD_NEG :: u32 where "PAD_NEG = 2"
definition SGN_POS :: u32 where "SGN_POS = 4"

record format_struct =
  buf :: "u8 list"
  flags :: u32
  pad :: int
  pre :: int

text \<open>\<open>fmts->flags & F\<close>\<close>

definition flag :: "u32 \<Rightarrow> format_struct \<Rightarrow> bool" where
  "flag F s \<longleftrightarrow> flags s AND F \<noteq> 0"

definition emit :: "u8 \<Rightarrow> format_struct \<Rightarrow> format_struct" where
  "emit c s = s\<lparr>buf := buf s @ [c]\<rparr>"

text \<open>\<open>while (--fmts->pad > 0) *fmts->buf++ = c\<close> and \<open>while (fmts->pad-- > lim) *fmts->buf++ = c\<close>\<close>

function pad_pre :: "u8 \<Rightarrow> format_struct \<Rightarrow> format_struct" where
  "pad_pre c s =
     (if pad s - 1 > 0 then pad_pre c (emit c (s\<lparr>pad := pad s - 1\<rparr>)) else s\<lparr>pad := pad s - 1\<rparr>)"
  by auto
termination by (relation "measure (\<lambda>(c, s). nat (pad s))") (auto simp: emit_def)

function pad_post :: "int \<Rightarrow> u8 \<Rightarrow> format_struct \<Rightarrow> format_struct" where
  "pad_post lim c s =
     (if pad s > lim then pad_post lim c (emit c (s\<lparr>pad := pad s - 1\<rparr>)) else s\<lparr>pad := pad s - 1\<rparr>)"
  by auto
termination by (relation "measure (\<lambda>(lim, c, s). nat (pad s - lim))") (auto simp: emit_def)

declare pad_pre.simps [simp del] pad_post.simps [simp del]

section \<open>The handlers\<close>

abbreviation SPC :: u8 where "SPC \<equiv> 0x20"
abbreviation ZERO :: u8 where "ZERO \<equiv> 0x30"

definition vsprintf_put_char :: "format_struct \<Rightarrow> u8 \<Rightarrow> format_struct" where
  "vsprintf_put_char s c =
     (let s = (if \<not> flag PAD_NEG s then pad_pre SPC s else s);
          s = emit c s
      in pad_pre SPC s)"

fun put_bytes :: "mem \<Rightarrow> u32 \<Rightarrow> nat \<Rightarrow> format_struct \<Rightarrow> format_struct" where
  "put_bytes m str 0 s = s"
| "put_bytes m str (Suc k) s = put_bytes m (str + 1) k (emit (m str) s)"

definition vsprintf_put_string :: "mem \<Rightarrow> format_struct \<Rightarrow> u32 \<Rightarrow> format_struct" where
  "vsprintf_put_string m s str =
     (let len = sint (strnlen m str (of_int (pre s)));
          s = (if \<not> flag PAD_NEG s then pad_post len SPC s else s);
          s = put_bytes m str (nat len) s
      in pad_post len SPC s)"

definition vsprintf_base :: "u8 \<Rightarrow> u32" where
  "vsprintf_base qual =
     (if qual = 0x62 then 2 else if qual = 0x6F then 8
      else if qual = 0x64 \<or> qual = 0x75 then 10 else if qual = 0x78 then 16 else 0)"

text \<open>The lookup array \<^verbatim>\<open>digits\<close>.\<close>

definition digit_char :: "u32 \<Rightarrow> u8" where
  "digit_char d = [0x30, 0x31, 0x32, 0x33, 0x34, 0x35, 0x36, 0x37, 0x38, 0x39,
     0x41, 0x42, 0x43, 0x44, 0x45, 0x46] ! unat d"

text \<open>The digits of a number, least significant first, as \<^verbatim>\<open>buf\<close> collects them.\<close>

partial_function (option) number_digits :: "u64 \<Rightarrow> u32 \<Rightarrow> u8 list \<Rightarrow> u8 list option" where
  "number_digits n base ds =
     (if n \<noteq> 0 then
        do { (q, d) \<leftarrow> div_rem n base; number_digits q base (ds @ [digit_char d]) }
      else Some ds)"

text \<open>The loop \<open>while (i < fmts->pre) *fmts->buf++ = '0'\<close> leaves \<open>i\<close> and
  \<open>pre\<close> as they are, so it does not end once entered.\<close>

definition vsprintf_put_number :: "format_struct \<Rightarrow> u64 \<Rightarrow> u32 \<Rightarrow> format_struct option" where
  "vsprintf_put_number s n base =
     (if base = 0 then Some s
      else
        let c = (if flag PAD_NUL s then ZERO else SPC);
            neg = flag SGN_POS s \<and> sint n < 0;
            n = (if neg then - n else n);
            s = (if neg then s\<lparr>pad := pad s - 1\<rparr> else s)
        in do {
          ds \<leftarrow> (if n = 0 then Some [ZERO] else number_digits n base []);
          let i = int (length ds);
          let s = (if i > pre s then s\<lparr>pre := i\<rparr> else s);
          let s = s\<lparr>pad := pad s - pre s\<rparr>;
          let s = (if \<not> flag (PAD_NEG OR PAD_NUL) s then pad_post 0 SPC s else s);
          let s = (if neg then emit 0x2D s else s);
          let s = (if \<not> flag PAD_NEG s then pad_post 0 c s else s);
          if i < pre s then None
          else Some (pad_post 0 SPC (s\<lparr>buf := buf s @ rev ds\<rparr>))
        })"

section \<open>The format\<close>

definition cur :: "u8 list \<Rightarrow> u8" where
  "cur fmt = (case fmt of [] \<Rightarrow> 0 | c # _ \<Rightarrow> c)"

text \<open>\<^verbatim>\<open>vnsprintf_number\<close>: an \<open>int\<close>, so a number above its range is \<open>None\<close>.\<close>

fun vnsprintf_number :: "u8 list \<Rightarrow> int \<Rightarrow> (int \<times> u8 list) option" where
  "vnsprintf_number [] num = Some (num, [])"
| "vnsprintf_number (c # fmt) num =
     (if is_digit c then
        let num = num * 10 + uint c - 0x30
        in if num \<ge> 2 ^ 31 then None else vnsprintf_number fmt num
      else Some (num, c # fmt))"

text \<open>The part from \<^verbatim>\<open>next_char\<close> on: \<open>fmt\<close> is what follows the character that
  \<^verbatim>\<open>fmt\<close> points to.\<close>

fun next_char :: "u8 list \<Rightarrow> format_struct \<Rightarrow> u8 list \<times> format_struct" where
  "next_char [] s = ([], s)"
| "next_char (c # fmt) s =
     (if c = 0x2D then next_char fmt (s\<lparr>flags := flags s OR PAD_NEG\<rparr>)
      else if c = 0x30 then next_char fmt (s\<lparr>flags := flags s OR PAD_NUL\<rparr>)
      else (c # fmt, s))"

definition va_arg :: "u32 list \<Rightarrow> (u32 \<times> u32 list) option" where
  "va_arg args = (case args of [] \<Rightarrow> None | w # ws \<Rightarrow> Some (w, ws))"

definition va_arg_ll :: "u32 list \<Rightarrow> (u64 \<times> u32 list) option" where
  "va_arg_ll args =
     (case args of lo # hi # ws \<Rightarrow> Some (push_bit 32 (ucast hi) OR ucast lo, ws) | _ \<Rightarrow> None)"

definition indentation ::
  "u8 list \<Rightarrow> format_struct \<Rightarrow> u32 list \<Rightarrow> (u8 list \<times> format_struct \<times> u32 list) option" where
  "indentation fmt s args =
     (let s = s\<lparr>pad := -1\<rparr> in
      if is_digit (cur fmt) then
        do { (n, fmt) \<leftarrow> vnsprintf_number fmt 0; Some (fmt, s\<lparr>pad := n\<rparr>, args) }
      else if cur fmt = 0x2A then
        do { (w, args) \<leftarrow> va_arg args;
             if sint w < 0
             then Some (tl fmt, s\<lparr>pad := - sint w, flags := flags s OR PAD_NEG\<rparr>, args)
             else Some (tl fmt, s\<lparr>pad := sint w\<rparr>, args) }
      else Some (fmt, s, args))"

definition precision ::
  "u8 list \<Rightarrow> format_struct \<Rightarrow> u32 list \<Rightarrow> (u8 list \<times> format_struct \<times> u32 list) option" where
  "precision fmt s args =
     (let s = s\<lparr>pre := -1\<rparr> in
      if cur fmt = 0x2E then
        let fmt = tl fmt in
        do { (fmt, s, args) \<leftarrow>
               (if is_digit (cur fmt) then
                  do { (n, fmt) \<leftarrow> vnsprintf_number fmt 0; Some (fmt, s\<lparr>pre := n\<rparr>, args) }
                else if cur fmt = 0x2A then
                  do { (w, args) \<leftarrow> va_arg args; Some (tl fmt, s\<lparr>pre := sint w\<rparr>, args) }
                else Some (fmt, s, args));
             Some (fmt, if pre s < 0 then s\<lparr>pre := 0\<rparr> else s, args) }
      else Some (fmt, s, args))"

definition long_long :: "u8 list \<Rightarrow> u8 list \<times> bool" where
  "long_long fmt =
     (if cur fmt = 0x6C then
        (if cur (tl fmt) = 0x6C then (tl (tl fmt), True) else (tl fmt, False))
      else (fmt, False))"

text \<open>One conversion; \<open>fmt\<close> is what follows the \<open>%\<close>. The rest of the format is where
  the \<open>for\<close> loop goes on.\<close>

definition conversion :: "mem \<Rightarrow> u8 list \<Rightarrow> format_struct \<Rightarrow> u32 list \<Rightarrow>
    (u8 list \<times> format_struct \<times> u32 list) option" where
  "conversion m fmt s args =
     (let (fmt, s) = next_char fmt (s\<lparr>flags := 0\<rparr>) in
      do { (fmt, s, args) \<leftarrow> indentation fmt s args;
           (fmt, s, args) \<leftarrow> precision fmt s args;
           let (fmt, is_long_long) = long_long fmt;
           let c = cur fmt;
           if c = 0x63 then
             do { (w, args) \<leftarrow> va_arg args; Some (tl fmt, vsprintf_put_char s (ucast w), args) }
           else if c = 0x73 then
             do { (w, args) \<leftarrow> va_arg args; Some (tl fmt, vsprintf_put_string m s w, args) }
           else if c \<in> {0x62, 0x6F, 0x64, 0x75, 0x78} then
             do { let s = (if c = 0x64 then s\<lparr>flags := flags s OR SGN_POS\<rparr> else s);
                  (num, args) \<leftarrow>
                    (if is_long_long then va_arg_ll args
                     else map_option (\<lambda>(w, ws). (ucast w, ws)) (va_arg args));
                  s \<leftarrow> vsprintf_put_number s num (vsprintf_base c);
                  Some (tl fmt, s, args) }
           else
             let s = emit 0x25 s in
             if c \<noteq> 0 then Some (tl fmt, emit c s, args) else Some (fmt, s, args) })"

partial_function (option) vsprintf_loop ::
  "mem \<Rightarrow> u8 list \<Rightarrow> format_struct \<Rightarrow> u32 list \<Rightarrow> format_struct option" where
  "vsprintf_loop m fmt s args =
     (case fmt of [] \<Rightarrow> Some s
      | c # fmt' \<Rightarrow>
          if c \<noteq> 0x25 then vsprintf_loop m fmt' (emit c s) args
          else do { (fmt'', s, args) \<leftarrow> conversion m fmt' s args; vsprintf_loop m fmt'' s args })"

text \<open>The bytes written before the terminating zero; the code returns their number.\<close>

definition vsprintf :: "mem \<Rightarrow> u8 list \<Rightarrow> u32 list \<Rightarrow> u8 list option" where
  "vsprintf m fmt args =
     map_option buf (vsprintf_loop m fmt \<lparr>buf = [], flags = 0, pad = 0, pre = 0\<rparr> args)"

text \<open>\<^verbatim>\<open>sprintf\<close> stores them with the terminator.\<close>

fun store_bytes :: "mem \<Rightarrow> u32 \<Rightarrow> u8 list \<Rightarrow> mem" where
  "store_bytes m p [] = m"
| "store_bytes m p (c # cs) = store_bytes (m(p := c)) (p + 1) cs"

definition sprintf :: "mem \<Rightarrow> u32 \<Rightarrow> u8 list \<Rightarrow> u32 list \<Rightarrow> (mem \<times> int) option" where
  "sprintf m buffer fmt args =
     do { out \<leftarrow> vsprintf m fmt args; Some (store_bytes m buffer (out @ [0]), int (length out)) }"

section \<open>Padding\<close>

lemma pad_pre_eq:
  "pad_pre c s = s\<lparr>buf := buf s @ replicate (nat (pad s - 1)) c, pad := min 0 (pad s - 1)\<rparr>"
proof (induction c s rule: pad_pre.induct)
  case (1 c s)
  show ?case
  proof (cases "pad s - 1 > 0")
    case True
    then have "nat (pad s - 1) = Suc (nat (pad s - 2))" by simp
    with True 1 show ?thesis by (subst pad_pre.simps) (simp add: emit_def)
  next
    case False
    then show ?thesis by (subst pad_pre.simps) simp
  qed
qed

lemma pad_post_eq:
  "pad_post lim c s =
     s\<lparr>buf := buf s @ replicate (nat (pad s - lim)) c, pad := min lim (pad s) - 1\<rparr>"
proof (induction lim c s rule: pad_post.induct)
  case (1 lim c s)
  show ?case
  proof (cases "pad s > lim")
    case True
    then have "nat (pad s - lim) = Suc (nat (pad s - 1 - lim))" by simp
    with True 1 show ?thesis by (subst pad_post.simps) (simp add: emit_def)
  next
    case False
    then show ?thesis by (subst pad_post.simps) simp
  qed
qed

lemma put_bytes_eq:
  "put_bytes m p k s = s\<lparr>buf := buf s @ map (\<lambda>i. m (p + of_nat i)) [0..<k]\<rparr>"
proof (induction k arbitrary: p s)
  case (Suc k)
  have "map (\<lambda>i. m (p + of_nat i)) [0..<Suc k] = m p # map (\<lambda>i. m (p + 1 + of_nat i)) [0..<k]"
    by (simp only: upt_conv_Cons [of 0 "Suc k"] zero_less_Suc list.map flip: map_Suc_upt)
      (simp add: algebra_simps)
  then show ?case by (simp only: put_bytes.simps Suc) (simp add: emit_def)
qed simp

section \<open>Digits\<close>

lemma digit_char_nat:
  "k < 16 \<Longrightarrow> digit_value (digit_char (of_nat k)) = of_nat k \<and> is_xdigit (digit_char (of_nat k))
    \<and> digit_char (of_nat k) \<noteq> 0x78 \<and> digit_char (of_nat k) \<noteq> 0x58 \<and> digit_char (of_nat k) \<noteq> 0
    \<and> (digit_char (of_nat k) = ZERO \<longleftrightarrow> k = 0)"
proof -
  assume "k < 16"
  then have "k \<in> set [0, 1, 2, 3, 4, 5, 6, 7, 8, 9, 10, 11, 12, 13, 14, 15]"
    by (auto simp: less_Suc_eq numeral_eq_Suc)
  then show ?thesis
    by (simp only: set_simps insert_iff empty_iff simp_thms)
      (elim disjE; simp add: digit_char_def digit_value_def is_xdigit_def is_digit_def tolower_def)
qed

lemma digit_char:
  "unat d < 16 \<Longrightarrow> digit_value (digit_char d) = d \<and> is_xdigit (digit_char d)
    \<and> digit_char d \<noteq> 0x78 \<and> digit_char d \<noteq> 0x58 \<and> digit_char d \<noteq> 0 \<and> (digit_char d = ZERO \<longleftrightarrow> d = 0)"
  using digit_char_nat [of "unat d"] by (simp add: unat_eq_zero)

lemma digits_value_append: "digits_value b (s @ t) v = digits_value b t (digits_value b s v)"
  by (induction s arbitrary: v) simp_all

lemma number_digits_correct:
  assumes b: "2 \<le> unat b" "unat b \<le> 16"
  shows "\<exists>e. number_digits n b ds = Some (ds @ e) \<and> list_all (base_digit b) e \<and>
    list_all (\<lambda>c. c \<noteq> 0 \<and> c \<noteq> 0x78 \<and> c \<noteq> 0x58) e \<and>
    digits_value (unat b) (rev e) 0 = unat n \<and> (if n = 0 then e = [] else e \<noteq> [] \<and> last e \<noteq> ZERO)"
proof (induction "unat n" arbitrary: n ds rule: less_induct)
  case less
  show ?case
  proof (cases "n = 0")
    case True
    then show ?thesis by (subst number_digits.simps) simp
  next
    case False
    define q :: u64 where "q = of_nat (unat n div unat b)"
    define d :: u32 where "d = of_nat (unat n mod unat b)"
    have bnz: "b \<noteq> 0" using b by auto
    have ub: "unat n < 2 ^ 64" using unsigned_less [of n] by simp
    have q: "unat q = unat n div unat b"
      unfolding q_def using ub by (intro unat_of_nat_lt) (simp add: le_less_trans [OF div_le_dividend])
    have mod: "unat n mod unat b < unat b" using b by simp
    then have d: "unat d = unat n mod unat b"
      unfolding d_def by (intro unat_of_nat32 less_trans [OF mod unat_lt32])
    have "unat q < unat n" unfolding q using False b by (intro div_less_dividend) (auto simp: unat_gt_0)
    from less [OF this, of "ds @ [digit_char d]"] obtain e where
      e: "number_digits q b (ds @ [digit_char d]) = Some ((ds @ [digit_char d]) @ e)"
      "list_all (base_digit b) e" "list_all (\<lambda>c. c \<noteq> 0 \<and> c \<noteq> 0x78 \<and> c \<noteq> 0x58) e"
      "digits_value (unat b) (rev e) 0 = unat q" "if q = 0 then e = [] else e \<noteq> [] \<and> last e \<noteq> ZERO"
      by blast
    have step: "number_digits n b ds = number_digits q b (ds @ [digit_char d])"
      using False by (subst number_digits.simps) (simp add: div_rem_def arch_div_eq [OF bnz] q_def d_def)
    have dc: "unat d < 16" unfolding d by (rule less_le_trans [OF mod b(2)])
    have "unat n = unat q * unat b + unat d" using q d by simp
    moreover have "d \<noteq> 0" if "e = []" using that e(4) calculation False by (auto simp: unat_eq_zero)
    ultimately show ?thesis
      using step e digit_char [OF dc] mod d b False
      by (intro exI [of _ "digit_char d # e"])
        (auto simp: digits_value_append base_digit_def word_less_nat_alt unat_eq_zero split: if_splits)
  qed
qed

section \<open>Numbers\<close>

text \<open>What the formatter writes for a number of base \<open>b\<close> when no sign is asked for: padding and
  digits, the padding on the left unless \<^verbatim>\<open>PAD_NEG\<close> is set.\<close>

definition padded :: "format_struct \<Rightarrow> u8 list \<Rightarrow> u8 list" where
  "padded s ds =
     (let n = nat (pad s - int (length ds)) in
      if flag PAD_NEG s then ds @ replicate n SPC
      else if flag PAD_NUL s then replicate n ZERO @ ds
      else replicate n SPC @ ds)"

lemma flag_or: "flag (F OR G) s \<longleftrightarrow> flag F s \<or> flag G s"
  by (simp only: flag_def bit.conj_disj_distrib or_eq_0_iff de_Morgan_conj)

lemma flag_upd [simp]:
  "flag F (s\<lparr>pad := p\<rparr>) = flag F s" "flag F (s\<lparr>buf := b\<rparr>) = flag F s" "flag F (s\<lparr>pre := r\<rparr>) = flag F s"
  by (simp_all add: flag_def)

lemma put_number_eq:
  assumes b: "b \<noteq> 0" and neg: "\<not> (flag SGN_POS s \<and> sint n < 0)"
    and e: "(if n = 0 then Some [ZERO] else number_digits n b []) = Some e"
    and len: "pre s < int (length e)"
  shows "\<exists>s'. vsprintf_put_number s n b = Some s' \<and> buf s' = buf s @ padded s (rev e)"
proof -
  let ?s = "s\<lparr>pre := int (length e), pad := pad s - int (length e)\<rparr>"
  let ?s1 = "if \<not> flag (PAD_NEG OR PAD_NUL) s then pad_post 0 SPC ?s else ?s"
  let ?s2 = "if \<not> flag PAD_NEG s then pad_post 0 (if flag PAD_NUL s then ZERO else SPC) ?s1 else ?s1"
  have p [simp]: "pre (pad_post l c t) = pre t" "flag F (pad_post l c t) = flag F t" for l c t F
    by (simp_all add: pad_post_eq flag_def)
  have "vsprintf_put_number s n b = Some (pad_post 0 SPC (?s2\<lparr>buf := buf ?s2 @ rev e\<rparr>))"
    unfolding vsprintf_put_number_def Let_def using b len neg
    by (simp only: if_False e Option.bind.simps if_True format_struct.simps flag_upd simp_thms)
      (simp add: flag_or)
  moreover have "buf (pad_post 0 SPC (?s2\<lparr>buf := buf ?s2 @ rev e\<rparr>)) = buf s @ padded s (rev e)"
    by (simp add: pad_post_eq padded_def Let_def flag_or)
  ultimately show ?thesis by blast
qed

text \<open>The digits of any number in a base from 2 to 16, most significant first.\<close>

definition numeral_of :: "u32 \<Rightarrow> u64 \<Rightarrow> u8 list \<Rightarrow> bool" where
  "numeral_of b n ds \<longleftrightarrow> ds \<noteq> [] \<and> list_all (base_digit b) ds \<and>
     digits_value (unat b) ds 0 = unat n \<and> (hd ds = ZERO \<longrightarrow> ds = [ZERO])"

lemma number_numeral:
  assumes b: "2 \<le> unat b" "unat b \<le> 16"
  shows "\<exists>e. (if n = 0 then Some [ZERO] else number_digits n b []) = Some e \<and>
    numeral_of b n (rev e) \<and> list_all (\<lambda>c. c \<noteq> 0 \<and> c \<noteq> 0x78 \<and> c \<noteq> 0x58) e"
proof (cases "n = 0")
  case True
  have "0 < b" using b(1) by (cases "b = 0") (auto simp: word_neq_0_conv)
  then have "base_digit b ZERO"
    by (simp add: base_digit_def is_xdigit_def is_digit_def digit_value_def)
  with True show ?thesis
    by (intro exI [of _ "[ZERO]"]) (simp add: numeral_of_def digit_value_def is_digit_def)
next
  case False
  then show ?thesis using number_digits_correct [OF b, of n "[]"]
    by (auto simp: numeral_of_def list_all_iff hd_rev)
qed

lemma put_number_unsigned:
  assumes b: "2 \<le> unat b" "unat b \<le> 16" and sgn: "\<not> flag SGN_POS s \<or> 0 \<le> sint n" and pre: "pre s \<le> 0"
  shows "\<exists>ds s'. vsprintf_put_number s n b = Some s' \<and> buf s' = buf s @ padded s ds \<and>
    numeral_of b n ds \<and> list_all (\<lambda>c. c \<noteq> 0 \<and> c \<noteq> 0x78 \<and> c \<noteq> 0x58) ds"
proof -
  obtain e where e: "(if n = 0 then Some [ZERO] else number_digits n b []) = Some e"
    "numeral_of b n (rev e)" "list_all (\<lambda>c. c \<noteq> 0 \<and> c \<noteq> 0x78 \<and> c \<noteq> 0x58) e"
    using number_numeral [OF b] by blast
  have bnz: "b \<noteq> 0" using b by auto
  have len: "pre s < int (length e)"
    using pre e(2) by (simp add: numeral_of_def) (metis le_less_trans length_greater_0_conv of_nat_0_less_iff)
  have "\<not> (flag SGN_POS s \<and> sint n < 0)" using sgn by auto
  from put_number_eq [OF bnz this e(1) len] e(2,3) show ?thesis
    by (auto simp: list_all_iff intro!: exI [of _ "rev e"])
qed

lemma padded_length: "int (length (padded s ds)) = max (pad s) (int (length ds))"
  by (auto simp: padded_def Let_def)

text \<open>A conversion that consists of its letter only.\<close>

lemma plain_conversion:
  assumes c: "c \<in> {0x62, 0x6F, 0x64, 0x75, 0x78}"
  shows "vsprintf_loop m [0x25, c] s (w # ws) =
    vsprintf_put_number
      (s\<lparr>flags := (if c = 0x64 then SGN_POS else 0), pad := -1, pre := -1\<rparr>) (ucast w) (vsprintf_base c)"
proof -
  have "vsprintf_loop m [] s' ws = Some s'" for s' by (subst vsprintf_loop.simps) simp
  moreover have comm: "s\<lparr>pad := -1, pre := -1, flags := SGN_POS\<rparr> = s\<lparr>flags := SGN_POS, pad := -1, pre := -1\<rparr>"
    by simp
  moreover have "conversion m [c] s (w # ws) =
      map_option (\<lambda>s. ([], s, ws)) (vsprintf_put_number
      (s\<lparr>flags := (if c = 0x64 then SGN_POS else 0), pad := -1, pre := -1\<rparr>) (ucast w) (vsprintf_base c))"
    using c by (elim insertE emptyE;
      simp add: conversion_def indentation_def precision_def long_long_def cur_def
      is_digit_def va_arg_def map_option_case comm split: option.split Option.bind_split)
  ultimately show ?thesis
    by (subst vsprintf_loop.simps) (auto split: option.splits Option.bind_splits)
qed

section \<open>Storing\<close>

lemma digits_value_ge: "v * b ^ length s \<le> digits_value b s v"
proof (induction s arbitrary: v)
  case (Cons c s)
  have "v * b ^ length (c # s) \<le> (v * b + unat (digit_value c)) * b ^ length s"
    by (simp add: algebra_simps)
  also have "\<dots> \<le> digits_value b (c # s) v" using Cons by simp
  finally show ?case .
qed simp

lemma byte_all: "list_all (\<lambda>n. P (of_nat n)) [0..<256] \<Longrightarrow> P (c :: u8)"
  using unsigned_less [of c] by (auto simp: list_all_iff dest: bspec [of _ _ "unat c"])

lemma digit_value_zero: "is_xdigit c \<Longrightarrow> digit_value c = 0 \<Longrightarrow> c = ZERO"
proof -
  have "is_xdigit c \<longrightarrow> digit_value c = 0 \<longrightarrow> c = ZERO"
    by (rule byte_all) code_simp
  then show "is_xdigit c \<Longrightarrow> digit_value c = 0 \<Longrightarrow> c = ZERO" by blast
qed

lemma numeral_length:
  assumes "numeral_of b n ds" and b: "2 \<le> unat b"
  shows "length ds \<le> 64"
proof (cases "hd ds = ZERO")
  case True
  then show ?thesis using assms(1) by (simp add: numeral_of_def)
next
  case False
  obtain c s where ds: "ds = c # s" using assms(1) by (cases ds) (auto simp: numeral_of_def)
  have d: "is_xdigit c" using assms(1) ds by (simp add: numeral_of_def base_digit_def)
  have "digit_value c \<noteq> 0"
    using digit_value_zero [OF d] False ds by auto
  then have "1 \<le> unat (digit_value c)" by (simp add: Suc_leI unat_gt_0)
  then have "1 * 2 ^ length s \<le> unat (digit_value c) * unat b ^ length s"
    using b by (intro mult_le_mono power_mono) auto
  also have "\<dots> \<le> unat n"
    using digits_value_ge [of "unat (digit_value c)" "unat b" s] assms(1) ds by (simp add: numeral_of_def)
  finally have le: "(2::nat) ^ length s \<le> unat n" by simp
  have "unat n < 2 ^ 64" using unsigned_less [of n] by simp
  with le have "(2::nat) ^ length s < 2 ^ 64" by (rule le_less_trans)
  then have "length s < 64" by (rule power_less_imp_less_exp [rotated]) simp
  with ds show ?thesis by simp
qed

lemma store_bytes_out:
  "(\<And>i. i < length s \<Longrightarrow> a \<noteq> p + of_nat i) \<Longrightarrow> store_bytes m p s a = m a"
proof (induction s arbitrary: m p)
  case (Cons c s)
  have "store_bytes (m(p := c)) (p + 1) s a = (m(p := c)) a"
    by (rule Cons.IH) (use Cons.prems [of "Suc _"] in \<open>auto simp: algebra_simps\<close>)
  with Cons.prems [of 0] show ?case by simp
qed simp

lemma store_bytes_cstr:
  "0 \<notin> set s \<Longrightarrow> length s < 2 ^ 32 - 1 \<Longrightarrow> cstr (store_bytes m p (s @ [0])) p s"
proof (induction s arbitrary: m p)
  case (Cons c s)
  have "store_bytes (m(p := c)) (p + 1) (s @ [0]) p = (m(p := c)) p"
  proof (rule store_bytes_out)
    fix i assume "i < length (s @ [0])"
    then have "(of_nat (Suc i) :: u32) \<noteq> of_nat 0"
      using Cons.prems(2) of_nat_eq_32 [of "Suc i" 0] by simp
    then show "p \<noteq> p + 1 + of_nat i" by (simp add: add.assoc)
  qed
  with Cons show ?case by auto
qed simp

lemma unat_ucast64: "unat (ucast (w :: u32) :: u64) = unat w"
  using unat_lt32 [of w] by (simp add: unsigned_ucast_eq take_bit_nat_eq_self)

lemma sint_ucast_nonneg: "0 \<le> sint (ucast (w :: u32) :: u64)"
proof -
  have "uint (ucast w :: u64) = uint w"
    using unat_ucast64 [of w] by (metis int_nat_eq of_nat_unat)
  moreover have "uint w < 2 ^ 32" using unsigned_less [of w] by simp
  ultimately show ?thesis
    by (simp add: sint_uint signed_take_bit_eq_take_bit_shift take_bit_eq_mod)
qed

lemma plain_number:
  assumes "(c, b) \<in> {(0x62, 2), (0x6F, 8), (0x64, 10), (0x75, 10), (0x78, 16)}"
  shows "\<exists>ds. vsprintf m [0x25, c] [w] = Some ds \<and> numeral_of b (ucast w) ds \<and>
    list_all (\<lambda>c. c \<noteq> 0 \<and> c \<noteq> 0x78 \<and> c \<noteq> 0x58) ds"
proof -
  let ?s = "\<lparr>buf = [], flags = (if c = 0x64 then SGN_POS else 0), pad = -1, pre = -1\<rparr>"
  have c: "c \<in> {0x62, 0x6F, 0x64, 0x75, 0x78}" "vsprintf_base c = b" "2 \<le> unat b" "unat b \<le> 16"
    using assms by (auto simp: vsprintf_base_def)
  have "0 \<le> sint (ucast w :: u64)" by (rule sint_ucast_nonneg)
  then obtain ds s' where "vsprintf_put_number ?s (ucast w) b = Some s'" "buf s' = buf ?s @ padded ?s ds"
    "numeral_of b (ucast w) ds" "list_all (\<lambda>c. c \<noteq> 0 \<and> c \<noteq> 0x78 \<and> c \<noteq> 0x58) ds"
    using put_number_unsigned [OF c(3,4), of ?s "ucast w"] by auto
  moreover have "padded ?s ds = ds" by (simp add: padded_def Let_def)
  ultimately show ?thesis
    using plain_conversion [OF c(1), of m "\<lparr>buf = [], flags = 0, pad = 0, pre = 0\<rparr>" w "[]"]
    by (simp add: vsprintf_def c(2))
qed

section \<open>Properties\<close>

text \<open>
  C37: a number that \<^verbatim>\<open>sprintf\<close> stores with \<open>%u\<close> or \<open>%x\<close> is read back by
  \<^verbatim>\<open>strtoul\<close> in the base of the conversion, which stops at the terminator.
\<close>

theorem print_parse_roundtrip:
  "(\<exists>m' n. sprintf m p [0x25, 0x75] [w] = Some (m', n) \<and> strtoul m' p 10 = Some (w, p + of_int n)) \<and>
   (\<exists>m' n. sprintf m p [0x25, 0x78] [w] = Some (m', n) \<and> strtoul m' p 16 = Some (w, p + of_int n))"
proof -
  have *: "\<exists>m' n. sprintf m p [0x25, c] [w] = Some (m', n) \<and> strtoul m' p b = Some (w, p + of_int n)"
    if cb: "(c, b) \<in> {(0x75, 10), (0x78, 16)}" for c b
  proof -
    have b: "2 \<le> unat b" "b \<noteq> 0" using cb by auto
    from cb have "(c, b) \<in> {(0x62, 2), (0x6F, 8), (0x64, 10), (0x75, 10), (0x78, 16)}" by auto
    from plain_number [OF this, of m w] obtain ds where ds: "vsprintf m [0x25, c] [w] = Some ds"
      and num: "numeral_of b (ucast w) ds" and nz: "list_all (\<lambda>c. c \<noteq> 0 \<and> c \<noteq> 0x78 \<and> c \<noteq> 0x58) ds"
      by blast
    define m' where "m' = store_bytes m p (ds @ [0])"
    have cs: "cstr m' p ds"
      unfolding m'_def using nz numeral_length [OF num b(1)]
      by (intro store_bytes_cstr) (auto simp: list_all_iff)
    have all: "takeWhile (base_digit b) ds = ds"
      using num by (simp add: numeral_of_def list_all_iff)
    have loop: "strtoul_loop m' p b 0 = Some (w, p + of_nat (length ds))"
      using strtoul_loop_cstr [OF cs, of b 0] num
      by (simp add: all numeral_of_def unat_ucast64)
    have nox: "\<not> (m' p = 0x30 \<and> tolower (m' (p + 1)) = 0x78)"
    proof
      assume "m' p = 0x30 \<and> tolower (m' (p + 1)) = 0x78"
      moreover from this have "ds = [ZERO]" using num cs by (cases ds) (auto simp: numeral_of_def)
      ultimately show False using cs by (simp add: tolower_def)
    qed
    then have "strtoul m' p b = Some (w, p + of_nat (length ds))"
      using loop b(2) unfolding strtoul_def Let_def by (simp only: if_False simp_thms)
    then show ?thesis using ds by (auto simp: sprintf_def m'_def)
  qed
  show ?thesis by (rule conjI; rule *; simp)
qed

text \<open>
  Without a precision, a number is written as its digits in the base, without leading zeros,
  padded to the width of the conversion on the side that the flags ask for.
\<close>

theorem number_padding:
  assumes "2 \<le> unat b" and "unat b \<le> 16" and "\<not> flag SGN_POS s" and "pre s \<le> 0"
  shows "\<exists>ds s'. vsprintf_put_number s n b = Some s' \<and> buf s' = buf s @ padded s ds \<and>
    numeral_of b n ds \<and> int (length (padded s ds)) = max (pad s) (int (length ds))"
  using put_number_unsigned [of b s n] assms padded_length by blast

theorem number_padding_witness:
  "\<exists>ds s'. vsprintf_put_number \<lparr>buf = [], flags = PAD_NUL, pad = 8, pre = -1\<rparr> 255 16 = Some s' \<and>
    buf s' = padded \<lparr>buf = [], flags = PAD_NUL, pad = 8, pre = -1\<rparr> ds \<and> numeral_of 16 255 ds"
  using number_padding [of 16 "\<lparr>buf = [], flags = PAD_NUL, pad = 8, pre = -1\<rparr>" 255]
  by (auto simp: flag_def PAD_NUL_def SGN_POS_def)

text \<open>
  The conversion \<open>%d\<close> reads its argument as an unsigned long, so it never prints a minus
  sign; a precision above the number of digits makes the formatter loop.
\<close>

theorem percent_d_is_unsigned:
  "\<exists>ds. vsprintf m [0x25, 0x64] [w] = Some ds \<and> numeral_of 10 (ucast w) ds"
  using plain_number [of "0x64" 10 m w] by auto

theorem precision_does_not_return:
  "vsprintf_put_number \<lparr>buf = [], flags = 0, pad = -1, pre = 2\<rparr> 5 16 = None"
  by (simp add: vsprintf_put_number_def flag_def number_digits.simps div_rem_def arch_div_eq
      pad_post_eq Let_def)

end
