(* ===== verification/ListHead.thy ===== *)
theory ListHead
  imports Prelude "HOL-Library.Monad_Syntax"
begin

text \<open>
  \<^verbatim>\<open>elfboot/list.h\<close>: circular doubly linked lists over a heap of nodes, and
  \<^verbatim>\<open>elfboot/tree.h\<close> built on them. A node is whatever holds a \<^verbatim>\<open>struct list_head\<close>;
  \<open>None\<close> is \<^verbatim>\<open>NULL\<close>. A write through \<^verbatim>\<open>NULL\<close> changes no node: there is no
  paging, it lands in the interrupt vectors. The locale \<open>list_heap\<close> states the contract that
  the clients of the lists rely on, and it is interpreted on the pointer operations.
\<close>

section \<open>Pointers\<close>

record 'n links =
  prv :: "'n \<Rightarrow> 'n option"
  nxt :: "'n \<Rightarrow> 'n option"

definition set_prv :: "'n option \<Rightarrow> 'n option \<Rightarrow> 'n links \<Rightarrow> 'n links" where
  "set_prv p v h = (case p of None \<Rightarrow> h | Some n \<Rightarrow> h\<lparr>prv := (prv h)(n := v)\<rparr>)"

definition set_nxt :: "'n option \<Rightarrow> 'n option \<Rightarrow> 'n links \<Rightarrow> 'n links" where
  "set_nxt p v h = (case p of None \<Rightarrow> h | Some n \<Rightarrow> h\<lparr>nxt := (nxt h)(n := v)\<rparr>)"

definition list_add_between :: "'n \<Rightarrow> 'n option \<Rightarrow> 'n option \<Rightarrow> 'n links \<Rightarrow> 'n links" where
  "list_add_between new p n h =
     (let h = set_prv n (Some new) h;
          h = set_nxt (Some new) n h;
          h = set_prv (Some new) p h
      in set_nxt p (Some new) h)"

definition list_del_between :: "'n option \<Rightarrow> 'n option \<Rightarrow> 'n links \<Rightarrow> 'n links" where
  "list_del_between p n h = set_prv n p (set_nxt p n h)"

definition list_init :: "'n \<Rightarrow> 'n links \<Rightarrow> 'n links" where
  "list_init lh h = set_nxt (Some lh) (Some lh) (set_prv (Some lh) (Some lh) h)"

definition list_empty :: "'n \<Rightarrow> 'n links \<Rightarrow> bool" where
  "list_empty lh h \<longleftrightarrow> nxt h lh = Some lh"

definition list_add :: "'n \<Rightarrow> 'n \<Rightarrow> 'n links \<Rightarrow> 'n links" where
  "list_add new lh h = list_add_between new (Some lh) (nxt h lh) h"

definition list_add_tail :: "'n \<Rightarrow> 'n \<Rightarrow> 'n links \<Rightarrow> 'n links" where
  "list_add_tail new lh h = list_add_between new (prv h lh) (Some lh) h"

definition list_del :: "'n \<Rightarrow> 'n links \<Rightarrow> 'n links" where
  "list_del e h =
     (let h = list_del_between (prv h e) (nxt h e) h
      in set_prv (Some e) None (set_nxt (Some e) None h))"

definition list_move :: "'n \<Rightarrow> 'n \<Rightarrow> 'n links \<Rightarrow> 'n links" where
  "list_move l lh h = list_add l lh (list_del l h)"

definition list_splice_between :: "'n \<Rightarrow> 'n option \<Rightarrow> 'n option \<Rightarrow> 'n links \<Rightarrow> 'n links" where
  "list_splice_between l p n h =
     (let first = nxt h l; last = prv h l;
          h = set_prv first p h;
          h = set_nxt p first h;
          h = set_nxt last n h
      in set_prv n last h)"

definition list_splice :: "'n \<Rightarrow> 'n \<Rightarrow> 'n links \<Rightarrow> 'n links" where
  "list_splice l lh h =
     (if \<not> list_empty l h then list_splice_between l (Some lh) (nxt h lh) h else h)"

definition list_first_or_null :: "'n \<Rightarrow> 'n links \<Rightarrow> 'n option" where
  "list_first_or_null lh h = (if nxt h lh \<noteq> Some lh then nxt h lh else None)"

text \<open>The nodes that \<^verbatim>\<open>list_for_each\<close> visits from \<open>pos\<close> on; \<open>None\<close> when the loop does
  not come back to the head, or follows \<^verbatim>\<open>NULL\<close>.\<close>

partial_function (option) list_for_each :: "'n \<Rightarrow> 'n option \<Rightarrow> 'n links \<Rightarrow> 'n list option" where
  "list_for_each lh pos h =
     (case pos of None \<Rightarrow> None
      | Some p \<Rightarrow> if p = lh then Some []
                  else do { ps \<leftarrow> list_for_each lh (nxt h p) h; Some (p # ps) })"

section \<open>Rings\<close>

text \<open>\<open>linked h a xs b\<close>: the nodes \<open>xs\<close> lie between \<open>a\<close> and \<open>b\<close>, linked in both directions.\<close>

fun linked :: "'n links \<Rightarrow> 'n \<Rightarrow> 'n list \<Rightarrow> 'n \<Rightarrow> bool" where
  "linked h a [] b \<longleftrightarrow> nxt h a = Some b \<and> prv h b = Some a"
| "linked h a (x # xs) b \<longleftrightarrow> nxt h a = Some x \<and> prv h x = Some a \<and> linked h x xs b"

definition ring :: "'n links \<Rightarrow> 'n \<Rightarrow> 'n list \<Rightarrow> bool" where
  "ring h lh xs \<longleftrightarrow> distinct (lh # xs) \<and> linked h lh xs lh"

text \<open>A family of disjoint lists, given by its heads.\<close>

type_synonym 'n family = "'n \<Rightarrow> 'n list option"

definition nodes :: "'n family \<Rightarrow> 'n set" where
  "nodes F = {n. \<exists>lh xs. F lh = Some xs \<and> n \<in> set (lh # xs)}"

definition wf_lists :: "'n links \<Rightarrow> 'n family \<Rightarrow> bool" where
  "wf_lists h F \<longleftrightarrow>
     (\<forall>lh xs. F lh = Some xs \<longrightarrow> ring h lh xs) \<and>
     (\<forall>lh lh' xs xs'. F lh = Some xs \<longrightarrow> F lh' = Some xs' \<longrightarrow> lh \<noteq> lh' \<longrightarrow>
        set (lh # xs) \<inter> set (lh' # xs') = {})"

lemma linked_append:
  "linked h a (xs @ x # ys) b \<longleftrightarrow> linked h a xs x \<and> linked h x ys b"
  by (induction xs arbitrary: a) auto

lemma linked_agree:
  "(\<And>n. n \<in> set (a # xs) \<Longrightarrow> nxt h' n = nxt h n) \<Longrightarrow>
   (\<And>n. n \<in> set (xs @ [b]) \<Longrightarrow> prv h' n = prv h n) \<Longrightarrow> linked h' a xs b \<longleftrightarrow> linked h a xs b"
  by (induction xs arbitrary: a) auto

lemma ring_agree:
  "(\<And>n. n \<in> set (lh # xs) \<Longrightarrow> nxt h' n = nxt h n \<and> prv h' n = prv h n) \<Longrightarrow>
   ring h' lh xs \<longleftrightarrow> ring h lh xs"
  unfolding ring_def by (subst linked_agree [of lh xs h' h lh]) auto

lemma wf_ring: "wf_lists h F \<Longrightarrow> F lh = Some xs \<Longrightarrow> ring h lh xs"
  by (simp add: wf_lists_def)

lemma wf_disj:
  "wf_lists h F \<Longrightarrow> F lh = Some xs \<Longrightarrow> F lh' = Some xs' \<Longrightarrow> lh \<noteq> lh' \<Longrightarrow>
   set (lh # xs) \<inter> set (lh' # xs') = {}"
  unfolding wf_lists_def by blast

text \<open>An update of one list that touches no other keeps the family well-formed.\<close>

lemma wf_update:
  assumes wf: "wf_lists h F" and F: "F lh = Some xs" and ring: "ring h' lh xs'"
    and sub: "set xs' \<subseteq> set xs \<union> New" and new: "New \<inter> nodes F = {}"
    and frame: "\<And>n. n \<notin> set (lh # xs) \<union> New \<Longrightarrow> nxt h' n = nxt h n \<and> prv h' n = prv h n"
  shows "wf_lists h' (F(lh \<mapsto> xs'))"
proof -
  have other: "set (lh # xs') \<inter> set (lh' # ys) = {} \<and> (\<forall>n \<in> set (lh' # ys). nxt h' n = nxt h n \<and> prv h' n = prv h n)"
    if "F lh' = Some ys" "lh' \<noteq> lh" for lh' ys
  proof -
    have d: "set (lh # xs) \<inter> set (lh' # ys) = {}" using wf_disj [OF wf F that(1)] that(2) by auto
    have "set (lh' # ys) \<subseteq> nodes F" using that(1) by (auto simp: nodes_def)
    with new have "New \<inter> set (lh' # ys) = {}" by blast
    with d sub frame show ?thesis by fastforce
  qed
  have r: "ring h' k zs" if "(F(lh \<mapsto> xs')) k = Some zs" for k zs
  proof (cases "k = lh")
    case True
    with that ring show ?thesis by simp
  next
    case False
    with that have k: "F k = Some zs" by simp
    show ?thesis
      by (subst ring_agree [of k zs h' h]) (use other [OF k False] wf_ring [OF wf k] in auto)
  qed
  have "set (k # zs) \<inter> set (k' # zs') = {}"
    if "(F(lh \<mapsto> xs')) k = Some zs" "(F(lh \<mapsto> xs')) k' = Some zs'" "k \<noteq> k'" for k zs k' zs'
  proof (cases "k = lh \<or> k' = lh")
    case True
    then show ?thesis using that other by (metis Int_commute fun_upd_apply option.inject)
  next
    case False
    then show ?thesis using that wf_disj [OF wf, of k zs k' zs'] by simp
  qed
  with r show ?thesis unfolding wf_lists_def by blast
qed

section \<open>The operations on rings\<close>

lemma linked_prv: "linked h a xs b \<Longrightarrow> prv h b = Some (last (a # xs))"
  by (induction xs arbitrary: a) auto

lemma linked_nxt: "linked h a xs b \<Longrightarrow> nxt h a = Some (hd (xs @ [b]))"
  by (cases xs) auto

lemmas link_defs = set_prv_def set_nxt_def list_add_between_def list_del_between_def Let_def

lemma add_links:
  "nxt (list_add_between new (Some p) (Some n) h) = (nxt h)(new := Some n, p := Some new)"
  "prv (list_add_between new (Some p) (Some n) h) = (prv h)(n := Some new, new := Some p)"
  by (simp_all add: link_defs)

lemma del_links:
  "prv h e = Some p \<Longrightarrow> nxt h e = Some n \<Longrightarrow>
     nxt (list_del e h) = (nxt h)(p := Some n, e := None) \<and> prv (list_del e h) = (prv h)(n := Some p, e := None)"
  by (simp add: list_del_def link_defs)

lemma ring_init: "ring (list_init lh h) lh []"
  by (simp add: ring_def list_init_def link_defs)

lemma ring_add:
  assumes r: "ring h lh xs" and new: "new \<notin> set (lh # xs)"
  shows "ring (list_add new lh h) lh (new # xs)"
proof (cases xs)
  case Nil
  with assms show ?thesis by (simp add: ring_def list_add_def add_links)
next
  case (Cons x ys)
  let ?h = "list_add new lh h"
  have n: "nxt h lh = Some x" using r Cons by (simp add: ring_def)
  have "linked ?h x ys lh \<longleftrightarrow> linked h x ys lh"
    by (rule linked_agree) (use r new Cons n in \<open>auto simp: ring_def list_add_def add_links\<close>)
  with assms Cons n show ?thesis
    by (auto simp: ring_def list_add_def add_links)
qed

lemma ring_add_tail:
  assumes r: "ring h lh xs" and new: "new \<notin> set (lh # xs)"
  shows "ring (list_add_tail new lh h) lh (xs @ [new])"
proof (cases xs rule: rev_cases)
  case Nil
  with assms show ?thesis by (simp add: ring_def list_add_tail_def add_links)
next
  case (snoc ys x)
  let ?h = "list_add_tail new lh h"
  have p: "prv h lh = Some x" using r snoc linked_prv [of h lh xs lh] by (simp add: ring_def)
  have "linked ?h lh ys x \<longleftrightarrow> linked h lh ys x"
    by (rule linked_agree) (use r new snoc p in \<open>auto simp: ring_def list_add_tail_def add_links\<close>)
  with assms snoc p show ?thesis
    by (auto simp: ring_def list_add_tail_def add_links linked_append)
qed

lemma linked_around:
  assumes "linked h a (us @ e # vs) b"
  shows "prv h e = Some (last (a # us))" and "nxt h e = Some (hd (vs @ [b]))"
  using assms linked_prv [of h a us e] linked_nxt [of h e vs b] by (auto simp: linked_append)

lemma linked_bridge:
  "linked h a us e \<Longrightarrow> linked h e vs b \<Longrightarrow> distinct (a # us @ e # vs) \<Longrightarrow> b \<notin> set (us @ e # vs) \<Longrightarrow>
   nxt h' = (nxt h)(last (a # us) := Some (hd (vs @ [b])), e := w) \<Longrightarrow>
   prv h' = (prv h)(hd (vs @ [b]) := Some (last (a # us)), e := w') \<Longrightarrow>
   linked h' a (us @ vs) b"
proof (induction us arbitrary: a)
  case Nil
  show ?case
  proof (cases vs)
    case Nil
    with Nil.prems show ?thesis by auto
  next
    case (Cons v ws)
    have "linked h' v ws b \<longleftrightarrow> linked h v ws b"
      by (rule linked_agree) (use Nil.prems Cons in auto)
    with Nil.prems Cons show ?thesis by auto
  qed
next
  case (Cons u us)
  have "linked h' u (us @ vs) b"
    by (rule Cons.IH) (use Cons.prems in auto)
  moreover have "nxt h' a = Some u" "prv h' u = Some a"
    using Cons.prems by (cases vs; auto split: if_splits)+
  ultimately show ?case by simp
qed

lemma ring_del:
  assumes r: "ring h lh (us @ e # vs)"
  shows "ring (list_del e h) lh (us @ vs)"
proof -
  have l: "linked h lh us e" "linked h e vs lh" "distinct (lh # us @ e # vs)"
    using r by (auto simp: ring_def linked_append)
  note a = linked_around [of h lh us e vs lh]
  have "linked (list_del e h) lh (us @ vs) lh"
    by (rule linked_bridge [OF l(1,2,3)])
      (use l r del_links [OF a(1) a(2)] in \<open>auto simp: ring_def\<close>)
  with r show ?thesis by (auto simp: ring_def)
qed

lemma list_first_ring: "ring h lh xs \<Longrightarrow> list_first_or_null lh h = (case xs of [] \<Rightarrow> None | x # _ \<Rightarrow> Some x)"
  by (cases xs) (auto simp: ring_def list_first_or_null_def)

lemma list_empty_ring: "ring h lh xs \<Longrightarrow> list_empty lh h \<longleftrightarrow> xs = []"
  by (cases xs) (auto simp: ring_def list_empty_def)

lemma list_for_each_linked:
  "linked h a xs lh \<Longrightarrow> lh \<notin> set xs \<Longrightarrow> list_for_each lh (nxt h a) h = Some xs"
proof (induction xs arbitrary: a)
  case Nil
  then show ?case by (simp add: list_for_each.simps)
next
  case (Cons x xs)
  then have "list_for_each lh (nxt h x) h = Some xs" by simp
  with Cons.prems show ?case by (auto simp: list_for_each.simps [of lh "Some x"])
qed

lemma list_for_each_ring: "ring h lh xs \<Longrightarrow> list_for_each lh (nxt h lh) h = Some xs"
  by (rule list_for_each_linked) (auto simp: ring_def)

section \<open>The operations on families\<close>

lemma nodes_upd_subset: "nodes (F(l \<mapsto> xs)) \<subseteq> nodes F \<union> set (l # xs)"
  by (auto simp: nodes_def split: if_splits)

lemma nodes_upd:
  assumes "wf_lists h F" and "F l = Some xs"
  shows "nodes (F(l \<mapsto> ys)) = nodes F - set xs \<union> set ys"
proof -
  have "l \<notin> set xs" using wf_ring [OF assms] by (simp add: ring_def)
  moreover have "set (l # xs) \<inter> set (l' # zs) = {}" if "F l' = Some zs" "l' \<noteq> l" for l' zs
    using wf_disj [OF assms that(1)] that(2) by auto
  ultimately show ?thesis
    using assms(2) unfolding nodes_def by (auto split: if_splits) (metis option.inject)+
qed

lemma wf_add:
  assumes wf: "wf_lists h F" and F: "F l = Some xs" and n: "n \<notin> nodes F"
  shows "wf_lists (list_add n l h) (F(l \<mapsto> n # xs))"
proof (rule wf_update [OF wf F, where New = "{n}"])
  have r: "ring h l xs" using wf F by (rule wf_ring)
  have nn: "n \<notin> set (l # xs)" using F n by (auto simp: nodes_def)
  show "ring (list_add n l h) l (n # xs)" by (rule ring_add [OF r nn])
  fix m assume "m \<notin> set (l # xs) \<union> {n}"
  then show "nxt (list_add n l h) m = nxt h m \<and> prv (list_add n l h) m = prv h m"
    using r by (cases xs) (auto simp: ring_def list_add_def add_links)
qed (use n in auto)

lemma wf_add_tail:
  assumes wf: "wf_lists h F" and F: "F l = Some xs" and n: "n \<notin> nodes F"
  shows "wf_lists (list_add_tail n l h) (F(l \<mapsto> xs @ [n]))"
proof (rule wf_update [OF wf F, where New = "{n}"])
  have r: "ring h l xs" using wf F by (rule wf_ring)
  have nn: "n \<notin> set (l # xs)" using F n by (auto simp: nodes_def)
  show "ring (list_add_tail n l h) l (xs @ [n])" by (rule ring_add_tail [OF r nn])
  have p: "prv h l = Some (last (l # xs))"
    using r by (intro linked_prv [of h l xs l]) (simp add: ring_def)
  have "last (l # xs) \<in> set (l # xs)" by (rule last_in_set) simp
  fix m assume "m \<notin> set (l # xs) \<union> {n}"
  then show "nxt (list_add_tail n l h) m = nxt h m \<and> prv (list_add_tail n l h) m = prv h m"
    using p \<open>last (l # xs) \<in> set (l # xs)\<close> by (auto simp: list_add_tail_def add_links)
qed (use n in auto)

lemma wf_del:
  assumes wf: "wf_lists h F" and F: "F l = Some (us @ e # vs)"
  shows "wf_lists (list_del e h) (F(l \<mapsto> us @ vs))"
proof (rule wf_update [OF wf F, where New = "{}"])
  have r: "ring h l (us @ e # vs)" using wf F by (rule wf_ring)
  show "ring (list_del e h) l (us @ vs)" by (rule ring_del [OF r])
  have l: "linked h l (us @ e # vs) l" using r by (simp add: ring_def)
  have "last (l # us) \<in> set (l # us)" "hd (vs @ [l]) \<in> set (vs @ [l])"
    by (rule last_in_set, simp, rule hd_in_set, simp)
  moreover fix m assume "m \<notin> set (l # us @ e # vs) \<union> {}"
  ultimately show "nxt (list_del e h) m = nxt h m \<and> prv (list_del e h) m = prv h m"
    using del_links [OF linked_around [OF l]] by auto
qed auto

lemma wf_init:
  assumes wf: "wf_lists h F" and n: "l \<notin> nodes F"
  shows "wf_lists (list_init l h) (F(l \<mapsto> []))"
proof -
  have "nxt (list_init l h) m = nxt h m \<and> prv (list_init l h) m = prv h m" if "m \<noteq> l" for m
    using that by (simp add: list_init_def link_defs)
  moreover have no: "l \<notin> set (k # zs)" if "F k = Some zs" for k zs
    using n that by (auto simp: nodes_def)
  ultimately have "ring (list_init l h) k zs" if "F k = Some zs" for k zs
    using wf_ring [OF wf that] ring_agree [of k zs "list_init l h" h] that by metis
  moreover have "k \<noteq> l" if "F k = Some zs" for k zs using no [OF that] by auto
  ultimately show ?thesis
    using wf no ring_init unfolding wf_lists_def by (auto split: if_splits)
qed

text \<open>Initialising a node that is in no list leaves the lists alone.\<close>

lemma wf_init_outside:
  assumes wf: "wf_lists h F" and n: "l \<notin> nodes F"
  shows "wf_lists (list_init l h) F"
proof -
  have "ring (list_init l h) k zs" if "F k = Some zs" for k zs
  proof -
    have "l \<notin> set (k # zs)" using n that by (auto simp: nodes_def)
    then show ?thesis
      using wf_ring [OF wf that]
      by (subst ring_agree [of k zs _ h]) (auto simp: list_init_def link_defs)
  qed
  then show ?thesis using wf unfolding wf_lists_def by blast
qed

lemma nodes_mem: "F l = Some xs \<Longrightarrow> set (l # xs) \<subseteq> nodes F"
  unfolding nodes_def by blast

section \<open>The contract of the lists\<close>

locale list_heap =
  fixes inv :: "'h \<Rightarrow> 'n family \<Rightarrow> bool"
    and add :: "'n \<Rightarrow> 'n \<Rightarrow> 'h \<Rightarrow> 'h"
    and add_tail :: "'n \<Rightarrow> 'n \<Rightarrow> 'h \<Rightarrow> 'h"
    and del :: "'n \<Rightarrow> 'h \<Rightarrow> 'h"
    and first :: "'n \<Rightarrow> 'h \<Rightarrow> 'n option"
  assumes add_law: "inv h F \<Longrightarrow> F l = Some xs \<Longrightarrow> n \<notin> nodes F \<Longrightarrow> inv (add n l h) (F(l \<mapsto> n # xs))"
    and add_tail_law:
      "inv h F \<Longrightarrow> F l = Some xs \<Longrightarrow> n \<notin> nodes F \<Longrightarrow> inv (add_tail n l h) (F(l \<mapsto> xs @ [n]))"
    and del_law: "inv h F \<Longrightarrow> F l = Some (us @ e # vs) \<Longrightarrow> inv (del e h) (F(l \<mapsto> us @ vs))"
    and first_law:
      "inv h F \<Longrightarrow> F l = Some xs \<Longrightarrow> first l h = (case xs of [] \<Rightarrow> None | x # _ \<Rightarrow> Some x)"
    and fresh_law: "inv h F \<Longrightarrow> F l = Some (us @ e # vs) \<Longrightarrow> e \<notin> nodes (F(l \<mapsto> us @ vs))"
begin

lemma first_none: "inv h F \<Longrightarrow> F l = Some xs \<Longrightarrow> first l h = None \<longleftrightarrow> xs = []"
  by (simp add: first_law split: list.split)

lemma pop_law:
  assumes "inv h F" and "F l = Some (x # xs)"
  shows "first l h = Some x" and "inv (del x h) (F(l \<mapsto> xs))" and "x \<notin> nodes (F(l \<mapsto> xs))"
  using assms first_law [of h F l "x # xs"] del_law [of h F l "[]" x xs] fresh_law [of h F l "[]" x xs]
  by simp_all

text \<open>Moving an entry to the front of another list, or of its own.\<close>

lemma move_law:
  assumes i: "inv h F" and e: "F l = Some (us @ e # vs)" and k: "(F(l \<mapsto> us @ vs)) k = Some ys"
  shows "inv (add e k (del e h)) (F(l \<mapsto> us @ vs, k \<mapsto> e # ys))"
  by (rule add_law [OF del_law [OF i e] k fresh_law [OF i e]])

lemma append_all:
  "inv h F \<Longrightarrow> F l = Some xs \<Longrightarrow> distinct ns \<Longrightarrow> set ns \<inter> nodes F = {} \<Longrightarrow>
   inv (fold (\<lambda>n. add_tail n l) ns h) (F(l \<mapsto> xs @ ns))"
proof (induction ns arbitrary: h F xs)
  case Nil
  then have "F(l \<mapsto> xs @ []) = F" by auto
  with Nil show ?case by (simp add: fun_upd_idem)
next
  case (Cons n ns)
  let ?F = "F(l \<mapsto> xs @ [n])"
  have "inv (add_tail n l h) ?F" using Cons.prems by (intro add_tail_law) auto
  moreover have "nodes ?F \<subseteq> nodes F \<union> {n}"
    using Cons.prems(2) by (auto simp: nodes_def split: if_splits)
  moreover have "set ns \<inter> nodes ?F = {}" using Cons.prems calculation(2) by fastforce
  moreover have "?F l = Some (xs @ [n])" "distinct ns" using Cons.prems(3) by simp_all
  ultimately have "inv (fold (\<lambda>n. add_tail n l) ns (add_tail n l h)) (?F(l \<mapsto> (xs @ [n]) @ ns))"
    using Cons.IH by blast
  then show ?case
    by (simp only: fun_upd_upd fold_simps append_assoc append_Cons append_Nil)
qed

end

lemma fresh_wf:
  assumes "wf_lists h F" and "F l = Some (us @ e # vs)"
  shows "e \<notin> nodes (F(l \<mapsto> us @ vs))"
proof -
  have "distinct (l # us @ e # vs)" using wf_ring [OF assms] by (simp add: ring_def)
  then show ?thesis by (subst nodes_upd [OF assms]) auto
qed

interpretation lh: list_heap wf_lists list_add list_add_tail list_del list_first_or_null
proof unfold_locales
  show "list_first_or_null l h = (case xs of [] \<Rightarrow> None | x # _ \<Rightarrow> Some x)"
    if "wf_lists h F" "F l = Some xs" for h F l and xs :: "'a list"
    by (rule list_first_ring [OF wf_ring [OF that]])
qed (fact wf_add wf_add_tail wf_del fresh_wf)+

section \<open>Trees\<close>

text \<open>\<^verbatim>\<open>elfboot/tree.h\<close>: a tree node holds two list heads, the head of its children and its
  entry in the list of its siblings.\<close>

datatype 'n tnode = Children 'n | Siblings 'n

record 'n tree =
  parent :: "'n \<Rightarrow> 'n option"
  children_count :: "'n \<Rightarrow> u32"
  tlinks :: "'n tnode links"

definition tree_node_init :: "'n \<Rightarrow> 'n tree \<Rightarrow> 'n tree" where
  "tree_node_init n t =
     t\<lparr>parent := (parent t)(n := None),
       tlinks := list_init (Siblings n) (list_init (Children n) (tlinks t)),
       children_count := (children_count t)(n := 0)\<rparr>"

definition tree_node_is_leaf :: "'n \<Rightarrow> 'n tree \<Rightarrow> bool" where
  "tree_node_is_leaf n t \<longleftrightarrow> children_count t n = 0"

definition tree_node_insert :: "'n \<Rightarrow> 'n \<Rightarrow> 'n tree \<Rightarrow> 'n tree" where
  "tree_node_insert new p t =
     t\<lparr>children_count := (children_count t)(p := children_count t p + (children_count t new + 1)),
       parent := (parent t)(new := Some p),
       tlinks := list_add_tail (Siblings new) (Children p) (tlinks t)\<rparr>"

text \<open>The node must have a parent; \<open>None\<close> is the dereference of \<^verbatim>\<open>NULL\<close>.\<close>

definition tree_node_remove :: "'n \<Rightarrow> 'n tree \<Rightarrow> 'n tree option" where
  "tree_node_remove n t =
     (case parent t n of None \<Rightarrow> None
      | Some p \<Rightarrow> Some (t\<lparr>
          children_count := (children_count t)(p := children_count t p - (children_count t n + 1)),
          parent := (parent t)(n := None),
          tlinks := list_del (Siblings n) (tlinks t)\<rparr>))"

text \<open>\<^verbatim>\<open>tree_for_each_child\<close>: from the first child along the siblings to the head of the children.
  A link that leads to another head or to \<^verbatim>\<open>NULL\<close> has no node behind it.\<close>

definition tree_node_of :: "'n tnode option \<Rightarrow> 'n option" where
  "tree_node_of k = (case k of Some (Siblings n) \<Rightarrow> Some n | _ \<Rightarrow> None)"

definition tree_first_child_or_null :: "'n \<Rightarrow> 'n tree \<Rightarrow> 'n option" where
  "tree_first_child_or_null p t =
     (let n = nxt (tlinks t) (Children p)
      in if n \<noteq> Some (Children p) then tree_node_of n else None)"

definition tree_next_sibling_or_null :: "'n \<Rightarrow> 'n tree \<Rightarrow> 'n option" where
  "tree_next_sibling_or_null c t =
     (let n = nxt (tlinks t) (Siblings c)
      in if n \<noteq> map_option Children (parent t c) then tree_node_of n else None)"

partial_function (option) tree_for_each_from :: "'n option \<Rightarrow> 'n tree \<Rightarrow> 'n list option" where
  "tree_for_each_from pos t =
     (case pos of None \<Rightarrow> Some []
      | Some c \<Rightarrow> do { cs \<leftarrow> tree_for_each_from (tree_next_sibling_or_null c t) t; Some (c # cs) })"

definition tree_for_each_child :: "'n \<Rightarrow> 'n tree \<Rightarrow> 'n list option" where
  "tree_for_each_child p t = tree_for_each_from (tree_first_child_or_null p t) t"

text \<open>The abstraction: the children of every initialised node, in order.\<close>

definition child_family :: "('n \<Rightarrow> 'n list option) \<Rightarrow> 'n tnode family" where
  "child_family T k = (case k of Children p \<Rightarrow> map_option (map Siblings) (T p) | Siblings _ \<Rightarrow> None)"

definition wf_tree :: "'n tree \<Rightarrow> ('n \<Rightarrow> 'n list option) \<Rightarrow> bool" where
  "wf_tree t T \<longleftrightarrow> wf_lists (tlinks t) (child_family T) \<and>
     (\<forall>p cs c. T p = Some cs \<longrightarrow> c \<in> set cs \<longrightarrow> parent t c = Some p)"

lemma child_family_upd: "child_family (T(p \<mapsto> cs)) = (child_family T)(Children p \<mapsto> map Siblings cs)"
  by (rule ext) (simp add: child_family_def split: tnode.split)

lemma child_family_Some:
  "child_family T k = Some xs \<longleftrightarrow> (\<exists>p cs. k = Children p \<and> T p = Some cs \<and> xs = map Siblings cs)"
  by (cases k) (auto simp: child_family_def)

lemma nodes_child_family:
  "Siblings c \<in> nodes (child_family T) \<longleftrightarrow> (\<exists>p cs. T p = Some cs \<and> c \<in> set cs)"
  "Children p \<in> nodes (child_family T) \<longleftrightarrow> T p \<noteq> None"
proof -
  have "k \<in> nodes (child_family T) \<longleftrightarrow>
      (\<exists>p cs. T p = Some cs \<and> (k = Children p \<or> k \<in> Siblings ` set cs))" for k
    unfolding nodes_def child_family_Some by fastforce
  then show "Siblings c \<in> nodes (child_family T) \<longleftrightarrow> (\<exists>p cs. T p = Some cs \<and> c \<in> set cs)"
    "Children p \<in> nodes (child_family T) \<longleftrightarrow> T p \<noteq> None"
    by auto
qed

lemma tree_walk:
  assumes "linked (tlinks t) a (map Siblings cs) (Children p)"
    and "\<forall>c \<in> set cs. parent t c = Some p"
    and "n = nxt (tlinks t) a"
  shows "tree_for_each_from (if n \<noteq> Some (Children p) then tree_node_of n else None) t = Some cs"
  using assms
proof (induction cs arbitrary: a n)
  case Nil
  then show ?case by (simp add: tree_for_each_from.simps)
next
  case (Cons c cs)
  have "tree_for_each_from (tree_next_sibling_or_null c t) t = Some cs"
    unfolding tree_next_sibling_or_null_def Let_def
    using Cons.IH [of "Siblings c" "nxt (tlinks t) (Siblings c)"] Cons.prems by simp
  then show ?case
    using Cons.prems by (simp add: tree_for_each_from.simps [of "Some c"] tree_node_of_def)
qed

lemma tree_children:
  assumes "wf_tree t T" and "T p = Some cs"
  shows "tree_for_each_child p t = Some cs"
proof -
  have "child_family T (Children p) = Some (map Siblings cs)"
    using assms(2) by (simp add: child_family_def)
  then have "ring (tlinks t) (Children p) (map Siblings cs)"
    using assms(1) wf_ring [of "tlinks t" "child_family T"] by (simp add: wf_tree_def)
  then have "linked (tlinks t) (Children p) (map Siblings cs) (Children p)"
    by (simp add: ring_def)
  moreover have "\<forall>c \<in> set cs. parent t c = Some p" using assms by (auto simp: wf_tree_def)
  ultimately show ?thesis
    unfolding tree_for_each_child_def tree_first_child_or_null_def Let_def
    by (rule tree_walk [OF _ _ refl])
qed

lemma tree_init_wf:
  assumes "wf_tree t T" and "T n = None" and "\<forall>p cs. T p = Some cs \<longrightarrow> n \<notin> set cs"
  shows "wf_tree (tree_node_init n t) (T(n \<mapsto> []))"
proof -
  have "wf_lists (list_init (Children n) (tlinks t)) (child_family (T(n \<mapsto> [])))"
    unfolding child_family_upd list.map
    by (rule wf_init) (use assms in \<open>auto simp: wf_tree_def nodes_child_family\<close>)
  moreover have "Siblings n \<notin> nodes (child_family (T(n \<mapsto> [])))"
    using assms(3) by (auto simp: nodes_child_family)
  ultimately have "wf_lists (tlinks (tree_node_init n t)) (child_family (T(n \<mapsto> [])))"
    by (simp add: tree_node_init_def wf_init_outside)
  then show ?thesis using assms by (auto simp: wf_tree_def tree_node_init_def)
qed

lemma tree_insert_wf:
  assumes "wf_tree t T" and "T p = Some cs" and "\<forall>p cs. T p = Some cs \<longrightarrow> c \<notin> set cs"
  shows "wf_tree (tree_node_insert c p t) (T(p \<mapsto> cs @ [c]))"
proof -
  have "wf_lists (list_add_tail (Siblings c) (Children p) (tlinks t)) (child_family (T(p \<mapsto> cs @ [c])))"
    unfolding child_family_upd map_append list.map
    by (rule lh.add_tail_law)
      (use assms in \<open>auto simp: wf_tree_def nodes_child_family child_family_def\<close>)
  then show ?thesis using assms by (auto simp: wf_tree_def tree_node_insert_def)
qed

lemma tree_remove_wf:
  assumes "wf_tree t T" and "T p = Some (us @ c # vs)"
  shows "\<exists>t'. tree_node_remove c t = Some t' \<and> wf_tree t' (T(p \<mapsto> us @ vs)) \<and> parent t' c = None"
proof -
  have par: "parent t c = Some p" using assms by (auto simp: wf_tree_def)
  have F: "child_family T (Children p) = Some (map Siblings us @ Siblings c # map Siblings vs)"
    using assms(2) by (simp add: child_family_def)
  have wf: "wf_lists (tlinks t) (child_family T)" using assms(1) by (simp add: wf_tree_def)
  have "wf_lists (list_del (Siblings c) (tlinks t)) (child_family (T(p \<mapsto> us @ vs)))"
    unfolding child_family_upd map_append by (rule lh.del_law [OF wf F])
  moreover have "Siblings c \<notin> nodes (child_family (T(p \<mapsto> us @ vs)))"
    unfolding child_family_upd map_append by (rule lh.fresh_law [OF wf F])
  then have "\<forall>q ds. (T(p \<mapsto> us @ vs)) q = Some ds \<longrightarrow> c \<notin> set ds"
    unfolding nodes_child_family by blast
  ultimately show ?thesis
    using assms(1) par assms(2) unfolding tree_node_remove_def wf_tree_def
    by (auto split: if_splits)
qed

section \<open>Properties\<close>

text \<open>
  The abstract lists: each operation as a function on the family, \<open>None\<close> where its use is not
  permitted (a node that is in a list already, a head that is not initialised, a node removed from
  a list it is not in).
\<close>

datatype 'n list_op = Init 'n | Add 'n 'n | AddTail 'n 'n | Del 'n 'n | Move 'n 'n 'n

fun run_op :: "'n list_op \<Rightarrow> 'n links \<Rightarrow> 'n links" where
  "run_op (Init l) h = list_init l h"
| "run_op (Add n l) h = list_add n l h"
| "run_op (AddTail n l) h = list_add_tail n l h"
| "run_op (Del n l) h = list_del n h"
| "run_op (Move n l k) h = list_move n k h"

definition remove_entry :: "'n \<Rightarrow> 'n \<Rightarrow> 'n family \<Rightarrow> 'n family option" where
  "remove_entry n l F =
     (case F l of None \<Rightarrow> None | Some xs \<Rightarrow> if n \<in> set xs then Some (F(l \<mapsto> remove1 n xs)) else None)"

definition fresh_in :: "'n \<Rightarrow> 'n family \<Rightarrow> bool" where
  "fresh_in n F \<longleftrightarrow> n \<notin> nodes F"

fun abs_op :: "'n list_op \<Rightarrow> 'n family \<Rightarrow> 'n family option" where
  "abs_op (Init l) F = (if fresh_in l F then Some (F(l \<mapsto> [])) else None)"
| "abs_op (Add n l) F =
     (case F l of None \<Rightarrow> None | Some xs \<Rightarrow> if fresh_in n F then Some (F(l \<mapsto> n # xs)) else None)"
| "abs_op (AddTail n l) F =
     (case F l of None \<Rightarrow> None | Some xs \<Rightarrow> if fresh_in n F then Some (F(l \<mapsto> xs @ [n])) else None)"
| "abs_op (Del n l) F = remove_entry n l F"
| "abs_op (Move n l k) F =
     do { F \<leftarrow> remove_entry n l F; ys \<leftarrow> F k; Some (F(k \<mapsto> n # ys)) }"

fun run_ops :: "'n list_op list \<Rightarrow> 'n links \<Rightarrow> 'n links" where
  "run_ops [] h = h"
| "run_ops (p # ps) h = run_ops ps (run_op p h)"

fun abs_ops :: "'n list_op list \<Rightarrow> 'n family \<Rightarrow> 'n family option" where
  "abs_ops [] F = Some F"
| "abs_ops (p # ps) F = do { F \<leftarrow> abs_op p F; abs_ops ps F }"

lemma remove_entry_split:
  assumes "wf_lists h F" and "remove_entry n l F = Some F'"
  obtains us vs where "F l = Some (us @ n # vs)" "F' = F(l \<mapsto> us @ vs)"
proof -
  obtain xs where xs: "F l = Some xs" "n \<in> set xs" "F' = F(l \<mapsto> remove1 n xs)"
    using assms(2) by (auto simp: remove_entry_def split: option.splits if_splits)
  then obtain us vs where "xs = us @ n # vs" "n \<notin> set us" by (metis split_list_first)
  with xs that show ?thesis by (simp add: remove1_append)
qed

lemma run_op_refines:
  assumes wf: "wf_lists h F" and s: "abs_op p F = Some F'"
  shows "wf_lists (run_op p h) F'"
proof (cases p)
  case (Del n l)
  then obtain us vs where e: "F l = Some (us @ n # vs)" "F' = F(l \<mapsto> us @ vs)"
    using remove_entry_split [OF wf] s by (metis abs_op.simps(4))
  show ?thesis unfolding Del e(2) run_op.simps by (rule lh.del_law [OF wf e(1)])
next
  case (Move n l k)
  then obtain F1 ys where f: "remove_entry n l F = Some F1" "F1 k = Some ys" "F' = F1(k \<mapsto> n # ys)"
    using s by (auto split: Option.bind_splits)
  then obtain us vs where e: "F l = Some (us @ n # vs)" "F1 = F(l \<mapsto> us @ vs)"
    using remove_entry_split [OF wf] by metis
  have k: "(F(l \<mapsto> us @ vs)) k = Some ys" using f(2) e(2) by simp
  show ?thesis
    unfolding Move f(3) e(2) run_op.simps list_move_def by (rule lh.move_law [OF wf e(1) k])
next
  case (Init l)
  with s have i: "l \<notin> nodes F" "F' = F(l \<mapsto> [])"
    by (simp_all add: fresh_in_def split: if_splits)
  show ?thesis unfolding Init i(2) run_op.simps by (rule wf_init [OF wf i(1)])
next
  case (Add n l)
  with s obtain xs where a: "F l = Some xs" "n \<notin> nodes F" "F' = F(l \<mapsto> n # xs)"
    by (auto simp: fresh_in_def split: option.splits if_splits)
  show ?thesis unfolding Add a(3) run_op.simps by (rule lh.add_law [OF wf a(1,2)])
next
  case (AddTail n l)
  with s obtain xs where a: "F l = Some xs" "n \<notin> nodes F" "F' = F(l \<mapsto> xs @ [n])"
    by (auto simp: fresh_in_def split: option.splits if_splits)
  show ?thesis unfolding AddTail a(3) run_op.simps by (rule lh.add_tail_law [OF wf a(1,2)])
qed

lemma run_ops_refines:
  "wf_lists h F \<Longrightarrow> abs_ops ps F = Some F' \<Longrightarrow> wf_lists (run_ops ps h) F'"
proof (induction ps arbitrary: h F)
  case (Cons p ps)
  then obtain F1 where "abs_op p F = Some F1" "abs_ops ps F1 = Some F'"
    by (auto split: Option.bind_splits)
  with Cons run_op_refines show ?case by (metis run_ops.simps(2))
qed simp

text \<open>
  C12: any sequence of list operations whose uses are permitted by the abstract lists keeps the
  linked lists of the heap disjoint and well-formed, and walking a list with
  \<^verbatim>\<open>list_for_each\<close> afterwards terminates and visits exactly the abstract list in order.
\<close>

theorem list_ops_simulate:
  assumes "wf_lists h F" and "abs_ops ps F = Some F'"
  shows "wf_lists (run_ops ps h) F' \<and>
    (\<forall>l xs. F' l = Some xs \<longrightarrow>
       list_for_each l (nxt (run_ops ps h) l) (run_ops ps h) = Some xs \<and>
       list_first_or_null l (run_ops ps h) = (case xs of [] \<Rightarrow> None | x # _ \<Rightarrow> Some x) \<and>
       (list_empty l (run_ops ps h) \<longleftrightarrow> xs = []))"
proof -
  have wf: "wf_lists (run_ops ps h) F'" by (rule run_ops_refines [OF assms])
  show ?thesis
    using wf list_for_each_ring [OF wf_ring [OF wf]] list_first_ring [OF wf_ring [OF wf]]
      list_empty_ring [OF wf_ring [OF wf]] by blast
qed

lemma nodes_single: "nodes (\<lambda>_. None) = {}" "nodes [l \<mapsto> xs] = set (l # xs)"
  by (auto simp: nodes_def split: if_splits)

definition no_links :: "nat links" where
  "no_links = \<lparr>prv = (\<lambda>_. None), nxt = (\<lambda>_. None)\<rparr>"

theorem list_ops_simulate_witness:
  "list_for_each 0 (nxt (run_ops [Init 0, AddTail 2 0, Add 3 0, AddTail 4 0, Del 2 0] no_links) 0)
     (run_ops [Init 0, AddTail 2 0, Add 3 0, AddTail 4 0, Del 2 0] no_links) = Some [3, 4]"
proof -
  have "wf_lists no_links (\<lambda>_. None)" by (simp add: wf_lists_def)
  moreover have "abs_ops [Init 0, AddTail 2 0, Add 3 0, AddTail 4 0, Del 2 0] (\<lambda>_. None) = Some [0 \<mapsto> [3, 4 :: nat]]"
    by (simp add: fresh_in_def nodes_single remove_entry_def)
  ultimately show ?thesis using list_ops_simulate by fastforce
qed

end
