(* ===== verification/Memblock.thy ===== *)
theory Memblock
  imports Prelude "HOL-Library.Monad_Syntax"
begin

text \<open>
  \<^verbatim>\<open>src/mm/memblock.c\<close>: the boot memory allocator. A \<^verbatim>\<open>memblock_type\<close> holds an array of eight
  regions of which the first \<^verbatim>\<open>cnt\<close> are live. An access outside of the array is \<open>None\<close>. The
  lemmas relate the live regions to the intervals of addresses they cover.
\<close>

section \<open>State\<close>

record memblock_region =
  base :: u32
  size :: u32

record memblock_type =
  cnt :: nat
  total_size :: u32
  regions :: "memblock_region list"

record memblock =
  bootmem :: memblock_type
  kernmem :: memblock_type

definition PAGE_SIZE :: u32 where "PAGE_SIZE = 0x1000"
definition MEMBLOCK_MAX_REGIONS :: nat where "MEMBLOCK_MAX_REGIONS = 8"
definition MEMBLOCK_START :: u32 where "MEMBLOCK_START = 0x10000"
definition MEMBLOCK_LIMIT :: u32 where "MEMBLOCK_LIMIT = 0x100000"
definition MEMBLOCK_INVLD :: u32 where "MEMBLOCK_INVLD = 0xFFFFFFFF"

definition memblock_init :: memblock where
  "memblock_init =
     (let t = \<lparr>cnt = 1, total_size = 0, regions = replicate MEMBLOCK_MAX_REGIONS \<lparr>base = 0, size = 0\<rparr>\<rparr>
      in \<lparr>bootmem = t, kernmem = t\<rparr>)"

definition memblock_beg :: "memblock_region \<Rightarrow> u32" where
  "memblock_beg r = base r"

definition memblock_end :: "memblock_region \<Rightarrow> u32" where
  "memblock_end r = base r + size r"

text \<open>Array accesses, and \<^verbatim>\<open>memmove\<close> of \<open>n\<close> entries from \<open>src\<close> to \<open>dst\<close>.\<close>

definition region_at :: "memblock_type \<Rightarrow> nat \<Rightarrow> memblock_region option" where
  "region_at t i = (if i < length (regions t) then Some (regions t ! i) else None)"

definition set_region :: "memblock_type \<Rightarrow> nat \<Rightarrow> memblock_region \<Rightarrow> memblock_type option" where
  "set_region t i r =
     (if i < length (regions t) then Some (t\<lparr>regions := (regions t)[i := r]\<rparr>) else None)"

definition move_regions :: "memblock_type \<Rightarrow> nat \<Rightarrow> nat \<Rightarrow> nat \<Rightarrow> memblock_type option" where
  "move_regions t dst src n =
     (let rs = regions t in
      if n = 0 then Some t
      else if dst + n \<le> length rs \<and> src + n \<le> length rs
      then Some (t\<lparr>regions := take dst rs @ take n (drop src rs) @ drop (dst + n) rs\<rparr>)
      else None)"

section \<open>Operations\<close>

text \<open>The result is \<open>(base, size, base + size)\<close> after the adjustment.\<close>

definition memblock_adjust_region :: "u32 \<Rightarrow> u32 \<Rightarrow> u32 \<times> u32 \<times> u32" where
  "memblock_adjust_region b s =
     (let nbase = round_down b PAGE_SIZE; limit = round_up (b + s) PAGE_SIZE
      in (nbase, limit - nbase, nbase + (limit - nbase)))"

definition memblock_fusion_region :: "memblock_type \<Rightarrow> nat \<Rightarrow> memblock_type option" where
  "memblock_fusion_region t index =
     (if cnt t = 1 then Some t
      else do {
        t \<leftarrow> (if index \<noteq> 0 then do {
                 prvreg \<leftarrow> region_at t (index - 1);
                 region \<leftarrow> region_at t index;
                 if memblock_end prvreg = memblock_beg region then do {
                   t \<leftarrow> set_region t index \<lparr>base = base prvreg, size = size region + size prvreg\<rparr>;
                   move_regions t (index - 1) index (cnt t - index) }
                 else Some t }
               else Some t);
        if index < cnt t then do {
          region \<leftarrow> region_at t index;
          nxtreg \<leftarrow> region_at t (index + 1);
          if memblock_end region = memblock_beg nxtreg then do {
            t \<leftarrow> set_region t (index + 1) \<lparr>base = base region, size = size nxtreg + size region\<rparr>;
            move_regions t index (index + 1) (cnt t - (index + 1)) }
          else Some t }
        else Some t })"

definition memblock_insert_region :: "memblock_type \<Rightarrow> nat \<Rightarrow> u32 \<Rightarrow> u32 \<Rightarrow> memblock_type option" where
  "memblock_insert_region t index b s =
     do { t \<leftarrow> move_regions t (index + 1) index (cnt t - index);
          t \<leftarrow> set_region t index \<lparr>base = b, size = s\<rparr>;
          Some (t\<lparr>total_size := total_size t + s, cnt := cnt t + 1\<rparr>) }"

text \<open>The \<^verbatim>\<open>for\<close> loop of \<^verbatim>\<open>memblock_add_region\<close>, returning \<open>(type, i, base)\<close>.\<close>

partial_function (option) add_loop ::
  "memblock_type \<Rightarrow> nat \<Rightarrow> u32 \<Rightarrow> u32 \<Rightarrow> (memblock_type \<times> nat \<times> u32) option" where
  "add_loop t i b nend =
     (if i < cnt t then do {
        region \<leftarrow> region_at t i;
        let rbeg = memblock_beg region;
        let rend = memblock_end region;
        if rbeg \<ge> nend then Some (t, i, b)
        else if rend \<le> b then add_loop t (i + 1) b nend
        else do {
          (t, i) \<leftarrow> (if rbeg \<ge> b
                     then map_option (\<lambda>t. (t, i + 1)) (memblock_insert_region t i b (rbeg - b))
                     else Some (t, i));
          add_loop t (i + 1) (if rend < nend then rend else nend) nend } }
      else Some (t, i, b))"

definition memblock_add_region :: "memblock_type \<Rightarrow> u32 \<Rightarrow> u32 \<Rightarrow> memblock_type option" where
  "memblock_add_region t b s =
     (let (b, s, nend) = memblock_adjust_region b s in
      do { region \<leftarrow> region_at t 0;
           if size region = 0 then do {
             t \<leftarrow> set_region t 0 \<lparr>base = b, size = s\<rparr>;
             Some (t\<lparr>total_size := total_size t + s\<rparr>) }
           else do {
             (t, i, b) \<leftarrow> add_loop t 0 b nend;
             t \<leftarrow> (if b < nend then memblock_insert_region t i b (nend - b) else Some t);
             memblock_fusion_region t i } })"

text \<open>The loop of \<^verbatim>\<open>memblock_del_region\<close>; the result is the type and the value returned.\<close>

partial_function (option) del_loop ::
  "memblock_type \<Rightarrow> nat \<Rightarrow> u32 \<Rightarrow> u32 \<Rightarrow> u32 \<Rightarrow> (memblock_type \<times> u32) option" where
  "del_loop t i b nend dbeg =
     (if i < cnt t then do {
        region \<leftarrow> region_at t i;
        let rbeg = memblock_beg region;
        let rend = memblock_end region;
        if rbeg \<ge> nend then Some (t, dbeg)
        else if rend \<le> b then del_loop t (i + 1) b nend dbeg
        else
          let mbeg = (if rbeg > b then rbeg else b);
              mend = (if rend < nend then rend else nend);
              dbeg = (if dbeg = 0 then mbeg else dbeg)
          in if rbeg < b \<and> rend > nend then do {
               t \<leftarrow> set_region t i (region\<lparr>size := b - rbeg\<rparr>);
               t \<leftarrow> memblock_insert_region t (i + 1) nend (rend - nend);
               Some (t, b) }
             else do {
               let region = region\<lparr>size := size region - (mend - mbeg)\<rparr>;
               t \<leftarrow> set_region t i region;
               let t = t\<lparr>total_size := total_size t - (mend - mbeg)\<rparr>;
               if size region = 0 then do {
                 t \<leftarrow> move_regions t i (i + 1) (cnt t - (i + 1));
                 del_loop (t\<lparr>cnt := cnt t - 1\<rparr>) i b nend dbeg }
               else if rbeg \<ge> b then do {
                 t \<leftarrow> set_region t i (region\<lparr>base := nend\<rparr>);
                 Some (t, b) }
               else if rend \<le> nend then del_loop t (i + 1) rend nend dbeg
               else del_loop t (i + 1) b nend dbeg } }
      else Some (t, dbeg))"

definition memblock_del_region :: "memblock_type \<Rightarrow> u32 \<Rightarrow> u32 \<Rightarrow> (memblock_type \<times> u32) option" where
  "memblock_del_region t b s =
     (let dbeg = MEMBLOCK_INVLD; (b, s, nend) = memblock_adjust_region b s
      in del_loop t 0 b nend dbeg)"

definition memblock_add :: "memblock \<Rightarrow> u32 \<Rightarrow> u32 \<Rightarrow> memblock option" where
  "memblock_add mb b s = map_option (\<lambda>t. mb\<lparr>bootmem := t\<rparr>) (memblock_add_region (bootmem mb) b s)"

definition memblock_add_kernel :: "memblock \<Rightarrow> u32 \<Rightarrow> u32 \<Rightarrow> memblock option" where
  "memblock_add_kernel mb b s =
     map_option (\<lambda>t. mb\<lparr>kernmem := t\<rparr>) (memblock_add_region (kernmem mb) b s)"

definition memblock_reserve_type :: "memblock_type \<Rightarrow> u32 \<Rightarrow> u32 \<Rightarrow> (memblock_type \<times> bool) option" where
  "memblock_reserve_type t b s =
     map_option (\<lambda>(t, d). (t, d \<noteq> MEMBLOCK_INVLD)) (memblock_del_region t b s)"

definition memblock_reserve :: "memblock \<Rightarrow> u32 \<Rightarrow> u32 \<Rightarrow> (memblock \<times> bool) option" where
  "memblock_reserve mb b s =
     map_option (\<lambda>(t, d). (mb\<lparr>bootmem := t\<rparr>, d \<noteq> MEMBLOCK_INVLD)) (memblock_del_region (bootmem mb) b s)"

fun find_from :: "memblock_region list \<Rightarrow> u32 \<Rightarrow> u32 \<Rightarrow> u32 \<Rightarrow> u32 \<Rightarrow> u32" where
  "find_from [] s align start lim = 0"
| "find_from (r # rs) s align start lim =
     (let rbeg = clamp (memblock_beg r) start lim;
          rend = clamp (memblock_end r) start lim;
          cand = round_up rbeg align
      in if cand < rend \<and> rend - cand \<ge> s then cand else find_from rs s align start lim)"

definition memblock_find_in_range :: "memblock_type \<Rightarrow> u32 \<Rightarrow> u32 \<Rightarrow> u32 \<Rightarrow> u32 \<Rightarrow> u32 option" where
  "memblock_find_in_range t s align start lim =
     (if cnt t \<le> length (regions t)
      then Some (find_from (take (cnt t) (regions t)) s align start lim) else None)"

text \<open>A result of 0 is \<^verbatim>\<open>NULL\<close>.\<close>

definition memblock_alloc_range ::
  "memblock_type \<Rightarrow> u32 \<Rightarrow> u32 \<Rightarrow> u32 \<Rightarrow> u32 \<Rightarrow> (memblock_type \<times> u32) option" where
  "memblock_alloc_range t s align start lim =
     do { b \<leftarrow> memblock_find_in_range t s align start lim;
          if b \<noteq> 0 then do {
            (t, reserved) \<leftarrow> memblock_reserve_type t b s;
            Some (t, if reserved then b else 0) }
          else Some (t, 0) }"

definition memblock_alloc :: "memblock \<Rightarrow> u32 \<Rightarrow> u32 \<Rightarrow> (memblock \<times> u32) option" where
  "memblock_alloc mb s align =
     map_option (\<lambda>(t, p). (mb\<lparr>bootmem := t\<rparr>, p))
       (memblock_alloc_range (bootmem mb) s align MEMBLOCK_START MEMBLOCK_LIMIT)"

definition memblock_alloc_kernel :: "memblock \<Rightarrow> u32 \<Rightarrow> u32 \<Rightarrow> (memblock \<times> u32) option" where
  "memblock_alloc_kernel mb s align =
     map_option (\<lambda>(t, p). (mb\<lparr>kernmem := t\<rparr>, p))
       (memblock_alloc_range (kernmem mb) s align MEMBLOCK_LIMIT MEMBLOCK_INVLD)"

section \<open>Live regions and their intervals\<close>

definition live :: "memblock_type \<Rightarrow> memblock_region list" where
  "live t = take (cnt t) (regions t)"

definition iv :: "memblock_region \<Rightarrow> nat \<times> nat" where
  "iv r = (unat (base r), unat (base r) + unat (size r))"

text \<open>Intervals in order, none empty, with gaps between them and below the end of the address
  space.\<close>

definition separated :: "(nat \<times> nat) list \<Rightarrow> bool" where
  "separated is \<longleftrightarrow> (\<forall>x \<in> set is. fst x < snd x \<and> snd x < 2 ^ 32) \<and> sorted_wrt (\<lambda>x y. snd x < fst y) is"

definition wf_type :: "memblock_type \<Rightarrow> bool" where
  "wf_type t \<longleftrightarrow> length (regions t) = MEMBLOCK_MAX_REGIONS \<and> cnt t \<le> MEMBLOCK_MAX_REGIONS \<and>
     separated (map iv (live t))"

text \<open>What is left of the intervals when \<open>[lo, hi)\<close> is cut out of them.\<close>

definition pieces :: "nat \<Rightarrow> nat \<Rightarrow> nat \<times> nat \<Rightarrow> (nat \<times> nat) list" where
  "pieces lo hi i = (case i of (a, e) \<Rightarrow>
     (if a < min e lo then [(a, min e lo)] else []) @ (if max a hi < e then [(max a hi, e)] else []))"

definition cut :: "nat \<Rightarrow> nat \<Rightarrow> (nat \<times> nat) list \<Rightarrow> (nat \<times> nat) list" where
  "cut lo hi is = concat (map (pieces lo hi) is)"

lemma separated_Nil [simp]: "separated []"
  by (simp add: separated_def)

lemma separated_Cons:
  "separated (x # is) \<longleftrightarrow> fst x < snd x \<and> snd x < 2 ^ 32 \<and> (\<forall>y \<in> set is. snd x < fst y) \<and> separated is"
  by (auto simp: separated_def split: prod.splits)

lemma separated_append:
  "separated (is @ js) \<longleftrightarrow> separated is \<and> separated js \<and> (\<forall>x \<in> set is. \<forall>y \<in> set js. snd x < fst y)"
  by (auto simp: separated_def sorted_wrt_append)

lemma separated_mem: "separated is \<Longrightarrow> x \<in> set is \<Longrightarrow> fst x < snd x \<and> snd x < 2 ^ 32"
  by (auto simp: separated_def split: prod.splits)

lemma cut_simps [simp]: "cut lo hi [] = []" "cut lo hi (x # is) = pieces lo hi x @ cut lo hi is"
  by (simp_all add: cut_def)

lemma pieces_within: "x \<in> set (pieces lo hi i) \<Longrightarrow> fst i \<le> fst x \<and> fst x < snd x \<and> snd x \<le> snd i"
  by (auto simp: pieces_def split: prod.splits if_splits)

lemma cut_within: "x \<in> set (cut lo hi is) \<Longrightarrow> \<exists>i \<in> set is. fst i \<le> fst x \<and> snd x \<le> snd i"
proof -
  assume "x \<in> set (cut lo hi is)"
  then obtain i where "i \<in> set is" "x \<in> set (pieces lo hi i)" by (auto simp: cut_def)
  with pieces_within show ?thesis by blast
qed

lemma separated_pieces:
  assumes "fst i < snd i" and "snd i < 2 ^ 32" and "lo < hi"
  shows "separated (pieces lo hi i)"
  using assms by (auto simp: pieces_def separated_Cons split: prod.splits)

lemma separated_cut:
  assumes "separated is" and "lo < hi"
  shows "separated (cut lo hi is)"
  using assms(1)
proof (induction "is")
  case (Cons i "is")
  have "snd x < fst y" if "x \<in> set (pieces lo hi i)" "y \<in> set (cut lo hi is)" for x y
    using pieces_within [OF that(1)] cut_within [OF that(2)] Cons.prems
    by (fastforce simp: separated_Cons)
  then show ?case
    using Cons assms(2) separated_pieces [of i lo hi] by (auto simp: separated_Cons separated_append)
qed simp

lemma cut_above: "separated is \<Longrightarrow> \<forall>y \<in> set is. hi \<le> fst y \<Longrightarrow> lo \<le> hi \<Longrightarrow> cut lo hi is = is"
  by (induction "is") (auto simp: separated_Cons pieces_def split: prod.splits)

lemma cut_raise:
  "separated is \<Longrightarrow> \<forall>y \<in> set is. lo' \<le> fst y \<Longrightarrow> lo \<le> lo' \<Longrightarrow> cut lo hi is = cut lo' hi is"
  by (induction "is") (auto simp: separated_Cons pieces_def split: prod.splits)

text \<open>The addresses covered, and the effect of \<open>cut\<close> on them.\<close>

definition covered :: "(nat \<times> nat) list \<Rightarrow> nat set" where
  "covered is = (\<Union>(a, e) \<in> set is. {a..<e})"

lemma covered_simps [simp]:
  "covered [] = {}" "covered (x # is) = {fst x..<snd x} \<union> covered is"
  "covered (is @ js) = covered is \<union> covered js"
  by (auto simp: covered_def split: prod.splits)

lemma covered_pieces: "lo \<le> hi \<Longrightarrow> covered (pieces lo hi i) = {fst i..<snd i} - {lo..<hi}"
  by (auto simp: pieces_def split: prod.splits if_splits)

lemma covered_cut: "lo \<le> hi \<Longrightarrow> covered (cut lo hi is) = covered is - {lo..<hi}"
  by (induction "is") (auto simp: covered_pieces)

section \<open>The array operations on the live regions\<close>

definition small_type :: "memblock_type \<Rightarrow> bool" where
  "small_type t \<longleftrightarrow> length (regions t) = 8 \<and> cnt t \<le> 8"

lemma region_at_live: "small_type t \<Longrightarrow> i < cnt t \<Longrightarrow> region_at t i = Some (live t ! i)"
  by (simp add: small_type_def region_at_def live_def)

lemma length_live: "small_type t \<Longrightarrow> length (live t) = cnt t"
  by (simp add: small_type_def live_def)

lemma set_region_live:
  "small_type t \<Longrightarrow> i < cnt t \<Longrightarrow>
   \<exists>t'. set_region t i r = Some t' \<and> small_type t' \<and> cnt t' = cnt t \<and> live t' = (live t)[i := r]"
  by (auto simp: small_type_def set_region_def live_def take_update_swap)

lemma take_prefix: "length xs = n \<Longrightarrow> take n (xs @ ys) = xs"
  by simp

lemma insert_live:
  assumes t: "small_type t" and i: "i \<le> cnt t" and c: "cnt t < 8"
  shows "\<exists>t'. memblock_insert_region t i b s = Some t' \<and> small_type t' \<and> cnt t' = cnt t + 1 \<and>
    live t' = take i (live t) @ \<lparr>base = b, size = s\<rparr> # drop i (live t)"
proof (cases "i = cnt t")
  case True
  with t c show ?thesis
    by (auto simp: memblock_insert_region_def move_regions_def set_region_def small_type_def live_def
        take_Suc_conv_app_nth take_update_swap list_update_append)
next
  case False
  let ?rs = "take (i + 1) (regions t) @ take (cnt t - i) (drop i (regions t)) @ drop (cnt t + 1) (regions t)"
  have len: "length ?rs = 8" using t i c by (simp add: small_type_def)
  have "take (cnt t + 1) (?rs[i := r]) = take i (regions t) @ r # take (cnt t - i) (drop i (regions t))" for r
  proof -
    have "?rs[i := r] = take i (regions t) @ r # take (cnt t - i) (drop i (regions t)) @ drop (cnt t + 1) (regions t)"
      using t i c False by (simp add: small_type_def list_update_append take_Suc_conv_app_nth)
    then have "?rs[i := r] = (take i (regions t) @ r # take (cnt t - i) (drop i (regions t))) @ drop (cnt t + 1) (regions t)"
      by simp
    moreover have "length (take i (regions t) @ r # take (cnt t - i) (drop i (regions t))) = cnt t + 1"
      using t i c by (simp add: small_type_def)
    ultimately show ?thesis by (simp only: take_prefix)
  qed
  note tk = this
  have "move_regions t (i + 1) i (cnt t - i) = Some (t\<lparr>regions := ?rs\<rparr>)"
    using t i c False unfolding move_regions_def Let_def by (simp add: small_type_def)
  then have ins: "memblock_insert_region t i b s = Some (t\<lparr>regions := ?rs[i := \<lparr>base = b, size = s\<rparr>],
      total_size := total_size t + s, cnt := cnt t + 1\<rparr>)"
    using i c len unfolding memblock_insert_region_def by (simp add: set_region_def del: length_append)
  have "take (cnt t - i) (drop i (regions t)) = drop i (live t)" "take i (live t) = take i (regions t)"
    using i by (simp_all add: live_def drop_take min_def)
  with ins tk len c show ?thesis
    by (simp only: small_type_def live_def memblock_type.simps length_list_update) simp
qed

lemma remove_live:
  assumes t: "small_type t" and i: "i < cnt t"
  shows "\<exists>t'. move_regions t i (i + 1) (cnt t - (i + 1)) = Some t' \<and> cnt t' = cnt t \<and>
    small_type (t'\<lparr>cnt := cnt t - 1\<rparr>) \<and>
    live (t'\<lparr>cnt := cnt t - 1\<rparr>) = take i (live t) @ drop (i + 1) (live t)"
proof (cases "cnt t - (i + 1) = 0")
  case True
  then have "i = cnt t - 1" using i by simp
  with t i show ?thesis
    by (auto simp: move_regions_def small_type_def live_def min_def)
next
  case False
  let ?n = "cnt t - (i + 1)"
  let ?rs = "take i (regions t) @ take ?n (drop (i + 1) (regions t)) @ drop (i + ?n) (regions t)"
  have m: "move_regions t i (i + 1) ?n = Some (t\<lparr>regions := ?rs\<rparr>)"
  proof -
    have "i + ?n \<le> length (regions t)" "i + 1 + ?n \<le> length (regions t)"
      using t i False unfolding small_type_def by linarith+
    then show ?thesis using False unfolding move_regions_def Let_def by (simp only: if_False if_True simp_thms)
  qed
  have "length (take i (regions t) @ take ?n (drop (i + 1) (regions t))) = cnt t - 1"
    using t i by (auto simp: small_type_def min_def)
  then have "take (cnt t - 1) ?rs = take i (regions t) @ take ?n (drop (i + 1) (regions t))"
    by (simp only: take_prefix flip: append_assoc)
  moreover have "take ?n (drop (i + 1) (regions t)) = drop (i + 1) (live t)"
    by (simp only: live_def drop_take)
  moreover have "take i (live t) = take i (regions t)" using i by (simp add: live_def min_def)
  moreover have "length ?rs = 8" using t i by (auto simp: small_type_def min_def)
  moreover have "cnt t - 1 \<le> 8" using t unfolding small_type_def by linarith
  moreover define rs where "rs = ?rs"
  ultimately have "take (cnt t - 1) rs = take i (live t) @ drop (i + 1) (live t)" "length rs = 8"
    "cnt t - 1 \<le> 8" "move_regions t i (i + 1) (cnt t - (i + 1)) = Some (t\<lparr>regions := rs\<rparr>)"
    using m by (simp_all only: simp_thms)
  then show ?thesis by (intro exI [of _ "t\<lparr>regions := rs\<rparr>"]) (simp add: live_def small_type_def)
qed

section \<open>Removing a range\<close>

lemma end_iv: "snd (iv r) < 2 ^ 32 \<Longrightarrow> unat (memblock_end r) = snd (iv r)"
  by (simp add: memblock_end_def iv_def to_nat)

lemma beg_iv: "unat (memblock_beg r) = fst (iv r)"
  by (simp add: memblock_beg_def iv_def)

lemma size_nonzero: "fst (iv r) < snd (iv r) \<Longrightarrow> size r \<noteq> 0"
  by (auto simp: iv_def)

lemma live_split:
  assumes "small_type t" "i < cnt t"
  shows "live t = take i (live t) @ live t ! i # drop (i + 1) (live t)"
  using assms by (simp add: id_take_nth_drop length_live flip: Suc_eq_plus1)

lemma iv_shrink:
  assumes "snd (iv r) < 2 ^ 32"
  shows "base r \<le> b \<Longrightarrow> unat b \<le> snd (iv r) \<Longrightarrow> iv (r\<lparr>size := b - base r\<rparr>) = (fst (iv r), unat b)"
    and "b \<le> e \<Longrightarrow> iv \<lparr>base = b, size = e - b\<rparr> = (unat b, unat e)"
  by (auto simp: iv_def unat_minus_le) (simp_all add: word_le_nat_alt)

lemma del_loop_beyond:
  assumes "small_type t" and "i \<le> cnt t" and "\<forall>y \<in> set (map iv (drop i (live t))). unat nend \<le> fst y"
  shows "del_loop t i b nend dbeg = Some (t, dbeg)"
proof (cases "i < cnt t")
  case True
  then have "live t ! i \<in> set (drop i (live t))"
    using length_live [OF assms(1)] by (metis Cons_nth_drop_Suc list.set_intros(1))
  then have "nend \<le> memblock_beg (live t ! i)"
    using assms(3) by (simp add: word_le_nat_alt beg_iv)
  then show ?thesis
    using True region_at_live [OF assms(1) True] by (subst del_loop.simps) simp
next
  case False
  then show ?thesis by (subst del_loop.simps) simp
qed

text \<open>
  The loop from region \<open>i\<close> on cuts the range out of the live regions from there. The count must
  leave room for the entry that a split adds.
\<close>

lemma del_loop_live:
  assumes "small_type t" and "cnt t < 8" and "separated (map iv (live t))" and "i \<le> cnt t"
    and "b < nend"
  shows "\<exists>t' d. del_loop t i b nend dbeg = Some (t', d) \<and> small_type t' \<and> cnt t' \<le> cnt t + 1 \<and>
    map iv (live t') = map iv (take i (live t)) @ cut (unat b) (unat nend) (map iv (drop i (live t)))"
  using assms
proof (induction "cnt t - i" arbitrary: t i b dbeg rule: less_induct)
  case less
  note t = less.prems(1)
  show ?case
  proof (cases "i < cnt t")
    case False
    with less.prems show ?thesis
      by (subst del_loop.simps) (simp add: length_live)
  next
    case True
    let ?L = "live t"
    define r where "r = ?L ! i"
    have at: "region_at t i = Some r" using region_at_live [OF t True] by (simp add: r_def)
    have split: "?L = take i ?L @ r # drop (i + 1) ?L" using live_split [OF t True] by (simp add: r_def)
    have dr: "drop i ?L = r # drop (i + 1) ?L"
      using True length_live [OF t] by (simp add: r_def Cons_nth_drop_Suc)
    have sep: "separated (map iv (take i ?L) @ iv r # map iv (drop (i + 1) ?L))"
      using less.prems(3) split by (metis list.simps(9) map_append)
    then have sepr: "separated (map iv (drop (i + 1) ?L))" "fst (iv r) < snd (iv r)" "snd (iv r) < 2 ^ 32"
      and above: "\<forall>y \<in> set (map iv (drop (i + 1) ?L)). snd (iv r) < fst y"
      by (simp_all add: separated_append separated_Cons)
    have e: "unat (memblock_end r) = snd (iv r)" by (rule end_iv [OF sepr(3)])
    have bn: "unat b < unat nend" using less.prems(5) by (simp add: word_less_nat_alt)
    have il: "i < length ?L" using True length_live [OF t] by simp
    have fst_r: "unat (base r) = fst (iv r)" by (simp add: iv_def)
    show ?thesis
    proof (cases "nend \<le> memblock_beg r")
      case True
      then have "unat nend \<le> fst (iv r)" by (simp add: word_le_nat_alt beg_iv)
      then have "cut (unat b) (unat nend) (map iv (drop i ?L)) = map iv (drop i ?L)"
        using sep above sepr(2) bn unfolding dr list.map
        by (intro cut_above) (auto simp: separated_append)
      moreover have "map iv (live t) = map iv (take i ?L) @ map iv (drop i ?L)"
        by (simp flip: map_append)
      ultimately show ?thesis
        using True t at \<open>i < cnt t\<close> by (subst del_loop.simps) simp
    next
      case nbeg: False
      then have lo: "fst (iv r) < unat nend" by (simp add: word_less_nat_alt beg_iv not_le)
      show ?thesis
      proof (cases "memblock_end r \<le> b")
        case True
        then have "snd (iv r) \<le> unat b" by (simp add: word_le_nat_alt e)
        then have "pieces (unat b) (unat nend) (iv r) = [iv r]"
          using sepr(2) bn by (cases "iv r") (simp add: pieces_def)
        moreover have "map iv (take (Suc i) ?L) = map iv (take i ?L) @ [iv r]"
          using il by (simp add: take_Suc_conv_app_nth r_def)
        ultimately show ?thesis
          using less.hyps [of t "i + 1" b dbeg] less.prems \<open>i < cnt t\<close> at nbeg True
          by (subst del_loop.simps) (simp add: dr)
      next
        case nend: False
        then have hi: "unat b < snd (iv r)" by (simp add: word_less_nat_alt e not_le)
        define mbeg where "mbeg = (if memblock_beg r > b then memblock_beg r else b)"
        define mend where "mend = (if memblock_end r < nend then memblock_end r else nend)"
        define r' where "r' = r\<lparr>size := size r - (mend - mbeg)\<rparr>"
        define dbeg' where "dbeg' = (if dbeg = 0 then mbeg else dbeg)"
        have up_to: "map iv (take (Suc i) (?L[i := x])) = map iv (take i ?L) @ [iv x]" for x
          using il by (simp add: take_Suc_conv_app_nth)
        have set_live: "map iv (?L[i := x]) = map iv (take i ?L) @ iv x # map iv (drop (i + 1) ?L)" for x
          using il by (simp add: upd_conv_take_nth_drop)
        show ?thesis
        proof (cases "memblock_beg r < b \<and> memblock_end r > nend")
          case True
          then have lt: "fst (iv r) < unat b" "unat nend < snd (iv r)"
            by (simp_all add: word_less_nat_alt beg_iv e)
          let ?x = "r\<lparr>size := b - memblock_beg r\<rparr>"
          obtain t1 where t1: "set_region t i ?x = Some t1" "small_type t1" "cnt t1 = cnt t" "live t1 = ?L[i := ?x]"
            using set_region_live [OF t \<open>i < cnt t\<close>] by blast
          obtain t2 where t2: "memblock_insert_region t1 (i + 1) nend (memblock_end r - nend) = Some t2"
            "small_type t2" "cnt t2 = cnt t1 + 1"
            "live t2 = take (i + 1) (live t1) @ \<lparr>base = nend, size = memblock_end r - nend\<rparr> # drop (i + 1) (live t1)"
            using insert_live [OF t1(2), of "i + 1"] \<open>i < cnt t\<close> t1(3) less.prems(2) by fastforce
          have "iv ?x = (fst (iv r), unat b)"
            using iv_shrink(1) [OF sepr(3), of b] True hi by (simp add: memblock_beg_def less_imp_le)
          moreover have "iv \<lparr>base = nend, size = memblock_end r - nend\<rparr> = (unat nend, snd (iv r))"
            using iv_shrink(2) [OF sepr(3), of nend "memblock_end r"] True e by (simp add: less_imp_le)
          moreover have "pieces (unat b) (unat nend) (iv r) = [(fst (iv r), unat b), (unat nend, snd (iv r))]"
            using lt bn by (cases "iv r") (simp add: pieces_def)
          moreover have "cut (unat b) (unat nend) (map iv (drop (i + 1) ?L)) = map iv (drop (i + 1) ?L)"
            using above lt bn by (intro cut_above [OF sepr(1)]) auto
          ultimately have "map iv (live t2) = map iv (take i ?L) @ cut (unat b) (unat nend) (map iv (drop i ?L))"
            using t2(4) up_to [of ?x] t1(4) il unfolding dr by (simp add: drop_update_cancel)
          moreover have "del_loop t i b nend dbeg = Some (t2, b)"
            using \<open>i < cnt t\<close> at nbeg nend True t1(1) t2(1)
            by (subst del_loop.simps) simp
          ultimately show ?thesis using t2 t1(3) by auto
        next
          case ns: False
          define gap where "gap = mend - mbeg"
          have mb: "unat mbeg = max (fst (iv r)) (unat b)" and me: "unat mend = min (snd (iv r)) (unat nend)"
            by (simp_all add: mbeg_def mend_def max_def min_def word_less_nat_alt beg_iv e)
          have gap: "unat gap = unat mend - unat mbeg" and ge: "unat mbeg < unat mend"
            unfolding gap_def using mb me lo hi bn sepr(2)
            by (simp_all add: unat_minus_le word_le_nat_alt)
          have gap_le: "unat gap \<le> unat (size r)" and size: "unat (size r) = snd (iv r) - fst (iv r)"
            using gap mb me by (auto simp: iv_def)
          have r': "unat (size r') = snd (iv r) - fst (iv r) - unat gap" "base r' = base r"
            using gap_le size by (simp_all add: r'_def unat_minus_le word_le_nat_alt flip: gap_def)
          obtain t1 where t1: "set_region t i r' = Some t1" "small_type t1" "cnt t1 = cnt t" "live t1 = ?L[i := r']"
            using set_region_live [OF t \<open>i < cnt t\<close>] by blast
          let ?t1 = "t1\<lparr>total_size := total_size t1 - gap\<rparr>"
          have lt1: "small_type ?t1" "cnt ?t1 = cnt t" "live ?t1 = ?L[i := r']"
            using t1 by (simp_all add: small_type_def live_def)
          have step: "del_loop t i b nend dbeg =
              (if size r' = 0 then do {
                 t \<leftarrow> move_regions ?t1 i (i + 1) (cnt ?t1 - (i + 1));
                 del_loop (t\<lparr>cnt := cnt t - 1\<rparr>) i b nend dbeg' }
               else if memblock_beg r \<ge> b then do {
                 t \<leftarrow> set_region ?t1 i (r'\<lparr>base := nend\<rparr>); Some (t, b) }
               else del_loop ?t1 (i + 1) (memblock_end r) nend dbeg')"
          proof -
            have "memblock_end r \<le> nend" if "\<not> b \<le> memblock_beg r" using ns that by auto
            then show ?thesis
              using \<open>i < cnt t\<close> at nbeg nend ns t1(1)
              apply (subst del_loop.simps)
              apply (simp only: if_True if_False Option.bind.simps Let_def simp_thms
                flip: mbeg_def mend_def dbeg'_def gap_def)
              apply (simp only: gap_def flip: r'_def)
              by (simp flip: gap_def)
          qed
          have whole: "size r' = 0 \<longleftrightarrow> unat b \<le> fst (iv r) \<and> snd (iv r) \<le> unat nend"
          proof -
            have "size r' = 0 \<longleftrightarrow> unat (size r') = 0" by (simp add: unat_eq_zero)
            also have "\<dots> \<longleftrightarrow> unat gap = snd (iv r) - fst (iv r)" using r'(1) gap_le size by auto
            finally show ?thesis using gap mb me ge sepr(2) lo hi by (auto simp: max_def min_def split: if_splits)
          qed
          consider (none) "size r' = 0" | (front) "size r' \<noteq> 0" "b \<le> memblock_beg r"
            | (rear) "size r' \<noteq> 0" "\<not> b \<le> memblock_beg r" by blast
          then show ?thesis
          proof cases
            case none
            obtain t2 where t2: "move_regions ?t1 i (i + 1) (cnt ?t1 - (i + 1)) = Some t2"
              "cnt t2 = cnt t" "small_type (t2\<lparr>cnt := cnt t - 1\<rparr>)"
              "live (t2\<lparr>cnt := cnt t - 1\<rparr>) = take i ?L @ drop (i + 1) ?L"
              using remove_live [OF lt1(1), of i] \<open>i < cnt t\<close> lt1 by (auto simp: drop_update_cancel)
            let ?t2 = "t2\<lparr>cnt := cnt t - 1\<rparr>"
            have pre: "take i (live ?t2) = take i ?L" "drop i (live ?t2) = drop (i + 1) ?L"
              using t2(4) il by simp_all
            have m: "cnt ?t2 - i < cnt t - i" "cnt ?t2 < 8" "i \<le> cnt ?t2"
              using \<open>i < cnt t\<close> less.prems(2) by auto
            have "separated (map iv (live ?t2))"
              using sep unfolding t2(4) by (simp add: separated_append separated_Cons)
            then obtain t' d where IH: "del_loop ?t2 i b nend dbeg' = Some (t', d)" "small_type t'"
              "cnt t' \<le> cnt t" "map iv (live t') =
                map iv (take i ?L) @ cut (unat b) (unat nend) (map iv (drop (i + 1) ?L))"
              using less.hyps [OF m(1) t2(3) m(2) _ m(3) less.prems(5), of dbeg'] pre \<open>i < cnt t\<close> by fastforce
            have "pieces (unat b) (unat nend) (iv r) = []"
              using none whole by (cases "iv r") (auto simp: pieces_def)
            then show ?thesis using IH step none t2(1,2) by (auto simp: dr)
          next
            case front
            let ?x = "r'\<lparr>base := nend\<rparr>"
            obtain t2 where t2: "set_region ?t1 i ?x = Some t2" "small_type t2" "cnt t2 = cnt t"
              "live t2 = ?L[i := ?x]"
              using set_region_live [OF lt1(1), of i] \<open>i < cnt t\<close> lt1 by auto
            have f: "unat b \<le> fst (iv r)" "unat nend < snd (iv r)"
              using front whole by (auto simp: word_le_nat_alt beg_iv)
            then have "iv ?x = (unat nend, snd (iv r))"
              using r'(1) gap mb me lo by (simp add: iv_def)
            moreover have "pieces (unat b) (unat nend) (iv r) = [(unat nend, snd (iv r))]"
              using f lo by (cases "iv r") (auto simp: pieces_def)
            moreover have "cut (unat b) (unat nend) (map iv (drop (i + 1) ?L)) = map iv (drop (i + 1) ?L)"
              using above f bn by (intro cut_above [OF sepr(1)]) auto
            ultimately have "map iv (live t2) = map iv (take i ?L) @ cut (unat b) (unat nend) (map iv (drop i ?L))"
              using t2(4) set_live [of ?x] unfolding dr by simp
            then show ?thesis using step front t2 by simp
          next
            case rear
            have f: "fst (iv r) < unat b" "snd (iv r) \<le> unat nend"
              using rear(2) ns by (auto simp: word_le_nat_alt word_less_nat_alt beg_iv e)
            have iv': "iv r' = (fst (iv r), unat b)"
              using r' gap mb me f hi by (simp add: iv_def)
            have pre: "map iv (take (i + 1) (live ?t1)) = map iv (take i ?L) @ [iv r']"
              "drop (i + 1) (live ?t1) = drop (i + 1) ?L"
              using lt1(3) up_to [of r'] by (simp_all add: drop_update_cancel)
            have "separated (map iv (live ?t1))"
              using sep iv' f hi sepr unfolding lt1(3) set_live
              by (auto simp: separated_append separated_Cons)
            moreover have "memblock_end r < nend \<Longrightarrow> \<exists>t' d. del_loop ?t1 (i + 1) (memblock_end r) nend dbeg' = Some (t', d) \<and>
                small_type t' \<and> cnt t' \<le> cnt t + 1 \<and> map iv (live t') = map iv (take (i + 1) (live ?t1)) @
                  cut (unat (memblock_end r)) (unat nend) (map iv (drop (i + 1) (live ?t1)))"
              using less.hyps [of ?t1 "i + 1" "memblock_end r" dbeg'] lt1 less.prems(2) \<open>i < cnt t\<close> calculation
              by simp
            moreover have "cut (snd (iv r)) (unat nend) (map iv (drop (i + 1) ?L)) =
                cut (unat b) (unat nend) (map iv (drop (i + 1) ?L))"
              using above hi by (intro cut_raise [OF sepr(1), symmetric]) (auto simp: less_imp_le)
            moreover have "pieces (unat b) (unat nend) (iv r) = [(fst (iv r), unat b)]"
              using f hi bn by (cases "iv r") (auto simp: pieces_def)
            moreover have "del_loop ?t1 (i + 1) (memblock_end r) nend dbeg' = Some (?t1, dbeg') \<and>
                cut (unat b) (unat nend) (map iv (drop (i + 1) ?L)) = map iv (drop (i + 1) ?L)"
              if "memblock_end r = nend"
            proof
              have ab: "\<forall>y \<in> set (map iv (drop (i + 1) (live ?t1))). unat nend \<le> fst y"
                using above that e pre(2) by (auto simp: less_imp_le)
              then show "del_loop ?t1 (i + 1) (memblock_end r) nend dbeg' = Some (?t1, dbeg')"
                by (intro del_loop_beyond [OF lt1(1)]) (use \<open>i < cnt t\<close> lt1 in simp_all)
              show "cut (unat b) (unat nend) (map iv (drop (i + 1) ?L)) = map iv (drop (i + 1) ?L)"
                using ab pre(2) bn by (intro cut_above [OF sepr(1)]) auto
            qed
            moreover have "map iv (live ?t1) = map iv (take (i + 1) (live ?t1)) @ map iv (drop (i + 1) (live ?t1))"
              by (simp flip: map_append)
            moreover have "memblock_end r < nend \<or> memblock_end r = nend"
              using f(2) e by (auto simp: word_less_nat_alt word_unat_eq_iff)
            ultimately show ?thesis
              unfolding step using rear pre iv' lt1 e by (elim disjE) (simp_all add: dr)
          qed
        qed
      qed
    qed
  qed
qed

section \<open>Rounding to pages\<close>

definition page_floor :: "nat \<Rightarrow> nat" where
  "page_floor n = n - n mod 4096"

definition page_ceil :: "nat \<Rightarrow> nat" where
  "page_ceil n = page_floor (n + 4095)"

lemma page_floor_le: "page_floor n \<le> n"
  by (simp add: page_floor_def)

lemma page_ceil_ge: "n \<le> page_ceil n"
proof -
  have "(n + 4095) mod 4096 < 4096" by simp
  then show ?thesis unfolding page_ceil_def page_floor_def by linarith
qed

lemma page_dvd: "4096 dvd page_floor n" "4096 dvd page_ceil n"
  by (simp_all add: page_ceil_def page_floor_def dvd_minus_mod)

lemma round_up_nat:
  assumes k: "k < 32" and nz: "round_up x (2 ^ k) \<noteq> 0"
  shows "unat (round_up x (2 ^ k)) = unat x - 1 - (unat x - 1) mod 2 ^ k + 2 ^ k" and "x \<noteq> 0"
proof -
  show x: "x \<noteq> 0" using nz by auto
  define m where "m = unat x - 1 - (unat x - 1) mod 2 ^ k"
  have um: "unat (round_down (x - 1) (2 ^ k)) = m"
    unfolding m_def unat_round_down [OF k] by (simp add: unat_minus_one [OF x])
  have uk: "unat ((2::u32) ^ k) = 2 ^ k"
    using unat_of_nat32 [of "2 ^ k"] power_strict_increasing [OF k, of "2::nat"] by simp
  have dvd: "2 ^ k dvd m" unfolding m_def by (rule dvd_minus_mod)
  have m: "m < 2 ^ 32" unfolding um [symmetric] by (rule unat_lt32)
  have le: "m + 2 ^ k \<le> 2 ^ 32"
  proof -
    obtain c where c: "m = 2 ^ k * c" using dvd by blast
    have p: "(2::nat) ^ 32 = 2 ^ k * 2 ^ (32 - k)" using k by (simp flip: power_add)
    have "c < 2 ^ (32 - k)" using m unfolding c p by simp
    then have "2 ^ k * (c + 1) \<le> 2 ^ k * 2 ^ (32 - k)" by (intro mult_le_mono2) simp
    then show ?thesis unfolding c p by simp
  qed
  have ne: "m + 2 ^ k \<noteq> 2 ^ 32"
  proof
    assume "m + 2 ^ k = 2 ^ 32"
    then have "unat (round_up x (2 ^ k)) = 0"
      unfolding round_up_eq by (simp only: unat_word_ariths um uk) simp
    with nz show False by (simp add: unat_eq_zero)
  qed
  have "unat (round_down (x - 1) (2 ^ k) + 2 ^ k) = m + 2 ^ k"
    using unat_plus_lt [of "round_down (x - 1) (2 ^ k)" "2 ^ k"] le ne by (simp add: um uk)
  then show "unat (round_up x (2 ^ k)) = unat x - 1 - (unat x - 1) mod 2 ^ k + 2 ^ k"
    unfolding round_up_eq m_def .
qed

lemma round_up_bounds:
  assumes k: "k < 32" and nz: "round_up x (2 ^ k) \<noteq> 0"
  shows "unat x \<le> unat (round_up x (2 ^ k)) \<and> 2 ^ k dvd unat (round_up x (2 ^ k))"
proof -
  let ?n = "unat x - 1"
  have "?n mod 2 ^ k < 2 ^ k" by simp
  moreover have "?n mod 2 ^ k \<le> ?n" by (rule mod_less_eq_dividend)
  ultimately have "unat x \<le> ?n - ?n mod 2 ^ k + 2 ^ k" by linarith
  moreover have "2 ^ k dvd ?n - ?n mod 2 ^ k + 2 ^ k" by (rule dvd_add [OF dvd_minus_mod dvd_refl])
  ultimately show ?thesis using round_up_nat [OF assms] by simp
qed

lemma adjust_nat:
  assumes "0 < unat s" and "unat b + unat s + 4095 < 2 ^ 32"
  shows "\<exists>lo hi. memblock_adjust_region b s = (lo, hi - lo, hi) \<and> lo < hi \<and>
    unat lo = page_floor (unat b) \<and> unat hi = page_ceil (unat b + unat s)"
proof -
  let ?lo = "round_down b PAGE_SIZE" and ?hi = "round_up (b + s) PAGE_SIZE"
  have p: "PAGE_SIZE = 2 ^ 12" by (simp add: PAGE_SIZE_def)
  have lo: "unat ?lo = page_floor (unat b)"
    unfolding p by (subst unat_round_down) (simp_all add: page_floor_def)
  have bs: "unat (b + s) = unat b + unat s" using assms by (intro unat_plus_lt) simp
  let ?n = "unat b + unat s - 1"
  have mod: "?n mod 4096 < 4096" "?n mod 4096 \<le> ?n" by simp_all
  have ceil: "page_ceil (unat b + unat s) = ?n - ?n mod 4096 + 4096"
  proof -
    have n: "unat b + unat s + 4095 = ?n + 4096" using assms(1) by simp
    have "(?n + 4096) mod 4096 = ?n mod 4096" by (rule mod_add_self2)
    then show ?thesis unfolding page_ceil_def page_floor_def n using mod by linarith
  qed
  have "unat (b + s - 1) = ?n" using bs assms(1) by (simp add: unat_minus_one unat_gt_0 flip: unat_gt_0)
  then have d: "unat (round_down (b + s - 1) (2 ^ 12)) = ?n - ?n mod 4096"
    by (subst unat_round_down) simp_all
  have "unat ?hi = unat (round_down (b + s - 1) (2 ^ 12)) + unat ((2::u32) ^ 12)"
    unfolding p round_up_eq using d assms mod by (intro unat_plus_lt) simp
  then have hi: "unat ?hi = page_ceil (unat b + unat s)" unfolding d ceil by simp
  have "unat ?lo < unat ?hi"
    using lo hi page_floor_le [of "unat b"] page_ceil_ge [of "unat b + unat s"] assms(1) by linarith
  then show ?thesis
    using lo hi by (simp add: memblock_adjust_region_def Let_def word_less_nat_alt)
qed

section \<open>Reserving and allocating\<close>

lemma wf_small: "wf_type t \<Longrightarrow> small_type t"
  by (simp add: wf_type_def small_type_def MEMBLOCK_MAX_REGIONS_def)

lemma wf_typeI: "small_type t \<Longrightarrow> separated (map iv (live t)) \<Longrightarrow> wf_type t"
  by (simp add: wf_type_def small_type_def MEMBLOCK_MAX_REGIONS_def)

definition intervals :: "memblock_type \<Rightarrow> (nat \<times> nat) list" where
  "intervals t = map iv (live t)"

lemma del_region_intervals:
  assumes t: "wf_type t" "cnt t < 8" and s: "0 < unat s" "unat b + unat s + 4095 < 2 ^ 32"
  shows "\<exists>t' d. memblock_del_region t b s = Some (t', d) \<and> wf_type t' \<and>
    intervals t' = cut (page_floor (unat b)) (page_ceil (unat b + unat s)) (intervals t)"
proof -
  obtain lo hi where a: "memblock_adjust_region b s = (lo, hi - lo, hi)" "lo < hi"
    "unat lo = page_floor (unat b)" "unat hi = page_ceil (unat b + unat s)"
    using adjust_nat [OF s] by blast
  have sep: "separated (map iv (live t))" using t by (simp add: wf_type_def)
  obtain t' d where "del_loop t 0 lo hi MEMBLOCK_INVLD = Some (t', d)" "small_type t'"
    "map iv (live t') = cut (unat lo) (unat hi) (map iv (live t))"
    using del_loop_live [OF wf_small [OF t(1)] t(2) sep le0 a(2), of MEMBLOCK_INVLD] by auto
  moreover from this have "separated (map iv (live t'))"
    using separated_cut [OF sep] a(2) by (simp add: word_less_nat_alt)
  ultimately show ?thesis
    using a wf_typeI by (auto simp: memblock_del_region_def intervals_def)
qed

lemma clamp_nat: "lo \<le> hi \<Longrightarrow> unat (clamp v lo hi) = min (max (unat v) (unat lo)) (unat hi)"
  by (auto simp: clamp_def Let_def word_less_nat_alt word_le_nat_alt max_def min_def)

lemma find_from_sound:
  assumes "separated (map iv rs)" and k: "k < 32" and lim: "start \<le> lim"
    and c: "find_from rs s (2 ^ k) start lim = c" "c \<noteq> 0"
  shows "\<exists>r \<in> set rs. fst (iv r) \<le> unat c \<and> unat c + unat s \<le> snd (iv r) \<and> unat start \<le> unat c \<and>
    unat c + unat s \<le> unat lim \<and> 2 ^ k dvd unat c"
  using assms(1) c(1)
proof (induction rs)
  case Nil
  then show ?case using c(2) by simp
next
  case (Cons r rs)
  let ?beg = "clamp (memblock_beg r) start lim" and ?stop = "clamp (memblock_end r) start lim"
  show ?case
  proof (cases "round_up ?beg (2 ^ k) < ?stop \<and> ?stop - round_up ?beg (2 ^ k) \<ge> s")
    case False
    then have "find_from rs s (2 ^ k) start lim = c"
      using Cons.prems(2) by (simp only: find_from.simps Let_def if_False)
    with Cons show ?thesis by (auto simp: separated_Cons)
  next
    case True
    then have eq: "round_up ?beg (2 ^ k) = c"
      using Cons.prems(2) by (simp only: find_from.simps Let_def if_True simp_thms)
    have e: "unat (memblock_end r) = snd (iv r)"
      by (rule end_iv) (use Cons.prems(1) in \<open>simp add: separated_Cons\<close>)
    have b: "unat ?beg \<le> unat c" "2 ^ k dvd unat c"
      using round_up_bounds [OF k, of ?beg] c(2) eq by auto
    have "c < ?stop" "s \<le> ?stop - c" using True eq by auto
    then have lt: "unat c < unat ?stop" "unat s \<le> unat ?stop - unat c"
      using unat_minus_le [of c ?stop] by (simp_all add: word_less_nat_alt word_le_nat_alt)
    show ?thesis
      using b lt clamp_nat [OF lim, of "memblock_beg r"] clamp_nat [OF lim, of "memblock_end r"]
      by (auto simp: e beg_iv intro!: bexI [of _ r])
  qed
qed

lemma separated_inside:
  assumes "separated is" and "i \<in> set is" shows "{fst i..<snd i} \<subseteq> covered is"
  using assms by (auto simp: covered_def split: prod.splits)

text \<open>All boundaries are page boundaries.\<close>

definition paged :: "(nat \<times> nat) list \<Rightarrow> bool" where
  "paged is \<longleftrightarrow> (\<forall>x \<in> set is. 4096 dvd fst x \<and> 4096 dvd snd x)"

lemma paged_cut: "paged is \<Longrightarrow> 4096 dvd lo \<Longrightarrow> 4096 dvd hi \<Longrightarrow> paged (cut lo hi is)"
  by (induction "is") (auto simp: paged_def pieces_def min_def max_def split: prod.splits if_splits)

lemma alloc_range_sound:
  assumes t: "wf_type t" "cnt t < 8" and p: "paged (intervals t)"
    and s: "0 < unat s" "unat s < 2 ^ 31" and k: "k < 32" and lim: "start \<le> lim" "unat lim \<le> 2 ^ 31"
  shows "\<exists>t' b. memblock_alloc_range t s (2 ^ k) start lim = Some (t', b) \<and> wf_type t' \<and> paged (intervals t') \<and>
    (b \<noteq> 0 \<longrightarrow> 2 ^ k dvd unat b \<and> unat start \<le> unat b \<and> unat b + unat s \<le> unat lim \<and>
       {unat b..<unat b + unat s} \<subseteq> covered (intervals t) \<and>
       covered (intervals t') = covered (intervals t) - {page_floor (unat b)..<page_ceil (unat b + unat s)})"
proof -
  define c where "c = find_from (live t) s (2 ^ k) start lim"
  have len: "cnt t \<le> length (regions t)" using t by (simp add: wf_type_def MEMBLOCK_MAX_REGIONS_def)
  then have find: "memblock_find_in_range t s (2 ^ k) start lim = Some c"
    by (simp add: memblock_find_in_range_def c_def live_def)
  have sep: "separated (map iv (live t))" using t by (simp add: wf_type_def)
  show ?thesis
  proof (cases "c = 0")
    case True
    then show ?thesis using find t p by (simp add: memblock_alloc_range_def)
  next
    case False
    obtain r where r: "r \<in> set (live t)" "fst (iv r) \<le> unat c" "unat c + unat s \<le> snd (iv r)"
      "unat start \<le> unat c" "unat c + unat s \<le> unat lim" "2 ^ k dvd unat c"
      using find_from_sound [OF sep k lim(1) c_def [symmetric] False] by blast
    have ir: "iv r \<in> set (intervals t)" using r(1) by (simp add: intervals_def)
    have inside: "{unat c..<unat c + unat s} \<subseteq> covered (intervals t)"
      using separated_inside [OF sep, of "iv r"] ir r(2,3) by (fastforce simp: intervals_def)
    have "unat c + unat s + 4095 < 2 ^ 32" using r(5) lim(2) by simp
    from del_region_intervals [OF t s(1) this] obtain t' d where
      d: "memblock_del_region t c s = Some (t', d)" "wf_type t'"
        "intervals t' = cut (page_floor (unat c)) (page_ceil (unat c + unat s)) (intervals t)"
      by blast
    have "page_floor (unat c) \<le> page_ceil (unat c + unat s)"
      using page_floor_le [of "unat c"] page_ceil_ge [of "unat c + unat s"] by linarith
    then have "covered (intervals t') = covered (intervals t) - {page_floor (unat c)..<page_ceil (unat c + unat s)}"
      unfolding d(3) by (rule covered_cut)
    moreover have "paged (intervals t')" unfolding d(3) by (rule paged_cut [OF p page_dvd])
    ultimately show ?thesis
      using find False d r(4-6) inside
      by (simp add: memblock_alloc_range_def memblock_reserve_type_def)
  qed
qed

section \<open>Adding a range\<close>

lemma add_loop_live:
  assumes "small_type t" and "separated (map iv (live t))" and "i \<le> cnt t" and "b < nend"
    and "\<forall>x \<in> set (map iv (live t)). snd x < unat b \<or> unat nend < fst x"
    and "\<forall>x \<in> set (map iv (take i (live t))). snd x < unat b"
  shows "\<exists>j \<le> cnt t. add_loop t i b nend = Some (t, j, b) \<and>
    (\<forall>x \<in> set (map iv (take j (live t))). snd x < unat b) \<and>
    (\<forall>x \<in> set (map iv (drop j (live t))). unat nend < fst x)"
  using assms(3,6)
proof (induction "cnt t - i" arbitrary: i)
  case 0
  then show ?case
    using length_live [OF assms(1)] by (subst add_loop.simps) (auto intro!: exI [of _ i])
next
  case (Suc n)
  then have i: "i < cnt t" by simp
  let ?r = "live t ! i"
  have il: "i < length (live t)" using i length_live [OF assms(1)] by simp
  then have mem: "iv ?r \<in> set (map iv (live t))" by simp
  have at: "region_at t i = Some ?r" by (rule region_at_live [OF assms(1) i])
  have e: "unat (memblock_end ?r) = snd (iv ?r)"
    by (rule end_iv) (use separated_mem [OF assms(2) mem] in simp)
  show ?case
  proof (cases "unat nend < fst (iv ?r)")
    case True
    have dr: "drop i (live t) = ?r # drop (i + 1) (live t)" using il by (simp add: Cons_nth_drop_Suc)
    have "separated (map iv (take i (live t)) @ iv ?r # map iv (drop (i + 1) (live t)))"
      using assms(2) live_split [OF assms(1) i] by (metis list.simps(9) map_append)
    then have "\<forall>x \<in> set (map iv (drop i (live t))). unat nend < fst x"
      unfolding dr using True by (auto simp: separated_append separated_Cons)
    moreover have "add_loop t i b nend = Some (t, i, b)"
      using True i at by (subst add_loop.simps) (simp add: word_le_nat_alt beg_iv)
    ultimately show ?thesis using Suc.prems by blast
  next
    case False
    then have lt: "snd (iv ?r) < unat b" using assms(5) mem by blast
    have bn: "unat b < unat nend" using assms(4) by (simp add: word_less_nat_alt)
    have "fst (iv ?r) < snd (iv ?r)" using separated_mem [OF assms(2) mem] by simp
    then have "add_loop t i b nend = add_loop t (i + 1) b nend"
      using lt bn i at e by (subst add_loop.simps) (simp add: word_le_nat_alt beg_iv)
    moreover have "\<forall>x \<in> set (map iv (take (i + 1) (live t))). snd x < unat b"
      using Suc.prems(2) lt il by (auto simp: take_Suc_conv_app_nth)
    ultimately show ?thesis using Suc.hyps(1) [of "i + 1"] Suc.hyps(2) i by simp
  qed
qed

lemma fusion_apart:
  assumes t: "small_type t" "cnt t < 8" and i: "i < cnt t" and sep: "separated (map iv (live t))"
  shows "\<exists>t'. memblock_fusion_region t i = Some t' \<and> small_type t' \<and> cnt t' = cnt t \<and> live t' = live t"
proof (cases "cnt t = 1")
  case True
  then show ?thesis using t by (simp add: memblock_fusion_region_def)
next
  case False
  have il: "i < length (live t)" using i length_live [OF t(1)] by simp
  have mem: "iv (live t ! k) \<in> set (map iv (live t))" if "k < cnt t" for k
    using that length_live [OF t(1)] by simp
  have e: "unat (memblock_end (live t ! k)) = snd (iv (live t ! k))" if "k < cnt t" for k
    by (rule end_iv) (use separated_mem [OF sep mem [OF that]] in simp)
  have ord: "snd (iv (live t ! k)) < fst (iv (live t ! Suc k))" if "Suc k < cnt t" for k
    using sep that length_live [OF t(1)] by (auto simp: separated_def sorted_wrt_map sorted_wrt_iff_nth_less)
  have apart: "memblock_end (live t ! k) \<noteq> memblock_beg (live t ! Suc k)" if "Suc k < cnt t" for k
    using e [of k] ord [of k] that beg_iv [of "live t ! Suc k"] by auto
  have at: "region_at t k = Some (live t ! k)" if "k < cnt t" for k
    by (rule region_at_live [OF t(1) that])
  have len: "length (regions t) = 8" using t(1) by (simp add: small_type_def)
  have first: "(if i \<noteq> 0 then do {
                 prvreg \<leftarrow> region_at t (i - 1);
                 region \<leftarrow> region_at t i;
                 if memblock_end prvreg = memblock_beg region then do {
                   t \<leftarrow> set_region t i \<lparr>base = base prvreg, size = size region + size prvreg\<rparr>;
                   move_regions t (i - 1) i (cnt t - i) }
                 else Some t }
               else Some t) = Some t"
    using at [of i] at [of "i - 1"] apart [of "i - 1"] i by (cases i) auto
  have nxt: "region_at t (i + 1) = Some (regions t ! (i + 1))"
    using i t(2) len by (simp add: region_at_def)
  show ?thesis
  proof (cases "memblock_end (live t ! i) = memblock_beg (regions t ! (i + 1))")
    case False
    then have "memblock_fusion_region t i = Some t"
      unfolding memblock_fusion_region_def first using \<open>cnt t \<noteq> 1\<close> i at [OF i] nxt by simp
    then show ?thesis using t by simp
  next
    case True
    have last: "i + 1 = cnt t"
    proof (rule ccontr)
      assume "i + 1 \<noteq> cnt t"
      then have "Suc i < cnt t" using i by simp
      then show False using apart [of i] True by (simp add: live_def)
    qed
    let ?x = "\<lparr>base = base (live t ! i), size = size (regions t ! (i + 1)) + size (live t ! i)\<rparr>"
    have "memblock_fusion_region t i = Some (t\<lparr>regions := (regions t)[i + 1 := ?x]\<rparr>)"
      unfolding memblock_fusion_region_def first
      using \<open>cnt t \<noteq> 1\<close> i at [OF i] nxt True last len t(2)
      by (simp add: set_region_def move_regions_def)
    moreover have "take (cnt t) ((regions t)[i + 1 := ?x]) = live t"
      using last by (simp add: live_def)
    ultimately show ?thesis using t len by (simp add: live_def small_type_def)
  qed
qed

lemma add_region_intervals:
  assumes t: "wf_type t" "cnt t \<noteq> 0" "cnt t < 7" and s: "0 < unat s" "unat b + unat s + 4095 < 2 ^ 32"
    and apart: "\<forall>x \<in> set (intervals t). snd x < page_floor (unat b) \<or> page_ceil (unat b + unat s) < fst x"
  shows "\<exists>t' us vs. memblock_add_region t b s = Some t' \<and> wf_type t' \<and> cnt t' = cnt t + 1 \<and>
    intervals t = us @ vs \<and>
    intervals t' = us @ (page_floor (unat b), page_ceil (unat b + unat s)) # vs"
proof -
  obtain lo hi where a: "memblock_adjust_region b s = (lo, hi - lo, hi)" "lo < hi"
    "unat lo = page_floor (unat b)" "unat hi = page_ceil (unat b + unat s)"
    using adjust_nat [OF s] by blast
  note sm = wf_small [OF t(1)]
  have sep: "separated (map iv (live t))" using t by (simp add: wf_type_def)
  have len: "length (live t) = cnt t" by (rule length_live [OF sm])
  have r0: "region_at t 0 = Some (live t ! 0)" using region_at_live [OF sm] t(2) by simp
  have "iv (live t ! 0) \<in> set (map iv (live t))" using t(2) len by simp
  then have nz: "size (live t ! 0) \<noteq> 0" using separated_mem [OF sep] size_nonzero by blast
  have ap: "\<forall>x \<in> set (map iv (live t)). snd x < unat lo \<or> unat hi < fst x"
    using apart a(3,4) by (simp add: intervals_def)
  obtain j where j: "j \<le> cnt t" "add_loop t 0 lo hi = Some (t, j, lo)"
    "\<forall>x \<in> set (map iv (take j (live t))). snd x < unat lo"
    "\<forall>x \<in> set (map iv (drop j (live t))). unat hi < fst x"
    using add_loop_live [OF sm sep le0 a(2) ap] by auto
  let ?n = "\<lparr>base = lo, size = hi - lo\<rparr>"
  obtain t1 where t1: "memblock_insert_region t j lo (hi - lo) = Some t1" "small_type t1" "cnt t1 = cnt t + 1"
    "live t1 = take j (live t) @ ?n # drop j (live t)"
    using insert_live [OF sm j(1)] t(3) by fastforce
  have n: "iv ?n = (unat lo, unat hi)"
    using a(2) by (simp add: iv_def unat_minus_le less_imp_le) (simp add: word_less_nat_alt)
  have parts: "separated (map iv (take j (live t)))" "separated (map iv (drop j (live t)))"
    "\<forall>x \<in> set (map iv (take j (live t))). \<forall>y \<in> set (map iv (drop j (live t))). snd x < fst y"
    using sep separated_append [of "map iv (take j (live t))" "map iv (drop j (live t))"]
    by (simp_all flip: map_append)
  have "separated (map iv (live t1))"
    unfolding t1(4) using parts j(3,4) n a(2) unat_lt32 [of hi]
    by (auto simp: separated_append separated_Cons word_less_nat_alt)
  moreover from fusion_apart [OF t1(2) _ _ this, of j] obtain t2 where
    t2: "memblock_fusion_region t1 j = Some t2" "small_type t2" "cnt t2 = cnt t1" "live t2 = live t1"
    using t1(3) t(3) j(1) by auto
  moreover have "memblock_add_region t b s = Some t2"
    using a(1,2) r0 nz j(2) t1(1) t2(1) by (simp add: memblock_add_region_def)
  moreover have "intervals t = map iv (take j (live t)) @ map iv (drop j (live t))"
    by (simp add: intervals_def flip: map_append)
  moreover have "intervals t2 = map iv (take j (live t)) @ (unat lo, unat hi) # map iv (drop j (live t))"
    using t2(4) t1(4) n by (simp add: intervals_def)
  ultimately show ?thesis
    using wf_typeI [OF t2(2)] t2(3,4) t1(3) a(3,4) by metis
qed

text \<open>The first region goes into the entry that is there from the start.\<close>

lemma add_region_first:
  assumes s: "0 < unat s" "unat b + unat s + 4095 < 2 ^ 32"
  shows "\<exists>t'. memblock_add_region (bootmem memblock_init) b s = Some t' \<and> wf_type t' \<and> cnt t' = 1 \<and>
    intervals t' = [(page_floor (unat b), page_ceil (unat b + unat s))]"
proof -
  obtain lo hi where a: "memblock_adjust_region b s = (lo, hi - lo, hi)" "lo < hi"
    "unat lo = page_floor (unat b)" "unat hi = page_ceil (unat b + unat s)"
    using adjust_nat [OF s] by blast
  let ?n = "\<lparr>base = lo, size = hi - lo\<rparr>"
  let ?t = "bootmem memblock_init"
  have n: "iv ?n = (unat lo, unat hi)"
    using a(2) by (simp add: iv_def unat_minus_le less_imp_le) (simp add: word_less_nat_alt)
  have t: "?t = \<lparr>cnt = 1, total_size = 0, regions = \<lparr>base = 0, size = 0\<rparr> # replicate 7 \<lparr>base = 0, size = 0\<rparr>\<rparr>"
    by (simp add: memblock_init_def Let_def MEMBLOCK_MAX_REGIONS_def numeral_eq_Suc)
  have "memblock_add_region ?t b s =
      Some \<lparr>cnt = 1, total_size = hi - lo, regions = ?n # replicate 7 \<lparr>base = 0, size = 0\<rparr>\<rparr>"
    unfolding t memblock_add_region_def a(1) by (simp add: region_at_def set_region_def)
  then show ?thesis
    using a(2-4) n unat_lt32 [of hi]
    by (simp add: wf_type_def intervals_def live_def MEMBLOCK_MAX_REGIONS_def separated_Cons
        word_less_nat_alt)
qed

section \<open>Properties\<close>

text \<open>
  C30: adding a range of memory that leaves a gap to every region already there puts exactly its
  pages as one region in its place: the regions stay disjoint, sorted and apart, and no other
  region changes. The first range goes into the entry that exists from the start.
\<close>

theorem memblock_add_inserts:
  assumes "wf_type (bootmem mb)" and "cnt (bootmem mb) \<noteq> 0" and "cnt (bootmem mb) < 7"
    and "0 < unat s" and "unat b + unat s + 4095 < 2 ^ 32"
    and "\<forall>x \<in> set (intervals (bootmem mb)).
      snd x < page_floor (unat b) \<or> page_ceil (unat b + unat s) < fst x"
  shows "\<exists>mb' us vs. memblock_add mb b s = Some mb' \<and> kernmem mb' = kernmem mb \<and> wf_type (bootmem mb') \<and>
    intervals (bootmem mb) = us @ vs \<and>
    intervals (bootmem mb') = us @ (page_floor (unat b), page_ceil (unat b + unat s)) # vs"
proof -
  obtain t us vs where "memblock_add_region (bootmem mb) b s = Some t" "wf_type t"
    "intervals (bootmem mb) = us @ vs"
    "intervals t = us @ (page_floor (unat b), page_ceil (unat b + unat s)) # vs"
    using add_region_intervals [OF assms] by blast
  then show ?thesis by (intro exI [of _ "mb\<lparr>bootmem := t\<rparr>"]) (auto simp: memblock_add_def)
qed

text \<open>Memory from 64 KiB to 128 KiB, the state after the first \<^verbatim>\<open>memblock_add\<close>.\<close>

definition low_memory :: memblock where
  "low_memory = memblock_init\<lparr>bootmem := \<lparr>cnt = 1, total_size = 0x10000,
     regions = \<lparr>base = 0x10000, size = 0x10000\<rparr> # replicate 7 \<lparr>base = 0, size = 0\<rparr>\<rparr>\<rparr>"

lemma low_memory: "wf_type (bootmem low_memory)" "cnt (bootmem low_memory) = 1"
  "intervals (bootmem low_memory) = [(0x10000, 0x20000)]"
  by (simp_all add: low_memory_def wf_type_def intervals_def live_def iv_def separated_Cons
      MEMBLOCK_MAX_REGIONS_def)

theorem memblock_add_inserts_witness:
  "\<exists>mb' us vs. memblock_add low_memory 0x30000 0x1800 = Some mb' \<and> kernmem mb' = kernmem low_memory \<and>
    wf_type (bootmem mb') \<and> [(0x10000, 0x20000)] = us @ vs \<and>
    intervals (bootmem mb') = us @ (0x30000, 0x32000) # vs"
  using memblock_add_inserts [of low_memory "0x1800" "0x30000"]
  by (simp add: low_memory page_floor_def page_ceil_def)

text \<open>
  C29: reserving a range removes exactly the pages that it touches from the memory that the
  regions cover, whatever regions it overlaps, cuts or splits, and keeps the regions disjoint,
  sorted and apart, as long as the array has room for one more region.
\<close>

theorem memblock_reserve_removes:
  assumes "wf_type (bootmem mb)" and "cnt (bootmem mb) < 8"
    and "0 < unat s" and "unat b + unat s + 4095 < 2 ^ 32"
  shows "\<exists>mb' r. memblock_reserve mb b s = Some (mb', r) \<and> wf_type (bootmem mb') \<and>
    covered (intervals (bootmem mb')) =
      covered (intervals (bootmem mb)) - {page_floor (unat b)..<page_ceil (unat b + unat s)}"
proof -
  obtain t d where d: "memblock_del_region (bootmem mb) b s = Some (t, d)" "wf_type t"
    "intervals t = cut (page_floor (unat b)) (page_ceil (unat b + unat s)) (intervals (bootmem mb))"
    using del_region_intervals [OF assms] by blast
  have "page_floor (unat b) \<le> page_ceil (unat b + unat s)"
    using page_floor_le [of "unat b"] page_ceil_ge [of "unat b + unat s"] by linarith
  then show ?thesis
    using d covered_cut by (intro exI [of _ "mb\<lparr>bootmem := t\<rparr>"]) (auto simp: memblock_reserve_def)
qed

theorem memblock_reserve_removes_witness:
  "\<exists>mb' r. memblock_reserve low_memory 0x18000 0x1000 = Some (mb', r) \<and> wf_type (bootmem mb') \<and>
    covered (intervals (bootmem mb')) = {0x10000..<0x20000} - {0x18000..<0x19000}"
  using memblock_reserve_removes [of low_memory "0x1000" "0x18000"]
  by (simp add: low_memory page_floor_def page_ceil_def)

text \<open>
  C27: a block that \<^verbatim>\<open>memblock_alloc\<close> returns is aligned, lies below 1 MiB within memory that
  was free, and is not free afterwards, so no later allocation returns any of it.
\<close>

theorem memblock_alloc_sound:
  assumes "wf_type (bootmem mb)" and "cnt (bootmem mb) < 8" and "paged (intervals (bootmem mb))"
    and "0 < unat s" and "unat s < 2 ^ 31" and "k < 32"
  shows "\<exists>mb' p. memblock_alloc mb s (2 ^ k) = Some (mb', p) \<and> wf_type (bootmem mb') \<and>
    paged (intervals (bootmem mb')) \<and>
    (p \<noteq> 0 \<longrightarrow> 2 ^ k dvd unat p \<and> 0x10000 \<le> unat p \<and> unat p + unat s \<le> 0x100000 \<and>
       {unat p..<unat p + unat s} \<subseteq> covered (intervals (bootmem mb)) \<and>
       {unat p..<unat p + unat s} \<inter> covered (intervals (bootmem mb')) = {})"
proof -
  have lim: "MEMBLOCK_START \<le> MEMBLOCK_LIMIT" "unat MEMBLOCK_LIMIT \<le> 2 ^ 31"
    "unat MEMBLOCK_START = 0x10000" "unat MEMBLOCK_LIMIT = 0x100000"
    by (simp_all add: MEMBLOCK_START_def MEMBLOCK_LIMIT_def)
  obtain t p where *: "memblock_alloc_range (bootmem mb) s (2 ^ k) MEMBLOCK_START MEMBLOCK_LIMIT = Some (t, p)"
    "wf_type t" "paged (intervals t)" "p \<noteq> 0 \<longrightarrow> 2 ^ k dvd unat p \<and> 0x10000 \<le> unat p \<and>
       unat p + unat s \<le> 0x100000 \<and> {unat p..<unat p + unat s} \<subseteq> covered (intervals (bootmem mb)) \<and>
       covered (intervals t) = covered (intervals (bootmem mb)) - {page_floor (unat p)..<page_ceil (unat p + unat s)}"
    using alloc_range_sound [OF assms lim(1,2)] lim(3,4) by auto
  have "{unat p..<unat p + unat s} \<subseteq> {page_floor (unat p)..<page_ceil (unat p + unat s)}"
    using page_floor_le [of "unat p"] page_ceil_ge [of "unat p + unat s"] by auto
  with * show ?thesis
    by (intro exI [of _ "mb\<lparr>bootmem := t\<rparr>"]) (auto simp: memblock_alloc_def)
qed

theorem memblock_alloc_sound_witness:
  "\<exists>mb' p. memblock_alloc low_memory 0x2000 (2 ^ 12) = Some (mb', p) \<and>
    (p \<noteq> 0 \<longrightarrow> 2 ^ 12 dvd unat p \<and> {unat p..<unat p + 0x2000} \<inter> covered (intervals (bootmem mb')) = {})"
  using memblock_alloc_sound [of low_memory "0x2000" 12] by (auto simp: low_memory paged_def)

text \<open>
  An allocation that takes a whole region, or its tail, removes the memory but returns
  \<^verbatim>\<open>NULL\<close>: \<^verbatim>\<open>memblock_del_region\<close> reports the error value, because the start of the
  range is recorded only when the recorded value is 0, which it never is.
\<close>

theorem memblock_alloc_leaks:
  "\<exists>mb'. memblock_alloc low_memory 0x10000 0x1000 = Some (mb', 0) \<and> intervals (bootmem mb') = []"
  by (simp add: memblock_alloc_def memblock_alloc_range_def memblock_find_in_range_def low_memory_def
      MEMBLOCK_START_def MEMBLOCK_LIMIT_def memblock_beg_def memblock_end_def clamp_def round_up_def
      round_down_def round_mask_def memblock_reserve_type_def memblock_del_region_def
      memblock_adjust_region_def PAGE_SIZE_def MEMBLOCK_INVLD_def del_loop.simps region_at_def
      set_region_def move_regions_def intervals_def live_def)

lemma replicate_7: "replicate 7 x = [x, x, x, x, x, x, x]"
  by (simp add: numeral_eq_Suc)

text \<open>
  Adding a range that begins where a region ends leaves two equal entries: the merge writes
  the joined region into both slots and does not lower the count, so the same memory is counted,
  and can be handed out, twice.
\<close>

theorem memblock_add_adjacent_duplicates:
  "map_option (\<lambda>mb. live (bootmem mb)) (memblock_add low_memory 0x20000 0x1000) =
    Some [\<lparr>base = 0x10000, size = 0x11000\<rparr>, \<lparr>base = 0x10000, size = 0x11000\<rparr>]"
  by (simp add: memblock_add_def low_memory_def memblock_add_region_def
      memblock_beg_def memblock_end_def round_up_def round_down_def round_mask_def
      memblock_adjust_region_def PAGE_SIZE_def add_loop.simps region_at_def memblock_insert_region_def
      memblock_fusion_region_def set_region_def move_regions_def live_def replicate_7)

end
