(* ===== verification/E820.thy ===== *)
theory E820
  imports Memblock
begin

text \<open>
  \<^verbatim>\<open>src/arch/x86/memory.c\<close>: the memory map of the BIOS and the start of the boot memory allocator. The
  BIOS call is a parameter: from the continuation value in \<^verbatim>\<open>ebx\<close> it gives the flags, \<^verbatim>\<open>eax\<close>, the
  next \<^verbatim>\<open>ebx\<close> and the entry that it writes.
\<close>

section \<open>State\<close>

record e820_entry =
  addr_32 :: u32
  size_32 :: u32
  etype :: u32

record bios_reply =
  cf :: bool
  r_eax :: u32
  r_ebx :: u32
  r_buf :: e820_entry

definition SMAP :: u32 where "SMAP = 0x534D4150"
definition E820_MAX_ENTRIES :: nat where "E820_MAX_ENTRIES = 8"
definition E820_MEMORY_TYPE_AVAILABLE :: u32 where "E820_MEMORY_TYPE_AVAILABLE = 1"

record boot_memory =
  e820_table :: "e820_entry list"
  memory_lower :: u32
  memory_upper :: u32

section \<open>Operations\<close>

text \<open>The \<open>do ... while\<close> loop; \<open>n\<close> is the number of entries that still fit. A reply without the
  signature resets the count to 0, so the table is taken as empty.\<close>

fun detect_loop :: "(u32 \<Rightarrow> bios_reply) \<Rightarrow> nat \<Rightarrow> u32 \<Rightarrow> e820_entry list \<Rightarrow> e820_entry list" where
  "detect_loop bios 0 ebx acc = acc"
| "detect_loop bios (Suc n) ebx acc =
     (let reply = bios ebx in
      if cf reply then acc
      else if r_eax reply \<noteq> SMAP then []
      else
        let acc = acc @ [r_buf reply]
        in if r_ebx reply \<noteq> 0 then detect_loop bios n (r_ebx reply) acc else acc)"

definition detect_memory_e820 :: "(u32 \<Rightarrow> bios_reply) \<Rightarrow> e820_entry list" where
  "detect_memory_e820 bios = detect_loop bios E820_MAX_ENTRIES 0 []"

fun detect_memory_lower :: "e820_entry list \<Rightarrow> u32" where
  "detect_memory_lower [] = 0"
| "detect_memory_lower (e # es) =
     (if addr_32 e = 0 then (if size_32 e < 0xA0000 then size_32 e else 0xA0000)
      else detect_memory_lower es)"

definition detect_memory_upper :: "e820_entry list \<Rightarrow> u32" where
  "detect_memory_upper es =
     fold (\<lambda>e upper. if addr_32 e \<le> MEMBLOCK_LIMIT \<and> addr_32 e + size_32 e > MEMBLOCK_LIMIT
       then addr_32 e + size_32 e - MEMBLOCK_LIMIT else upper) es 0"

fun e820_memblock_setup :: "e820_entry list \<Rightarrow> memblock \<Rightarrow> memblock option" where
  "e820_memblock_setup [] mb = Some mb"
| "e820_memblock_setup (e # es) mb =
     (if etype e \<noteq> E820_MEMORY_TYPE_AVAILABLE then e820_memblock_setup es mb
      else if addr_32 e + size_32 e \<le> MEMBLOCK_START then e820_memblock_setup es mb
      else
        let b = (if addr_32 e > MEMBLOCK_START then addr_32 e else MEMBLOCK_START);
            s = addr_32 e + size_32 e - b
        in do { mb \<leftarrow> (if addr_32 e \<ge> MEMBLOCK_LIMIT then memblock_add_kernel mb b s
                       else memblock_add mb b s);
                e820_memblock_setup es mb })"

definition detect_memory ::
  "(u32 \<Rightarrow> bios_reply) \<Rightarrow> memblock \<Rightarrow> (errno + boot_memory \<times> memblock) option" where
  "detect_memory bios mb =
     (let es = detect_memory_e820 bios in
      if es = [] then Some (Inl ENOMEM)
      else
        let bm = \<lparr>e820_table = es, memory_lower = detect_memory_lower es div 1024,
                  memory_upper = detect_memory_upper es div 1024\<rparr>
        in map_option (\<lambda>mb. Inr (bm, mb)) (e820_memblock_setup es mb))"

section \<open>Lemmas\<close>

lemma detect_loop_length: "length acc + n \<le> k \<Longrightarrow> length (detect_loop bios n ebx acc) \<le> k"
  by (induction n arbitrary: ebx acc) (auto simp: Let_def)

text \<open>The entries that the BIOS gives from a continuation value on, in order.\<close>

fun bios_map :: "(u32 \<Rightarrow> bios_reply) \<Rightarrow> nat \<Rightarrow> u32 \<Rightarrow> e820_entry list" where
  "bios_map bios 0 ebx = []"
| "bios_map bios (Suc n) ebx =
     r_buf (bios ebx) # (if r_ebx (bios ebx) = 0 then [] else bios_map bios n (r_ebx (bios ebx)))"

lemma detect_loop_map:
  "\<forall>b. \<not> cf (bios b) \<and> r_eax (bios b) = SMAP \<Longrightarrow> detect_loop bios n ebx acc = acc @ bios_map bios n ebx"
  by (induction n arbitrary: ebx acc) (auto simp: Let_def)

section \<open>Properties\<close>

text \<open>
  Whatever the BIOS answers, the memory map never overruns its table of eight entries, the low
  memory is at most 640 KiB, and \<^verbatim>\<open>detect_memory\<close> fails with \<^verbatim>\<open>-ENOMEM\<close> exactly
  when the map is empty.
\<close>

theorem detect_memory_bounded:
  "length (detect_memory_e820 bios) \<le> E820_MAX_ENTRIES \<and>
   detect_memory_lower (detect_memory_e820 bios) \<le> 0xA0000 \<and>
   (detect_memory bios mb = Some (Inl e)) = (e = ENOMEM \<and> detect_memory_e820 bios = [])"
proof -
  have "detect_memory_lower es \<le> 0xA0000" for es
    by (induction es) auto
  moreover have "length (detect_memory_e820 bios) \<le> E820_MAX_ENTRIES"
    unfolding detect_memory_e820_def by (rule detect_loop_length) simp
  ultimately show ?thesis by (auto simp: detect_memory_def Let_def)
qed

end
