(* ===== verification/PageAlloc.thy ===== *)
theory PageAlloc
  imports ListHead Memblock Cmath Cmem
begin

text \<open>
  \<^verbatim>\<open>src/mm/page_alloc.c\<close> and \<^verbatim>\<open>elfboot/page.h\<close>: the buddy allocator of the first
  megabyte. A \<^verbatim>\<open>struct page *\<close> is the index of the page in \<^verbatim>\<open>page_map\<close>; an access outside of the
  map or of the array of free areas is \<open>None\<close>. The free areas are linked lists on the pointer heap
  of \<open>ListHead\<close>; the nodes of the slab allocator live on the same heap.
\<close>

section \<open>State\<close>

text \<open>The caches of the slab allocator: the static one, and those that are objects at an address.\<close>

datatype cache_id = Boot_cache | Cache_at u32

text \<open>Everything in the program that holds a \<^verbatim>\<open>list_head\<close> of the memory management.\<close>

datatype mnode =
    Free_area nat | Page_list nat | Page_freelist nat | Obj u32
  | Slabs_full cache_id | Slabs_partial cache_id | Slabs_free cache_id | Cache_next cache_id | Bmem_caches

record page =
  pflags :: u32
  paddr :: u32
  porder :: nat
  compound_head :: nat
  slab_cache :: "cache_id option"
  inuse :: u32

record mm =
  page_map :: "nat \<Rightarrow> page"
  nr_free :: "nat \<Rightarrow> u32"
  mlinks :: "mnode links"

definition PAGE_SHIFT :: nat where "PAGE_SHIFT = 12"
definition PAGE_MAX_ORDER :: nat where "PAGE_MAX_ORDER = 9"
definition PAGE_FLAG_FREE :: u32 where "PAGE_FLAG_FREE = 1"
definition page_num :: nat where "page_num = 256"
definition PAGE_MAX_ALLOC_SIZE :: u32 where
  "PAGE_MAX_ALLOC_SIZE = push_bit (PAGE_MAX_ORDER - 1) 1 * PAGE_SIZE"

definition upd_page :: "nat \<Rightarrow> (page \<Rightarrow> page) \<Rightarrow> mm \<Rightarrow> mm" where
  "upd_page i f s = s\<lparr>page_map := (page_map s)(i := f (page_map s i))\<rparr>"

definition in_map :: "nat \<Rightarrow> bool" where
  "in_map i \<longleftrightarrow> i < page_num"

definition page_is_free :: "mm \<Rightarrow> nat \<Rightarrow> bool" where
  "page_is_free s i \<longleftrightarrow> pflags (page_map s i) AND PAGE_FLAG_FREE \<noteq> 0"

definition phys_to_pfn :: "u32 \<Rightarrow> u32" where
  "phys_to_pfn a = drop_bit PAGE_SHIFT a"

definition page_to_pfn :: "page \<Rightarrow> u32" where
  "page_to_pfn p = phys_to_pfn (paddr p)"

definition phys_to_page :: "u32 \<Rightarrow> nat" where
  "phys_to_page a = unat (phys_to_pfn a)"

text \<open>\<^verbatim>\<open>page_buddy\<close>: pointer arithmetic from the page itself; a result below the map is \<open>None\<close>.\<close>

definition page_buddy :: "mm \<Rightarrow> nat \<Rightarrow> nat \<Rightarrow> nat option" where
  "page_buddy s i order =
     (let ppfn = page_to_pfn (page_map s i);
          bpfn = phys_to_pfn (paddr (page_map s i) XOR (push_bit order 1 * PAGE_SIZE));
          diff = unat (abs_difference bpfn ppfn)
      in if ppfn < bpfn then (if in_map (i + diff) then Some (i + diff) else None)
         else if diff \<le> i then Some (i - diff) else None)"

definition page_is_aligned :: "u32 \<Rightarrow> nat \<Rightarrow> bool" where
  "page_is_aligned addr order \<longleftrightarrow> addr mod (push_bit order PAGE_SIZE) = 0"

section \<open>Free areas\<close>

definition free_page_add :: "nat \<Rightarrow> nat \<Rightarrow> mm \<Rightarrow> mm option" where
  "free_page_add i order s =
     (if order < PAGE_MAX_ORDER
      then Some (s\<lparr>mlinks := list_add (Page_list i) (Free_area order) (mlinks s),
                   nr_free := (nr_free s)(order := nr_free s order + 1)\<rparr>)
      else None)"

definition free_page_append :: "nat \<Rightarrow> nat \<Rightarrow> mm \<Rightarrow> mm option" where
  "free_page_append i order s =
     (if order < PAGE_MAX_ORDER
      then Some (s\<lparr>mlinks := list_add_tail (Page_list i) (Free_area order) (mlinks s),
                   nr_free := (nr_free s)(order := nr_free s order + 1)\<rparr>)
      else None)"

definition free_page_del :: "nat \<Rightarrow> mm \<Rightarrow> mm option" where
  "free_page_del i s =
     (let order = porder (page_map s i) in
      if order < PAGE_MAX_ORDER
      then Some (s\<lparr>mlinks := list_del (Page_list i) (mlinks s),
                   nr_free := (nr_free s)(order := nr_free s order - 1)\<rparr>)
      else None)"

definition page_of :: "mnode option \<Rightarrow> nat option" where
  "page_of n = (case n of Some (Page_list i) \<Rightarrow> Some i | _ \<Rightarrow> None)"

definition free_area_get_first :: "nat \<Rightarrow> mm \<Rightarrow> nat option" where
  "free_area_get_first order s = page_of (list_first_or_null (Free_area order) (mlinks s))"

section \<open>Allocating\<close>

fun set_heads :: "nat \<Rightarrow> nat \<Rightarrow> nat \<Rightarrow> mm \<Rightarrow> mm option" where
  "set_heads h i 0 s = Some s"
| "set_heads h i (Suc n) s =
     (if in_map i then set_heads h (i + 1) n (upd_page i (\<lambda>p. p\<lparr>compound_head := h\<rparr>) s) else None)"

definition page_set_compound_head :: "nat \<Rightarrow> nat \<Rightarrow> mm \<Rightarrow> mm option" where
  "page_set_compound_head i order s = set_heads i i (2 ^ order) s"

text \<open>The loop of \<^verbatim>\<open>free_page_fix\<close>; \<open>n\<close> is \<open>porder - order\<close>.\<close>

fun fix_loop :: "nat \<Rightarrow> nat \<Rightarrow> nat \<Rightarrow> mm \<Rightarrow> mm option" where
  "fix_loop i order 0 s = Some s"
| "fix_loop i order (Suc n) s =
     do { let porder' = order + n;
          b \<leftarrow> page_buddy s i porder';
          s \<leftarrow> free_page_add b porder'
                (upd_page b (\<lambda>p. p\<lparr>porder := porder', pflags := pflags p OR PAGE_FLAG_FREE\<rparr>) s);
          fix_loop i order n s }"

definition free_page_fix :: "nat \<Rightarrow> nat \<Rightarrow> mm \<Rightarrow> mm option" where
  "free_page_fix i order s = fix_loop i order (porder (page_map s i) - order) s"

text \<open>The \<^verbatim>\<open>for\<close> loop of \<^verbatim>\<open>get_free_pages\<close> over the orders; \<open>n\<close> is how many are left. The page
  is \<open>None\<close> when no area has a block.\<close>

fun find_block :: "nat \<Rightarrow> nat \<Rightarrow> mm \<Rightarrow> (mm \<times> nat option) option" where
  "find_block order 0 s = Some (s, None)"
| "find_block order (Suc n) s =
     (case free_area_get_first (PAGE_MAX_ORDER - Suc n) s of
        None \<Rightarrow> find_block order n s
      | Some i \<Rightarrow> do {
          s \<leftarrow> free_page_del i s;
          s \<leftarrow> free_page_fix i order s;
          Some (upd_page i (\<lambda>p. p\<lparr>pflags := pflags p AND NOT PAGE_FLAG_FREE, porder := order\<rparr>) s, Some i) })"

definition get_free_pages :: "nat \<Rightarrow> mm \<Rightarrow> (mm \<times> nat option) option" where
  "get_free_pages order s =
     do { (s, pg) \<leftarrow> find_block order (PAGE_MAX_ORDER - order) s;
          case pg of None \<Rightarrow> Some (s, None)
          | Some i \<Rightarrow> do {
              s \<leftarrow> page_set_compound_head i order s;
              b \<leftarrow> page_buddy s i order;
              s \<leftarrow> page_set_compound_head b order s;
              Some (s, Some i) } }"

definition alloc_pages :: "nat \<Rightarrow> mm \<Rightarrow> (mm \<times> nat option) option" where
  "alloc_pages order s = get_free_pages order s"

definition alloc_page :: "mm \<Rightarrow> (mm \<times> nat option) option" where
  "alloc_page s = alloc_pages 0 s"

definition get_zeroed_page :: "mem \<Rightarrow> mm \<Rightarrow> (mem \<times> mm \<times> u32) option" where
  "get_zeroed_page m s =
     do { (s, pg) \<leftarrow> alloc_page s;
          case pg of None \<Rightarrow> Some (m, s, 0)
          | Some i \<Rightarrow> let p = paddr (page_map s i) in Some (memset m p 0 PAGE_SIZE, s, p) }"

section \<open>Freeing\<close>

definition merge_pages :: "nat \<Rightarrow> nat \<Rightarrow> mm \<Rightarrow> (mm \<times> nat) option" where
  "merge_pages i b s =
     do { s \<leftarrow> free_page_del i s;
          s \<leftarrow> free_page_del b s;
          let s = upd_page i (\<lambda>p. p\<lparr>porder := porder p + 1\<rparr>) s;
          let s = upd_page b (\<lambda>p. p\<lparr>porder := porder p + 1\<rparr>) s;
          let left = (if paddr (page_map s i) < paddr (page_map s b) then i else b);
          s \<leftarrow> page_set_compound_head left (porder (page_map s left)) s;
          Some (s, left) }"

text \<open>\<open>n\<close> is \<open>PAGE_MAX_ORDER - 1 - order\<close>.\<close>

fun merge_loop :: "nat \<Rightarrow> nat \<Rightarrow> mm \<Rightarrow> mm option" where
  "merge_loop i 0 s = Some s"
| "merge_loop i (Suc n) s =
     do { b \<leftarrow> page_buddy s i (porder (page_map s i));
          if \<not> page_is_free s b then Some s
          else do {
            (s, i) \<leftarrow> merge_pages i b s;
            s \<leftarrow> free_page_add i (porder (page_map s i)) s;
            merge_loop i n s } }"

definition merge_free_page :: "nat \<Rightarrow> mm \<Rightarrow> mm option" where
  "merge_free_page i s = merge_loop i (PAGE_MAX_ORDER - 1 - porder (page_map s i)) s"

definition free_pages :: "nat \<Rightarrow> nat \<Rightarrow> mm \<Rightarrow> mm option" where
  "free_pages i order s =
     do { s \<leftarrow> free_page_add i order s;
          let s = upd_page i (\<lambda>p. p\<lparr>pflags := pflags p OR PAGE_FLAG_FREE\<rparr>) s;
          merge_free_page i s }"

definition free_page :: "u32 \<Rightarrow> mm \<Rightarrow> mm option" where
  "free_page addr s =
     (let i = phys_to_page addr in
      if in_map i then free_pages i (porder (page_map s i)) s else None)"

section \<open>Initialisation\<close>

definition init_page :: "u32 \<Rightarrow> nat \<Rightarrow> nat \<Rightarrow> page \<Rightarrow> page" where
  "init_page pa order head p =
     p\<lparr>pflags := PAGE_FLAG_FREE, paddr := pa, compound_head := head, porder := order, inuse := 0\<rparr>"

text \<open>The loop of \<^verbatim>\<open>compound_page_init\<close> from the \<open>k\<close>-th page on.\<close>

fun compound_loop :: "u32 \<Rightarrow> nat \<Rightarrow> nat \<Rightarrow> nat \<Rightarrow> mm \<Rightarrow> mm option" where
  "compound_loop pa order k 0 s = Some s"
| "compound_loop pa order k (Suc n) s =
     (let a = pa + of_nat k * PAGE_SIZE; i = phys_to_page a in
      if in_map i then
        let s = upd_page i (init_page a order (phys_to_page pa)) s;
            s = s\<lparr>mlinks := list_init (Page_freelist i) (list_init (Page_list i) (mlinks s))\<rparr>
        in compound_loop pa order (k + 1) n s
      else None)"

definition compound_page_init :: "u32 \<Rightarrow> nat \<Rightarrow> mm \<Rightarrow> mm option" where
  "compound_page_init pa order s = compound_loop pa order 0 (2 ^ order) s"

text \<open>\<open>while (!page_is_aligned(addr, order)) order--\<close>, where the order 0 is aligned always.\<close>

fun lower_order :: "u32 \<Rightarrow> nat \<Rightarrow> nat option" where
  "lower_order addr 0 = (if page_is_aligned addr 0 then Some 0 else None)"
| "lower_order addr (Suc n) = (if page_is_aligned addr (Suc n) then Some (Suc n) else lower_order addr n)"

text \<open>The order of the next chunk of a region.\<close>

definition chunk_order :: "u32 \<Rightarrow> u32 \<Rightarrow> nat option" where
  "chunk_order addr rest =
     do { align \<leftarrow> round_down_pow2 rest;
          let align = (if align > PAGE_MAX_ALLOC_SIZE then PAGE_MAX_ALLOC_SIZE else align);
          if log2 align \<ge> int PAGE_SHIFT then lower_order addr (nat (log2 align) - PAGE_SHIFT) else None }"

partial_function (option) free_bootmem_loop :: "u32 \<Rightarrow> u32 \<Rightarrow> mm \<Rightarrow> mm option" where
  "free_bootmem_loop addr rest s =
     (if rest = 0 then Some s
      else do {
        order \<leftarrow> chunk_order addr rest;
        s \<leftarrow> compound_page_init addr order s;
        s \<leftarrow> free_page_append (phys_to_page addr) order s;
        free_bootmem_loop (addr + push_bit order 1 * PAGE_SIZE) (rest - push_bit order 1 * PAGE_SIZE) s })"

fun page_map_free_bootmem :: "memblock_region list \<Rightarrow> mm \<Rightarrow> mm option" where
  "page_map_free_bootmem [] s = Some s"
| "page_map_free_bootmem (r # rs) s =
     (if memblock_end r > MEMBLOCK_LIMIT then Some s
      else do { s \<leftarrow> free_bootmem_loop (base r) (size r) s; page_map_free_bootmem rs s })"

definition init_area :: "nat \<Rightarrow> mm \<Rightarrow> mm" where
  "init_area order s =
     s\<lparr>mlinks := list_init (Free_area order) (mlinks s), nr_free := (nr_free s)(order := 0)\<rparr>"

definition init_areas :: "mm \<Rightarrow> mm" where
  "init_areas s = fold init_area [0..<PAGE_MAX_ORDER] s"

text \<open>\<^verbatim>\<open>page_map_init\<close> takes the array of pages, of \<open>page_size\<close> bytes each, from the boot
  memory; it is not cleared, so its contents are those of \<open>s\<close>.\<close>

definition page_map_init :: "u32 \<Rightarrow> memblock \<Rightarrow> mm \<Rightarrow> (errno + memblock \<times> mm) option" where
  "page_map_init page_size mb s =
     do { (mb, p) \<leftarrow> memblock_alloc mb (of_nat page_num * page_size) PAGE_SIZE;
          if p = 0 then Some (Inl ENOMEM) else Some (Inr (mb, init_areas s)) }"

definition page_alloc_init :: "u32 \<Rightarrow> memblock \<Rightarrow> mm \<Rightarrow> (errno + memblock \<times> mm) option" where
  "page_alloc_init page_size mb s =
     do { r \<leftarrow> page_map_init page_size mb s;
          case r of Inl _ \<Rightarrow> Some (Inl EFAULT)
          | Inr (mb, s) \<Rightarrow> do {
              s \<leftarrow> page_map_free_bootmem (live (bootmem mb)) s;
              Some (Inr (mb, s)) } }"

section \<open>Blocks\<close>

definition blk :: "nat \<Rightarrow> nat \<Rightarrow> nat set" where
  "blk i order = {i..<i + 2 ^ order}"

lemma blk_self [simp]: "i \<in> blk i order"
  by (simp add: blk_def)

lemma xor_pow2_nat:
  "\<not> bit i k \<Longrightarrow> i XOR 2 ^ k = i + (2::nat) ^ k"
  "bit i k \<Longrightarrow> i XOR 2 ^ k = i - (2::nat) ^ k"
proof -
  have *: "j XOR 2 ^ k = j + (2::nat) ^ k" if "\<not> bit j k" for j
    by (rule disjunctive_add_eq_xor [symmetric])
      (rule bit_eqI, use that in \<open>auto simp: bit_simps\<close>)
  show "\<not> bit i k \<Longrightarrow> i XOR 2 ^ k = i + (2::nat) ^ k" by (rule *)
  assume b: "bit i k"
  define j where "j = i XOR (2::nat) ^ k"
  have "\<not> bit j k" using b by (simp add: j_def bit_simps)
  then have "j XOR 2 ^ k = j + 2 ^ k" by (rule *)
  moreover have "j XOR 2 ^ k = i" by (simp add: j_def xor.assoc)
  ultimately show "i XOR 2 ^ k = i - (2::nat) ^ k" unfolding j_def by simp
qed

lemma dvd_not_bit: "2 ^ Suc k dvd i \<Longrightarrow> \<not> bit (i::nat) k"
  by (auto simp: bit_iff_odd elim!: dvdE)

lemma xor_less: "i < 256 \<Longrightarrow> k < 8 \<Longrightarrow> i XOR 2 ^ k < (256::nat)"
proof -
  assume "i < 256" "k < 8"
  then have i: "take_bit 8 i = i" and k: "take_bit 8 ((2::nat) ^ k) = 2 ^ k"
    by (simp_all add: take_bit_nat_eq_self power_strict_increasing_iff [of 2 k 8, simplified])
  have "take_bit 8 (i XOR 2 ^ k) = i XOR 2 ^ k" by (simp only: take_bit_xor i k)
  moreover have "take_bit 8 (i XOR 2 ^ k) < (2::nat) ^ 8" by (rule take_bit_nat_less_exp)
  ultimately show ?thesis by simp
qed

lemma page_buddy_xor:
  assumes p: "paddr (page_map s i) = of_nat (i * 4096)" and i: "i < 256" and k: "k < 8"
  shows "page_buddy s i k = Some (i XOR 2 ^ k)"
proof -
  let ?b = "i XOR (2::nat) ^ k"
  have b: "?b < 256" using i k by (rule xor_less)
  have shl: "of_nat (n * 4096) = push_bit 12 (of_nat n :: u32)" for n
    by (simp add: push_bit_eq_mult mult.commute)
  have low: "drop_bit 12 (push_bit 12 (of_nat n :: u32)) = of_nat n" if "n < 256" for n
  proof (rule bit_word_eqI)
    fix m assume "m < LENGTH(32)"
    have "\<not> bit n m" if "20 \<le> m"
    proof -
      have "(2::nat) ^ 20 \<le> 2 ^ m" using that by (rule power_increasing) simp
      then have "n < 2 ^ m" using \<open>n < 256\<close> by (simp add: less_le_trans [of n 256])
      then show ?thesis by (metis bit_take_bit_iff less_irrefl take_bit_nat_eq_self)
    qed
    then show "bit (drop_bit 12 (push_bit 12 (of_nat n :: u32))) m = bit (of_nat n :: u32) m"
      by (cases "20 \<le> m") (auto simp: bit_simps bit_of_nat_iff)
  qed
  have pp: "page_to_pfn (page_map s i) = of_nat i"
    unfolding page_to_pfn_def phys_to_pfn_def PAGE_SHIFT_def p shl by (rule low [OF i])
  have two: "push_bit k 1 * PAGE_SIZE = push_bit 12 (of_nat (2 ^ k) :: u32)"
    by (simp add: PAGE_SIZE_def push_bit_eq_mult)
  have "phys_to_pfn (paddr (page_map s i) XOR (push_bit k 1 * PAGE_SIZE)) =
      drop_bit 12 (push_bit 12 (of_nat i XOR of_nat (2 ^ k) :: u32))"
    unfolding phys_to_pfn_def PAGE_SHIFT_def p shl two by (simp only: push_bit_xor)
  also have "(of_nat i XOR of_nat (2 ^ k) :: u32) = of_nat ?b"
    by (rule of_nat_xor_eq [symmetric])
  finally have bp: "phys_to_pfn (paddr (page_map s i) XOR (push_bit k 1 * PAGE_SIZE)) = of_nat ?b"
    by (simp only: low [OF b])
  have u: "unat (of_nat n :: u32) = n" if "n < 256" for n
    by (rule unat_of_nat32) (use that in simp)
  show ?thesis
    unfolding page_buddy_def pp bp Let_def
    using i b by (auto simp: abs_difference_def word_less_nat_alt u unat_minus_le word_le_nat_alt
        in_map_def page_num_def)
qed

section \<open>The invariant\<close>

text \<open>
  \<open>A order\<close> is the list of the heads of the free blocks of an order. \<open>F\<close> is the family of all
  lists on the heap, those of the slab allocator among them.
\<close>

definition free_set :: "(nat \<Rightarrow> nat list) \<Rightarrow> nat set" where
  "free_set A = (\<Union>k<PAGE_MAX_ORDER. \<Union>i \<in> set (A k). blk i k)"

definition good_block :: "mm \<Rightarrow> nat \<Rightarrow> nat \<Rightarrow> bool" where
  "good_block s i k \<longleftrightarrow> 2 ^ k dvd i \<and> 0 < i \<and> i + 2 ^ k \<le> 256 \<and>
     (\<forall>j \<in> blk i k. paddr (page_map s j) = of_nat (j * 4096))"

definition free_head :: "mm \<Rightarrow> nat \<Rightarrow> nat \<Rightarrow> bool" where
  "free_head s i k \<longleftrightarrow> porder (page_map s i) = k \<and> page_is_free s i"

definition linked_only :: "mnode family \<Rightarrow> nat \<Rightarrow> nat \<Rightarrow> bool" where
  "linked_only F i k \<longleftrightarrow> (\<forall>j \<in> blk i k. Page_list j \<in> nodes F \<longrightarrow> j = i)"

definition disjoint_blocks :: "(nat \<Rightarrow> nat list) \<Rightarrow> bool" where
  "disjoint_blocks A \<longleftrightarrow>
     (\<forall>k<PAGE_MAX_ORDER. \<forall>l<PAGE_MAX_ORDER. \<forall>i \<in> set (A k). \<forall>j \<in> set (A l).
        (i, k) \<noteq> (j, l) \<longrightarrow> blk i k \<inter> blk j l = {})"

definition wf_mm :: "mm \<Rightarrow> mnode family \<Rightarrow> (nat \<Rightarrow> nat list) \<Rightarrow> bool" where
  "wf_mm s F A \<longleftrightarrow> wf_lists (mlinks s) F \<and> disjoint_blocks A \<and>
     (\<forall>k<PAGE_MAX_ORDER. F (Free_area k) = Some (map Page_list (A k)) \<and>
        nr_free s k = of_nat (length (A k)) \<and>
        (\<forall>i \<in> set (A k). good_block s i k \<and> free_head s i k \<and> linked_only F i k))"

text \<open>A block that is on no list: the page of its head is free for a new use.\<close>

definition owned :: "mm \<Rightarrow> mnode family \<Rightarrow> (nat \<Rightarrow> nat list) \<Rightarrow> nat \<Rightarrow> nat \<Rightarrow> bool" where
  "owned s F A i k \<longleftrightarrow> good_block s i k \<and> blk i k \<inter> free_set A = {} \<and>
     (\<forall>j \<in> blk i k. Page_list j \<notin> nodes F)"

lemma good_block_order: "good_block s i k \<Longrightarrow> k < 8"
proof (rule ccontr)
  assume g: "good_block s i k" and "\<not> k < 8"
  then have "(2::nat) ^ 8 \<le> 2 ^ k" by (intro power_increasing) simp_all
  then have "256 \<le> (2::nat) ^ k" by simp
  with g show False by (simp add: good_block_def)
qed

lemma block_parts:
  assumes "2 ^ Suc k dvd i"
  shows "blk i (Suc k) = blk i k \<union> blk (i + 2 ^ k) k" and "blk i k \<inter> blk (i + 2 ^ k) k = {}"
    and "2 ^ k dvd i" and "2 ^ k dvd i + 2 ^ k"
  using assms by (auto simp: blk_def dest: dvd_trans [of "2 ^ k" "2 ^ Suc k" i, simplified])

lemma mem_free_set:
  "x \<in> free_set A \<longleftrightarrow> (\<exists>k i. k < PAGE_MAX_ORDER \<and> i \<in> set (A k) \<and> x \<in> blk i k)"
  by (auto simp: free_set_def)

lemma free_set_upd:
  assumes "k < PAGE_MAX_ORDER" and "set as = insert i (set (A k))"
  shows "free_set (A(k := as)) = free_set A \<union> blk i k"
proof (rule set_eqI)
  fix x
  show "x \<in> free_set (A(k := as)) \<longleftrightarrow> x \<in> free_set A \<union> blk i k"
    unfolding Un_iff mem_free_set using assms by (metis fun_upd_apply insert_iff)
qed

lemma free_set_pop:
  assumes d: "disjoint_blocks A" and k: "k < PAGE_MAX_ORDER" and i: "set (A k) = insert i (set is)" and ni: "i \<notin> set is"
  shows "free_set (A(k := is)) = free_set A - blk i k"
proof
  show "free_set (A(k := is)) \<subseteq> free_set A - blk i k"
  proof
    fix x assume "x \<in> free_set (A(k := is))"
    then obtain l j where l: "l < PAGE_MAX_ORDER" "j \<in> set ((A(k := is)) l)" "x \<in> blk j l"
      by (auto simp: free_set_def)
    have j: "j \<in> set (A l)" using l(2) i by (auto split: if_splits)
    have "(i, k) \<noteq> (j, l)" using l(2) ni by (auto split: if_splits)
    moreover have "i \<in> set (A k)" using i by simp
    ultimately have "blk i k \<inter> blk j l = {}"
      using d k l(1) j unfolding disjoint_blocks_def by blast
    then show "x \<in> free_set A - blk i k" using l j by (auto simp: free_set_def)
  qed
  show "free_set A - blk i k \<subseteq> free_set (A(k := is))"
  proof
    fix x assume "x \<in> free_set A - blk i k"
    then obtain l j where "l < PAGE_MAX_ORDER" "j \<in> set (A l)" "x \<in> blk j l" "x \<notin> blk i k"
      by (auto simp: mem_free_set)
    then show "x \<in> free_set (A(k := is))"
      unfolding mem_free_set using i by (intro exI [of _ l] exI [of _ j]) (auto split: if_splits)
  qed
qed

lemma upd_page_simps [simp]:
  "mlinks (upd_page i f s) = mlinks s" "nr_free (upd_page i f s) = nr_free s"
  "page_map (upd_page i f s) = (page_map s)(i := f (page_map s i))"
  by (simp_all add: upd_page_def)

text \<open>Changes to pages outside of the free blocks do not matter.\<close>

lemma wf_mm_pages:
  assumes "wf_mm s F A" and "mlinks s' = mlinks s" and "nr_free s' = nr_free s"
    and "\<And>j. paddr (page_map s' j) = paddr (page_map s j)"
    and "\<And>k j. k < PAGE_MAX_ORDER \<Longrightarrow> j \<in> set (A k) \<Longrightarrow>
      porder (page_map s' j) = porder (page_map s j) \<and> pflags (page_map s' j) = pflags (page_map s j)"
  shows "wf_mm s' F A"
  using assms unfolding wf_mm_def good_block_def free_head_def page_is_free_def by auto

lemma head_in_free_set: "k < PAGE_MAX_ORDER \<Longrightarrow> j \<in> set (A k) \<Longrightarrow> j \<in> free_set A"
  unfolding free_set_def using blk_self by blast

text \<open>Adding an owned block to its area, at either end.\<close>

lemma wf_mm_add:
  assumes wf: "wf_mm s F A" and own: "owned s F A i k" and h: "free_head s i k"
  shows "\<exists>s' F'. free_page_add i k s = Some s' \<and> wf_mm s' F' (A(k := i # A k)) \<and> page_map s' = page_map s \<and>
    F' = F(Free_area k \<mapsto> map Page_list (i # A k))"
    and "\<exists>s' F'. free_page_append i k s = Some s' \<and> wf_mm s' F' (A(k := A k @ [i])) \<and> page_map s' = page_map s \<and>
    F' = F(Free_area k \<mapsto> map Page_list (A k @ [i]))"
proof -
  have g: "good_block s i k" using own by (simp add: owned_def)
  have k: "k < PAGE_MAX_ORDER" using good_block_order [OF g] by (simp add: PAGE_MAX_ORDER_def)
  have Fk: "F (Free_area k) = Some (map Page_list (A k))" using wf k by (simp add: wf_mm_def)
  have l: "wf_lists (mlinks s) F" using wf by (simp add: wf_mm_def)
  have n: "Page_list i \<notin> nodes F" using own by (simp add: owned_def)
  have main: "wf_mm (s\<lparr>mlinks := h', nr_free := (nr_free s)(k := nr_free s k + 1)\<rparr>)
      (F(Free_area k \<mapsto> map Page_list as)) (A(k := as))"
    if h': "wf_lists h' (F(Free_area k \<mapsto> map Page_list as))" and as: "set as = insert i (set (A k))"
      "length as = Suc (length (A k))" for h' as
  proof -
    have nodes: "nodes (F(Free_area k \<mapsto> map Page_list as)) = insert (Page_list i) (nodes F)"
    proof -
      have "set (map Page_list (A k)) \<subseteq> nodes F" using nodes_mem [of F "Free_area k", OF Fk] by simp
      then show ?thesis unfolding nodes_upd [OF l Fk] using as(1) by auto
    qed
    have dis: "blk i k \<inter> blk j m = {}" if "m < PAGE_MAX_ORDER" "j \<in> set (A m)" for j m
      using own that unfolding owned_def free_set_def by blast
    have "disjoint_blocks (A(k := as))"
      using wf dis as(1) unfolding wf_mm_def disjoint_blocks_def
      by (auto split: if_splits)
    moreover have "linked_only (F(Free_area k \<mapsto> map Page_list as)) j m"
      if "m < PAGE_MAX_ORDER" "j \<in> set ((A(k := as)) m)" for j m
    proof (cases "j \<in> set (A m)")
      case True
      have "linked_only F j m" using wf that(1) True by (auto simp: wf_mm_def)
      moreover have "i \<notin> blk j m" using dis [OF that(1) True] blk_self by blast
      ultimately show ?thesis by (auto simp: linked_only_def nodes)
    next
      case False
      then have "j = i" "m = k" using that(2) as(1) by (auto split: if_splits)
      then show ?thesis using own by (auto simp: linked_only_def owned_def nodes)
    qed
    moreover have "good_block s j m \<and> free_head s j m" if "m < PAGE_MAX_ORDER" "j \<in> set ((A(k := as)) m)" for j m
      using wf g h that as(1) by (auto simp: wf_mm_def split: if_splits)
    ultimately show ?thesis
      using wf h' as(2) unfolding wf_mm_def good_block_def free_head_def page_is_free_def by auto
  qed
  show "\<exists>s' F'. free_page_add i k s = Some s' \<and> wf_mm s' F' (A(k := i # A k)) \<and> page_map s' = page_map s \<and>
    F' = F(Free_area k \<mapsto> map Page_list (i # A k))"
    using main [of "list_add (Page_list i) (Free_area k) (mlinks s)" "i # A k"] lh.add_law [OF l Fk n] k
    by (simp add: free_page_add_def)
  show "\<exists>s' F'. free_page_append i k s = Some s' \<and> wf_mm s' F' (A(k := A k @ [i])) \<and> page_map s' = page_map s \<and>
    F' = F(Free_area k \<mapsto> map Page_list (A k @ [i]))"
    using main [of "list_add_tail (Page_list i) (Free_area k) (mlinks s)" "A k @ [i]"]
      lh.add_tail_law [OF l Fk n] k
    by (simp add: free_page_append_def)
qed

section \<open>Splitting and allocating\<close>

lemma free_flag_set: "page_is_free s i" if "pflags (page_map s i) = x OR PAGE_FLAG_FREE"
proof -
  have "(x OR 1) AND 1 = (1 :: u32)" by (rule bit_word_eqI) (auto simp: bit_simps)
  then show ?thesis using that by (simp add: page_is_free_def PAGE_FLAG_FREE_def)
qed

text \<open>What an operation leaves alone: the lists that are not free areas, the addresses of the pages,
  and the pages outside of a set.\<close>

definition keeps :: "nat set \<Rightarrow> mm \<Rightarrow> mnode family \<Rightarrow> mm \<Rightarrow> mnode family \<Rightarrow> bool" where
  "keeps X s F s' F' \<longleftrightarrow>
     (\<forall>l. (\<forall>k. l \<noteq> Free_area k) \<longrightarrow> F' l = F l) \<and>
     (\<forall>j. paddr (page_map s' j) = paddr (page_map s j)) \<and>
     (\<forall>j. slab_cache (page_map s' j) = slab_cache (page_map s j) \<and> inuse (page_map s' j) = inuse (page_map s j)) \<and>
     (\<forall>j. j \<notin> X \<longrightarrow> porder (page_map s' j) = porder (page_map s j) \<and>
        pflags (page_map s' j) = pflags (page_map s j))"

lemma keeps_refl [simp]: "keeps X s F s F"
  by (simp add: keeps_def)

lemma keeps_trans: "keeps X s F s' F' \<Longrightarrow> keeps Y s' F' s'' F'' \<Longrightarrow> X \<union> Y \<subseteq> Z \<Longrightarrow> keeps Z s F s'' F''"
  unfolding keeps_def by (metis (no_types, lifting) Un_iff subset_iff)

lemma keeps_good: "keeps X s F s' F' \<Longrightarrow> good_block s' i k = good_block s i k"
  by (simp add: keeps_def good_block_def)

lemma fix_loop_wf:
  assumes "wf_mm s F A" and "owned s F A i (order + n)"
  shows "\<exists>s' F' A'. fix_loop i order n s = Some s' \<and> wf_mm s' F' A' \<and> owned s' F' A' i order \<and>
    free_set A' = free_set A \<union> (blk i (order + n) - blk i order) \<and>
    keeps (blk i (order + n) - blk i order) s F s' F'"
  using assms
proof (induction n arbitrary: s F A)
  case 0
  then show ?case by (intro exI [of _ s] exI [of _ F] exI [of _ A]) simp
next
  case (Suc n)
  let ?k = "order + n"
  let ?b = "i + 2 ^ ?k"
  have own: "owned s F A i (Suc ?k)" using Suc.prems(2) by simp
  then have g: "good_block s i (Suc ?k)" by (simp add: owned_def)
  have d: "2 ^ Suc ?k dvd i" using g by (simp add: good_block_def)
  note parts = block_parts [OF d]
  have k: "?k < 8" using good_block_order [OF g] by simp
  have "(0::nat) < 2 ^ Suc ?k" by simp
  then have i: "i < 256" using g unfolding good_block_def by linarith
  have "page_buddy s i ?k = Some (i XOR 2 ^ ?k)"
    by (rule page_buddy_xor [OF _ i k]) (use g in \<open>simp add: good_block_def\<close>)
  then have b: "page_buddy s i ?k = Some ?b" using xor_pow2_nat(1) [OF dvd_not_bit [OF d]] by simp
  let ?f = "\<lambda>p. p\<lparr>porder := ?k, pflags := pflags p OR PAGE_FLAG_FREE\<rparr>"
  let ?s = "upd_page ?b ?f s"
  have notin: "?b \<notin> free_set A" using own parts(1) blk_self [of ?b ?k] by (auto simp: owned_def)
  have wf1: "wf_mm ?s F A"
    by (rule wf_mm_pages [OF Suc.prems(1)]) (use notin head_in_free_set in auto)
  have gb: "good_block s ?b ?k" "good_block s i ?k"
    using g parts by (auto simp: good_block_def)
  have own_b: "owned ?s F A ?b ?k"
    using own gb(1) parts(1) by (auto simp: owned_def good_block_def)
  have free: "free_head ?s ?b ?k"
    by (simp add: free_head_def free_flag_set)
  obtain s2 where s2: "free_page_add ?b ?k ?s = Some s2" "page_map s2 = page_map ?s"
    "wf_mm s2 (F(Free_area ?k \<mapsto> map Page_list (?b # A ?k))) (A(?k := ?b # A ?k))"
    using wf_mm_add(1) [OF wf1 own_b free] by blast
  let ?F2 = "F(Free_area ?k \<mapsto> map Page_list (?b # A ?k))" and ?A2 = "A(?k := ?b # A ?k)"
  have fs2: "free_set ?A2 = free_set A \<union> blk ?b ?k"
    by (rule free_set_upd) (use k in \<open>simp_all add: PAGE_MAX_ORDER_def\<close>)
  have l: "wf_lists (mlinks s) F" and Fk: "F (Free_area ?k) = Some (map Page_list (A ?k))"
    using Suc.prems(1) k by (auto simp: wf_mm_def PAGE_MAX_ORDER_def)
  have nodes: "nodes ?F2 \<subseteq> insert (Page_list ?b) (nodes F)"
    using nodes_mem [of F "Free_area ?k", OF Fk] unfolding nodes_upd [OF l Fk] by auto
  have bnot: "?b \<notin> blk i ?k" by (simp add: blk_def)
  have own2: "owned s2 ?F2 ?A2 i ?k"
    using own gb(2) parts(1,2) nodes bnot unfolding owned_def fs2
    by (auto simp: s2(2) good_block_def)
  from Suc.IH [OF s2(3) own2] obtain s' F' A' where
    IH: "fix_loop i order n s2 = Some s'" "wf_mm s' F' A'" "owned s' F' A' i order"
      "free_set A' = free_set ?A2 \<union> (blk i ?k - blk i order)" "keeps (blk i ?k - blk i order) s2 ?F2 s' F'"
    by blast
  have step: "fix_loop i order (Suc n) s = Some s'" using b s2(1) IH(1) by simp
  have sub: "blk i order \<subseteq> blk i ?k" by (auto simp: blk_def intro: less_le_trans)
  have "keeps (blk ?b ?k) s F s2 ?F2"
    using blk_self [of ?b ?k] by (auto simp: keeps_def s2(2))
  then have "keeps (blk i (Suc ?k) - blk i order) s F s' F'"
    using parts sub by (intro keeps_trans [OF _ IH(5)]) auto
  moreover have "free_set A' = free_set A \<union> (blk i (Suc ?k) - blk i order)"
    using IH(4) fs2 parts sub by auto
  ultimately show ?case using step IH(2,3) by auto
qed

lemma del_block:
  assumes wf: "wf_mm s F A" and k: "k < PAGE_MAX_ORDER" and A: "A k = us @ i # vs"
  shows "\<exists>s'. free_page_del i s = Some s' \<and> wf_mm s' (F(Free_area k \<mapsto> map Page_list (us @ vs))) (A(k := us @ vs)) \<and>
      owned s' (F(Free_area k \<mapsto> map Page_list (us @ vs))) (A(k := us @ vs)) i k \<and> page_map s' = page_map s"
    and "free_set (A(k := us @ vs)) = free_set A - blk i k" and "blk i k \<subseteq> free_set A"
    and "nodes (F(Free_area k \<mapsto> map Page_list (us @ vs))) \<subseteq> nodes F"
proof -
  let ?F = "F(Free_area k \<mapsto> map Page_list (us @ vs))" and ?A = "A(k := us @ vs)"
  have l: "wf_lists (mlinks s) F"
    and Fk: "F (Free_area k) = Some (map Page_list us @ Page_list i # map Page_list vs)"
    using wf k A by (auto simp: wf_mm_def)
  have del: "wf_lists (list_del (Page_list i) (mlinks s)) ?F" "Page_list i \<notin> nodes ?F"
    using lh.del_law [of "mlinks s" F, OF l Fk] lh.fresh_law [of "mlinks s" F, OF l Fk] by simp_all
  have "distinct (Free_area k # map Page_list us @ Page_list i # map Page_list vs)"
    using wf_ring [of _ F, OF l Fk] by (simp add: ring_def)
  then have ni: "i \<notin> set (us @ vs)" by auto
  have ik: "i \<in> set (A k)" using A by simp
  show fs: "free_set ?A = free_set A - blk i k"
    by (rule free_set_pop) (use wf k A ni in \<open>auto simp: wf_mm_def\<close>)
  show sub: "blk i k \<subseteq> free_set A" using k ik unfolding mem_free_set subset_iff by blast
  have g: "good_block s i k" "free_head s i k" "linked_only F i k" using wf k ik by (auto simp: wf_mm_def)
  show nodes: "nodes ?F \<subseteq> nodes F"
    using nodes_mem [of F "Free_area k", OF Fk] unfolding nodes_upd [of _ F, OF l Fk] by auto
  define s' where "s' = s\<lparr>mlinks := list_del (Page_list i) (mlinks s), nr_free := (nr_free s)(k := nr_free s k - 1)\<rparr>"
  have fd: "free_page_del i s = Some s'"
    using g(2) k by (simp add: free_page_del_def s'_def free_head_def Let_def)
  have "disjoint_blocks ?A"
    using wf A unfolding wf_mm_def disjoint_blocks_def by (auto split: if_splits)
  moreover have "good_block s j m \<and> free_head s j m \<and> linked_only ?F j m"
    if "m < PAGE_MAX_ORDER" "j \<in> set (?A m)" for j m
  proof -
    have "j \<in> set (A m)" using that(2) A by (auto split: if_splits)
    then show ?thesis using wf that(1) nodes by (auto simp: wf_mm_def linked_only_def)
  qed
  moreover have "nr_free s k - 1 = of_nat (length (us @ vs))" using wf k A by (auto simp: wf_mm_def)
  ultimately have "wf_mm s' ?F ?A"
    using wf del(1) unfolding wf_mm_def s'_def good_block_def free_head_def page_is_free_def by auto
  moreover have "owned s' ?F ?A i k"
    using g(1,3) fs nodes del(2) unfolding owned_def linked_only_def s'_def good_block_def by auto
  ultimately show "\<exists>s'. free_page_del i s = Some s' \<and> wf_mm s' ?F ?A \<and> owned s' ?F ?A i k \<and> page_map s' = page_map s"
    using fd by (intro exI [of _ s']) (simp add: s'_def)
qed

lemma first_block:
  assumes "wf_mm s F A" and "k < PAGE_MAX_ORDER" and "A k = i # is"
  shows "free_area_get_first k s = Some i"
proof -
  have "wf_lists (mlinks s) F" "F (Free_area k) = Some (Page_list i # map Page_list is)"
    using assms by (auto simp: wf_mm_def)
  then have "list_first_or_null (Free_area k) (mlinks s) = Some (Page_list i)"
    using lh.pop_law(1) [of "mlinks s" F "Free_area k"] by blast
  then show ?thesis by (simp add: free_area_get_first_def page_of_def)
qed

lemmas pop_block = first_block del_block [where us = "[]", simplified]

lemma no_first:
  assumes "wf_mm s F A" and "k < PAGE_MAX_ORDER" and "A k = []"
  shows "free_area_get_first k s = None"
proof -
  have "wf_lists (mlinks s) F" "F (Free_area k) = Some []" using assms by (auto simp: wf_mm_def)
  then have "list_first_or_null (Free_area k) (mlinks s) = None"
    using lh.first_law [of "mlinks s" F "Free_area k" "[]"] by simp
  then show ?thesis by (simp add: free_area_get_first_def page_of_def)
qed

lemma find_block_wf:
  assumes wf: "wf_mm s F A" and "n \<le> PAGE_MAX_ORDER" and "order \<le> PAGE_MAX_ORDER - n"
  shows "\<exists>s' r. find_block order n s = Some (s', r) \<and>
    (case r of
       None \<Rightarrow> s' = s \<and> (\<forall>k. PAGE_MAX_ORDER - n \<le> k \<and> k < PAGE_MAX_ORDER \<longrightarrow> A k = [])
     | Some i \<Rightarrow> \<exists>F' A'. wf_mm s' F' A' \<and> owned s' F' A' i order \<and> blk i order \<subseteq> free_set A \<and>
         free_set A' = free_set A - blk i order \<and> keeps (free_set A) s F s' F' \<and>
         porder (page_map s' i) = order \<and> \<not> page_is_free s' i)"
  using assms(2,3)
proof (induction n)
  case 0
  then show ?case by auto
next
  case (Suc n)
  let ?k = "PAGE_MAX_ORDER - Suc n"
  have k: "?k < PAGE_MAX_ORDER" using Suc.prems by simp
  show ?case
  proof (cases "A ?k")
    case Nil
    have "find_block order (Suc n) s = find_block order n s"
      by (simp only: find_block.simps no_first [OF wf k Nil] option.case)
    moreover have "\<forall>k. PAGE_MAX_ORDER - n \<le> k \<and> k < PAGE_MAX_ORDER \<longrightarrow> A k = [] \<Longrightarrow>
        \<forall>k. ?k \<le> k \<and> k < PAGE_MAX_ORDER \<longrightarrow> A k = []"
      using Nil Suc.prems by (metis Suc_diff_Suc Suc_le_eq le_neq_implies_less le_antisym Suc_leI)
    moreover obtain s' r where "find_block order n s = Some (s', r)" "case r of
       None \<Rightarrow> s' = s \<and> (\<forall>k. PAGE_MAX_ORDER - n \<le> k \<and> k < PAGE_MAX_ORDER \<longrightarrow> A k = [])
     | Some i \<Rightarrow> \<exists>F' A'. wf_mm s' F' A' \<and> owned s' F' A' i order \<and> blk i order \<subseteq> free_set A \<and>
         free_set A' = free_set A - blk i order \<and> keeps (free_set A) s F s' F' \<and>
         porder (page_map s' i) = order \<and> \<not> page_is_free s' i"
    proof -
      have "n \<le> PAGE_MAX_ORDER" "order \<le> PAGE_MAX_ORDER - n" using Suc.prems by linarith+
      from Suc.IH [OF this] that show ?thesis by blast
    qed
    ultimately show ?thesis by (cases r) auto
  next
    case (Cons i "is")
    note pop = pop_block [of s F A, OF wf k Cons]
    obtain s1 where s1: "free_page_del i s = Some s1"
      "wf_mm s1 (F(Free_area ?k \<mapsto> map Page_list is)) (A(?k := is))"
      "owned s1 (F(Free_area ?k \<mapsto> map Page_list is)) (A(?k := is)) i ?k" "page_map s1 = page_map s"
      using pop(2) by blast
    have "i \<in> set (A ?k)" using Cons by simp
    then have po: "porder (page_map s1 i) = ?k"
      using wf k s1(4) by (auto simp: wf_mm_def free_head_def)
    have ok: "order + (?k - order) = ?k" using Suc.prems by simp
    obtain s2 F2 A2 where s2: "fix_loop i order (?k - order) s1 = Some s2" "wf_mm s2 F2 A2" "owned s2 F2 A2 i order"
      "free_set A2 = free_set (A(?k := is)) \<union> (blk i ?k - blk i order)"
      "keeps (blk i ?k - blk i order) s1 (F(Free_area ?k \<mapsto> map Page_list is)) s2 F2"
      using fix_loop_wf [of s1 "F(Free_area ?k \<mapsto> map Page_list is)" "A(?k := is)" i order "?k - order"]
        s1(2,3) unfolding ok by blast
    let ?f = "\<lambda>p. p\<lparr>pflags := pflags p AND NOT PAGE_FLAG_FREE, porder := order\<rparr>"
    let ?s = "upd_page i ?f s2"
    have ni: "i \<notin> free_set A2" using s2(3) blk_self [of i order] unfolding owned_def by blast
    have wf': "wf_mm ?s F2 A2"
      by (rule wf_mm_pages [OF s2(2)]) (use ni head_in_free_set in auto)
    have sub: "blk i order \<subseteq> blk i ?k" using Suc.prems by (auto simp: blk_def intro: less_le_trans)
    have "free_set A2 = free_set A - blk i order"
      using s2(4) pop(3,4) sub by auto
    moreover have "owned ?s F2 A2 i order" using s2(3) by (auto simp: owned_def good_block_def)
    moreover have "keeps (free_set A) s F ?s F2"
    proof -
      have "i \<in> free_set A" using pop(4) blk_self by blast
      moreover have "keeps {} s F s1 (F(Free_area ?k \<mapsto> map Page_list is))" by (simp add: keeps_def s1(4))
      then have "keeps (blk i ?k - blk i order) s F s2 F2" by (rule keeps_trans [OF _ s2(5)]) simp
      ultimately show ?thesis using pop(4) by (auto simp: keeps_def)
    qed
    moreover have "\<not> page_is_free ?s i"
      by (simp add: page_is_free_def and.assoc)
    moreover have "find_block order (Suc n) s = Some (?s, Some i)"
      using s1(1) s2(1) po by (simp add: pop(1) free_page_fix_def)
    moreover have "blk i order \<subseteq> free_set A" using pop(4) sub by blast
    moreover have "porder (page_map ?s i) = order" by simp
    ultimately have "\<exists>F' A'. wf_mm ?s F' A' \<and> owned ?s F' A' i order \<and> blk i order \<subseteq> free_set A \<and>
         free_set A' = free_set A - blk i order \<and> keeps (free_set A) s F ?s F' \<and>
         porder (page_map ?s i) = order \<and> \<not> page_is_free ?s i"
      using wf' by blast
    with \<open>find_block order (Suc n) s = Some (?s, Some i)\<close> show ?thesis
      by (intro exI [of _ ?s] exI [of _ "Some i"]) (simp only: option.case simp_thms)
  qed
qed

lemma set_heads_wf:
  assumes "wf_mm s F A" and "i + n \<le> 256"
  shows "\<exists>s'. set_heads h i n s = Some s' \<and> wf_mm s' F A \<and> mlinks s' = mlinks s \<and> nr_free s' = nr_free s \<and>
    (\<forall>j. page_map s' j = (if i \<le> j \<and> j < i + n then (page_map s j)\<lparr>compound_head := h\<rparr> else page_map s j))"
  using assms
proof (induction n arbitrary: i s)
  case 0
  then show ?case by auto
next
  case (Suc n)
  let ?s = "upd_page i (\<lambda>p. p\<lparr>compound_head := h\<rparr>) s"
  have "wf_mm ?s F A" by (rule wf_mm_pages [OF Suc.prems(1)]) auto
  moreover have "i + 1 + n \<le> 256" using Suc.prems(2) by simp
  ultimately obtain s' where "set_heads h (i + 1) n ?s = Some s'" "wf_mm s' F A"
    "mlinks s' = mlinks ?s" "nr_free s' = nr_free ?s"
    "\<forall>j. page_map s' j = (if i + 1 \<le> j \<and> j < i + 1 + n then (page_map ?s j)\<lparr>compound_head := h\<rparr> else page_map ?s j)"
    using Suc.IH [of ?s "i + 1"] by blast
  moreover have "in_map i" using Suc.prems(2) by (simp add: in_map_def page_num_def)
  ultimately show ?case by (intro exI [of _ s']) auto
qed

lemma heads_wf:
  assumes "wf_mm s F A" and "i + 2 ^ k \<le> 256"
  shows "\<exists>s'. page_set_compound_head i k s = Some s' \<and> wf_mm s' F A \<and> mlinks s' = mlinks s \<and>
    (\<forall>j. page_map s' j = (if j \<in> blk i k then (page_map s j)\<lparr>compound_head := i\<rparr> else page_map s j))"
  using set_heads_wf [OF assms, of i] unfolding page_set_compound_head_def blk_def by auto

lemma buddy_range:
  assumes "2 ^ k dvd i" and "i + 2 ^ k \<le> 256" and "k < 8"
  shows "(i XOR 2 ^ k) + 2 ^ k \<le> (256::nat)" and "2 ^ k dvd i XOR (2::nat) ^ k"
    and "blk i k \<union> blk (i XOR 2 ^ k) k = blk (min i (i XOR 2 ^ k)) (Suc k)"
    and "blk i k \<inter> blk (i XOR 2 ^ k) k = {}" and "2 ^ Suc k dvd min i (i XOR 2 ^ k)"
proof -
  obtain c where c: "i = 2 ^ k * c" using assms(1) by blast
  have p: "(256::nat) = 2 ^ k * 2 ^ (8 - k)" using assms(3) by (simp flip: power_add)
  have bit: "bit i k \<longleftrightarrow> odd c" by (simp add: c bit_iff_odd)
  have "c + 1 \<le> 2 ^ (8 - k)"
  proof -
    have "2 ^ k * (c + 1) \<le> 2 ^ k * 2 ^ (8 - k)" using assms(2) unfolding c p by simp
    then show ?thesis unfolding mult_le_cancel1 by simp
  qed
  show "(i XOR 2 ^ k) + 2 ^ k \<le> (256::nat)" and "2 ^ k dvd i XOR (2::nat) ^ k"
    and "blk i k \<union> blk (i XOR 2 ^ k) k = blk (min i (i XOR 2 ^ k)) (Suc k)"
    and "blk i k \<inter> blk (i XOR 2 ^ k) k = {}" and "2 ^ Suc k dvd min i (i XOR 2 ^ k)"
  proof -
    consider (even) d where "c = 2 * d" | (odd) d where "c = 2 * d + 1" by (metis oddE evenE)
    then have "(i XOR 2 ^ k) + 2 ^ k \<le> (256::nat) \<and> 2 ^ k dvd i XOR (2::nat) ^ k \<and>
      blk i k \<union> blk (i XOR 2 ^ k) k = blk (min i (i XOR 2 ^ k)) (Suc k) \<and>
      blk i k \<inter> blk (i XOR 2 ^ k) k = {} \<and> 2 ^ Suc k dvd min i (i XOR 2 ^ k)"
    proof cases
      case even
      then have x: "i XOR 2 ^ k = i + 2 ^ k" using bit xor_pow2_nat(1) by simp
      have "c + 2 \<le> 2 ^ (8 - k)"
      proof -
        have "even ((2::nat) ^ (8 - k))" using assms(3) by simp
        then obtain e where "(2::nat) ^ (8 - k) = 2 * e" by blast
        then show ?thesis using \<open>c + 1 \<le> 2 ^ (8 - k)\<close> even by presburger
      qed
      then have "2 ^ k * (c + 2) \<le> 2 ^ k * 2 ^ (8 - k)" by (rule mult_le_mono2)
      then have "i + 2 ^ k + 2 ^ k \<le> 256" unfolding c p by simp
      then show ?thesis unfolding x using c even by (auto simp: blk_def)
    next
      case odd
      then have x: "i XOR 2 ^ k = i - 2 ^ k" "2 ^ k \<le> i" using bit xor_pow2_nat(2) c by simp_all
      moreover have "i - 2 ^ k = 2 ^ k * (2 * d)" using c odd by simp
      ultimately show ?thesis using assms(2) by (auto simp: blk_def)
    qed
    then show "(i XOR 2 ^ k) + 2 ^ k \<le> (256::nat)" and "2 ^ k dvd i XOR (2::nat) ^ k"
      and "blk i k \<union> blk (i XOR 2 ^ k) k = blk (min i (i XOR 2 ^ k)) (Suc k)"
      and "blk i k \<inter> blk (i XOR 2 ^ k) k = {}" and "2 ^ Suc k dvd min i (i XOR 2 ^ k)" by blast+
  qed
qed

lemma get_free_pages_wf:
  assumes wf: "wf_mm s F A" and k: "order < PAGE_MAX_ORDER"
  shows "\<exists>s' r. get_free_pages order s = Some (s', r) \<and>
    (case r of
       None \<Rightarrow> s' = s \<and> (\<forall>k. order \<le> k \<and> k < PAGE_MAX_ORDER \<longrightarrow> A k = [])
     | Some i \<Rightarrow> \<exists>F' A'. wf_mm s' F' A' \<and> owned s' F' A' i order \<and> blk i order \<subseteq> free_set A \<and>
         free_set A' = free_set A - blk i order \<and> keeps (free_set A) s F s' F' \<and>
         porder (page_map s' i) = order \<and> \<not> page_is_free s' i \<and>
         (\<forall>j \<in> blk i order. compound_head (page_map s' j) = i))"
proof -
  obtain s1 r where f: "find_block order (PAGE_MAX_ORDER - order) s = Some (s1, r)"
    and r: "case r of
       None \<Rightarrow> s1 = s \<and> (\<forall>k. order \<le> k \<and> k < PAGE_MAX_ORDER \<longrightarrow> A k = [])
     | Some i \<Rightarrow> \<exists>F' A'. wf_mm s1 F' A' \<and> owned s1 F' A' i order \<and> blk i order \<subseteq> free_set A \<and>
         free_set A' = free_set A - blk i order \<and> keeps (free_set A) s F s1 F' \<and>
         porder (page_map s1 i) = order \<and> \<not> page_is_free s1 i"
  proof -
    have e: "PAGE_MAX_ORDER - (PAGE_MAX_ORDER - order) = order" using k by simp
    show ?thesis
      using find_block_wf [OF wf, of "PAGE_MAX_ORDER - order" order, unfolded e, OF diff_le_self le_refl]
        that by blast
  qed
  show ?thesis
  proof (cases r)
    case None
    then show ?thesis using f r by (simp add: get_free_pages_def)
  next
    case (Some i)
    then obtain F' A' where *: "wf_mm s1 F' A'" "owned s1 F' A' i order" "blk i order \<subseteq> free_set A"
      "free_set A' = free_set A - blk i order" "keeps (free_set A) s F s1 F'"
      "porder (page_map s1 i) = order" "\<not> page_is_free s1 i"
      using r by auto
    have g: "good_block s1 i order" using *(2) by (simp add: owned_def)
    then have i: "i + 2 ^ order \<le> 256" "2 ^ order dvd i" "order < 8"
      using good_block_order by (auto simp: good_block_def)
    obtain s2 where s2: "page_set_compound_head i order s1 = Some s2" "wf_mm s2 F' A'" "mlinks s2 = mlinks s1"
      "\<forall>j. page_map s2 j = (if j \<in> blk i order then (page_map s1 j)\<lparr>compound_head := i\<rparr> else page_map s1 j)"
      using heads_wf [OF *(1) i(1)] by blast
    let ?b = "i XOR 2 ^ order"
    have "(0::nat) < 2 ^ order" by simp
    then have "i < 256" using i(1) by linarith
    then have b: "page_buddy s2 i order = Some ?b"
      by (intro page_buddy_xor i(3)) (use g s2(4) in \<open>simp add: good_block_def\<close>)
    obtain s3 where s3: "page_set_compound_head ?b order s2 = Some s3" "wf_mm s3 F' A'" "mlinks s3 = mlinks s2"
      "\<forall>j. page_map s3 j = (if j \<in> blk ?b order then (page_map s2 j)\<lparr>compound_head := ?b\<rparr> else page_map s2 j)"
      using heads_wf [OF s2(2) buddy_range(1) [OF i(2,1,3)]] by blast
    have dis: "blk i order \<inter> blk ?b order = {}" by (rule buddy_range(4) [OF i(2,1,3)])
    have fields: "paddr (page_map s3 j) = paddr (page_map s1 j) \<and> porder (page_map s3 j) = porder (page_map s1 j) \<and>
        pflags (page_map s3 j) = pflags (page_map s1 j) \<and> slab_cache (page_map s3 j) = slab_cache (page_map s1 j) \<and>
        inuse (page_map s3 j) = inuse (page_map s1 j)" for j
      using s2(4) s3(4) by auto
    have "keeps (free_set A) s F s3 F'" using *(5) fields by (simp add: keeps_def)
    moreover have "owned s3 F' A' i order" using *(2) fields by (simp add: owned_def good_block_def)
    moreover have "\<forall>j \<in> blk i order. compound_head (page_map s3 j) = i"
      using s2(4) s3(4) dis by auto
    moreover have "get_free_pages order s = Some (s3, Some i)"
      using f Some s2(1) b s3(1) by (simp add: get_free_pages_def)
    moreover have "porder (page_map s3 i) = order" "\<not> page_is_free s3 i"
      using *(6,7) fields by (simp_all add: page_is_free_def)
    ultimately have "\<exists>F' A'. wf_mm s3 F' A' \<and> owned s3 F' A' i order \<and> blk i order \<subseteq> free_set A \<and>
         free_set A' = free_set A - blk i order \<and> keeps (free_set A) s F s3 F' \<and>
         porder (page_map s3 i) = order \<and> \<not> page_is_free s3 i \<and>
         (\<forall>j \<in> blk i order. compound_head (page_map s3 j) = i)"
      using *(3,4) s3(2) by blast
    with \<open>get_free_pages order s = Some (s3, Some i)\<close> show ?thesis
      by (intro exI [of _ s3] exI [of _ "Some i"]) (simp only: option.case simp_thms)
  qed
qed

section \<open>Merging and freeing\<close>

text \<open>The block of order \<open>m\<close> that contains page \<open>i\<close>. The merge is safe when the buddy of each of
  these blocks is marked free only if it is a free block of the same order.\<close>

definition anc :: "nat \<Rightarrow> nat \<Rightarrow> nat" where
  "anc i m = i - i mod 2 ^ m"

definition coherent :: "mm \<Rightarrow> (nat \<Rightarrow> nat list) \<Rightarrow> nat \<Rightarrow> nat \<Rightarrow> bool" where
  "coherent s A i k \<longleftrightarrow>
     (\<forall>m. k \<le> m \<and> m < 8 \<longrightarrow> page_is_free s (anc i m XOR 2 ^ m) \<longrightarrow> anc i m XOR 2 ^ m \<in> set (A m))"

lemma anc_self: "2 ^ m dvd i \<Longrightarrow> anc i m = i"
  by (simp add: anc_def dvd_imp_mod_0)

lemma anc_le: "anc i m \<le> i" by (simp add: anc_def)

lemma anc_anc:
  assumes "a \<le> m"
  shows "anc (anc i a) m = anc i m"
proof -
  have p: "(2::nat) ^ m = 2 ^ a * 2 ^ (m - a)" using assms by (simp flip: power_add)
  have e: "anc j m = j div 2 ^ m * 2 ^ m" for j m by (simp add: anc_def minus_mod_eq_div_mult)
  have "i div 2 ^ a * 2 ^ a div (2 ^ a * 2 ^ (m - a)) = i div (2 ^ a * 2 ^ (m - a))"
    by (simp only: div_mult2_eq) simp
  then show ?thesis unfolding e by (simp only: flip: p)
qed

lemma min_buddy_anc:
  assumes "2 ^ k dvd i"
  shows "min i (i XOR 2 ^ k) = anc i (Suc k)"
proof (cases "bit i k")
  case False
  obtain c where c: "i = 2 ^ k * c" using assms by blast
  then have "even c" using False by (simp add: bit_iff_odd)
  then have "2 ^ Suc k dvd i" using c by auto
  then show ?thesis using xor_pow2_nat(1) [OF False] by (simp add: anc_self)
next
  case True
  obtain c where c: "i = 2 ^ k * c" using assms by blast
  then have "odd c" using True by (simp add: bit_iff_odd)
  then obtain d where d: "i = 2 ^ Suc k * d + 2 ^ k" using c by (auto elim!: oddE simp: algebra_simps)
  then have "i mod 2 ^ Suc k = 2 ^ k" by simp
  then show ?thesis using xor_pow2_nat(2) [OF True] by (simp add: anc_def)
qed

lemma coherent_step:
  assumes c: "coherent s A i k" and d: "2 ^ k dvd i"
    and f: "\<And>j. page_is_free s' j = page_is_free s j"
    and A: "\<And>m. Suc k \<le> m \<Longrightarrow> m < 8 \<Longrightarrow> set (A m) \<subseteq> set (A' m)"
  shows "coherent s' A' (anc i (Suc k)) (Suc k)"
  unfolding coherent_def
proof (intro allI impI)
  fix m assume m: "Suc k \<le> m \<and> m < 8" and free: "page_is_free s' (anc (anc i (Suc k)) m XOR 2 ^ m)"
  then have e: "anc (anc i (Suc k)) m = anc i m" by (intro anc_anc) simp
  then have "anc i m XOR 2 ^ m \<in> set (A m)" using c m free f unfolding coherent_def e by simp
  then show "anc (anc i (Suc k)) m XOR 2 ^ m \<in> set (A' m)" unfolding e using A m by blast
qed

lemma merge_loop_wf:
  assumes "wf_mm s F A" and "A k = i # is" and "k + n = 8" and "coherent s A i k"
  shows "\<exists>s' F' A'. merge_loop i n s = Some s' \<and> wf_mm s' F' A' \<and> free_set A' = free_set A \<and>
    (\<forall>l. (\<forall>k. l \<noteq> Free_area k) \<longrightarrow> F' l = F l)"
  using assms
proof (induction n arbitrary: s F A i k "is")
  case 0
  then show ?case by auto
next
  case (Suc n)
  have k: "k < PAGE_MAX_ORDER" "k < 8" using Suc.prems(3) by (simp_all add: PAGE_MAX_ORDER_def)
  have ik: "i \<in> set (A k)" using Suc.prems(2) by simp
  then have g: "good_block s i k" "free_head s i k" using Suc.prems(1) k by (auto simp: wf_mm_def)
  have ia: "2 ^ k dvd i" "i + 2 ^ k \<le> 256" "0 < i" using g(1) by (auto simp: good_block_def)
  let ?b = "i XOR 2 ^ k"
  have "(0::nat) < 2 ^ k" by simp
  then have "i < 256" using ia(2) by linarith
  then have "page_buddy s i k = Some ?b"
    by (intro page_buddy_xor k(2)) (use g(1) in \<open>simp add: good_block_def\<close>)
  then have b: "page_buddy s i (porder (page_map s i)) = Some ?b" using g(2) by (simp add: free_head_def)
  show ?case
  proof (cases "page_is_free s ?b")
    case False
    then show ?thesis using b Suc.prems by auto
  next
    case True
    have anc: "anc i k = i" by (rule anc_self [OF ia(1)])
    have "?b \<in> set (A k)" using Suc.prems(4) True k(2) anc unfolding coherent_def by (metis le_refl)
    moreover have bi: "?b \<noteq> i" using buddy_range(4) [OF ia(1,2) k(2)] blk_self [of i k] by (metis IntI empty_iff)
    ultimately have "?b \<in> set is" using Suc.prems(2) by simp
    then obtain us vs where is_split: "is = us @ ?b # vs" by (meson split_list)
    let ?F1 = "F(Free_area k \<mapsto> map Page_list is)" and ?A1 = "A(k := is)"
    have fs1: "free_set ?A1 = free_set A - blk i k" "blk i k \<subseteq> free_set A" "nodes ?F1 \<subseteq> nodes F"
      using pop_block(3-5) [of s F A, OF Suc.prems(1) k(1) Suc.prems(2)] by auto
    obtain s1 where s1: "free_page_del i s = Some s1" "wf_mm s1 ?F1 ?A1" "owned s1 ?F1 ?A1 i k" "page_map s1 = page_map s"
      using pop_block(2) [of s F A, OF Suc.prems(1) k(1) Suc.prems(2)] by blast
    have A1: "?A1 k = us @ ?b # vs" using is_split by simp
    let ?F2 = "?F1(Free_area k \<mapsto> map Page_list (us @ vs))" and ?A2 = "?A1(k := us @ vs)"
    note del = del_block [of s1 ?F1 ?A1, OF s1(2) k(1) A1]
    obtain s2 where s2: "free_page_del ?b s1 = Some s2" "wf_mm s2 ?F2 ?A2" "owned s2 ?F2 ?A2 ?b k" "page_map s2 = page_map s1"
      using del(1) by blast
    have fs2: "free_set ?A2 = free_set ?A1 - blk ?b k" by (rule del(2))
    let ?left = "anc i (Suc k)"
    have left: "min i ?b = ?left" by (rule min_buddy_anc [OF ia(1)])
    have un: "blk i k \<union> blk ?b k = blk ?left (Suc k)" using buddy_range(3) [OF ia(1,2) k(2)] left by simp
    have ldvd: "2 ^ Suc k dvd ?left" using buddy_range(5) [OF ia(1,2) k(2)] left by simp
    have gb: "good_block s2 ?b k" using s2(3) by (simp add: owned_def)
    have gi: "good_block s2 i k" using g(1) s1(4) s2(4) by (simp add: good_block_def)
    have left_in: "?left = i \<or> ?left = ?b" unfolding left [symmetric] by (simp add: min_def)
    have lpos: "0 < ?left" using left_in gb gi by (auto simp: good_block_def)
    have "(1::nat) \<le> 2 ^ Suc k" by simp
    then have "?left \<le> ?left + 2 ^ Suc k - 1" "?left + 2 ^ Suc k - 1 < ?left + 2 ^ Suc k" by linarith+
    then have "?left + 2 ^ Suc k - 1 \<in> blk ?left (Suc k)" unfolding blk_def atLeastLessThan_iff by blast
    then have "?left + 2 ^ Suc k - 1 < 256"
      unfolding un [symmetric] using gb gi by (auto simp: blk_def good_block_def)
    then have lend: "?left + 2 ^ Suc k \<le> 256" by linarith
    have gl: "good_block s2 ?left (Suc k)"
      using ldvd lpos lend gb gi un by (auto simp: good_block_def)
    have own2: "owned s2 ?F2 ?A2 ?left (Suc k)"
      using gl s1(3) s2(3) fs2 del(4) un unfolding owned_def
      by (auto simp flip: un)
    let ?inc = "\<lambda>p. p\<lparr>porder := porder p + 1\<rparr>"
    let ?s3 = "upd_page ?b ?inc (upd_page i ?inc s2)"
    have out: "i \<notin> free_set ?A2" "?b \<notin> free_set ?A2"
      using s1(3) s2(3) fs2 blk_self unfolding owned_def by blast+
    have wf3: "wf_mm ?s3 ?F2 ?A2"
      by (rule wf_mm_pages [OF s2(2)]) (use out head_in_free_set in auto)
    have pob: "porder (page_map s ?b) = k"
      using \<open>?b \<in> set (A k)\<close> Suc.prems(1) k(1) by (auto simp: wf_mm_def free_head_def)
    have poi: "porder (page_map s i) = k" using g(2) by (simp add: free_head_def)
    have po3: "porder (page_map ?s3 ?left) = Suc k"
      using left_in bi pob poi s1(4) s2(4) by auto
    have u: "unat (of_nat (j * 4096) :: u32) = j * 4096" if "j < 256" for j
      by (rule unat_of_nat32) (use that in simp)
    have b256: "?b < 256" using \<open>i < 256\<close> k(2) by (rule xor_less)
    have pa: "paddr (page_map s2 i) = of_nat (i * 4096)" "paddr (page_map s2 ?b) = of_nat (?b * 4096)"
      using gi gb by (simp_all add: good_block_def)
    have left_if: "(if paddr (page_map ?s3 i) < paddr (page_map ?s3 ?b) then i else ?b) = ?left"
      unfolding left [symmetric] using u [OF \<open>i < 256\<close>] u [OF b256] pa bi
      by (auto simp: word_less_nat_alt min_def)
    obtain s4 where s4: "page_set_compound_head ?left (Suc k) ?s3 = Some s4" "wf_mm s4 ?F2 ?A2" "mlinks s4 = mlinks ?s3"
      "\<forall>j. page_map s4 j = (if j \<in> blk ?left (Suc k) then (page_map ?s3 j)\<lparr>compound_head := ?left\<rparr> else page_map ?s3 j)"
      using heads_wf [OF wf3 lend] by blast
    have merge: "merge_pages i ?b s = Some (s4, ?left)"
      by (simp only: merge_pages_def Let_def Option.bind.simps s1(1) s2(1) left_if po3 s4(1))
    have flags: "page_is_free s4 j = page_is_free s j" for j
      using s4(4) s1(4) s2(4) by (simp add: page_is_free_def)
    have po4: "porder (page_map s4 ?left) = Suc k" using s4(4) po3 by simp
    have own4: "owned s4 ?F2 ?A2 ?left (Suc k)"
      using own2 s4(4) by (auto simp: owned_def good_block_def)
    have "free_head s4 ?left (Suc k)"
      unfolding free_head_def flags using po4 left_in g(2) True unfolding free_head_def by (elim disjE) simp_all
    from wf_mm_add(1) [OF s4(2) own4 this] obtain s5 where s5: "free_page_add ?left (Suc k) s4 = Some s5"
      "wf_mm s5 (?F2(Free_area (Suc k) \<mapsto> map Page_list (?left # ?A2 (Suc k)))) (?A2(Suc k := ?left # ?A2 (Suc k)))"
      "page_map s5 = page_map s4" by blast
    let ?F3 = "?F2(Free_area (Suc k) \<mapsto> map Page_list (?left # ?A2 (Suc k)))"
      and ?A3 = "?A2(Suc k := ?left # ?A2 (Suc k))"
    have coh: "coherent s5 ?A3 ?left (Suc k)"
      by (rule coherent_step [OF Suc.prems(4) ia(1)]) (use flags s5(3) in \<open>auto simp: page_is_free_def\<close>)
    have hd: "?A3 (Suc k) = ?left # ?A2 (Suc k)" and kn: "Suc k + n = 8" using Suc.prems(3) by simp_all
    from Suc.IH [OF s5(2) hd kn coh] obtain s' F' A' where
      IH: "merge_loop ?left n s5 = Some s'" "wf_mm s' F' A'" "free_set A' = free_set ?A3"
        "\<forall>l. (\<forall>k. l \<noteq> Free_area k) \<longrightarrow> F' l = ?F3 l" by blast
    have "Suc k < PAGE_MAX_ORDER" using good_block_order [OF gl] by (simp add: PAGE_MAX_ORDER_def)
    then have "free_set ?A3 = free_set ?A2 \<union> blk ?left (Suc k)" by (rule free_set_upd) simp
    then have "free_set A' = free_set A"
      using IH(3) fs1(1,2) fs2 del(3) unfolding un [symmetric] by auto
    moreover have "merge_loop i (Suc n) s = Some s'"
      using b True merge s5(1) po4 IH(1) by simp
    ultimately show ?thesis using IH(2,4) by auto
  qed
qed

lemma free_pages_wf:
  assumes wf: "wf_mm s F A" and own: "owned s F A i k" and po: "porder (page_map s i) = k"
    and coh: "coherent s A i k"
  shows "\<exists>s' F' A'. free_pages i k s = Some s' \<and> wf_mm s' F' A' \<and> free_set A' = free_set A \<union> blk i k \<and>
    (\<forall>l. (\<forall>k. l \<noteq> Free_area k) \<longrightarrow> F' l = F l)"
proof -
  let ?f = "\<lambda>p. p\<lparr>pflags := pflags p OR PAGE_FLAG_FREE\<rparr>"
  let ?s = "upd_page i ?f s"
  have g: "good_block s i k" using own by (simp add: owned_def)
  have k: "k < 8" "k < PAGE_MAX_ORDER" using good_block_order [OF g] by (simp_all add: PAGE_MAX_ORDER_def)
  have ni: "i \<notin> free_set A" using own blk_self [of i k] unfolding owned_def by blast
  have wf1: "wf_mm ?s F A" by (rule wf_mm_pages [OF wf]) (use ni head_in_free_set in auto)
  have own1: "owned ?s F A i k" using own by (auto simp: owned_def good_block_def)
  have "free_head ?s i k" using po free_flag_set [of ?s i] by (simp add: free_head_def)
  from wf_mm_add(1) [OF wf1 own1 this] obtain s2 where s2: "free_page_add i k ?s = Some s2"
    "wf_mm s2 (F(Free_area k \<mapsto> map Page_list (i # A k))) (A(k := i # A k))" "page_map s2 = page_map ?s"
    by blast
  have comm: "map_option (upd_page i ?f) (free_page_add i k s) = Some s2"
    using s2(1) k(2) by (cases s) (simp add: free_page_add_def upd_page_def)
  then obtain s1 where s1: "free_page_add i k s = Some s1" "s2 = upd_page i ?f s1" by auto
  have "coherent s2 (A(k := i # A k)) i k"
    unfolding coherent_def
  proof (intro allI impI)
    fix m assume m: "k \<le> m \<and> m < 8" and free: "page_is_free s2 (anc i m XOR 2 ^ m)"
    have d: "2 ^ m dvd anc i m" "anc i m + 2 ^ m \<le> 256"
    proof -
      show "2 ^ m dvd anc i m" by (simp add: anc_def dvd_minus_mod)
      have p: "(256::nat) = 2 ^ m * 2 ^ (8 - m)" using m by (simp flip: power_add)
      have "(0::nat) < 2 ^ k" by simp
      then have "i < 2 ^ m * 2 ^ (8 - m)" using g unfolding good_block_def p by linarith
      then have "i div 2 ^ m < 2 ^ (8 - m)" by (simp add: less_mult_imp_div_less mult.commute)
      then have "2 ^ m * (i div 2 ^ m + 1) \<le> 2 ^ m * 2 ^ (8 - m)" by (intro mult_le_mono2) simp
      then show "anc i m + 2 ^ m \<le> 256" unfolding p anc_def minus_mod_eq_mult_div by simp
    qed
    have "i \<in> blk (anc i m) m" 
    proof -
      have "i mod 2 ^ m < 2 ^ m" "i mod 2 ^ m \<le> i" by simp_all
      then have "i - i mod 2 ^ m \<le> i" "i < i - i mod 2 ^ m + 2 ^ m" by linarith+
      then show ?thesis unfolding anc_def blk_def by simp
    qed
    then have "anc i m XOR 2 ^ m \<noteq> i"
      using buddy_range(4) [OF d] m blk_self [of "anc i m XOR 2 ^ m" m] by (metis IntI empty_iff)
    then have "anc i m XOR 2 ^ m \<in> set (A m)"
      using coh m free s2(3) unfolding coherent_def by (simp add: page_is_free_def)
    then show "anc i m XOR 2 ^ m \<in> set ((A(k := i # A k)) m)" by auto
  qed
  moreover have "(A(k := i # A k)) k = i # A k" by simp
  moreover have "k + (PAGE_MAX_ORDER - 1 - porder (page_map s2 i)) = 8"
    using po k s2(3) by (simp add: PAGE_MAX_ORDER_def)
  ultimately obtain s' F' A' where *: "merge_loop i (PAGE_MAX_ORDER - 1 - porder (page_map s2 i)) s2 = Some s'"
    "wf_mm s' F' A'" "free_set A' = free_set (A(k := i # A k))"
    "\<forall>l. (\<forall>k. l \<noteq> Free_area k) \<longrightarrow> F' l = (F(Free_area k \<mapsto> map Page_list (i # A k))) l"
    using merge_loop_wf [OF s2(2)] by blast
  have "free_set (A(k := i # A k)) = free_set A \<union> blk i k" by (rule free_set_upd [OF k(2)]) simp
  then show ?thesis
    using * s1 by (intro exI [of _ s'] exI [of _ F'] exI [of _ A']) (auto simp: free_pages_def merge_free_page_def)
qed

section \<open>Handing over the boot memory\<close>

text \<open>Pages that are in no list and in no free block.\<close>

definition raw :: "mnode family \<Rightarrow> (nat \<Rightarrow> nat list) \<Rightarrow> nat set \<Rightarrow> bool" where
  "raw F A X \<longleftrightarrow> X \<inter> free_set A = {} \<and> (\<forall>j \<in> X. Page_list j \<notin> nodes F \<and> Page_freelist j \<notin> nodes F)"

lemma raw_mono: "raw F A X \<Longrightarrow> Y \<subseteq> X \<Longrightarrow> raw F A Y"
  unfolding raw_def by blast

lemma page_word:
  assumes "j < 256"
  shows "phys_to_page (of_nat (j * 4096)) = j"
proof -
  have "unat (of_nat (j * 4096) :: u32) = j * 4096" by (rule unat_of_nat32) (use assms in simp)
  then show ?thesis
    by (simp add: phys_to_page_def phys_to_pfn_def PAGE_SHIFT_def unat_div_distrib drop_bit_eq_div
        del: of_nat_mult)
qed

lemma compound_loop_wf:
  assumes "wf_mm s F A" and "raw F A {a + k..<a + k + n}" and "a + k + n \<le> 256"
  shows "\<exists>s'. compound_loop (of_nat (a * 4096)) order k n s = Some s' \<and> wf_mm s' F A \<and>
    (\<forall>j. page_map s' j = (if a + k \<le> j \<and> j < a + k + n
       then init_page (of_nat (j * 4096)) order a (page_map s j) else page_map s j))"
  using assms
proof (induction n arbitrary: k s)
  case 0
  then show ?case by auto
next
  case (Suc n)
  let ?j = "a + k"
  have j: "?j < 256" "a < 256" using Suc.prems(3) by simp_all
  have a: "of_nat (a * 4096) + of_nat k * PAGE_SIZE = (of_nat (?j * 4096) :: u32)"
    by (simp add: PAGE_SIZE_def algebra_simps)
  let ?s = "upd_page ?j (init_page (of_nat (?j * 4096)) order a) s"
  let ?s2 = "?s\<lparr>mlinks := list_init (Page_freelist ?j) (list_init (Page_list ?j) (mlinks ?s))\<rparr>"
  have nf: "?j \<notin> free_set A" "Page_list ?j \<notin> nodes F" "Page_freelist ?j \<notin> nodes F"
  proof -
    have "?j \<in> {a + k..<a + k + Suc n}" by simp
    then show "?j \<notin> free_set A" "Page_list ?j \<notin> nodes F" "Page_freelist ?j \<notin> nodes F"
      using Suc.prems(2) unfolding raw_def by blast+
  qed
  have step: "compound_loop (of_nat (a * 4096)) order k (Suc n) s = compound_loop (of_nat (a * 4096)) order (k + 1) n ?s2"
    by (simp only: compound_loop.simps Let_def a page_word [OF j(1)] page_word [OF j(2)] in_map_def
        page_num_def j if_True)
  have blocks: "j \<noteq> ?j" if "m < PAGE_MAX_ORDER" "i \<in> set (A m)" "j \<in> blk i m" for i j m
    using nf(1) that unfolding mem_free_set by blast
  have "wf_lists (mlinks ?s2) F"
    using wf_init_outside [OF wf_init_outside [OF _ nf(2)] nf(3)] Suc.prems(1) by (simp add: wf_mm_def)
  moreover have "good_block ?s2 i m \<and> free_head ?s2 i m" if "m < PAGE_MAX_ORDER" "i \<in> set (A m)" for i m
  proof -
    have "good_block s i m \<and> free_head s i m" using Suc.prems(1) that by (auto simp: wf_mm_def)
    moreover have "i \<noteq> ?j" using blocks [OF that blk_self] .
    ultimately show ?thesis
      using blocks [OF that] by (auto simp: good_block_def free_head_def page_is_free_def)
  qed
  ultimately have wf2: "wf_mm ?s2 F A" using Suc.prems(1) by (auto simp: wf_mm_def)
  have "raw F A {a + (k + 1)..<a + (k + 1) + n}" by (rule raw_mono [OF Suc.prems(2)]) auto
  moreover have "a + (k + 1) + n \<le> 256" using Suc.prems(3) by simp
  ultimately obtain s' where s': "compound_loop (of_nat (a * 4096)) order (k + 1) n ?s2 = Some s'" "wf_mm s' F A"
    "\<forall>j. page_map s' j = (if a + (k + 1) \<le> j \<and> j < a + (k + 1) + n
       then init_page (of_nat (j * 4096)) order a (page_map ?s2 j) else page_map ?s2 j)"
    using Suc.IH [OF wf2, of "k + 1"] by blast
  show ?case
    unfolding step using s' by (intro exI [of _ s']) auto
qed

lemma lower_order_le:
  "lower_order addr n = Some m \<Longrightarrow> m \<le> n \<and> page_is_aligned addr m"
  by (induction n) (auto split: if_splits)

lemma lower_order_some: "page_is_aligned addr 0 \<Longrightarrow> \<exists>m. lower_order addr n = Some m"
  by (induction n) auto

lemma aligned_dvd:
  assumes "m \<le> 8" and "a < 256"
  shows "page_is_aligned (of_nat (a * 4096)) m \<longleftrightarrow> 2 ^ m dvd a"
proof -
  have m: "(2::nat) ^ m \<le> 2 ^ 8" using assms(1) by (rule power_increasing) simp
  have p: "unat (push_bit m PAGE_SIZE) = 2 ^ m * 4096"
  proof -
    have "push_bit m PAGE_SIZE = (of_nat (2 ^ m * 4096) :: u32)" by (simp add: PAGE_SIZE_def push_bit_eq_mult)
    then show ?thesis by (simp only:) (rule unat_of_nat32, use m in simp)
  qed
  have u: "unat (of_nat (a * 4096) :: u32) = a * 4096" by (rule unat_of_nat32) (use assms(2) in simp)
  have "page_is_aligned (of_nat (a * 4096)) m \<longleftrightarrow> unat (of_nat (a * 4096) mod push_bit m PAGE_SIZE :: u32) = 0"
    unfolding page_is_aligned_def unat_eq_zero ..
  also have "\<dots> \<longleftrightarrow> (a * 4096) mod (2 ^ m * 4096) = 0" unfolding unat_mod_distrib u p ..
  also have "\<dots> \<longleftrightarrow> 2 ^ m dvd a" by (simp flip: dvd_eq_mod_eq_0)
  finally show ?thesis .
qed

lemma chunk_order_correct:
  assumes n: "0 < n" and an: "a + n \<le> 256"
  shows "\<exists>m \<le> 8. chunk_order (of_nat (a * 4096)) (of_nat (n * 4096)) = Some m \<and> 2 ^ m \<le> n \<and> 2 ^ m dvd a"
proof -
  have a: "a < 256" using assms by simp
  have ur: "unat (of_nat (n * 4096) :: u32) = n * 4096" by (rule unat_of_nat32) (use an in simp)
  then have "(of_nat (n * 4096) :: u32) \<noteq> 0" using n by (metis mult_is_0 not_gr_zero unat_0 zero_neq_numeral)
  from round_down_pow2_eq [OF this] obtain j where j: "j < 32" "round_down_pow2 (of_nat (n * 4096)) = Some (2 ^ j)"
    "2 ^ j \<le> n * 4096" "n * 4096 < 2 ^ Suc j" unfolding ur by blast
  have j12: "12 \<le> j"
  proof (rule ccontr)
    assume "\<not> 12 \<le> j"
    then have "(2::nat) ^ Suc j \<le> 2 ^ 12" by (intro power_increasing) simp_all
    with j(4) n show False by simp
  qed
  have j20: "j \<le> 20"
  proof (rule ccontr)
    assume "\<not> j \<le> 20"
    then have "(2::nat) ^ 21 \<le> 2 ^ j" by (intro power_increasing) simp_all
    with j(3) an show False by simp
  qed
  have max: "PAGE_MAX_ALLOC_SIZE = 2 ^ 20"
    by (simp add: PAGE_MAX_ALLOC_SIZE_def PAGE_MAX_ORDER_def PAGE_SIZE_def push_bit_eq_mult)
  have "\<not> (2 ^ j :: u32) > 2 ^ 20"
    using unat_pow2 [OF j(1)] unat_pow2 [of 20] power_increasing [OF j20, of "2::nat"]
    by (simp add: word_less_nat_alt not_less)
  moreover have lg: "log2 (2 ^ j) = int j"
  proof -
    have "(2::u32) ^ j \<noteq> 0" using unat_pow2 [OF j(1)] by (metis power_not_zero unat_0 zero_neq_numeral)
    from log2_bounds [OF this] obtain k where k: "log2 (2 ^ j) = int k" "2 ^ k \<le> (2::nat) ^ j" "(2::nat) ^ j < 2 ^ Suc k"
      unfolding unat_pow2 [OF j(1)] by blast
    then have "k \<le> j" "j < Suc k" by (simp_all add: power_increasing_iff power_strict_increasing_iff del: power_Suc)
    with k(1) show ?thesis by simp
  qed
  ultimately have c: "chunk_order (of_nat (a * 4096)) (of_nat (n * 4096)) = lower_order (of_nat (a * 4096)) (j - 12)"
    using j12 by (simp add: chunk_order_def j(2) max PAGE_SHIFT_def del: of_nat_mult)
  obtain m where m: "lower_order (of_nat (a * 4096)) (j - 12) = Some m"
    using lower_order_some aligned_dvd [of 0 a] a by auto
  then have mj: "m \<le> j - 12" "page_is_aligned (of_nat (a * 4096)) m" using lower_order_le by blast+
  have "(2::nat) ^ m * 4096 \<le> n * 4096"
  proof -
    have "(2::nat) ^ m * 2 ^ 12 = 2 ^ (m + 12)" by (simp add: power_add)
    also have "\<dots> \<le> 2 ^ j" using mj(1) j12 by (intro power_increasing) simp_all
    finally show ?thesis using j(3) by simp
  qed
  then have "2 ^ m \<le> n" by simp
  moreover have "m \<le> 8" using mj(1) j20 by simp
  moreover have "2 ^ m dvd a" using aligned_dvd [OF \<open>m \<le> 8\<close> a] mj(2) by blast
  ultimately show ?thesis using c m by auto
qed

lemma free_bootmem_wf:
  assumes "wf_mm s F A" and "raw F A {a..<a + n}" and "0 < a" and "a + n \<le> 256"
  shows "\<exists>s' F' A'. free_bootmem_loop (of_nat (a * 4096)) (of_nat (n * 4096)) s = Some s' \<and>
    wf_mm s' F' A' \<and> free_set A' = free_set A \<union> {a..<a + n} \<and>
    (\<forall>l. (\<forall>k. l \<noteq> Free_area k) \<longrightarrow> F' l = F l)"
  using assms
proof (induction n arbitrary: s F A a rule: less_induct)
  case (less n)
  show ?case
  proof (cases "n = 0")
    case True
    then show ?thesis using less.prems by (subst free_bootmem_loop.simps) auto
  next
    case False
    then obtain m where m: "m \<le> 8" "chunk_order (of_nat (a * 4096)) (of_nat (n * 4096)) = Some m" "2 ^ m \<le> n" "2 ^ m dvd a"
      using chunk_order_correct [of n a] less.prems(4) by auto
    have a: "a < 256" using False less.prems(4) by simp
    have "(0::nat) < 2 ^ m" by simp
    have raw1: "raw F A {a + 0..<a + 0 + 2 ^ m}" by (rule raw_mono [OF less.prems(2)]) (use m(3) in auto)
    obtain s1 where s1: "compound_page_init (of_nat (a * 4096)) m s = Some s1" "wf_mm s1 F A"
      "\<forall>j. page_map s1 j = (if a \<le> j \<and> j < a + 2 ^ m then init_page (of_nat (j * 4096)) m a (page_map s j) else page_map s j)"
      using compound_loop_wf [OF less.prems(1) raw1, of m] m(3) less.prems(4)
      unfolding compound_page_init_def by auto
    have "good_block s1 a m"
      using s1(3) m(3,4) less.prems(3,4) by (auto simp: good_block_def blk_def init_page_def)
    moreover have "blk a m \<subseteq> {a..<a + n}" using m(3) by (auto simp: blk_def)
    ultimately have own: "owned s1 F A a m"
      using less.prems(2) unfolding owned_def raw_def by blast
    have head: "free_head s1 a m"
      using s1(3) by (simp add: free_head_def page_is_free_def init_page_def PAGE_FLAG_FREE_def)
    obtain s2 where s2: "free_page_append a m s1 = Some s2"
      "wf_mm s2 (F(Free_area m \<mapsto> map Page_list (A m @ [a]))) (A(m := A m @ [a]))"
      using wf_mm_add(2) [OF s1(2) own head] by blast
    let ?F2 = "F(Free_area m \<mapsto> map Page_list (A m @ [a]))" and ?A2 = "A(m := A m @ [a])"
    have mo: "m < PAGE_MAX_ORDER" using m(1) by (simp add: PAGE_MAX_ORDER_def)
    have fs: "free_set ?A2 = free_set A \<union> blk a m" by (rule free_set_upd [OF mo]) auto
    have nodes: "nodes ?F2 \<subseteq> nodes F \<union> {Page_list a}"
    proof -
      have "wf_lists (mlinks s) F" "F (Free_area m) = Some (map Page_list (A m))"
        using less.prems(1) mo by (auto simp: wf_mm_def)
      then show ?thesis
        using nodes_mem [of F "Free_area m"] by (subst nodes_upd [of "mlinks s" F]) auto
    qed
    have raw2: "raw ?F2 ?A2 {a + 2 ^ m..<a + 2 ^ m + (n - 2 ^ m)}"
    proof -
      let ?R = "{a + 2 ^ m..<a + 2 ^ m + (n - 2 ^ m)}"
      have sub: "?R \<subseteq> {a..<a + n}" using m(3) by auto
      have disj: "?R \<inter> blk a m = {}" by (auto simp: blk_def)
      have "j \<noteq> a" if "j \<in> ?R" for j
      proof -
        have "a + 2 ^ m \<le> j" using that by simp
        moreover have "(0::nat) < 2 ^ m" by simp
        ultimately show ?thesis by linarith
      qed
      then have "Page_list j \<notin> nodes ?F2 \<and> Page_freelist j \<notin> nodes ?F2" if "j \<in> ?R" for j
        using that subsetD [OF nodes, of "Page_list j"] subsetD [OF nodes, of "Page_freelist j"]
          raw_mono [OF less.prems(2) sub] by (auto simp: raw_def)
      moreover have "?R \<inter> free_set ?A2 = {}"
        using raw_mono [OF less.prems(2) sub] disj unfolding raw_def fs by (simp add: Int_Un_distrib)
      ultimately show ?thesis unfolding raw_def by blast
    qed
    have lt: "n - 2 ^ m < n" "0 < a + 2 ^ m" "a + 2 ^ m + (n - 2 ^ m) \<le> 256"
      using False m(3) less.prems(4) by simp_all
    from less.IH [OF lt(1) s2(2) raw2 lt(2,3)] obtain s' F' A' where
      IH: "free_bootmem_loop (of_nat ((a + 2 ^ m) * 4096)) (of_nat ((n - 2 ^ m) * 4096)) s2 = Some s'"
      "wf_mm s' F' A'" "free_set A' = free_set ?A2 \<union> {a + 2 ^ m..<a + 2 ^ m + (n - 2 ^ m)}"
      "\<forall>l. (\<forall>k. l \<noteq> Free_area k) \<longrightarrow> F' l = ?F2 l" by blast
    have w: "of_nat (a * 4096) + push_bit m 1 * PAGE_SIZE = (of_nat ((a + 2 ^ m) * 4096) :: u32)"
      by (simp add: PAGE_SIZE_def push_bit_eq_mult algebra_simps)
    have w2: "of_nat (n * 4096) - push_bit m 1 * PAGE_SIZE = (of_nat ((n - 2 ^ m) * 4096) :: u32)"
      using m(3) by (simp add: PAGE_SIZE_def push_bit_eq_mult of_nat_diff algebra_simps)
    have nz: "(of_nat (n * 4096) :: u32) \<noteq> 0"
      using unat_of_nat32 [of "n * 4096"] False less.prems(4) by (auto simp: unat_eq_zero)
    have "free_bootmem_loop (of_nat (a * 4096)) (of_nat (n * 4096)) s = Some s'"
      using nz by (subst free_bootmem_loop.simps)
        (simp only: if_False m(2) s1(1) s2(1) page_word [OF a] Option.bind.simps w w2 IH(1))
    moreover have "free_set A' = free_set A \<union> {a..<a + n}"
      unfolding IH(3) fs using m(3) by (auto simp: blk_def)
    ultimately show ?thesis using IH(2,4) by auto
  qed
qed

section \<open>Properties\<close>

text \<open>
  C8: handing a range of boot memory below 1 MiB over to the page allocator terminates and
  splits it into aligned free blocks that are disjoint and cover exactly its pages, in addition to
  the blocks that were there.
\<close>

theorem bootmem_partitioned:
  assumes "wf_mm s F A" and "raw F A {a..<a + n}" and "0 < a" and "a + n \<le> 256"
  shows "\<exists>s' F' A'. free_bootmem_loop (of_nat (a * 4096)) (of_nat (n * 4096)) s = Some s' \<and>
    wf_mm s' F' A' \<and> free_set A' = free_set A \<union> {a..<a + n}"
  using free_bootmem_wf [OF assms] by blast

text \<open>The state after the areas are initialised, on an empty heap.\<close>

definition no_mm :: mm where
  "no_mm = \<lparr>page_map = (\<lambda>_. \<lparr>pflags = 0, paddr = 0, porder = 0, compound_head = 0, slab_cache = None, inuse = 0\<rparr>),
     nr_free = (\<lambda>_. 0), mlinks = \<lparr>prv = (\<lambda>_. None), nxt = (\<lambda>_. None)\<rparr>\<rparr>"

definition area_family :: "nat \<Rightarrow> mnode family" where
  "area_family n = (\<lambda>l. case l of Free_area k \<Rightarrow> if k < n then Some [] else None | _ \<Rightarrow> None)"

lemma nodes_area_family: "nodes (area_family n) = Free_area ` {..<n}"
proof -
  have "area_family n lh = Some xs \<longleftrightarrow> xs = [] \<and> (\<exists>k<n. lh = Free_area k)" for lh xs
    by (cases lh) (auto simp: area_family_def)
  then show ?thesis by (auto simp: nodes_def)
qed

lemma init_areas_upto:
  assumes "wf_lists (mlinks s) (\<lambda>_. None)"
  shows "wf_lists (mlinks (fold init_area [0..<n] s)) (area_family n) \<and>
    (\<forall>k<n. nr_free (fold init_area [0..<n] s) k = 0)"
proof (induction n)
  case 0
  have "area_family 0 = (\<lambda>_. None)" by (rule ext) (simp add: area_family_def split: mnode.split)
  with assms show ?case by simp
next
  case (Suc n)
  let ?t = "fold init_area [0..<n] s"
  have f: "area_family (Suc n) = (area_family n)(Free_area n \<mapsto> [])"
    by (rule ext) (auto simp: area_family_def split: mnode.splits)
  have "Free_area n \<notin> nodes (area_family n)" by (simp add: nodes_area_family image_iff)
  from Suc have wf: "wf_lists (mlinks ?t) (area_family n)" by blast
  have g: "wf_lists (list_init (Free_area n) (mlinks ?t)) (area_family (Suc n))"
    unfolding f by (rule wf_init [OF wf \<open>Free_area n \<notin> nodes (area_family n)\<close>])
  have fs: "fold init_area [0..<Suc n] s = init_area n ?t" by simp
  from Suc have z: "\<forall>k<n. nr_free ?t k = 0" by blast
  show ?case unfolding fs using g z by (simp add: init_area_def less_Suc_eq)
qed

lemma init_areas_wf: "wf_mm (init_areas no_mm) (area_family PAGE_MAX_ORDER) (\<lambda>_. [])"
  using init_areas_upto [of no_mm PAGE_MAX_ORDER]
  by (auto simp: wf_mm_def init_areas_def no_mm_def wf_lists_def disjoint_blocks_def area_family_def)

theorem bootmem_partitioned_witness:
  "\<exists>s' F' A'. free_bootmem_loop (of_nat (16 * 4096)) (of_nat (96 * 4096)) (init_areas no_mm) = Some s' \<and>
    wf_mm s' F' A' \<and> free_set A' = {16..<112}"
proof -
  have "raw (area_family PAGE_MAX_ORDER) (\<lambda>_. []) {16..<16 + 96}"
    by (auto simp: raw_def nodes_area_family free_set_def)
  from bootmem_partitioned [OF init_areas_wf this] show ?thesis by (simp add: free_set_def)
qed

text \<open>
  C1: on a well-formed allocator an allocation of any valid order returns (it never leaves the
  page map). Either it finds nothing, and then every area of that order or above is empty and the
  state is unchanged, or it returns the head of an aligned block of exactly that order which was free,
  is on no list afterwards, and of which every page names the head; the allocator stays well formed
  and loses exactly the pages of that block.
\<close>

theorem get_free_pages_sound:
  assumes "wf_mm s F A" and "order < PAGE_MAX_ORDER"
  shows "\<exists>s' r. get_free_pages order s = Some (s', r) \<and>
    (case r of
       None \<Rightarrow> s' = s \<and> (\<forall>k. order \<le> k \<and> k < PAGE_MAX_ORDER \<longrightarrow> A k = [])
     | Some i \<Rightarrow> \<exists>F' A'. wf_mm s' F' A' \<and> owned s' F' A' i order \<and> blk i order \<subseteq> free_set A \<and>
         free_set A' = free_set A - blk i order \<and>
         porder (page_map s' i) = order \<and> \<not> page_is_free s' i \<and>
         (\<forall>j \<in> blk i order. compound_head (page_map s' j) = i))"
proof -
  obtain s' r where g: "get_free_pages order s = Some (s', r)"
    and r: "case r of
       None \<Rightarrow> s' = s \<and> (\<forall>k. order \<le> k \<and> k < PAGE_MAX_ORDER \<longrightarrow> A k = [])
     | Some i \<Rightarrow> \<exists>F' A'. wf_mm s' F' A' \<and> owned s' F' A' i order \<and> blk i order \<subseteq> free_set A \<and>
         free_set A' = free_set A - blk i order \<and> keeps (free_set A) s F s' F' \<and>
         porder (page_map s' i) = order \<and> \<not> page_is_free s' i \<and>
         (\<forall>j \<in> blk i order. compound_head (page_map s' j) = i)"
    using get_free_pages_wf [OF assms] by blast
  show ?thesis
  proof (cases r)
    case None
    with g r show ?thesis by auto
  next
    case (Some i)
    with r obtain F' A' where "wf_mm s' F' A'" "owned s' F' A' i order" "blk i order \<subseteq> free_set A"
      "free_set A' = free_set A - blk i order" "porder (page_map s' i) = order" "\<not> page_is_free s' i"
      "\<forall>j \<in> blk i order. compound_head (page_map s' j) = i" by auto
    with g Some show ?thesis by auto
  qed
qed

theorem get_free_pages_sound_witness:
  "\<exists>s F A s' r. free_bootmem_loop (of_nat (16 * 4096)) (of_nat (96 * 4096)) (init_areas no_mm) = Some s \<and>
    wf_mm s F A \<and> get_free_pages 3 s = Some (s', r)"
proof -
  have "raw (area_family PAGE_MAX_ORDER) (\<lambda>_. []) {16..<16 + 96}"
    by (auto simp: raw_def nodes_area_family free_set_def)
  from free_bootmem_wf [OF init_areas_wf this] obtain s F A where
    s: "free_bootmem_loop (of_nat (16 * 4096)) (of_nat (96 * 4096)) (init_areas no_mm) = Some s" "wf_mm s F A"
    by auto
  have "(3::nat) < PAGE_MAX_ORDER" by (simp add: PAGE_MAX_ORDER_def)
  from get_free_pages_sound [OF s(2) this] s show ?thesis by blast
qed


definition one_page :: mm where
  "one_page = upd_page 16 (\<lambda>p. p\<lparr>paddr := 0x10000\<rparr>) (init_areas no_mm)"

lemma init_areas_pages: "page_map (init_areas s) = page_map s"
proof -
  have "page_map (fold init_area xs s) = page_map s" for xs
    by (induction xs arbitrary: s) (simp_all add: init_area_def)
  then show ?thesis by (simp add: init_areas_def)
qed


end
