(* ===== verification/Crc32.thy ===== *)
theory Crc32
  imports Prelude
begin

text \<open>
  \<^verbatim>\<open>src/crypto/crc32.c\<close>: the checksum with its lookup table, which the first call builds. The
  table is \<open>None\<close> as long as the pointer is \<^verbatim>\<open>NULL\<close>; whether \<^verbatim>\<open>bmalloc\<close> has
  memory for it is the parameter \<open>mem_ok\<close>. The buffer is the list of its bytes.
\<close>

section \<open>Operations\<close>

definition CRC32_SEED :: u32 where "CRC32_SEED = 0x0E1FB007"

definition crc32_bit :: "u32 \<Rightarrow> u32" where
  "crc32_bit c = (if c AND push_bit 31 1 \<noteq> 0 then push_bit 1 c XOR CRC32_SEED else push_bit 1 c)"

definition crc32_entry :: "u32 \<Rightarrow> u32" where
  "crc32_entry i = (crc32_bit ^^ 8) (push_bit 24 i)"

definition crc32_init_table :: "bool \<Rightarrow> errno + u32 list" where
  "crc32_init_table mem_ok =
     (if \<not> mem_ok then Inl ENOMEM else Inr (map (\<lambda>i. crc32_entry (of_nat i)) [0..<256]))"

fun crc32_loop :: "u32 list \<Rightarrow> u8 list \<Rightarrow> u32 \<Rightarrow> u32" where
  "crc32_loop table [] crc = crc"
| "crc32_loop table (b # bs) crc =
     crc32_loop table bs
       (push_bit 8 crc XOR table ! unat ((drop_bit 24 crc XOR scast b) AND 255))"

text \<open>The checksum and the table afterwards; without memory for the table the error code itself is
  returned as the checksum.\<close>

definition crc32 :: "bool \<Rightarrow> u32 list option \<Rightarrow> u8 list \<Rightarrow> u32 list option \<times> u32" where
  "crc32 mem_ok tab buffer =
     (case tab of
        Some t \<Rightarrow> (tab, crc32_loop t buffer 0xFFFFFFFF)
      | None \<Rightarrow> (case crc32_init_table mem_ok of
          Inl e \<Rightarrow> (None, - of_int (errno_val EFAULT))
        | Inr t \<Rightarrow> (Some t, crc32_loop t buffer 0xFFFFFFFF)))"

section \<open>The shift register\<close>

text \<open>The reference: a register of 32 bits that takes in one byte at the top and is shifted once for
  every bit, with the feedback polynomial of the table.\<close>

fun shift_register :: "u8 list \<Rightarrow> u32 \<Rightarrow> u32" where
  "shift_register [] crc = crc"
| "shift_register (b # bs) crc = shift_register bs ((crc32_bit ^^ 8) (crc XOR push_bit 24 (ucast b)))"

lemma top_bit: "c AND push_bit 31 1 \<noteq> 0 \<longleftrightarrow> bit c 31" for c :: u32
  by (simp add: bit_iff_and_push_bit_not_eq_0)

lemma crc32_bit_alt: "crc32_bit c = push_bit 1 c XOR (if bit c 31 then CRC32_SEED else 0)"
  unfolding crc32_bit_def top_bit by simp

lemma crc32_bit_xor: "crc32_bit (x XOR y) = crc32_bit x XOR crc32_bit y"
  by (simp add: crc32_bit_alt bit_xor_iff xor.assoc xor.commute xor.left_commute push_bit_xor)

lemma crc32_bits_xor: "(crc32_bit ^^ n) (x XOR y) = (crc32_bit ^^ n) x XOR (crc32_bit ^^ n) y"
  by (induction n) (simp_all add: crc32_bit_xor)

lemma crc32_bits_low:
  assumes "\<forall>k. 32 \<le> k + n \<longrightarrow> k < 32 \<longrightarrow> \<not> bit x k"
  shows "(crc32_bit ^^ n) x = push_bit n x"
  using assms
proof (induction n)
  case (Suc n)
  show ?case
  proof (cases "n < 32")
    case True
    have "(crc32_bit ^^ n) x = push_bit n x" using Suc by simp
    moreover have "\<not> bit (push_bit n x) 31" using Suc.prems True by (simp add: bit_simps)
    moreover have "crc32_bit c = push_bit 1 c" if "\<not> bit c 31" for c
      using that by (simp add: crc32_bit_alt)
    ultimately have "(crc32_bit ^^ Suc n) x = push_bit 1 (push_bit n x)"
      by (simp only: funpow.simps o_apply)
    then show ?thesis by (simp only: push_bit_push_bit) simp
  next
    case False
    have "bit x k = False" if "k < 32" for k using Suc.prems that False by simp
    then have "x = 0" by (intro bit_word_eqI) simp
    moreover have "(crc32_bit ^^ m) 0 = 0" for m by (induction m) (simp_all add: crc32_bit_alt)
    ultimately show ?thesis by (metis push_bit_of_0)
  qed
qed simp

lemma table_step:
  fixes crc :: u32 and b :: u8
  shows "push_bit 8 crc XOR crc32_entry ((drop_bit 24 crc XOR scast b) AND 255) =
    (crc32_bit ^^ 8) (crc XOR push_bit 24 (ucast b))"
proof -
  let ?i = "(drop_bit 24 crc XOR scast b) AND 255 :: u32"
  let ?low = "take_bit 24 crc"
  have m: "(255::u32) = mask 8" by (simp add: mask_eq_exp_minus_1)
  have split: "crc XOR push_bit 24 (ucast b) = ?low XOR push_bit 24 ?i"
    unfolding m by (rule bit_word_eqI) (auto simp: bit_simps)
  have "(crc32_bit ^^ 8) ?low = push_bit 8 ?low" by (rule crc32_bits_low) (auto simp: bit_simps)
  moreover have "push_bit 8 ?low = push_bit 8 crc" by (rule bit_word_eqI) (auto simp: bit_simps)
  ultimately show ?thesis unfolding split crc32_bits_xor crc32_entry_def by simp
qed

lemma crc32_loop_register:
  "crc32_loop (map (\<lambda>i. crc32_entry (of_nat i)) [0..<256]) bs crc = shift_register bs crc"
proof (induction bs arbitrary: crc)
  case (Cons b bs)
  let ?i = "(drop_bit 24 crc XOR scast b) AND 255 :: u32"
  have "?i \<le> 255" by (rule word_and_le1)
  then have "unat ?i < 256" by (simp add: word_le_nat_alt)
  then have "map (\<lambda>i. crc32_entry (of_nat i)) [0..<256] ! unat ?i = crc32_entry ?i" by simp
  then show ?case using Cons table_step [of crc b] by (simp add: del: of_nat_unat)
qed simp

section \<open>Properties\<close>

text \<open>
  C33: with memory for the table, the first call and every later one return the remainder that the
  bitwise shift register computes, and the table stays the same.
\<close>

theorem crc32_bitwise:
  "crc32 True None bs = (Some (map (\<lambda>i. crc32_entry (of_nat i)) [0..<256]), shift_register bs 0xFFFFFFFF) \<and>
   crc32 mem_ok (fst (crc32 True None bs)) cs = (fst (crc32 True None bs), shift_register cs 0xFFFFFFFF)"
  unfolding crc32_def crc32_init_table_def by (simp add: crc32_loop_register del: upt_rec_numeral)

end
