(* ===== verification/Blockdev.thy ===== *)
theory Blockdev
  imports Prelude Cmath "HOL-Library.Monad_Syntax"
begin

text \<open>
  \<^verbatim>\<open>src/core/bdev.c\<close>, \<^verbatim>\<open>src/core/cdev.c\<close> and \<^verbatim>\<open>src/fs/super.c\<close>: the
  devices with their tables of operations, and the superblock, which reads blocks and byte ranges
  from a block device. A buffer is the list of the bytes that it has room for; writing past its end
  is \<open>None\<close>. The operations of a driver are function values, as in the source; a driver returns its
  status and the bytes that it writes at the start of the buffer.
\<close>

section \<open>Devices\<close>

record bdev_ops =
  bread :: "(u64 \<Rightarrow> u64 \<Rightarrow> int \<times> u8 list) option"
  bwrite :: "(u64 \<Rightarrow> u64 \<Rightarrow> u8 list \<Rightarrow> int) option"
  bioctl :: "(int \<Rightarrow> int) option"

record bdev =
  bdev_name :: string
  bdev_flags :: u32
  bdev_block_size :: u16
  bdev_block_logs :: u16
  bops :: "bdev_ops option"

record cdev =
  cdev_name :: string
  cops :: "bdev_ops option"

definition BDEV_FLAGS_BOOT :: u32 where "BDEV_FLAGS_BOOT = 1"
definition BDEV_FLAGS_LBA :: u32 where "BDEV_FLAGS_LBA = 2"

text \<open>Writing bytes into a buffer at an offset.\<close>

definition put_at :: "'a list \<Rightarrow> nat \<Rightarrow> 'a list \<Rightarrow> 'a list option" where
  "put_at buf off bs =
     (if off + length bs \<le> length buf then Some (take off buf @ bs @ drop (off + length bs) buf) else None)"

definition bdev_read :: "bdev \<Rightarrow> u64 \<Rightarrow> u64 \<Rightarrow> int \<times> u8 list" where
  "bdev_read b sector blknum =
     (case Option.bind (bops b) bread of
        Some f \<Rightarrow> f sector blknum
      | None \<Rightarrow> (- errno_val ENOTSUP, []))"

definition bdev_write :: "bdev \<Rightarrow> u64 \<Rightarrow> u64 \<Rightarrow> u8 list \<Rightarrow> int" where
  "bdev_write b sector blknum buf =
     (case Option.bind (bops b) bwrite of
        Some f \<Rightarrow> f sector blknum buf
      | None \<Rightarrow> - errno_val ENOTSUP)"

definition bdev_ioctl :: "bdev \<Rightarrow> int \<Rightarrow> int" where
  "bdev_ioctl b request =
     (case Option.bind (bops b) bioctl of Some f \<Rightarrow> f request | None \<Rightarrow> - errno_val ENOTSUP)"

definition cdev_read :: "cdev \<Rightarrow> u64 \<Rightarrow> u64 \<Rightarrow> int \<times> u8 list" where
  "cdev_read c off len =
     (case Option.bind (cops c) bread of Some f \<Rightarrow> f off len | None \<Rightarrow> (- errno_val ENOTSUP, []))"

definition cdev_write :: "cdev \<Rightarrow> u64 \<Rightarrow> u64 \<Rightarrow> u8 list \<Rightarrow> int" where
  "cdev_write c off len buf =
     (case Option.bind (cops c) bwrite of Some f \<Rightarrow> f off len buf | None \<Rightarrow> - errno_val ENOTSUP)"

definition cdev_ioctl :: "cdev \<Rightarrow> int \<Rightarrow> int" where
  "cdev_ioctl c request =
     (case Option.bind (cops c) bioctl of Some f \<Rightarrow> f request | None \<Rightarrow> - errno_val ENOTSUP)"

definition bdev_blknum :: "bdev \<Rightarrow> u64 \<Rightarrow> u64" where
  "bdev_blknum b len = drop_bit (unat (bdev_block_logs b)) (len - 1) + 1"

text \<open>\<^verbatim>\<open>bdev_get\<close> walks the list of the devices from the one behind \<open>from\<close> on, or from
  the front, and gives up at the head of the list. Devices are told apart by their position.\<close>

fun first_match :: "bdev list \<Rightarrow> u32 \<Rightarrow> nat \<Rightarrow> nat option" where
  "first_match [] flags i = None"
| "first_match (b # bs) flags i =
     (if bdev_flags b AND flags = flags then Some i else first_match bs flags (i + 1))"

definition bdev_get :: "bdev list \<Rightarrow> u32 \<Rightarrow> nat option \<Rightarrow> nat option" where
  "bdev_get devs flags start =
     (let i = (case start of None \<Rightarrow> 0 | Some k \<Rightarrow> k + 1) in first_match (drop i devs) flags i)"

section \<open>Superblocks\<close>

record superblock =
  sb_bdev :: bdev
  sb_null :: bool
  block_size :: u16
  block_logs :: u16

text \<open>
  \<^verbatim>\<open>superblock_alloc\<close>; \<open>None\<close> is the lack of memory. The device may be
  \<^verbatim>\<open>NULL\<close>, and is read through all the same: \<open>null_bdev\<close> is what the memory at
  address 0, which is readable, holds in the place of a device. \<open>sb_null\<close> records that the
  pointer is \<^verbatim>\<open>NULL\<close>.
\<close>

definition superblock_alloc :: "bool \<Rightarrow> bdev \<Rightarrow> bdev option \<Rightarrow> superblock option" where
  "superblock_alloc mem_ok null_bdev bdev =
     (if \<not> mem_ok then None
      else
        let b = (case bdev of None \<Rightarrow> null_bdev | Some b \<Rightarrow> b)
        in Some \<lparr>sb_bdev = b, sb_null = (bdev = None), block_size = bdev_block_size b,
             block_logs = bdev_block_logs b\<rparr>)"

definition sb_bdlogs :: "superblock \<Rightarrow> nat" where
  "sb_bdlogs sb = unat (bdev_block_logs (sb_bdev sb))"

definition superblock_read :: "superblock \<Rightarrow> u64 \<Rightarrow> int \<times> u8 list" where
  "superblock_read sb sector = bdev_read (sb_bdev sb) sector 1"

definition superblock_sectors :: "superblock \<Rightarrow> u64 \<Rightarrow> u64" where
  "superblock_sectors sb blkidx = drop_bit (sb_bdlogs sb) (push_bit (unat (block_logs sb)) blkidx)"

definition superblock_blockid :: "superblock \<Rightarrow> u64 \<Rightarrow> u64" where
  "superblock_blockid sb off = drop_bit (unat (block_logs sb)) off"

definition superblock_blockno :: "superblock \<Rightarrow> u64 \<Rightarrow> u64 \<Rightarrow> u64" where
  "superblock_blockno sb blkmod len =
     drop_bit (unat (block_logs sb)) (blkmod + len - 1) - drop_bit (unat (block_logs sb)) blkmod + 1"

text \<open>The status, and the buffer with what the device wrote.\<close>

definition superblock_read_block :: "superblock \<Rightarrow> u64 \<Rightarrow> u8 list \<Rightarrow> (int \<times> u8 list) option" where
  "superblock_read_block sb blkidx buf =
     (let sector = superblock_sectors sb blkidx;
          secnum = superblock_sectors sb 1;
          (r, bs) = bdev_read (sb_bdev sb) sector secnum
      in map_option (\<lambda>buf. (r, buf)) (put_at buf 0 bs))"

text \<open>\<^verbatim>\<open>superblock_read_blocks\<close> from block number \<open>blk\<close> of the request on, of which \<open>n\<close> are
  left.\<close>

fun read_blocks_loop :: "superblock \<Rightarrow> u64 \<Rightarrow> nat \<Rightarrow> nat \<Rightarrow> u8 list \<Rightarrow> (int \<times> u8 list) option" where
  "read_blocks_loop sb blkidx blk 0 buf = Some (0, buf)"
| "read_blocks_loop sb blkidx blk (Suc n) buf =
     (let off = blk * unat (block_size sb) in
      if off > length buf then None
      else do {
        (r, piece) \<leftarrow> superblock_read_block sb (blkidx + of_nat blk) (drop off buf);
        let buf = take off buf @ piece;
        if r \<noteq> 0 then Some (- errno_val EFAULT, buf)
        else read_blocks_loop sb blkidx (blk + 1) n buf })"

definition superblock_read_blocks :: "superblock \<Rightarrow> u64 \<Rightarrow> u64 \<Rightarrow> u8 list \<Rightarrow> (int \<times> u8 list) option" where
  "superblock_read_blocks sb blkidx blknum buf = read_blocks_loop sb blkidx 0 (unat blknum) buf"

text \<open>The loop of \<^verbatim>\<open>superblock_read_offset\<close> with \<open>n\<close> blocks left; \<open>blkbuf\<close> is the block
  buffer, which keeps its contents between the blocks.\<close>

fun read_offset_loop ::
  "superblock \<Rightarrow> nat \<Rightarrow> u64 \<Rightarrow> u32 \<Rightarrow> u64 \<Rightarrow> u32 \<Rightarrow> u8 list \<Rightarrow> u8 list \<Rightarrow> (int \<times> u8 list) option" where
  "read_offset_loop sb 0 blk blkmod len bufoff blkbuf buf = Some (0, buf)"
| "read_offset_loop sb (Suc n) blk blkmod len bufoff blkbuf buf =
     do { (r, blkbuf) \<leftarrow> superblock_read_block sb blk blkbuf;
          if r \<noteq> 0 then Some (- errno_val EFAULT, buf)
          else do {
            let room = ucast (block_size sb) - blkmod;
            let remlen = (if ucast room < len then room else (ucast len :: u32));
            if unat blkmod + unat remlen > length blkbuf then None
            else do {
              buf \<leftarrow> put_at buf (unat bufoff) (take (unat remlen) (drop (unat blkmod) blkbuf));
              read_offset_loop sb n (blk + 1) 0 (len - ucast remlen) (bufoff + remlen) blkbuf buf } } }"

text \<open>\<open>mem\<close> is the block that \<^verbatim>\<open>bmalloc\<close> returns, with its contents, or \<open>None\<close>.\<close>

definition superblock_read_offset ::
  "superblock \<Rightarrow> u64 \<Rightarrow> u64 \<Rightarrow> u8 list option \<Rightarrow> u8 list \<Rightarrow> (int \<times> u8 list) option" where
  "superblock_read_offset sb off len mem buf =
     do { (blkidx, blkmod) \<leftarrow> div_rem off (ucast (block_size sb));
          let blknum = superblock_blockno sb (ucast blkmod) len;
          case mem of
            None \<Rightarrow> Some (- errno_val ENOMEM, buf)
          | Some blkbuf \<Rightarrow> read_offset_loop sb (unat blknum) blkidx blkmod len 0 blkbuf buf }"

section \<open>Reading a range\<close>

lemma ucast_nat: "(ucast (x :: 'a::len word) :: 'b::len word) = of_nat (unat x)"
  by (rule bit_word_eqI) (auto simp: bit_simps bit_unsigned_iff bit_of_nat_iff)


text \<open>A device whose contents are the bytes \<open>D\<close>, a whole number of blocks of the file system.\<close>

definition disk_of :: "superblock \<Rightarrow> u8 list \<Rightarrow> bool" where
  "disk_of sb D \<longleftrightarrow>
     (\<exists>bl dl. block_logs sb = of_nat bl \<and> bdev_block_logs (sb_bdev sb) = of_nat dl \<and> dl \<le> bl \<and> bl < 16 \<and>
        block_size sb = 2 ^ bl \<and> length D < 2 ^ 32 \<and> 2 ^ bl dvd length D \<and>
        (\<forall>s n. (unat s + unat n) * 2 ^ dl \<le> length D \<longrightarrow>
           bdev_read (sb_bdev sb) s n = (0, take (unat n * 2 ^ dl) (drop (unat s * 2 ^ dl) D))))"

lemma unat_u16_pow: "n < 16 \<Longrightarrow> unat (2 ^ n :: u16) = 2 ^ n"
proof -
  assume "n < 16"
  then have "(2::nat) ^ n < 2 ^ 16" by (intro power_strict_increasing) simp_all
  then show ?thesis using unat_of_nat_lt [of "2 ^ n", where 'a = 16] by simp
qed

lemma read_block_disk:
  assumes D: "disk_of sb D" and k: "(k + 1) * unat (block_size sb) \<le> length D"
    and b: "length buf = unat (block_size sb)"
  shows "superblock_read_block sb (of_nat k) buf =
    Some (0, take (unat (block_size sb)) (drop (k * unat (block_size sb)) D))"
proof -
  obtain bl dl where d: "block_logs sb = of_nat bl" "bdev_block_logs (sb_bdev sb) = of_nat dl" "dl \<le> bl" "bl < 16"
    "block_size sb = 2 ^ bl" "length D < 2 ^ 32"
    "\<And>s n. (unat s + unat n) * 2 ^ dl \<le> length D \<Longrightarrow>
       bdev_read (sb_bdev sb) s n = (0, take (unat n * 2 ^ dl) (drop (unat s * 2 ^ dl) D))"
    using D unfolding disk_of_def by blast
  have logs: "unat (block_logs sb) = bl" "sb_bdlogs sb = dl"
    using d(1-4) unat_of_nat_lt [of bl, where 'a = 16] unat_of_nat_lt [of dl, where 'a = 16]
    by (simp_all add: sb_bdlogs_def)
  have bs: "unat (block_size sb) = 2 ^ bl" unfolding d(5) by (rule unat_u16_pow [OF d(4)])
  have pw: "(2::nat) ^ bl = 2 ^ (bl - dl) * 2 ^ dl" using d(3) by (simp flip: power_add)
  have sec: "unat (superblock_sectors sb (of_nat m)) = m * 2 ^ (bl - dl)" if "m * 2 ^ bl < 2 ^ 64" for m
  proof -
    have "push_bit bl (of_nat m :: u64) = of_nat (m * 2 ^ bl)" by (simp add: push_bit_eq_mult mult.commute)
    then have "unat (push_bit bl (of_nat m :: u64)) = m * 2 ^ bl"
      using that unat_of_nat_lt [of "m * 2 ^ bl", where 'a = 64] by simp
    moreover have "unat (drop_bit dl x) = unat x div 2 ^ dl" for x :: u64
      by (simp only: unat_drop_bit_eq drop_bit_nat_def)
    ultimately show ?thesis unfolding superblock_sectors_def logs by (simp add: pw)
  qed
  have "k * 2 ^ bl < 2 ^ 64" using k bs d(6) by simp
  then have s: "unat (superblock_sectors sb (of_nat k)) = k * 2 ^ (bl - dl)" by (rule sec)
  have "(2::nat) ^ bl < 2 ^ 64" using d(4) by (intro power_strict_increasing) simp_all
  then have n: "unat (superblock_sectors sb 1) = 2 ^ (bl - dl)" using sec [of 1] by simp
  have "(unat (superblock_sectors sb (of_nat k)) + unat (superblock_sectors sb 1)) * 2 ^ dl \<le> length D"
    unfolding s n using k by (simp add: bs pw algebra_simps)
  from d(7) [OF this] have r: "bdev_read (sb_bdev sb) (superblock_sectors sb (of_nat k)) (superblock_sectors sb 1) =
    (0, take (2 ^ bl) (drop (k * 2 ^ bl) D))" unfolding s n by (simp add: pw mult.assoc)
  have "length (take (2 ^ bl) (drop (k * 2 ^ bl) D)) = 2 ^ bl" using k bs by simp
  then show ?thesis
    using b unfolding superblock_read_block_def Let_def r prod.case bs by (simp add: put_at_def bs)
qed

lemma read_offset_loop_disk:
  assumes D: "disk_of sb D"
  defines "bs \<equiv> unat (block_size sb)"
  shows "md < bs \<Longrightarrow> 0 < len \<Longrightarrow> n = (md + len - 1) div bs + 1 \<Longrightarrow> (k + n) * bs \<le> length D \<Longrightarrow>
    length blkbuf = bs \<Longrightarrow> off + len \<le> length buf \<Longrightarrow> length buf < 2 ^ 32 \<Longrightarrow>
    read_offset_loop sb n (of_nat k) (of_nat md) (of_nat len) (of_nat off) blkbuf buf =
      Some (0, take off buf @ take len (drop (k * bs + md) D) @ drop (off + len) buf)"
proof (induction n arbitrary: k md len off blkbuf buf)
  case 0
  then show ?case by simp
next
  case (Suc n)
  have bs16: "bs < 2 ^ 16" unfolding bs_def using unsigned_less [of "block_size sb"] by simp
  have b0: "0 < bs" using Suc.prems(1) by simp
  let ?d = "take bs (drop (k * bs) D)"
  have kb: "(k + 1) * bs \<le> length D"
    by (rule order_trans [OF mult_le_mono1 Suc.prems(4)]) simp
  have ld: "length ?d = bs" using kb by simp
  have blk: "superblock_read_block sb (of_nat k) blkbuf = Some (0, ?d)"
    using read_block_disk [OF D, of k blkbuf] kb Suc.prems(5) unfolding bs_def by simp
  define rm where "rm = min (bs - md) len"
  have rm: "0 < rm" "rm \<le> len" "md + rm \<le> bs" using Suc.prems(1,2) by (simp_all add: rm_def)
  have room: "ucast (block_size sb) - (of_nat md :: u32) = of_nat (bs - md)"
    using Suc.prems(1) by (simp add: bs_def of_nat_diff)
  have lens: "len < 2 ^ 32" "bs - md < 2 ^ 32" using Suc.prems(6,7) bs16 by simp_all
  have "(ucast (of_nat (bs - md) :: u32) :: u64) < of_nat len \<longleftrightarrow> bs - md < len"
    using lens by (simp add: word_less_nat_alt unsigned_ucast_eq unat_of_nat_lt take_bit_nat_eq_self)
  moreover have "(ucast (of_nat len :: u64) :: u32) = of_nat len"
    by (rule bit_word_eqI) (simp add: bit_simps)
  ultimately have rl: "(if (ucast (of_nat (bs - md) :: u32) :: u64) < of_nat len then of_nat (bs - md)
      else (ucast (of_nat len :: u64) :: u32)) = of_nat rm"
    by (simp add: rm_def min_def)
  have ur: "unat (of_nat rm :: u32) = rm" "unat (of_nat md :: u32) = md" "unat (of_nat off :: u32) = off"
    using rm lens(1) Suc.prems(1,6,7) bs16 by (simp_all add: unat_of_nat32)
  define pc where "pc = take rm (drop md ?d)"
  have lp: "length pc = rm" unfolding pc_def using rm(3) ld by simp
  let ?buf = "take off buf @ pc @ drop (off + rm) buf"
  have put: "put_at buf off pc = Some ?buf"
    using rm(2) Suc.prems(6) by (simp add: put_at_def lp)
  have step: "read_offset_loop sb (Suc n) (of_nat k) (of_nat md) (of_nat len) (of_nat off) blkbuf buf =
    read_offset_loop sb n (of_nat (k + 1)) (of_nat 0) (of_nat (len - rm)) (of_nat (off + rm)) ?d ?buf"
  proof -
    have "(of_nat len :: u64) - ucast (of_nat rm :: u32) = of_nat (len - rm)"
    proof -
      have "(ucast (of_nat rm :: u32) :: u64) = of_nat (unat (of_nat rm :: u32))"
        by (rule ucast_nat)
      then show ?thesis using rm(2) by (simp only: ur of_nat_diff)
    qed
    note len = this
    have fit: "\<not> length ?d < md + rm" using rm(3) ld by simp
    have nxt: "(of_nat k :: u64) + 1 = of_nat (k + 1)" "(of_nat off :: u32) + of_nat rm = of_nat (off + rm)"
      by simp_all
    have "read_offset_loop sb (Suc n) (of_nat k) (of_nat md) (of_nat len) (of_nat off) blkbuf buf =
      read_offset_loop sb n (of_nat k + 1) 0 (of_nat len - ucast (of_nat rm :: u32)) (of_nat off + of_nat rm) ?d ?buf"
      by (simp only: read_offset_loop.simps blk Option.bind.simps prod.case Let_def room rl ur put
          pc_def [symmetric] fit if_False simp_thms)
    then show ?thesis unfolding len nxt by simp
  qed
  have piece: "pc = take rm (drop (k * bs + md) D)"
    unfolding pc_def using rm(3) by (simp add: drop_take min_def add.commute)
  show ?case
  proof (cases "len = rm")
    case True
    have "md + len - 1 < bs" using rm True Suc.prems(2) by linarith
    then have "n = 0" using Suc.prems(3) by simp
    then show ?thesis unfolding step using True piece by simp
  next
    case False
    then have e: "rm = bs - md" using rm(2) by (auto simp: rm_def min_def split: if_splits)
    have lt: "0 < len - rm" using False rm(2) by simp
    have "md + len - 1 = (len - rm - 1) + bs" using e lt Suc.prems(1) by linarith
    then have n: "n = (0 + (len - rm) - 1) div bs + 1" using Suc.prems(3) div_add_self2 [of bs "len - rm - 1"] b0 by simp
    have kn: "(k + 1 + n) * bs \<le> length D" using Suc.prems(4) by simp
    have lb: "length ?buf = length buf" using lp rm(2) Suc.prems(6) by simp
    have ob: "off + rm + (len - rm) \<le> length ?buf" using lb rm(2) Suc.prems(6) by simp
    have "read_offset_loop sb n (of_nat (k + 1)) (of_nat 0) (of_nat (len - rm)) (of_nat (off + rm)) ?d ?buf =
      Some (0, take (off + rm) ?buf @ take (len - rm) (drop ((k + 1) * bs + 0) D) @
        drop (off + rm + (len - rm)) ?buf)"
      by (rule Suc.IH [OF b0 lt n kn ld ob]) (use lb Suc.prems(7) in simp)
    moreover have "take (off + rm) ?buf = take off buf @ pc"
      using lp Suc.prems(6) by simp
    moreover have "drop (off + rm + (len - rm)) ?buf = drop (off + len) buf"
      using lp rm(2) Suc.prems(6) by (simp add: add.commute)
    moreover have "pc @ take (len - rm) (drop ((k + 1) * bs + 0) D) @ ys = take len (drop (k * bs + md) D) @ ys" for ys
    proof -
      have "(k + 1) * bs + 0 = k * bs + md + rm" using e Suc.prems(1) by simp
      then have "drop ((k + 1) * bs + 0) D = drop rm (drop (k * bs + md) D)" by (simp add: ac_simps)
      then show ?thesis unfolding piece using rm(2)
        by (metis append_assoc le_add_diff_inverse take_add)
    qed
    ultimately show ?thesis unfolding step by (simp only: append_assoc)
  qed
qed

text \<open>The number of blocks of a range, and that the device covers them.\<close>

lemma blockno_nat:
  assumes lg: "unat (block_logs sb) = bl" and md: "md < 2 ^ bl" and bl: "bl < 16" and len: "0 < len" "len < 2 ^ 32"
  shows "unat (superblock_blockno sb (of_nat md) (of_nat len)) = (md + len - 1) div 2 ^ bl + 1"
proof -
  have b16: "(2::nat) ^ bl < 2 ^ 16" using bl by (intro power_strict_increasing) simp_all
  have "(of_nat md + of_nat len - 1 :: u64) = of_nat (md + len - 1)" using len by (simp add: of_nat_diff)
  then have a: "unat (of_nat md + of_nat len - 1 :: u64) = md + len - 1" "unat (of_nat md :: u64) = md"
    using md b16 len unat_of_nat_lt [of "md + len - 1", where 'a = 64] by (simp_all add: unat_of_nat_lt)
  have "unat (drop_bit bl (of_nat md :: u64)) = 0"
    using md unfolding unat_drop_bit_eq a(2) drop_bit_nat_def by simp
  then have z: "drop_bit bl (of_nat md :: u64) = 0" by (simp only: unat_eq_zero)
  have u: "unat (drop_bit bl (of_nat md + of_nat len - 1 :: u64)) = (md + len - 1) div 2 ^ bl"
    unfolding unat_drop_bit_eq a(1) drop_bit_nat_def ..
  have "(md + len - 1) div 2 ^ bl \<le> md + len - 1" by (rule div_le_dividend)
  then have "(md + len - 1) div 2 ^ bl + 1 \<le> md + len" using len(1) by linarith
  also have "\<dots> < 2 ^ 64" using md b16 len by simp
  finally have "(md + len - 1) div 2 ^ bl + 1 < 2 ^ 64" .
  then show ?thesis unfolding superblock_blockno_def lg z using u by (simp add: unat_plus_lt)
qed

lemma range_blocks:
  assumes "0 < len" and "off + len \<le> bs * q" and "0 < (bs::nat)"
  shows "(off div bs + ((off mod bs + len - 1) div bs + 1)) * bs \<le> bs * q"
proof -
  have "off + len - 1 = off mod bs + len - 1 + bs * (off div bs)"
    using assms(1) mult_div_mod_eq [of bs off] by linarith
  then have "(off + len - 1) div bs = off div bs + (off mod bs + len - 1) div bs" using assms(3) by simp
  moreover have "(off + len - 1) div bs < q"
    by (rule less_mult_imp_div_less) (use assms in \<open>simp add: mult.commute\<close>)
  ultimately have "off div bs + ((off mod bs + len - 1) div bs + 1) \<le> q" by simp
  from mult_le_mono1 [OF this] show ?thesis by (simp only: mult.commute)
qed

section \<open>Properties\<close>

text \<open>
  On a device with a block size of the file system that is a power of two and a multiple of the
  sector size, \<^verbatim>\<open>superblock_read_offset\<close> of a nonempty range that the device covers fills
  the buffer with exactly the bytes of the range, whatever blocks it starts and ends in, and leaves
  the rest of the buffer alone; without memory for a block it reads nothing.
\<close>

theorem superblock_read_offset_exact:
  assumes "disk_of sb D" and "0 < len" and "off + len \<le> length D" and "len \<le> length buf"
    and "length buf < 2 ^ 32" and "length blkbuf = unat (block_size sb)"
  shows "superblock_read_offset sb (of_nat off) (of_nat len) (Some blkbuf) buf =
      Some (0, take len (drop off D) @ drop len buf) \<and>
    superblock_read_offset sb (of_nat off) (of_nat len) None buf = Some (- errno_val ENOMEM, buf)"
proof -
  define bs where "bs = unat (block_size sb)"
  obtain bl where bl: "block_logs sb = of_nat bl" "bl < 16" "block_size sb = 2 ^ bl" "length D < 2 ^ 32" "2 ^ bl dvd length D"
    using assms(1) unfolding disk_of_def by blast
  have bs: "bs = 2 ^ bl" unfolding bs_def bl(3) by (rule unat_u16_pow [OF bl(2)])
  have b16: "bs < 2 ^ 16" unfolding bs_def using unsigned_less [of "block_size sb"] by simp
  have nz: "(ucast (block_size sb) :: u32) \<noteq> 0" and ub: "unat (ucast (block_size sb) :: u32) = bs"
  proof -
    show "unat (ucast (block_size sb) :: u32) = bs"
      using b16 unfolding bs_def by (simp add: unsigned_ucast_eq take_bit_nat_eq_self)
    then show "(ucast (block_size sb) :: u32) \<noteq> 0" using bs by (metis unat_0 power_not_zero zero_neq_numeral)
  qed
  have ol: "off < 2 ^ 32" "len < 2 ^ 32" using assms(2-5) bl(4) by simp_all
  then have uo: "unat (of_nat off :: u64) = off" by (simp add: unat_of_nat_lt)
  let ?md = "off mod bs" and ?n = "(off mod bs + len - 1) div bs + 1"
  have dv: "div_rem (of_nat off) (ucast (block_size sb)) = Some (of_nat (off div bs), of_nat ?md)"
    unfolding div_rem_def arch_div_eq [OF nz] uo ub ..
  have md: "?md < bs" using bs by simp
  then have "?md < 2 ^ 32" using b16 by simp
  then have um: "(ucast (of_nat ?md :: u32) :: u64) = of_nat ?md"
    unfolding ucast_nat by (simp only: unat_of_nat32)
  have bn: "unat (superblock_blockno sb (of_nat ?md) (of_nat len)) = ?n"
    using blockno_nat [of sb bl ?md len] bl(1,2) md bs assms(2) ol(2) by (simp add: unat_of_nat_lt)
  obtain q where q: "length D = bs * q" using bl(5) unfolding bs by (auto elim: dvdE)
  have room: "(off div bs + ?n) * bs \<le> length D"
    using range_blocks [of len off bs q] assms(2,3) md unfolding q by simp
  have "read_offset_loop sb ?n (of_nat (off div bs)) (of_nat ?md) (of_nat len) (of_nat 0) blkbuf buf =
    Some (0, take 0 buf @ take len (drop (off div bs * bs + ?md) D) @ drop (0 + len) buf)"
    by (rule read_offset_loop_disk [OF assms(1), folded bs_def])
      (use md room assms(2,4,5,6) bs_def in simp_all)
  then show ?thesis unfolding superblock_read_offset_def dv semiring_1_class.of_nat_0
    by (simp only: Option.bind.simps prod.case um bn Let_def option.case semiring_1_class.of_nat_0 take_0 append_Nil
        add_0 div_mult_mod_eq simp_thms)
qed

text \<open>A device of four sectors of 512 bytes under a file system with blocks of 1024 bytes.\<close>

definition demo_disk :: "u8 list" where
  "demo_disk = map of_nat [0..<2048]"

definition demo_sb :: superblock where
  "demo_sb = \<lparr>sb_bdev = \<lparr>bdev_name = [], bdev_flags = 0, bdev_block_size = 512, bdev_block_logs = 9,
       bops = Some \<lparr>bread = Some (\<lambda>s n. (0, take (unat n * 512) (drop (unat s * 512) demo_disk))),
                    bwrite = None, bioctl = None\<rparr>\<rparr>,
     sb_null = False, block_size = 1024, block_logs = 10\<rparr>"

lemma demo_sb: "disk_of demo_sb demo_disk" "length demo_disk = 2048"
proof -
  show "length demo_disk = 2048" by (simp add: demo_disk_def)
  then show "disk_of demo_sb demo_disk"
    unfolding disk_of_def by (intro exI [of _ 10] exI [of _ 9]) (simp add: demo_sb_def bdev_read_def)
qed

theorem superblock_read_offset_exact_witness:
  "superblock_read_offset demo_sb (of_nat 1000) (of_nat 100) (Some (replicate 1024 0)) (replicate 100 0) =
    Some (0, take 100 (drop 1000 demo_disk))"
  using superblock_read_offset_exact [OF demo_sb(1), of 100 1000 "replicate 100 0" "replicate 1024 0"]
  by (simp add: demo_sb(2)) (simp add: demo_sb_def)

end
