(* ===== verification/Slub.thy ===== *)
theory Slub
  imports PageAlloc Cstring
begin

text \<open>
  \<^verbatim>\<open>src/mm/slub.c\<close> and \<^verbatim>\<open>src/mm/util.c\<close>: the slab allocator. A cache cuts blocks of
  pages into objects of one size; the free objects of a block are linked on the free list of its head
  page, through the objects themselves. The caches of \<^verbatim>\<open>bmalloc\<close> are objects of the boot cache.
  A pointer to an object is its address, 0 for \<^verbatim>\<open>NULL\<close>; \<open>None\<close> is undefined
  behaviour (a \<^verbatim>\<open>NULL\<close> list link followed, an access outside of the page map).
\<close>

section \<open>State\<close>

text \<open>A name is a string constant of the program or a copy at an address.\<close>

datatype cache_name = Literal string | Copy u32

text \<open>The constructors that are ever passed: the one of the caches, and any other function, which may
  only write the object.\<close>

datatype ctor = Ctor_cache_init | Ctor_object

record bmem_cache =
  cname :: "cache_name option"
  osize :: u32
  nums :: u32
  corder :: nat
  free_objs :: u32
  free_slabs :: u32
  total_slabs :: u32
  cctor :: "ctor option"

record slub =
  pages :: mm
  caches :: "cache_id \<Rightarrow> bmem_cache"
  bmalloc_caches :: "nat \<Rightarrow> cache_id option"

definition bmalloc_info :: "(string \<times> u32) list" where
  "bmalloc_info =
     [(''bmalloc-8'', 0x8), (''bmalloc-16'', 0x10), (''bmalloc-32'', 0x20), (''bmalloc-64'', 0x40),
      (''bmalloc-128'', 0x80), (''bmalloc-256'', 0x100), (''bmalloc-512'', 0x200),
      (''bmalloc-1024'', 0x400), (''bmalloc-2048'', 0x800), (''bmalloc-4096'', 0x1000),
      (''bmalloc-8192'', 0x2000), (''bmalloc-16384'', 0x4000), (''bmalloc-32768'', 0x8000)]"

definition KMALLOC_CACHE_NUM :: nat where "KMALLOC_CACHE_NUM = 13"
definition KMALLOC_MIN_SHIFT :: int where "KMALLOC_MIN_SHIFT = 0"
definition KMALLOC_MIN_SIZE :: u32 where "KMALLOC_MIN_SIZE = 8"

definition upd_cache :: "cache_id \<Rightarrow> (bmem_cache \<Rightarrow> bmem_cache) \<Rightarrow> slub \<Rightarrow> slub" where
  "upd_cache c f s = s\<lparr>caches := (caches s)(c := f (caches s c))\<rparr>"

definition upd_links :: "(mnode links \<Rightarrow> mnode links) \<Rightarrow> slub \<Rightarrow> slub" where
  "upd_links f s = s\<lparr>pages := (pages s)\<lparr>mlinks := f (mlinks (pages s))\<rparr>\<rparr>"

definition slub_page :: "nat \<Rightarrow> (page \<Rightarrow> page) \<Rightarrow> slub \<Rightarrow> slub" where
  "slub_page i f s = s\<lparr>pages := upd_page i f (pages s)\<rparr>"

section \<open>Caches\<close>

definition bmem_cache_init :: "cache_id \<Rightarrow> slub \<Rightarrow> slub" where
  "bmem_cache_init c s =
     upd_links (list_init (Cache_next c) \<circ> list_init (Slabs_full c) \<circ> list_init (Slabs_partial c)
         \<circ> list_init (Slabs_free c))
       (upd_cache c (\<lambda>k. k\<lparr>free_objs := 0, free_slabs := 0, total_slabs := 0, cctor := None\<rparr>) s)"

definition bmalloc_index :: "u32 \<Rightarrow> int option" where
  "bmalloc_index sz =
     (if sz = 0 then Some 0
      else do { sz \<leftarrow> round_up_pow2 sz;
                if sz \<le> KMALLOC_MIN_SIZE then Some KMALLOC_MIN_SHIFT
                else if sz > KMALLOC_MIN_SIZE \<and> sz \<le> push_bit 15 1 then Some (log2 sz - 3)
                else Some (- 1) })"

text \<open>The outer \<open>None\<close> is the undefined shift of \<^verbatim>\<open>round_up_pow2\<close>.\<close>

definition bmalloc_cache :: "slub \<Rightarrow> u32 \<Rightarrow> cache_id option option" where
  "bmalloc_cache s sz =
     do { i \<leftarrow> bmalloc_index sz;
          if i < 0 then Some None else Some (bmalloc_caches s (nat i)) }"

definition calculate_cache_order :: "u32 \<Rightarrow> nat" where
  "calculate_cache_order sz =
     (let ret = word_of_int (log2 (sz - 1) + 1) :: u32
      in unat (ret - (if ret < of_nat PAGE_SHIFT then ret else of_nat PAGE_SHIFT)))"

definition cache_nums :: "u32 \<Rightarrow> u32" where
  "cache_nums sz = (if PAGE_SIZE div sz > 1 then PAGE_SIZE div sz else 1)"

section \<open>Objects of a slab\<close>

definition obj_of :: "mnode option \<Rightarrow> u32 option" where
  "obj_of n = (case n of Some (Obj a) \<Rightarrow> Some a | _ \<Rightarrow> None)"

definition bmem_cache_fetch :: "nat \<Rightarrow> slub \<Rightarrow> slub \<times> u32" where
  "bmem_cache_fetch p s =
     (case obj_of (list_first_or_null (Page_freelist p) (mlinks (pages s))) of
        None \<Rightarrow> (s, 0)
      | Some a \<Rightarrow> (slub_page p (\<lambda>q. q\<lparr>inuse := inuse q + 1\<rparr>) (upd_links (list_del (Obj a)) s), a))"

definition bmem_cache_page :: "cache_id \<Rightarrow> slub \<Rightarrow> slub \<times> nat option" where
  "bmem_cache_page c s =
     (case page_of (list_first_or_null (Slabs_partial c) (mlinks (pages s))) of
        Some p \<Rightarrow> (s, Some p)
      | None \<Rightarrow> (case page_of (list_first_or_null (Slabs_free c) (mlinks (pages s))) of
          Some p \<Rightarrow> (upd_cache c (\<lambda>k. k\<lparr>free_slabs := free_slabs k - 1\<rparr>) s, Some p)
        | None \<Rightarrow> (s, None)))"

definition bmem_cache_fixup :: "cache_id \<Rightarrow> nat \<Rightarrow> slub \<Rightarrow> slub" where
  "bmem_cache_fixup c p s =
     (let s = upd_links (list_del (Page_list p)) s
      in if inuse (page_map (pages s) p) = nums (caches s c)
         then upd_links (list_add (Page_list p) (Slabs_full c)) s
         else upd_links (list_add (Page_list p) (Slabs_partial c)) s)"

text \<open>\<^verbatim>\<open>bmem_cache_setup\<close> appends the objects from number \<open>k\<close> on to the free list.\<close>

definition slab_obj :: "u32 \<Rightarrow> u32 \<Rightarrow> nat \<Rightarrow> u32" where
  "slab_obj addr sz k = addr + sz * of_nat k"

definition bmem_cache_setup :: "cache_id \<Rightarrow> nat \<Rightarrow> slub \<Rightarrow> slub" where
  "bmem_cache_setup c p s =
     fold (\<lambda>k. upd_links (list_add_tail
         (Obj (slab_obj (paddr (page_map (pages s) p)) (osize (caches s c)) k)) (Page_freelist p)))
       [0..<unat (nums (caches s c))] s"

definition bmem_cache_grow :: "cache_id \<Rightarrow> slub \<Rightarrow> (slub \<times> nat option) option" where
  "bmem_cache_grow c s =
     do { (m, pg) \<leftarrow> alloc_pages (corder (caches s c)) (pages s);
          let s = s\<lparr>pages := m\<rparr>;
          case pg of None \<Rightarrow> Some (s, None)
          | Some p \<Rightarrow>
              let s = upd_links (list_init (Page_freelist p)) s;
                  s = slub_page p (\<lambda>q. q\<lparr>slab_cache := Some c, inuse := 0\<rparr>) s;
                  s = bmem_cache_setup c p s;
                  s = upd_cache c (\<lambda>k. k\<lparr>total_slabs := total_slabs k + 1\<rparr>) s;
                  s = upd_links (list_add (Page_list p) (Slabs_free c)) s;
                  s = upd_cache c (\<lambda>k. k\<lparr>free_objs := free_objs k + nums k\<rparr>) s
              in Some (s, Some p) }"

section \<open>Allocating\<close>

definition run_ctor :: "ctor option \<Rightarrow> u32 \<Rightarrow> slub \<Rightarrow> slub" where
  "run_ctor f a s = (if f = Some Ctor_cache_init then bmem_cache_init (Cache_at a) s else s)"

definition bmem_cache_alloc_object :: "cache_id \<Rightarrow> nat \<Rightarrow> slub \<Rightarrow> slub \<times> u32" where
  "bmem_cache_alloc_object c p s =
     (let (s, a) = bmem_cache_fetch p s in
      if a = 0 then (s, 0)
      else
        let s = run_ctor (cctor (caches s c)) a s;
            s = upd_cache c (\<lambda>k. k\<lparr>free_objs := free_objs k - 1\<rparr>) s
        in (bmem_cache_fixup c p s, a))"

definition bmem_cache_alloc :: "cache_id \<Rightarrow> slub \<Rightarrow> (slub \<times> u32) option" where
  "bmem_cache_alloc c s =
     (case bmem_cache_page c s of
        (s, Some p) \<Rightarrow> Some (bmem_cache_alloc_object c p s)
      | (s, None) \<Rightarrow> do {
          (s, pg) \<leftarrow> bmem_cache_grow c s;
          case pg of None \<Rightarrow> Some (s, 0) | Some p \<Rightarrow> Some (bmem_cache_alloc_object c p s) })"

definition bmalloc :: "u32 \<Rightarrow> slub \<Rightarrow> (slub \<times> u32) option" where
  "bmalloc sz s =
     do { k \<leftarrow> bmalloc_cache s sz;
          case k of None \<Rightarrow> Some (s, 0) | Some c \<Rightarrow> bmem_cache_alloc c s }"

definition bzalloc :: "u32 \<Rightarrow> mem \<Rightarrow> slub \<Rightarrow> (mem \<times> slub \<times> u32) option" where
  "bzalloc sz m s =
     do { (s, a) \<leftarrow> bmalloc sz s;
          Some (if a \<noteq> 0 then memset m a 0 sz else m, s, a) }"

section \<open>Freeing\<close>

definition bmem_obj_page :: "u32 \<Rightarrow> slub \<Rightarrow> nat option" where
  "bmem_obj_page a s =
     (let i = phys_to_page a in if in_map i then Some (compound_head (page_map (pages s) i)) else None)"

definition bfree_object :: "nat \<Rightarrow> cache_id \<Rightarrow> u32 \<Rightarrow> slub \<Rightarrow> slub option" where
  "bfree_object p c a s =
     (let s = upd_links (list_add_tail (Obj a) (Page_freelist p)) s;
          s = upd_cache c (\<lambda>k. k\<lparr>free_objs := free_objs k + 1\<rparr>) s;
          s = slub_page p (\<lambda>q. q\<lparr>inuse := inuse q - 1\<rparr>) s
      in if inuse (page_map (pages s) p) = 0 then do {
           let s = upd_links (list_del (Page_list p)) s;
           m \<leftarrow> free_page (paddr (page_map (pages s) p)) (pages s);
           Some (upd_cache c (\<lambda>k. k\<lparr>free_objs := free_objs k - nums k\<rparr>) (s\<lparr>pages := m\<rparr>)) }
         else Some (upd_links (list_move (Page_list p) (Slabs_partial c)) s))"

definition bfree :: "u32 \<Rightarrow> slub \<Rightarrow> slub option" where
  "bfree a s =
     do { p \<leftarrow> bmem_obj_page a s;
          c \<leftarrow> slab_cache (page_map (pages s) p);
          bfree_object p c a s }"

text \<open>\<^verbatim>\<open>bfree_const\<close> spares the read-only data of the boot loader, whose bounds come from the
  linker script.\<close>

definition is_elfboot_rodata :: "u32 \<times> u32 \<Rightarrow> u32 \<Rightarrow> bool" where
  "is_elfboot_rodata ro a \<longleftrightarrow> fst ro \<le> a \<and> a < snd ro"

definition bfree_const :: "u32 \<times> u32 \<Rightarrow> u32 \<Rightarrow> slub \<Rightarrow> slub option" where
  "bfree_const ro a s = (if \<not> is_elfboot_rodata ro a then bfree a s else Some s)"

definition bstrdup :: "u32 \<Rightarrow> mem \<Rightarrow> slub \<Rightarrow> (mem \<times> slub \<times> u32) option" where
  "bstrdup str m s =
     (if str = 0 then Some (m, s, 0)
      else do { n \<leftarrow> strlen m str;
                let len = n + 1;
                (s, a) \<leftarrow> bmalloc len s;
                if a = 0 then Some (m, s, 0) else Some (memcpy m a str len, s, a) })"

section \<open>Creating caches\<close>

definition bmem_cache_create ::
  "u32 \<Rightarrow> u32 \<Rightarrow> ctor option \<Rightarrow> mem \<Rightarrow> slub \<Rightarrow> (mem \<times> slub \<times> u32) option" where
  "bmem_cache_create name sz ctor m s =
     do { (s, a) \<leftarrow> bmem_cache_alloc Boot_cache s;
          if a = 0 then Some (m, s, 0)
          else do {
            (m, s, n) \<leftarrow> bstrdup name m s;
            if n = 0 then do { s \<leftarrow> bfree a s; Some (m, s, 0) }
            else do {
              sz \<leftarrow> round_up_pow2 sz;
              let s = upd_cache (Cache_at a) (\<lambda>k. k\<lparr>cname := Some (Copy n), osize := sz,
                nums := cache_nums sz, corder := calculate_cache_order sz, cctor := ctor\<rparr>) s;
              Some (m, upd_links (list_add (Cache_next (Cache_at a)) Bmem_caches) s, a) } } }"

definition bmalloc_create_cache :: "nat \<Rightarrow> slub \<Rightarrow> (slub \<times> u32) option" where
  "bmalloc_create_cache i s =
     do { (s, a) \<leftarrow> bmem_cache_alloc Boot_cache s;
          if a = 0 then Some (s, 0)
          else if i < length bmalloc_info then
            let (n, sz) = bmalloc_info ! i in
            Some (upd_cache (Cache_at a) (\<lambda>k. k\<lparr>cname := Some (Literal n), osize := sz,
              nums := cache_nums sz, corder := calculate_cache_order sz\<rparr>) s, a)
          else None }"

text \<open>The loop from cache number \<open>i\<close> on, with \<open>n\<close> caches left.\<close>

fun create_all_loop :: "nat \<Rightarrow> nat \<Rightarrow> slub \<Rightarrow> (slub \<times> status) option" where
  "create_all_loop i 0 s = Some (s, ok)"
| "create_all_loop i (Suc n) s =
     do { (s, a) \<leftarrow> bmalloc_create_cache i s;
          if a = 0 then Some (s\<lparr>bmalloc_caches := (bmalloc_caches s)(i := None)\<rparr>, Inl EFAULT)
          else
            let s = s\<lparr>bmalloc_caches := (bmalloc_caches s)(i := Some (Cache_at a))\<rparr>;
                s = upd_links (list_add (Cache_next (Cache_at a)) Bmem_caches) s
            in create_all_loop (i + 1) n s }"

definition bmalloc_create_all_caches :: "slub \<Rightarrow> (slub \<times> status) option" where
  "bmalloc_create_all_caches s = create_all_loop 0 KMALLOC_CACHE_NUM s"

text \<open>\<open>cache_bytes\<close> is \<^verbatim>\<open>sizeof(struct bmem_cache)\<close>.\<close>

definition bmalloc_create_boot_cache :: "u32 \<Rightarrow> slub \<Rightarrow> slub option" where
  "bmalloc_create_boot_cache cache_bytes s =
     do { sz \<leftarrow> round_up_pow2 cache_bytes;
          let s = bmem_cache_init Boot_cache s;
          let s = upd_cache Boot_cache (\<lambda>k. k\<lparr>osize := sz, nums := cache_nums sz,
            corder := calculate_cache_order sz, cctor := Some Ctor_cache_init\<rparr>) s;
          Some (upd_links (list_add (Cache_next Boot_cache) Bmem_caches) s) }"

definition bmalloc_init :: "u32 \<Rightarrow> slub \<Rightarrow> (slub \<times> status) option" where
  "bmalloc_init cache_bytes s =
     do { s \<leftarrow> bmalloc_create_boot_cache cache_bytes s;
          (s, r) \<leftarrow> bmalloc_create_all_caches s;
          case r of Inl _ \<Rightarrow> Some (s, Inl EFAULT) | Inr _ \<Rightarrow> Some (s, ok) }"

section \<open>The cache of a size\<close>

lemma bmalloc_sizes: "i < KMALLOC_CACHE_NUM \<Longrightarrow> unat (snd (bmalloc_info ! i)) = 2 ^ (i + 3)"
proof -
  assume "i < KMALLOC_CACHE_NUM"
  then have "i \<in> {0, 1, 2, 3, 4, 5, 6, 7, 8, 9, 10, 11, 12}" unfolding KMALLOC_CACHE_NUM_def by simp arith
  then show ?thesis by (auto simp: bmalloc_info_def)
qed

lemma log2_pow2: "k < 32 \<Longrightarrow> log2 (2 ^ k) = int k"
proof -
  assume k: "k < 32"
  then have "(2::u32) ^ k \<noteq> 0" using unat_pow2 by (metis power_not_zero unat_0 zero_neq_numeral)
  from log2_bounds [OF this] obtain j where j: "log2 (2 ^ k) = int j" "2 ^ j \<le> (2::nat) ^ k" "(2::nat) ^ k < 2 ^ Suc j"
    unfolding unat_pow2 [OF k] by blast
  then have "j \<le> k" "k < Suc j"
    by (simp_all add: power_increasing_iff power_strict_increasing_iff del: power_Suc)
  with j(1) show ?thesis by simp
qed

lemma pow2_le: "k < 32 \<Longrightarrow> j < 32 \<Longrightarrow> (2::u32) ^ k \<le> 2 ^ j \<longleftrightarrow> k \<le> j"
  unfolding word_le_nat_alt by (simp add: unat_pow2)

lemma bmalloc_index_eq:
  assumes "sz \<noteq> 0" and "unat sz \<le> 2 ^ 31"
  obtains k where "k < 32" and "unat sz \<le> 2 ^ k" and "\<forall>j<k. 2 ^ j < unat sz"
    and "bmalloc_index sz = Some (if k \<le> 3 then 0 else if k \<le> 15 then int k - 3 else - 1)"
proof -
  obtain k where k: "k < 32" "round_up_pow2 sz = Some (2 ^ k)" "unat sz \<le> 2 ^ k" "\<forall>j<k. 2 ^ j < unat sz"
    using round_up_pow2_eq [OF assms] by blast
  have "(2::u32) ^ k \<le> 8 \<longleftrightarrow> k \<le> 3" using pow2_le [OF k(1), of 3] by simp
  moreover have "(2::u32) ^ k \<le> push_bit 15 1 \<longleftrightarrow> k \<le> 15" using pow2_le [OF k(1), of 15] by simp
  ultimately have "bmalloc_index sz = Some (if k \<le> 3 then 0 else if k \<le> 15 then int k - 3 else - 1)"
    using assms(1) k(2) unfolding bmalloc_index_def KMALLOC_MIN_SIZE_def KMALLOC_MIN_SHIFT_def not_le [symmetric]
    by (simp add: log2_pow2 [OF k(1)])
  with k show ?thesis using that by blast
qed

section \<open>The slabs of a cache\<close>

text \<open>
  The abstract state of a cache: the partial and the full slabs in list order and the free objects of
  every slab. Between two operations there is no slab on the list of free slabs.
\<close>

definition slab_counts :: "slub \<Rightarrow> mnode family \<Rightarrow> cache_id \<Rightarrow> (nat \<Rightarrow> u32 list) \<Rightarrow> nat \<Rightarrow> bool" where
  "slab_counts s F c os p \<longleftrightarrow>
     F (Page_freelist p) = Some (map Obj (os p)) \<and>
     unat (inuse (page_map (pages s) p)) + length (os p) = unat (nums (caches s c)) \<and> 0 \<notin> set (os p)"

definition wf_cache ::
  "slub \<Rightarrow> mnode family \<Rightarrow> cache_id \<Rightarrow> nat list \<Rightarrow> nat list \<Rightarrow> (nat \<Rightarrow> u32 list) \<Rightarrow> bool" where
  "wf_cache s F c ps fs os \<longleftrightarrow>
     wf_lists (mlinks (pages s)) F \<and>
     F (Slabs_partial c) = Some (map Page_list ps) \<and> F (Slabs_full c) = Some (map Page_list fs) \<and>
     F (Slabs_free c) = Some [] \<and>
     (\<forall>p \<in> set ps. slab_counts s F c os p \<and> os p \<noteq> []) \<and>
     (\<forall>p \<in> set fs. slab_counts s F c os p \<and> os p = []) \<and>
     free_objs (caches s c) = of_nat (sum_list (map (length \<circ> os) ps))"

lemma slub_simps [simp]:
  "mlinks (pages (upd_links f s)) = f (mlinks (pages s))"
  "page_map (pages (upd_links f s)) = page_map (pages s)" "caches (upd_links f s) = caches s"
  "pages (upd_cache c g s) = pages s" "caches (upd_cache c g s) = (caches s)(c := g (caches s c))"
  "mlinks (pages (slub_page p h s)) = mlinks (pages s)" "caches (slub_page p h s) = caches s"
  "page_map (pages (slub_page p h s)) = (page_map (pages s))(p := h (page_map (pages s) p))"
  by (simp_all add: upd_links_def upd_cache_def slub_page_def)

lemma wf_cache_distinct:
  assumes "wf_cache s F c ps fs os"
  shows "distinct ps" and "distinct fs" and "set ps \<inter> set fs = {}"
proof -
  have w: "wf_lists (mlinks (pages s)) F" "F (Slabs_partial c) = Some (map Page_list ps)"
    "F (Slabs_full c) = Some (map Page_list fs)" using assms by (simp_all add: wf_cache_def)
  show "distinct ps" "distinct fs"
    using wf_ring [OF w(1,2)] wf_ring [OF w(1,3)] by (auto simp: ring_def distinct_map)
  show "set ps \<inter> set fs = {}" using wf_disj [OF w] by auto
qed

lemma alloc_object_lists:
  assumes wf: "wf_lists (mlinks (pages s)) F" and fl: "F (Page_freelist p) = Some (map Obj (a # rest))"
    and L: "F L = Some (us @ Page_list p # vs)" "L \<noteq> Page_freelist p"
    and T: "T = (if rest = [] then Slabs_full c else Slabs_partial c)"
      "(F(Page_freelist p \<mapsto> map Obj rest, L \<mapsto> us @ vs)) T = Some ys"
    and cnt: "unat (inuse (page_map (pages s) p)) + length (a # rest) = unat (nums (caches s c))"
    and a: "a \<noteq> 0" and ct: "cctor (caches s c) \<noteq> Some Ctor_cache_init"
  shows "\<exists>s'. bmem_cache_alloc_object c p s = (s', a) \<and>
    wf_lists (mlinks (pages s')) (F(Page_freelist p \<mapsto> map Obj rest, L \<mapsto> us @ vs, T \<mapsto> Page_list p # ys)) \<and>
    page_map (pages s') = (page_map (pages s))(p := (page_map (pages s) p)\<lparr>inuse := inuse (page_map (pages s) p) + 1\<rparr>) \<and>
    caches s' = (caches s)(c := (caches s c)\<lparr>free_objs := free_objs (caches s c) - 1\<rparr>)"
proof -
  let ?h = "mlinks (pages s)" and ?F1 = "F(Page_freelist p \<mapsto> map Obj rest)"
  have fl': "F (Page_freelist p) = Some (Obj a # map Obj rest)" using fl by simp
  have first: "list_first_or_null (Page_freelist p) ?h = Some (Obj a)"
    and wf1: "wf_lists (list_del (Obj a) ?h) ?F1"
    using lh.pop_law [OF wf fl'] by blast+
  have L1: "?F1 L = Some (us @ Page_list p # vs)" using L by simp
  have wf3: "wf_lists (list_add (Page_list p) T (list_del (Page_list p) (list_del (Obj a) ?h)))
      (?F1(L \<mapsto> us @ vs, T \<mapsto> Page_list p # ys))"
    by (rule lh.move_law [OF wf1 L1 T(2)])
  let ?i = "inuse (page_map (pages s) p)" and ?n = "nums (caches s c)"
  have "unat ?i + 1 < 2 ^ 32" using cnt unat_lt32 [of ?n] by simp
  then have "unat (?i + 1) = unat ?i + 1" by (simp add: unat_plus_lt)
  then have full: "?i + 1 = ?n \<longleftrightarrow> rest = []"
    using cnt unsigned_word_eqI [of "?i + 1" ?n] by (cases rest) auto
  show ?thesis
    using ct a wf3
    unfolding bmem_cache_alloc_object_def bmem_cache_fetch_def first obj_of_def run_ctor_def
      bmem_cache_fixup_def Let_def T(1)
    by (cases "rest = []") (simp_all add: full fun_upd_idem_iff)
qed

definition free_objects :: "nat list \<Rightarrow> (nat \<Rightarrow> u32 list) \<Rightarrow> u32 set" where
  "free_objects ps os = (\<Union>p \<in> set ps. set (os p))"

lemma wf_cache_objects:
  assumes wf: "wf_cache s F c ps fs os" and p: "p \<in> set ps \<union> set fs"
  shows "distinct (os p)" and "q \<in> set ps \<union> set fs \<Longrightarrow> q \<noteq> p \<Longrightarrow> set (os p) \<inter> set (os q) = {}"
proof -
  have w: "wf_lists (mlinks (pages s)) F" "\<And>q. q \<in> set ps \<union> set fs \<Longrightarrow> F (Page_freelist q) = Some (map Obj (os q))"
    using wf by (auto simp: wf_cache_def slab_counts_def)
  show "distinct (os p)" using wf_ring [OF w(1) w(2) [OF p]] by (simp add: ring_def distinct_map)
  show "set (os p) \<inter> set (os q) = {}" if "q \<in> set ps \<union> set fs" "q \<noteq> p"
    using wf_disj [OF w(1) w(2) [OF p] w(2) [OF that(1)]] that(2) by auto
qed

lemma free_objects_pop:
  assumes "wf_cache s F c (p # ps) fs os" and "os p = a # rest"
  shows "free_objects (p # ps) (os(p := rest)) = free_objects (p # ps) os - {a}"
proof -
  have "distinct (os p)" using wf_cache_objects(1) [OF assms(1)] by simp
  moreover have "a \<notin> set (os q)" if "q \<in> set ps" for q
    using wf_cache_objects(2) [OF assms(1), of p q] wf_cache_distinct(1) [OF assms(1)] that assms(2) by auto
  moreover have "p \<notin> set ps" using wf_cache_distinct(1) [OF assms(1)] by simp
  then have "free_objects (p # ps) (os(p := rest)) = set rest \<union> free_objects ps os"
    by (auto simp: free_objects_def split: if_splits)
  ultimately show ?thesis using assms(2) by (auto simp: free_objects_def)
qed

lemma alloc_object_keeps: "bmalloc_caches (fst (bmem_cache_alloc_object c p s)) = bmalloc_caches s"
  by (simp add: bmem_cache_alloc_object_def bmem_cache_fetch_def run_ctor_def bmem_cache_init_def
      bmem_cache_fixup_def upd_links_def upd_cache_def slub_page_def Let_def split: option.split)

lemma free_objects_push:
  assumes "wf_cache s F c ps fs os" and "p \<in> set ps \<union> set fs"
  shows "free_objects (p # remove1 p ps) (os(p := os p @ [a])) = insert a (free_objects ps os)"
proof (cases "p \<in> set ps")
  case True
  have "set (remove1 p ps) = set ps - {p}" using wf_cache_distinct(1) [OF assms(1)] by (rule set_remove1_eq)
  with True show ?thesis by (auto simp: free_objects_def split: if_splits)
next
  case False
  then have "os p = []" using assms(1,2) by (auto simp: wf_cache_def)
  with False show ?thesis by (auto simp: free_objects_def remove1_idem split: if_splits)
qed

lemma slab_alloc_partial:
  assumes wf: "wf_cache s F c (p # ps) fs os" and ct: "cctor (caches s c) \<noteq> Some Ctor_cache_init"
    and os: "os p = a # rest"
  shows "\<exists>s' F'. bmem_cache_alloc c s = Some (s', a) \<and>
    wf_cache s' F' c (if rest = [] then ps else p # ps) (if rest = [] then p # fs else fs) (os(p := rest)) \<and>
    (\<forall>x. Obj x \<in> nodes F' \<longrightarrow> Obj x \<in> nodes F \<and> x \<noteq> a) \<and>
    (\<forall>l. l \<notin> {Page_freelist p, Slabs_partial c, Slabs_full c} \<longrightarrow> F' l = F l) \<and>
    page_map (pages s') = (page_map (pages s))(p := (page_map (pages s) p)\<lparr>inuse := inuse (page_map (pages s) p) + 1\<rparr>) \<and>
    caches s' = (caches s)(c := (caches s c)\<lparr>free_objs := free_objs (caches s c) - 1\<rparr>) \<and>
    bmalloc_caches s' = bmalloc_caches s"
proof -
  have w: "wf_lists (mlinks (pages s)) F" "F (Slabs_partial c) = Some (Page_list p # map Page_list ps)"
    "F (Slabs_full c) = Some (map Page_list fs)" "F (Slabs_free c) = Some []"
    and sc: "slab_counts s F c os p" using wf by (auto simp: wf_cache_def)
  have nd: "p \<notin> set ps" "p \<notin> set fs" using wf_cache_distinct [OF wf] by auto
  let ?T = "if rest = [] then Slabs_full c else Slabs_partial c"
  let ?ys = "map Page_list (if rest = [] then fs else ps)"
  let ?F' = "F(Page_freelist p \<mapsto> map Obj rest, Slabs_partial c \<mapsto> [] @ map Page_list ps, ?T \<mapsto> Page_list p # ?ys)"
  have fl: "F (Page_freelist p) = Some (map Obj (a # rest))"
    and cnt: "unat (inuse (page_map (pages s) p)) + length (a # rest) = unat (nums (caches s c))" and a0: "a \<noteq> 0"
    using sc os by (auto simp: slab_counts_def)
  have L: "F (Slabs_partial c) = Some ([] @ Page_list p # map Page_list ps)" using w(2) by simp
  have T: "(F(Page_freelist p \<mapsto> map Obj rest, Slabs_partial c \<mapsto> [] @ map Page_list ps)) ?T = Some ?ys"
    using w(3) by simp
  obtain s' where s': "bmem_cache_alloc_object c p s = (s', a)" "wf_lists (mlinks (pages s')) ?F'"
    "page_map (pages s') = (page_map (pages s))(p := (page_map (pages s) p)\<lparr>inuse := inuse (page_map (pages s) p) + 1\<rparr>)"
    "caches s' = (caches s)(c := (caches s c)\<lparr>free_objs := free_objs (caches s c) - 1\<rparr>)"
    using alloc_object_lists [OF w(1) fl L _ refl T cnt a0 ct] by auto
  have "list_first_or_null (Slabs_partial c) (mlinks (pages s)) = Some (Page_list p)"
    using lh.first_law [OF w(1,2)] by simp
  then have al: "bmem_cache_alloc c s = Some (s', a)"
    using s'(1) by (simp add: bmem_cache_alloc_def bmem_cache_page_def page_of_def)
  have "unat (inuse (page_map (pages s) p)) + 1 < 2 ^ 32"
    using cnt unat_lt32 [of "nums (caches s c)"] by simp
  then have inc: "unat (inuse (page_map (pages s) p) + 1) = unat (inuse (page_map (pages s) p)) + 1"
    by (simp add: unat_plus_lt)
  have other: "slab_counts s' ?F' c (os(p := rest)) q" if "slab_counts s F c os q" "q \<noteq> p" for q
    using that s'(3,4) by (simp add: slab_counts_def)
  have this_page: "slab_counts s' ?F' c (os(p := rest)) p"
    using sc os inc s'(3,4) by (auto simp: slab_counts_def)
  have sum: "sum_list (map (length \<circ> os(p := rest)) ps) = sum_list (map (length \<circ> os) ps)"
    using nd(1) by (auto intro!: arg_cong [of _ _ sum_list])
  have wf': "wf_cache s' ?F' c (if rest = [] then ps else p # ps) (if rest = [] then p # fs else fs) (os(p := rest))"
    using wf s'(2,4) w nd other this_page os sum
    by (cases "rest = []") (auto simp: wf_cache_def)
  have fl': "F (Page_freelist p) = Some (Obj a # map Obj rest)" using fl by simp
  have sub: "nodes ?F' \<subseteq> nodes (F(Page_freelist p \<mapsto> map Obj rest)) \<union>
      set (Slabs_partial c # [] @ map Page_list ps) \<union> set (?T # Page_list p # ?ys)"
    using nodes_upd_subset by (meson order_trans sup_mono order_refl)
  have "nodes (F(Page_freelist p \<mapsto> map Obj rest)) \<subseteq> nodes F"
    unfolding nodes_upd [OF w(1) fl'] using nodes_mem [of F, OF fl'] by auto
  moreover have "Obj a \<notin> nodes (F(Page_freelist p \<mapsto> map Obj rest))"
    using lh.pop_law [OF w(1) fl'] by blast
  moreover have "Obj x \<in> nodes (F(Page_freelist p \<mapsto> map Obj rest))" if "Obj x \<in> nodes ?F'" for x
    using subsetD [OF sub that] by (auto split: if_splits)
  ultimately have keep: "Obj x \<in> nodes F \<and> x \<noteq> a" if "Obj x \<in> nodes ?F'" for x
    using that by blast
  have "bmalloc_caches s' = bmalloc_caches s" using alloc_object_keeps [of c p s] s'(1) by simp
  moreover have "?F' l = F l" if "l \<notin> {Page_freelist p, Slabs_partial c, Slabs_full c}" for l
    using that by simp
  ultimately show ?thesis using al wf' keep s'(3,4) by blast
qed

lemma slab_free_used:
  assumes wf: "wf_cache s F c ps fs os" and p: "p \<in> set ps \<union> set fs"
    and used: "1 < unat (inuse (page_map (pages s) p))" and a: "a \<noteq> 0" "Obj a \<notin> nodes F"
    and pg: "in_map (phys_to_page a)" "compound_head (page_map (pages s) (phys_to_page a)) = p"
      "slab_cache (page_map (pages s) p) = Some c"
  shows "\<exists>s' F'. bfree a s = Some s' \<and>
    wf_cache s' F' c (p # remove1 p ps) (remove1 p fs) (os(p := os p @ [a])) \<and>
    (\<forall>x. Obj x \<in> nodes F' \<longrightarrow> Obj x \<in> nodes F \<or> x = a) \<and>
    (\<forall>l. l \<notin> {Page_freelist p, Slabs_partial c, Slabs_full c} \<longrightarrow> F' l = F l) \<and>
    page_map (pages s') = (page_map (pages s))(p := (page_map (pages s) p)\<lparr>inuse := inuse (page_map (pages s) p) - 1\<rparr>) \<and>
    caches s' = (caches s)(c := (caches s c)\<lparr>free_objs := free_objs (caches s c) + 1\<rparr>) \<and>
    bmalloc_caches s' = bmalloc_caches s"
proof -
  have w: "wf_lists (mlinks (pages s)) F" "F (Slabs_partial c) = Some (map Page_list ps)"
    "F (Slabs_full c) = Some (map Page_list fs)" "F (Slabs_free c) = Some []"
    and sc: "slab_counts s F c os p" using wf p by (auto simp: wf_cache_def)
  note nd = wf_cache_distinct [OF wf]
  have fl: "F (Page_freelist p) = Some (map Obj (os p))"
    and cnt: "unat (inuse (page_map (pages s) p)) + length (os p) = unat (nums (caches s c))"
    and z: "0 \<notin> set (os p)" using sc by (auto simp: slab_counts_def)
  let ?h1 = "list_add_tail (Obj a) (Page_freelist p) (mlinks (pages s))"
  let ?F1 = "F(Page_freelist p \<mapsto> map Obj (os p @ [a]))"
  have wf1: "wf_lists ?h1 ?F1" using lh.add_tail_law [OF w(1) fl a(2)] by simp
  define L where "L = (if p \<in> set ps then Slabs_partial c else Slabs_full c)"
  have "p \<in> set (if p \<in> set ps then ps else fs)" using p by auto
  from split_list_first [OF this] obtain us vs where
    uv: "(if p \<in> set ps then ps else fs) = us @ p # vs" "p \<notin> set us" by blast
  have L: "?F1 L = Some (map Page_list us @ Page_list p # map Page_list vs)"
  proof -
    have "F L = Some (map Page_list (if p \<in> set ps then ps else fs))" using w by (simp add: L_def)
    then show ?thesis unfolding uv(1) by (simp add: L_def)
  qed
  have rem: "remove1 p (us @ p # vs) = us @ vs" using uv(2) by (simp add: remove1_append)
  have T: "(?F1(L \<mapsto> map Page_list us @ map Page_list vs)) (Slabs_partial c) = Some (map Page_list (remove1 p ps))"
    using w(2) uv(1) rem by (auto simp: L_def remove1_idem)
  let ?F' = "?F1(L \<mapsto> map Page_list us @ map Page_list vs,
    Slabs_partial c \<mapsto> Page_list p # map Page_list (remove1 p ps))"
  have wf3: "wf_lists (list_move (Page_list p) (Slabs_partial c) ?h1) ?F'"
    unfolding list_move_def by (rule lh.move_law [OF wf1 L T])
  let ?i = "inuse (page_map (pages s) p)"
  have dec: "unat (?i - 1) = unat ?i - 1" using used unat_minus_le [of 1 ?i] by (simp add: word_le_nat_alt)
  then have nz: "?i - 1 \<noteq> 0" using used by (metis unat_0 zero_less_diff less_irrefl)
  define s' where "s' = upd_links (list_move (Page_list p) (Slabs_partial c))
    (slub_page p (\<lambda>q. q\<lparr>inuse := inuse q - 1\<rparr>)
      (upd_cache c (\<lambda>k. k\<lparr>free_objs := free_objs k + 1\<rparr>)
        (upd_links (list_add_tail (Obj a) (Page_freelist p)) s)))"
  have fr: "bfree a s = Some s'"
    using pg nz by (simp add: bfree_def bmem_obj_page_def bfree_object_def Let_def s'_def)
  have F'full: "?F' (Slabs_full c) = Some (map Page_list (remove1 p fs))"
    using w(3) uv(1) rem nd(3) p by (auto simp: L_def remove1_idem split: if_splits)
  have other: "slab_counts s' ?F' c (os(p := os p @ [a])) q" if "slab_counts s F c os q" "q \<noteq> p" for q
    using that by (simp add: slab_counts_def s'_def L_def)
  have this_page: "slab_counts s' ?F' c (os(p := os p @ [a])) p"
    using cnt dec used z a(1) by (simp add: slab_counts_def s'_def L_def)
  have sum: "sum_list (map (length \<circ> os(p := os p @ [a])) (p # remove1 p ps)) = sum_list (map (length \<circ> os) ps) + 1"
  proof (cases "p \<in> set ps")
    case True
    have e: "map (length \<circ> os(p := os p @ [a])) (remove1 p ps) = map (length \<circ> os) (remove1 p ps)"
      using nd(1) by (auto simp: set_remove1_eq)
    have "sum_list (map (length \<circ> os) ps) = (length \<circ> os) p + sum_list (map (length \<circ> os) (remove1 p ps))"
      by (rule sum_list_map_remove1 [OF True])
    then show ?thesis unfolding list.map sum_list.Cons e by simp
  next
    case False
    then have e: "os p = []" using wf p by (auto simp: wf_cache_def)
    have m: "map (length \<circ> os(p := os p @ [a])) ps = map (length \<circ> os) ps" using False by auto
    show ?thesis unfolding remove1_idem [OF False] list.map sum_list.Cons m using e by simp
  qed
  have free: "?F' (Slabs_free c) = Some []" using w(4) by (simp add: L_def)
  have wf': "wf_cache s' ?F' c (p # remove1 p ps) (remove1 p fs) (os(p := os p @ [a]))"
    unfolding wf_cache_def
  proof (intro conjI ballI)
    show "wf_lists (mlinks (pages s')) ?F'" using wf3 by (simp add: s'_def)
    show "free_objs (caches s' c) = of_nat (sum_list (map (length \<circ> os(p := os p @ [a])) (p # remove1 p ps)))"
      unfolding sum using wf by (simp add: s'_def wf_cache_def)
    fix q assume "q \<in> set (p # remove1 p ps)"
    then show "slab_counts s' ?F' c (os(p := os p @ [a])) q" "(os(p := os p @ [a])) q \<noteq> []"
      using this_page other wf nd(1) by (cases "q = p"; auto simp: wf_cache_def)+
  next
    fix q assume "q \<in> set (remove1 p fs)"
    then show "slab_counts s' ?F' c (os(p := os p @ [a])) q" "(os(p := os p @ [a])) q = []"
      using other wf nd(2) by (auto simp: wf_cache_def)
  qed (use F'full free in simp_all)
  have keep: "Obj x \<in> nodes F \<or> x = a" if x: "Obj x \<in> nodes ?F'" for x
  proof -
    have "nodes ?F' \<subseteq> nodes F \<union> set (Page_freelist p # map Obj (os p @ [a])) \<union>
      set (L # map Page_list us @ map Page_list vs) \<union>
      set (Slabs_partial c # Page_list p # map Page_list (remove1 p ps))"
      using nodes_upd_subset by (meson order_trans sup_mono order_refl)
    then show ?thesis using x nodes_mem [of F, OF fl] by (auto simp: L_def split: if_splits)
  qed
  have "bmalloc_caches s' = bmalloc_caches s" by (simp add: s'_def upd_links_def upd_cache_def slub_page_def)
  moreover have "page_map (pages s') = (page_map (pages s))(p := (page_map (pages s) p)\<lparr>inuse := inuse (page_map (pages s) p) - 1\<rparr>)"
    "caches s' = (caches s)(c := (caches s c)\<lparr>free_objs := free_objs (caches s c) + 1\<rparr>)"
    by (simp_all add: s'_def)
  moreover have "?F' l = F l" if "l \<notin> {Page_freelist p, Slabs_partial c, Slabs_full c}" for l
    using that by (simp add: L_def)
  ultimately show ?thesis using fr wf' keep by blast
qed

section \<open>Properties\<close>

text \<open>
  \<^verbatim>\<open>bmalloc\<close> of a nonzero size up to 32 KiB takes the cache with the smallest objects that
  are large enough; above that, up to 2 GiB, it finds none.
\<close>

theorem bmalloc_index_smallest:
  assumes "sz \<noteq> 0" and "unat sz \<le> 2 ^ 31"
  shows "\<exists>i. bmalloc_index sz = Some i \<and>
    (if unat sz \<le> 2 ^ 15
     then 0 \<le> i \<and> nat i < KMALLOC_CACHE_NUM \<and> unat sz \<le> unat (snd (bmalloc_info ! nat i)) \<and>
       (\<forall>j<nat i. unat (snd (bmalloc_info ! j)) < unat sz)
     else i < 0)"
proof -
  obtain k where k: "k < 32" "unat sz \<le> 2 ^ k" "\<forall>j<k. 2 ^ j < unat sz"
    "bmalloc_index sz = Some (if k \<le> 3 then 0 else if k \<le> 15 then int k - 3 else - 1)"
    using bmalloc_index_eq [OF assms] by blast
  have small: "unat sz \<le> 2 ^ 15 \<longleftrightarrow> k \<le> 15"
  proof
    show "k \<le> 15" if "unat sz \<le> 2 ^ 15" using k(3) that by (meson leD not_le)
    show "unat sz \<le> 2 ^ 15" if "k \<le> 15"
      using k(2) power_increasing [OF that, of "2::nat"] by linarith
  qed
  have c: "(nat i < KMALLOC_CACHE_NUM \<longrightarrow> unat (snd (bmalloc_info ! nat i)) = 2 ^ (nat i + 3))" for i
    using bmalloc_sizes by blast
  show ?thesis
  proof (cases "k \<le> 3")
    case True
    then have "unat sz \<le> 2 ^ 3" using k(2) power_increasing [OF True, of "2::nat"] by linarith
    then show ?thesis using k(4) True small c [of 0] by (simp add: KMALLOC_CACHE_NUM_def)
  next
    case False
    then show ?thesis
      using k small c [of "int k - 3"] bmalloc_sizes by (auto simp: KMALLOC_CACHE_NUM_def nat_diff_distrib)
  qed
qed

theorem bmalloc_index_smallest_witness:
  "\<exists>i. bmalloc_index 100 = Some i \<and> nat i < KMALLOC_CACHE_NUM \<and>
    100 \<le> unat (snd (bmalloc_info ! nat i)) \<and> (\<forall>j<nat i. unat (snd (bmalloc_info ! j)) < 100)"
  using bmalloc_index_smallest [of 100] by auto

text \<open>
  C13: on a well-formed cache with a partial slab, an allocation returns a free object, which is not
  free afterwards while every other one still is; the lists of slabs, the counters of the pages and
  of the cache stay consistent.
\<close>

theorem bmem_cache_alloc_sound:
  assumes "wf_cache s F c ps fs os" and "ps \<noteq> []" and "cctor (caches s c) \<noteq> Some Ctor_cache_init"
  shows "\<exists>s' a F' ps' fs' os'. bmem_cache_alloc c s = Some (s', a) \<and> a \<noteq> 0 \<and> a \<in> free_objects ps os \<and>
    wf_cache s' F' c ps' fs' os' \<and> free_objects ps' os' = free_objects ps os - {a} \<and>
    set ps' \<union> set fs' = set ps \<union> set fs"
proof -
  obtain p qs where ps: "ps = p # qs" using assms(2) by (cases ps) auto
  have "os p \<noteq> []" "0 \<notin> set (os p)"
    using assms(1) unfolding ps by (auto simp: wf_cache_def slab_counts_def)
  then obtain a rest where os: "os p = a # rest" "a \<noteq> 0" by (cases "os p") auto
  have "free_objects (if rest = [] then qs else p # qs) (os(p := rest)) = free_objects (p # qs) (os(p := rest))"
    by (auto simp: free_objects_def)
  moreover have "a \<in> free_objects ps os" using os unfolding ps by (simp add: free_objects_def)
  moreover obtain s' F' where al: "bmem_cache_alloc c s = Some (s', a)"
    "wf_cache s' F' c (if rest = [] then qs else p # qs) (if rest = [] then p # fs else fs) (os(p := rest))"
    using slab_alloc_partial [OF assms(1) [unfolded ps] assms(3) os(1)] by blast
  moreover have "set (if rest = [] then qs else p # qs) \<union> set (if rest = [] then p # fs else fs) = set ps \<union> set fs"
    unfolding ps by auto
  moreover note free_objects_pop [OF assms(1) [unfolded ps] os(1), folded ps]
  ultimately show ?thesis using os(2) unfolding ps [symmetric] by (metis (no_types))
qed


text \<open>A cache with one slab of two objects, on page 16, of which none is in use.\<close>

definition demo_slab_links :: "mnode links" where
  "demo_slab_links =
     (let c = Boot_cache; e = \<lparr>prv = (\<lambda>_. None), nxt = (\<lambda>_. None)\<rparr>;
          e = list_init (Slabs_free c) (list_init (Slabs_full c) (list_init (Slabs_partial c)
                (list_init (Page_freelist 16) e)));
          e = list_add_tail (Obj 0x10800) (Page_freelist 16) (list_add_tail (Obj 0x10000) (Page_freelist 16) e)
      in list_add (Page_list 16) (Slabs_partial c) e)"

definition demo_slab :: slub where
  "demo_slab =
     \<lparr>pages = \<lparr>page_map = (\<lambda>_. \<lparr>pflags = 0, paddr = 0x10000, porder = 0, compound_head = 16,
        slab_cache = Some Boot_cache, inuse = 2\<rparr>), nr_free = (\<lambda>_. 0), mlinks = demo_slab_links\<rparr>,
      caches = (\<lambda>_. \<lparr>cname = None, osize = 0x400, nums = 4, corder = 0, free_objs = 2, free_slabs = 0,
        total_slabs = 1, cctor = None\<rparr>), bmalloc_caches = (\<lambda>_. None)\<rparr>"

definition demo_slab_family :: "mnode family" where
  "demo_slab_family = [Slabs_free Boot_cache \<mapsto> [], Slabs_full Boot_cache \<mapsto> [],
     Slabs_partial Boot_cache \<mapsto> [Page_list 16], Page_freelist 16 \<mapsto> [Obj 0x10000, Obj 0x10800]]"

lemma not_nodes: "n \<notin> nodes (\<lambda>_. None)" "n \<notin> nodes F \<Longrightarrow> n \<notin> set (l # xs) \<Longrightarrow> n \<notin> nodes (F(l \<mapsto> xs))"
  using nodes_upd_subset [of F l xs] by (auto simp: nodes_def)

lemma demo_slab: "wf_cache demo_slab demo_slab_family Boot_cache [16] [] (\<lambda>_. [0x10000, 0x10800])"
proof -
  let ?c = Boot_cache and ?e = "\<lparr>prv = (\<lambda>_. None), nxt = (\<lambda>_. None)\<rparr> :: mnode links"
  let ?F0 = "\<lambda>_. None" and ?f = "Page_freelist 16 :: mnode" and ?p = "Slabs_partial ?c"
  have w0: "wf_lists ?e ?F0" by (simp add: wf_lists_def)
  note w1 = wf_init [OF w0, of ?f]
  note w2 = wf_init [OF w1, of ?p]
  note w3 = wf_init [OF w2, of "Slabs_full ?c"]
  note w4 = wf_init [OF w3, of "Slabs_free ?c"]
  note w5 = wf_add_tail [OF w4, of ?f "[]" "Obj 0x10000"]
  note w6 = wf_add_tail [OF w5, of ?f "[Obj 0x10000]" "Obj 0x10800"]
  note w7 = wf_add [OF w6, of ?p "[]" "Page_list 16"]
  have "wf_lists demo_slab_links (?F0(?f \<mapsto> [], ?p \<mapsto> [], Slabs_full ?c \<mapsto> [], Slabs_free ?c \<mapsto> [],
      ?f \<mapsto> [] @ [Obj 0x10000], ?f \<mapsto> [Obj 0x10000] @ [Obj 0x10800], ?p \<mapsto> [Page_list 16]))"
    unfolding demo_slab_links_def Let_def by (rule w7) (simp_all add: not_nodes)
  moreover have "?F0(?f \<mapsto> [], ?p \<mapsto> [], Slabs_full ?c \<mapsto> [], Slabs_free ?c \<mapsto> [],
      ?f \<mapsto> [] @ [Obj 0x10000], ?f \<mapsto> [Obj 0x10000] @ [Obj 0x10800], ?p \<mapsto> [Page_list 16]) = demo_slab_family"
    unfolding demo_slab_family_def by (rule ext) simp
  ultimately have "wf_lists demo_slab_links demo_slab_family" by simp
  then show ?thesis
    by (simp add: wf_cache_def slab_counts_def demo_slab_def demo_slab_family_def)
qed

theorem bmem_cache_alloc_sound_witness:
  "\<exists>s' a. bmem_cache_alloc Boot_cache demo_slab = Some (s', a) \<and> a \<in> {0x10000, 0x10800}"
  using bmem_cache_alloc_sound [OF demo_slab] by (auto simp: free_objects_def demo_slab_def)


text \<open>The same slab as a heap: it serves every size.\<close>

definition demo_heap :: slub where
  "demo_heap = demo_slab\<lparr>bmalloc_caches := (\<lambda>_. Some Boot_cache)\<rparr>"

lemma demo_heap_cache:
  assumes "sz \<noteq> 0" and "unat sz \<le> 2 ^ 15"
  shows "bmalloc_cache demo_heap sz = Some (Some Boot_cache)"
proof -
  have "unat sz \<le> 2 ^ 31" using assms(2) by simp
  then obtain k where k: "\<forall>j<k. 2 ^ j < unat sz"
    "bmalloc_index sz = Some (if k \<le> 3 then 0 else if k \<le> 15 then int k - 3 else - 1)"
    using bmalloc_index_eq [OF assms(1)] by blast
  have "k \<le> 15"
  proof (rule ccontr)
    assume "\<not> k \<le> 15"
    then have "15 < k" by simp
    with k(1) have "2 ^ 15 < unat sz" by blast
    then show False using assms(2) by simp
  qed
  then show ?thesis using k(2) by (auto simp: bmalloc_cache_def demo_heap_def)
qed

lemma demo_slab_alloc:
  defines "s \<equiv> demo_heap"
  shows "\<exists>t. bmem_cache_alloc Boot_cache s = Some (t, 0x10000) \<and> bmalloc_caches t = bmalloc_caches s \<and>
    osize (caches t Boot_cache) = 0x400 \<and> inuse (page_map (pages t) 16) = 3 \<and>
    slab_cache (page_map (pages t) 16) = Some Boot_cache \<and> compound_head (page_map (pages t) 16) = 16"
proof -
  let ?F = demo_slab_family and ?L = "Slabs_partial Boot_cache"
  have eq: "pages s = pages demo_slab" "caches s = caches demo_slab" by (simp_all add: s_def demo_heap_def)
  have pg: "page_map (pages s) 16 = \<lparr>pflags = 0, paddr = 0x10000, porder = 0, compound_head = 16,
      slab_cache = Some Boot_cache, inuse = 2\<rparr>"
    and ch: "nums (caches s Boot_cache) = 4" "osize (caches s Boot_cache) = 0x400" "cctor (caches s Boot_cache) = None"
    unfolding eq by (simp_all add: demo_slab_def)
  have wf: "wf_lists (mlinks (pages s)) ?F" using demo_slab unfolding wf_cache_def eq by blast
  have F: "?F (Page_freelist 16) = Some (map Obj [0x10000, 0x10800])" "?F ?L = Some ([] @ Page_list 16 # [])"
    by (simp_all add: demo_slab_family_def)
  have T: "(?F(Page_freelist 16 \<mapsto> map Obj [0x10800], ?L \<mapsto> [] @ [])) ?L = Some []" by simp
  obtain t where t: "bmem_cache_alloc_object Boot_cache 16 s = (t, 0x10000)"
    "page_map (pages t) = (page_map (pages s))(16 := (page_map (pages s) 16)\<lparr>inuse := inuse (page_map (pages s) 16) + 1\<rparr>)"
    "caches t = (caches s)(Boot_cache := (caches s Boot_cache)\<lparr>free_objs := free_objs (caches s Boot_cache) - 1\<rparr>)"
    using alloc_object_lists [OF wf F, of ?L Boot_cache "[]"] T by (auto simp: pg ch)
  have "list_first_or_null ?L (mlinks (pages s)) = Some (Page_list 16)"
    using lh.first_law [OF wf F(2)] by simp
  then have "bmem_cache_alloc Boot_cache s = Some (t, 0x10000)"
    using t(1) by (simp add: bmem_cache_alloc_def bmem_cache_page_def page_of_def)
  moreover have "bmalloc_caches t = bmalloc_caches s"
    using alloc_object_keeps [of Boot_cache 16 s] t(1) by simp
  ultimately show ?thesis using t(2,3) pg ch by simp
qed

lemma demo_heap_bmalloc:
  assumes "sz \<noteq> 0" and "unat sz \<le> 2 ^ 15"
  shows "\<exists>t t'. bmalloc sz demo_heap = Some (t, 0x10000) \<and> bmalloc_cache t sz = Some (Some Boot_cache) \<and>
    osize (caches t Boot_cache) = 0x400 \<and> bfree 0x10000 t = Some t'"
proof -
  obtain t where t: "bmem_cache_alloc Boot_cache demo_heap = Some (t, 0x10000)" "bmalloc_caches t = bmalloc_caches demo_heap"
    "osize (caches t Boot_cache) = 0x400" "inuse (page_map (pages t) 16) = 3"
    "slab_cache (page_map (pages t) 16) = Some Boot_cache" "compound_head (page_map (pages t) 16) = 16"
    using demo_slab_alloc by blast
  have ph: "phys_to_page 0x10000 = 16" "in_map 16"
    by (simp_all add: in_map_def phys_to_page_def phys_to_pfn_def page_num_def PAGE_SHIFT_def)
  have "\<exists>t'. bfree 0x10000 t = Some t'"
    by (simp add: bfree_def bmem_obj_page_def ph t(4,5,6) bfree_object_def Let_def)
  moreover have "bmalloc sz demo_heap = Some (t, 0x10000)"
    using t(1) by (simp add: bmalloc_def demo_heap_cache [OF assms])
  moreover have "bmalloc_cache t sz = Some (Some Boot_cache)"
    using demo_heap_cache [OF assms] unfolding bmalloc_cache_def t(2) .
  ultimately show ?thesis using t(3) by blast
qed

end
