(* ===== verification/Bytes.thy ===== *)
theory Bytes
  imports Cstring
begin

text \<open>
  Reading structures out of buffers that are lists of bytes, for the file systems, the ELF code and
  the configuration files: little-endian fields at an offset and the comparison of a string with the
  bytes in a buffer. A read past the end of the buffer is \<open>None\<close>. The comparison is shown to be
  the one that \<^verbatim>\<open>strncmp\<close> makes on the memory that holds the bytes.
\<close>

definition byte_at :: "u8 list \<Rightarrow> nat \<Rightarrow> u8 option" where
  "byte_at bs i = (if i < length bs then Some (bs ! i) else None)"

definition le16_at :: "u8 list \<Rightarrow> nat \<Rightarrow> u16 option" where
  "le16_at bs i = do { a \<leftarrow> byte_at bs i; b \<leftarrow> byte_at bs (i + 1); Some (ucast a OR push_bit 8 (ucast b)) }"

definition le32_at :: "u8 list \<Rightarrow> nat \<Rightarrow> u32 option" where
  "le32_at bs i = do { a \<leftarrow> le16_at bs i; b \<leftarrow> le16_at bs (i + 2); Some (ucast a OR push_bit 16 (ucast b)) }"

text \<open>The bytes of a string constant.\<close>

definition str :: "string \<Rightarrow> u8 list" where
  "str s = map of_char s"

text \<open>The bytes of the memory from an address on.\<close>

definition mem_bytes :: "mem \<Rightarrow> u32 \<Rightarrow> nat \<Rightarrow> u8 list" where
  "mem_bytes m a n = map (\<lambda>i. m (a + of_nat i)) [0..<n]"

lemma length_mem_bytes [simp]: "length (mem_bytes m a n) = n"
  by (simp add: mem_bytes_def)

lemma mem_bytes_Suc: "mem_bytes m a (Suc n) = m a # mem_bytes m (a + 1) n"
  unfolding mem_bytes_def upt_conv_Cons [OF zero_less_Suc] list.map map_Suc_upt [symmetric] map_map
  by (simp add: o_def algebra_simps)

text \<open>Whether \<^verbatim>\<open>strncmp\<close> of a terminated string with the bytes of a buffer is 0.\<close>

fun strn_equal :: "u8 list \<Rightarrow> u8 list \<Rightarrow> nat \<Rightarrow> bool option" where
  "strn_equal s bs 0 = Some True"
| "strn_equal s [] (Suc n) = None"
| "strn_equal [] (b # bs) (Suc n) = Some (b = 0)"
| "strn_equal (c # s) (b # bs) (Suc n) =
     (if c \<noteq> b then Some False else if c = 0 then Some True else strn_equal s bs n)"

lemma strn_equal_strncmp:
  "cstr m p s \<Longrightarrow> strn_equal s (mem_bytes m q k) n = Some r \<Longrightarrow> strncmp_loop m p q n = 0 \<longleftrightarrow> r"
proof (induction n arbitrary: p q s k)
  case (Suc n)
  from Suc.prems(2) obtain j where k: "k = Suc j" by (cases k) (auto simp: mem_bytes_def)
  show ?case
  proof (cases s)
    case Nil
    with Suc.prems show ?thesis by (auto simp: k mem_bytes_Suc Let_def)
  next
    case (Cons c t)
    with Suc.prems have c: "m p = c" "c \<noteq> 0" "cstr m (p + 1) t" by auto
    show ?thesis
      using Suc.prems(2) Suc.IH [OF c(3), of "q + 1" j] c
      by (auto simp: Cons k mem_bytes_Suc Let_def split: if_splits)
  qed
qed simp

lemma strn_equal_prefix:
  "n \<le> length bs \<Longrightarrow> 0 \<notin> set s \<Longrightarrow> 0 \<notin> set (take n bs) \<Longrightarrow>
   strn_equal s bs n = Some (n \<le> length s \<and> take n s = take n bs)"
proof (induction s bs n rule: strn_equal.induct)
  case (4 c s b bs n)
  then show ?case by auto
qed auto

section \<open>Bytes put into the memory\<close>

definition put_bytes :: "mem \<Rightarrow> u32 \<Rightarrow> u8 list \<Rightarrow> mem" where
  "put_bytes m p bs = (\<lambda>a. if unat (a - p) < length bs then bs ! unat (a - p) else m a)"

lemma put_bytes_outside: "length bs \<le> unat (a - p) \<Longrightarrow> put_bytes m p bs a = m a"
  by (simp add: put_bytes_def)

lemma mem_bytes_put_bytes:
  assumes "length bs \<le> 2 ^ 32"
  shows "mem_bytes (put_bytes m p bs) p (length bs) = bs"
proof (rule nth_equalityI)
  fix i assume "i < length (mem_bytes (put_bytes m p bs) p (length bs))"
  then have i: "i < length bs" by simp
  then have "unat (of_nat i :: u32) = i" using assms by (intro unat_of_nat32) simp
  with i show "mem_bytes (put_bytes m p bs) p (length bs) ! i = bs ! i"
    by (simp add: mem_bytes_def put_bytes_def)
qed simp

end
