(* ===== verification/Fsnode.thy ===== *)
theory Fsnode
  imports Bytes Blockdev Slub
begin

text \<open>
  The state of the virtual file system: the nodes of \<^verbatim>\<open>elfboot/fs.h\<close>, linked into a tree, with
  the superblocks of the mounted file systems. Nodes and superblocks live at the addresses that the
  slab allocator gives them. What the file systems share is here: the allocation of a node and of a
  buffer. \<^verbatim>\<open>src/fs/ramfs/ramfs.c\<close>, the file system of the root, follows at the end.
\<close>

section \<open>State\<close>

text \<open>The tables of operations of the three file systems, and the device of a device node.\<close>

datatype fs_ops = Ramfs_ops | Isofs_ops | Ext2fs_ops

datatype device = No_device | Block_device bdev | Char_device cdev

text \<open>What the file systems keep behind their \<^verbatim>\<open>private\<close> pointers: the inode of an ext2 node, the
  superblock of an ext2 file system. The block pointers of an inode are those of \<^verbatim>\<open>dbp\<close> and the
  three indirect ones behind it, which the code reads as \<^verbatim>\<open>dbp[12 + i]\<close>.\<close>

record ext2_inode =
  size_lower :: u32
  dbp :: "u32 list"

record ext2_superblock =
  log_block_size :: u32
  inodes_per_group :: u32
  esb_magic :: u16
  esb_revision :: u32
  inode_size :: u16

record fs_node =
  nname :: "u8 list"
  nflags :: u32
  ninode :: u32
  nlength :: u32
  nops :: "fs_ops option"
  ndev :: device
  nprivate :: "ext2_inode option"
  nsb :: u32

record vsuper =
  super :: superblock
  sroot :: u32
  smount :: u32
  sprivate :: "ext2_superblock option"

datatype fs_type = Ramfs | Isofs | Ext2fs

record vfs =
  vslub :: slub
  vmem :: mem
  fsnodes :: "u32 \<Rightarrow> fs_node"
  vtree :: "u32 tree"
  sbs :: "u32 \<Rightarrow> vsuper"
  fs_root :: u32
  fs_node_cache :: u32
  filesystems :: "fs_type list"
  vbdevs :: "bdev list"
  vcdevs :: "cdev list"
  null_bdev :: bdev

text \<open>The lists of devices are in list order, the newest first; \<open>null_bdev\<close> is the memory at address
  0 read as a block device.\<close>

definition FS_FILE :: u32 where "FS_FILE = 1"
definition FS_DIRECTORY :: u32 where "FS_DIRECTORY = 2"
definition FS_CHARDEVICE :: u32 where "FS_CHARDEVICE = 4"
definition FS_BLOCKDEVICE :: u32 where "FS_BLOCKDEVICE = 8"
definition FS_FLAGS_MASK :: u32 where "FS_FLAGS_MASK = push_bit 7 1 - 1"

definition upd_node :: "u32 \<Rightarrow> (fs_node \<Rightarrow> fs_node) \<Rightarrow> vfs \<Rightarrow> vfs" where
  "upd_node a f s = s\<lparr>fsnodes := (fsnodes s)(a := f (fsnodes s a))\<rparr>"

definition upd_sb :: "u32 \<Rightarrow> (vsuper \<Rightarrow> vsuper) \<Rightarrow> vfs \<Rightarrow> vfs" where
  "upd_sb a f s = s\<lparr>sbs := (sbs s)(a := f (sbs s a))\<rparr>"

section \<open>Memory\<close>

text \<open>\<^verbatim>\<open>bmalloc\<close> and \<^verbatim>\<open>bfree\<close> on the state, and the bytes of a fresh buffer, which
  hold whatever the memory does.\<close>

definition vmalloc :: "u32 \<Rightarrow> vfs \<Rightarrow> (vfs \<times> u32) option" where
  "vmalloc sz s = do { (m, a) \<leftarrow> bmalloc sz (vslub s); Some (s\<lparr>vslub := m\<rparr>, a) }"

definition vfree :: "u32 \<Rightarrow> vfs \<Rightarrow> vfs option" where
  "vfree a s = do { m \<leftarrow> bfree a (vslub s); Some (s\<lparr>vslub := m\<rparr>) }"

text \<open>The object that \<^verbatim>\<open>bmalloc\<close> hands out is as large as those of its cache.\<close>

definition object_size :: "vfs \<Rightarrow> u32 \<Rightarrow> nat" where
  "object_size s sz =
     (case bmalloc_cache (vslub s) sz of
        Some (Some c) \<Rightarrow> unat (osize (caches (vslub s) c))
      | _ \<Rightarrow> unat sz)"

definition fresh_buffer :: "vfs \<Rightarrow> u32 \<Rightarrow> u32 \<Rightarrow> u8 list" where
  "fresh_buffer s a sz = mem_bytes (vmem s) a (object_size s sz)"

text \<open>The operations of \<^verbatim>\<open>super.c\<close> on the superblock at an address. \<^verbatim>\<open>superblock_read_offset\<close>
  takes its block buffer from the allocator and gives it back.\<close>

definition sb_read_block :: "u32 \<Rightarrow> u64 \<Rightarrow> u8 list \<Rightarrow> vfs \<Rightarrow> (int \<times> u8 list) option" where
  "sb_read_block sb blkidx buf s = superblock_read_block (super (sbs s sb)) blkidx buf"

definition sb_read_offset :: "u32 \<Rightarrow> u64 \<Rightarrow> u64 \<Rightarrow> u8 list \<Rightarrow> vfs \<Rightarrow> (vfs \<times> int \<times> u8 list) option" where
  "sb_read_offset sb off len buf s =
     (let b = super (sbs s sb); sz = ucast (block_size b) in
      do { (s, a) \<leftarrow> vmalloc sz s;
           (r, buf) \<leftarrow> superblock_read_offset b off len
             (if a = 0 then None else Some (fresh_buffer s a sz)) buf;
           s \<leftarrow> (if a = 0 then Some s else vfree a s);
           Some (s, r, buf) })"

section \<open>Nodes\<close>

definition zero_node :: fs_node where
  "zero_node = \<lparr>nname = [], nflags = 0, ninode = 0, nlength = 0, nops = None, ndev = No_device,
     nprivate = None, nsb = 0\<rparr>"

text \<open>\<^verbatim>\<open>fs_node_alloc\<close>: the constructor of the cache clears the node, so the copied name is
  terminated; a name that does not fit into its 64 bytes overruns the node (\<open>None\<close>).\<close>

definition fs_node_alloc :: "u8 list \<Rightarrow> vfs \<Rightarrow> (vfs \<times> u32) option" where
  "fs_node_alloc name s =
     do { (m, a) \<leftarrow> bmem_cache_alloc (Cache_at (fs_node_cache s)) (vslub s);
          let s = s\<lparr>vslub := m\<rparr>;
          if a = 0 then Some (s, 0)
          else if length name > 64 then None
          else Some (upd_node a (\<lambda>_. zero_node\<lparr>nname := name\<rparr>) (s\<lparr>vtree := tree_node_init a (vtree s)\<rparr>), a) }"

definition fs_register :: "fs_type \<Rightarrow> vfs \<Rightarrow> vfs" where
  "fs_register fs s = s\<lparr>filesystems := fs # filesystems s\<rparr>"

definition fs_unregister :: "fs_type \<Rightarrow> vfs \<Rightarrow> vfs" where
  "fs_unregister fs s = s\<lparr>filesystems := remove1 fs (filesystems s)\<rparr>"

section \<open>The memory file system\<close>

definition ramfs_alloc_node :: "u8 list \<Rightarrow> vfs \<Rightarrow> (vfs \<times> u32) option" where
  "ramfs_alloc_node name s =
     do { (s, a) \<leftarrow> fs_node_alloc name s;
          if a = 0 then Some (s, 0) else Some (upd_node a (\<lambda>n. n\<lparr>nops := Some Ramfs_ops\<rparr>) s, a) }"

definition ramfs_fill_super :: "u32 \<Rightarrow> u8 list \<Rightarrow> vfs \<Rightarrow> (vfs \<times> u32) option" where
  "ramfs_fill_super sb name s =
     (if \<not> sb_null (super (sbs s sb)) then Some (s, 0)
      else do {
        (s, a) \<leftarrow> ramfs_alloc_node name s;
        if a = 0 then Some (s, 0)
        else
          let s = upd_sb sb (\<lambda>b. b\<lparr>sroot := a, smount := a\<rparr>) s
          in Some (upd_node a (\<lambda>n. n\<lparr>nsb := sb\<rparr>) s, a) })"

definition ramfs_init :: "vfs \<Rightarrow> vfs" where
  "ramfs_init s = fs_register Ramfs s"

end
