(* ===== verification/Iso9660.thy ===== *)
theory Iso9660
  imports Fsnode
begin

text \<open>
  \<^verbatim>\<open>src/fs/isofs/isofs.c\<close> and \<^verbatim>\<open>fs/isofs.h\<close>: the ISO 9660 file system. Descriptors and
  directory records are read at their byte offsets from the buffers; a pointer into a buffer is an
  offset. \<open>None\<close> is a read outside of the buffer, and a search that does not end.
\<close>

section \<open>Layout\<close>

definition ISOFS_PRIMARY_SECTOR :: u64 where "ISOFS_PRIMARY_SECTOR = 0x10"
definition ISOFS_PRIMARY_VOLUME_ID :: "u8 list" where "ISOFS_PRIMARY_VOLUME_ID = str ''CD001''"

text \<open>Offsets of \<^verbatim>\<open>struct iso_primary_descriptor\<close>.\<close>

definition desc_id :: nat where "desc_id = 1"
definition desc_logical_block_size :: nat where "desc_logical_block_size = 128"
definition desc_root_directory_record :: nat where "desc_root_directory_record = 156"

text \<open>Offsets of \<^verbatim>\<open>struct iso_directory_record\<close>, and its size without the name.\<close>

definition dent_extent :: nat where "dent_extent = 2"
definition dent_size :: nat where "dent_size = 10"
definition dent_flags :: nat where "dent_flags = 25"
definition dent_name_len :: nat where "dent_name_len = 32"
definition dent_name :: nat where "dent_name = 33"
definition DENT_BYTES :: nat where "DENT_BYTES = 33"

definition isonum_711 :: "u8 list \<Rightarrow> nat \<Rightarrow> u32 option" where
  "isonum_711 bs i = map_option ucast (byte_at bs i)"

definition isonum_723 :: "u8 list \<Rightarrow> nat \<Rightarrow> u32 option" where
  "isonum_723 bs i = map_option ucast (le16_at bs i)"

definition isonum_733 :: "u8 list \<Rightarrow> nat \<Rightarrow> u32 option" where
  "isonum_733 bs i = le32_at bs i"

section \<open>Nodes\<close>

definition isofs_alloc_node :: "u32 \<Rightarrow> u8 list \<Rightarrow> vfs \<Rightarrow> (vfs \<times> u32) option" where
  "isofs_alloc_node sb name s =
     do { (s, a) \<leftarrow> fs_node_alloc name s;
          if a = 0 then Some (s, 0)
          else Some (upd_node a (\<lambda>n. n\<lparr>nops := Some Isofs_ops, nsb := sb\<rparr>) s, a) }"

definition isofs_alloc_dent :: "u32 \<Rightarrow> u8 list \<Rightarrow> nat \<Rightarrow> u8 list \<Rightarrow> vfs \<Rightarrow> (vfs \<times> u32) option" where
  "isofs_alloc_dent sb buf dent name s =
     do { (s, a) \<leftarrow> isofs_alloc_node sb name s;
          if a = 0 then Some (s, 0)
          else do {
            ext \<leftarrow> isonum_733 buf (dent + dent_extent);
            sz \<leftarrow> isonum_733 buf (dent + dent_size);
            fl \<leftarrow> byte_at buf (dent + dent_flags);
            let s = upd_node a (\<lambda>n. n\<lparr>ninode := ext, nlength := sz\<rparr>) s;
            let s = (if fl AND 2 \<noteq> 0 then upd_node a (\<lambda>n. n\<lparr>nflags := nflags n OR FS_DIRECTORY\<rparr>) s else s);
            Some (s, a) } }"

text \<open>\<^verbatim>\<open>ffs\<close> gives the number of the lowest bit that is set.\<close>

definition isofs_fill_super :: "u32 \<Rightarrow> u8 list \<Rightarrow> vfs \<Rightarrow> (vfs \<times> u32) option" where
  "isofs_fill_super sb name s =
     (let b = super (sbs s sb); dev = sb_bdev b; sz = ucast (bdev_block_size dev) in
      if sb_null b then Some (s, 0)
      else do {
        (s, d) \<leftarrow> vmalloc sz s;
        if d = 0 then Some (s, 0)
        else do {
          let (r, bs) = bdev_read dev ISOFS_PRIMARY_SECTOR 1;
          desc \<leftarrow> put_at (fresh_buffer s d sz) 0 bs;
          id \<leftarrow> (if r \<noteq> 0 then Some False else strn_equal ISOFS_PRIMARY_VOLUME_ID (drop desc_id desc) 5);
          if \<not> id then do { s \<leftarrow> vfree d s; Some (s, 0) }
          else do {
            (s, a) \<leftarrow> isofs_alloc_dent sb desc desc_root_directory_record name s;
            if a = 0 then do { s \<leftarrow> vfree d s; Some (s, 0) }
            else do {
              lbs \<leftarrow> isonum_723 desc desc_logical_block_size;
              let s = upd_node a (\<lambda>n. n\<lparr>nsb := sb\<rparr>) s;
              let s = upd_sb sb (\<lambda>v. v\<lparr>sroot := a, smount := a,
                super := (super v)\<lparr>block_size := ucast lbs,
                  block_logs := word_of_int (ffs (ucast (ucast lbs :: u16)))\<rparr>\<rparr>) s;
              s \<leftarrow> vfree d s;
              Some (s, a) } } } })"

section \<open>Reading\<close>

text \<open>The result is the number of bytes, or the error code as an unsigned number, and the buffer.
  The product of block size and extent is taken in 32 bits.\<close>

definition isofs_read :: "u32 \<Rightarrow> u64 \<Rightarrow> u32 \<Rightarrow> u8 list \<Rightarrow> vfs \<Rightarrow> (vfs \<times> u32 \<times> u8 list) option" where
  "isofs_read node off len buf s =
     (let n = fsnodes s node; b = super (sbs s (nsb n));
          blkoff = ucast (ucast (block_size b) * ninode n :: u32) + off
      in do { (s, r, buf) \<leftarrow> sb_read_offset (nsb n) blkoff (ucast len) buf s;
              Some (s, if r \<noteq> 0 then - word_of_int (errno_val EFAULT) else len, buf) })"

section \<open>Searching a directory\<close>

text \<open>The length of the name of a record: a file has the suffix \<^verbatim>\<open>;1\<close>, and a trailing dot when
  the name sought has none.\<close>

definition record_name_len :: "u8 list \<Rightarrow> u8 list \<Rightarrow> nat \<Rightarrow> u32 option" where
  "record_name_len name buf dpos =
     do { nl \<leftarrow> isonum_711 buf (dpos + dent_name_len);
          fl \<leftarrow> byte_at buf (dpos + dent_flags);
          if fl AND 2 \<noteq> 0 then Some nl
          else do {
            let nl = nl - 2;
            if of_char CHR ''.'' \<in> set name then Some nl
            else do {
              c \<leftarrow> byte_at buf (dpos + dent_name + unat (nl - 1));
              Some (if c = of_char CHR ''.'' then nl - 1 else nl) } } }"

text \<open>The loop of \<^verbatim>\<open>isofs_finddir\<close>: the offset of the record found, if any. A record of length
  0 skips to the next sector, through a pointer to records, so in steps of a record.\<close>

partial_function (option) finddir_loop ::
  "u8 list \<Rightarrow> u8 list \<Rightarrow> u16 \<Rightarrow> u32 \<Rightarrow> nat \<Rightarrow> nat \<Rightarrow> nat option option" where
  "finddir_loop name buf bsize sz dpos dent =
     (if sz = 0 then Some None
      else do {
        len \<leftarrow> isonum_711 buf dpos;
        if len = 0 then
          let dent = dent + DENT_BYTES * unat bsize
          in finddir_loop name buf bsize (sz - ucast bsize) dent dent
        else do {
          nl \<leftarrow> record_name_len name buf dpos;
          eq \<leftarrow> strn_equal name (drop (dpos + dent_name) buf) (unat nl);
          if eq then Some (Some dpos)
          else finddir_loop name buf bsize sz (dpos + unat len) dent } })"

definition isofs_finddir :: "u32 \<Rightarrow> u8 list \<Rightarrow> vfs \<Rightarrow> (vfs \<times> u32) option" where
  "isofs_finddir node name s =
     (let n = fsnodes s node; b = super (sbs s (nsb n)); sz = nlength n in
      do { (s, d) \<leftarrow> vmalloc sz s;
           if d = 0 then Some (s, 0)
           else do {
             let numblk = drop_bit (unat (block_logs b)) sz;
             (r, buf) \<leftarrow> superblock_read_blocks b (ucast (ninode n)) (ucast numblk) (fresh_buffer s d sz);
             if r \<noteq> 0 then do { s \<leftarrow> vfree d s; Some (s, 0) }
             else do {
               found \<leftarrow> finddir_loop name buf (block_size b) sz 0 0;
               case found of
                 None \<Rightarrow> do { s \<leftarrow> vfree d s; Some (s, 0) }
               | Some dpos \<Rightarrow> do {
                   (s, a) \<leftarrow> isofs_alloc_dent (nsb n) buf dpos name s;
                   s \<leftarrow> vfree d s;
                   Some (s, a) } } } })"

definition isofs_init :: "vfs \<Rightarrow> vfs" where
  "isofs_init s = fs_register Isofs s"

section \<open>Directories on disk\<close>

text \<open>A directory record and its bytes: both-endian numbers, of which the code reads the little
  half, the flags, the name and what may follow it up to the length of the record.\<close>

record iso_record =
  r_extent :: u32
  r_size :: u32
  r_flags :: u8
  r_name :: "u8 list"
  r_tail :: "u8 list"

definition le32_bytes :: "u32 \<Rightarrow> u8 list" where
  "le32_bytes v = [ucast v, ucast (drop_bit 8 v), ucast (drop_bit 16 v), ucast (drop_bit 24 v)]"

definition record_len :: "iso_record \<Rightarrow> nat" where
  "record_len r = DENT_BYTES + length (r_name r) + length (r_tail r)"

definition record_bytes :: "iso_record \<Rightarrow> u8 list" where
  "record_bytes r = [of_nat (record_len r), 0] @ le32_bytes (r_extent r) @ rev (le32_bytes (r_extent r))
     @ le32_bytes (r_size r) @ rev (le32_bytes (r_size r)) @ replicate 7 0 @ [r_flags r, 0, 0]
     @ [1, 0, 0, 1] @ [of_nat (length (r_name r))] @ r_name r @ r_tail r"

definition wf_record :: "iso_record \<Rightarrow> bool" where
  "wf_record r \<longleftrightarrow> record_len r < 256 \<and> 0 \<notin> set (r_name r) \<and> (r_flags r AND 2 \<noteq> 0 \<or> 2 < length (r_name r))"

text \<open>The part of the name that is compared: without the version of a file, and without its trailing
  dot when the name sought has no dot.\<close>

definition shown_name :: "u8 list \<Rightarrow> iso_record \<Rightarrow> u8 list" where
  "shown_name name r =
     (if r_flags r AND 2 \<noteq> 0 then r_name r
      else
        let n = take (length (r_name r) - 2) (r_name r)
        in if of_char CHR ''.'' \<notin> set name \<and> last n = of_char CHR ''.'' then butlast n else n)"

lemma length_record: "length (record_bytes r) = record_len r"
  by (simp add: record_bytes_def record_len_def le32_bytes_def DENT_BYTES_def)

lemma seven_zeros: "replicate 7 (0::u8) = [0, 0, 0, 0, 0, 0, 0]"
  by (simp add: numeral_Bit0 numeral_Bit1)

lemma record_bytes_header:
  "\<exists>h. record_bytes r = h @ r_name r @ r_tail r \<and> length h = 33 \<and> h ! 0 = of_nat (record_len r) \<and>
     h ! 25 = r_flags r \<and> h ! 32 = of_nat (length (r_name r)) \<and>
     take 4 (drop 2 h) = le32_bytes (r_extent r) \<and> take 4 (drop 10 h) = le32_bytes (r_size r)"
proof (intro exI [of _ "take 33 (record_bytes r)"] conjI)
  show "record_bytes r = take 33 (record_bytes r) @ r_name r @ r_tail r"
    by (simp add: record_bytes_def le32_bytes_def seven_zeros)
qed (simp_all add: record_bytes_def le32_bytes_def seven_zeros record_len_def DENT_BYTES_def)

lemma byte_at_append [simp]: "byte_at (xs @ ys) (length xs + i) = byte_at ys i"
  by (simp add: byte_at_def nth_append)

lemma le32_at_bytes: "take 4 (drop i bs) = le32_bytes v \<Longrightarrow> le32_at bs i = Some v"
proof -
  assume t: "take 4 (drop i bs) = le32_bytes v"
  then have len: "i + 4 \<le> length bs" by (auto simp: le32_bytes_def dest: arg_cong [of _ _ length])
  have nth: "bs ! (i + k) = le32_bytes v ! k" if "k < 4" for k
    using arg_cong [OF t, of "\<lambda>l. l ! k"] that len by simp
  have "byte_at bs (i + k) = Some (le32_bytes v ! k)" if "k < 4" for k
    using that len nth by (simp add: byte_at_def)
  from this [of 0] this [of 1] this [of 2] this [of 3]
  have b: "byte_at bs i = Some (ucast v)" "byte_at bs (i + 1) = Some (ucast (drop_bit 8 v))"
    "byte_at bs (i + 2) = Some (ucast (drop_bit 16 v))" "byte_at bs (i + 2 + 1) = Some (ucast (drop_bit 24 v))"
    by (simp_all add: le32_bytes_def numeral_3_eq_3)
  have "ucast (ucast (ucast v :: u8) OR push_bit 8 (ucast (ucast (drop_bit 8 v) :: u8)) :: u16) OR
      push_bit 16 (ucast (ucast (ucast (drop_bit 16 v) :: u8) OR
        push_bit 8 (ucast (ucast (drop_bit 24 v) :: u8)) :: u16)) = v"
  proof (rule bit_word_eqI)
    fix n assume "n < LENGTH(32)"
    then consider "n < 8" | "8 \<le> n \<and> n < 16" | "16 \<le> n \<and> n < 24" | "24 \<le> n \<and> n < 32" by force
    then show "bit (ucast (ucast (ucast v :: u8) OR push_bit 8 (ucast (ucast (drop_bit 8 v) :: u8)) :: u16) OR
      push_bit 16 (ucast (ucast (ucast (drop_bit 16 v) :: u8) OR
        push_bit 8 (ucast (ucast (drop_bit 24 v) :: u8)) :: u16)) :: u32) n = bit v n"
      by cases (auto simp: bit_simps)
  qed
  then show ?thesis by (simp only: le32_at_def le16_at_def b Option.bind.simps)
qed

text \<open>The offset of the first record whose shown name is a prefix of the name sought.\<close>

definition name_matches :: "u8 list \<Rightarrow> iso_record \<Rightarrow> bool" where
  "name_matches name r \<longleftrightarrow>
     (let n = shown_name name r in length n \<le> length name \<and> take (length n) name = n)"

fun first_record :: "u8 list \<Rightarrow> iso_record list \<Rightarrow> nat \<Rightarrow> nat option" where
  "first_record name [] off = None"
| "first_record name (r # rs) off =
     (if name_matches name r then Some off else first_record name rs (off + record_len r))"

lemma byte_at_pre: "length pre = d \<Longrightarrow> byte_at (pre @ xs) (d + i) = byte_at xs i"
  by auto

lemma byte_at_header: "i < length h \<Longrightarrow> byte_at (h @ xs) i = Some (h ! i)"
  by (simp add: byte_at_def nth_append)

lemma ucast_of_nat8: "n < 256 \<Longrightarrow> (ucast (of_nat n :: u8) :: u32) = of_nat n"
proof -
  assume n: "n < 256"
  have "(ucast (of_nat n :: u8) :: u32) = of_nat (unat (of_nat n :: u8))" by (rule ucast_nat)
  then show ?thesis using n by (simp only: unat_of_nat_lt) (simp add: unat_of_nat_lt)
qed

lemma shown_name_take:
  assumes "wf_record r"
  shows "shown_name name r = take (length (shown_name name r)) (r_name r)"
proof -
  have "\<exists>k. shown_name name r = take k (r_name r)"
    unfolding shown_name_def Let_def butlast_take by (metis butlast_conv_take take_all_iff order_refl take_take)
  then obtain k where k: "shown_name name r = take k (r_name r)" by blast
  show ?thesis unfolding k by (cases "k \<le> length (r_name r)") simp_all
qed

lemma record_name_len_eq:
  assumes wf: "wf_record r" and pre: "length pre = d"
  shows "record_name_len name (pre @ record_bytes r @ post) d = Some (of_nat (length (shown_name name r)))"
proof -
  obtain h where h: "record_bytes r = h @ r_name r @ r_tail r" "length h = 33" "h ! 25 = r_flags r"
    "h ! 32 = of_nat (length (r_name r))" using record_bytes_header by blast
  let ?b = "pre @ record_bytes r @ post" and ?n = "length (r_name r)"
  have n: "?n < 256" using wf by (simp add: wf_record_def record_len_def)
  have "byte_at ?b (d + 32) = Some (of_nat ?n)" "byte_at ?b (d + 25) = Some (r_flags r)"
    unfolding h(1) append_assoc byte_at_pre [OF pre] using h by (simp_all add: byte_at_header)
  then have nl: "isonum_711 ?b (d + dent_name_len) = Some (of_nat ?n)"
    and fl: "byte_at ?b (d + dent_flags) = Some (r_flags r)"
    using n by (simp_all add: isonum_711_def dent_name_len_def dent_flags_def ucast_of_nat8)
  show ?thesis
  proof (cases "r_flags r AND 2 \<noteq> 0")
    case True
    then show ?thesis by (simp add: record_name_len_def nl fl shown_name_def)
  next
    case False
    then have n2: "2 < ?n" using wf by (simp add: wf_record_def)
    let ?s = "take (?n - 2) (r_name r)"
    have "(of_nat ?n :: u32) - 2 - 1 = of_nat (?n - 3)" using n2 by (simp add: of_nat_diff)
    then have "unat ((of_nat ?n :: u32) - 2 - 1) = ?n - 3" using n unat_of_nat32 [of "?n - 3"] by simp
    moreover have "byte_at ?b (d + dent_name + (?n - 3)) = Some (last ?s)"
    proof -
      have "byte_at ?b (d + (33 + (?n - 3))) = byte_at (h @ r_name r @ r_tail r @ post) (33 + (?n - 3))"
        unfolding h(1) append_assoc byte_at_pre [OF pre] ..
      also have "\<dots> = byte_at (r_name r @ r_tail r @ post) (?n - 3)" using h(2) by (metis byte_at_append)
      also have "\<dots> = Some (r_name r ! (?n - 3))" using n2 by (simp add: byte_at_header)
      also have "r_name r ! (?n - 3) = last ?s"
      proof -
        have "?s \<noteq> []" and l: "length ?s - 1 = ?n - 3" using n2 by auto
        from last_conv_nth [OF this(1)] show ?thesis unfolding l using n2 by simp
      qed
      finally show ?thesis by (simp only: dent_name_def add.assoc)
    qed
    moreover have "length ?s = ?n - 2" "(of_nat ?n :: u32) - 2 = of_nat (?n - 2)"
      "(of_nat (?n - 2) :: u32) - 1 = of_nat (?n - 2 - 1)" using n2 by (simp_all add: of_nat_diff)
    ultimately show ?thesis
      using False by (simp add: record_name_len_def nl fl shown_name_def Let_def)
  qed
qed

lemma record_compare:
  assumes wf: "wf_record r" and pre: "length pre = d" and z: "0 \<notin> set name"
  shows "strn_equal name (drop (d + dent_name) (pre @ record_bytes r @ post)) (length (shown_name name r)) =
    Some (name_matches name r)"
proof -
  obtain h where h: "record_bytes r = h @ r_name r @ r_tail r" "length h = 33" using record_bytes_header by blast
  let ?n = "length (shown_name name r)"
  have n: "?n \<le> length (r_name r)" by (auto simp: shown_name_def Let_def)
  have d: "drop (d + dent_name) (pre @ record_bytes r @ post) = r_name r @ r_tail r @ post"
    unfolding h(1) using pre h(2) by (simp add: dent_name_def)
  have t: "take ?n (r_name r @ r_tail r @ post) = shown_name name r"
    using shown_name_take [OF wf, of name] n by simp
  have "0 \<notin> set (shown_name name r)"
    using wf shown_name_take [OF wf, of name] by (metis in_set_takeD wf_record_def)
  then show ?thesis
    unfolding d using n z t by (subst strn_equal_prefix) (auto simp: name_matches_def Let_def)
qed

lemma finddir_loop_records:
  assumes sz: "sz \<noteq> 0" and z: "0 \<notin> set name" and pad: "sz = ucast bsize"
  shows "\<forall>r \<in> set rs. wf_record r \<Longrightarrow> length pre = d \<Longrightarrow>
    finddir_loop name (pre @ concat (map record_bytes rs) @ 0 # post) bsize sz d e = Some (first_record name rs d)"
proof (induction rs arbitrary: pre d)
  case Nil
  have "isonum_711 (pre @ 0 # post) d = Some 0"
    using byte_at_pre [OF Nil.prems(2), of "0 # post" 0] by (simp add: isonum_711_def byte_at_def)
  then show ?case
    using sz by (subst finddir_loop.simps) (simp add: Let_def pad finddir_loop.simps)
next
  case (Cons r rs)
  let ?post = "concat (map record_bytes rs) @ 0 # post"
  let ?b = "pre @ record_bytes r @ ?post" and ?n = "length (shown_name name r)"
  have wf: "wf_record r" using Cons.prems by simp
  obtain h where h: "record_bytes r = h @ r_name r @ r_tail r" "length h = 33" "h ! 0 = of_nat (record_len r)"
    using record_bytes_header by blast
  have rl: "record_len r < 256" "0 < record_len r"
    using wf by (simp_all add: wf_record_def record_len_def DENT_BYTES_def)
  have "byte_at ?b (d + 0) = Some (of_nat (record_len r))"
    unfolding h(1) append_assoc byte_at_pre [OF Cons.prems(2)] using h byte_at_header [of 0 h] by simp
  then have len: "isonum_711 ?b d = Some (of_nat (record_len r))"
    using rl by (simp add: isonum_711_def ucast_of_nat8)
  have ul: "unat (of_nat (record_len r) :: u32) = record_len r" using rl by (simp add: unat_of_nat32)
  then have nz: "(of_nat (record_len r) :: u32) \<noteq> 0" using rl by (metis unat_0 less_irrefl)
  have "?n \<le> length (r_name r)" by (auto simp: shown_name_def Let_def)
  then have "?n < 256" using rl by (simp add: record_len_def)
  then have un: "unat (of_nat ?n :: u32) = ?n" by (simp add: unat_of_nat32)
  have IH: "finddir_loop name ?b bsize sz (d + record_len r) e = Some (first_record name rs (d + record_len r))"
    using Cons.IH [of "pre @ record_bytes r" "d + record_len r"] Cons.prems by (simp add: length_record)
  have "finddir_loop name ?b bsize sz d e =
    (if name_matches name r then Some (Some d) else finddir_loop name ?b bsize sz (d + record_len r) e)"
    by (subst finddir_loop.simps)
      (simp only: sz len nz if_False Option.bind.simps record_name_len_eq [OF wf Cons.prems(2)] un ul
        record_compare [OF wf Cons.prems(2) z])
  then show ?case using IH by simp
qed

section \<open>Properties\<close>

text \<open>
  On a directory of one block, given as its records with zeros behind them, the search
  terminates within the buffer and finds the first record whose name, without version and trailing
  dot, the name sought begins with; the extent and the size are read back from the record found. A
  record that is only a prefix of the name sought matches as well.
\<close>

theorem isofs_finddir_first:
  assumes "\<forall>r \<in> set rs. wf_record r" and "0 \<notin> set name" and "(ucast bsize :: u32) \<noteq> 0"
  shows "finddir_loop name (concat (map record_bytes rs) @ 0 # post) bsize (ucast bsize) 0 0 =
      Some (first_record name rs 0) \<and>
    isonum_733 (pre @ record_bytes r @ rest) (length pre + dent_extent) = Some (r_extent r) \<and>
    isonum_733 (pre @ record_bytes r @ rest) (length pre + dent_size) = Some (r_size r)"
proof -
  obtain h where h: "record_bytes r = h @ r_name r @ r_tail r" "length h = 33"
    "take 4 (drop 2 h) = le32_bytes (r_extent r)" "take 4 (drop 10 h) = le32_bytes (r_size r)"
    using record_bytes_header by blast
  have "take 4 (drop (length pre + k) (pre @ record_bytes r @ rest)) = take 4 (drop k h)" if "k \<le> 10" for k
    unfolding h(1) using h(2) that by simp
  from this [of 2] this [of 10] show ?thesis
    using finddir_loop_records [OF assms(3,2) refl assms(1), of "[]" 0] h(3,4)
    by (simp add: isonum_733_def le32_at_bytes dent_extent_def dent_size_def)
qed

theorem isofs_finddir_first_witness:
  "finddir_loop (str ''BOOTX'') (record_bytes \<lparr>r_extent = 20, r_size = 2048, r_flags = 2, r_name = str ''BOOT'', r_tail = []\<rparr>
      @ 0 # replicate 2010 0) 2048 2048 0 0 = Some (Some 0)"
  using isofs_finddir_first [of "[\<lparr>r_extent = 20, r_size = 2048, r_flags = 2, r_name = str ''BOOT'', r_tail = []\<rparr>]"
      "str ''BOOTX''" 2048 "replicate 2010 0"]
  by (simp add: wf_record_def record_len_def DENT_BYTES_def str_def name_matches_def shown_name_def)

end
