(* ===== verification/Ext2.thy ===== *)
theory Ext2
  imports Fsnode
begin

text \<open>
  \<^verbatim>\<open>src/fs/ext2fs/ext2fs.c\<close> and \<^verbatim>\<open>fs/ext2fs.h\<close>: the ext2 file system. The
  superblock, the group descriptors and the inodes are decoded from the bytes that are read; the
  program's arithmetic is kept at its width. \<open>None\<close> is undefined behaviour: a read outside of a
  buffer, a division by 0, a search that does not end.
\<close>

section \<open>Layout\<close>

definition EXT2_SB_MAGIC :: u16 where "EXT2_SB_MAGIC = 0xEF53"
definition EXT2_SB_OFFSET :: u64 where "EXT2_SB_OFFSET = 1024"
definition EXT2_SB_LENGTH :: u64 where "EXT2_SB_LENGTH = 1016"
definition EXT2_BLKGRP_DESC_SIZE :: u32 where "EXT2_BLKGRP_DESC_SIZE = 32"
definition EXT2_DLP_NUM :: u32 where "EXT2_DLP_NUM = 12"
definition EXT2_MLP_LEN :: u32 where "EXT2_MLP_LEN = 4"
definition EXT2_ROOT_INODE :: u32 where "EXT2_ROOT_INODE = 2"

definition parse_superblock :: "u8 list \<Rightarrow> ext2_superblock option" where
  "parse_superblock bs =
     do { lbs \<leftarrow> le32_at bs 24; ipg \<leftarrow> le32_at bs 40; mg \<leftarrow> le16_at bs 56;
          rv \<leftarrow> le32_at bs 76; isz \<leftarrow> le16_at bs 88;
          Some \<lparr>log_block_size = lbs, inodes_per_group = ipg, esb_magic = mg, esb_revision = rv, inode_size = isz\<rparr> }"

definition inode_table_block :: "u8 list \<Rightarrow> u32 option" where
  "inode_table_block bs = le32_at bs 8"

definition parse_inode :: "u8 list \<Rightarrow> ext2_inode option" where
  "parse_inode bs =
     do { sz \<leftarrow> le32_at bs 4;
          ps \<leftarrow> those (map (\<lambda>i. le32_at bs (40 + 4 * i)) [0..<15]);
          Some \<lparr>size_lower = sz, dbp = ps\<rparr> }"

section \<open>Nodes and inodes\<close>

definition ext2fs_alloc_node :: "u32 \<Rightarrow> u8 list \<Rightarrow> vfs \<Rightarrow> (vfs \<times> u32) option" where
  "ext2fs_alloc_node sb name s =
     do { (s, a) \<leftarrow> fs_node_alloc name s;
          if a = 0 then Some (s, 0)
          else Some (upd_node a (\<lambda>n. n\<lparr>nops := Some Ext2fs_ops, nsb := sb\<rparr>) s, a) }"

definition ext2fs_inode_find :: "u32 \<Rightarrow> ext2_superblock \<Rightarrow> u32 \<Rightarrow> vfs \<Rightarrow> (vfs \<times> ext2_inode option) option" where
  "ext2fs_inode_find sb esb ino s =
     (let bsz = block_size (super (sbs s sb)) in
      do { (s, p) \<leftarrow> vmalloc (ucast (inode_size esb)) s;
           if p = 0 then Some (s, None)
           else if inodes_per_group esb = 0 then None
           else do {
             let blkgrp = (ino - 1) div inodes_per_group esb;
             let off = (if bsz < 2048 then ucast bsz * 2 else ucast bsz) + ucast (EXT2_BLKGRP_DESC_SIZE * blkgrp);
             (s, r, bdesc) \<leftarrow> sb_read_offset sb off (ucast EXT2_BLKGRP_DESC_SIZE)
               (replicate (unat EXT2_BLKGRP_DESC_SIZE) 0) s;
             if r \<noteq> 0 then Some (s, None)
             else do {
               tab \<leftarrow> inode_table_block bdesc;
               let inoidx = (ino - 1) mod inodes_per_group esb;
               let off = (ucast (tab * ucast bsz) :: u64) + ucast (inoidx * ucast (inode_size esb));
               (s, r, bs) \<leftarrow> sb_read_offset sb off (ucast (inode_size esb))
                 (fresh_buffer s p (ucast (inode_size esb))) s;
               if r \<noteq> 0 then Some (s, None)
               else map_option (\<lambda>i. (s, Some i)) (parse_inode bs) } } })"

section \<open>Block pointers\<close>

text \<open>The loop of \<^verbatim>\<open>indirect_block\<close>, where \<open>Suc l\<close> stands for the level \<open>l\<close>; the buffer holds
  one block of pointers.\<close>

fun indirect_loop :: "superblock \<Rightarrow> nat \<Rightarrow> u32 \<Rightarrow> u32 \<Rightarrow> u8 list \<Rightarrow> u32 option" where
  "indirect_loop sb 0 iblock cblock buf = Some iblock"
| "indirect_loop sb (Suc l) iblock cblock buf =
     (let blkibn = ucast (block_size sb) div EXT2_MLP_LEN;
          blkmlp = ucast (pow (ucast blkibn) (of_nat l)) in
      do { (r, buf) \<leftarrow> superblock_read_block sb (ucast iblock) buf;
           if r \<noteq> 0 then Some 0
           else if blkmlp = 0 \<or> blkibn = 0 then None
           else do {
             let blkidx = (cblock div blkmlp) mod blkibn;
             p \<leftarrow> le32_at buf (4 * unat blkidx);
             indirect_loop sb l p cblock buf } })"

definition indirect_block :: "superblock \<Rightarrow> u32 \<Rightarrow> u32 \<Rightarrow> nat \<Rightarrow> u8 list \<Rightarrow> u32 option" where
  "indirect_block sb iblock cblock bdepth buf = indirect_loop sb (bdepth + 1) iblock cblock buf"

text \<open>The loop of \<^verbatim>\<open>ext2fs_inode_block\<close> over the three kinds of indirect blocks from \<open>i\<close> on,
  with \<open>n\<close> left; the result is the last value of \<^verbatim>\<open>blkidx\<close>.\<close>

fun block_loop :: "superblock \<Rightarrow> u32 list \<Rightarrow> nat \<Rightarrow> nat \<Rightarrow> u32 \<Rightarrow> u32 \<Rightarrow> u32 \<Rightarrow> u8 list \<Rightarrow> u32 option" where
  "block_loop sb ps i 0 blkmlp cblock blkidx buf = Some blkidx"
| "block_loop sb ps i (Suc n) blkmlp cblock blkidx buf =
     (let blkibn = ucast (block_size sb) div EXT2_MLP_LEN;
          blkmlp = ucast (ucast blkmlp * pow (ucast blkibn) (of_nat i)) :: u32;
          cblock = cblock - blkmlp in
      if blkmlp = 0 then None
      else
        let blkidx = cblock div blkmlp in
        if blkidx * EXT2_MLP_LEN \<ge> ucast (block_size sb)
        then block_loop sb ps (i + 1) n blkmlp cblock blkidx buf
        else if 12 + i < length ps then indirect_block sb (ps ! (12 + i)) cblock i buf
        else None)"

definition ext2fs_inode_block :: "u32 \<Rightarrow> ext2_inode \<Rightarrow> u32 \<Rightarrow> vfs \<Rightarrow> (vfs \<times> u32) option" where
  "ext2fs_inode_block sb inode off s =
     (let b = super (sbs s sb); bsz = ucast (block_size b) in
      if bsz = 0 then None
      else
        let cblock = off div bsz in
        if cblock < EXT2_DLP_NUM
        then (if unat cblock < length (dbp inode) then Some (s, dbp inode ! unat cblock) else None)
        else do {
          (s, p) \<leftarrow> vmalloc bsz s;
          if p = 0 then Some (s, 0)
          else do {
            r \<leftarrow> block_loop b (dbp inode) 0 3 1 (cblock - (EXT2_DLP_NUM - 1)) 0 (fresh_buffer s p bsz);
            s \<leftarrow> vfree p s;
            Some (s, r) } })"

section \<open>Reading a file\<close>

text \<open>The loop of \<^verbatim>\<open>ext2fs_inode_read\<close> from block \<open>blkoff\<close> of the request on, with \<open>n\<close> left. The
  result is the length that is left and the buffer.\<close>

fun inode_read_loop ::
  "u32 \<Rightarrow> ext2_inode \<Rightarrow> u64 \<Rightarrow> nat \<Rightarrow> u64 \<Rightarrow> u32 \<Rightarrow> u32 \<Rightarrow> u32 \<Rightarrow> u8 list \<Rightarrow> u8 list \<Rightarrow> vfs
   \<Rightarrow> (vfs \<times> u32 \<times> u8 list) option" where
  "inode_read_loop sb inode sector 0 blkoff ibloff len bufoff iblock buf s = Some (s, len, buf)"
| "inode_read_loop sb inode sector (Suc n) blkoff ibloff len bufoff iblock buf s =
     (if len = 0 then Some (s, len, buf)
      else
        let nbsize = ucast (block_size (super (sbs s sb))) :: u32;
            room = nbsize - ibloff;
            remlen = (if room < len then room else len) in
        do { (s, blkidx) \<leftarrow> ext2fs_inode_block sb inode (ucast ((blkoff + sector) * ucast nbsize)) s;
             if blkidx = 0 then Some (s, len, buf)
             else do {
               (r, iblock) \<leftarrow> sb_read_block sb (ucast blkidx) iblock s;
               if r \<noteq> 0 then Some (s, len, buf)
               else if unat ibloff + unat remlen > length iblock then None
               else do {
                 buf \<leftarrow> put_at buf (unat bufoff) (take (unat remlen) (drop (unat ibloff) iblock));
                 inode_read_loop sb inode sector n (blkoff + 1) 0 (len - remlen) (bufoff + remlen) iblock buf s } } })"

definition ext2fs_inode_read ::
  "u32 \<Rightarrow> ext2_inode \<Rightarrow> u64 \<Rightarrow> u32 \<Rightarrow> u8 list \<Rightarrow> vfs \<Rightarrow> (vfs \<times> u32 \<times> u8 list) option" where
  "ext2fs_inode_read sb inode off len buf s =
     (let nbsize = ucast (block_size (super (sbs s sb))) :: u32 in
      do { (s, p) \<leftarrow> vmalloc nbsize s;
           if p = 0 then Some (s, - word_of_int (errno_val ENOMEM), buf)
           else do {
             (q, _) \<leftarrow> div_rem (ucast (len - 1)) nbsize;
             let sblnum = q + 1;
             (sector, ibloff) \<leftarrow> div_rem off nbsize;
             (s, rest, buf) \<leftarrow> inode_read_loop sb inode sector (unat sblnum) 0 ibloff len 0
               (fresh_buffer s p nbsize) buf s;
             s \<leftarrow> vfree p s;
             Some (s, len - rest, buf) } })"

definition ext2fs_alloc_dent :: "u32 \<Rightarrow> u32 \<Rightarrow> u8 list \<Rightarrow> vfs \<Rightarrow> (vfs \<times> u32) option" where
  "ext2fs_alloc_dent sb ino name s =
     do { (s, a) \<leftarrow> ext2fs_alloc_node sb name s;
          if a = 0 then Some (s, 0)
          else do {
            esb \<leftarrow> sprivate (sbs s sb);
            (s, i) \<leftarrow> ext2fs_inode_find sb esb ino s;
            case i of None \<Rightarrow> do { s \<leftarrow> vfree a s; Some (s, 0) }
            | Some inode \<Rightarrow>
                Some (upd_node a (\<lambda>n. n\<lparr>ninode := ino, nlength := size_lower inode, nprivate := Some inode\<rparr>) s, a) } }"

section \<open>Mounting\<close>

definition sb_sector :: "superblock \<Rightarrow> u64 \<Rightarrow> u64 \<Rightarrow> u64" where
  "sb_sector sb sector off = sector + drop_bit (sb_bdlogs sb) off"

definition sb_length :: "superblock \<Rightarrow> u64 \<Rightarrow> u64 \<Rightarrow> u64" where
  "sb_length sb off len = drop_bit (sb_bdlogs sb) (off + len - 1) - drop_bit (sb_bdlogs sb) off + 1"

definition ext2_block_logs :: "ext2_superblock \<Rightarrow> u16" where
  "ext2_block_logs esb = ucast (10 + log_block_size esb)"

definition ext2fs_fill_super :: "u32 \<Rightarrow> u8 list \<Rightarrow> vfs \<Rightarrow> (vfs \<times> u32) option" where
  "ext2fs_fill_super sb name s =
     (let b = super (sbs s sb) in
      if sb_null b then Some (s, 0)
      else do {
        (s, p) \<leftarrow> vmalloc (ucast EXT2_SB_LENGTH) s;
        if p = 0 then Some (s, 0)
        else do {
          let (r, bs) = bdev_read (sb_bdev b) (sb_sector b 0 EXT2_SB_OFFSET) (sb_length b 0 EXT2_SB_LENGTH);
          buf \<leftarrow> put_at (fresh_buffer s p (ucast EXT2_SB_LENGTH)) 0 bs;
          esb \<leftarrow> parse_superblock buf;
          if r \<noteq> 0 \<or> esb_magic esb \<noteq> EXT2_SB_MAGIC then do { s \<leftarrow> vfree p s; Some (s, 0) }
          else if ext2_block_logs esb \<ge> 32 then None
          else do {
            let esb = (if esb_revision esb < 1 then esb\<lparr>inode_size := 128\<rparr> else esb);
            let logs = ext2_block_logs esb;
            let s = upd_sb sb (\<lambda>v. v\<lparr>super := (super v)\<lparr>block_logs := logs, block_size := push_bit (unat logs) 1\<rparr>,
              sprivate := Some esb\<rparr>) s;
            (s, a) \<leftarrow> ext2fs_alloc_dent sb EXT2_ROOT_INODE name s;
            if a = 0 then do { s \<leftarrow> vfree p s; Some (s, 0) }
            else
              let s = upd_node a (\<lambda>n. n\<lparr>nsb := sb\<rparr>) s
              in Some (upd_sb sb (\<lambda>v. v\<lparr>sroot := a, smount := a\<rparr>) s, a) } } })"

definition ext2fs_read :: "u32 \<Rightarrow> u64 \<Rightarrow> u32 \<Rightarrow> u8 list \<Rightarrow> vfs \<Rightarrow> (vfs \<times> u32 \<times> u8 list) option" where
  "ext2fs_read node off len buf s =
     do { inode \<leftarrow> nprivate (fsnodes s node);
          ext2fs_inode_read (nsb (fsnodes s node)) inode off len buf s }"

section \<open>Searching a directory\<close>

text \<open>The inode number of the first entry that matches; the size is never lowered, so the search ends
  at a match, at an entry of size 0, or outside of the buffer.\<close>

partial_function (option) ext2_finddir_loop :: "u8 list \<Rightarrow> u8 list \<Rightarrow> nat \<Rightarrow> u32 option option" where
  "ext2_finddir_loop name buf dpos =
     do { sz \<leftarrow> le16_at buf (dpos + 4);
          if sz = 0 then Some None
          else do {
            nl \<leftarrow> byte_at buf (dpos + 6);
            eq \<leftarrow> strn_equal name (drop (dpos + 8) buf) (unat nl);
            if eq then do { ino \<leftarrow> le32_at buf dpos; Some (Some ino) }
            else ext2_finddir_loop name buf (dpos + unat sz) } }"

definition ext2fs_finddir :: "u32 \<Rightarrow> u8 list \<Rightarrow> vfs \<Rightarrow> (vfs \<times> u32) option" where
  "ext2fs_finddir node name s =
     (let n = fsnodes s node in
      do { inode \<leftarrow> nprivate n;
           let sz = size_lower inode;
           (s, d) \<leftarrow> vmalloc sz s;
           if d = 0 then Some (s, 0)
           else do {
             (s, r, buf) \<leftarrow> ext2fs_inode_read (nsb n) inode 0 sz (fresh_buffer s d sz) s;
             if r \<noteq> sz then do { s \<leftarrow> vfree d s; Some (s, 0) }
             else do {
               found \<leftarrow> (if sz = 0 then Some None else ext2_finddir_loop name buf 0);
               case found of
                 None \<Rightarrow> do { s \<leftarrow> vfree d s; Some (s, 0) }
               | Some ino \<Rightarrow> do {
                   (s, a) \<leftarrow> ext2fs_alloc_dent (nsb n) ino name s;
                   s \<leftarrow> vfree d s;
                   Some (s, a) } } } })"

definition ext2fs_init :: "vfs \<Rightarrow> vfs" where
  "ext2fs_init s = fs_register Ext2fs s"

section \<open>The blocks of a file\<close>

text \<open>The reference: the pointers of a file with \<open>n\<close> pointers to a block, of which \<open>D\<close> is the device.\<close>

definition block_of :: "u8 list \<Rightarrow> nat \<Rightarrow> nat \<Rightarrow> u8 list" where
  "block_of D bs b = take bs (drop (b * bs) D)"

definition pointer_at :: "u8 list \<Rightarrow> nat \<Rightarrow> u32 \<Rightarrow> nat \<Rightarrow> u32 option" where
  "pointer_at D bs b i =
     (if (unat b + 1) * bs \<le> length D then le32_at (block_of D bs (unat b)) (4 * i) else None)"

definition file_block :: "u8 list \<Rightarrow> nat \<Rightarrow> u32 list \<Rightarrow> nat \<Rightarrow> u32 option" where
  "file_block D bs ps c =
     (let n = bs div 4 in
      if c < 12 then Some (ps ! c)
      else if c - 12 < n then pointer_at D bs (ps ! 12) (c - 12)
      else do { b \<leftarrow> pointer_at D bs (ps ! 13) ((c - 12 - n) div n);
                pointer_at D bs b ((c - 12 - n) mod n) })"

text \<open>A mounted device with \<open>n\<close> pointers to a block.\<close>

definition pointer_disk :: "superblock \<Rightarrow> u8 list \<Rightarrow> nat \<Rightarrow> bool" where
  "pointer_disk sb D n \<longleftrightarrow> disk_of sb D \<and> unat (block_size sb) = 4 * n \<and> 0 < n"

lemma pointer_disk_bound: "pointer_disk sb D n \<Longrightarrow> n < 2 ^ 14"
  using unsigned_less [of "block_size sb", where 'a = nat] by (simp add: pointer_disk_def)

lemma word32_div: "m < 2 ^ 32 \<Longrightarrow> k < 2 ^ 32 \<Longrightarrow> (of_nat m :: u32) div of_nat k = of_nat (m div k)"
proof -
  assume "m < 2 ^ 32" "k < 2 ^ 32"
  moreover have "m div k < 2 ^ 32" using \<open>m < 2 ^ 32\<close> by (rule le_less_trans [OF div_le_dividend])
  ultimately have "unat ((of_nat m :: u32) div of_nat k) = unat (of_nat (m div k) :: u32)"
    by (simp add: unat_div_distrib unat_of_nat32)
  then show ?thesis by (rule unsigned_word_eqI)
qed

lemma word32_mod: "m < 2 ^ 32 \<Longrightarrow> k < 2 ^ 32 \<Longrightarrow> (of_nat m :: u32) mod of_nat k = of_nat (m mod k)"
proof -
  assume "m < 2 ^ 32" "k < 2 ^ 32"
  moreover have "m mod k < 2 ^ 32" using \<open>m < 2 ^ 32\<close> by (rule le_less_trans [OF mod_less_eq_dividend])
  ultimately have "unat ((of_nat m :: u32) mod of_nat k) = unat (of_nat (m mod k) :: u32)"
    by (simp add: unat_mod_distrib unat_of_nat32)
  then show ?thesis by (rule unsigned_word_eqI)
qed

lemma per_block:
  assumes "pointer_disk sb D n"
  shows "ucast (block_size sb) = (of_nat (4 * n) :: u32)" and "(of_nat (4 * n) :: u32) div EXT2_MLP_LEN = of_nat n"
proof -
  show "ucast (block_size sb) = (of_nat (4 * n) :: u32)"
    using ucast_nat [of "block_size sb", where 'b = 32] assms by (simp only: pointer_disk_def)
  show "(of_nat (4 * n) :: u32) div EXT2_MLP_LEN = of_nat n"
    using word32_div [of "4 * n" 4] pointer_disk_bound [OF assms] by (simp add: EXT2_MLP_LEN_def)
qed

lemma read_pointers:
  assumes P: "pointer_disk sb D n" and b: "(unat b + 1) * (4 * n) \<le> length D" and buf: "length buf = 4 * n"
  shows "superblock_read_block sb (ucast b) buf = Some (0, block_of D (4 * n) (unat b))"
    and "length (block_of D (4 * n) (unat b)) = 4 * n"
proof -
  have d: "disk_of sb D" and bs: "unat (block_size sb) = 4 * n" using P by (simp_all add: pointer_disk_def)
  have "(ucast b :: u64) = of_nat (unat b)" by (rule ucast_nat)
  then show "superblock_read_block sb (ucast b) buf = Some (0, block_of D (4 * n) (unat b))"
    using read_block_disk [OF d, of "unat b" buf] b buf unfolding bs block_of_def by simp
  have "(unat b + 1) * (4 * n) = unat b * (4 * n) + 4 * n" by (simp add: algebra_simps)
  then show "length (block_of D (4 * n) (unat b)) = 4 * n" using b by (simp add: block_of_def)
qed

text \<open>One level of indirection, at a level whose pointers cover \<open>n ^ l\<close> blocks each.\<close>

lemma indirect_step:
  assumes P: "pointer_disk sb D n" and p: "pointer_at D (4 * n) b (c div n ^ l mod n) = Some p"
    and buf: "length buf = 4 * n" and c: "c < 2 ^ 32" and l: "l < 2"
  shows "\<exists>buf'. length buf' = 4 * n \<and> indirect_loop sb (Suc l) b (of_nat c) buf = indirect_loop sb l p (of_nat c) buf'"
proof -
  have n: "n < 2 ^ 14" "0 < n" using pointer_disk_bound [OF P] P by (simp_all add: pointer_disk_def)
  have b: "(unat b + 1) * (4 * n) \<le> length D"
    and p': "le32_at (block_of D (4 * n) (unat b)) (4 * (c div n ^ l mod n)) = Some p"
    using p by (simp_all add: pointer_at_def split: if_splits)
  note rd = read_pointers [OF P b buf]
  have nl: "n ^ l < 2 ^ 14" "0 < n ^ l" using n l by (auto simp: less_2_cases_iff)
  have mlp: "ucast (pow (ucast (of_nat n :: u32)) (of_nat l)) = (of_nat (n ^ l) :: u32)"
  proof -
    have "(ucast (of_nat n :: u32) :: u64) = of_nat n"
    proof -
      have "unat (of_nat n :: u32) = n" by (rule unat_of_nat32) (use n in simp)
      with ucast_nat [of "of_nat n :: u32", where 'b = 64] show ?thesis by (simp only:)
    qed
    moreover have "(ucast (of_nat n :: u64) :: u32) = of_nat n" by (rule bit_word_eqI) (simp add: bit_simps)
    ultimately show ?thesis using l by (auto simp: pow_eq less_2_cases_iff)
  qed
  have nz: "(of_nat (n ^ l) :: u32) \<noteq> 0" "(of_nat n :: u32) \<noteq> 0"
    using nl n unat_of_nat32 [of "n ^ l"] unat_of_nat32 [of n] by (auto simp: unat_eq_zero [symmetric] simp del: of_nat_power)
  have q: "c div n ^ l < 2 ^ 32" using c by (rule le_less_trans [OF div_le_dividend])
  have idx: "(of_nat c :: u32) div of_nat (n ^ l) mod of_nat n = of_nat (c div n ^ l mod n)"
    using word32_div [OF c, of "n ^ l"] word32_mod [OF q, of n] nl n by simp
  have "c div n ^ l mod n < n" using n by simp
  also have "n < 2 ^ 32" using n by simp
  finally have "c div n ^ l mod n < 2 ^ 32" .
  then have ui: "unat (of_nat (c div n ^ l mod n) :: u32) = c div n ^ l mod n" by (rule unat_of_nat32)
  have "indirect_loop sb (Suc l) b (of_nat c) buf =
    indirect_loop sb l p (of_nat c) (block_of D (4 * n) (unat b))"
    by (simp only: indirect_loop.simps Let_def per_block [OF P] mlp rd(1) Option.bind.simps prod.case nz idx ui p'
        simp_thms if_False)
  with rd(2) show ?thesis by blast
qed

lemma block_loop_file:
  assumes P: "pointer_disk sb D n" and len: "15 \<le> length ps" and c: "12 \<le> c" "c < 12 + n + n * n"
    and f: "file_block D (4 * n) ps c = Some p" and buf: "length buf = 4 * n"
  shows "block_loop sb ps 0 3 1 (of_nat c - (EXT2_DLP_NUM - 1)) 0 buf = Some p"
proof -
  have n: "n < 2 ^ 14" "0 < n" using pointer_disk_bound [OF P] P by (simp_all add: pointer_disk_def)
  have n32: "n < 2 ^ 32" "4 * n < 2 ^ 32" using n by simp_all
  have nn: "n * n < 2 ^ 28"
  proof -
    have "n * n \<le> n * 2 ^ 14" using n by (intro mult_le_mono2) simp
    also have "\<dots> < 2 ^ 14 * 2 ^ 14" using n by simp
    finally show ?thesis by simp
  qed
  define k where "k = c - 12"
  have k: "k < n + n * n" "k < 2 ^ 29" "c = k + 12" using c n nn by (simp_all add: k_def)
  have start: "(of_nat c :: u32) - (EXT2_DLP_NUM - 1) - 1 = of_nat k"
    using k(3) by (simp add: EXT2_DLP_NUM_def)
  have one: "ucast (ucast (1::u32) * pow (ucast (of_nat n :: u32)) (of_nat 0)) = (1 :: u32)"
    by (simp add: pow_eq)
  have over: "(of_nat i :: u32) * EXT2_MLP_LEN \<ge> of_nat (4 * n) \<longleftrightarrow> n \<le> i" if "i < 2 ^ 29" for i
  proof -
    have "(of_nat i :: u32) * EXT2_MLP_LEN = of_nat (4 * i)" by (simp add: EXT2_MLP_LEN_def)
    moreover have "unat (of_nat (4 * i) :: u32) = 4 * i" "unat (of_nat (4 * n) :: u32) = 4 * n"
      using that n32 by (simp_all add: unat_of_nat32 del: of_nat_mult)
    ultimately show ?thesis by (simp only: word_le_nat_alt) simp
  qed
  note ib = per_block [OF P]
  have d1: "x div 1 = x" for x :: u32 by simp
  show ?thesis
  proof (cases "k < n")
    case True
    then have p: "pointer_at D (4 * n) (ps ! 12) (k div n ^ 0 mod n) = Some p"
      using f k(3) by (simp add: file_block_def Let_def)
    obtain buf' where s: "indirect_loop sb (Suc 0) (ps ! 12) (of_nat k) buf = indirect_loop sb 0 p (of_nat k) buf'"
      using indirect_step [OF P p buf] k(2) by auto
    have "block_loop sb ps 0 (Suc 2) 1 (of_nat c - (EXT2_DLP_NUM - 1)) 0 buf =
      indirect_block sb (ps ! (12 + 0)) (of_nat k) 0 buf"
      using True over [OF k(2)] len
      by (simp only: block_loop.simps Let_def ib one start d1 not_le [symmetric]) simp
    then show ?thesis using s by (simp add: indirect_block_def numeral_3_eq_3)
  next
    case False
    define j where "j = k - n"
    have j: "j < n * n" "k = j + n" "j < 2 ^ 29" using False k by (simp_all add: j_def)
    have jn: "j div n < n" using j(1) by (rule less_mult_imp_div_less)
    obtain b where b: "pointer_at D (4 * n) (ps ! 13) (j div n) = Some b"
      and p: "pointer_at D (4 * n) b (j mod n) = Some p"
      using f k(3) False n(2) by (auto simp: file_block_def Let_def j_def bind_eq_Some_conv)
    have b': "pointer_at D (4 * n) (ps ! 13) (j div n ^ 1 mod n) = Some b" using b jn by simp
    have p': "pointer_at D (4 * n) b (j div n ^ 0 mod n) = Some p" using p by simp
    have j32: "j < 2 ^ 32" using j(3) by simp
    obtain buf' where s1: "length buf' = 4 * n"
      "indirect_loop sb (Suc 1) (ps ! 13) (of_nat j) buf = indirect_loop sb 1 b (of_nat j) buf'"
      using indirect_step [OF P b' buf j32] by auto
    obtain buf'' where s2: "indirect_loop sb (Suc 0) b (of_nat j) buf' = indirect_loop sb 0 p (of_nat j) buf''"
      using indirect_step [OF P p' s1(1) j32] by auto
    have two: "ucast (ucast (1::u32) * pow (ucast (of_nat n :: u32)) (of_nat 1)) = (of_nat n :: u32)"
      by (rule bit_word_eqI) (simp add: pow_eq bit_simps)
    have nz: "(of_nat n :: u32) \<noteq> 0" using n unat_of_nat32 [OF n32(1)] by (metis unat_0 less_irrefl)
    have ksub: "(of_nat k :: u32) - of_nat n = of_nat j" using j(2) by simp
    have q: "(of_nat j :: u32) div of_nat n = of_nat (j div n)" by (rule word32_div [OF j32 n32(1)])
    have "j div n < 2 ^ 29" using jn n by simp
    note o = over [OF k(2)] over [OF this]
    have "block_loop sb ps 0 (Suc 2) 1 (of_nat c - (EXT2_DLP_NUM - 1)) 0 buf =
      block_loop sb ps 1 2 1 (of_nat k) (of_nat k) buf"
      using False o by (simp only: block_loop.simps Let_def ib one start d1) simp
    also have "\<dots> = block_loop sb ps 1 (Suc 1) 1 (of_nat k) (of_nat k) buf" by (simp add: numeral_2_eq_2)
    also have "\<dots> = indirect_block sb (ps ! (12 + 1)) (of_nat j) 1 buf"
      using jn o(2) len nz
      by (simp only: block_loop.simps Let_def ib two ksub q not_le [symmetric]) simp
    finally show ?thesis using s1(2) s2 by (simp add: indirect_block_def numeral_3_eq_3)
  qed
qed

section \<open>Properties\<close>

text \<open>
  As far as double indirect blocks reach, \<^verbatim>\<open>ext2fs_inode_block\<close> gives the block that the
  pointers of the inode name, through as many levels as the position needs, and gives its buffer
  back. The hypotheses are that the pointer blocks on the way lie on the device and that there is
  memory for one block.
\<close>

theorem ext2fs_inode_block_correct:
  assumes "pointer_disk (super (sbs s sb)) D n" and "15 \<le> length (dbp inode)" and "c < 12 + n + n * n"
    and "off div (4 * n) = c" and "off < 2 ^ 32" and "file_block D (4 * n) (dbp inode) c = Some p"
    and "vmalloc (of_nat (4 * n)) s = Some (s1, q)" and "q \<noteq> 0"
    and "object_size s1 (of_nat (4 * n)) = 4 * n" and "vfree q s1 = Some s2"
  shows "ext2fs_inode_block sb inode (of_nat off) s = Some (if c < 12 then s else s2, p)"
proof -
  have n: "n < 2 ^ 14" "0 < n" using pointer_disk_bound [OF assms(1)] assms(1) by (simp_all add: pointer_disk_def)
  have n32: "4 * n < 2 ^ 32" using n by simp
  have nz: "(of_nat (4 * n) :: u32) \<noteq> 0" using n(2) unat_of_nat32 [OF n32] by (metis mult_eq_0_iff not_gr_zero unat_0 zero_neq_numeral)
  have "c \<le> off" using assms(4) div_le_dividend by blast
  then have c32: "c < 2 ^ 32" using assms(5) by simp
  have q: "(of_nat off :: u32) div of_nat (4 * n) = of_nat c"
    using word32_div [OF assms(5) n32] assms(4) by simp
  have uc: "unat (of_nat c :: u32) = c" by (rule unat_of_nat32 [OF c32])
  have dlp: "(of_nat c :: u32) < EXT2_DLP_NUM \<longleftrightarrow> c < 12"
    unfolding word_less_nat_alt uc by (simp add: EXT2_DLP_NUM_def)
  note ib = per_block(1) [OF assms(1)]
  show ?thesis
  proof (cases "c < 12")
    case True
    then have "dbp inode ! c = p" using assms(6) by (simp add: file_block_def)
    then show ?thesis using True assms(2) nz
      by (simp only: ext2fs_inode_block_def Let_def ib q dlp uc if_True if_False) simp
  next
    case False
    have "length (fresh_buffer s1 q (of_nat (4 * n))) = 4 * n" by (simp only: fresh_buffer_def length_mem_bytes assms(9))
    from block_loop_file [OF assms(1,2) _ assms(3,6) this] False
    have "block_loop (super (sbs s sb)) (dbp inode) 0 3 1 (of_nat c - (EXT2_DLP_NUM - 1)) 0
      (fresh_buffer s1 q (of_nat (4 * n))) = Some p" by simp
    then show ?thesis using False assms(8) nz
      by (simp only: ext2fs_inode_block_def Let_def ib q dlp if_False assms(7,10) Option.bind.simps prod.case)
  qed
qed

text \<open>A mounted demonstration device, with the slab of \<open>Slub\<close> behind \<^verbatim>\<open>bmalloc\<close>.\<close>

definition demo_vfs :: vfs where
  "demo_vfs = \<lparr>vslub = demo_heap, vmem = (\<lambda>_. 0),
     fsnodes = (\<lambda>_. zero_node),
     vtree = \<lparr>parent = (\<lambda>_. None), children_count = (\<lambda>_. 0), tlinks = \<lparr>prv = (\<lambda>_. None), nxt = (\<lambda>_. None)\<rparr>\<rparr>,
     sbs = (\<lambda>_. \<lparr>super = demo_sb, sroot = 0, smount = 0, sprivate = None\<rparr>), fs_root = 0, fs_node_cache = 0,
     filesystems = [], vbdevs = [], vcdevs = [], null_bdev = sb_bdev demo_sb\<rparr>"

lemma demo_alloc:
  "\<exists>s1 s2. vmalloc 1024 demo_vfs = Some (s1, 0x10000) \<and> object_size s1 1024 = 1024 \<and> vfree 0x10000 s1 = Some s2"
  using demo_heap_bmalloc [of 1024] by (auto simp: vmalloc_def vfree_def demo_vfs_def object_size_def)

lemma demo_pointers: "pointer_disk demo_sb demo_disk 256"
  using demo_sb(1) by (simp add: pointer_disk_def) (simp add: demo_sb_def)

text \<open>Position 13 of a file whose first indirect block is block 0: its second pointer.\<close>

theorem ext2fs_inode_block_correct_witness:
  "\<exists>s2. ext2fs_inode_block 0 \<lparr>size_lower = 0, dbp = replicate 15 0\<rparr> (of_nat 13400) demo_vfs = Some (s2, 0x07060504)"
proof -
  obtain s1 s2 where s: "vmalloc 1024 demo_vfs = Some (s1, 0x10000)" "object_size s1 1024 = 1024"
    "vfree 0x10000 s1 = Some s2" using demo_alloc by blast
  have P: "pointer_disk (super (sbs demo_vfs 0)) demo_disk 256" using demo_pointers by (simp add: demo_vfs_def)
  have "file_block demo_disk 1024 (replicate 15 0) 13 = Some 0x07060504"
    by (simp add: file_block_def pointer_at_def block_of_def le32_at_def le16_at_def byte_at_def demo_disk_def
        take_map drop_map del: replicate.simps)
  with ext2fs_inode_block_correct [OF P, of "\<lparr>size_lower = 0, dbp = replicate 15 0\<rparr>" 13 13400 "0x07060504" s1 "0x10000" s2] s
  show ?thesis by (auto simp del: replicate.simps)
qed

end
