(* ===== verification/Vfs.thy ===== *)
theory Vfs
  imports Iso9660 Ext2
begin

text \<open>
  \<^verbatim>\<open>src/fs/fs.c\<close> and \<^verbatim>\<open>src/fs/file.c\<close>: path lookup, reading and mounting, the
  start of the file system, and open files; with it the functions of \<^verbatim>\<open>bdev.c\<close> and
  \<^verbatim>\<open>cdev.c\<close> that put a device into the tree. A node is its address, 0 for
  \<^verbatim>\<open>NULL\<close>; \<open>None\<close> is undefined behaviour or a loop that does not end.
\<close>

section \<open>Dispatch to the file systems\<close>

definition fs_name :: "fs_type \<Rightarrow> u8 list" where
  "fs_name fs = str (case fs of Ramfs \<Rightarrow> ''ramfs'' | Isofs \<Rightarrow> ''isofs'' | Ext2fs \<Rightarrow> ''ext2fs'')"

definition fill_super :: "fs_type \<Rightarrow> u32 \<Rightarrow> u8 list \<Rightarrow> vfs \<Rightarrow> (vfs \<times> u32) option" where
  "fill_super fs sb name s =
     (case fs of Ramfs \<Rightarrow> ramfs_fill_super sb name s
      | Isofs \<Rightarrow> isofs_fill_super sb name s | Ext2fs \<Rightarrow> ext2fs_fill_super sb name s)"

definition vfs_finddir :: "u32 \<Rightarrow> u8 list \<Rightarrow> vfs \<Rightarrow> (vfs \<times> u32) option" where
  "vfs_finddir node name s =
     (case nops (fsnodes s node) of
        None \<Rightarrow> Some (s, 0)
      | Some Ramfs_ops \<Rightarrow> Some (s, 0)
      | Some Isofs_ops \<Rightarrow> isofs_finddir node name s
      | Some Ext2fs_ops \<Rightarrow> ext2fs_finddir node name s)"

definition node_read :: "fs_ops \<Rightarrow> u32 \<Rightarrow> u64 \<Rightarrow> u32 \<Rightarrow> u8 list \<Rightarrow> vfs \<Rightarrow> (vfs \<times> u32 \<times> u8 list) option" where
  "node_read ops node off len buf s =
     (case ops of Ramfs_ops \<Rightarrow> Some (s, 0, buf)
      | Isofs_ops \<Rightarrow> isofs_read node off len buf s
      | Ext2fs_ops \<Rightarrow> ext2fs_read node off len buf s)"

section \<open>Lookup\<close>

record lookup_request =
  rflags :: u32
  rpath :: "u8 list"
  rnode :: u32

definition FS_LOOKUP_ABSOLUTE :: u32 where "FS_LOOKUP_ABSOLUTE = 1"

definition vfs_find_type :: "u8 list \<Rightarrow> vfs \<Rightarrow> fs_type option" where
  "vfs_find_type name s = find (\<lambda>fs. fs_name fs = name) (filesystems s)"

text \<open>A path is never \<^verbatim>\<open>NULL\<close> here.\<close>

definition vfs_lookup_request_valid :: "lookup_request \<Rightarrow> status" where
  "vfs_lookup_request_valid r =
     (if rnode r = 0 \<and> rflags r AND FS_LOOKUP_ABSOLUTE = 0 then Inl EFAULT else ok)"

text \<open>\<^verbatim>\<open>vfs_lookup_tree_fast\<close> from a child on.\<close>

partial_function (option) lookup_fast_from :: "u32 option \<Rightarrow> u8 list \<Rightarrow> vfs \<Rightarrow> u32 option" where
  "lookup_fast_from pos name s =
     (case pos of None \<Rightarrow> Some 0
      | Some c \<Rightarrow> if nname (fsnodes s c) = name then Some c
          else lookup_fast_from (tree_next_sibling_or_null c (vtree s)) name s)"

definition vfs_lookup_tree_fast :: "u32 \<Rightarrow> u8 list \<Rightarrow> vfs \<Rightarrow> u32 option" where
  "vfs_lookup_tree_fast node name s = lookup_fast_from (tree_first_child_or_null node (vtree s)) name s"

text \<open>The parent of a node without one is a pointer below address 0 that the caller follows.\<close>

definition vfs_lookup_tree_node :: "u32 \<Rightarrow> u8 list \<Rightarrow> vfs \<Rightarrow> u32 option" where
  "vfs_lookup_tree_node node name s =
     (if name = str ''.'' then Some node
      else if name = str ''..'' then parent (vtree s) node
      else vfs_lookup_tree_fast node name s)"

definition vfs_lookup_tree_slow :: "u32 \<Rightarrow> u8 list \<Rightarrow> vfs \<Rightarrow> (vfs \<times> u32) option" where
  "vfs_lookup_tree_slow node name s =
     do { (s, n) \<leftarrow> vfs_finddir node name s;
          if n = 0 then Some (s, 0)
          else Some (s\<lparr>vtree := tree_node_insert n node (vtree s)\<rparr>, n) }"

text \<open>The \<^verbatim>\<open>while\<close> loop of \<^verbatim>\<open>vfs_lookup_tree\<close> over the parts of the path.\<close>

fun lookup_parts :: "u8 list list \<Rightarrow> lookup_request \<Rightarrow> vfs \<Rightarrow> (vfs \<times> lookup_request \<times> status) option" where
  "lookup_parts [] r s = Some (s, r, ok)"
| "lookup_parts (p # ps) r s =
     (if rnode r = 0 then None
      else do {
        n \<leftarrow> vfs_lookup_tree_node (rnode r) p s;
        (s, n) \<leftarrow> (if n \<noteq> 0 then Some (s, n) else vfs_lookup_tree_slow (rnode r) p s);
        if n = 0 then Some (s, r, Inl ENOENT)
        else lookup_parts ps (r\<lparr>rnode := n, rpath := p\<rparr>) s })"

definition vfs_strdup :: "u8 list \<Rightarrow> vfs \<Rightarrow> (vfs \<times> u32) option" where
  "vfs_strdup name s = vmalloc (of_nat (length name) + 1) s"

definition vfs_lookup_tree :: "lookup_request \<Rightarrow> vfs \<Rightarrow> (vfs \<times> lookup_request \<times> status) option" where
  "vfs_lookup_tree r s =
     (case vfs_lookup_request_valid r of
        Inl _ \<Rightarrow> Some (s, r, Inl EFAULT)
      | Inr _ \<Rightarrow> do {
          (s, name) \<leftarrow> vfs_strdup (rpath r) s;
          if name = 0 then Some (s, r, Inl ENOMEM)
          else do {
            (s, r, st) \<leftarrow> lookup_parts (tokens (str ''/'') (rpath r)) r s;
            s \<leftarrow> vfree name s;
            Some (s, r, st) } })"

definition vfs_lookup_node :: "u32 \<Rightarrow> u8 list \<Rightarrow> vfs \<Rightarrow> (vfs \<times> u32) option" where
  "vfs_lookup_node node path s =
     do { (s, r, st) \<leftarrow> vfs_lookup_tree \<lparr>rflags = 0, rpath = path, rnode = node\<rparr> s;
          Some (s, case st of Inl _ \<Rightarrow> 0 | Inr _ \<Rightarrow> rnode r) }"

definition vfs_lookup :: "u8 list \<Rightarrow> vfs \<Rightarrow> (vfs \<times> u32) option" where
  "vfs_lookup path s = vfs_lookup_node (fs_root s) path s"

definition vfs_open :: "u8 list \<Rightarrow> vfs \<Rightarrow> (vfs \<times> u32) option" where
  "vfs_open path s = vfs_lookup path s"

section \<open>Reading and writing\<close>

definition vfs_read :: "u32 \<Rightarrow> u64 \<Rightarrow> u32 \<Rightarrow> u8 list \<Rightarrow> vfs \<Rightarrow> (vfs \<times> u32 \<times> u8 list) option" where
  "vfs_read node off len buf s =
     (let n = fsnodes s node; kind = nflags n AND FS_FLAGS_MASK in
      if kind = FS_CHARDEVICE then
        (case ndev n of
           Char_device c \<Rightarrow> let (r, bs) = cdev_read c off (ucast len)
             in map_option (\<lambda>b. (s, word_of_int r, b)) (put_at buf 0 bs)
         | _ \<Rightarrow> None)
      else if kind = FS_BLOCKDEVICE then
        (case ndev n of
           Block_device b \<Rightarrow> let (r, bs) = bdev_read b off (ucast len)
             in map_option (\<lambda>b. (s, word_of_int r, b)) (put_at buf 0 bs)
         | _ \<Rightarrow> None)
      else case nops n of
        Some ops \<Rightarrow> node_read ops node off len buf s
      | None \<Rightarrow> Some (s, - word_of_int (errno_val ENOTSUP), buf))"

text \<open>The file systems write nothing and return 0.\<close>

definition vfs_write :: "u32 \<Rightarrow> u64 \<Rightarrow> u32 \<Rightarrow> u8 list \<Rightarrow> vfs \<Rightarrow> u32 option" where
  "vfs_write node off len buf s =
     (let n = fsnodes s node; kind = nflags n AND FS_FLAGS_MASK in
      if kind = FS_CHARDEVICE then
        (case ndev n of Char_device c \<Rightarrow> Some (word_of_int (cdev_write c off (ucast len) buf)) | _ \<Rightarrow> None)
      else if kind = FS_BLOCKDEVICE then
        (case ndev n of Block_device b \<Rightarrow> Some (word_of_int (bdev_write b off (ucast len) buf)) | _ \<Rightarrow> None)
      else case nops n of Some _ \<Rightarrow> Some 0 | None \<Rightarrow> Some (- word_of_int (errno_val ENOTSUP)))"

section \<open>Mounting\<close>

definition SUPERBLOCK_SIZE :: u32 where "SUPERBLOCK_SIZE = 28"

definition new_superblock :: "bdev option \<Rightarrow> vfs \<Rightarrow> (vfs \<times> u32) option" where
  "new_superblock bdev s =
     do { (s, a) \<leftarrow> vmalloc SUPERBLOCK_SIZE s;
          case superblock_alloc (a \<noteq> 0) (null_bdev s) bdev of
            None \<Rightarrow> Some (s, 0)
          | Some b \<Rightarrow> Some (upd_sb a (\<lambda>v. v\<lparr>super := b\<rparr>) s, a) }"

definition vfs_mount_node :: "fs_type \<Rightarrow> bdev option \<Rightarrow> u32 \<Rightarrow> u8 list \<Rightarrow> vfs \<Rightarrow> (vfs \<times> u32) option" where
  "vfs_mount_node fs bdev par name s =
     do { (s, sb) \<leftarrow> new_superblock bdev s;
          if sb = 0 then Some (s, 0)
          else do {
            (s, n) \<leftarrow> fill_super fs sb name s;
            if n = 0 then do { s \<leftarrow> vfree sb s; Some (s, 0) }
            else
              let s = upd_sb (nsb (fsnodes s n)) (\<lambda>v. v\<lparr>smount := par\<rparr>) s
              in Some (s\<lparr>vtree := tree_node_insert n par (vtree s)\<rparr>, n) } }"

definition vfs_mount_type :: "u8 list \<Rightarrow> bdev option \<Rightarrow> u8 list \<Rightarrow> u8 list \<Rightarrow> vfs \<Rightarrow> (vfs \<times> int) option" where
  "vfs_mount_type fsname bdev path name s =
     (case vfs_find_type fsname s of
        None \<Rightarrow> Some (s, - errno_val ENOENT)
      | Some fs \<Rightarrow> do {
          (s, node) \<leftarrow> vfs_lookup path s;
          if node = 0 then Some (s, - errno_val ENOENT)
          else do {
            (s, n) \<leftarrow> vfs_mount_node fs bdev node name s;
            Some (s, if n = 0 then 1 else 0) } })"

text \<open>\<^verbatim>\<open>vfs_mount_bdev\<close> tries the file systems in their order.\<close>

fun mount_bdev_loop :: "fs_type list \<Rightarrow> bdev \<Rightarrow> u8 list \<Rightarrow> vfs \<Rightarrow> (vfs \<times> u32) option" where
  "mount_bdev_loop [] bdev name s = Some (s, 0)"
| "mount_bdev_loop (fs # fss) bdev name s =
     do { (s, sb) \<leftarrow> new_superblock (Some bdev) s;
          if sb = 0 then Some (s, 0)
          else do {
            (s, n) \<leftarrow> fill_super fs sb name s;
            if n = 0 then do { s \<leftarrow> vfree sb s; mount_bdev_loop fss bdev name s }
            else Some (s, n) } }"

definition vfs_mount_bdev :: "bdev \<Rightarrow> u8 list \<Rightarrow> vfs \<Rightarrow> (vfs \<times> u32) option" where
  "vfs_mount_bdev bdev name s = mount_bdev_loop (filesystems s) bdev name s"

definition vfs_mount_cdev :: "cdev \<Rightarrow> u8 list \<Rightarrow> u8 list \<Rightarrow> vfs \<Rightarrow> (vfs \<times> status) option" where
  "vfs_mount_cdev cdev path name s =
     do { (s, node) \<leftarrow> vfs_lookup path s;
          if node = 0 then Some (s, Inl ENOENT)
          else do {
            (s, n) \<leftarrow> fs_node_alloc name s;
            if n = 0 then Some (s, Inl EFAULT)
            else
              let s = upd_node n (\<lambda>x. x\<lparr>ndev := Char_device cdev, nops := nops (fsnodes s node),
                    nflags := nflags x OR FS_CHARDEVICE\<rparr>) s
              in Some (s\<lparr>vtree := tree_node_insert n node (vtree s)\<rparr>, ok) } }"

definition vfs_mount :: "bdev \<Rightarrow> u8 list \<Rightarrow> u8 list \<Rightarrow> vfs \<Rightarrow> (vfs \<times> status) option" where
  "vfs_mount bdev path name s =
     do { (s, node) \<leftarrow> vfs_lookup path s;
          if node = 0 then Some (s, Inl ENOENT)
          else do {
            (s, n) \<leftarrow> vfs_mount_bdev bdev name s;
            if n = 0 then Some (s, Inl ENOENT)
            else
              let s = upd_node n (\<lambda>x. x\<lparr>nflags := nflags x OR FS_BLOCKDEVICE\<rparr>) s
              in Some (s\<lparr>vtree := tree_node_insert n node (vtree s)\<rparr>, ok) } }"

section \<open>Devices\<close>

definition cdev_init :: "cdev \<Rightarrow> bdev_ops \<Rightarrow> vfs \<Rightarrow> (vfs \<times> status) option" where
  "cdev_init cdev ops s =
     (let cdev = cdev\<lparr>cops := Some ops\<rparr> in
      do { (s, st) \<leftarrow> vfs_mount_cdev cdev (str ''/dev'') (str (cdev_name cdev)) s;
           case st of Inl _ \<Rightarrow> Some (s, Inl EFAULT)
           | Inr _ \<Rightarrow> Some (s\<lparr>vcdevs := cdev # vcdevs s\<rparr>, ok) })"

definition bdev_init :: "bdev \<Rightarrow> bdev_ops \<Rightarrow> vfs \<Rightarrow> (vfs \<times> status) option" where
  "bdev_init bdev ops s =
     do { (s, node) \<leftarrow> vfs_open (str ''/dev'') s;
          if node = 0 then Some (s, Inl ENOENT)
          else do {
            (s, n) \<leftarrow> fs_node_alloc (str (bdev_name bdev)) s;
            if n = 0 then Some (s, Inl ENOMEM)
            else
              let bdev = bdev\<lparr>bdev_block_logs := word_of_int (ffs (ucast (bdev_block_size bdev))), bops := Some ops\<rparr>;
                  s = s\<lparr>vbdevs := bdev # vbdevs s\<rparr>;
                  s = upd_node n (\<lambda>x. x\<lparr>ndev := Block_device bdev, nflags := nflags x OR FS_BLOCKDEVICE\<rparr>) s
              in Some (s\<lparr>vtree := tree_node_insert n node (vtree s)\<rparr>, ok) } }"

section \<open>Starting up\<close>

definition FS_NODE_SIZE :: u32 where "FS_NODE_SIZE = 156"

definition fs_init :: "fs_type \<Rightarrow> vfs \<Rightarrow> vfs" where
  "fs_init fs s = (case fs of Ramfs \<Rightarrow> ramfs_init s | Isofs \<Rightarrow> isofs_init s | Ext2fs \<Rightarrow> ext2fs_init s)"

definition vfs_init_rootfs :: "fs_type \<Rightarrow> vfs \<Rightarrow> (vfs \<times> status) option" where
  "vfs_init_rootfs fs s =
     do { (s, sb) \<leftarrow> new_superblock None s;
          if sb = 0 then Some (s, Inl ENOMEM)
          else do {
            (s, n) \<leftarrow> fill_super fs sb (str ''[root]'') s;
            let s = s\<lparr>fs_root := n\<rparr>;
            if n = 0 then do { s \<leftarrow> vfree sb s; Some (s, Inl EFAULT) } else Some (s, ok) } }"

text \<open>
  The file systems come in the order in which they are linked (\<open>linked_fs\<close>); \<open>dev_modinit\<close> stands for
  the start of the built-in device drivers, and \<open>cache_name\<close> is the address of the name of the cache.
\<close>

definition vfs_init ::
  "fs_type list \<Rightarrow> (vfs \<Rightarrow> (vfs \<times> int) option) \<Rightarrow> u32 \<Rightarrow> vfs \<Rightarrow> (vfs \<times> status) option" where
  "vfs_init linked_fs dev_modinit cache_name s =
     (let s = fold fs_init linked_fs s in
      case vfs_find_type (str ''ramfs'') s of
        None \<Rightarrow> Some (s, Inl EFAULT)
      | Some rootfs \<Rightarrow> do {
          (m, sl, c) \<leftarrow> bmem_cache_create cache_name FS_NODE_SIZE (Some Ctor_object) (vmem s) (vslub s);
          let s = s\<lparr>vmem := m, vslub := sl, fs_node_cache := c\<rparr>;
          if c = 0 then Some (s, Inl ENOMEM)
          else do {
            (s, st) \<leftarrow> vfs_init_rootfs rootfs s;
            if st \<noteq> ok then Some (s, Inl EFAULT)
            else do {
              (s, r) \<leftarrow> vfs_mount_type (str ''ramfs'') None (str ''/'') (str ''dev'') s;
              if r \<noteq> 0 then Some (s, Inl EFAULT)
              else do {
                (s, r) \<leftarrow> dev_modinit s;
                Some (s, if r \<noteq> 0 then Inl EFAULT else ok) } } } })"

section \<open>Open files\<close>

text \<open>A file and the address of its structure, from which it is freed.\<close>

record open_file =
  file_addr :: u32
  file_name :: u32
  file_node :: u32
  file_flags :: u32
  file_offset :: u32
  file_length :: u32

datatype file_seek_pos = FILE_SET | FILE_CUR | FILE_END | FILE_OTHER

definition FILE_BYTES :: u32 where "FILE_BYTES = 20"

definition file_open :: "u8 list \<Rightarrow> u32 \<Rightarrow> vfs \<Rightarrow> (vfs \<times> open_file option) option" where
  "file_open path flags s =
     do { (s, a) \<leftarrow> vmalloc FILE_BYTES s;
          if a = 0 then Some (s, None)
          else do {
            (s, n) \<leftarrow> vfs_open path s;
            if n = 0 then do { s \<leftarrow> vfree a s; Some (s, None) }
            else do {
              (s, nm) \<leftarrow> vfs_strdup (nname (fsnodes s n)) s;
              if nm = 0 then do { s \<leftarrow> vfree a s; Some (s, None) }
              else Some (s, Some \<lparr>file_addr = a, file_name = nm, file_node = n, file_flags = flags,
                file_offset = 0, file_length = nlength (fsnodes s n)\<rparr>) } } }"

definition file_close :: "open_file option \<Rightarrow> vfs \<Rightarrow> vfs option" where
  "file_close f s = (case f of None \<Rightarrow> Some s | Some f \<Rightarrow> vfree (file_addr f) s)"

text \<open>The file is read before it is compared with \<^verbatim>\<open>NULL\<close>, so it must not be.\<close>

definition file_read :: "open_file \<Rightarrow> u32 \<Rightarrow> u8 list \<Rightarrow> vfs \<Rightarrow> (vfs \<times> u32 \<times> u8 list) option" where
  "file_read f nbytes buf s =
     (let rest = file_length f - file_offset f;
          len = (if nbytes < rest then nbytes else rest)
      in vfs_read (file_node f) (ucast (file_offset f)) len buf s)"

definition file_write :: "open_file option \<Rightarrow> u32 \<Rightarrow> u8 list \<Rightarrow> vfs \<Rightarrow> u32 option" where
  "file_write f len buf s =
     (case f of None \<Rightarrow> Some (- word_of_int (errno_val ENOENT))
      | Some f \<Rightarrow> vfs_write (file_node f) (ucast (file_offset f)) len buf s)"

definition file_seek :: "open_file \<Rightarrow> file_seek_pos \<Rightarrow> u32 \<Rightarrow> open_file" where
  "file_seek f pos off =
     f\<lparr>file_offset := (case pos of FILE_SET \<Rightarrow> off | FILE_CUR \<Rightarrow> file_offset f + off
        | FILE_END \<Rightarrow> file_length f - off | FILE_OTHER \<Rightarrow> file_offset f)\<rparr>"

definition file_ioctl :: "open_file \<Rightarrow> int \<Rightarrow> vfs \<Rightarrow> int option" where
  "file_ioctl f request s =
     (let n = fsnodes s (file_node f); kind = nflags n AND FS_FLAGS_MASK in
      if kind = FS_CHARDEVICE then
        (case ndev n of Char_device c \<Rightarrow> Some (cdev_ioctl c request) | _ \<Rightarrow> None)
      else if kind = FS_BLOCKDEVICE then
        (case ndev n of Block_device b \<Rightarrow> Some (bdev_ioctl b request) | _ \<Rightarrow> None)
      else Some (- errno_val ENOTSUP))"

section \<open>Paths on the abstract tree\<close>

text \<open>\<open>T\<close> gives the children of every node in order, \<open>up\<close> its parent; a path leads from a node to a
  node by names, \<open>.\<close> and \<open>..\<close>.\<close>

definition child_named :: "vfs \<Rightarrow> (u32 \<Rightarrow> u32 list option) \<Rightarrow> u32 \<Rightarrow> u8 list \<Rightarrow> u32 option" where
  "child_named s T n p = Option.bind (T n) (find (\<lambda>c. nname (fsnodes s c) = p))"

fun resolve :: "vfs \<Rightarrow> (u32 \<Rightarrow> u32 list option) \<Rightarrow> u8 list list \<Rightarrow> u32 \<Rightarrow> u32 option" where
  "resolve s T [] n = Some n"
| "resolve s T (p # ps) n =
     do { c \<leftarrow> (if p = str ''.'' then Some n
               else if p = str ''..'' then parent (vtree s) n else child_named s T n p);
          resolve s T ps c }"

lemma lookup_fast_find:
  assumes "linked (tlinks (vtree s)) a (map Siblings cs) (Children p)"
    and "\<forall>c \<in> set cs. parent (vtree s) c = Some p" and "0 \<notin> set cs"
    and "n = nxt (tlinks (vtree s)) a"
  shows "lookup_fast_from (if n \<noteq> Some (Children p) then tree_node_of n else None) name s =
    Some (case find (\<lambda>c. nname (fsnodes s c) = name) cs of None \<Rightarrow> 0 | Some c \<Rightarrow> c)"
  using assms
proof (induction cs arbitrary: a n)
  case Nil
  then show ?case by (simp add: lookup_fast_from.simps)
next
  case (Cons c cs)
  then have n: "n = Some (Siblings c)" and l: "linked (tlinks (vtree s)) (Siblings c) (map Siblings cs) (Children p)"
    by auto
  let ?m = "nxt (tlinks (vtree s)) (Siblings c)"
  have "tree_next_sibling_or_null c (vtree s) = (if ?m \<noteq> Some (Children p) then tree_node_of ?m else None)"
    using Cons.prems(2) by (simp add: tree_next_sibling_or_null_def)
  moreover have "lookup_fast_from (if ?m \<noteq> Some (Children p) then tree_node_of ?m else None) name s =
    Some (case find (\<lambda>c. nname (fsnodes s c) = name) cs of None \<Rightarrow> 0 | Some c \<Rightarrow> c)"
    using Cons.IH [OF l] Cons.prems(2,3) by simp
  ultimately show ?case
    unfolding n by (subst lookup_fast_from.simps) (simp add: tree_node_of_def)
qed

lemma lookup_fast_child:
  assumes wf: "wf_tree (vtree s) T" and c: "child_named s T n p = Some c" and z: "\<forall>cs. T n = Some cs \<longrightarrow> 0 \<notin> set cs"
  shows "vfs_lookup_tree_fast n p s = Some c"
proof -
  obtain cs where cs: "T n = Some cs" "find (\<lambda>c. nname (fsnodes s c) = p) cs = Some c"
    using c by (auto simp: child_named_def bind_eq_Some_conv)
  have "child_family T (Children n) = Some (map Siblings cs)" using cs(1) by (simp add: child_family_def)
  then have "ring (tlinks (vtree s)) (Children n) (map Siblings cs)"
    using wf wf_ring [of "tlinks (vtree s)" "child_family T"] by (simp add: wf_tree_def)
  then have l: "linked (tlinks (vtree s)) (Children n) (map Siblings cs) (Children n)" by (simp add: ring_def)
  have par: "\<forall>c \<in> set cs. parent (vtree s) c = Some n" using wf cs(1) by (auto simp: wf_tree_def)
  have "0 \<notin> set cs" using z cs(1) by blast
  from lookup_fast_find [OF l par this refl, of p] show ?thesis
    using cs(2) by (simp add: vfs_lookup_tree_fast_def tree_first_child_or_null_def Let_def)
qed

lemma child_named_mem: "child_named s T n p = Some c \<Longrightarrow> \<exists>cs. T n = Some cs \<and> c \<in> set cs"
  by (auto simp: child_named_def bind_eq_Some_conv find_Some_iff)

lemma lookup_parts_resolve:
  assumes wf: "wf_tree (vtree s) T" and z: "\<forall>n cs. T n = Some cs \<longrightarrow> 0 \<notin> set cs" "\<forall>n. parent (vtree s) n \<noteq> Some 0"
  shows "rnode r \<noteq> 0 \<Longrightarrow> resolve s T ps (rnode r) = Some m \<Longrightarrow>
    \<exists>q. lookup_parts ps r s = Some (s, r\<lparr>rnode := m, rpath := q\<rparr>, ok)"
proof (induction ps arbitrary: r)
  case Nil
  then show ?case by (intro exI [of _ "rpath r"]) simp
next
  case (Cons p ps)
  then obtain c where c: "(if p = str ''.'' then Some (rnode r)
      else if p = str ''..'' then parent (vtree s) (rnode r) else child_named s T (rnode r) p) = Some c"
    and m: "resolve s T ps c = Some m" by (auto simp: bind_eq_Some_conv)
  have n: "vfs_lookup_tree_node (rnode r) p s = Some c"
    using c lookup_fast_child [OF wf, of "rnode r" p c] z(1) by (auto simp: vfs_lookup_tree_node_def split: if_splits)
  have "c \<noteq> 0"
    using c z Cons.prems(1) child_named_mem [of s T "rnode r" p c] by (auto split: if_splits)
  then show ?case
    using Cons.IH [of "r\<lparr>rnode := c, rpath := p\<rparr>"] Cons.prems(1) m n by (auto simp: bind_eq_Some_conv)
qed

section \<open>Properties\<close>

text \<open>
  C22: when the parts of a path lead from the root to a node in the tree as it is, looking the path up
  returns that node, follows \<open>.\<close> and \<open>..\<close>, asks no file system and changes nothing but the
  allocator, which gets the copy of the path back.
\<close>

theorem vfs_lookup_resolves:
  assumes "wf_tree (vtree s) T" and "\<forall>n cs. T n = Some cs \<longrightarrow> 0 \<notin> set cs"
    and "\<forall>n. parent (vtree s) n \<noteq> Some 0" and "fs_root s \<noteq> 0"
    and "resolve s T (tokens (str ''/'') path) (fs_root s) = Some n"
    and "vfs_strdup path s = Some (s\<lparr>vslub := m\<rparr>, a)" and "a \<noteq> 0" and "bfree a m = Some m'"
  shows "vfs_open path s = Some (s\<lparr>vslub := m'\<rparr>, n)"
proof -
  let ?s = "s\<lparr>vslub := m\<rparr>" and ?r = "\<lparr>rflags = 0, rpath = path, rnode = fs_root s\<rparr>"
  have res: "resolve ?s T ps = resolve s T ps" for ps
    by (induction ps; rule ext) (simp_all add: child_named_def)
  obtain q where q: "lookup_parts (tokens (str ''/'') path) ?r ?s = Some (?s, ?r\<lparr>rnode := n, rpath := q\<rparr>, ok)"
    using lookup_parts_resolve [of ?s T ?r "tokens (str ''/'') path" n] assms(1-5) res by auto
  have "vfree a ?s = Some (s\<lparr>vslub := m'\<rparr>)" using assms(8) by (simp add: vfree_def)
  then show ?thesis
    using assms(4,6,7) q
    by (simp add: vfs_open_def vfs_lookup_def vfs_lookup_node_def vfs_lookup_tree_def vfs_lookup_request_valid_def)
qed

text \<open>A root with the directory \<open>dev\<close>.\<close>

definition dev_tree :: "u32 tree" where
  "dev_tree = tree_node_insert 0x200 0x100 (tree_node_init 0x200 (tree_node_init 0x100
     \<lparr>parent = (\<lambda>_. None), children_count = (\<lambda>_. 0), tlinks = \<lparr>prv = (\<lambda>_. None), nxt = (\<lambda>_. None)\<rparr>\<rparr>))"

definition dev_vfs :: vfs where
  "dev_vfs = demo_vfs\<lparr>vtree := dev_tree, fs_root := 0x100,
     fsnodes := (\<lambda>_. zero_node)(0x200 := zero_node\<lparr>nname := str ''dev''\<rparr>)\<rparr>"

lemma dev_tree: "wf_tree dev_tree [0x100 \<mapsto> [0x200], 0x200 \<mapsto> []]"
proof -
  let ?t = "\<lparr>parent = (\<lambda>_. None), children_count = (\<lambda>_. 0), tlinks = \<lparr>prv = (\<lambda>_. None), nxt = (\<lambda>_. None)\<rparr>\<rparr> :: u32 tree"
  have "wf_tree ?t (\<lambda>_. None)" by (simp add: wf_tree_def wf_lists_def child_family_def split: tnode.split)
  from tree_init_wf [OF this, of "0x100"] have 1: "wf_tree (tree_node_init 0x100 ?t) [0x100 \<mapsto> []]" by simp
  from tree_init_wf [OF 1, of "0x200"]
  have 2: "wf_tree (tree_node_init 0x200 (tree_node_init 0x100 ?t)) [0x100 \<mapsto> [], 0x200 \<mapsto> []]" by simp
  have "wf_tree dev_tree ([0x100 \<mapsto> [], 0x200 \<mapsto> []](0x100 \<mapsto> [] @ [0x200]))"
    unfolding dev_tree_def by (rule tree_insert_wf [OF 2]) simp_all
  moreover have "[0x100 \<mapsto> [], 0x200 \<mapsto> []](0x100 :: u32 \<mapsto> [] @ [0x200 :: u32]) = [0x100 \<mapsto> [0x200], 0x200 \<mapsto> []]"
    by (rule ext) simp
  ultimately show ?thesis by simp
qed

theorem vfs_lookup_resolves_witness:
  "\<exists>m. vfs_open (str ''/./dev/'') dev_vfs = Some (dev_vfs\<lparr>vslub := m\<rparr>, 0x200)"
proof -
  let ?T = "[0x100 \<mapsto> [0x200], 0x200 \<mapsto> []] :: u32 \<Rightarrow> u32 list option"
  obtain t t' where t: "bmalloc 8 demo_heap = Some (t, 0x10000)" "bfree 0x10000 t = Some t'"
    using demo_heap_bmalloc [of 8] by auto
  have "vslub dev_vfs = demo_heap" by (simp add: dev_vfs_def demo_vfs_def)
  then have sd: "vfs_strdup (str ''/./dev/'') dev_vfs = Some (dev_vfs\<lparr>vslub := t\<rparr>, 0x10000)"
    using t(1) by (simp add: vfs_strdup_def str_def vmalloc_def)
  have "resolve dev_vfs ?T (tokens (str ''/'') (str ''/./dev/'')) (fs_root dev_vfs) = Some 0x200"
    by (simp add: tokens_def str_def child_named_def dev_vfs_def)
  moreover have "wf_tree (vtree dev_vfs) ?T" using dev_tree by (simp add: dev_vfs_def)
  moreover have "\<forall>n. parent (vtree dev_vfs) n \<noteq> Some 0"
    by (simp add: dev_vfs_def dev_tree_def tree_node_insert_def tree_node_init_def)
  ultimately show ?thesis
    using vfs_lookup_resolves [of dev_vfs ?T "str ''/./dev/''" "0x200" t "0x10000" t'] sd t(2)
    by (auto simp: dev_vfs_def split: if_splits)
qed

end
