(* ===== verification/Elf.thy ===== *)
theory Elf
  imports Bytes
begin

text \<open>
  \<^verbatim>\<open>src/lib/elf/libelf.c\<close>, \<^verbatim>\<open>src/lib/elf/libelf32.c\<close> and
  \<^verbatim>\<open>elfboot/libelf.h\<close>: access to the headers, sections and symbols of a 32-bit ELF object in
  memory. A pointer is an address of the flat memory, fields are read at their offsets; nothing is
  checked against the size of the object, as in the code. A section index that is compared with
  \<^verbatim>\<open>e_shnum\<close> runs up to at most 65535, so the loops end.
\<close>

section \<open>Layout\<close>

definition e_shoff :: "mem \<Rightarrow> u32 \<Rightarrow> u32" where "e_shoff m eh = load32 m (eh + 32)"
definition e_shnum :: "mem \<Rightarrow> u32 \<Rightarrow> u16" where "e_shnum m eh = load16 m (eh + 48)"
definition e_shstrndx :: "mem \<Rightarrow> u32 \<Rightarrow> u16" where "e_shstrndx m eh = load16 m (eh + 50)"

definition sh_name :: "mem \<Rightarrow> u32 \<Rightarrow> u32" where "sh_name m sh = load32 m sh"
definition sh_type :: "mem \<Rightarrow> u32 \<Rightarrow> u32" where "sh_type m sh = load32 m (sh + 4)"
definition sh_flags :: "mem \<Rightarrow> u32 \<Rightarrow> u32" where "sh_flags m sh = load32 m (sh + 8)"
definition sh_addr :: "mem \<Rightarrow> u32 \<Rightarrow> u32" where "sh_addr m sh = load32 m (sh + 12)"
definition sh_offset :: "mem \<Rightarrow> u32 \<Rightarrow> u32" where "sh_offset m sh = load32 m (sh + 16)"
definition sh_size :: "mem \<Rightarrow> u32 \<Rightarrow> u32" where "sh_size m sh = load32 m (sh + 20)"
definition sh_info :: "mem \<Rightarrow> u32 \<Rightarrow> u32" where "sh_info m sh = load32 m (sh + 28)"
definition sh_entsize :: "mem \<Rightarrow> u32 \<Rightarrow> u32" where "sh_entsize m sh = load32 m (sh + 36)"

definition st_name :: "mem \<Rightarrow> u32 \<Rightarrow> u32" where "st_name m sm = load32 m sm"
definition st_value :: "mem \<Rightarrow> u32 \<Rightarrow> u32" where "st_value m sm = load32 m (sm + 4)"
definition st_shndx :: "mem \<Rightarrow> u32 \<Rightarrow> u16" where "st_shndx m sm = load16 m (sm + 14)"

definition r_offset :: "mem \<Rightarrow> u32 \<Rightarrow> u32" where "r_offset m rel = load32 m rel"
definition r_info :: "mem \<Rightarrow> u32 \<Rightarrow> u32" where "r_info m rel = load32 m (rel + 4)"

definition SHDR_BYTES :: u32 where "SHDR_BYTES = 40"
definition SYM_BYTES :: u32 where "SYM_BYTES = 16"
definition REL_BYTES :: u32 where "REL_BYTES = 8"

definition SHT_NOBITS :: u32 where "SHT_NOBITS = 8"
definition SHT_REL :: u32 where "SHT_REL = 9"
definition SHF_RELA_LIVEPATCH :: u32 where "SHF_RELA_LIVEPATCH = 0x00100000"
definition SHN_UNDEF :: u16 where "SHN_UNDEF = 0"
definition SHN_LIVEPATCH :: u16 where "SHN_LIVEPATCH = 0xFF20"
definition SHN_ABS :: u16 where "SHN_ABS = 0xFFF1"
definition SHN_COMMON :: u16 where "SHN_COMMON = 0xFFF2"
definition R_386_32 :: u32 where "R_386_32 = 1"
definition R_386_PC32 :: u32 where "R_386_PC32 = 2"
definition ELF32_R_SYM :: "u32 \<Rightarrow> u32" where "ELF32_R_SYM x = drop_bit 8 x"
definition ELF32_R_TYPE :: "u32 \<Rightarrow> u32" where "ELF32_R_TYPE x = x AND 0xFF"

definition ELF_SYMTAB :: "u8 list" where "ELF_SYMTAB = str ''.symtab''"
definition ELF_STRTAB :: "u8 list" where "ELF_STRTAB = str ''.strtab''"

section \<open>Comparing with a string constant\<close>

text \<open>Whether \<^verbatim>\<open>strcmp\<close> of a string constant with the string at an address is 0.\<close>

fun str_is :: "mem \<Rightarrow> u32 \<Rightarrow> u8 list \<Rightarrow> bool" where
  "str_is m p [] \<longleftrightarrow> m p = 0"
| "str_is m p (c # s) \<longleftrightarrow> m p = c \<and> str_is m (p + 1) s"

lemma str_is_strcmp: "cstr m q s \<Longrightarrow> \<exists>d. strcmp m q p = Some d \<and> (d = 0 \<longleftrightarrow> str_is m p s)"
proof (induction s arbitrary: p q)
  case Nil
  have "sint (m p) = 0 \<longleftrightarrow> m p = 0" by (rule sint_zero_iff)
  with Nil show ?case
    by (cases "m p = 0") (subst strcmp.simps, simp add: Let_def)+
next
  case (Cons c s)
  then have c: "m q = c" "c \<noteq> 0" "cstr m (q + 1) s" by auto
  obtain d where d: "strcmp m (q + 1) (p + 1) = Some d" "d = 0 \<longleftrightarrow> str_is m (p + 1) s"
    using Cons.IH [OF c(3)] by blast
  have "sint (m p) = sint c \<longleftrightarrow> m p = c" by (rule sint_eq_iff)
  then show ?case
    using c d by (subst strcmp.simps) (cases "m p = c"; simp add: Let_def)
qed

section \<open>Identification\<close>

definition libelf_compare_magic :: "mem \<Rightarrow> u32 \<Rightarrow> bool" where
  "libelf_compare_magic m eh \<longleftrightarrow> mem_bytes m eh 4 = [0x7F, 0x45, 0x4C, 0x46]"

definition libelf_compare_ident :: "mem \<Rightarrow> u32 \<Rightarrow> u8 \<Rightarrow> u8 \<Rightarrow> bool" where
  "libelf_compare_ident m eh ident v \<longleftrightarrow> m (eh + ucast ident) = v"

definition EI_CLASS :: u8 where "EI_CLASS = 4"

definition libelf_compare_class :: "mem \<Rightarrow> u32 \<Rightarrow> u8 \<Rightarrow> bool" where
  "libelf_compare_class m eh cls \<longleftrightarrow> libelf_compare_ident m eh EI_CLASS cls"

definition libelf_confirm_ident :: "mem \<Rightarrow> u32 \<Rightarrow> u8 \<Rightarrow> bool" where
  "libelf_confirm_ident m eh cls \<longleftrightarrow> libelf_compare_magic m eh \<and> libelf_compare_class m eh cls"

section \<open>Sections\<close>

definition libelf32_shdr :: "mem \<Rightarrow> u32 \<Rightarrow> u16 \<Rightarrow> u32" where
  "libelf32_shdr m eh i = eh + e_shoff m eh + SHDR_BYTES * ucast i"

definition libelf32_section :: "mem \<Rightarrow> u32 \<Rightarrow> u16 \<Rightarrow> u32" where
  "libelf32_section m eh i = eh + sh_offset m (libelf32_shdr m eh i)"

definition libelf32_section_name :: "mem \<Rightarrow> u32 \<Rightarrow> u16 \<Rightarrow> u32" where
  "libelf32_section_name m eh i =
     (if e_shstrndx m eh = SHN_UNDEF then 0
      else libelf32_section m eh (e_shstrndx m eh) + sh_name m (libelf32_shdr m eh i))"

text \<open>The index of the first section, from 1 on, that has the name; both searches use it.\<close>

definition section_index :: "mem \<Rightarrow> u32 \<Rightarrow> u8 list \<Rightarrow> nat option" where
  "section_index m eh name =
     find (\<lambda>i. str_is m (libelf32_section_name m eh (of_nat i)) name) [1..<unat (e_shnum m eh)]"

definition libelf32_find_shdr :: "mem \<Rightarrow> u32 \<Rightarrow> u8 list \<Rightarrow> u32" where
  "libelf32_find_shdr m eh name =
     (case section_index m eh name of None \<Rightarrow> 0 | Some i \<Rightarrow> libelf32_shdr m eh (of_nat i))"

definition libelf32_find_section :: "mem \<Rightarrow> u32 \<Rightarrow> u8 list \<Rightarrow> u32" where
  "libelf32_find_section m eh name =
     (case section_index m eh name of None \<Rightarrow> 0 | Some i \<Rightarrow> libelf32_section m eh (of_nat i))"

section \<open>Symbols\<close>

definition libelf32_symbol_name :: "mem \<Rightarrow> u32 \<Rightarrow> u32 \<Rightarrow> u32" where
  "libelf32_symbol_name m eh sname =
     (let t = libelf32_find_section m eh ELF_STRTAB in if t = 0 then 0 else t + sname)"

text \<open>The index is truncated to 16 bits on the way.\<close>

definition libelf32_symbol :: "mem \<Rightarrow> u32 \<Rightarrow> u16 \<Rightarrow> u32" where
  "libelf32_symbol m eh i =
     (let t = libelf32_find_section m eh ELF_SYMTAB in if t = 0 then 0 else t + SYM_BYTES * ucast i)"

text \<open>\<^verbatim>\<open>__libelf32_find_symbol\<close>; the division by the size of an entry may be by 0.\<close>

definition libelf32_find_symbol_in :: "mem \<Rightarrow> u32 \<Rightarrow> u32 \<Rightarrow> u8 list \<Rightarrow> u32 option" where
  "libelf32_find_symbol_in m eh sh name =
     (if sh_entsize m sh = 0 then None
      else Some (case find (\<lambda>i. str_is m (libelf32_symbol_name m eh (st_name m (libelf32_symbol m eh (of_nat i)))) name)
          [0..<unat (sh_size m sh div sh_entsize m sh)] of
        None \<Rightarrow> 0 | Some i \<Rightarrow> libelf32_symbol m eh (of_nat i)))"

definition libelf32_find_symbol :: "mem \<Rightarrow> u32 \<Rightarrow> u8 list \<Rightarrow> u32 option" where
  "libelf32_find_symbol m eh name =
     (let sh = libelf32_find_shdr m eh ELF_SYMTAB
      in if sh = 0 then Some 0 else libelf32_find_symbol_in m eh sh name)"

end
