(* ===== verification/Module.thy ===== *)
theory Module
  imports Elf Vfs Printf
begin

text \<open>
  \<^verbatim>\<open>src/core/symbol.c\<close> and \<^verbatim>\<open>src/core/module.c\<close>: the symbols of the boot loader and
  the loader of modules, relocatable ELF objects that are linked in memory against them. Memory
  is flat; the code of a module is not executed here, its entry point is a parameter.
\<close>

section \<open>Symbols\<close>

text \<open>The list in its order; a symbol is added at the end.\<close>

record elfboot_symbol =
  sname :: "u8 list"
  saddr :: u32

definition SYMBOL_BYTES :: u32 where "SYMBOL_BYTES = 16"

text \<open>The string at an address.\<close>

definition string_at :: "mem \<Rightarrow> u32 \<Rightarrow> u8 list option" where
  "string_at m p = map_option (\<lambda>n. mem_bytes m p (unat n)) (strlen m p)"

definition symbol_add :: "u32 \<Rightarrow> u32 \<Rightarrow> mem \<Rightarrow> slub \<Rightarrow> elfboot_symbol list \<Rightarrow>
    (mem \<times> slub \<times> elfboot_symbol list \<times> status) option" where
  "symbol_add name addr m s syms =
     do { (s, a) \<leftarrow> bmalloc SYMBOL_BYTES s;
          if a = 0 then Some (m, s, syms, Inl ENOMEM)
          else do {
            (m, s, n) \<leftarrow> bstrdup name m s;
            if n = 0 then do { s \<leftarrow> bfree a s; Some (m, s, syms, Inl ENOMEM) }
            else do {
              nm \<leftarrow> string_at m name;
              Some (m, s, syms @ [\<lparr>sname = nm, saddr = addr\<rparr>], ok) } } }"

definition symbol_lookup_name :: "elfboot_symbol list \<Rightarrow> u8 list \<Rightarrow> u32" where
  "symbol_lookup_name syms name =
     (case find (\<lambda>x. sname x = name) syms of None \<Rightarrow> 0 | Some x \<Rightarrow> saddr x)"

definition symbol_lookup :: "elfboot_symbol list \<Rightarrow> u32 \<Rightarrow> u8 list option" where
  "symbol_lookup syms addr = map_option sname (find (\<lambda>x. saddr x = addr) syms)"

text \<open>The loop of \<^verbatim>\<open>symbol_lookup_caller\<close>; without a symbol at or below the address the
  result is read through \<^verbatim>\<open>NULL\<close> (\<open>None\<close>).\<close>

fun caller_loop :: "elfboot_symbol list \<Rightarrow> u32 \<Rightarrow> elfboot_symbol option \<Rightarrow> elfboot_symbol option" where
  "caller_loop [] addr caller = caller"
| "caller_loop (x # xs) addr caller = (if saddr x > addr then caller else caller_loop xs addr (Some x))"

definition symbol_lookup_caller :: "elfboot_symbol list \<Rightarrow> u32 \<Rightarrow> u8 list option" where
  "symbol_lookup_caller syms addr = map_option sname (caller_loop syms addr None)"

text \<open>\<^verbatim>\<open>symbol_parse_map\<close>: \<open>p\<close> is the static pointer of \<^verbatim>\<open>strtok\<close> and
  \<open>delim\<close> the address of the delimiters. A name that is missing is read at address 0.\<close>

partial_function (option) parse_map_loop :: "u32 \<Rightarrow> u32 \<Rightarrow> u32 \<Rightarrow> mem \<Rightarrow> slub \<Rightarrow> elfboot_symbol list \<Rightarrow>
    (mem \<times> slub \<times> elfboot_symbol list \<times> status) option" where
  "parse_map_loop delim p addr m s syms =
     (if addr = 0 then Some (m, s, syms, ok)
      else do {
        (t, m, p) \<leftarrow> strtok m p 0 delim;
        (name, m, p) \<leftarrow> strtok m p 0 delim;
        (m, s, syms, st) \<leftarrow>
          (if m name = of_char CHR ''_'' then Some (m, s, syms, ok)
           else do { (v, _) \<leftarrow> strtoul m addr 16; symbol_add name v m s syms });
        case st of Inl _ \<Rightarrow> Some (m, s, syms, Inl ENOMEM)
        | Inr _ \<Rightarrow> do {
            (addr, m, p) \<leftarrow> strtok m p 0 delim;
            parse_map_loop delim p addr m s syms } })"

definition symbol_parse_map :: "u32 \<Rightarrow> u32 \<Rightarrow> mem \<Rightarrow> slub \<Rightarrow> elfboot_symbol list \<Rightarrow>
    (mem \<times> slub \<times> elfboot_symbol list \<times> status) option" where
  "symbol_parse_map delim table m s syms =
     do { (addr, m, p) \<leftarrow> strtok m 0 table delim; parse_map_loop delim p addr m s syms }"

section \<open>Modules\<close>

record module_t =
  mname :: "u8 list"
  mbuffer :: u32
  mshdr :: u32
  msymtab :: u32
  mnumsyms :: u32
  mstrtab :: u32
  mshstrtab :: u32
  minit :: u32
  mexit :: u32

definition module_find_symbol :: "mem \<Rightarrow> module_t \<Rightarrow> u8 list \<Rightarrow> u32" where
  "module_find_symbol m d name =
     (case find (\<lambda>i. str_is m (mstrtab d + st_name m (msymtab d + SYM_BYTES * of_nat i)) name)
        [0..<unat (mnumsyms d)] of
        None \<Rightarrow> 0 | Some i \<Rightarrow> msymtab d + SYM_BYTES * of_nat i)"

definition module_find_sections :: "mem \<Rightarrow> module_t \<Rightarrow> (module_t \<times> status) option" where
  "module_find_sections m d =
     (let eh = mbuffer d;
          d = d\<lparr>mshdr := libelf32_shdr m eh 0, mshstrtab := libelf32_section m eh (e_shstrndx m eh)\<rparr>;
          sh = libelf32_find_shdr m eh ELF_SYMTAB in
      if sh = 0 then Some (d, Inl ENOENT)
      else
        let d = d\<lparr>msymtab := libelf32_find_section m eh ELF_SYMTAB,
                  mstrtab := libelf32_find_section m eh ELF_STRTAB\<rparr> in
        if mstrtab d = 0 then Some (d, Inl ENOENT)
        else if sh_entsize m sh = 0 then None
        else Some (d\<lparr>mnumsyms := sh_size m sh div sh_entsize m sh\<rparr>, ok))"

text \<open>Sections without contents get cleared memory, the others lie in the buffer. The loop from index
  \<open>i\<close> on reads the number of sections anew every time.\<close>

partial_function (option) load_sections_loop :: "u32 \<Rightarrow> u16 \<Rightarrow> mem \<Rightarrow> slub \<Rightarrow> (mem \<times> slub \<times> status) option" where
  "load_sections_loop eh i m s =
     (if i < e_shnum m eh then
        let sh = libelf32_shdr m eh i in
        if sh_type m sh = SHT_NOBITS then do {
          (s, a) \<leftarrow> bmalloc (sh_size m sh) s;
          let m = store32 m (sh + 12) a;
          if a = 0 then Some (m, s, Inl ENOMEM)
          else load_sections_loop eh (i + 1) (memset m a 0 (sh_size m sh)) s }
        else load_sections_loop eh (i + 1) (store32 m (sh + 12) (eh + sh_offset m sh)) s
      else Some (m, s, ok))"

definition module_load_sections :: "module_t \<Rightarrow> mem \<Rightarrow> slub \<Rightarrow> (mem \<times> slub \<times> status) option" where
  "module_load_sections d m s = load_sections_loop (mbuffer d) 0 m s"

text \<open>The index of \<^verbatim>\<open>module_resolve_symbols\<close> has 16 bits, so with more than 65536 symbols
  the loop does not end.\<close>

partial_function (option) resolve_symbols_loop ::
  "elfboot_symbol list \<Rightarrow> module_t \<Rightarrow> u16 \<Rightarrow> mem \<Rightarrow> (mem \<times> status) option" where
  "resolve_symbols_loop syms d i m =
     (if ucast i < mnumsyms d then
        let sm = msymtab d + SYM_BYTES * ucast i; sec = st_shndx m sm in
        if sec = SHN_COMMON \<or> sec = SHN_ABS \<or> sec = SHN_LIVEPATCH
        then resolve_symbols_loop syms d (i + 1) m
        else if sec = SHN_UNDEF then do {
          name \<leftarrow> string_at m (mstrtab d + st_name m sm);
          let v = symbol_lookup_name syms name;
          if v \<noteq> 0 then resolve_symbols_loop syms d (i + 1) (store32 m (sm + 4) v)
          else Some (m, Inl ENOENT) }
        else
          let v = sh_addr m (mshdr d + SHDR_BYTES * ucast sec)
          in resolve_symbols_loop syms d (i + 1) (store32 m (sm + 4) (st_value m sm + v))
      else Some (m, ok))"

definition module_resolve_symbols :: "elfboot_symbol list \<Rightarrow> module_t \<Rightarrow> mem \<Rightarrow> (mem \<times> status) option" where
  "module_resolve_symbols syms d m = resolve_symbols_loop syms d 1 m"

text \<open>One relocation: \<open>rel\<close> is the table, \<open>ndx\<close> the entry.\<close>

definition reloc_pos :: "mem \<Rightarrow> module_t \<Rightarrow> u32 \<Rightarrow> u32 \<Rightarrow> u32 \<Rightarrow> u32" where
  "reloc_pos m d sh rel ndx =
     sh_addr m (mshdr d + SHDR_BYTES * sh_info m sh) + r_offset m (rel + REL_BYTES * ndx)"

definition reloc_value :: "mem \<Rightarrow> module_t \<Rightarrow> u32 \<Rightarrow> u32 \<Rightarrow> u32 \<Rightarrow> u32 option" where
  "reloc_value m d sh rel ndx =
     (let pos = reloc_pos m d sh rel ndx; info = r_info m (rel + REL_BYTES * ndx);
          v = st_value m (msymtab d + SYM_BYTES * ELF32_R_SYM info) in
      if ELF32_R_TYPE info = R_386_32 then Some (load32 m pos + v)
      else if ELF32_R_TYPE info = R_386_PC32 then Some (load32 m pos + (v - pos))
      else None)"

partial_function (option) relocate_loop :: "module_t \<Rightarrow> u32 \<Rightarrow> u32 \<Rightarrow> u32 \<Rightarrow> mem \<Rightarrow> (mem \<times> status) option" where
  "relocate_loop d sh rel ndx m =
     (if ndx < sh_size m sh div REL_BYTES then
        (case reloc_value m d sh rel ndx of
           None \<Rightarrow> Some (m, Inl ENOEXEC)
         | Some v \<Rightarrow> relocate_loop d sh rel (ndx + 1) (store32 m (reloc_pos m d sh rel ndx) v))
      else Some (m, ok))"

definition module_apply_relocate :: "module_t \<Rightarrow> u32 \<Rightarrow> mem \<Rightarrow> (mem \<times> status) option" where
  "module_apply_relocate d sh m = relocate_loop d sh (sh_addr m sh) 0 m"

text \<open>\<^verbatim>\<open>ret\<close> is not initialised: the caller passes what it holds. Whatever it becomes, the
  function returns 0.\<close>

partial_function (option) resolve_relocations_loop :: "module_t \<Rightarrow> u16 \<Rightarrow> bool \<Rightarrow> mem \<Rightarrow> mem option" where
  "resolve_relocations_loop d i failed m =
     (let eh = mbuffer d; sh = libelf32_shdr m eh i in
      if \<not> i < e_shnum m eh then Some m
      else if sh_info m sh \<ge> ucast (e_shnum m eh) \<or> sh_flags m sh AND SHF_RELA_LIVEPATCH \<noteq> 0
      then resolve_relocations_loop d (i + 1) failed m
      else do {
        (m, failed) \<leftarrow> (if sh_type m sh = SHT_REL
          then map_option (\<lambda>(m, st). (m, st \<noteq> ok)) (module_apply_relocate d sh m)
          else Some (m, failed));
        if failed then Some m else resolve_relocations_loop d (i + 1) failed m })"

definition module_resolve_relocations :: "bool \<Rightarrow> module_t \<Rightarrow> mem \<Rightarrow> (mem \<times> status) option" where
  "module_resolve_relocations ret d m = map_option (\<lambda>m. (m, ok)) (resolve_relocations_loop d 1 ret m)"

text \<open>\<open>run\<close> is the entry point of the module at an address.\<close>

definition module_initialize ::
  "(u32 \<Rightarrow> mem \<Rightarrow> (mem \<times> int) option) \<Rightarrow> module_t \<Rightarrow> module_t list \<Rightarrow> mem
   \<Rightarrow> (mem \<times> module_t \<times> module_t list \<times> status) option" where
  "module_initialize run d mods m =
     (let i = module_find_symbol m d (str ''init_module''); e = module_find_symbol m d (str ''exit_module'');
          d = (if i \<noteq> 0 then d\<lparr>minit := st_value m i\<rparr> else d);
          d = (if e \<noteq> 0 then d\<lparr>mexit := st_value m e\<rparr> else d) in
      if minit d = 0 \<or> mexit d = 0 then Some (m, d, mods, Inl ENOEXEC)
      else do {
        (m, r) \<leftarrow> run (minit d) m;
        if r \<noteq> 0 then Some (m, d, mods, Inl EFAULT) else Some (m, d, d # mods, ok) })"

section \<open>Opening a module\<close>

text \<open>The length of the name without its suffix; a shorter name is copied whole.\<close>

definition module_short_name :: "u8 list \<Rightarrow> u8 list" where
  "module_short_name n = (if length n \<ge> 4 then take (length n - 4) n else n)"

definition MODULE_BYTES :: u32 where "MODULE_BYTES = 72"

record loader_env =
  lvfs :: vfs
  lsyms :: "elfboot_symbol list"
  lmods :: "module_t list"

definition env_mem :: "mem \<Rightarrow> loader_env \<Rightarrow> loader_env" where
  "env_mem m e = e\<lparr>lvfs := (lvfs e)\<lparr>vmem := m\<rparr>\<rparr>"

text \<open>The steps after the object is in memory; \<open>raw0\<close> is what the fresh structure and the
  uninitialised status hold.\<close>

definition module_link ::
  "(u32 \<Rightarrow> mem \<Rightarrow> (mem \<times> int) option) \<Rightarrow> bool \<Rightarrow> module_t \<Rightarrow> loader_env \<Rightarrow> (loader_env \<times> module_t \<times> status) option" where
  "module_link run ret d e =
     do { (d, st) \<leftarrow> module_find_sections (vmem (lvfs e)) d;
          if st \<noteq> ok then Some (e, d, Inl EFAULT)
          else do {
            (m, sl, st) \<leftarrow> module_load_sections d (vmem (lvfs e)) (vslub (lvfs e));
            let e = env_mem m (e\<lparr>lvfs := (lvfs e)\<lparr>vslub := sl\<rparr>\<rparr>);
            if st \<noteq> ok then Some (e, d, Inl EFAULT)
            else do {
              (m, st) \<leftarrow> module_resolve_symbols (lsyms e) d (vmem (lvfs e));
              let e = env_mem m e;
              if st \<noteq> ok then Some (e, d, Inl EFAULT)
              else do {
                (m, st) \<leftarrow> module_resolve_relocations ret d (vmem (lvfs e));
                let e = env_mem m e;
                if st \<noteq> ok then Some (e, d, Inl EFAULT)
                else do {
                  (m, d, mods, st) \<leftarrow> module_initialize run d (lmods e) (vmem (lvfs e));
                  Some (env_mem m (e\<lparr>lmods := mods\<rparr>), d, if st \<noteq> ok then Inl EFAULT else ok) } } } } }"

definition module_read_file ::
  "(u32 \<Rightarrow> mem \<Rightarrow> (mem \<times> int) option) \<Rightarrow> bool \<Rightarrow> module_t \<Rightarrow> open_file \<Rightarrow> loader_env \<Rightarrow> (loader_env \<times> status) option" where
  "module_read_file run ret raw0 f e =
     do { (v, a) \<leftarrow> vmalloc MODULE_BYTES (lvfs e);
          let e = e\<lparr>lvfs := v\<rparr>;
          if a = 0 then Some (e, Inl ENOMEM)
          else do {
            (v, b) \<leftarrow> vmalloc (file_length f) v;
            let e = e\<lparr>lvfs := v\<rparr>;
            if b = 0 then do { v \<leftarrow> vfree a v; Some (e\<lparr>lvfs := v\<rparr>, Inl EFAULT) }
            else do {
              (v, r, bs) \<leftarrow> file_read f (file_length f) (fresh_buffer v b (file_length f)) v;
              let e = env_mem (store_bytes (vmem v) b bs) (e\<lparr>lvfs := v\<rparr>);
              (e, d, st) \<leftarrow> (if r = 0 then Some (e, raw0, Inl EFAULT)
                else module_link run ret (raw0\<lparr>mbuffer := b\<rparr>) e);
              if st \<noteq> ok then do {
                v \<leftarrow> vfree b (lvfs e); v \<leftarrow> vfree a v; Some (e\<lparr>lvfs := v\<rparr>, Inl EFAULT) }
              else
                let nm = module_short_name (nname (fsnodes (lvfs e) (file_node f))) in
                if length nm > 32 then None
                else case lmods e of [] \<Rightarrow> None
                  | d # ds \<Rightarrow> Some (e\<lparr>lmods := d\<lparr>mname := nm\<rparr> # ds\<rparr>, ok) } } }"

text \<open>The path is built in 64 bytes; a longer one overruns them.\<close>

definition module_path :: "u8 list \<Rightarrow> u8 list" where
  "module_path name = str ''/root/modules/'' @ name @ str ''.ebm''"

definition module_open ::
  "(u32 \<Rightarrow> mem \<Rightarrow> (mem \<times> int) option) \<Rightarrow> bool \<Rightarrow> module_t \<Rightarrow> u8 list \<Rightarrow> loader_env \<Rightarrow> (loader_env \<times> status) option" where
  "module_open run ret raw0 name e =
     (if length (module_path name) \<ge> 64 then None
      else do {
        (v, f) \<leftarrow> file_open (module_path name) 0 (lvfs e);
        let e = e\<lparr>lvfs := v\<rparr>;
        case f of None \<Rightarrow> Some (e, Inl ENOENT)
        | Some f \<Rightarrow> do {
            (e, st) \<leftarrow> module_read_file run ret raw0 f e;
            if st \<noteq> ok then do { v \<leftarrow> vfree (file_addr f) (lvfs e); Some (e\<lparr>lvfs := v\<rparr>, Inl EFAULT) }
            else Some (e, ok) } })"

text \<open>The built-in modules run in the order in which they are linked, until one fails.\<close>

fun modules_init :: "('s \<Rightarrow> 's \<times> int) list \<Rightarrow> 's \<Rightarrow> 's \<times> status" where
  "modules_init [] s = (s, ok)"
| "modules_init (f # fs) s = (let (s, r) = f s in if r \<noteq> 0 then (s, Inl EFAULT) else modules_init fs s)"

definition modules_exit :: "('s \<Rightarrow> 's) list \<Rightarrow> 's \<Rightarrow> 's" where
  "modules_exit fs s = fold (\<lambda>f s. f s) fs s"

section \<open>Looking up a caller\<close>

lemma caller_loop_greatest:
  "sorted (map saddr syms) \<Longrightarrow> (\<forall>c. caller = Some c \<longrightarrow> saddr c \<le> addr \<and> (\<forall>x \<in> set syms. saddr c \<le> saddr x)) \<Longrightarrow>
   (\<exists>x \<in> set syms. saddr x \<le> addr) \<or> caller \<noteq> None \<Longrightarrow>
   \<exists>x. caller_loop syms addr caller = Some x \<and> (x \<in> set syms \<or> caller = Some x) \<and> saddr x \<le> addr \<and>
     (\<forall>y \<in> set syms. saddr y \<le> addr \<longrightarrow> saddr y \<le> saddr x)"
proof (induction syms arbitrary: caller)
  case Nil
  then show ?case by auto
next
  case (Cons s syms)
  show ?case
  proof (cases "saddr s > addr")
    case True
    have "\<forall>y \<in> set syms. saddr s \<le> saddr y" using Cons.prems(1) by simp
    then have none: "\<forall>y \<in> set (s # syms). \<not> saddr y \<le> addr" using True by force
    then obtain c where "caller = Some c" using Cons.prems(3) by auto
    then show ?thesis using True none Cons.prems(2) by auto
  next
    case False
    have "\<exists>x. caller_loop syms addr (Some s) = Some x \<and> (x \<in> set syms \<or> Some s = Some x) \<and> saddr x \<le> addr \<and>
      (\<forall>y \<in> set syms. saddr y \<le> addr \<longrightarrow> saddr y \<le> saddr x)"
      by (rule Cons.IH) (use False Cons.prems(1) in auto)
    moreover have "saddr s \<le> saddr x" if "x \<in> set syms" for x using Cons.prems(1) that by simp
    ultimately show ?thesis using False by auto
  qed
qed

section \<open>Relocating\<close>

text \<open>The four bytes of a word, and stores that keep off them.\<close>

definition word_bytes :: "u32 \<Rightarrow> u32 set" where
  "word_bytes a = {a, a + 1, a + 2, a + 3}"

lemma load32_cong: "(\<And>x. x \<in> word_bytes a \<Longrightarrow> m' x = m x) \<Longrightarrow> load32 m' a = load32 m a"
  by (simp add: load32_def word_bytes_def)

lemma store32_outside: "x \<notin> word_bytes p \<Longrightarrow> store32 m p v x = m x"
  by (simp add: store32_def word_bytes_def)

text \<open>What a relocation reads besides the word that it patches.\<close>

definition reloc_reads :: "mem \<Rightarrow> module_t \<Rightarrow> u32 \<Rightarrow> u32 \<Rightarrow> u32 \<Rightarrow> u32 set" where
  "reloc_reads m d sh rel ndx =
     word_bytes (sh + 20) \<union> word_bytes (sh + 28) \<union> word_bytes (rel + REL_BYTES * ndx)
     \<union> word_bytes (rel + REL_BYTES * ndx + 4) \<union> word_bytes (mshdr d + SHDR_BYTES * sh_info m sh + 12)
     \<union> word_bytes (msymtab d + SYM_BYTES * ELF32_R_SYM (r_info m (rel + REL_BYTES * ndx)) + 4)"

lemma reloc_agree:
  assumes "\<forall>x \<in> reloc_reads m d sh rel ndx. m' x = m x"
  shows "sh_size m' sh = sh_size m sh" and "reloc_pos m' d sh rel ndx = reloc_pos m d sh rel ndx"
    and "load32 m' (reloc_pos m d sh rel ndx) = load32 m (reloc_pos m d sh rel ndx) \<Longrightarrow>
      reloc_value m' d sh rel ndx = reloc_value m d sh rel ndx"
proof -
  have sz: "sh_size m' sh = sh_size m sh" and info: "sh_info m' sh = sh_info m sh"
    and ro: "r_offset m' (rel + REL_BYTES * ndx) = r_offset m (rel + REL_BYTES * ndx)"
    and ri: "r_info m' (rel + REL_BYTES * ndx) = r_info m (rel + REL_BYTES * ndx)"
    unfolding sh_size_def sh_info_def r_offset_def r_info_def
    by (rule load32_cong, use assms in \<open>auto simp: reloc_reads_def\<close>)+
  have sa: "sh_addr m' (mshdr d + SHDR_BYTES * sh_info m sh) = sh_addr m (mshdr d + SHDR_BYTES * sh_info m sh)"
    unfolding sh_addr_def by (rule load32_cong) (use assms in \<open>auto simp: reloc_reads_def\<close>)
  have sv: "st_value m' (msymtab d + SYM_BYTES * ELF32_R_SYM (r_info m (rel + REL_BYTES * ndx))) =
      st_value m (msymtab d + SYM_BYTES * ELF32_R_SYM (r_info m (rel + REL_BYTES * ndx)))"
    unfolding st_value_def by (rule load32_cong) (use assms in \<open>auto simp: reloc_reads_def\<close>)
  show "sh_size m' sh = sh_size m sh" by (rule sz)
  show pos: "reloc_pos m' d sh rel ndx = reloc_pos m d sh rel ndx" unfolding reloc_pos_def info sa ro ..
  show "reloc_value m' d sh rel ndx = reloc_value m d sh rel ndx"
    if "load32 m' (reloc_pos m d sh rel ndx) = load32 m (reloc_pos m d sh rel ndx)"
    unfolding reloc_value_def Let_def pos ri sv that ..
qed

text \<open>The table is well formed: every entry has a value, and no word that is patched is patched
  twice or read by another entry.\<close>

definition wf_relocs :: "mem \<Rightarrow> module_t \<Rightarrow> u32 \<Rightarrow> u32 \<Rightarrow> nat \<Rightarrow> bool" where
  "wf_relocs m d sh rel n \<longleftrightarrow>
     unat (sh_size m sh div REL_BYTES) = n \<and>
     (\<forall>i<n. reloc_value m d sh rel (of_nat i) \<noteq> None \<and>
        (\<forall>j<n. word_bytes (reloc_pos m d sh rel (of_nat i)) \<inter> reloc_reads m d sh rel (of_nat j) = {} \<and>
           (i \<noteq> j \<longrightarrow> word_bytes (reloc_pos m d sh rel (of_nat i)) \<inter> word_bytes (reloc_pos m d sh rel (of_nat j)) = {})))"

lemma relocate_loop_wf:
  assumes wf: "wf_relocs m d sh rel n"
  shows "k \<le> n \<Longrightarrow> n - k = r \<Longrightarrow>
    (\<forall>i<k. load32 mk (reloc_pos m d sh rel (of_nat i)) = the (reloc_value m d sh rel (of_nat i))) \<Longrightarrow>
    (\<forall>x. (\<forall>i<k. x \<notin> word_bytes (reloc_pos m d sh rel (of_nat i))) \<longrightarrow> mk x = m x) \<Longrightarrow>
    \<exists>m'. relocate_loop d sh rel (of_nat k) mk = Some (m', ok) \<and>
      (\<forall>i<n. load32 m' (reloc_pos m d sh rel (of_nat i)) = the (reloc_value m d sh rel (of_nat i))) \<and>
      (\<forall>x. (\<forall>i<n. x \<notin> word_bytes (reloc_pos m d sh rel (of_nat i))) \<longrightarrow> m' x = m x)"
proof (induction r arbitrary: k mk)
  case 0
  let ?P = "\<lambda>i. reloc_pos m d sh rel (of_nat i)"
  have k: "k = n" using 0 by simp
  have nn: "unat (sh_size m sh div REL_BYTES) = n" using wf by (simp add: wf_relocs_def)
  then have n32: "n < 2 ^ 32" using unat_lt32 by metis
  have "sh_size mk sh = sh_size m sh"
  proof (cases n)
    case 0
    then have "mk = m" using \<open>\<forall>x. (\<forall>i<k. x \<notin> _ i) \<longrightarrow> mk x = m x\<close> k by auto
    then show ?thesis by simp
  next
    case (Suc l)
    have "\<forall>x \<in> reloc_reads m d sh rel (of_nat 0). mk x = m x"
      using wf 0(4) k Suc by (fastforce simp: wf_relocs_def)
    then show ?thesis by (rule reloc_agree)
  qed
  moreover have "\<not> (of_nat n :: u32) < sh_size m sh div REL_BYTES"
    using nn n32 by (simp add: word_less_nat_alt unat_of_nat32)
  ultimately show ?case
    using 0 k by (intro exI [of _ mk]) (subst relocate_loop.simps, simp)
next
  case (Suc r)
  let ?P = "\<lambda>i. reloc_pos m d sh rel (of_nat i)" and ?V = "\<lambda>i. reloc_value m d sh rel (of_nat i)"
  have kn: "k < n" using Suc.prems(2) by simp
  have nn: "unat (sh_size m sh div REL_BYTES) = n" using wf by (simp add: wf_relocs_def)
  then have n32: "n < 2 ^ 32" using unat_lt32 by metis
  obtain v where v: "?V k = Some v" using wf kn by (auto simp: wf_relocs_def)
  have agree: "\<forall>x \<in> reloc_reads m d sh rel (of_nat k). mk x = m x"
  proof
    fix x assume "x \<in> reloc_reads m d sh rel (of_nat k)"
    then have "\<forall>i<k. x \<notin> word_bytes (?P i)" using wf kn unfolding wf_relocs_def by (metis disjoint_iff less_trans)
    then show "mk x = m x" using Suc.prems(4) by blast
  qed
  have "load32 mk (?P k) = load32 m (?P k)"
  proof (rule load32_cong)
    fix x assume "x \<in> word_bytes (?P k)"
    then have "\<forall>i<k. x \<notin> word_bytes (?P i)"
      using wf kn unfolding wf_relocs_def by (metis disjoint_iff less_trans nat_neq_iff)
    then show "mk x = m x" using Suc.prems(4) by blast
  qed
  note ag = reloc_agree(1,2) [OF agree] reloc_agree(3) [OF agree this]
  have lt: "(of_nat k :: u32) < sh_size m sh div REL_BYTES"
    using kn nn n32 by (simp add: word_less_nat_alt unat_of_nat32)
  let ?m = "store32 mk (?P k) v"
  have step: "relocate_loop d sh rel (of_nat k) mk = relocate_loop d sh rel (of_nat (k + 1)) ?m"
    by (subst relocate_loop.simps) (simp add: ag lt v add.commute)
  have a: "load32 ?m (?P i) = the (?V i)" if "i < k + 1" for i
  proof (cases "i = k")
    case True
    then show ?thesis using v by simp
  next
    case False
    have "load32 ?m (?P i) = load32 mk (?P i)"
    proof (rule load32_cong)
      fix x assume "x \<in> word_bytes (?P i)"
      then have "x \<notin> word_bytes (?P k)"
        using wf kn that False unfolding wf_relocs_def by (metis disjoint_iff less_trans less_antisym Suc_eq_plus1)
      then show "?m x = mk x" by (rule store32_outside)
    qed
    then show ?thesis using Suc.prems(3) that False by simp
  qed
  have b: "?m x = m x" if "\<forall>i<k + 1. x \<notin> word_bytes (?P i)" for x
    using that Suc.prems(4) by (simp add: store32_outside)
  show ?case unfolding step
    by (rule Suc.IH) (use kn Suc.prems(2) a b in auto)
qed

section \<open>Properties\<close>

text \<open>
  C6: applying a relocation table in which every entry is of a known type and no patched word is
  patched twice or read by another entry gives every word its value, the symbol's for an absolute and the
  distance for a relative entry, added to what was there, and changes no other byte of the memory.
\<close>

theorem module_relocation_exact:
  assumes "wf_relocs m d sh (sh_addr m sh) n"
  shows "\<exists>m'. module_apply_relocate d sh m = Some (m', ok) \<and>
    (\<forall>i<n. let pos = reloc_pos m d sh (sh_addr m sh) (of_nat i);
          info = r_info m (sh_addr m sh + REL_BYTES * of_nat i);
          v = st_value m (msymtab d + SYM_BYTES * ELF32_R_SYM info) in
        ELF32_R_TYPE info = R_386_32 \<and> load32 m' pos = load32 m pos + v \<or>
        ELF32_R_TYPE info = R_386_PC32 \<and> load32 m' pos = load32 m pos + v - pos) \<and>
    (\<forall>x. (\<forall>i<n. x \<notin> word_bytes (reloc_pos m d sh (sh_addr m sh) (of_nat i))) \<longrightarrow> m' x = m x)"
proof -
  obtain m' where m': "relocate_loop d sh (sh_addr m sh) (of_nat 0) m = Some (m', ok)"
    "\<forall>i<n. load32 m' (reloc_pos m d sh (sh_addr m sh) (of_nat i)) = the (reloc_value m d sh (sh_addr m sh) (of_nat i))"
    "\<forall>x. (\<forall>i<n. x \<notin> word_bytes (reloc_pos m d sh (sh_addr m sh) (of_nat i))) \<longrightarrow> m' x = m x"
    using relocate_loop_wf [OF assms, of 0 n m] by auto
  have val: "reloc_value m d sh (sh_addr m sh) (of_nat i) =
      Some (load32 m' (reloc_pos m d sh (sh_addr m sh) (of_nat i)))" if "i < n" for i
    using assms m'(2) that by (auto simp: wf_relocs_def)
  have words: "let pos = reloc_pos m d sh (sh_addr m sh) (of_nat i);
          info = r_info m (sh_addr m sh + REL_BYTES * of_nat i);
          v = st_value m (msymtab d + SYM_BYTES * ELF32_R_SYM info) in
        ELF32_R_TYPE info = R_386_32 \<and> load32 m' pos = load32 m pos + v \<or>
        ELF32_R_TYPE info = R_386_PC32 \<and> load32 m' pos = load32 m pos + v - pos" if "i < n" for i
    using val [OF that] unfolding reloc_value_def Let_def
    by (simp only: add_diff_eq split: if_splits) simp_all
  have "module_apply_relocate d sh m = Some (m', ok)"
    using m'(1) by (simp add: module_apply_relocate_def)
  with m'(3) words show ?thesis by blast
qed

text \<open>One entry, a call of the symbol at 0x6000 from 0x4004.\<close>

definition demo_object :: mem where
  "demo_object = fold (\<lambda>(a, v) m. store32 m a v)
     [(0x100C, 0x2000), (0x1014, 8), (0x101C, 1), (0x3034, 0x4000), (0x2000, 4), (0x2004, 0x102),
      (0x5014, 0x6000), (0x4004, 0xFFFFFFFC)] (\<lambda>_. 0)"

definition demo_module :: module_t where
  "demo_module = \<lparr>mname = [], mbuffer = 0, mshdr = 0x3000, msymtab = 0x5000, mnumsyms = 2, mstrtab = 0,
     mshstrtab = 0, minit = 0, mexit = 0\<rparr>"

theorem module_relocation_exact_witness:
  "\<exists>m'. module_apply_relocate demo_module 0x1000 demo_object = Some (m', ok) \<and>
    load32 m' 0x4004 = 0xFFFFFFFC + (0x6000 - 0x4004)"
proof -
  have obj: "load32 demo_object 0x100C = 0x2000" "load32 demo_object 0x1014 = 8" "load32 demo_object 0x101C = 1"
    "load32 demo_object 0x3034 = 0x4000" "load32 demo_object 0x2000 = 4" "load32 demo_object 0x2004 = 0x102"
    "load32 demo_object 0x5014 = 0x6000" "load32 demo_object 0x4004 = 0xFFFFFFFC"
    by (simp_all add: demo_object_def store32_def load32_def)
  note defs = sh_addr_def sh_size_def sh_info_def r_offset_def r_info_def st_value_def SHDR_BYTES_def
    REL_BYTES_def SYM_BYTES_def ELF32_R_SYM_def ELF32_R_TYPE_def R_386_32_def R_386_PC32_def
  have flds [simp]: "mshdr demo_module = 0x3000" "msymtab demo_module = 0x5000"
    by (simp_all add: demo_module_def)
  have rel: "sh_addr demo_object 0x1000 = 0x2000" by (simp add: defs obj)
  have pos: "reloc_pos demo_object demo_module 0x1000 0x2000 0 = 0x4004"
    by (simp add: reloc_pos_def defs obj)
  have val: "reloc_value demo_object demo_module 0x1000 0x2000 0 = Some (0xFFFFFFFC + (0x6000 - 0x4004))"
    unfolding reloc_value_def pos by (simp add: defs obj)
  have "wf_relocs demo_object demo_module 0x1000 (sh_addr demo_object 0x1000) 1"
    unfolding wf_relocs_def rel by (simp add: pos val reloc_reads_def word_bytes_def defs obj)
  from module_relocation_exact [OF this] show ?thesis
    unfolding rel by (auto simp: pos defs obj Let_def)
qed

text \<open>
  C38: with the symbols in the order of their addresses, the symbol that is printed for a return
  address is the greatest one at or below it, when there is one.
\<close>

theorem symbol_lookup_caller_greatest:
  assumes "sorted (map saddr syms)" and "\<exists>x \<in> set syms. saddr x \<le> addr"
  shows "\<exists>x \<in> set syms. symbol_lookup_caller syms addr = Some (sname x) \<and> saddr x \<le> addr \<and>
    (\<forall>y \<in> set syms. saddr y \<le> addr \<longrightarrow> saddr y \<le> saddr x)"
  using caller_loop_greatest [of syms None addr] assms by (auto simp: symbol_lookup_caller_def)

theorem symbol_lookup_caller_greatest_witness:
  "symbol_lookup_caller [\<lparr>sname = [1], saddr = 0x100\<rparr>, \<lparr>sname = [2], saddr = 0x200\<rparr>] 0x180 = Some [1]"
  using symbol_lookup_caller_greatest [of "[\<lparr>sname = [1], saddr = 0x100\<rparr>, \<lparr>sname = [2], saddr = 0x200\<rparr>]" "0x180"]
  by auto

end
