(* ===== verification/Input.thy ===== *)
theory Input
  imports Cmem
begin

text \<open>
  Keyboard input: the buffer of \<^verbatim>\<open>src/core/input.c\<close> that the keyboard interrupt fills
  and the reading functions drain. The buffer is \<^verbatim>\<open>KBD_BUFFER_SIZE + 1\<close> bytes of memory
  at \<^verbatim>\<open>keybuffer\<close>; \<^verbatim>\<open>keybuffer_index\<close> counts the characters in it.
  The state is a record that the keyboard driver extends. The operations provide the queue that
  the locale \<open>key_queue\<close> describes. The last part splits \<^verbatim>\<open>__bgetch\<close> where an
  interrupt can come between its two effects.
\<close>

section \<open>The buffer and its operations\<close>

definition KEY_BACKSPACE :: u8 where "KEY_BACKSPACE = 8"
definition KEY_ENTER :: u8 where "KEY_ENTER = 10"
definition KEYBOARD_BUFFER_SIZE :: int where "KEYBOARD_BUFFER_SIZE = 127"

record input =
  imem :: mem
  keybuffer :: u32
  keybuffer_index :: int

definition input_verify :: "u8 \<Rightarrow> 'a input_scheme \<Rightarrow> bool" where
  "input_verify c s =
     (if keybuffer_index s \<ge> KEYBOARD_BUFFER_SIZE \<and> c \<noteq> KEY_BACKSPACE then False
      else if keybuffer_index s \<le> 0 \<and> c = KEY_BACKSPACE then False
      else True)"

definition input_copy_to_buffer :: "u8 \<Rightarrow> 'a input_scheme \<Rightarrow> 'a input_scheme \<times> status" where
  "input_copy_to_buffer c s =
     (if \<not> input_verify c s then (s, Inl EFAULT)
      else if c = KEY_BACKSPACE then
        (s\<lparr>imem := (imem s)(keybuffer s + of_int (keybuffer_index s - 1) := 0),
           keybuffer_index := keybuffer_index s - 1\<rparr>, ok)
      else
        (s\<lparr>imem := (imem s)(keybuffer s + of_int (keybuffer_index s) := c),
           keybuffer_index := keybuffer_index s + 1\<rparr>, ok))"

text \<open>\<^verbatim>\<open>__bgetch\<close>\<close>

definition bgetch_now :: "'a input_scheme \<Rightarrow> 'a input_scheme \<times> u8" where
  "bgetch_now s =
     (s\<lparr>imem := memcpy (imem s) (keybuffer s) (keybuffer s + 1) (of_int (keybuffer_index s)),
        keybuffer_index := keybuffer_index s - 1\<rparr>,
      imem s (keybuffer s))"

definition bgetch_noblock :: "'a input_scheme \<Rightarrow> 'a input_scheme \<times> u8" where
  "bgetch_noblock s = (if keybuffer_index s = 0 then (s, 0) else bgetch_now s)"

text \<open>
  \<^verbatim>\<open>bgetch\<close> halts the machine until the buffer is not empty. Every halt ends with an
  interrupt; \<open>evs\<close> are the interrupts still to come and \<open>irq\<close> what one does to the state.
  With no interrupt left the machine halts for ever, the result None.
\<close>

fun bgetch :: "('e \<Rightarrow> 'a input_scheme \<Rightarrow> 'a input_scheme) \<Rightarrow> 'e list \<Rightarrow> 'a input_scheme \<Rightarrow>
    ('a input_scheme \<times> 'e list \<times> u8) option" where
  "bgetch irq [] s =
     (if keybuffer_index s = 0 then None else Some (fst (bgetch_now s), [], snd (bgetch_now s)))"
| "bgetch irq (e # evs) s =
     (if keybuffer_index s = 0 then bgetch irq evs (irq e s)
      else Some (fst (bgetch_now s), e # evs, snd (bgetch_now s)))"

text \<open>\<open>bgets_from\<close> is the loop; \<open>n\<close> is what \<open>length\<close> leaves after \<open>cur\<close>.\<close>

fun bgets_from :: "('e \<Rightarrow> 'a input_scheme \<Rightarrow> 'a input_scheme) \<Rightarrow> u32 \<Rightarrow> nat \<Rightarrow> nat \<Rightarrow> 'e list \<Rightarrow>
    'a input_scheme \<Rightarrow> ('a input_scheme \<times> 'e list \<times> nat) option" where
  "bgets_from irq buffer 0 cur evs s = Some (s, evs, cur)"
| "bgets_from irq buffer (Suc n) cur evs s =
     (case bgetch irq evs s of
        None \<Rightarrow> None
      | Some (s, evs, c) \<Rightarrow>
          if c = KEY_ENTER then Some (s, evs, cur + 1)
          else bgets_from irq buffer n (cur + 1) evs (s\<lparr>imem := (imem s)(buffer + of_nat cur := c)\<rparr>))"

definition bgets :: "('e \<Rightarrow> 'a input_scheme \<Rightarrow> 'a input_scheme) \<Rightarrow> u32 \<Rightarrow> int \<Rightarrow> 'e list \<Rightarrow>
    'a input_scheme \<Rightarrow> ('a input_scheme \<times> 'e list \<times> nat) option" where
  "bgets irq buffer len evs s = bgets_from irq buffer (nat len) 0 evs s"

section \<open>The queue the buffer implements\<close>

text \<open>
  A bounded queue of characters in which the backspace takes back the last one. \<open>put\<close> is what the
  producer calls, \<open>get\<close> what a consumer calls when \<open>contents\<close> is not empty.
\<close>

locale key_queue =
  fixes inv :: "'s \<Rightarrow> bool" and contents :: "'s \<Rightarrow> u8 list" and cap :: nat
    and put :: "u8 \<Rightarrow> 's \<Rightarrow> 's \<times> status" and get :: "'s \<Rightarrow> 's \<times> u8"
  assumes put_inv: "inv s \<Longrightarrow> inv (fst (put c s))"
    and put_char: "inv s \<Longrightarrow> c \<noteq> KEY_BACKSPACE \<Longrightarrow> length (contents s) < cap \<Longrightarrow>
      contents (fst (put c s)) = contents s @ [c]"
    and put_full: "inv s \<Longrightarrow> c \<noteq> KEY_BACKSPACE \<Longrightarrow> \<not> length (contents s) < cap \<Longrightarrow> put c s = (s, Inl EFAULT)"
    and put_back: "inv s \<Longrightarrow> contents (fst (put KEY_BACKSPACE s)) = butlast (contents s)"
    and get_inv: "inv s \<Longrightarrow> contents s \<noteq> [] \<Longrightarrow> inv (fst (get s))"
    and get_first: "inv s \<Longrightarrow> contents s = c # cs \<Longrightarrow> snd (get s) = c \<and> contents (fst (get s)) = cs"
    and bounded: "inv s \<Longrightarrow> length (contents s) \<le> cap"
begin

text \<open>The characters that are in the queue after the producer put \<open>cs\<close>, one after the other.\<close>

definition edited :: "u8 list \<Rightarrow> u8 list \<Rightarrow> u8 list" where
  "edited = fold (\<lambda>c q. if c = KEY_BACKSPACE then butlast q else if length q < cap then q @ [c] else q)"

lemma edited_simps [simp]:
  "edited [] q = q"
  "edited (c # cs) q =
     edited cs (if c = KEY_BACKSPACE then butlast q else if length q < cap then q @ [c] else q)"
  by (simp_all add: edited_def)

lemma puts_edited:
  "inv s \<Longrightarrow> inv (fold (\<lambda>c s. fst (put c s)) cs s) \<and>
     contents (fold (\<lambda>c s. fst (put c s)) cs s) = edited cs (contents s)"
  by (induction cs arbitrary: s) (auto simp: put_inv put_char put_full put_back)

lemma edited_chars:
  "KEY_BACKSPACE \<notin> set cs \<Longrightarrow> length q + length cs \<le> cap \<Longrightarrow> edited cs q = q @ cs"
  by (induction cs arbitrary: q) auto

lemma put_get:
  assumes "inv s" "contents s = []" "c \<noteq> KEY_BACKSPACE" "0 < cap"
  shows "snd (get (fst (put c s))) = c \<and> contents (fst (get (fst (put c s)))) = []"
  using get_first [OF put_inv [OF assms(1)]] put_char [OF assms(1,3)] assms by simp

fun gets :: "nat \<Rightarrow> 's \<Rightarrow> 's \<times> u8 list" where
  "gets 0 s = (s, [])"
| "gets (Suc n) s = (let r = get s; rest = gets n (fst r) in (fst rest, snd r # snd rest))"

lemma gets_drains:
  "inv s \<Longrightarrow> n \<le> length (contents s) \<Longrightarrow>
     inv (fst (gets n s)) \<and> snd (gets n s) = take n (contents s) \<and>
     contents (fst (gets n s)) = drop n (contents s)"
proof (induction n arbitrary: s)
  case (Suc n)
  then obtain c cs where q: "contents s = c # cs" by (cases "contents s") auto
  then show ?case
    using Suc.IH [of "fst (get s)"] Suc.prems get_first [of s c cs] get_inv [of s] by (simp add: Let_def)
qed simp

end

section \<open>The buffer is such a queue\<close>

definition keys :: "'a input_scheme \<Rightarrow> u8 list" where
  "keys s = map (\<lambda>i. imem s (keybuffer s + of_nat i)) [0..<nat (keybuffer_index s)]"

text \<open>The index stays in the allocation, and every byte from it on is zero.\<close>

definition input_inv :: "'a input_scheme \<Rightarrow> bool" where
  "input_inv s \<longleftrightarrow> 0 \<le> keybuffer_index s \<and> keybuffer_index s \<le> KEYBOARD_BUFFER_SIZE \<and>
     (\<forall>i<128. nat (keybuffer_index s) \<le> i \<longrightarrow> imem s (keybuffer s + of_nat i) = 0)"

lemma slot_eq: "i < 128 \<Longrightarrow> j < 128 \<Longrightarrow> (of_nat i :: u32) = of_nat j \<longleftrightarrow> i = j"
  by (simp add: of_nat_eq_32)

lemma slots_upd:
  "n \<le> k \<Longrightarrow> k < 128 \<Longrightarrow>
     map (\<lambda>i. (m(kb + of_nat k := c)) (kb + of_nat i :: u32)) [0..<n] = map (\<lambda>i. m (kb + of_nat i)) [0..<n]"
  by (auto simp: slot_eq)

lemma input_inv_nat:
  assumes "input_inv s"
  obtains n where "keybuffer_index s = int n" "n \<le> 127" "length (keys s) = n"
    "\<forall>i<128. n \<le> i \<longrightarrow> imem s (keybuffer s + of_nat i) = 0"
proof -
  from assms have i: "0 \<le> keybuffer_index s" "nat (keybuffer_index s) \<le> 127"
    by (auto simp: input_inv_def KEYBOARD_BUFFER_SIZE_def)
  then show ?thesis
    by (intro that [of "nat (keybuffer_index s)"]) (use assms in \<open>auto simp: input_inv_def keys_def\<close>)
qed

lemma put_cases:
  assumes "input_inv s"
  obtains (full) "c \<noteq> KEY_BACKSPACE" "length (keys s) = 127" "input_copy_to_buffer c s = (s, Inl EFAULT)"
  | (char) n where "c \<noteq> KEY_BACKSPACE" "length (keys s) = n" "n < 127"
      "input_copy_to_buffer c s =
         (s\<lparr>imem := (imem s)(keybuffer s + of_nat n := c), keybuffer_index := int (Suc n)\<rparr>, ok)"
  | (unchanged) "c = KEY_BACKSPACE" "keys s = []" "input_copy_to_buffer c s = (s, Inl EFAULT)"
  | (erase) n where "c = KEY_BACKSPACE" "length (keys s) = Suc n"
      "input_copy_to_buffer c s =
         (s\<lparr>imem := (imem s)(keybuffer s + of_nat n := 0), keybuffer_index := int n\<rparr>, ok)"
proof -
  obtain n where n: "keybuffer_index s = int n" "n \<le> 127" "length (keys s) = n"
    using input_inv_nat [OF assms] by metis
  note defs = input_copy_to_buffer_def input_verify_def KEYBOARD_BUFFER_SIZE_def
  consider "c \<noteq> KEY_BACKSPACE" "n = 127" | "c \<noteq> KEY_BACKSPACE" "n < 127" | "c = KEY_BACKSPACE" "n = 0"
    | k where "c = KEY_BACKSPACE" "n = Suc k"
    using n(2) by (metis le_neq_implies_less not0_implies_Suc)
  then show ?thesis
  proof cases
    case 1 with n show ?thesis by (intro full) (simp_all add: defs)
  next
    case 2 with n show ?thesis by (intro char [of n]) (simp_all add: defs)
  next
    case 3
    with n have "keys s = []" "keybuffer_index s = 0" by simp_all
    then show ?thesis using unchanged [OF 3(1)] 3(1) by (simp add: defs)
  next
    case (4 k) with n show ?thesis by (intro erase [of k]) (simp_all add: defs)
  qed
qed

lemma keys_put_char:
  assumes "input_inv s" "length (keys s) = n" "n < 127"
    "s' = s\<lparr>imem := (imem s)(keybuffer s + of_nat n := c), keybuffer_index := int (Suc n)\<rparr>"
  shows "input_inv s' \<and> keys s' = keys s @ [c]"
proof -
  have idx: "keybuffer_index s = int n" using assms(1,2) by (auto simp: keys_def input_inv_def)
  have "nat (int (Suc n)) = Suc n" by simp
  then have "keys s' = map (\<lambda>i. ((imem s)(keybuffer s + of_nat n := c)) (keybuffer s + of_nat i)) [0..<n] @ [c]"
    using assms(4) by (simp add: keys_def)
  also have "\<dots> = keys s @ [c]"
    using idx assms(3) by (subst slots_upd) (simp_all add: keys_def)
  finally show ?thesis
    using \<open>nat (int (Suc n)) = Suc n\<close> assms(1,3,4) idx
    by (auto simp del: of_nat_Suc nat_int simp: input_inv_def KEYBOARD_BUFFER_SIZE_def slot_eq)
qed

lemma keys_put_back:
  assumes "input_inv s" "length (keys s) = Suc n"
    "s' = s\<lparr>imem := (imem s)(keybuffer s + of_nat n := 0), keybuffer_index := int n\<rparr>"
  shows "input_inv s' \<and> keys s' = butlast (keys s)"
proof -
  have idx: "keybuffer_index s = int (Suc n)" using assms(1,2) by (auto simp: keys_def input_inv_def)
  then have n: "n < 127" using assms(1) by (simp add: input_inv_def KEYBOARD_BUFFER_SIZE_def)
  have "nat (keybuffer_index s) = Suc n" using idx by simp
  then have "butlast (keys s) = map (\<lambda>i. imem s (keybuffer s + of_nat i)) [0..<n]"
    by (simp add: keys_def)
  also have "\<dots> = keys s'"
    using n slots_upd [of n n "imem s" "keybuffer s" 0] assms(3) by (simp add: keys_def)
  finally show ?thesis
    using assms(1,3) idx n by (auto simp: input_inv_def KEYBOARD_BUFFER_SIZE_def slot_eq)
qed

text \<open>The copy of \<^verbatim>\<open>__bgetch\<close> runs upwards and never reads what it has written.\<close>

lemma shift_down:
  assumes "n \<le> 127"
  shows "memcpy m kb (kb + 1) (of_int (int n)) = copied m kb (kb + 1) n"
proof -
  have n: "unat (of_nat n :: u32) = n" using assms by (intro unat_of_nat32) simp
  have "unat (- 1 :: u32) = 2 ^ 32 - 1" by (simp add: unsigned_minus_1_eq_mask mask_eq_exp_minus_1)
  then have "up_safe kb (kb + 1) n" using assms by (simp add: up_safe_def)
  then show ?thesis using memcpy_copied [of kb "kb + 1" "of_nat n" m] n by simp
qed

lemma copied_slot:
  "i < 128 \<Longrightarrow> n \<le> 127 \<Longrightarrow> copied m kb (kb + 1) n (kb + of_nat i) =
     (if i < n then m (kb + of_nat (Suc i)) else m (kb + of_nat i))"
  by (simp add: copied_def unat_of_nat32 add.assoc)

lemma keys_get:
  assumes "input_inv s" "keys s = c # cs"
  shows "snd (bgetch_now s) = c \<and> input_inv (fst (bgetch_now s)) \<and> keys (fst (bgetch_now s)) = cs"
proof -
  obtain n where n: "keybuffer_index s = int n" "n \<le> 127" "length (keys s) = n"
    "\<forall>i<128. n \<le> i \<longrightarrow> imem s (keybuffer s + of_nat i) = 0"
    using input_inv_nat [OF assms(1)] by metis
  obtain k where k: "n = Suc k" using n(3) assms(2) by (cases n) simp_all
  have all: "keys s = map (\<lambda>i. imem s (keybuffer s + of_nat i)) [0..<Suc k]"
    using n(1) k by (simp only: keys_def nat_int)
  then have c: "c = imem s (keybuffer s)"
    and cs: "cs = map (\<lambda>i. imem s (keybuffer s + of_nat (Suc i))) [0..<k]"
    using assms(2) by (simp_all add: map_upt_Suc del: upt_Suc of_nat_Suc)
  let ?s = "fst (bgetch_now s)"
  have s': "?s = s\<lparr>imem := copied (imem s) (keybuffer s) (keybuffer s + 1) n, keybuffer_index := int k\<rparr>"
    using n(1) k shift_down [OF n(2)] by (simp add: bgetch_now_def)
  have "keys ?s = cs"
    unfolding cs s' keys_def using n(2) k by (simp add: copied_slot del: of_nat_Suc)
  moreover have "input_inv ?s"
  proof -
    have "imem ?s (keybuffer s + of_nat i) = 0" if "i < 128" "k \<le> i" for i
    proof (cases "i = k")
      case True
      then show ?thesis using n(2,4) k that by (simp add: s' copied_slot del: of_nat_Suc)
    next
      case False
      then show ?thesis using n(2,4) k that by (simp add: s' copied_slot del: of_nat_Suc)
    qed
    then show ?thesis using n(2) k by (simp add: input_inv_def KEYBOARD_BUFFER_SIZE_def s')
  qed
  ultimately show ?thesis using c by (simp add: bgetch_now_def)
qed

interpretation kq: key_queue input_inv keys 127 input_copy_to_buffer bgetch_now
proof unfold_locales
  fix s :: "'a input_scheme" and c
  assume inv: "input_inv s"
  show "input_inv (fst (input_copy_to_buffer c s))"
    by (rule put_cases [OF inv, of c])
      (use keys_put_char [OF inv _ _ refl, of _ c] keys_put_back [OF inv _ refl] inv in simp_all)
  show "length (keys s) \<le> 127"
    using input_inv_nat [OF inv] by metis
  show "keys (fst (input_copy_to_buffer KEY_BACKSPACE s)) = butlast (keys s)"
    by (rule put_cases [OF inv, of KEY_BACKSPACE]) (use keys_put_back [OF inv _ refl] in simp_all)
  show "keys (fst (input_copy_to_buffer c s)) = keys s @ [c]"
    if "c \<noteq> KEY_BACKSPACE" "length (keys s) < 127"
    by (rule put_cases [OF inv, of c]) (use keys_put_char [OF inv _ _ refl, of _ c] that in simp_all)
  show "input_copy_to_buffer c s = (s, Inl EFAULT)"
    if "c \<noteq> KEY_BACKSPACE" "\<not> length (keys s) < 127"
    by (rule put_cases [OF inv, of c]) (use that in simp_all)
  show "input_inv (fst (bgetch_now s))" if "keys s \<noteq> []"
    using keys_get [OF inv] that by (cases "keys s") auto
  show "snd (bgetch_now s) = c \<and> keys (fst (bgetch_now s)) = cs" if "keys s = c # cs" for cs
    using keys_get [OF inv that] by simp
qed

section \<open>Interrupts between the steps of a reader\<close>

text \<open>
  \<^verbatim>\<open>__bgetch\<close> takes the first character and decrements the index, which are the argument
  and its side effect, and only then copies the rest down. \<open>Shift c n\<close> is the time between the
  two: \<open>c\<close> is taken, \<open>n\<close> bytes have to move. \<open>typed\<close> and \<open>got\<close> record what the keyboard put in
  (less what the backspace took back) and what the reader has returned. \<open>masked\<close> says that
  the keyboard interrupt is held back while the reader is at work; the program never does that.
\<close>

datatype phase = Idle | Shift u8 nat

record reader =
  rin :: input
  rphase :: phase
  typed :: "u8 list"
  got :: "u8 list"

definition take_char :: "input \<Rightarrow> input" where
  "take_char s = s\<lparr>keybuffer_index := keybuffer_index s - 1\<rparr>"

definition shift_chars :: "nat \<Rightarrow> input \<Rightarrow> input" where
  "shift_chars n s = s\<lparr>imem := memcpy (imem s) (keybuffer s) (keybuffer s + 1) (of_nat n)\<rparr>"

definition press :: "u8 \<Rightarrow> reader \<Rightarrow> reader" where
  "press c r =
     (let (s, e) = input_copy_to_buffer c (rin r) in
      r\<lparr>rin := s,
        typed := (if e \<noteq> ok then typed r else if c = KEY_BACKSPACE then butlast (typed r) else typed r @ [c])\<rparr>)"

inductive reader_step :: "bool \<Rightarrow> reader \<Rightarrow> reader \<Rightarrow> bool" for masked where
  key: "masked \<Longrightarrow> rphase r = Idle \<Longrightarrow> reader_step masked r (press c r)"
| key_any: "\<not> masked \<Longrightarrow> reader_step masked r (press c r)"
| take: "rphase r = Idle \<Longrightarrow> keybuffer_index (rin r) \<noteq> 0 \<Longrightarrow>
    reader_step masked r (r\<lparr>rin := take_char (rin r),
      rphase := Shift (imem (rin r) (keybuffer (rin r))) (nat (keybuffer_index (rin r)))\<rparr>)"
| shift: "rphase r = Shift c n \<Longrightarrow>
    reader_step masked r (r\<lparr>rin := shift_chars n (rin r), rphase := Idle, got := got r @ [c]\<rparr>)"

inductive_cases reader_stepE: "reader_step masked r r'"

definition reader_start :: "input \<Rightarrow> reader" where
  "reader_start s = \<lparr>rin = s, rphase = Idle, typed = keys s, got = []\<rparr>"

text \<open>The state before the taken character left the buffer.\<close>

fun before :: "phase \<Rightarrow> input \<Rightarrow> input" where
  "before Idle s = s"
| "before (Shift c n) s = s\<lparr>keybuffer_index := int n\<rparr>"

definition reader_inv :: "reader \<Rightarrow> bool" where
  "reader_inv r \<longleftrightarrow> input_inv (before (rphase r) (rin r)) \<and>
     got r @ keys (before (rphase r) (rin r)) = typed r \<and>
     (\<forall>c n. rphase r = Shift c n \<longrightarrow> 0 < n \<and> keybuffer_index (rin r) = int n - 1 \<and>
        c = imem (rin r) (keybuffer (rin r)))"

lemma press_inv:
  assumes "reader_inv r" "rphase r = Idle"
  shows "reader_inv (press c r)"
proof -
  have inv: "input_inv (rin r)" and got: "got r @ keys (rin r) = typed r"
    using assms by (auto simp: reader_inv_def)
  show ?thesis
  proof (rule put_cases [OF inv, of c])
    fix n assume b: "c = KEY_BACKSPACE" "length (keys (rin r)) = Suc n"
      "input_copy_to_buffer c (rin r) =
        ((rin r)\<lparr>imem := (imem (rin r))(keybuffer (rin r) + of_nat n := 0), keybuffer_index := int n\<rparr>, ok)"
    have "butlast (typed r) = got r @ butlast (keys (rin r))"
      using got b(2) by (metis butlast_append length_0_conv nat.simps(3))
    then show ?thesis
      using keys_put_back [OF inv b(2) refl] b(1,3) assms(2) by (simp add: reader_inv_def press_def)
  next
    fix n assume b: "c \<noteq> KEY_BACKSPACE" "length (keys (rin r)) = n" "n < 127"
      "input_copy_to_buffer c (rin r) =
        ((rin r)\<lparr>imem := (imem (rin r))(keybuffer (rin r) + of_nat n := c), keybuffer_index := int (Suc n)\<rparr>, ok)"
    then show ?thesis
      using keys_put_char [OF inv b(2,3) refl, of c] got assms(2)
      by (simp add: reader_inv_def press_def flip: append_assoc)
  qed (use assms in \<open>simp_all add: press_def\<close>)
qed

lemma shift_inv:
  assumes "reader_inv r" "rphase r = Shift c n"
  shows "reader_inv (r\<lparr>rin := shift_chars n (rin r), rphase := Idle, got := got r @ [c]\<rparr>)"
proof -
  let ?s = "(rin r)\<lparr>keybuffer_index := int n\<rparr>"
  have inv: "input_inv ?s" and got: "got r @ keys ?s = typed r"
    and n: "0 < n" "keybuffer_index (rin r) = int n - 1" "c = imem (rin r) (keybuffer (rin r))"
    using assms by (auto simp: reader_inv_def)
  have "keys ?s = c # tl (keys ?s)"
    using n(1,3) by (simp add: keys_def upt_conv_Cons)
  then have *: "input_inv (fst (bgetch_now ?s))" "c # keys (fst (bgetch_now ?s)) = keys ?s"
    using keys_get [OF inv, of c] by simp_all
  moreover have "fst (bgetch_now ?s) = shift_chars n (rin r)"
    using n(2) by (simp add: bgetch_now_def shift_chars_def)
  ultimately show ?thesis using got by (simp add: reader_inv_def)
qed

lemma reader_step_inv:
  assumes "reader_step True r r'" "reader_inv r"
  shows "reader_inv r'"
  using assms(1)
proof (cases rule: reader_step.cases)
  case (take)
  then show ?thesis using assms(2) by (auto simp: reader_inv_def take_char_def input_inv_def)
qed (use assms(2) press_inv shift_inv in auto)

section \<open>Properties\<close>

text \<open>
  C34: as long as the keyboard interrupt is held back while a reader works, in every reachable state
  what was read followed by what is still buffered is exactly what was typed, in order, less what the
  backspace took back, and the index is in the bounds of the buffer.
\<close>

theorem masked_reader_loses_nothing:
  assumes "(reader_step True)\<^sup>*\<^sup>* (reader_start s) r" and "input_inv s" and "rphase r = Idle"
  shows "got r @ keys (rin r) = typed r \<and> 0 \<le> keybuffer_index (rin r) \<and> keybuffer_index (rin r) \<le> 127"
proof -
  have "reader_inv (reader_start s)" using assms(2) by (simp add: reader_inv_def reader_start_def)
  with assms(1) have "reader_inv r"
    by (induction rule: rtranclp_induct) (auto intro: reader_step_inv)
  then show ?thesis using assms(3) by (simp add: reader_inv_def input_inv_def KEYBOARD_BUFFER_SIZE_def)
qed

definition demo_input :: input where
  "demo_input = \<lparr>imem = (\<lambda>_. 0), keybuffer = 0x1000, keybuffer_index = 0\<rparr>"

lemma demo_input_inv [simp]: "input_inv demo_input" "keys demo_input = []"
  by (simp_all add: demo_input_def input_inv_def keys_def KEYBOARD_BUFFER_SIZE_def)

theorem masked_reader_loses_nothing_witness:
  "\<exists>r. (reader_step True)\<^sup>*\<^sup>* (reader_start demo_input) r \<and> typed r = [97] \<and> got r @ keys (rin r) = [97]"
proof -
  let ?r = "press 97 (reader_start demo_input)"
  have "reader_step True (reader_start demo_input) ?r"
    by (rule reader_step.key) (simp_all add: reader_start_def)
  then have run: "(reader_step True)\<^sup>*\<^sup>* (reader_start demo_input) ?r" by blast
  have r: "rphase ?r = Idle" "typed ?r = [97]"
    by (simp_all add: press_def reader_start_def demo_input_def input_copy_to_buffer_def
        input_verify_def KEY_BACKSPACE_def KEYBOARD_BUFFER_SIZE_def keys_def)
  from masked_reader_loses_nothing [OF run _ r(1)] have "got ?r @ keys (rin ?r) = [97]"
    using r(2) by simp
  with run r(2) show ?thesis by blast
qed


end
