(* ===== verification/Keyboard.thy ===== *)
theory Keyboard
  imports Input
begin

text \<open>
  The keyboard driver \<^verbatim>\<open>src/drivers/input/kbd.c\<close>: the scan codes that the interrupt
  handler reads from the port, the modifier state they switch, the German layout they are
  translated with, and the buffer of \<^verbatim>\<open>input.c\<close> the characters go to. A scan code is an
  event for the reading functions of that buffer.
\<close>

section \<open>The layout\<close>

text \<open>The tables give the characters by their codes; \<^verbatim>\<open>INV\<close> stands for no character.\<close>

definition INV :: u8 where "INV = 0x00"
definition TAB :: u8 where "TAB = 0x09"
definition AUP :: u8 where "AUP = 0xA1"
definition ALE :: u8 where "ALE = 0xA2"
definition ARI :: u8 where "ARI = 0xA3"
definition ADO :: u8 where "ADO = 0xA4"

definition layout_regular :: "u8 list" where
  "layout_regular =
     [INV, INV, 49, 50, 51, 52, 53, 54] @
     [55, 56, 57, 48, INV, 63, 8, TAB] @
     [113, 119, 101, 114, 116, 122, 117, 105] @
     [111, 112, INV, 43, 10, INV, 97, 115] @
     [100, 102, 103, 104, 106, 107, 108, INV] @
     [INV, INV, INV, 35, 121, 120, 99, 118] @
     [98, 110, 109, 44, 46, 45, INV, INV] @
     [INV, 32, INV, INV, INV, INV, INV, INV] @
     [INV, INV, INV, INV, INV, INV, INV, INV] @
     [AUP, INV, INV, ALE, INV, ARI, INV, INV] @
     [ADO, INV, INV, INV, INV, INV, INV, INV] @
     [INV, INV, INV, INV, INV, INV, INV, INV]"

definition layout_shifted :: "u8 list" where
  "layout_shifted =
     [INV, INV, 33, 34, 83, 36, 37, 38] @
     [47, 40, 41, 61, 63, 96, 8, TAB] @
     [81, 87, 69, 82, 84, 90, 85, 73] @
     [79, 80, 63, 42, 10, INV, 65, 83] @
     [68, 70, 71, 72, 74, 75, 76, INV] @
     [INV, INV, INV, 39, 89, 88, 67, 86] @
     [66, 78, 77, 59, 58, 95, INV, INV] @
     [INV, 32, INV, INV, INV, INV, INV, INV] @
     [INV, INV, INV, INV, INV, INV, INV, INV] @
     [AUP, INV, INV, ALE, INV, ARI, INV, INV] @
     [ADO, INV, INV, INV, INV, INV, INV, INV] @
     [INV, INV, INV, INV, INV, INV, INV, INV]"

definition layout_altgram :: "u8 list" where
  "layout_altgram =
     [INV, INV, INV, INV, INV, INV, INV, INV] @
     [123, 91, 93, 125, 92, INV, 8, TAB] @
     [64, INV, INV, INV, INV, INV, INV, INV] @
     [INV, INV, INV, 126, 10, INV, INV, INV] @
     [INV, INV, INV, INV, INV, INV, INV, INV] @
     [INV, INV, INV, INV, INV, INV, INV, INV] @
     [INV, INV, INV, INV, INV, INV, INV, INV] @
     [INV, 32, INV, INV, INV, INV, INV, INV] @
     [INV, INV, INV, INV, INV, INV, INV, INV] @
     [AUP, INV, INV, ALE, INV, ARI, INV, INV] @
     [ADO, INV, INV, INV, INV, INV, INV, INV] @
     [INV, INV, INV, INV, INV, INV, INV, INV]"

section \<open>The state of the modifiers\<close>

definition KBD_META_SHIFT :: u32 where "KBD_META_SHIFT = 0x01"
definition KBD_META_CTRL :: u32 where "KBD_META_CTRL = 0x02"
definition KBD_META_CAPSLOCK :: u32 where "KBD_META_CAPSLOCK = 0x08"
definition KBD_META_ALTGR :: u32 where "KBD_META_ALTGR = 0x40"
definition KBD_CODE_LSHIFT :: u8 where "KBD_CODE_LSHIFT = 0x2A"
definition KBD_CODE_RSHIFT :: u8 where "KBD_CODE_RSHIFT = 0x36"
definition KBD_CODE_CTRL :: u8 where "KBD_CODE_CTRL = 0x1D"
definition KBD_CODE_CAPSLOCK :: u8 where "KBD_CODE_CAPSLOCK = 0x3A"
definition KBD_CODE_ALT :: u8 where "KBD_CODE_ALT = 0x38"
definition KBD_LAYOUT_SIZE :: nat where "KBD_LAYOUT_SIZE = 96"

record kbd = input +
  kstatus :: u32

definition key_release :: "u8 \<Rightarrow> bool" where "key_release code = (code AND 0x80 \<noteq> 0)"

definition key_shifted :: "u8 \<Rightarrow> bool" where
  "key_shifted code = (code = KBD_CODE_LSHIFT \<or> code = KBD_CODE_RSHIFT)"

definition key_altgram :: "u8 \<Rightarrow> bool" where "key_altgram code = (code = KBD_CODE_ALT)"
definition key_control :: "u8 \<Rightarrow> bool" where "key_control code = (code = KBD_CODE_CTRL)"
definition key_capslck :: "u8 \<Rightarrow> bool" where "key_capslck code = (code = KBD_CODE_CAPSLOCK)"

definition key_getchar :: "u32 \<Rightarrow> u8 \<Rightarrow> u8" where
  "key_getchar status code =
     (let shifted = (status AND KBD_META_SHIFT \<noteq> 0);
          shifted = (if status AND KBD_META_CAPSLOCK \<noteq> 0 then \<not> shifted else shifted);
          altgram = (status AND KBD_META_ALTGR \<noteq> 0)
      in if shifted \<and> altgram then INV
         else if shifted then layout_shifted ! unat code
         else if altgram then layout_altgram ! unat code
         else layout_regular ! unat code)"

section \<open>The interrupt handler\<close>

definition kbd_handle_release :: "u8 \<Rightarrow> kbd \<Rightarrow> kbd" where
  "kbd_handle_release code k =
     (if key_shifted code then k\<lparr>kstatus := kstatus k AND NOT KBD_META_SHIFT\<rparr>
      else if key_altgram code then k\<lparr>kstatus := kstatus k AND NOT KBD_META_ALTGR\<rparr>
      else if key_control code then k\<lparr>kstatus := kstatus k AND NOT KBD_META_CTRL\<rparr>
      else k)"

definition kbd_handle_pressed :: "u8 \<Rightarrow> kbd \<Rightarrow> kbd" where
  "kbd_handle_pressed code k =
     (if key_shifted code then k\<lparr>kstatus := kstatus k OR KBD_META_SHIFT\<rparr>
      else if key_altgram code then k\<lparr>kstatus := kstatus k OR KBD_META_ALTGR\<rparr>
      else if key_control code then k\<lparr>kstatus := kstatus k OR KBD_META_CTRL\<rparr>
      else if key_capslck code then k\<lparr>kstatus := kstatus k XOR KBD_META_CAPSLOCK\<rparr>
      else if unat code \<ge> KBD_LAYOUT_SIZE then k
      else
        let c = key_getchar (kstatus k) code in
        if c = 0 then k else fst (input_copy_to_buffer c k))"

definition kbd_interrupt_callback :: "u8 \<Rightarrow> kbd \<Rightarrow> kbd" where
  "kbd_interrupt_callback code k =
     (if key_release code then kbd_handle_release (code AND NOT 0x80) k
      else kbd_handle_pressed (code AND NOT 0x80) k)"

text \<open>
  \<^verbatim>\<open>kbd_init\<close>; \<open>buf\<close> is the address the allocator gave for the buffer, \<open>reads\<close> are the values of the
  status port 0x64. The loop waits for bit 0 to clear without reading the data port, so a pending byte
  keeps it waiting (None when the values run out). The handler is registered afterwards.
\<close>

fun drain_keyboard :: "u8 list \<Rightarrow> u8 list option" where
  "drain_keyboard [] = None"
| "drain_keyboard (v # vs) = (if v AND 0x01 \<noteq> 0 then drain_keyboard vs else Some vs)"

definition kbd_init :: "u32 \<Rightarrow> u8 list \<Rightarrow> kbd \<Rightarrow> (kbd \<times> status) option" where
  "kbd_init buf reads k =
     (if buf = 0 then Some (k\<lparr>keybuffer := 0\<rparr>, Inl ENOMEM)
      else
        let k = k\<lparr>imem := memset (imem k) buf 0 128, keybuffer := buf\<rparr>
        in map_option (\<lambda>_. (k, ok)) (drain_keyboard reads))"

section \<open>What one scan code does\<close>

text \<open>The character a scan code puts into the buffer, if any.\<close>

definition code_char :: "u32 \<Rightarrow> u8 \<Rightarrow> u8 option" where
  "code_char status code =
     (if key_release code \<or> key_shifted code \<or> key_altgram code \<or> key_control code \<or> key_capslck code
         \<or> unat code \<ge> KBD_LAYOUT_SIZE \<or> key_getchar status code = 0 then None
      else Some (key_getchar status code))"

text \<open>The modifiers after a scan code.\<close>

definition code_status :: "u8 \<Rightarrow> u32 \<Rightarrow> u32" where
  "code_status code st =
     (let c = code AND NOT 0x80 in
      if key_release code then
        (if key_shifted c then st AND NOT KBD_META_SHIFT
         else if key_altgram c then st AND NOT KBD_META_ALTGR
         else if key_control c then st AND NOT KBD_META_CTRL else st)
      else if key_shifted c then st OR KBD_META_SHIFT
      else if key_altgram c then st OR KBD_META_ALTGR
      else if key_control c then st OR KBD_META_CTRL
      else if key_capslck c then st XOR KBD_META_CAPSLOCK else st)"

lemma released_code: "\<not> key_release code \<Longrightarrow> code AND NOT 0x80 = code"
proof -
  assume "\<not> key_release code"
  then have "\<not> bit (code AND 0x80) n" for n by (simp add: key_release_def)
  then show ?thesis
    by (intro bit_eqI) (simp only: bit_and_iff bit_not_iff, blast)
qed

lemma kstatus_same [simp]: "k\<lparr>kstatus := kstatus k\<rparr> = (k :: kbd)"
  by (cases k) simp

lemma kbd_copy_status [simp]: "kstatus (fst (input_copy_to_buffer c k)) = kstatus k"
  by (simp add: input_copy_to_buffer_def)

lemma kbd_callback:
  "kbd_interrupt_callback code k =
     (case code_char (kstatus k) code of
        None \<Rightarrow> k\<lparr>kstatus := code_status code (kstatus k)\<rparr>
      | Some c \<Rightarrow> fst (input_copy_to_buffer c k))"
proof (cases "key_release code")
  case True
  then show ?thesis
    by (simp add: kbd_interrupt_callback_def kbd_handle_release_def code_char_def code_status_def Let_def)
next
  case False
  show ?thesis
    unfolding kbd_interrupt_callback_def kbd_handle_pressed_def code_char_def code_status_def
      released_code [OF False] Let_def
    using False by simp
qed

text \<open>A scan code touches nothing but the buffer of the keyboard.\<close>

definition in_buffer :: "'a input_scheme \<Rightarrow> u32 \<Rightarrow> bool" where
  "in_buffer s a \<longleftrightarrow> unat (a - keybuffer s) < 128"

lemma in_buffer_slot: "i < 128 \<Longrightarrow> in_buffer s (keybuffer s + of_nat i)"
  by (simp add: in_buffer_def unat_of_nat32)

lemma copy_frame:
  assumes "input_inv s"
  shows "keybuffer (fst (input_copy_to_buffer c s)) = keybuffer s"
    and "\<not> in_buffer s a \<Longrightarrow> imem (fst (input_copy_to_buffer c s)) a = imem s a"
proof -
  show "keybuffer (fst (input_copy_to_buffer c s)) = keybuffer s"
    by (simp add: input_copy_to_buffer_def)
  obtain n where n: "keybuffer_index s = int n" "n \<le> 127" using input_inv_nat [OF assms] by metis
  have slots: "in_buffer s (keybuffer s + of_nat n)" "in_buffer s (keybuffer s + of_nat (n - 1))"
    using n(2) by (intro in_buffer_slot; simp)+
  have dec: "of_int (int n - 1) = (of_nat (n - 1) :: u32)" if "0 < n"
    using that by (simp add: of_nat_diff)
  show "imem (fst (input_copy_to_buffer c s)) a = imem s a" if "\<not> in_buffer s a"
    using that slots n(1) dec
    by (auto simp: input_copy_to_buffer_def input_verify_def simp del: of_int_diff of_nat_diff)
qed

lemma get_frame:
  assumes "input_inv s"
  shows "keybuffer (fst (bgetch_now s)) = keybuffer s"
    and "\<not> in_buffer s a \<Longrightarrow> imem (fst (bgetch_now s)) a = imem s a"
proof -
  show "keybuffer (fst (bgetch_now s)) = keybuffer s" by (simp add: bgetch_now_def)
  obtain n where n: "keybuffer_index s = int n" "n \<le> 127" using input_inv_nat [OF assms] by metis
  show "imem (fst (bgetch_now s)) a = imem s a" if "\<not> in_buffer s a"
    using that n shift_down [OF n(2), of "imem s" "keybuffer s"]
    by (simp add: bgetch_now_def in_buffer_def copied_def)
qed

text \<open>Memory outside the buffer may change without the queue noticing.\<close>

lemma input_inv_cong:
  assumes "keybuffer s' = keybuffer s" "keybuffer_index s' = keybuffer_index s"
    "\<And>a. in_buffer s a \<Longrightarrow> imem s' a = imem s a" and "input_inv s"
  shows "input_inv s' \<and> keys s' = keys s"
proof -
  have "nat (keybuffer_index s) \<le> 127"
    using assms(4) by (auto simp: input_inv_def KEYBOARD_BUFFER_SIZE_def)
  then show ?thesis
    using assms by (auto simp: input_inv_def keys_def in_buffer_slot)
qed

section \<open>Reading\<close>

lemma key_getchar_code:
  "code_char st code = Some c \<Longrightarrow> \<not> key_release code \<and> c \<noteq> 0"
  by (auto simp: code_char_def split: if_splits)

text \<open>Codes without a character leave the buffer alone; the next one that has one wakes the reader.\<close>

lemma bgetch_wakes:
  assumes "input_inv k" "keys k = []"
    "\<forall>e \<in> set quiet. \<forall>st. code_char st e = None"
    "code_char (fold code_status quiet (kstatus k)) code = Some c" "c \<noteq> KEY_BACKSPACE"
  shows "\<exists>k'. bgetch kbd_interrupt_callback (quiet @ code # rest) k = Some (k', rest, c) \<and>
    input_inv k' \<and> keys k' = [] \<and> keybuffer k' = keybuffer k \<and>
    kstatus k' = fold code_status quiet (kstatus k) \<and> (\<forall>a. \<not> in_buffer k a \<longrightarrow> imem k' a = imem k a)"
  using assms
proof (induction quiet arbitrary: k)
  case Nil
  have idx: "keybuffer_index k = 0"
    using Nil(1,2) by (auto simp: keys_def input_inv_def)
  let ?k = "fst (input_copy_to_buffer c k)"
  have k: "kbd_interrupt_callback code k = ?k" using Nil(4) by (simp add: kbd_callback)
  have put: "input_inv ?k" "keys ?k = [c]"
    using kq.put_inv [OF Nil(1)] kq.put_char [OF Nil(1,5)] Nil(2) by simp_all
  then have "keybuffer_index ?k \<noteq> 0" by (auto simp: keys_def)
  then have "bgetch kbd_interrupt_callback (code # rest) k = Some (fst (bgetch_now ?k), rest, snd (bgetch_now ?k))"
    using idx k by (cases rest) simp_all
  moreover have "snd (bgetch_now ?k) = c" "keys (fst (bgetch_now ?k)) = []"
    using kq.get_first [OF put] by simp_all
  moreover have "input_inv (fst (bgetch_now ?k))"
    using kq.get_inv [OF put(1)] put(2) by simp
  moreover have "keybuffer (fst (bgetch_now ?k)) = keybuffer k"
    using get_frame(1) [OF put(1)] copy_frame(1) [OF Nil(1)] by simp
  moreover have "kstatus (fst (bgetch_now ?k)) = kstatus k" by (simp add: bgetch_now_def)
  moreover have "imem (fst (bgetch_now ?k)) a = imem k a" if "\<not> in_buffer k a" for a
    using get_frame(2) [OF put(1), of a] copy_frame [OF Nil(1)] that by (simp add: in_buffer_def)
  ultimately show ?case by auto
next
  case (Cons e quiet)
  have idx: "keybuffer_index k = 0"
    using Cons.prems(1,2) by (auto simp: keys_def input_inv_def)
  let ?k = "k\<lparr>kstatus := code_status e (kstatus k)\<rparr>"
  have k: "kbd_interrupt_callback e k = ?k" using Cons.prems(3) by (simp add: kbd_callback)
  have "input_inv ?k" "keys ?k = []"
    using Cons.prems(1,2) by (simp_all add: input_inv_def keys_def)
  from Cons.IH [OF this] show ?case
    using Cons.prems(3-5) idx k by (simp add: in_buffer_def)
qed

section \<open>Modifiers\<close>

text \<open>Whether the last event of a group of keys was a press, and how often a key was pressed.\<close>

fun held :: "(u8 \<Rightarrow> bool) \<Rightarrow> u8 list \<Rightarrow> bool \<Rightarrow> bool" where
  "held kind [] h = h"
| "held kind (e # es) h = held kind es (if kind (e AND NOT 0x80) then \<not> key_release e else h)"

definition presses :: "(u8 \<Rightarrow> bool) \<Rightarrow> u8 list \<Rightarrow> nat" where
  "presses kind es = length (filter (\<lambda>e. kind (e AND NOT 0x80) \<and> \<not> key_release e) es)"

lemma callback_status: "kstatus (kbd_interrupt_callback e k) = code_status e (kstatus k)"
proof (cases "code_char (kstatus k) e")
  case None
  then show ?thesis by (simp add: kbd_callback)
next
  case (Some c)
  then have no: "\<not> key_release e" "\<not> key_shifted e" "\<not> key_altgram e" "\<not> key_control e" "\<not> key_capslck e"
    by (auto simp: code_char_def split: if_splits)
  then have "code_status e (kstatus k) = kstatus k"
    unfolding code_status_def released_code [OF no(1)] Let_def by simp
  with Some show ?thesis by (simp add: kbd_callback)
qed

lemma fold_status: "kstatus (fold kbd_interrupt_callback es k) = fold code_status es (kstatus k)"
  by (induction es arbitrary: k) (simp_all add: callback_status)

lemma meta_pows:
  "KBD_META_SHIFT = 2 ^ 0" "KBD_META_CTRL = 2 ^ 1" "KBD_META_CAPSLOCK = 2 ^ 3" "KBD_META_ALTGR = 2 ^ 6"
  by (simp_all add: KBD_META_SHIFT_def KBD_META_CTRL_def KBD_META_CAPSLOCK_def KBD_META_ALTGR_def)

lemma meta_bits:
  "st AND KBD_META_SHIFT \<noteq> 0 \<longleftrightarrow> bit st 0" "st AND KBD_META_CTRL \<noteq> 0 \<longleftrightarrow> bit st 1"
  "st AND KBD_META_CAPSLOCK \<noteq> 0 \<longleftrightarrow> bit st 3" "st AND KBD_META_ALTGR \<noteq> 0 \<longleftrightarrow> bit st 6"
  unfolding meta_pows and_exp_eq_0_iff_not_bit by simp_all

lemma code_status_bits:
  "bit (code_status e st) 0 = (if key_shifted (e AND NOT 0x80) then \<not> key_release e else bit st 0)"
  "bit (code_status e st) 6 = (if key_altgram (e AND NOT 0x80) then \<not> key_release e else bit st 6)"
  "bit (code_status e st) 1 = (if key_control (e AND NOT 0x80) then \<not> key_release e else bit st 1)"
  "bit (code_status e st) 3 = (bit st 3 \<noteq> (key_capslck (e AND NOT 0x80) \<and> \<not> key_release e))"
proof -
  have apart: "key_shifted c \<Longrightarrow> \<not> key_altgram c \<and> \<not> key_control c \<and> \<not> key_capslck c"
    "key_altgram c \<Longrightarrow> \<not> key_control c \<and> \<not> key_capslck c" "key_control c \<Longrightarrow> \<not> key_capslck c" for c
    by (auto simp: key_shifted_def key_altgram_def key_control_def key_capslck_def KBD_CODE_LSHIFT_def
        KBD_CODE_RSHIFT_def KBD_CODE_CTRL_def KBD_CODE_CAPSLOCK_def KBD_CODE_ALT_def)
  define c where "c = e AND NOT 0x80"
  show "bit (code_status e st) 0 = (if key_shifted (e AND NOT 0x80) then \<not> key_release e else bit st 0)"
    "bit (code_status e st) 6 = (if key_altgram (e AND NOT 0x80) then \<not> key_release e else bit st 6)"
    "bit (code_status e st) 1 = (if key_control (e AND NOT 0x80) then \<not> key_release e else bit st 1)"
    "bit (code_status e st) 3 = (bit st 3 \<noteq> (key_capslck (e AND NOT 0x80) \<and> \<not> key_release e))"
    unfolding code_status_def Let_def c_def [symmetric] meta_pows
    using apart [of c] by (auto simp: bit_simps)
qed

lemma fold_bits:
  "bit (fold code_status es st) 0 = held key_shifted es (bit st 0)"
  "bit (fold code_status es st) 6 = held key_altgram es (bit st 6)"
  "bit (fold code_status es st) 1 = held key_control es (bit st 1)"
  "bit (fold code_status es st) 3 = (bit st 3 \<noteq> odd (presses key_capslck es))"
  by (induction es arbitrary: st)
    (auto simp: code_status_bits code_status_bits(3) [unfolded One_nat_def] presses_def)

section \<open>Properties\<close>

text \<open>
  C36: after any sequence of scan codes the modifier flags are those of an observer of the keys: shift,
  alt and control are on exactly when the last event of their keys was a press, and the caps lock has
  changed exactly when its key was pressed an odd number of times.
\<close>

theorem modifiers_follow_keys:
  "let st = kstatus (fold kbd_interrupt_callback es k) in
   (st AND KBD_META_SHIFT \<noteq> 0) = held key_shifted es (kstatus k AND KBD_META_SHIFT \<noteq> 0) \<and>
   (st AND KBD_META_ALTGR \<noteq> 0) = held key_altgram es (kstatus k AND KBD_META_ALTGR \<noteq> 0) \<and>
   (st AND KBD_META_CTRL \<noteq> 0) = held key_control es (kstatus k AND KBD_META_CTRL \<noteq> 0) \<and>
   (st AND KBD_META_CAPSLOCK \<noteq> 0) =
     ((kstatus k AND KBD_META_CAPSLOCK \<noteq> 0) \<noteq> odd (presses key_capslck es))"
  unfolding Let_def meta_bits fold_status fold_bits by simp

lemma callback_inv:
  assumes "input_inv k"
  shows "input_inv (kbd_interrupt_callback e k)"
proof (cases "code_char (kstatus k) e")
  case None
  then show ?thesis using assms by (simp add: kbd_callback input_inv_def)
next
  case (Some c)
  then show ?thesis using kq.put_inv [OF assms] by (simp add: kbd_callback)
qed

lemma keys_empty: "input_inv s \<Longrightarrow> keys s = [] \<longleftrightarrow> keybuffer_index s = 0"
  by (auto simp: keys_def input_inv_def)


definition demo_kbd :: kbd where
  "demo_kbd = \<lparr>imem = (\<lambda>_. 0), keybuffer = 0x1000, keybuffer_index = 0, kstatus = 0\<rparr>"

lemma demo_kbd_inv [simp]: "input_inv demo_kbd" "keys demo_kbd = []"
  by (simp_all add: demo_kbd_def input_inv_def keys_def KEYBOARD_BUFFER_SIZE_def)


text \<open>A key that prints, pressed and released; \<open>c\<close> is its character under the modifiers \<open>st\<close>.\<close>

definition prints :: "u32 \<Rightarrow> u8 \<Rightarrow> u8 \<Rightarrow> bool" where
  "prints st code c \<longleftrightarrow> code_char st code = Some c \<and> c \<noteq> KEY_BACKSPACE"

definition stroke :: "u8 \<Rightarrow> u8 list" where
  "stroke code = [code, code OR 0x80]"

lemma release_key:
  assumes "\<not> key_release code"
  shows "key_release (code OR 0x80)" "(code OR 0x80) AND NOT 0x80 = code"
proof -
  have "bit (0x80 :: u8) 7" by (simp add: bit_numeral_rec)
  then have "bit ((code OR 0x80) AND 0x80) 7" by (simp only: bit_and_iff bit_or_iff simp_thms)
  then show "key_release (code OR 0x80)"
    unfolding key_release_def by (metis bit_0_eq bot_apply bot_bool_def)
  have "code AND NOT 0x80 = code" by (rule released_code [OF assms])
  then show "(code OR 0x80) AND NOT 0x80 = code"
    by (metis (no_types, lifting) and.right_idem bit.conj_cancel_right bit.conj_disj_distrib2 or.right_neutral)
qed

lemma release_quiet:
  assumes "code_char st code = Some c"
  shows "code_char st' (code OR 0x80) = None" "code_status (code OR 0x80) st' = st'"
proof -
  have no: "\<not> key_release code" "\<not> key_shifted code" "\<not> key_altgram code" "\<not> key_control code"
    using assms by (auto simp: code_char_def split: if_splits)
  show "code_char st' (code OR 0x80) = None"
    by (simp add: code_char_def release_key [OF no(1)])
  show "code_status (code OR 0x80) st' = st'"
    unfolding code_status_def release_key(2) [OF no(1)] Let_def using no release_key(1) [OF no(1)] by simp
qed

lemma bgets_strokes:
  assumes "input_inv k" "keys k = []"
    "list_all2 (prints (kstatus k)) codes cs" "prints (kstatus k) enter KEY_ENTER" "KEY_ENTER \<notin> set cs"
    "length codes < n" "\<forall>i<cur + n. \<not> in_buffer k (buffer + of_nat i)" "cur + n < 2 ^ 31"
    "\<forall>e \<in> set quiet. (\<forall>st. code_char st e = None) \<and> code_status e (kstatus k) = kstatus k"
  shows "\<exists>k' rest'. bgets_from kbd_interrupt_callback buffer n cur
        (quiet @ concat (map stroke codes) @ enter # rest) k = Some (k', rest', cur + length cs + 1) \<and>
      rest' = rest \<and>
      (\<forall>i<length cs. imem k' (buffer + of_nat (cur + i)) = cs ! i) \<and>
      (\<forall>i<cur. imem k' (buffer + of_nat i) = imem k (buffer + of_nat i))"
  using assms
proof (induction codes arbitrary: k cs cur n quiet)
  case Nil
  have st: "fold code_status quiet (kstatus k) = kstatus k"
    using Nil.prems(9) by (induction quiet) simp_all
  obtain m where m: "n = Suc m" using Nil.prems(6) by (cases n) auto
  have "\<exists>k'. bgetch kbd_interrupt_callback (quiet @ enter # rest) k = Some (k', rest, KEY_ENTER) \<and>
      (\<forall>a. \<not> in_buffer k a \<longrightarrow> imem k' a = imem k a)"
    using bgetch_wakes [OF Nil.prems(1,2), of quiet enter KEY_ENTER rest] Nil.prems(4,9) st
    by (auto simp: prints_def)
  then show ?case
    using Nil.prems(3,7) m by auto
next
  case (Cons code codes)
  obtain c cs' where cs: "cs = c # cs'" "prints (kstatus k) code c" "list_all2 (prints (kstatus k)) codes cs'"
    using Cons.prems(3) by (auto simp: list_all2_Cons1)
  have st: "fold code_status quiet (kstatus k) = kstatus k"
    using Cons.prems(9) by (induction quiet) simp_all
  obtain m where m: "n = Suc m" using Cons.prems(6) by (cases n) auto
  let ?rest = "(code OR 0x80) # concat (map stroke codes) @ enter # rest"
  obtain k1 where k1: "bgetch kbd_interrupt_callback (quiet @ code # ?rest) k = Some (k1, ?rest, c)"
    "input_inv k1" "keys k1 = []" "keybuffer k1 = keybuffer k" "kstatus k1 = kstatus k"
    "\<forall>a. \<not> in_buffer k a \<longrightarrow> imem k1 a = imem k a"
    using bgetch_wakes [OF Cons.prems(1,2), of quiet code c ?rest] Cons.prems(9) cs(2) st
    by (auto simp: prints_def)
  let ?k2 = "k1\<lparr>imem := (imem k1)(buffer + of_nat cur := c)\<rparr>"
  have out: "\<not> in_buffer k1 (buffer + of_nat i)" if "i < cur + n" for i
    using Cons.prems(7) that k1(4) by (simp add: in_buffer_def)
  have "imem ?k2 a = imem k1 a" if "in_buffer k1 a" for a
    using that out [of cur] m by auto
  then have k2: "input_inv ?k2" "keys ?k2 = []"
    using input_inv_cong [of ?k2 k1] k1(2,3) by simp_all
  have "\<exists>k' rest'. bgets_from kbd_interrupt_callback buffer m (cur + 1)
        ([code OR 0x80] @ concat (map stroke codes) @ enter # rest) ?k2 = Some (k', rest', (cur + 1) + length cs' + 1) \<and>
      rest' = rest \<and>
      (\<forall>i<length cs'. imem k' (buffer + of_nat ((cur + 1) + i)) = cs' ! i) \<and>
      (\<forall>i<cur + 1. imem k' (buffer + of_nat i) = imem ?k2 (buffer + of_nat i))"
  proof (rule Cons.IH)
    show "\<forall>e\<in>set [code OR 0x80]. (\<forall>st. code_char st e = None) \<and> code_status e (kstatus ?k2) = kstatus ?k2"
      using release_quiet [of "kstatus k" code c] cs(2) by (simp add: prints_def)
    show "\<forall>i<cur + 1 + m. \<not> in_buffer ?k2 (buffer + of_nat i)"
      using out m by (simp add: in_buffer_def)
  qed (use k2 cs k1(5) Cons.prems m in auto)
  then obtain k' where k': "bgets_from kbd_interrupt_callback buffer m (cur + 1) ?rest ?k2 =
        Some (k', rest, cur + length cs + 1)"
    "\<forall>i<length cs'. imem k' (buffer + of_nat ((cur + 1) + i)) = cs' ! i"
    "\<forall>i<cur + 1. imem k' (buffer + of_nat i) = imem ?k2 (buffer + of_nat i)"
    using cs(1) by auto
  have "bgets_from kbd_interrupt_callback buffer n cur (quiet @ concat (map stroke (code # codes)) @ enter # rest) k =
      Some (k', rest, cur + length cs + 1)"
    using k1(1) k'(1) m cs(1) Cons.prems(5) by (auto simp: stroke_def)
  moreover have "imem k' (buffer + of_nat (cur + i)) = cs ! i" if "i < length cs" for i
  proof (cases i)
    case 0
    then show ?thesis using k'(3) [rule_format, of cur] cs(1) by simp
  next
    case (Suc j)
    then show ?thesis using k'(2) [rule_format, of j] that cs(1) by simp
  qed
  moreover have "imem k' (buffer + of_nat i) = imem k (buffer + of_nat i)" if "i < cur" for i
  proof -
    have "(of_nat i :: u32) \<noteq> of_nat cur"
      using that Cons.prems(8) of_nat_eq_32 [of i cur] by simp
    then show ?thesis
      using k'(3) [rule_format, of i] k1(6) Cons.prems(7) that m by simp
  qed
  ultimately show ?case by blast
qed

text \<open>
  C28: a line that is typed stroke by stroke and ended with the enter key is read by \<^verbatim>\<open>bgets\<close>
  character by character into a buffer of sufficient length, and the length with the enter is returned;
  the scan codes after the enter are left for the next reader.
\<close>

theorem typed_line_is_read:
  assumes "input_inv k" "keys k = []"
    and "list_all2 (prints (kstatus k)) codes cs" "prints (kstatus k) enter KEY_ENTER" "KEY_ENTER \<notin> set cs"
    and "int (length codes) < len" "len < 2 ^ 31" "\<forall>i<nat len. \<not> in_buffer k (buffer + of_nat i)"
  shows "\<exists>k'. bgets kbd_interrupt_callback buffer len (concat (map stroke codes) @ enter # rest) k =
      Some (k', rest, length cs + 1) \<and>
    map (\<lambda>i. imem k' (buffer + of_nat i)) [0..<length cs] = cs"
proof -
  have "length codes < nat len" "0 + nat len < 2 ^ 31" using assms(6,7) by simp_all
  moreover have "\<forall>i<0 + nat len. \<not> in_buffer k (buffer + of_nat i)" using assms(8) by simp
  ultimately have "\<exists>k' rest'. bgets_from kbd_interrupt_callback buffer (nat len) 0
        ([] @ concat (map stroke codes) @ enter # rest) k = Some (k', rest', 0 + length cs + 1) \<and> rest' = rest \<and>
      (\<forall>i<length cs. imem k' (buffer + of_nat (0 + i)) = cs ! i) \<and>
      (\<forall>i<0. imem k' (buffer + of_nat i) = imem k (buffer + of_nat i))"
    by (intro bgets_strokes [OF assms(1-5)]) simp_all
  then obtain k' where "bgets_from kbd_interrupt_callback buffer (nat len) 0 (concat (map stroke codes) @ enter # rest) k =
      Some (k', rest, length cs + 1)" "\<forall>i<length cs. imem k' (buffer + of_nat i) = cs ! i"
    by auto
  moreover from this have "map (\<lambda>i. imem k' (buffer + of_nat i)) [0..<length cs] = cs"
    by (intro nth_equalityI) simp_all
  ultimately show ?thesis unfolding bgets_def by blast
qed

theorem typed_line_is_read_witness:
  "\<exists>k'. bgets kbd_interrupt_callback 0x2000 10 ([0x1E, 0x9E, 0x30, 0xB0] @ 0x1C # [0x9C]) demo_kbd = Some (k', [0x9C], 3) \<and>
     imem k' 0x2000 = 97 \<and> imem k' 0x2001 = 98"
proof -
  note codes = prints_def code_char_def key_release_def key_shifted_def key_altgram_def key_control_def
    key_capslck_def KBD_CODE_LSHIFT_def KBD_CODE_RSHIFT_def KBD_CODE_CTRL_def KBD_CODE_CAPSLOCK_def
    KBD_CODE_ALT_def KBD_LAYOUT_SIZE_def key_getchar_def KBD_META_SHIFT_def KBD_META_CAPSLOCK_def
    KBD_META_ALTGR_def layout_regular_def KEY_BACKSPACE_def KEY_ENTER_def INV_def
  have st: "kstatus demo_kbd = 0" by (simp add: demo_kbd_def)
  have chars: "prints 0 0x1E 97" "prints 0 0x30 98" "prints 0 0x1C KEY_ENTER"
    by (simp_all add: codes)
  have far: "\<forall>i<nat 10. \<not> in_buffer demo_kbd (0x2000 + of_nat i)"
  proof (intro allI impI)
    fix i :: nat assume "i < nat 10"
    then have "(0x2000 + of_nat i - 0x1000 :: u32) = of_nat (0x1000 + i)" "unat (of_nat (0x1000 + i) :: u32) = 0x1000 + i"
      by (simp, intro unat_of_nat32, simp)
    then show "\<not> in_buffer demo_kbd (0x2000 + of_nat i)"
      by (simp add: in_buffer_def demo_kbd_def)
  qed
  have "concat (map stroke [0x1E, 0x30]) = [0x1E, 0x9E, 0x30, 0xB0]" by (simp add: stroke_def)
  then show ?thesis
    using typed_line_is_read [of demo_kbd "[0x1E, 0x30]" "[97, 98]" "0x1C" 10 "0x2000" "[0x9C]"] chars far st
    by (auto simp: KEY_ENTER_def upt_rec)
qed

end
