(* ===== verification/Interrupt.thy ===== *)
theory Interrupt
  imports Cmem
begin

text \<open>
  Interrupts: the handlers of \<^verbatim>\<open>src/core/interrupt.c\<close>, the interrupt controller of
  \<^verbatim>\<open>arch/x86/pic.c\<close>, the descriptor table and the dispatch of \<^verbatim>\<open>arch/x86/idt.c\<close>,
  and the clock driver \<^verbatim>\<open>drivers/clock/pit.c\<close>. The writes to the ports are a log, oldest
  first. A handler is named by a number, the address of its record.
\<close>

section \<open>Handlers\<close>

definition NUM_INTERRUPTS :: u32 where "NUM_INTERRUPTS = 256"

record handlers =
  interrupt_handlers :: "u32 \<Rightarrow> nat list"
  num_interrupts :: u32

definition register_interrupt_handler :: "u32 \<Rightarrow> nat \<Rightarrow> handlers \<Rightarrow> handlers" where
  "register_interrupt_handler vec h s =
     (if vec \<ge> num_interrupts s then s
      else s\<lparr>interrupt_handlers := (interrupt_handlers s)(vec := h # interrupt_handlers s vec)\<rparr>)"

text \<open>\<^verbatim>\<open>list_del\<close> takes the handler out of the list it is in.\<close>

definition unregister_interrupt_handler :: "nat \<Rightarrow> handlers \<Rightarrow> handlers" where
  "unregister_interrupt_handler h s =
     s\<lparr>interrupt_handlers := (\<lambda>vec. remove1 h (interrupt_handlers s vec))\<rparr>"

definition has_interrupt_handler :: "u32 \<Rightarrow> handlers \<Rightarrow> bool" where
  "has_interrupt_handler vec s = (interrupt_handlers s vec \<noteq> [])"

text \<open>
  A handler without a callback ends the round. \<open>callback\<close> gives what the callback of a handler
  does to the rest of the machine \<open>'s\<close>; it is not expected to change the list that is walked.
\<close>

fun run_handlers :: "(nat \<Rightarrow> ('s \<Rightarrow> 's) option) \<Rightarrow> nat list \<Rightarrow> 's \<Rightarrow> 's" where
  "run_handlers callback [] x = x"
| "run_handlers callback (h # hs) x =
     (case callback h of None \<Rightarrow> x | Some f \<Rightarrow> run_handlers callback hs (f x))"

definition interrupt_callback :: "(nat \<Rightarrow> ('s \<Rightarrow> 's) option) \<Rightarrow> u32 \<Rightarrow> handlers \<Rightarrow> 's \<Rightarrow> 's" where
  "interrupt_callback callback vec s x = run_handlers callback (interrupt_handlers s vec) x"

text \<open>\<open>a\<close> is the array the allocator gave.\<close>

definition init_interrupts :: "u32 \<Rightarrow> handlers \<Rightarrow> handlers \<times> status" where
  "init_interrupts a s =
     (if a = 0 then (s, Inl ENOMEM)
      else (s\<lparr>num_interrupts := NUM_INTERRUPTS,
              interrupt_handlers := (\<lambda>vec. if vec < NUM_INTERRUPTS then [] else interrupt_handlers s vec)\<rparr>, ok))"

section \<open>The interrupt controller\<close>

definition PIC_MASTER_CMD :: u16 where "PIC_MASTER_CMD = 0x20"
definition PIC_SLAVE_CMD :: u16 where "PIC_SLAVE_CMD = 0xA0"
definition PIC_MASTER_DATA :: u16 where "PIC_MASTER_DATA = 0x21"
definition PIC_SLAVE_DATA :: u16 where "PIC_SLAVE_DATA = 0xA1"
definition PIC_CMD_EOI :: u8 where "PIC_CMD_EOI = 0x20"

record pic =
  irq_mask :: u16
  ports :: "(u16 \<times> u8) list"

definition pic_start :: pic where
  "pic_start = \<lparr>irq_mask = 0xFFFF AND NOT 0x04, ports = []\<rparr>"

definition outb :: "u16 \<Rightarrow> u8 \<Rightarrow> pic \<Rightarrow> pic" where
  "outb p v s = s\<lparr>ports := ports s @ [(p, v)]\<rparr>"

definition pic_send_eoi :: "u8 \<Rightarrow> pic \<Rightarrow> pic" where
  "pic_send_eoi irq s =
     (let s = (if irq \<ge> 0x28 then outb PIC_SLAVE_CMD PIC_CMD_EOI s else s)
      in outb PIC_MASTER_CMD PIC_CMD_EOI s)"

definition pic_write_mask :: "u16 \<Rightarrow> pic \<Rightarrow> pic" where
  "pic_write_mask msk s =
     (let s = outb PIC_MASTER_DATA (ucast msk) s;
          s = outb PIC_SLAVE_DATA (ucast (drop_bit 8 msk)) s
      in s\<lparr>irq_mask := msk\<rparr>)"

text \<open>\<^verbatim>\<open>1 << irq\<close> is computed as an int; the callers pass 0 and 1.\<close>

definition pic_mask_irq :: "u8 \<Rightarrow> pic \<Rightarrow> pic" where
  "pic_mask_irq irq s = pic_write_mask (irq_mask s OR ucast (push_bit (unat irq) (1 :: u32))) s"

definition pic_unmask_irq :: "u8 \<Rightarrow> pic \<Rightarrow> pic" where
  "pic_unmask_irq irq s = pic_write_mask (irq_mask s AND ucast (NOT (push_bit (unat irq) (1 :: u32)))) s"

definition pic_init :: "pic \<Rightarrow> pic" where
  "pic_init s =
     fold (\<lambda>(p, v). outb p v)
       [(PIC_MASTER_CMD, 0x11), (PIC_SLAVE_CMD, 0x11),
        (PIC_MASTER_DATA, 0x20), (PIC_SLAVE_DATA, 0x28),
        (PIC_MASTER_DATA, 0x04), (PIC_SLAVE_DATA, 0x02),
        (PIC_MASTER_DATA, 0x01), (PIC_SLAVE_DATA, 0x01),
        (PIC_MASTER_DATA, 0xFF), (PIC_SLAVE_DATA, 0xFF)] s"

definition X86_INTR_PIT :: u8 where "X86_INTR_PIT = 0x00"
definition X86_INTR_KBD :: u8 where "X86_INTR_KBD = 0x01"

definition enable_keyboard :: "pic \<Rightarrow> pic" where "enable_keyboard = pic_unmask_irq X86_INTR_KBD"
definition disable_keyboard :: "pic \<Rightarrow> pic" where "disable_keyboard = pic_mask_irq X86_INTR_KBD"
definition enable_clock :: "pic \<Rightarrow> pic" where "enable_clock = pic_unmask_irq X86_INTR_PIT"
definition disable_clock :: "pic \<Rightarrow> pic" where "disable_clock = pic_mask_irq X86_INTR_PIT"

text \<open>\<^verbatim>\<open>pit.c\<close>\<close>

definition DRIVER_PIT_FREQUENCY :: u32 where "DRIVER_PIT_FREQUENCY = 1193182"

definition pit_init :: "pic \<Rightarrow> pic \<times> status" where
  "pit_init s =
     (let divisor = DRIVER_PIT_FREQUENCY div 1000;
          s = outb 0x40 (ucast divisor) s;
          s = outb 0x40 (ucast (drop_bit 8 divisor)) s
      in (enable_clock s, ok))"

definition pit_exit :: "pic \<Rightarrow> pic" where "pit_exit = disable_clock"

section \<open>The descriptor table\<close>

definition X86_IDT_NUM_ENTRIES :: u32 where "X86_IDT_NUM_ENTRIES = 256"
definition X86_TRAP_NUM :: nat where "X86_TRAP_NUM = 20"
definition X86_INTR_NUM :: nat where "X86_INTR_NUM = 16"
definition X86_INTR_OFFSET :: nat where "X86_INTR_OFFSET = 32"
definition X86_STUB_ENTRY_SIZE :: u32 where "X86_STUB_ENTRY_SIZE = 9"
definition GATE_INTR :: u8 where "GATE_INTR = 0x0E"

definition type_attr :: "u8 \<Rightarrow> u8 \<Rightarrow> u8" where
  "type_attr gate dpl = push_bit 7 1 OR push_bit 5 dpl OR gate"

definition GDT_CODE32 :: u16 where "GDT_CODE32 = 0x18"

text \<open>The eight bytes of an interrupt gate. The upper half of the offset is always zero.\<close>

definition gate_bytes :: "u32 \<Rightarrow> u8 list" where
  "gate_bytes addr =
     [ucast addr, ucast (drop_bit 8 addr), ucast GDT_CODE32, ucast (drop_bit 8 GDT_CODE32), 0,
      type_attr GATE_INTR 0, 0, 0]"

fun put_all :: "mem \<Rightarrow> u32 \<Rightarrow> u8 list \<Rightarrow> mem" where
  "put_all m a [] = m"
| "put_all m a (b # bs) = put_all (m(a := b)) (a + 1) bs"

definition set_interrupt_gate :: "u32 \<Rightarrow> nat \<Rightarrow> u32 \<Rightarrow> mem \<Rightarrow> mem" where
  "set_interrupt_gate idt vec addr m = put_all m (idt + 8 * of_nat vec) (gate_bytes addr)"

text \<open>
  \<open>idt\<close> is the table the allocator gave, cleared; \<open>exceptions\<close> and \<open>interrupts\<close> are the addresses of the
  two tables of entry stubs, nine bytes each. The result holds the limit and the address that are
  loaded.
\<close>

definition arch_init_interrupts ::
    "u32 \<Rightarrow> u32 \<Rightarrow> u32 \<Rightarrow> mem \<Rightarrow> pic \<Rightarrow> (mem \<times> pic \<times> u16 \<times> u32) option" where
  "arch_init_interrupts idt exceptions interrupts m s =
     (if idt = 0 then None
      else
        let len = X86_IDT_NUM_ENTRIES * 8;
            m = memset m idt 0 len;
            m = fold (\<lambda>v. set_interrupt_gate idt v (exceptions + X86_STUB_ENTRY_SIZE * of_nat v)) [0..<X86_TRAP_NUM] m;
            m = fold (\<lambda>v. set_interrupt_gate idt (v + X86_INTR_OFFSET) (interrupts + X86_STUB_ENTRY_SIZE * of_nat v))
                  [0..<X86_INTR_NUM] m
        in Some (m, pic_init s, ucast (len - 1), idt))"

text \<open>\<^verbatim>\<open>handle_generic_interrupt\<close>; an interrupt without a handler is only printed.\<close>

definition handle_generic_interrupt ::
    "(nat \<Rightarrow> ('s \<Rightarrow> 's) option) \<Rightarrow> u32 \<Rightarrow> handlers \<Rightarrow> 's \<times> pic \<Rightarrow> 's \<times> pic" where
  "handle_generic_interrupt callback vec s = (\<lambda>(x, p).
     (if has_interrupt_handler vec s then interrupt_callback callback vec s x else x,
      pic_send_eoi (ucast vec) p))"

section \<open>The gates after start-up\<close>

text \<open>The gate the processor reads at a vector: offset, segment, attributes.\<close>

definition gate_at :: "mem \<Rightarrow> u32 \<Rightarrow> nat \<Rightarrow> u32 \<times> u16 \<times> u8" where
  "gate_at m idt v =
     (let a = idt + 8 * of_nat v in
      (ucast (load16 m a) OR push_bit 16 (ucast (load16 m (a + 6))), load16 m (a + 2), m (a + 5)))"

lemma put_all_eq:
  "length bs < 2 ^ 32 \<Longrightarrow>
     put_all m a bs x = (if unat (x - a) < length bs then bs ! unat (x - a) else m x)"
proof (induction bs arbitrary: m a)
  case (Cons b bs)
  have IH: "put_all (m(a := b)) (a + 1) bs x =
      (if unat (x - (a + 1)) < length bs then bs ! unat (x - (a + 1)) else (m(a := b)) x)"
    using Cons.IH Cons.prems by simp
  show ?case
  proof (cases "x = a")
    case True
    have "unat (- 1 :: u32) = 2 ^ 32 - 1" by (simp add: unsigned_minus_1_eq_mask mask_eq_exp_minus_1)
    then show ?thesis using IH True Cons.prems by simp
  next
    case False
    then have "unat (x - a) = unat (x - (a + 1)) + 1"
      using unat_plus1 [of "x - (a + 1)"] by (simp add: algebra_simps)
    then show ?thesis using IH False by simp
  qed
qed simp

definition gate_byte :: "u32 \<Rightarrow> nat \<Rightarrow> nat \<Rightarrow> u32" where
  "gate_byte idt v i = idt + of_nat (8 * v + i)"

lemma set_gate_byte:
  assumes "v < 256" "w < 256" "i < 8"
  shows "set_interrupt_gate idt v addr m (gate_byte idt w i) =
    (if w = v then gate_bytes addr ! i else m (gate_byte idt w i))"
proof -
  have len: "length (gate_bytes addr) = 8" by (simp add: gate_bytes_def)
  have d: "gate_byte idt w i - (idt + 8 * of_nat v) = of_nat (8 * w + i) - (of_nat (8 * v) :: u32)"
    by (simp add: gate_byte_def)
  have n: "unat (of_nat (8 * w + i) :: u32) = 8 * w + i" "unat (of_nat (8 * v) :: u32) = 8 * v"
    using assms by (intro unat_of_nat32, simp)+
  have off: "unat (of_nat (8 * w + i) - (of_nat (8 * v) :: u32)) =
      (if 8 * v \<le> 8 * w + i then 8 * w + i - 8 * v else 8 * w + i + 2 ^ 32 - 8 * v)"
    using unat_shift [of "8 * v" "of_nat (8 * w + i)" 0] assms n by simp
  have "set_interrupt_gate idt v addr m (gate_byte idt w i) =
      (let q = (if 8 * v \<le> 8 * w + i then 8 * w + i - 8 * v else 8 * w + i + 2 ^ 32 - 8 * v) in
       if q < 8 then gate_bytes addr ! q else m (gate_byte idt w i))"
    unfolding set_interrupt_gate_def Let_def
    by (subst put_all_eq) (simp_all only: len d off, simp)
  moreover consider "w = v" | "w < v" | "v < w" by linarith
  then show ?thesis
  proof cases
    case 1
    then show ?thesis using calculation assms(3) by (simp add: Let_def)
  next
    case 2
    then have "\<not> 8 * v \<le> 8 * w + i" "\<not> 8 * w + i + 2 ^ 32 - 8 * v < 8" using assms by (linarith, simp)
    then show ?thesis using calculation 2 by (simp add: Let_def)
  next
    case 3
    then have "8 * v \<le> 8 * w + i" "\<not> 8 * w + i - 8 * v < 8" using assms(3) by linarith+
    then show ?thesis using calculation 3 by (simp add: Let_def)
  qed
qed

lemma set_gates:
  assumes "k + n \<le> 256" "w < 256" "i < 8"
  shows "fold (\<lambda>v. set_interrupt_gate idt (v + k) (f v)) [0..<n] m (gate_byte idt w i) =
    (if k \<le> w \<and> w < k + n then gate_bytes (f (w - k)) ! i else m (gate_byte idt w i))"
  using assms(1)
proof (induction n)
  case 0
  then show ?case by auto
next
  case (Suc n)
  then show ?case using set_gate_byte [of "n + k" w i idt] assms(2,3) by auto
qed

lemma gate_at_bytes:
  assumes "\<forall>i<8. m (gate_byte idt v i) = bs ! i"
  shows "gate_at m idt v =
    (ucast (ucast (bs ! 0) OR push_bit 8 (ucast (bs ! 1)) :: u16) OR
       push_bit 16 (ucast (ucast (bs ! 6) OR push_bit 8 (ucast (bs ! 7)) :: u16)),
     ucast (bs ! 2) OR push_bit 8 (ucast (bs ! 3)), bs ! 5)"
proof -
  have b: "m (idt + 8 * of_nat v + of_nat i) = bs ! i" if "i < 8" for i
    using assms that by (simp add: gate_byte_def algebra_simps)
  show ?thesis
    using b [of 0] b [of 1] b [of 2] b [of 3] b [of 5] b [of 6] b [of 7]
    by (simp add: gate_at_def load16_def Let_def algebra_simps)
qed

lemma gate_offset:
  "ucast (ucast (ucast a :: u8) OR push_bit 8 (ucast (ucast (drop_bit 8 a) :: u8)) :: u16) = take_bit 16 (a :: u32)"
  by (rule bit_eqI) (auto simp: bit_simps)

text \<open>
  C39: after start-up every gate of a vector with an entry stub leads to that stub when the stub lies
  in the first 64 KiB, in the code segment and as a present interrupt gate; every other gate is not present.
\<close>

theorem idt_gates_correct:
  assumes "idt \<noteq> 0" and "v < 256"
    and "unat (exceptions + 9 * of_nat v) < 2 ^ 16" "unat (interrupts + 9 * of_nat (v - 32)) < 2 ^ 16"
  shows "\<exists>m' p'. arch_init_interrupts idt exceptions interrupts m p = Some (m', p', 2047, idt) \<and>
    gate_at m' idt v =
      (if v < 20 then (exceptions + 9 * of_nat v, GDT_CODE32, 0x8E)
       else if 32 \<le> v \<and> v < 48 then (interrupts + 9 * of_nat (v - 32), GDT_CODE32, 0x8E)
       else (0, 0, 0))"
proof -
  define stub where "stub = (if v < 20 then exceptions + 9 * of_nat v else interrupts + 9 * of_nat (v - 32))"
  define m' where "m' = fold (\<lambda>v. set_interrupt_gate idt (v + 32) (interrupts + 9 * of_nat v)) [0..<16]
    (fold (\<lambda>v. set_interrupt_gate idt (v + 0) (exceptions + 9 * of_nat v)) [0..<20] (filled m idt 0 2048))"
  have init: "arch_init_interrupts idt exceptions interrupts m p = Some (m', pic_init p, 2047, idt)"
    using assms(1)
    by (simp add: arch_init_interrupts_def Let_def m'_def memset_filled X86_IDT_NUM_ENTRIES_def X86_TRAP_NUM_def
        X86_INTR_NUM_def X86_INTR_OFFSET_def X86_STUB_ENTRY_SIZE_def)
  have zero: "filled m idt 0 2048 (gate_byte idt v i) = 0" if "i < 8" for i
  proof -
    have "unat (of_nat (8 * v + i) :: u32) = 8 * v + i" using assms(2) that by (intro unat_of_nat32) simp
    then show ?thesis using assms(2) that by (simp add: filled_def gate_byte_def del: of_nat_add of_nat_mult)
  qed
  have bytes: "m' (gate_byte idt v i) =
      (if v < 20 \<or> 32 \<le> v \<and> v < 48 then gate_bytes stub else replicate 8 0) ! i" if "i < 8" for i
    unfolding m'_def using set_gates [OF _ assms(2) that, of 32 16 idt] set_gates [OF _ assms(2) that, of 0 20 idt]
      zero [OF that] that by (auto simp: stub_def)
  show ?thesis
  proof (cases "v < 20 \<or> 32 \<le> v \<and> v < 48")
    case True
    have "unat stub < 2 ^ 16" using assms(3,4) by (simp add: stub_def)
    then have "take_bit 16 stub = stub"
      by (simp add: word_unat_eq_iff unsigned_take_bit_eq take_bit_nat_eq_self)
    moreover have "\<forall>i<8. m' (gate_byte idt v i) = gate_bytes stub ! i" using bytes True by simp
    ultimately have "gate_at m' idt v = (stub, GDT_CODE32, 0x8E)"
      using gate_at_bytes [of m' idt v "gate_bytes stub"] gate_offset [of stub]
      by (simp add: gate_bytes_def GDT_CODE32_def type_attr_def GATE_INTR_def)
    with init True show ?thesis by (auto simp: stub_def)
  next
    case False
    have "\<forall>i<8. m' (gate_byte idt v i) = replicate 8 0 ! i" using bytes False by simp
    then have "gate_at m' idt v = (0, 0, 0)"
      using gate_at_bytes [of m' idt v "replicate 8 0"] by simp
    with init False show ?thesis by auto
  qed
qed

theorem idt_gates_correct_witness:
  "\<exists>m' p'. arch_init_interrupts 0x20000 0x8000 0x9000 (\<lambda>_. 0) pic_start = Some (m', p', 2047, 0x20000) \<and>
    gate_at m' 0x20000 33 = (0x9009, 0x18, 0x8E)"
  using idt_gates_correct [of "0x20000" 33 "0x8000" "0x9000" "\<lambda>_. 0" pic_start] by (simp add: GDT_CODE32_def)

end
