(* ===== verification/Tty.thy ===== *)
theory Tty
  imports Vfs
begin

text \<open>
  The text console \<^verbatim>\<open>src/drivers/char/tty.c\<close> on the \<^verbatim>\<open>struct console\<close> of
  \<^verbatim>\<open>elfboot/console.h\<close>: writing with line wrap and scrolling, the requests that reset,
  clear, paint and report it. The characters and their colours are 16-bit cells in the memory at
  \<^verbatim>\<open>0xb8000\<close>. The port accesses that move the cursor are a log, and what a port read gives is a
  function of that log. Of a colour only the \<^verbatim>\<open>vga\<close> member of the union is used.
\<close>

section \<open>The console\<close>

definition TTY_BASE_ADDRESS :: u32 where "TTY_BASE_ADDRESS = 0xb8000"
definition TTY_MAX_WIDTH :: u32 where "TTY_MAX_WIDTH = 80"
definition TTY_MAX_HEIGHT :: u32 where "TTY_MAX_HEIGHT = 25"
definition CONSOLE_CHAR_NEWLINE :: u8 where "CONSOLE_CHAR_NEWLINE = 10"
definition CONSOLE_CHAR_CRETURN :: u8 where "CONSOLE_CHAR_CRETURN = 13"
definition CONSOLE_CHAR_SPACE :: u8 where "CONSOLE_CHAR_SPACE = 32"
definition COLOR_VGA_BLACK :: u8 where "COLOR_VGA_BLACK = 0"
definition COLOR_VGA_GRAY :: u8 where "COLOR_VGA_GRAY = 7"

record console =
  active :: u32
  fbaddr :: u32
  width :: u32
  height :: u32
  xunit :: u32
  yunit :: u32
  xpos :: u32
  ypos :: u32
  bpu :: u32
  fgcolor :: u8
  bgcolor :: u8

record console_attr =
  a_active :: u32
  a_width :: u32
  a_height :: u32
  a_xpos :: u32
  a_ypos :: u32
  a_fgcolor :: u8
  a_bgcolor :: u8

record tty =
  cons :: console
  vram :: mem
  outs :: "(u16 \<times> u8) list"
  port_in :: "(u16 \<times> u8) list \<Rightarrow> u16 \<Rightarrow> u8"

definition tty_console :: console where
  "tty_console = \<lparr>active = 1, fbaddr = TTY_BASE_ADDRESS, width = TTY_MAX_WIDTH, height = TTY_MAX_HEIGHT,
     xunit = 1, yunit = 1, xpos = 0, ypos = 0, bpu = 2, fgcolor = COLOR_VGA_GRAY, bgcolor = COLOR_VGA_BLACK\<rparr>"

definition upd_cons :: "(console \<Rightarrow> console) \<Rightarrow> tty \<Rightarrow> tty" where
  "upd_cons f s = s\<lparr>cons := f (cons s)\<rparr>"

definition console_unit :: "console \<Rightarrow> u32 \<Rightarrow> u32 \<Rightarrow> u32" where
  "console_unit c x y = fbaddr c + bpu c * (x + width c * y)"

definition console_line :: "console \<Rightarrow> u32 \<Rightarrow> u32" where
  "console_line c y = console_unit c 0 y"

definition console_bpl :: "console \<Rightarrow> u32" where
  "console_bpl c = width c * bpu c"

text \<open>\<^verbatim>\<open>VGA_COLOR\<close> and \<^verbatim>\<open>tty_char\<close>; a \<^verbatim>\<open>char\<close> is signed, so the cast extends the sign.\<close>

definition vga_color :: "u8 \<Rightarrow> u8 \<Rightarrow> u16" where
  "vga_color fg bg = ucast fg OR push_bit 4 (ucast bg)"

definition tty_char :: "console \<Rightarrow> u8 \<Rightarrow> u16" where
  "tty_char c ch = scast ch OR push_bit 8 (vga_color (fgcolor c) (bgcolor c))"

text \<open>\<^verbatim>\<open>memset16\<close> of \<^verbatim>\<open>copy.S\<close> stores half as many words as it is given bytes.\<close>

definition store16 :: "mem \<Rightarrow> u32 \<Rightarrow> u16 \<Rightarrow> mem" where
  "store16 m a v = m(a := ucast v, a + 1 := ucast (drop_bit 8 v))"

fun rep_stosw :: "nat \<Rightarrow> u16 \<Rightarrow> mem \<times> u32 \<Rightarrow> mem \<times> u32" where
  "rep_stosw 0 v s = s"
| "rep_stosw (Suc k) v (m, d) = rep_stosw k v (store16 m d v, d + 2)"

definition memset16 :: "mem \<Rightarrow> u32 \<Rightarrow> u16 \<Rightarrow> u32 \<Rightarrow> mem" where
  "memset16 m d v len = fst (rep_stosw (unat (drop_bit 1 len)) v (m, d))"

section \<open>The cursor\<close>

definition out :: "u16 \<Rightarrow> u8 \<Rightarrow> tty \<Rightarrow> tty" where
  "out p v s = s\<lparr>outs := outs s @ [(p, v)]\<rparr>"

definition tty_cursor_update :: "tty \<Rightarrow> tty" where
  "tty_cursor_update s =
     (let lpos = ucast (xpos (cons s) + ypos (cons s) * width (cons s)) :: u16;
          s = out 0x3D4 0x0F s;
          s = out 0x3D5 (ucast lpos) s;
          s = out 0x3D4 0x0E s
      in out 0x3D5 (ucast (drop_bit 8 lpos)) s)"

definition tty_cursor_enable :: "tty \<Rightarrow> tty" where
  "tty_cursor_enable s =
     (let s = out 0x3D4 0x0A s;
          s = out 0x3D5 ((port_in s (outs s) 0x3D5 AND 0xC0) OR 0x0E) s;
          s = out 0x3D4 0x0B s;
          s = out 0x3D5 ((port_in s (outs s) 0x3D5 AND 0xE0) OR 0x0F) s;
          s = tty_cursor_update s
      in upd_cons (\<lambda>c. c\<lparr>active := 1\<rparr>) s)"

definition tty_cursor_disable :: "tty \<Rightarrow> tty" where
  "tty_cursor_disable s =
     (let s = tty_cursor_update s;
          s = out 0x3D4 0x0A s;
          s = out 0x3D5 0x20 s
      in upd_cons (\<lambda>c. c\<lparr>active := 0\<rparr>) s)"

section \<open>Requests\<close>

definition tty_reset :: "console_attr option \<Rightarrow> tty \<Rightarrow> tty" where
  "tty_reset attr s =
     (case attr of None \<Rightarrow> s
      | Some a \<Rightarrow>
          let s = upd_cons (\<lambda>c. c\<lparr>xpos := a_xpos a, ypos := a_ypos a,
                    fgcolor := a_fgcolor a, bgcolor := a_bgcolor a\<rparr>) s
          in if a_active a \<noteq> 0 then tty_cursor_enable s else s)"

definition tty_clean :: "console_attr option \<Rightarrow> tty \<Rightarrow> tty" where
  "tty_clean attr s =
     (let s = tty_reset attr s;
          dst = console_line (cons s) 0;
          val = tty_char (cons s) CONSOLE_CHAR_SPACE;
          s = s\<lparr>vram := memset16 (vram s) dst val (console_bpl (cons s) * TTY_MAX_HEIGHT)\<rparr>
      in case attr of None \<Rightarrow> tty_cursor_disable s | Some a \<Rightarrow> tty_reset attr s)"

definition tty_gattr :: "tty \<Rightarrow> console_attr" where
  "tty_gattr s =
     (let c = cons s in
      \<lparr>a_active = active c, a_width = width c, a_height = height c, a_xpos = xpos c, a_ypos = ypos c,
       a_fgcolor = fgcolor c, a_bgcolor = bgcolor c\<rparr>)"

text \<open>
  \<^verbatim>\<open>tty_paint\<close>: \<open>tmg\<close> is the address of the picture, whose width and height are the bytes 6 and
  7 of its header of eight. Two rows of the picture make one line; \<open>paint_row\<close> is the inner loop,
  over \<open>xp\<close>. The limits are 16 bits wide and at most 80 and 25.
\<close>

definition tmg_width :: "mem \<Rightarrow> u32 \<Rightarrow> u32" where "tmg_width m tmg = ucast (m (tmg + 6))"
definition tmg_height :: "mem \<Rightarrow> u32 \<Rightarrow> u32" where "tmg_height m tmg = ucast (m (tmg + 7))"

partial_function (option) paint_row :: "u32 \<Rightarrow> u16 \<Rightarrow> u16 \<Rightarrow> u16 \<Rightarrow> tty \<Rightarrow> tty option" where
  "paint_row tmg maxw yp xp s =
     (let c = cons s in
      if xpos c + ucast xp < ucast maxw then
        let pos = ucast (8 + ucast yp * tmg_width (vram s) tmg + ucast xp * bpu c) :: u16;
            plot = load16 (vram s) (tmg + ucast pos);
            u = console_unit c (xpos c + ucast xp) (ypos c + ucast yp div 2)
        in paint_row tmg maxw yp (xp + 1) (s\<lparr>vram := memset16 (vram s) u plot 2\<rparr>)
      else Some s)"

partial_function (option) paint_rows :: "u32 \<Rightarrow> u16 \<Rightarrow> u16 \<Rightarrow> u16 \<Rightarrow> tty \<Rightarrow> tty option" where
  "paint_rows tmg maxw maxh yp s =
     (if ypos (cons s) + ucast yp < ucast maxh then
        Option.bind (paint_row tmg maxw yp 0 s) (paint_rows tmg maxw maxh (yp + 2))
      else Some s)"

definition lesser :: "u32 \<Rightarrow> u32 \<Rightarrow> u32" where
  "lesser x y = (if x < y then x else y)"

definition tty_paint :: "u32 \<Rightarrow> tty \<Rightarrow> tty option" where
  "tty_paint tmg s =
     paint_rows tmg
       (ucast (lesser TTY_MAX_WIDTH (xpos (cons s) + tmg_width (vram s) tmg)))
       (ucast (lesser TTY_MAX_HEIGHT (ypos (cons s) + tmg_height (vram s) tmg))) 0 s"

section \<open>Writing\<close>

definition CONSOLE_SCROLL_UP :: nat where "CONSOLE_SCROLL_UP = 0"

definition tty_scroll :: "nat \<Rightarrow> u32 \<Rightarrow> tty \<Rightarrow> tty" where
  "tty_scroll direction units s =
     (if units = 0 \<or> direction \<noteq> CONSOLE_SCROLL_UP then s
      else
        let c = cons s;
            m = memmove (vram s) (console_line c 0) (console_line c units) (console_bpl c * (height c - units));
            m = memset16 m (console_line c (height c - units)) (tty_char c CONSOLE_CHAR_SPACE) (console_bpl c * units)
        in s\<lparr>vram := m\<rparr>)"

text \<open>One character of the loop.\<close>

definition tty_put :: "u8 \<Rightarrow> tty \<Rightarrow> tty" where
  "tty_put ch s =
     (let s = (if ypos (cons s) \<ge> height (cons s)
               then upd_cons (\<lambda>c. c\<lparr>ypos := ypos c - yunit c\<rparr>) (tty_scroll CONSOLE_SCROLL_UP 1 s) else s);
          s = (if active (cons s) \<noteq> 0 then tty_cursor_update s else s)
      in if ch = CONSOLE_CHAR_CRETURN then upd_cons (\<lambda>c. c\<lparr>xpos := 0\<rparr>) s
         else if ch = CONSOLE_CHAR_NEWLINE then upd_cons (\<lambda>c. c\<lparr>xpos := 0, ypos := ypos c + yunit c\<rparr>) s
         else
           let c = cons s; u = console_unit c (xpos c) (ypos c);
               s = upd_cons (\<lambda>c. c\<lparr>xpos := xpos c + 1\<rparr>) s;
               s = s\<lparr>vram := memset16 (vram s) u (tty_char c ch) 2\<rparr>
           in if xpos (cons s) \<ge> TTY_MAX_WIDTH
              then upd_cons (\<lambda>c. c\<lparr>xpos := 0, ypos := ypos c + 1\<rparr>) s else s)"

text \<open>\<open>n\<close> is what \<^verbatim>\<open>length\<close> leaves.\<close>

fun tty_write_loop :: "nat \<Rightarrow> u32 \<Rightarrow> tty \<Rightarrow> tty" where
  "tty_write_loop 0 buf s = s"
| "tty_write_loop (Suc n) buf s =
     (if vram s buf = 0 then s else tty_write_loop n (buf + 1) (tty_put (vram s buf) s))"

definition tty_write :: "u64 \<Rightarrow> u64 \<Rightarrow> u32 \<Rightarrow> tty \<Rightarrow> (tty \<times> int) option" where
  "tty_write offset len buf s =
     (if offset \<noteq> 0 then
        map_option (\<lambda>(q, r). (tty_write_loop (unat len) buf (upd_cons (\<lambda>c. c\<lparr>ypos := ucast q, xpos := r\<rparr>) s), 0))
          (div_rem offset TTY_MAX_WIDTH)
      else Some (tty_write_loop (unat len) buf s, 0))"

text \<open>\<^verbatim>\<open>tty_ioctl\<close> with the argument each request takes.\<close>

datatype tty_request = Ioctl_reset "console_attr option" | Ioctl_clean "console_attr option"
  | Ioctl_paint u32 | Ioctl_gattr | Ioctl_other

definition tty_ioctl :: "tty_request \<Rightarrow> tty \<Rightarrow> (tty \<times> console_attr option \<times> status) option" where
  "tty_ioctl request s =
     (case request of
        Ioctl_reset a \<Rightarrow> Some (tty_reset a s, None, ok)
      | Ioctl_clean a \<Rightarrow> Some (tty_clean a s, None, ok)
      | Ioctl_paint tmg \<Rightarrow> map_option (\<lambda>s. (s, None, ok)) (tty_paint tmg s)
      | Ioctl_gattr \<Rightarrow> Some (s, Some (tty_gattr s), ok)
      | Ioctl_other \<Rightarrow> Some (s, None, Inl ENOTSUP))"

section \<open>Start-up\<close>

text \<open>
  \<^verbatim>\<open>tty_init\<close>: the device gets its record and its name, is mounted in \<^verbatim>\<open>/dev\<close>, the screen is
  cleared and the console opened; \<open>tty_ops\<close> are the operations above as the device file system calls
  them. The result holds the open console. The name has been duplicated into the heap, so freeing it
  is \<^verbatim>\<open>bfree\<close>.
\<close>

definition CDEV_BYTES :: u32 where "CDEV_BYTES = 20"

definition console_init :: "u8 list \<Rightarrow> vfs \<Rightarrow> (vfs \<times> open_file option \<times> status) option" where
  "console_init path v =
     do { (v, f) \<leftarrow> file_open path 0 v;
          case f of None \<Rightarrow> Some (v, None, Inl EFAULT) | Some f \<Rightarrow> Some (v, Some f, ok) }"

definition tty_init :: "bdev_ops \<Rightarrow> vfs \<Rightarrow> tty \<Rightarrow> (vfs \<times> tty \<times> open_file option \<times> status) option" where
  "tty_init tty_ops v s =
     do { (v, a) \<leftarrow> vmalloc CDEV_BYTES v;
          if a = 0 then Some (v, s, None, Inl ENOMEM)
          else do {
            (v, n) \<leftarrow> vfs_strdup (str ''tty'') v;
            if n = 0 then do { v \<leftarrow> vfree a v; Some (v, s, None, Inl EFAULT) }
            else do {
              (v, st) \<leftarrow> cdev_init \<lparr>cdev_name = ''tty'', cops = None\<rparr> tty_ops v;
              case st of
                Inl _ \<Rightarrow> do { v \<leftarrow> vfree n v; v \<leftarrow> vfree a v; Some (v, s, None, Inl EFAULT) }
              | Inr _ \<Rightarrow> do {
                  (v, f, st) \<leftarrow> console_init (str ''/dev/tty'') v;
                  Some (v, tty_clean None s, f, st) } } } }"

section \<open>Bytes and cells of the screen\<close>

definition cell :: "mem \<Rightarrow> nat \<Rightarrow> u16" where
  "cell m i = load16 m (TTY_BASE_ADDRESS + of_nat (2 * i))"

definition on_screen :: "u32 \<Rightarrow> bool" where
  "on_screen a \<longleftrightarrow> unat (a - TTY_BASE_ADDRESS) < 4000"

lemma byte_halves: "ucast (ucast v :: u8) OR push_bit 8 (ucast (ucast (drop_bit 8 v) :: u8)) = (v :: u16)"
  by (rule bit_eqI) (auto simp: bit_simps)

lemma rep_stosw_eq:
  assumes "2 * k < 2 ^ 32"
  shows "fst (rep_stosw k v (m, d)) a =
    (if unat (a - d) < 2 * k then (if even (unat (a - d)) then ucast v else ucast (drop_bit 8 v)) else m a)"
  using assms
proof (induction k arbitrary: m d)
  case (Suc k)
  have IH: "fst (rep_stosw k v (store16 m d v, d + 2)) a =
      (if unat (a - (d + 2)) < 2 * k then (if even (unat (a - (d + 2))) then ucast v else ucast (drop_bit 8 v))
       else store16 m d v a)"
    using Suc.IH Suc.prems by simp
  have sh: "unat (a - (d + 2)) = (if 2 \<le> unat (a - d) then unat (a - d) - 2 else unat (a - d) + 2 ^ 32 - 2)"
    using unat_shift [of 2 a d] by simp
  consider "a = d" | "a = d + 1" | "2 \<le> unat (a - d)"
  proof -
    assume *: "a = d \<Longrightarrow> thesis" "a = d + 1 \<Longrightarrow> thesis" "2 \<le> unat (a - d) \<Longrightarrow> thesis"
    have "unat (a - d) = 0 \<or> unat (a - d) = 1 \<or> 2 \<le> unat (a - d)" by linarith
    moreover have "unat (a - d) = 0 \<Longrightarrow> a = d" by (simp add: unat_eq_zero)
    moreover have "unat (a - d) = 1 \<Longrightarrow> a - d = 1" by (simp add: word_unat_eq_iff)
    ultimately show thesis using * by (metis add.commute diff_add_cancel)
  qed
  then show ?case
  proof cases
    case 3
    then have "a \<noteq> d" "a \<noteq> d + 1" by auto
    then have "store16 m d v a = m a" by (simp add: store16_def)
    moreover have "unat (a - d) - 2 < 2 * k \<longleftrightarrow> unat (a - d) < 2 * Suc k"
      "even (unat (a - d) - 2) \<longleftrightarrow> even (unat (a - d))" using 3 by auto
    ultimately show ?thesis using IH sh 3 by simp
  qed (use IH sh Suc.prems in \<open>simp_all add: store16_def\<close>)
qed simp

lemma screen_sub:
  assumes "i < 4096" "d < 4096"
  shows "unat ((TTY_BASE_ADDRESS + of_nat i) - (TTY_BASE_ADDRESS + of_nat d)) =
    (if d \<le> i then i - d else i + 2 ^ 32 - d)"
proof -
  have "unat (of_nat i :: u32) = i" using assms(1) by (intro unat_of_nat32) simp
  then show ?thesis using unat_shift [of d "of_nat i" 0] assms(2) by simp
qed

text \<open>Filling \<open>n\<close> cells from cell \<open>j\<close> on.\<close>

lemma memset16_cells:
  assumes "unat len = 2 * n" "j + n \<le> 2000" "i < 2000"
  shows "cell (memset16 m (TTY_BASE_ADDRESS + of_nat (2 * j)) v len) i =
    (if j \<le> i \<and> i < j + n then v else cell m i)"
proof -
  let ?d = "TTY_BASE_ADDRESS + of_nat (2 * j)"
  have k: "unat (drop_bit 1 len) = n" using assms(1) by (simp add: drop_bit_eq_div unat_div)
  have b: "memset16 m ?d v len (TTY_BASE_ADDRESS + of_nat x) =
      (if 2 * j \<le> x \<and> x < 2 * (j + n) then (if even (x - 2 * j) then ucast v else ucast (drop_bit 8 v))
       else m (TTY_BASE_ADDRESS + of_nat x))" if "x < 4000" for x
    unfolding memset16_def k
    by (subst rep_stosw_eq) (use assms that screen_sub [of x "2 * j"] in auto)
  have succ: "TTY_BASE_ADDRESS + of_nat (2 * i) + 1 = (TTY_BASE_ADDRESS + of_nat (2 * i + 1) :: u32)" by simp
  show ?thesis
    unfolding cell_def load16_def succ
    using b [of "2 * i"] b [of "2 * i + 1"] assms(3) byte_halves [of v] by auto
qed

lemma memset16_frame:
  assumes "unat len = 2 * n" "j + n \<le> 2000" "\<not> on_screen a"
  shows "memset16 m (TTY_BASE_ADDRESS + of_nat (2 * j)) v len a = m a"
proof -
  have k: "unat (drop_bit 1 len) = n" using assms(1) by (simp add: drop_bit_eq_div unat_div)
  have "unat (a - (TTY_BASE_ADDRESS + of_nat (2 * j))) =
      (if 2 * j \<le> unat (a - TTY_BASE_ADDRESS) then unat (a - TTY_BASE_ADDRESS) - 2 * j
       else unat (a - TTY_BASE_ADDRESS) + 2 ^ 32 - 2 * j)"
    using assms(2) by (intro unat_shift) simp
  then show ?thesis
    unfolding memset16_def k using assms(2,3) by (subst rep_stosw_eq) (auto simp: on_screen_def)
qed

section \<open>The terminal the console implements\<close>

text \<open>The cells row by row, the column and the line; \<open>attr\<close> makes a cell of a character.\<close>

type_synonym term_state = "u16 list \<times> nat \<times> nat"

definition term_put :: "(u8 \<Rightarrow> u16) \<Rightarrow> u8 \<Rightarrow> term_state \<Rightarrow> term_state" where
  "term_put attr c = (\<lambda>(cells, x, y).
     let (cells, y) = (if 25 \<le> y then (drop 80 cells @ replicate 80 (attr CONSOLE_CHAR_SPACE), 24) else (cells, y)) in
     if c = CONSOLE_CHAR_CRETURN then (cells, 0, y)
     else if c = CONSOLE_CHAR_NEWLINE then (cells, 0, y + 1)
     else
       let cells = cells[x + 80 * y := attr c] in
       if x = 79 then (cells, 0, y + 1) else (cells, x + 1, y))"

definition term_of :: "tty \<Rightarrow> term_state" where
  "term_of s = (map (cell (vram s)) [0..<2000], unat (xpos (cons s)), unat (ypos (cons s)))"

text \<open>A console of the size of the screen with the cursor on it, or below its last line.\<close>

definition wf_console :: "console \<Rightarrow> bool" where
  "wf_console c \<longleftrightarrow> fbaddr c = TTY_BASE_ADDRESS \<and> width c = 80 \<and> height c = 25 \<and> yunit c = 1 \<and> bpu c = 2 \<and>
     unat (xpos c) < 80 \<and> unat (ypos c) \<le> 25"

lemma unit_address:
  assumes "wf_console c" "unat x < 80" "unat y \<le> 25"
  shows "console_unit c x y = TTY_BASE_ADDRESS + of_nat (2 * (unat x + 80 * unat y))"
proof -
  have "x = of_nat (unat x)" "y = of_nat (unat y)" by simp_all
  then have "2 * (x + 80 * y) = (of_nat (2 * (unat x + 80 * unat y)) :: u32)"
    by (metis (no_types, lifting) of_nat_add of_nat_mult of_nat_numeral)
  then show ?thesis using assms(1) by (simp add: console_unit_def wf_console_def)
qed

definition same_outside :: "tty \<Rightarrow> tty \<Rightarrow> bool" where
  "same_outside s s' \<longleftrightarrow> (\<forall>a. \<not> on_screen a \<longrightarrow> vram s' a = vram s a) \<and>
     fgcolor (cons s') = fgcolor (cons s) \<and> bgcolor (cons s') = bgcolor (cons s)"

lemma same_outside_refl [simp]: "same_outside s s"
  and same_outside_trans: "same_outside s t \<Longrightarrow> same_outside t u \<Longrightarrow> same_outside s u"
  by (simp_all add: same_outside_def)

lemma tty_scroll_up:
  assumes "wf_console (cons s)"
  shows "map (cell (vram (tty_scroll CONSOLE_SCROLL_UP 1 s))) [0..<2000] =
      drop 80 (map (cell (vram s)) [0..<2000]) @ replicate 80 (tty_char (cons s) CONSOLE_CHAR_SPACE)"
    and "cons (tty_scroll CONSOLE_SCROLL_UP 1 s) = cons s" and "same_outside s (tty_scroll CONSOLE_SCROLL_UP 1 s)"
proof -
  let ?c = "cons s" and ?b = TTY_BASE_ADDRESS
  let ?blank = "tty_char ?c CONSOLE_CHAR_SPACE"
  have lines: "console_line ?c 0 = ?b" "console_line ?c 1 = ?b + of_nat 160" "console_line ?c 24 = ?b + of_nat (2 * 1920)"
    using assms by (simp_all add: console_line_def console_unit_def wf_console_def)
  have sizes: "height ?c - 1 = 24" "console_bpl ?c * 24 = of_nat 3840" "console_bpl ?c * 1 = of_nat 160"
    using assms by (simp_all add: console_bpl_def wf_console_def)
  define m where "m = copied (vram s) ?b (?b + of_nat 160) 3840"
  have "memmove (vram s) ?b (?b + of_nat 160) (of_nat 3840) = m"
    unfolding m_def by (subst memmove_copied) (simp_all add: TTY_BASE_ADDRESS_def)
  then have v: "vram (tty_scroll CONSOLE_SCROLL_UP 1 s) = memset16 m (?b + of_nat (2 * 1920)) ?blank (of_nat 160)"
    unfolding tty_scroll_def Let_def lines sizes by simp
  have byte: "m (?b + of_nat x) = (if x < 3840 then vram s (?b + of_nat (x + 160)) else vram s (?b + of_nat x))"
    if "x < 4000" for x
  proof -
    have "unat (of_nat x :: u32) = x" using that by (intro unat_of_nat32) simp
    then show ?thesis by (simp add: m_def copied_def algebra_simps)
  qed
  have cells: "cell m i = (if i < 1920 then cell (vram s) (i + 80) else cell (vram s) i)" if "i < 2000" for i
  proof -
    have succ: "?b + of_nat (2 * j) + 1 = ?b + of_nat (2 * j + 1)" for j by simp
    have "2 * (i + 80) = 2 * i + 160" "2 * (i + 80) + 1 = 2 * i + 1 + 160" by simp_all
    then show ?thesis
      unfolding cell_def load16_def succ using byte [of "2 * i"] byte [of "2 * i + 1"] that by auto
  qed
  have fill: "cell (vram (tty_scroll CONSOLE_SCROLL_UP 1 s)) i = (if 1920 \<le> i then ?blank else cell m i)"
    if "i < 2000" for i
    unfolding v using memset16_cells [of "of_nat 160" 80 1920 i m ?blank] that by simp
  show "map (cell (vram (tty_scroll CONSOLE_SCROLL_UP 1 s))) [0..<2000] =
      drop 80 (map (cell (vram s)) [0..<2000]) @ replicate 80 ?blank"
    by (rule nth_equalityI) (auto simp: fill cells nth_append add.commute)
  show "cons (tty_scroll CONSOLE_SCROLL_UP 1 s) = cons s" by (simp add: tty_scroll_def Let_def)
  have "m a = vram s a" if "\<not> on_screen a" for a
    using that by (simp add: m_def copied_def on_screen_def)
  then show "same_outside s (tty_scroll CONSOLE_SCROLL_UP 1 s)"
    unfolding same_outside_def v using memset16_frame [of "of_nat 160" 80 1920 _ m ?blank]
    by (simp add: tty_scroll_def Let_def)
qed

text \<open>One character, when the cursor is on a line of the screen.\<close>

lemma put_cell:
  assumes "wf_console (cons s)" "unat (ypos (cons s)) < 25"
    and "s' = s\<lparr>cons := c', vram := memset16 (vram s) (console_unit (cons s) (xpos (cons s)) (ypos (cons s))) v 2\<rparr>"
  shows "map (cell (vram s')) [0..<2000] =
      (map (cell (vram s)) [0..<2000])[unat (xpos (cons s)) + 80 * unat (ypos (cons s)) := v]"
    and "\<forall>a. \<not> on_screen a \<longrightarrow> vram s' a = vram s a"
proof -
  let ?j = "unat (xpos (cons s)) + 80 * unat (ypos (cons s))"
  have j: "?j + 1 \<le> 2000" "unat (xpos (cons s)) < 80" using assms(1,2) by (auto simp: wf_console_def)
  have u: "vram s' = memset16 (vram s) (TTY_BASE_ADDRESS + of_nat (2 * ?j)) v 2"
    using unit_address [OF assms(1) j(2), of "ypos (cons s)"] assms(2,3) by simp
  have "cell (vram s') i = (if i = ?j then v else cell (vram s) i)" if "i < 2000" for i
    unfolding u using memset16_cells [of 2 1 ?j i "vram s" v] j(1) that by auto
  then show "map (cell (vram s')) [0..<2000] = (map (cell (vram s)) [0..<2000])[?j := v]"
    by (intro nth_equalityI) (auto simp: nth_list_update)
  show "\<forall>a. \<not> on_screen a \<longrightarrow> vram s' a = vram s a"
    unfolding u using memset16_frame [of 2 1 ?j _ "vram s" v] j(1) by simp
qed

lemma cursor_simps [simp]:
  "cons (tty_cursor_update s) = cons s" "vram (tty_cursor_update s) = vram s"
  by (simp_all add: tty_cursor_update_def out_def Let_def)

definition scrolled :: "tty \<Rightarrow> tty" where
  "scrolled s =
     (let s = (if ypos (cons s) \<ge> height (cons s)
               then upd_cons (\<lambda>c. c\<lparr>ypos := ypos c - yunit c\<rparr>) (tty_scroll CONSOLE_SCROLL_UP 1 s) else s)
      in if active (cons s) \<noteq> 0 then tty_cursor_update s else s)"

lemma scrolled_simulates:
  assumes "wf_console (cons s)"
  shows "wf_console (cons (scrolled s))" "unat (ypos (cons (scrolled s))) < 25" "same_outside s (scrolled s)"
    "term_of (scrolled s) = (let (cells, x, y) = term_of s in
       if 25 \<le> y then (drop 80 cells @ replicate 80 (tty_char (cons s) CONSOLE_CHAR_SPACE), x, 24) else (cells, x, y))"
proof -
  have y: "unat (ypos (cons s)) \<le> 25" using assms by (simp add: wf_console_def)
  have h: "ypos (cons s) \<ge> height (cons s) \<longleftrightarrow> 25 \<le> unat (ypos (cons s))"
    using assms by (simp add: wf_console_def word_le_nat_alt)
  have dec: "unat (ypos (cons s) - 1) = 24" if "25 \<le> unat (ypos (cons s))"
    using that y unat_minus_le [of 1 "ypos (cons s)"] by (simp add: word_le_nat_alt)
  note scroll = tty_scroll_up [OF assms]
  show "wf_console (cons (scrolled s))" "unat (ypos (cons (scrolled s))) < 25"
    using assms h dec scroll(2) y by (auto simp: scrolled_def Let_def upd_cons_def wf_console_def)
  show "same_outside s (scrolled s)"
    using scroll(2,3) by (simp add: scrolled_def Let_def upd_cons_def same_outside_def)
  show "term_of (scrolled s) = (let (cells, x, y) = term_of s in
       if 25 \<le> y then (drop 80 cells @ replicate 80 (tty_char (cons s) CONSOLE_CHAR_SPACE), x, 24) else (cells, x, y))"
    using assms h dec scroll(1,2) by (simp add: scrolled_def Let_def upd_cons_def term_of_def wf_console_def)
qed

lemma tty_put_simulates:
  assumes "wf_console (cons s)"
  shows "wf_console (cons (tty_put c s)) \<and> same_outside s (tty_put c s) \<and>
    term_of (tty_put c s) = term_put (tty_char (cons s)) c (term_of s)"
proof -
  define t where "t = scrolled s"
  note sc = scrolled_simulates [OF assms, folded t_def]
  have put: "tty_put c s =
      (if c = CONSOLE_CHAR_CRETURN then upd_cons (\<lambda>c. c\<lparr>xpos := 0\<rparr>) t
       else if c = CONSOLE_CHAR_NEWLINE then upd_cons (\<lambda>c. c\<lparr>xpos := 0, ypos := ypos c + yunit c\<rparr>) t
       else
         let k = cons t; u = console_unit k (xpos k) (ypos k);
             s = upd_cons (\<lambda>c. c\<lparr>xpos := xpos c + 1\<rparr>) t;
             s = s\<lparr>vram := memset16 (vram s) u (tty_char k c) 2\<rparr>
         in if xpos (cons s) \<ge> TTY_MAX_WIDTH
            then upd_cons (\<lambda>c. c\<lparr>xpos := 0, ypos := ypos c + 1\<rparr>) s else s)"
    by (simp only: tty_put_def scrolled_def t_def Let_def)
  have ch: "tty_char (cons t) = tty_char (cons s)"
    using sc(3) by (intro ext) (simp add: same_outside_def tty_char_def)
  have y: "unat (ypos (cons t) + 1) = unat (ypos (cons t)) + 1"
    using sc(2) unat_plus_lt [of "ypos (cons t)" 1] by simp
  have x: "unat (xpos (cons t) + 1) = unat (xpos (cons t)) + 1" "unat (xpos (cons t)) < 80"
    using sc(1) unat_plus_lt [of "xpos (cons t)" 1] by (simp_all add: wf_console_def)
  have wrap: "TTY_MAX_WIDTH \<le> xpos (cons t) + 1 \<longleftrightarrow> unat (xpos (cons t)) = 79"
    using x by (auto simp: TTY_MAX_WIDTH_def word_le_nat_alt)
  have same: "same_outside s u" if "\<forall>a. \<not> on_screen a \<longrightarrow> vram u a = vram t a"
    "fgcolor (cons u) = fgcolor (cons t)" "bgcolor (cons u) = bgcolor (cons t)" for u
    using sc(3) that by (simp add: same_outside_def)
  consider "c = CONSOLE_CHAR_CRETURN" | "c = CONSOLE_CHAR_NEWLINE" "c \<noteq> CONSOLE_CHAR_CRETURN"
    | "c \<noteq> CONSOLE_CHAR_NEWLINE" "c \<noteq> CONSOLE_CHAR_CRETURN" by blast
  then show ?thesis
  proof cases
    case 1
    then show ?thesis
      using put sc(1,2,4) same [of "tty_put c s"]
      by (auto simp: upd_cons_def term_of_def term_put_def wf_console_def Let_def split: if_splits)
  next
    case 2
    then show ?thesis
      using put sc(1,2,4) same [of "tty_put c s"] y
      by (auto simp: upd_cons_def term_of_def term_put_def wf_console_def Let_def split: if_splits)
  next
    case 3
    define u where "u = t\<lparr>cons := (cons t)\<lparr>xpos := xpos (cons t) + 1\<rparr>,
      vram := memset16 (vram t) (console_unit (cons t) (xpos (cons t)) (ypos (cons t))) (tty_char (cons t) c) 2\<rparr>"
    note cl = put_cell [OF sc(1,2) u_def]
    have p: "tty_put c s = (if unat (xpos (cons t)) = 79
        then u\<lparr>cons := (cons u)\<lparr>xpos := 0, ypos := ypos (cons u) + 1\<rparr>\<rparr> else u)"
      using put 3 wrap by (simp add: Let_def upd_cons_def u_def)
    have cu: "cons u = (cons t)\<lparr>xpos := xpos (cons t) + 1\<rparr>" by (simp add: u_def)
    have "wf_console (cons (tty_put c s))"
      using p sc(1,2) x y by (auto simp: cu wf_console_def)
    moreover have "same_outside s (tty_put c s)"
      using p cl(2) by (intro same) (simp_all add: cu)
    moreover have "term_of (tty_put c s) = term_put (tty_char (cons s)) c (term_of s)"
      using p cl(1) sc(4) 3 x y ch by (auto simp: cu term_of_def term_put_def Let_def simp del: map_eq_conv split: if_splits)
    ultimately show ?thesis by blast
  qed
qed

section \<open>Properties\<close>

lemma tty_write_loop_simulates:
  assumes "wf_console (cons s)" "\<forall>i<length bytes. vram s (buf + of_nat i) = bytes ! i" "0 \<notin> set bytes"
    "n = length bytes \<or> length bytes < n \<and> vram s (buf + of_nat (length bytes)) = 0"
    "\<forall>i\<le>length bytes. \<not> on_screen (buf + of_nat i)"
  shows "wf_console (cons (tty_write_loop n buf s)) \<and> same_outside s (tty_write_loop n buf s) \<and>
    term_of (tty_write_loop n buf s) = fold (term_put (tty_char (cons s))) bytes (term_of s)"
  using assms
proof (induction bytes arbitrary: n buf s)
  case Nil
  then show ?case by (cases n) auto
next
  case (Cons c bytes)
  obtain m where m: "n = Suc m" using Cons.prems(4) by (cases n) auto
  have c: "vram s buf = c" "c \<noteq> 0" using Cons.prems(2) [rule_format, of 0] Cons.prems(3) by auto
  let ?t = "tty_put c s"
  note put = tty_put_simulates [OF Cons.prems(1), of c]
  have shift: "buf + 1 + of_nat i = buf + of_nat (Suc i)" for i by simp
  have keep: "vram ?t (buf + of_nat i) = vram s (buf + of_nat i)" if "i \<le> Suc (length bytes)" for i
    using put Cons.prems(5) that by (simp add: same_outside_def)
  have "wf_console (cons (tty_write_loop m (buf + 1) ?t)) \<and> same_outside ?t (tty_write_loop m (buf + 1) ?t) \<and>
    term_of (tty_write_loop m (buf + 1) ?t) = fold (term_put (tty_char (cons ?t))) bytes (term_of ?t)"
  proof (rule Cons.IH)
    show "wf_console (cons ?t)" using put by simp
    show "\<forall>i<length bytes. vram ?t (buf + 1 + of_nat i) = bytes ! i"
      unfolding shift using keep Cons.prems(2) by (metis Suc_leI Suc_less_eq le_Suc_eq length_Cons nth_Cons_Suc)
    show "0 \<notin> set bytes" using Cons.prems(3) by simp
    show "m = length bytes \<or> length bytes < m \<and> vram ?t (buf + 1 + of_nat (length bytes)) = 0"
      unfolding shift using keep [of "Suc (length bytes)"] Cons.prems(4) m by auto
    show "\<forall>i\<le>length bytes. \<not> on_screen (buf + 1 + of_nat i)"
      unfolding shift using Cons.prems(5) by (metis Suc_le_mono length_Cons)
  qed
  moreover have "tty_char (cons ?t) = tty_char (cons s)"
    using put by (intro ext) (simp add: same_outside_def tty_char_def)
  ultimately show ?case using c m put same_outside_trans by auto
qed

text \<open>
  C19: writing a text makes the screen what a terminal of 80 columns and 25 lines makes of it character
  by character, with line wrap, carriage return, newline and scrolling; the cursor stays on the screen
  and no byte outside of the screen is written.
\<close>

theorem tty_write_refines_terminal:
  assumes "wf_console (cons s)" and "0 \<notin> set bytes"
    and "\<forall>i<length bytes. vram s (buf + of_nat i) = bytes ! i" and "\<forall>i\<le>length bytes. \<not> on_screen (buf + of_nat i)"
    and "unat len = length bytes \<or> length bytes < unat len \<and> vram s (buf + of_nat (length bytes)) = 0"
  shows "\<exists>s'. tty_write 0 len buf s = Some (s', 0) \<and>
    term_of s' = fold (term_put (tty_char (cons s))) bytes (term_of s) \<and> wf_console (cons s') \<and>
    (\<forall>a. \<not> on_screen a \<longrightarrow> vram s' a = vram s a)"
  using tty_write_loop_simulates [OF assms(1,3,2,5,4)] by (simp add: tty_write_def same_outside_def)

definition demo_tty :: tty where
  "demo_tty = \<lparr>cons = tty_console, vram = (\<lambda>_. 0)(0x1000 := 72, 0x1001 := 105), outs = [], port_in = (\<lambda>_ _. 0)\<rparr>"

theorem tty_write_refines_terminal_witness:
  "\<exists>s'. tty_write 0 10 0x1000 demo_tty = Some (s', 0) \<and> cell (vram s') 0 = 0x748 \<and> cell (vram s') 1 = 0x769 \<and>
     unat (xpos (cons s')) = 2"
proof -
  have wf: "wf_console (cons demo_tty)"
    by (simp add: demo_tty_def tty_console_def wf_console_def TTY_MAX_WIDTH_def TTY_MAX_HEIGHT_def)
  have bytes: "\<forall>i<length [72, 105 :: u8]. vram demo_tty (0x1000 + of_nat i) = [72, 105] ! i"
    by (auto simp: demo_tty_def less_Suc_eq numeral_2_eq_2)
  have out: "\<forall>i\<le>length [72, 105 :: u8]. \<not> on_screen (0x1000 + of_nat i)"
  proof (intro allI impI)
    fix i assume "i \<le> length [72, 105 :: u8]"
    then have "i = 0 \<or> i = 1 \<or> i = 2" by auto
    then show "\<not> on_screen (0x1000 + of_nat i)" by (auto simp: on_screen_def TTY_BASE_ADDRESS_def)
  qed
  have stop: "vram demo_tty (0x1000 + of_nat (length [72, 105 :: u8])) = 0" by (simp add: demo_tty_def)
  obtain s' where s': "tty_write 0 10 0x1000 demo_tty = Some (s', 0)"
    "term_of s' = fold (term_put (tty_char (cons demo_tty))) [72, 105] (term_of demo_tty)"
    using tty_write_refines_terminal [OF wf _ bytes out, of 10] stop by auto
  define cells where "cells = map (cell (vram demo_tty)) [0..<2000]"
  have start: "term_of demo_tty = (cells, 0, 0)"
    by (simp add: term_of_def cells_def demo_tty_def tty_console_def)
  have put: "term_put (tty_char (cons demo_tty)) c (cs, x, 0) = (cs[x := 0x700 OR ucast c], x + 1, 0)"
    if "c = 72 \<or> c = 105" "x < 2" for c cs x
    using that by (auto simp: term_put_def Let_def tty_char_def vga_color_def demo_tty_def tty_console_def
        COLOR_VGA_GRAY_def COLOR_VGA_BLACK_def CONSOLE_CHAR_CRETURN_def CONSOLE_CHAR_NEWLINE_def)
  have "term_of s' = (cells[0 := 0x748, 1 := 0x769], 2, 0)"
    using s'(2) by (simp add: start put)
  then have m: "map (cell (vram s')) [0..<2000] = cells[0 := 0x748, 1 := 0x769]" and x: "unat (xpos (cons s')) = 2"
    by (simp_all add: term_of_def del: map_eq_conv)
  have "map (cell (vram s')) [0..<2000] ! 0 = 0x748" "map (cell (vram s')) [0..<2000] ! 1 = 0x769"
    unfolding m by (simp_all add: cells_def)
  then have "cell (vram s') 0 = 0x748" "cell (vram s') 1 = 0x769" by simp_all
  with s'(1) x show ?thesis by blast
qed

end
