(* ===== verification/Pci.thy ===== *)
theory Pci
  imports Prelude
begin

text \<open>
  The PCI bus \<^verbatim>\<open>src/core/pci.c\<close>: access to the configuration space through its two ports, the
  enumeration of the devices, bridges included, and the search for a device. What the ports give is a
  parameter, the hardware: a function of the address register, the port and nothing else, since the
  configuration does not change while the bus is scanned. Writes to the ports are a log. The device
  records come from an allocator \<open>alloc\<close> on a heap \<open>'h\<close>, \<^verbatim>\<open>bmalloc\<close> of the size of a record, which may
  fail with the address 0.
\<close>

section \<open>Configuration space\<close>

definition PCI_NUM_FUNCS :: nat where "PCI_NUM_FUNCS = 8"
definition PCI_NUM_SLOTS :: nat where "PCI_NUM_SLOTS = 32"
definition PCI_NUM_BUSES :: nat where "PCI_NUM_BUSES = 256"
definition PCI_CONFIG_ADDR :: u16 where "PCI_CONFIG_ADDR = 0xcf8"
definition PCI_CONFIG_DATA :: u16 where "PCI_CONFIG_DATA = 0xcfc"
definition PCI_VENDOR :: u8 where "PCI_VENDOR = 0x00"
definition PCI_DEVICE :: u8 where "PCI_DEVICE = 0x02"
definition PCI_COMMAND :: u8 where "PCI_COMMAND = 0x04"
definition PCI_STATUS :: u8 where "PCI_STATUS = 0x06"
definition PCI_REVISION :: u8 where "PCI_REVISION = 0x08"
definition PCI_SUBCLASS :: u8 where "PCI_SUBCLASS = 0x0A"
definition PCI_CLASS :: u8 where "PCI_CLASS = 0x0B"
definition PCI_HEADER_TYPE :: u8 where "PCI_HEADER_TYPE = 0x0E"
definition PCI_BAR0 :: u8 where "PCI_BAR0 = 0x10"
definition PCI_SUBVENDOR :: u8 where "PCI_SUBVENDOR = 0x2C"
definition PCI_SUBDEVICE :: u8 where "PCI_SUBDEVICE = 0x2E"
definition PCI_SECONDARY_BUS :: u8 where "PCI_SECONDARY_BUS = 0x19"
definition PCI_INVALID_DEVICE :: u32 where "PCI_INVALID_DEVICE = NOT 0"
definition PCI_ANY_ID :: u32 where "PCI_ANY_ID = NOT 0"
definition PCI_COMMAND_BUSMASTER :: u16 where "PCI_COMMAND_BUSMASTER = 4"
definition PCI_CLASS_MASK :: u32 where "PCI_CLASS_MASK = NOT (0x100 - 1)"
definition PCI_CLASS_BRIDGE :: u8 where "PCI_CLASS_BRIDGE = 0x06"
definition PCI_SUBCLASS_BRIDGE_PCI :: u8 where "PCI_SUBCLASS_BRIDGE_PCI = 0x04"

record hardware =
  in8 :: "u32 \<Rightarrow> u16 \<Rightarrow> u8"
  in16 :: "u32 \<Rightarrow> u16 \<Rightarrow> u16"
  in32 :: "u32 \<Rightarrow> u16 \<Rightarrow> u32"

record pci_address =
  bus :: u16
  slot :: u16
  func :: u16

definition PCI_CONFIG_REGISTER :: "u8 \<Rightarrow> u8 \<Rightarrow> u8 \<Rightarrow> u8 \<Rightarrow> u32" where
  "PCI_CONFIG_REGISTER b s f off =
     push_bit 31 1 OR push_bit 16 (ucast b) OR push_bit 11 (ucast s) OR push_bit 8 (ucast f) OR ucast off"

definition read_pci_config_byte :: "hardware \<Rightarrow> u8 \<Rightarrow> u8 \<Rightarrow> u8 \<Rightarrow> u8 \<Rightarrow> u8" where
  "read_pci_config_byte hw b s f off = in8 hw (PCI_CONFIG_REGISTER b s f off) (PCI_CONFIG_DATA + ucast (off AND 3))"

definition read_pci_config_word :: "hardware \<Rightarrow> u8 \<Rightarrow> u8 \<Rightarrow> u8 \<Rightarrow> u8 \<Rightarrow> u16" where
  "read_pci_config_word hw b s f off = in16 hw (PCI_CONFIG_REGISTER b s f off) (PCI_CONFIG_DATA + ucast (off AND 2))"

definition read_pci_config_long :: "hardware \<Rightarrow> u8 \<Rightarrow> u8 \<Rightarrow> u8 \<Rightarrow> u8 \<Rightarrow> u32" where
  "read_pci_config_long hw b s f off = in32 hw (PCI_CONFIG_REGISTER b s f off) PCI_CONFIG_DATA"

text \<open>
  The writes: \<^verbatim>\<open>outb\<close>, \<^verbatim>\<open>outw\<close> and \<^verbatim>\<open>outl\<close> take the port first and the value second; the calls
  of the data writes pass the value first.
\<close>

datatype io_write = Outb u16 u8 | Outw u16 u16 | Outl u16 u32

definition write_pci_config_byte :: "u8 \<Rightarrow> u8 \<Rightarrow> u8 \<Rightarrow> u8 \<Rightarrow> u8 \<Rightarrow> io_write list" where
  "write_pci_config_byte b s f off v =
     [Outl PCI_CONFIG_ADDR (PCI_CONFIG_REGISTER b s f off), Outb (ucast v) (ucast (PCI_CONFIG_DATA + ucast (off AND 3)))]"

definition write_pci_config_word :: "u8 \<Rightarrow> u8 \<Rightarrow> u8 \<Rightarrow> u8 \<Rightarrow> u16 \<Rightarrow> io_write list" where
  "write_pci_config_word b s f off v =
     [Outl PCI_CONFIG_ADDR (PCI_CONFIG_REGISTER b s f off), Outw v (PCI_CONFIG_DATA + ucast (off AND 2))]"

definition write_pci_config_long :: "u8 \<Rightarrow> u8 \<Rightarrow> u8 \<Rightarrow> u8 \<Rightarrow> u32 \<Rightarrow> io_write list" where
  "write_pci_config_long b s f off v =
     [Outl PCI_CONFIG_ADDR (PCI_CONFIG_REGISTER b s f off), Outl (ucast v) (ucast PCI_CONFIG_DATA)]"

text \<open>The same by the address of a device, whose fields have 16 bits and are cut.\<close>

definition pci_read_config_byte :: "hardware \<Rightarrow> pci_address \<Rightarrow> u8 \<Rightarrow> u8" where
  "pci_read_config_byte hw a off = read_pci_config_byte hw (ucast (bus a)) (ucast (slot a)) (ucast (func a)) off"

definition pci_read_config_word :: "hardware \<Rightarrow> pci_address \<Rightarrow> u8 \<Rightarrow> u16" where
  "pci_read_config_word hw a off = read_pci_config_word hw (ucast (bus a)) (ucast (slot a)) (ucast (func a)) off"

definition pci_read_config_long :: "hardware \<Rightarrow> pci_address \<Rightarrow> u8 \<Rightarrow> u32" where
  "pci_read_config_long hw a off = read_pci_config_long hw (ucast (bus a)) (ucast (slot a)) (ucast (func a)) off"

definition pci_write_config_byte :: "pci_address \<Rightarrow> u8 \<Rightarrow> u8 \<Rightarrow> io_write list" where
  "pci_write_config_byte a off v = write_pci_config_byte (ucast (bus a)) (ucast (slot a)) (ucast (func a)) off v"

definition pci_write_config_word :: "pci_address \<Rightarrow> u8 \<Rightarrow> u16 \<Rightarrow> io_write list" where
  "pci_write_config_word a off v = write_pci_config_word (ucast (bus a)) (ucast (slot a)) (ucast (func a)) off v"

definition pci_write_config_long :: "pci_address \<Rightarrow> u8 \<Rightarrow> u32 \<Rightarrow> io_write list" where
  "pci_write_config_long a off v = write_pci_config_long (ucast (bus a)) (ucast (slot a)) (ucast (func a)) off v"

definition pci_probe_byte :: "hardware \<Rightarrow> pci_address \<Rightarrow> u8 \<Rightarrow> u8 \<Rightarrow> bool" where
  "pci_probe_byte hw a off v = (pci_read_config_byte hw a off = v)"

definition pci_probe_word :: "hardware \<Rightarrow> pci_address \<Rightarrow> u8 \<Rightarrow> u16 \<Rightarrow> bool" where
  "pci_probe_word hw a off v = (pci_read_config_word hw a off = v)"

definition pci_probe_long :: "hardware \<Rightarrow> pci_address \<Rightarrow> u8 \<Rightarrow> u32 \<Rightarrow> bool" where
  "pci_probe_long hw a off v = (pci_read_config_long hw a off = v)"

definition pci_probe_device :: "hardware \<Rightarrow> pci_address \<Rightarrow> bool" where
  "pci_probe_device hw a = pci_probe_long hw a PCI_VENDOR PCI_INVALID_DEVICE"

definition pci_probe_class :: "hardware \<Rightarrow> pci_address \<Rightarrow> u8 \<Rightarrow> bool" where
  "pci_probe_class hw a c = pci_probe_byte hw a PCI_CLASS c"

definition pci_probe_subclass :: "hardware \<Rightarrow> pci_address \<Rightarrow> u8 \<Rightarrow> bool" where
  "pci_probe_subclass hw a c = pci_probe_byte hw a PCI_SUBCLASS c"

lemmas pci_config_access = pci_probe_device_def pci_probe_class_def pci_probe_subclass_def pci_probe_byte_def
  pci_probe_word_def pci_probe_long_def pci_read_config_byte_def pci_read_config_word_def pci_read_config_long_def
  pci_write_config_byte_def pci_write_config_word_def pci_write_config_long_def
  read_pci_config_byte_def read_pci_config_word_def read_pci_config_long_def
  write_pci_config_byte_def write_pci_config_word_def write_pci_config_long_def

definition pci_probe_multifunction :: "hardware \<Rightarrow> pci_address \<Rightarrow> bool" where
  "pci_probe_multifunction hw a = (pci_read_config_byte hw a PCI_HEADER_TYPE AND 0x80 \<noteq> 0)"

section \<open>Devices\<close>

record pci_dev =
  ptr :: u32
  addr :: pci_address
  vendor :: u16
  device_id :: u16
  command :: u16
  status_reg :: u16
  classrv :: u32
  bar :: "u32 list"
  subvendor :: u32
  subdevice :: u32
  dparent :: u32

definition pci_set_master :: "hardware \<Rightarrow> pci_dev \<Rightarrow> io_write list" where
  "pci_set_master hw d =
     (let cmd = pci_read_config_word hw (addr d) PCI_COMMAND in
      if cmd AND PCI_COMMAND_BUSMASTER \<noteq> 0 then []
      else pci_write_config_word (addr d) PCI_COMMAND (cmd OR PCI_COMMAND_BUSMASTER))"

record pci_dev_id =
  id_vendor :: u32
  id_device :: u32
  id_subvendor :: u32
  id_subdevice :: u32
  id_class :: u32

definition pci_match :: "pci_dev_id \<Rightarrow> pci_dev \<Rightarrow> bool" where
  "pci_match i d =
     ((id_vendor i = PCI_ANY_ID \<or> id_vendor i = ucast (vendor d)) \<and>
      (id_device i = PCI_ANY_ID \<or> id_device i = ucast (device_id d)) \<and>
      (id_subvendor i = PCI_ANY_ID \<or> id_subvendor i = subvendor d) \<and>
      (id_subdevice i = PCI_ANY_ID \<or> id_subdevice i = subdevice d) \<and>
      (id_class i XOR classrv d) AND PCI_CLASS_MASK = 0)"

text \<open>
  The search over the list \<open>devs\<close>, newest first. From a device on it goes round the ring and takes the
  head of the list for a device when nothing behind the device matches: undefined, the outer None.
\<close>

definition pci_get_subsys :: "pci_dev list \<Rightarrow> pci_dev_id \<Rightarrow> pci_dev option \<Rightarrow> pci_dev option option" where
  "pci_get_subsys devs i from =
     (case from of
        None \<Rightarrow> Some (find (pci_match i) devs)
      | Some d \<Rightarrow> (case find (pci_match i) (drop 1 (dropWhile (\<lambda>x. x \<noteq> d) devs)) of
            None \<Rightarrow> None | Some e \<Rightarrow> Some (Some e)))"

definition pci_get_device :: "pci_dev list \<Rightarrow> u16 \<Rightarrow> u16 \<Rightarrow> pci_dev option \<Rightarrow> pci_dev option option" where
  "pci_get_device devs v d =
     pci_get_subsys devs \<lparr>id_vendor = ucast v, id_device = ucast d, id_subvendor = PCI_ANY_ID,
       id_subdevice = PCI_ANY_ID, id_class = PCI_ANY_ID\<rparr>"

definition pci_get_class :: "pci_dev list \<Rightarrow> u32 \<Rightarrow> pci_dev option \<Rightarrow> pci_dev option option" where
  "pci_get_class devs c =
     pci_get_subsys devs \<lparr>id_vendor = PCI_ANY_ID, id_device = PCI_ANY_ID, id_subvendor = PCI_ANY_ID,
       id_subdevice = PCI_ANY_ID, id_class = c\<rparr>"

definition pci_find_device :: "pci_dev list \<Rightarrow> u16 \<Rightarrow> u16 \<Rightarrow> u16 \<Rightarrow> pci_dev option" where
  "pci_find_device devs b s f = find (\<lambda>d. addr d = \<lparr>bus = b, slot = s, func = f\<rparr>) devs"

section \<open>Enumeration\<close>

record 'h pci =
  pci_devs :: "pci_dev list"
  heap :: 'h

definition read_device :: "hardware \<Rightarrow> pci_address \<Rightarrow> u32 \<Rightarrow> u32 \<Rightarrow> pci_dev" where
  "read_device hw a p parent =
     \<lparr>ptr = p, addr = a,
      vendor = pci_read_config_word hw a PCI_VENDOR,
      device_id = pci_read_config_word hw a PCI_DEVICE,
      command = pci_read_config_word hw a PCI_COMMAND,
      status_reg = pci_read_config_word hw a PCI_STATUS,
      classrv = pci_read_config_long hw a PCI_REVISION,
      bar = map (\<lambda>i. pci_read_config_long hw a (PCI_BAR0 + 4 * of_nat i)) [0..<6],
      subvendor = ucast (pci_read_config_word hw a PCI_SUBVENDOR),
      subdevice = ucast (pci_read_config_word hw a PCI_SUBDEVICE),
      dparent = parent\<rparr>"

text \<open>
  The functions call each other in a circle through the bridges. \<open>probe\<close> is
  \<^verbatim>\<open>pci_probe_bus\<close> for the bus and the parent it is called with; the circle is closed below.
\<close>

type_synonym 'h probe = "u16 \<Rightarrow> u32 \<Rightarrow> 'h pci \<Rightarrow> 'h pci option"

definition pci_probe_bridge :: "hardware \<Rightarrow> 'h probe \<Rightarrow> pci_address \<Rightarrow> u32 \<Rightarrow> 'h pci \<Rightarrow> 'h pci option" where
  "pci_probe_bridge hw probe a parent s =
     (if pci_probe_class hw a PCI_CLASS_BRIDGE \<and> pci_probe_subclass hw a PCI_SUBCLASS_BRIDGE_PCI
      then probe (ucast (pci_read_config_byte hw a PCI_SECONDARY_BUS)) parent s
      else Some s)"

definition pci_alloc_device :: "hardware \<Rightarrow> ('h \<Rightarrow> 'h \<times> u32) \<Rightarrow> 'h probe \<Rightarrow> pci_address \<Rightarrow> u32 \<Rightarrow>
    'h pci \<Rightarrow> 'h pci option" where
  "pci_alloc_device hw alloc probe a parent s =
     (let (h, p) = alloc (heap s); s = s\<lparr>heap := h\<rparr> in
      if p = 0 then Some s
      else pci_probe_bridge hw probe a p (s\<lparr>pci_devs := read_device hw a p parent # pci_devs s\<rparr>))"

definition pci_probe_func :: "hardware \<Rightarrow> ('h \<Rightarrow> 'h \<times> u32) \<Rightarrow> 'h probe \<Rightarrow> pci_address \<Rightarrow> u32 \<Rightarrow>
    'h pci \<Rightarrow> 'h pci option" where
  "pci_probe_func hw alloc probe a parent s =
     (if pci_probe_device hw a then Some s
      else if pci_find_device (pci_devs s) (bus a) (slot a) (func a) \<noteq> None then Some s
      else pci_alloc_device hw alloc probe a parent s)"

text \<open>\<open>each f xs s\<close> runs \<open>f x\<close> for every \<open>x\<close> in turn.\<close>

fun each :: "('x \<Rightarrow> 's \<Rightarrow> 's option) \<Rightarrow> 'x list \<Rightarrow> 's \<Rightarrow> 's option" where
  "each f [] s = Some s"
| "each f (x # xs) s = (case f x s of None \<Rightarrow> None | Some s \<Rightarrow> each f xs s)"

definition at :: "u16 \<Rightarrow> nat \<Rightarrow> nat \<Rightarrow> pci_address" where
  "at b i f = \<lparr>bus = b, slot = of_nat i, func = of_nat f\<rparr>"

definition pci_probe_slot :: "hardware \<Rightarrow> ('h \<Rightarrow> 'h \<times> u32) \<Rightarrow> 'h probe \<Rightarrow> u16 \<Rightarrow> u32 \<Rightarrow> nat \<Rightarrow>
    'h pci \<Rightarrow> 'h pci option" where
  "pci_probe_slot hw alloc probe b parent i s =
     (if pci_probe_device hw (at b i 0) then Some s
      else case pci_probe_func hw alloc probe (at b i 0) parent s of
          None \<Rightarrow> None
        | Some s \<Rightarrow>
            if \<not> pci_probe_multifunction hw (at b i 0) then Some s
            else each (\<lambda>f. pci_probe_func hw alloc probe (at b i f) parent) [1..<PCI_NUM_FUNCS] s)"

text \<open>\<^verbatim>\<open>pci_probe_bus\<close>; \<open>n\<close> bounds the depth of the recursion.\<close>

fun pci_probe_bus :: "hardware \<Rightarrow> ('h \<Rightarrow> 'h \<times> u32) \<Rightarrow> nat \<Rightarrow> 'h probe" where
  "pci_probe_bus hw alloc 0 b parent s = None"
| "pci_probe_bus hw alloc (Suc n) b parent s =
     each (pci_probe_slot hw alloc (pci_probe_bus hw alloc n) b parent) [0..<PCI_NUM_SLOTS] s"

definition pci_init :: "hardware \<Rightarrow> ('h \<Rightarrow> 'h \<times> u32) \<Rightarrow> nat \<Rightarrow> 'h pci \<Rightarrow> 'h pci option" where
  "pci_init hw alloc n s =
     (if \<not> pci_probe_multifunction hw (at 0 0 0) then pci_probe_bus hw alloc n 0 0 s
      else each (\<lambda>b. pci_probe_bus hw alloc n (of_nat b) 0) [0..<PCI_NUM_BUSES] s)"

section \<open>What the enumeration finds\<close>

definition found :: "'h pci \<Rightarrow> pci_address set" where
  "found s = addr ` set (pci_devs s)"

text \<open>The addresses there are: bus, slot and function in their ranges.\<close>

definition addresses :: "pci_address set" where
  "addresses = (\<lambda>(b, i, f). at (of_nat b) i f) ` ({..<256} \<times> {..<32} \<times> {..<8})"

lemma addresses_finite: "finite addresses" "card addresses \<le> 65536"
proof -
  show "finite addresses" by (simp add: addresses_def)
  have "card addresses \<le> card ({..<256 :: nat} \<times> {..<32 :: nat} \<times> {..<8 :: nat})"
    unfolding addresses_def by (rule card_image_le) simp
  then show "card addresses \<le> 65536" by simp
qed

text \<open>Every listed device answers, is listed once, and its record holds what was read.\<close>

definition sound :: "hardware \<Rightarrow> 'h pci \<Rightarrow> bool" where
  "sound hw s \<longleftrightarrow> distinct (map addr (pci_devs s)) \<and> found s \<subseteq> addresses \<and>
     (\<forall>d \<in> set (pci_devs s). \<not> pci_probe_device hw (addr d) \<and> d = read_device hw (addr d) (ptr d) (dparent d))"

definition is_bridge :: "hardware \<Rightarrow> pci_address \<Rightarrow> bool" where
  "is_bridge hw a \<longleftrightarrow> pci_probe_class hw a PCI_CLASS_BRIDGE \<and> pci_probe_subclass hw a PCI_SUBCLASS_BRIDGE_PCI"

definition secondary :: "hardware \<Rightarrow> pci_address \<Rightarrow> u16" where
  "secondary hw a = ucast (pci_read_config_byte hw a PCI_SECONDARY_BUS)"

text \<open>Every function of a bus that answers as the specification asks is among the addresses \<open>F\<close>.\<close>

definition slot_complete :: "hardware \<Rightarrow> pci_address set \<Rightarrow> u16 \<Rightarrow> nat \<Rightarrow> bool" where
  "slot_complete hw F b i \<longleftrightarrow> \<not> pci_probe_device hw (at b i 0) \<longrightarrow>
     at b i 0 \<in> F \<and>
     (pci_probe_multifunction hw (at b i 0) \<longrightarrow>
        (\<forall>f<8. \<not> pci_probe_device hw (at b i f) \<longrightarrow> at b i f \<in> F))"

definition bus_complete :: "hardware \<Rightarrow> pci_address set \<Rightarrow> u16 \<Rightarrow> bool" where
  "bus_complete hw F b \<longleftrightarrow> (\<forall>i<32. slot_complete hw F b i)"

text \<open>
  What a step from \<open>s\<close> to \<open>s'\<close> keeps: it only adds devices, and when the allocator never fails the bus
  behind every bridge it adds is complete.
\<close>

definition extends :: "hardware \<Rightarrow> bool \<Rightarrow> 'h pci \<Rightarrow> 'h pci \<Rightarrow> bool" where
  "extends hw live s s' \<longleftrightarrow> sound hw s' \<and> found s \<subseteq> found s' \<and>
     (live \<longrightarrow> (\<forall>a \<in> found s' - found s. is_bridge hw a \<longrightarrow> bus_complete hw (found s') (secondary hw a)))"

lemma bus_complete_mono: "bus_complete hw F b \<Longrightarrow> F \<subseteq> G \<Longrightarrow> bus_complete hw G b"
  unfolding bus_complete_def slot_complete_def by blast

lemma slot_complete_mono: "slot_complete hw F b i \<Longrightarrow> F \<subseteq> G \<Longrightarrow> slot_complete hw G b i"
  unfolding slot_complete_def by blast

lemma extends_refl: "sound hw s \<Longrightarrow> extends hw live s s"
  by (simp add: extends_def)

lemma extends_trans:
  assumes "extends hw live s t" "extends hw live t u"
  shows "extends hw live s u"
  using assms bus_complete_mono [of hw "found t" _ "found u"] unfolding extends_def by blast

definition left :: "'h pci \<Rightarrow> nat" where
  "left s = card (addresses - found s)"

lemma left_mono: "found s \<subseteq> found t \<Longrightarrow> left t \<le> left s"
  unfolding left_def by (intro card_mono) (use addresses_finite in auto)

text \<open>A probe of a bus that is right as long as fewer than \<open>k\<close> addresses are left.\<close>

definition good_probe :: "hardware \<Rightarrow> bool \<Rightarrow> nat \<Rightarrow> 'h probe \<Rightarrow> bool" where
  "good_probe hw live k probe \<longleftrightarrow>
     (\<forall>b parent s. unat b < 256 \<longrightarrow> sound hw s \<longrightarrow> left s < k \<longrightarrow>
        (\<exists>s'. probe b parent s = Some s' \<and> extends hw live s s' \<and> (live \<longrightarrow> bus_complete hw (found s') b)))"

lemma find_device_none:
  "pci_find_device devs (bus a) (slot a) (func a) = None \<longleftrightarrow> a \<notin> addr ` set devs"
  by (cases a) (force simp: pci_find_device_def find_None_iff)

lemma sound_add:
  assumes "sound hw s" "a \<in> addresses" "\<not> pci_probe_device hw a" "a \<notin> found s"
    "s1 = s\<lparr>heap := h, pci_devs := read_device hw a p parent # pci_devs s\<rparr>"
  shows "sound hw s1" "found s1 = insert a (found s)" "left s1 < left s"
proof -
  have a: "addr (read_device hw a p parent) = a" "ptr (read_device hw a p parent) = p"
    "dparent (read_device hw a p parent) = parent" by (simp_all add: read_device_def)
  show f: "found s1 = insert a (found s)" using assms(5) a by (simp add: found_def)
  show "sound hw s1" using assms a by (auto simp: sound_def found_def)
  have "addresses - found s1 \<subset> addresses - found s" using f assms(2,4) by blast
  then show "left s1 < left s"
    unfolding left_def by (intro psubset_card_mono) (use addresses_finite in auto)
qed

lemma probe_func_good:
  assumes probe: "good_probe hw live k probe" and live: "live \<Longrightarrow> \<forall>h. snd (alloc h) \<noteq> 0"
    and s: "sound hw s" "left s \<le> k" and a: "a \<in> addresses"
  shows "\<exists>s'. pci_probe_func hw alloc probe a parent s = Some s' \<and> extends hw live s s' \<and>
    (live \<longrightarrow> \<not> pci_probe_device hw a \<longrightarrow> a \<in> found s')"
proof -
  consider (absent) "pci_probe_device hw a" | (known) "\<not> pci_probe_device hw a" "a \<in> found s"
    | (new) "\<not> pci_probe_device hw a" "a \<notin> found s" by blast
  then show ?thesis
  proof cases
    case absent
    then show ?thesis using s by (simp add: pci_probe_func_def extends_refl)
  next
    case known
    then have "pci_find_device (pci_devs s) (bus a) (slot a) (func a) \<noteq> None"
      unfolding find_device_none by (simp add: found_def)
    then show ?thesis using known s by (simp add: pci_probe_func_def extends_refl del: not_None_eq)
  next
    case new
    then have "pci_find_device (pci_devs s) (bus a) (slot a) (func a) = None"
      unfolding find_device_none by (simp add: found_def)
    then have func: "pci_probe_func hw alloc probe a parent s = pci_alloc_device hw alloc probe a parent s"
      using new by (simp add: pci_probe_func_def)
    obtain h p where hp: "alloc (heap s) = (h, p)" by (cases "alloc (heap s)")
    show ?thesis
    proof (cases "p = 0")
      case True
      then have "\<not> live" using live hp by (metis snd_conv)
      moreover have "sound hw (s\<lparr>heap := h\<rparr>)" "found (s\<lparr>heap := h\<rparr>) = found s"
        using s by (simp_all add: sound_def found_def)
      ultimately show ?thesis using True hp unfolding func
        by (simp add: pci_alloc_device_def extends_def)
    next
      case False
      define s1 where "s1 = s\<lparr>heap := h, pci_devs := read_device hw a p parent # pci_devs s\<rparr>"
      note add = sound_add [OF s(1) a new s1_def]
      have dev: "pci_alloc_device hw alloc probe a parent s = pci_probe_bridge hw probe a p s1"
        using hp False by (simp add: pci_alloc_device_def s1_def)
      show ?thesis
      proof (cases "is_bridge hw a")
        case True
        have "unat (secondary hw a) < 256"
          using unsigned_less [of "pci_read_config_byte hw a PCI_SECONDARY_BUS", where 'a = nat]
          by (simp add: secondary_def unsigned_ucast_eq take_bit_nat_eq_self)
        moreover have "left s1 < k" using add(3) s(2) by simp
        ultimately obtain s' where s': "probe (secondary hw a) p s1 = Some s'" "extends hw live s1 s'"
          "live \<longrightarrow> bus_complete hw (found s') (secondary hw a)"
          using probe add(1) unfolding good_probe_def by meson
        then have "pci_probe_func hw alloc probe a parent s = Some s'"
          using True unfolding func dev by (simp add: pci_probe_bridge_def is_bridge_def secondary_def)
        moreover have "extends hw live s s'" "a \<in> found s'"
          using s'(2,3) add(2) by (auto simp: extends_def)
        ultimately show ?thesis by blast
      next
        case False
        then have "pci_probe_func hw alloc probe a parent s = Some s1"
          unfolding func dev by (auto simp: pci_probe_bridge_def is_bridge_def)
        moreover have "extends hw live s s1" "a \<in> found s1"
          using False add by (auto simp: extends_def)
        ultimately show ?thesis by blast
      qed
    qed
  qed
qed

text \<open>A loop whose every step extends the state and reaches its goal, which no later step undoes.\<close>

lemma each_extends:
  assumes "\<And>x s. x \<in> set xs \<Longrightarrow> sound hw s \<Longrightarrow> left s \<le> k \<Longrightarrow>
      \<exists>s'. f x s = Some s' \<and> extends hw live s s' \<and> (live \<longrightarrow> goal x (found s'))"
    and "\<And>x F G. goal x F \<Longrightarrow> F \<subseteq> G \<Longrightarrow> goal x G"
    and "sound hw s" "left s \<le> k"
  shows "\<exists>s'. each f xs s = Some s' \<and> extends hw live s s' \<and> (live \<longrightarrow> (\<forall>x \<in> set xs. goal x (found s')))"
  using assms(1,3,4)
proof (induction xs arbitrary: s)
  case Nil
  then show ?case by (simp add: extends_refl)
next
  case (Cons x xs)
  obtain t where t: "f x s = Some t" "extends hw live s t" "live \<longrightarrow> goal x (found t)"
    using Cons.prems(1) [of x s] Cons.prems(2,3) by auto
  have "sound hw t" "left t \<le> k"
    using t(2) left_mono [of s t] Cons.prems(3) by (auto simp: extends_def)
  moreover have "\<And>x s. x \<in> set xs \<Longrightarrow> sound hw s \<Longrightarrow> left s \<le> k \<Longrightarrow>
      \<exists>s'. f x s = Some s' \<and> extends hw live s s' \<and> (live \<longrightarrow> goal x (found s'))"
    by (rule Cons.prems(1)) simp_all
  ultimately obtain u where u: "each f xs t = Some u" "extends hw live t u" "live \<longrightarrow> (\<forall>x \<in> set xs. goal x (found u))"
    using Cons.IH [of t] by blast
  have "found t \<subseteq> found u" using u(2) by (simp add: extends_def)
  then show ?case
    using t u extends_trans [OF t(2) u(2)] assms(2) [of x "found t" "found u"] by auto
qed

lemma at_addresses: "unat b < 256 \<Longrightarrow> i < 32 \<Longrightarrow> f < 8 \<Longrightarrow> at b i f \<in> addresses"
  unfolding addresses_def by (rule image_eqI [of _ _ "(unat b, i, f)"]) simp_all

lemma probe_slot_good:
  assumes probe: "good_probe hw live k probe" and live: "live \<Longrightarrow> \<forall>h. snd (alloc h) \<noteq> 0"
    and s: "sound hw s" "left s \<le> k" and b: "unat b < 256" "i < 32"
  shows "\<exists>s'. pci_probe_slot hw alloc probe b parent i s = Some s' \<and> extends hw live s s' \<and>
    (live \<longrightarrow> slot_complete hw (found s') b i)"
proof (cases "pci_probe_device hw (at b i 0)")
  case True
  then show ?thesis using s by (simp add: pci_probe_slot_def slot_complete_def extends_refl)
next
  case False
  obtain t where t: "pci_probe_func hw alloc probe (at b i 0) parent s = Some t" "extends hw live s t"
    "live \<longrightarrow> at b i 0 \<in> found t"
    using probe_func_good [OF probe live s at_addresses [OF b, of 0], of parent] False by auto
  have st: "sound hw t" "left t \<le> k"
    using t(2) left_mono [of s t] s(2) by (auto simp: extends_def)
  let ?goal = "\<lambda>f F. \<not> pci_probe_device hw (at b i f) \<longrightarrow> at b i f \<in> F"
  have "\<exists>u. each (\<lambda>f. pci_probe_func hw alloc probe (at b i f) parent) [1..<PCI_NUM_FUNCS] t = Some u \<and>
      extends hw live t u \<and> (live \<longrightarrow> (\<forall>f \<in> set [1..<PCI_NUM_FUNCS]. ?goal f (found u)))"
  proof (rule each_extends [where goal = ?goal, OF _ _ st])
    fix f and s :: "'a pci" assume "f \<in> set [1..<PCI_NUM_FUNCS]" "sound hw s" "left s \<le> k"
    then show "\<exists>s'. pci_probe_func hw alloc probe (at b i f) parent s = Some s' \<and> extends hw live s s' \<and>
        (live \<longrightarrow> ?goal f (found s'))"
      using probe_func_good [OF probe live _ _ at_addresses [OF b, of f], of s parent]
      by (simp add: PCI_NUM_FUNCS_def)
  qed blast
  then obtain u where u: "each (\<lambda>f. pci_probe_func hw alloc probe (at b i f) parent) [1..<PCI_NUM_FUNCS] t = Some u"
    "extends hw live t u" "live \<longrightarrow> (\<forall>f \<in> set [1..<PCI_NUM_FUNCS]. ?goal f (found u))" by blast
  show ?thesis
  proof (cases "pci_probe_multifunction hw (at b i 0)")
    case True
    have "at b i f \<in> found u" if "live" "f < 8" "\<not> pci_probe_device hw (at b i f)" for f
      using that t(3) u(2,3) by (cases f) (auto simp: extends_def PCI_NUM_FUNCS_def)
    then have "live \<longrightarrow> slot_complete hw (found u) b i" using False by (simp add: slot_complete_def)
    then show ?thesis
      using True False t(1) u(1) extends_trans [OF t(2) u(2)] by (simp add: pci_probe_slot_def)
  next
    case single: False
    then show ?thesis using False t by (simp add: pci_probe_slot_def slot_complete_def)
  qed
qed

lemma probe_bus_good:
  assumes live: "live \<Longrightarrow> \<forall>h. snd (alloc h) \<noteq> 0"
  shows "good_probe hw live k (pci_probe_bus hw alloc k)"
proof (induction k)
  case 0
  then show ?case by (simp add: good_probe_def)
next
  case (Suc k)
  show ?case
    unfolding good_probe_def
  proof (intro allI impI)
    fix b :: u16 and parent and s :: "'a pci"
    assume b: "unat b < 256" and s: "sound hw s" "left s < Suc k"
    have "\<exists>s'. each (pci_probe_slot hw alloc (pci_probe_bus hw alloc k) b parent) [0..<PCI_NUM_SLOTS] s = Some s' \<and>
        extends hw live s s' \<and> (live \<longrightarrow> (\<forall>i \<in> set [0..<PCI_NUM_SLOTS]. slot_complete hw (found s') b i))"
    proof (rule each_extends [where goal = "\<lambda>i F. slot_complete hw F b i"])
      fix i and s :: "'a pci" assume "i \<in> set [0..<PCI_NUM_SLOTS]" "sound hw s" "left s \<le> k"
      then show "\<exists>s'. pci_probe_slot hw alloc (pci_probe_bus hw alloc k) b parent i s = Some s' \<and>
          extends hw live s s' \<and> (live \<longrightarrow> slot_complete hw (found s') b i)"
        using probe_slot_good [OF Suc live _ _ b] by (simp add: PCI_NUM_SLOTS_def)
    qed (use s slot_complete_mono in auto)
    then show "\<exists>s'. pci_probe_bus hw alloc (Suc k) b parent s = Some s' \<and> extends hw live s s' \<and>
        (live \<longrightarrow> bus_complete hw (found s') b)"
      by (auto simp: bus_complete_def PCI_NUM_SLOTS_def)
  qed
qed

section \<open>Properties\<close>

text \<open>Setting the bus master bit writes the port numbers of the data to the port of the value.\<close>

lemma pci_set_master_swapped:
  assumes "pci_read_config_word hw (addr d) PCI_COMMAND AND PCI_COMMAND_BUSMASTER = 0"
  shows "pci_set_master hw d =
    [Outl PCI_CONFIG_ADDR (PCI_CONFIG_REGISTER (ucast (bus (addr d))) (ucast (slot (addr d))) (ucast (func (addr d))) PCI_COMMAND),
     Outw (pci_read_config_word hw (addr d) PCI_COMMAND OR PCI_COMMAND_BUSMASTER) PCI_CONFIG_DATA]"
  using assms by (simp add: pci_set_master_def pci_write_config_word_def write_pci_config_word_def Let_def PCI_COMMAND_def PCI_CONFIG_DATA_def)

text \<open>A search by vendor and device finds nothing but devices of the class 0xFFFFFF.\<close>

lemma pci_get_device_class:
  assumes "pci_get_device devs v d from = Some (Some e)"
  shows "classrv e AND PCI_CLASS_MASK = PCI_CLASS_MASK"
proof -
  define i where "i = \<lparr>id_vendor = ucast v, id_device = ucast d, id_subvendor = PCI_ANY_ID,
       id_subdevice = PCI_ANY_ID, id_class = PCI_ANY_ID\<rparr>"
  obtain ds where "find (pci_match i) ds = Some e"
    using assms unfolding pci_get_device_def pci_get_subsys_def i_def [symmetric] by (auto split: option.splits)
  then have "pci_match i e" by (auto simp: find_Some_iff)
  then have z: "(NOT 0 XOR classrv e) AND PCI_CLASS_MASK = 0"
    by (simp add: pci_match_def i_def PCI_ANY_ID_def)
  show ?thesis
  proof (rule bit_eqI)
    fix n assume n: "possible_bit TYPE(32 word) n"
    have "\<not> bit ((NOT 0 XOR classrv e) AND PCI_CLASS_MASK) n" unfolding z by simp
    then show "bit (classrv e AND PCI_CLASS_MASK) n = bit PCI_CLASS_MASK n"
      using n by (auto simp: bit_and_iff bit_xor_iff bit_not_iff)
  qed
qed

lemma pci_init_result:
  assumes live: "live \<Longrightarrow> \<forall>h. snd (alloc h) \<noteq> 0"
  shows "\<exists>s'. pci_init hw alloc 65537 \<lparr>pci_devs = [], heap = h\<rparr> = Some s' \<and>
    extends hw live \<lparr>pci_devs = [], heap = h\<rparr> s' \<and>
    (live \<longrightarrow> bus_complete hw (found s') 0) \<and>
    (live \<longrightarrow> pci_probe_multifunction hw (at 0 0 0) \<longrightarrow> (\<forall>b<256. bus_complete hw (found s') (of_nat b)))"
proof -
  let ?s = "\<lparr>pci_devs = [], heap = h\<rparr>"
  have s: "sound hw ?s" "left ?s \<le> 65536"
    using addresses_finite(2) by (simp_all add: sound_def found_def left_def)
  have good: "good_probe hw live 65537 (pci_probe_bus hw alloc 65537)" by (rule probe_bus_good [OF live])
  show ?thesis
  proof (cases "pci_probe_multifunction hw (at 0 0 0)")
    case False
    obtain s' where "pci_probe_bus hw alloc 65537 0 0 ?s = Some s'" "extends hw live ?s s'"
      "live \<longrightarrow> bus_complete hw (found s') 0"
      using good [unfolded good_probe_def, rule_format, of 0 ?s 0] s by auto
    then show ?thesis using False by (simp only: pci_init_def) simp
  next
    case True
    have "\<exists>s'. each (\<lambda>b. pci_probe_bus hw alloc 65537 (of_nat b) 0) [0..<PCI_NUM_BUSES] ?s = Some s' \<and>
        extends hw live ?s s' \<and> (live \<longrightarrow> (\<forall>b \<in> set [0..<PCI_NUM_BUSES]. bus_complete hw (found s') (of_nat b)))"
    proof (rule each_extends [where goal = "\<lambda>b F. bus_complete hw F (of_nat b)", OF _ bus_complete_mono s])
      fix b and s :: "'a pci" assume b: "b \<in> set [0..<PCI_NUM_BUSES]" and s: "sound hw s" "left s \<le> 65536"
      have "unat (of_nat b :: u16) < 256" using b unat_of_nat_lt [of b, where 'a = 16] by (simp add: PCI_NUM_BUSES_def)
      moreover have "left s < 65537" using s(2) by simp
      ultimately show "\<exists>s'. pci_probe_bus hw alloc 65537 (of_nat b) 0 s = Some s' \<and> extends hw live s s' \<and>
          (live \<longrightarrow> bus_complete hw (found s') (of_nat b))"
        using good s(1) unfolding good_probe_def by blast
    qed
    then obtain s' where s': "each (\<lambda>b. pci_probe_bus hw alloc 65537 (of_nat b) 0) [0..<PCI_NUM_BUSES] ?s = Some s'"
      "extends hw live ?s s'" "live \<longrightarrow> (\<forall>b \<in> set [0..<PCI_NUM_BUSES]. bus_complete hw (found s') (of_nat b))"
      by blast
    have "b \<in> set [0..<PCI_NUM_BUSES]" if "b < 256" for b
      using that unfolding set_upt by (simp add: PCI_NUM_BUSES_def)
    with s'(3) have all: "live \<longrightarrow> (\<forall>b<256. bus_complete hw (found s') (of_nat b))" by blast
    have "(0 :: nat) < 256" by simp
    with all have "live \<longrightarrow> bus_complete hw (found s') (of_nat 0)" by blast
    then have "live \<longrightarrow> bus_complete hw (found s') 0" by simp
    moreover have "pci_init hw alloc 65537 ?s = Some s'"
      unfolding pci_init_def using True s'(1) by (simp only: not_True_eq_False if_False)
    ultimately show ?thesis using s'(2) all by blast
  qed
qed

text \<open>
  C15: the enumeration of the PCI bus ends, whatever the hardware answers and whenever the allocator
  fails, bridges that lead back to their own bus included; every device it lists is one that answered,
  is listed once and is described by what was read.
\<close>

theorem pci_init_returns:
  "\<exists>s'. pci_init hw alloc 65537 \<lparr>pci_devs = [], heap = h\<rparr> = Some s' \<and> sound hw s'"
  using pci_init_result [of False alloc hw h] by (auto simp: extends_def)

text \<open>
  C25: when the allocator does not fail the enumeration misses nothing: every function that answers on
  bus 0, or on any bus when there are several host controllers, and every function behind a bridge that
  was found is found, where functions other than the first count for multifunction devices only.
\<close>

theorem pci_init_complete:
  assumes "\<forall>h. snd (alloc h) \<noteq> 0"
  shows "\<exists>s'. pci_init hw alloc 65537 \<lparr>pci_devs = [], heap = h\<rparr> = Some s' \<and>
    bus_complete hw (found s') 0 \<and>
    (pci_probe_multifunction hw (at 0 0 0) \<longrightarrow> (\<forall>b<256. bus_complete hw (found s') (of_nat b))) \<and>
    (\<forall>a \<in> found s'. is_bridge hw a \<longrightarrow> bus_complete hw (found s') (secondary hw a))"
  using pci_init_result [of True alloc hw h] assms by (auto simp: extends_def found_def)

text \<open>One device, in slot 1 of bus 0.\<close>

definition demo_hw :: hardware where
  "demo_hw = \<lparr>in8 = (\<lambda>_ _. 0), in16 = (\<lambda>_ _. 0),
     in32 = (\<lambda>reg _. if reg = 0x80000800 then 0x12378086 else PCI_INVALID_DEVICE)\<rparr>"

theorem pci_init_complete_witness:
  "\<exists>s'. pci_init demo_hw (\<lambda>h. (h + 1, 0x5000)) 65537 \<lparr>pci_devs = [], heap = 0 :: nat\<rparr> = Some s' \<and> at 0 1 0 \<in> found s'"
proof -
  have "\<not> pci_probe_device demo_hw (at 0 1 0)"
    by (simp add: pci_config_access PCI_CONFIG_REGISTER_def
        at_def demo_hw_def PCI_VENDOR_def PCI_INVALID_DEVICE_def)
  then have "bus_complete demo_hw F 0 \<Longrightarrow> at 0 1 0 \<in> F" for F
    by (auto simp: bus_complete_def slot_complete_def)
  then show ?thesis
    using pci_init_complete [of "\<lambda>h :: nat. (h + 1, 0x5000)" demo_hw 0] by auto
qed

end
