(* ===== verification/Loader.thy ===== *)
theory Loader
  imports Tty "HOL-Library.Sublist"
begin

text \<open>
  The boot loader proper, \<^verbatim>\<open>src/core/loader.c\<close>: reading the boot entries of
  \<^verbatim>\<open>/root/elfboot.cfg\<close>, the array of the boot options, the menu in which one is selected, and the
  call of the loader module of its protocol. A line of the configuration is the list of its bytes,
  the token that \<^verbatim>\<open>strtok_r\<close> returns (\<open>tokens\<close> of Cstring). The heap is
  a parameter: \<open>take_mem\<close> is \<^verbatim>\<open>bmalloc\<close> and whether it succeeded, \<open>give_back\<close> is \<^verbatim>\<open>bfree\<close>. Where
  the code does not return, leaves the string it works on, or uses an entry it has freed, the
  result is a \<open>stuck\<close> value.
\<close>

section \<open>Boot entries\<close>

definition LOADER_PROTOCOL_MULTIBOOT1 :: u32 where "LOADER_PROTOCOL_MULTIBOOT1 = 1"
definition LOADER_PROTOCOL_MULTIBOOT2 :: u32 where "LOADER_PROTOCOL_MULTIBOOT2 = 2"
definition LOADER_PROTOCOL_LINUX :: u32 where "LOADER_PROTOCOL_LINUX = 3"
definition LINE_DELIMITER :: u8 where "LINE_DELIMITER = 10"
definition NAME_DELIMITER :: u8 where "NAME_DELIMITER = 34"
definition INFO_DELIMITER :: u8 where "INFO_DELIMITER = 9"
definition WORD_DELIMITER :: u8 where "WORD_DELIMITER = 32"
definition BOOT_DELIMITER :: u8 where "BOOT_DELIMITER = 125"
definition CHAR_COMMENT :: u8 where "CHAR_COMMENT = 35"

record boot_entry =
  bname :: "u8 list option"
  kernel_path :: "u8 list option"
  initrd_path :: "u8 list option"
  cmdline :: "u8 list option"
  prot :: u32

record 'h allocator =
  take_mem :: "u32 \<Rightarrow> 'h \<Rightarrow> 'h \<times> bool"
  give_back :: "'h \<Rightarrow> 'h"

datatype stuck = Loops | Overruns | Uses_freed

text \<open>\<open>low_write\<close>: a list link was unhooked whose pointers are NULL, a write at address 0.\<close>

record 'h loader =
  lheap :: 'h
  boot_list :: "boot_entry list"
  boot_number :: int
  boot_choice :: int
  low_write :: bool

definition lalloc :: "'h allocator \<Rightarrow> u32 \<Rightarrow> 'h loader \<Rightarrow> 'h loader \<times> bool" where
  "lalloc al n s = (let (h, got) = take_mem al n (lheap s) in (s\<lparr>lheap := h\<rparr>, got))"

definition lfree :: "'h allocator \<Rightarrow> 'h loader \<Rightarrow> 'h loader" where
  "lfree al s = s\<lparr>lheap := give_back al (lheap s)\<rparr>"

definition ldup :: "'h allocator \<Rightarrow> u8 list \<Rightarrow> 'h loader \<Rightarrow> 'h loader \<times> u8 list option" where
  "ldup al bs s =
     (let (s, got) = lalloc al (of_nat (length bs) + 1) s in (s, if got then Some bs else None))"

text \<open>\<^verbatim>\<open>strncmp(line, word, n) == 0\<close> for a word of \<open>n\<close> bytes.\<close>

definition starts_with :: "u8 list \<Rightarrow> u8 list \<Rightarrow> bool" where
  "starts_with line word = prefix word line"

definition quoted :: "u8 list \<Rightarrow> u8 list option" where
  "quoted line =
     (case dropWhile (\<lambda>c. c \<noteq> NAME_DELIMITER) line of
        [] \<Rightarrow> None
      | _ # rest \<Rightarrow> if NAME_DELIMITER \<in> set rest then Some (takeWhile (\<lambda>c. c \<noteq> NAME_DELIMITER) rest) else None)"

definition loader_parse_name :: "'h allocator \<Rightarrow> u8 list \<Rightarrow> 'h loader \<Rightarrow> 'h loader \<times> u8 list option" where
  "loader_parse_name al line s =
     (case quoted line of None \<Rightarrow> (s, None) | Some name \<Rightarrow> ldup al name s)"

definition loader_strip_entry_line :: "u8 list \<Rightarrow> u8 list" where
  "loader_strip_entry_line = dropWhile (\<lambda>c. c = WORD_DELIMITER \<or> c = INFO_DELIMITER)"

definition BOOT_ENTRY_BYTES :: u32 where "BOOT_ENTRY_BYTES = 28"

definition loader_create_entry :: "'h allocator \<Rightarrow> u8 list \<Rightarrow> 'h loader \<Rightarrow> 'h loader \<times> boot_entry option" where
  "loader_create_entry al name s =
     (let (s, got) = lalloc al BOOT_ENTRY_BYTES s in
      (s, if got then Some \<lparr>bname = Some name, kernel_path = None, initrd_path = None, cmdline = None, prot = 0\<rparr>
          else None))"

text \<open>The entry that is freed was never put into a list: its link is zero.\<close>

definition loader_free_entry :: "'h allocator \<Rightarrow> boot_entry \<Rightarrow> 'h loader \<Rightarrow> 'h loader" where
  "loader_free_entry al e s =
     (let s = (if bname e \<noteq> None then lfree al s else s);
          s = s\<lparr>low_write := True\<rparr>
      in lfree al s)"

section \<open>The options of an entry\<close>

fun parse_kernel_words :: "'h allocator \<Rightarrow> u8 list list \<Rightarrow> boot_entry \<Rightarrow> 'h loader \<Rightarrow> boot_entry \<times> 'h loader \<times> status" where
  "parse_kernel_words al [] e s = (e, s, ok)"
| "parse_kernel_words al (w # ws) e s =
     (if w = str ''multiboot1'' then parse_kernel_words al ws (e\<lparr>prot := LOADER_PROTOCOL_MULTIBOOT1\<rparr>) s
      else if w = str ''multiboot2'' then parse_kernel_words al ws (e\<lparr>prot := LOADER_PROTOCOL_MULTIBOOT2\<rparr>) s
      else if w = str ''linux'' then parse_kernel_words al ws (e\<lparr>prot := LOADER_PROTOCOL_LINUX\<rparr>) s
      else if prot e = 0 then (e, s, Inl EFAULT)
      else case ldup al w s of (s, p) \<Rightarrow>
        (e\<lparr>kernel_path := p\<rparr>, s, if p = None then Inl ENOMEM else ok))"

definition loader_parse_kernel :: "'h allocator \<Rightarrow> u8 list \<Rightarrow> boot_entry \<Rightarrow> 'h loader \<Rightarrow> boot_entry \<times> 'h loader \<times> status" where
  "loader_parse_kernel al option = parse_kernel_words al (tokens [WORD_DELIMITER] option)"

fun parse_initrd_words :: "'h allocator \<Rightarrow> u8 list list \<Rightarrow> boot_entry \<Rightarrow> 'h loader \<Rightarrow> boot_entry \<times> 'h loader \<times> status" where
  "parse_initrd_words al [] e s = (e, s, ok)"
| "parse_initrd_words al (w # ws) e s =
     (case ldup al w s of (s, p) \<Rightarrow>
        let e = e\<lparr>initrd_path := p\<rparr> in
        if p = None then (e, s, Inl ENOMEM) else parse_initrd_words al ws e s)"

definition loader_parse_initrd :: "'h allocator \<Rightarrow> u8 list \<Rightarrow> boot_entry \<Rightarrow> 'h loader \<Rightarrow> boot_entry \<times> 'h loader \<times> status" where
  "loader_parse_initrd al option = parse_initrd_words al (tokens [WORD_DELIMITER] option)"

definition loader_parse_cmdline :: "'h allocator \<Rightarrow> u8 list \<Rightarrow> boot_entry \<Rightarrow> 'h loader \<Rightarrow> boot_entry \<times> 'h loader \<times> status" where
  "loader_parse_cmdline al option e s =
     (case ldup al option s of (s, p) \<Rightarrow> (e\<lparr>cmdline := p\<rparr>, s, if p = None then Inl ENOMEM else ok))"

text \<open>The keyword and the character behind it are skipped, that character read or not.\<close>

definition after_keyword :: "nat \<Rightarrow> u8 list \<Rightarrow> stuck + u8 list" where
  "after_keyword n option = (if length option < n then Inl Overruns else Inr (drop n option))"

definition loader_parse_entry :: "'h allocator \<Rightarrow> u8 list \<Rightarrow> boot_entry \<Rightarrow> 'h loader \<Rightarrow>
    stuck + boot_entry \<times> 'h loader \<times> status" where
  "loader_parse_entry al line e s =
     (let option = loader_strip_entry_line line in
      if starts_with option (str ''kernel'') then
        map_sum id (\<lambda>arg. loader_parse_kernel al arg e s) (after_keyword 7 option)
      else if starts_with option (str ''initrd'') then
        map_sum id (\<lambda>arg. loader_parse_initrd al arg e s) (after_keyword 7 option)
      else if starts_with option (str ''cmdline'') then
        map_sum id (\<lambda>arg. loader_parse_cmdline al arg e s) (after_keyword 8 option)
      else Inr (e, s, ok))"

section \<open>The configuration\<close>

definition loader_store_entry :: "boot_entry \<Rightarrow> 'h loader \<Rightarrow> 'h loader" where
  "loader_store_entry e s =
     s\<lparr>boot_list := boot_list s @ [e], boot_number := boot_number s + 1, boot_choice := boot_choice s + 1\<rparr>"

text \<open>
  The local variable \<^verbatim>\<open>boot_entry\<close>: NULL, an entry, or an entry that was freed, which is what
  it holds after a line whose name could not be read.
\<close>

datatype current = No_entry | Entry boot_entry | Freed

definition parse_line :: "'h allocator \<Rightarrow> u8 list \<Rightarrow> current \<Rightarrow> 'h loader \<Rightarrow> stuck + current \<times> 'h loader" where
  "parse_line al line cur s =
     (if hd line = CHAR_COMMENT then Inl Loops
      else if starts_with line (str ''bootentry'') then
        (case cur of
           Freed \<Rightarrow> Inl Uses_freed
         | _ \<Rightarrow>
            let (s, old) = (case cur of Entry e \<Rightarrow> (loader_free_entry al e s, Freed) | _ \<Rightarrow> (s, No_entry));
                (s, name) = loader_parse_name al line s in
            case name of
              None \<Rightarrow> Inr (old, s)
            | Some nm \<Rightarrow>
                (case loader_create_entry al nm s of
                   (s, Some e) \<Rightarrow> Inr (Entry e, s)
                 | (s, None) \<Rightarrow> Inr (No_entry, lfree al s)))
      else if hd line = INFO_DELIMITER then
        (case cur of
           No_entry \<Rightarrow> Inr (No_entry, s)
         | Freed \<Rightarrow> Inl Uses_freed
         | Entry e \<Rightarrow> map_sum id (\<lambda>(e, s, st). (Entry e, s)) (loader_parse_entry al line e s))
      else if hd line = BOOT_DELIMITER then
        (case cur of
           No_entry \<Rightarrow> Inr (No_entry, s)
         | Freed \<Rightarrow> Inl Uses_freed
         | Entry e \<Rightarrow> Inr (No_entry, loader_store_entry e s))
      else Inr (cur, s))"

fun parse_lines :: "'h allocator \<Rightarrow> u8 list list \<Rightarrow> current \<Rightarrow> 'h loader \<Rightarrow> stuck + 'h loader" where
  "parse_lines al [] cur s = Inr s"
| "parse_lines al (l # ls) cur s =
     (case parse_line al l cur s of Inl x \<Rightarrow> Inl x | Inr (cur, s) \<Rightarrow> parse_lines al ls cur s)"

definition loader_parse_entries :: "'h allocator \<Rightarrow> u8 list \<Rightarrow> 'h loader \<Rightarrow> stuck + 'h loader" where
  "loader_parse_entries al config = parse_lines al (tokens [LINE_DELIMITER] config) No_entry"

text \<open>
  \<open>bytes\<close> are what \<^verbatim>\<open>file_read\<close> gave, \<open>beyond\<close> the bytes of the memory behind them: the buffer has
  the length of the file, so the string ends at a zero byte of either.
\<close>

definition loader_init_boot_entries :: "'h allocator \<Rightarrow> u8 list \<Rightarrow> u8 list \<Rightarrow> 'h loader \<Rightarrow> stuck + 'h loader \<times> status" where
  "loader_init_boot_entries al bytes beyond s =
     (let (s, got) = lalloc al (of_nat (length bytes)) s in
      if \<not> got then Inr (s, Inl ENOMEM)
      else if bytes = [] then Inr (lfree al s, Inl ENOMEM)
      else map_sum id (\<lambda>s. (s, ok)) (loader_parse_entries al (takeWhile (\<lambda>c. c \<noteq> 0) (bytes @ beyond)) s))"

section \<open>The array of the options\<close>

text \<open>The array is what the allocator gave; the slot of an entry is counted from \<^verbatim>\<open>boot_choice\<close>.\<close>

fun fill_options :: "boot_entry list \<Rightarrow> boot_entry list \<Rightarrow> int \<Rightarrow> int \<Rightarrow> boot_entry list \<times> int" where
  "fill_options [] arr number choice = (arr, choice)"
| "fill_options (e # es) arr number choice =
     fill_options es (arr[nat (number - choice) := e]) number (choice - 1)"

definition loader_init_boot_options :: "'h allocator \<Rightarrow> boot_entry list \<Rightarrow> 'h loader \<Rightarrow>
    'h loader \<times> boot_entry list \<times> status" where
  "loader_init_boot_options al arr s =
     (if boot_number s = 0 then (s, [], Inl ENOENT)
      else
        let (s, got) = lalloc al (BOOT_ENTRY_BYTES * word_of_int (boot_number s)) s in
        if \<not> got then (s, [], Inl ENOMEM)
        else
          let (options, choice) = fill_options (boot_list s) arr (boot_number s) (boot_choice s)
          in (s\<lparr>boot_choice := choice\<rparr>, options, ok))"

section \<open>Booting an entry\<close>

text \<open>The loaders that the loader modules registered, newest first, with their boot functions.\<close>

definition loader_register :: "u32 \<times> 'b \<Rightarrow> (u32 \<times> 'b) list \<Rightarrow> (u32 \<times> 'b) list" where
  "loader_register l ls = l # ls"

definition loader_get_loader :: "u32 \<Rightarrow> (u32 \<times> 'b) list \<Rightarrow> 'b option" where
  "loader_get_loader p ls = map_option snd (find (\<lambda>l. fst l = p) ls)"

text \<open>\<^verbatim>\<open>loader_modules\<close>; the entry 0 of the array is NULL.\<close>

definition loader_modules :: "u32 \<Rightarrow> u8 list option" where
  "loader_modules p =
     (if p = LOADER_PROTOCOL_MULTIBOOT1 then Some (str ''mboot1'')
      else if p = LOADER_PROTOCOL_MULTIBOOT2 then Some (str ''mboot2'')
      else if p = LOADER_PROTOCOL_LINUX then Some (str ''lxboot'') else None)"

text \<open>
  \<open>'w\<close> is the machine, \<open>registered\<close> the list of loaders in it; \<open>open_module\<close> is \<^verbatim>\<open>module_open\<close>
  (of theory Module), which starts the module, and the module registers its loader.
\<close>

record 'w machine =
  registered :: "'w \<Rightarrow> (u32 \<times> (boot_entry \<Rightarrow> 'w \<Rightarrow> 'w \<times> status)) list"
  open_module :: "u8 list option \<Rightarrow> 'w \<Rightarrow> 'w \<times> status"

definition loader_boot_kernel :: "'w machine \<Rightarrow> boot_entry \<Rightarrow> 'w \<Rightarrow> 'w \<times> status" where
  "loader_boot_kernel k e w =
     (case loader_get_loader (prot e) (registered k w) of None \<Rightarrow> (w, Inl EFAULT) | Some boot \<Rightarrow> boot e w)"

definition loader_init_module :: "'w machine \<Rightarrow> boot_entry \<Rightarrow> 'w \<Rightarrow> 'w \<times> status" where
  "loader_init_module k e w =
     (if prot e \<ge> 4 then (w, Inl ENOTSUP)
      else case open_module k (loader_modules (prot e)) w of
          (w, Inl _) \<Rightarrow> (w, Inl EFAULT)
        | (w, Inr _) \<Rightarrow> loader_boot_kernel k e w)"

section \<open>The menu\<close>

definition CONSOLE_CTRL_ENTER :: u8 where "CONSOLE_CTRL_ENTER = 10"
definition CONSOLE_CTRL_ARRUP :: u8 where "CONSOLE_CTRL_ARRUP = 0xA1"
definition CONSOLE_CTRL_ARRDO :: u8 where "CONSOLE_CTRL_ARRDO = 0xA4"

text \<open>What is sent to the open console: requests and writes of the first \<open>n\<close> bytes of a string.\<close>

datatype menu_out = Reset console_attr | Clean "console_attr option" | Paint | Write u32 "u8 list"

record menu =
  menu_attr :: console_attr
  logo_width :: u32
  logo_height :: u32
  options :: "boot_entry list"
  number :: int
  choice :: int

definition control_text :: "u8 list" where
  "control_text = str ''Use arrow keys ('' @ [0x18] @ str '' and '' @ [0x19] @ str '') to change the selection''"

definition pad_right :: "u32 \<Rightarrow> u8 list \<Rightarrow> u8 list" where
  "pad_right w bs = bs @ replicate (unat w - length bs) 32"

definition loader_menu_font :: "menu \<Rightarrow> int \<Rightarrow> console_attr \<Rightarrow> console_attr \<times> status" where
  "loader_menu_font m index a =
     (if index \<ge> number m then (a, Inl EFAULT)
      else if index = choice m then
        (a\<lparr>a_fgcolor := a_bgcolor (menu_attr m), a_bgcolor := a_fgcolor (menu_attr m)\<rparr>, ok)
      else (a\<lparr>a_fgcolor := a_fgcolor (menu_attr m), a_bgcolor := a_bgcolor (menu_attr m)\<rparr>, ok))"

text \<open>
  The text of an entry in its buffer of the width of the logo: a longer one runs over the buffer, an
  entry without a command line is printed from a NULL pointer; both are \<open>Overruns\<close>.
\<close>

definition entry_text :: "menu \<Rightarrow> boot_entry \<Rightarrow> stuck + u8 list" where
  "entry_text m e =
     (case (bname e, cmdline e) of
        (Some nm, Some cmd) \<Rightarrow>
          let t = str '' '' @ nm @ str '' ('' @ cmd @ str '') '' in
          if length t < unat (logo_width m) then Inr t else Inl Overruns
      | _ \<Rightarrow> Inl Overruns)"

text \<open>\<open>bufs\<close> says whether the two buffers were allocated; the flag of the result is the failure.\<close>

definition loader_menu_show_entry :: "bool \<times> bool \<Rightarrow> menu \<Rightarrow> int \<Rightarrow> console_attr \<Rightarrow>
    stuck + console_attr \<times> menu_out list \<times> bool" where
  "loader_menu_show_entry bufs m index a =
     (if \<not> fst bufs \<or> \<not> snd bufs then Inr (a, [], True)
      else
        let a = a\<lparr>a_ypos := a_ypos (menu_attr m) + word_of_int index + 3\<rparr> in
        case loader_menu_font m index a of
          (a, Inl _) \<Rightarrow> Inr (a, [], True)
        | (a, Inr _) \<Rightarrow>
            map_sum id (\<lambda>t. (a, [Reset a, Write (logo_width m) (pad_right (logo_width m) t)], False))
              (entry_text m (options m ! nat index)))"

definition loader_init_update :: "(bool \<times> bool) \<times> bool \<times> bool \<Rightarrow> int \<Rightarrow> menu \<Rightarrow> stuck + menu \<times> menu_out list \<times> bool" where
  "loader_init_update bufs prev m =
     (let m = m\<lparr>menu_attr := (menu_attr m)\<lparr>a_ypos := 4 + logo_height m div 2\<rparr>\<rparr>;
          a = (menu_attr m)\<lparr>a_xpos := a_xpos (menu_attr m) - 2\<rparr>
      in case loader_menu_show_entry (fst bufs) m prev a of
           Inl x \<Rightarrow> Inl x
         | Inr (a, o1, failed) \<Rightarrow>
             if failed then Inr (m, o1, True)
             else map_sum id (\<lambda>(a, o2, failed). (m, o1 @ o2, failed))
               (loader_menu_show_entry (snd bufs) m (choice m) (a\<lparr>a_xpos := a_xpos (menu_attr m) - 2\<rparr>)))"

text \<open>\<open>redraw\<close> is the update above with the allocations it meets: whether it failed.\<close>

datatype selection = Selected | Redraw_failed

fun select_loop :: "(int \<Rightarrow> int \<Rightarrow> bool) \<Rightarrow> int \<Rightarrow> u8 \<Rightarrow> u8 list \<Rightarrow> int \<Rightarrow> (selection \<times> int \<times> u8 list) option" where
  "select_loop redraw n c ks cur =
     (if c = CONSOLE_CTRL_ENTER then Some (Selected, cur, ks)
      else
        let new = (if c = CONSOLE_CTRL_ARRUP then (if cur \<le> 0 then cur else cur - 1)
                   else if c = CONSOLE_CTRL_ARRDO then (if cur \<ge> n - 1 then cur else cur + 1)
                   else cur) in
        if new \<noteq> cur \<and> redraw cur new then Some (Redraw_failed, new, ks)
        else case ks of [] \<Rightarrow> None | k # ks \<Rightarrow> select_loop redraw n k ks new)"

text \<open>
  \<^verbatim>\<open>loader_menu_init_selected\<close>: \<open>c\<close> is 0 when the timeout ran out. The result is the index of the
  entry that is booted, an error, or None while it waits for a key.
\<close>

definition loader_menu_init_selected :: "bool \<Rightarrow> (int \<Rightarrow> int \<Rightarrow> bool) \<Rightarrow> int \<Rightarrow> u8 \<Rightarrow> u8 list \<Rightarrow> int \<Rightarrow> (errno + int) option" where
  "loader_menu_init_selected got redraw n c ks cur =
     (if \<not> got then Some (Inl ENOMEM)
      else if c = 0 \<or> c = CONSOLE_CTRL_ENTER then Some (Inr cur)
      else map_option (\<lambda>(sel, i, _). if sel = Selected then Inr i else Inl EFAULT) (select_loop redraw n c ks cur))"

text \<open>
  The timeout: the clock handler counts the milliseconds down and prints the seconds when they change;
  the menu polls the keyboard until a key or the end of the time.
\<close>

definition loader_timeout_callback :: "int \<Rightarrow> int \<times> int option" where
  "loader_timeout_callback t =
     (if t = 0 then (t, None)
      else if t div 1000 = (t - 1) div 1000 then (t - 1, None) else (t - 1, Some ((t - 1) div 1000)))"

datatype event = Tick | Key u8

fun wait_key :: "event list \<Rightarrow> int \<Rightarrow> (u8 \<times> int \<times> event list) option" where
  "wait_key evs t =
     (if t = 0 then Some (0, t, evs)
      else case evs of
          [] \<Rightarrow> None
        | Tick # evs \<Rightarrow> wait_key evs (fst (loader_timeout_callback t))
        | Key c # evs \<Rightarrow> if c \<noteq> 0 then Some (c, t, evs) else wait_key evs t)"

fun show_entries :: "(nat \<Rightarrow> bool \<times> bool) \<Rightarrow> menu \<Rightarrow> nat list \<Rightarrow> console_attr \<Rightarrow> stuck + menu_out list \<times> bool" where
  "show_entries bufs m [] a = Inr ([], False)"
| "show_entries bufs m (i # is) a =
     (case loader_menu_show_entry (bufs i) m (int i) a of
        Inl x \<Rightarrow> Inl x
      | Inr (a, o1, failed) \<Rightarrow>
          if failed then Inr (o1, True)
          else map_sum id (\<lambda>(o2, failed). (o1 @ o2, failed)) (show_entries bufs m is a))"

text \<open>\<^verbatim>\<open>loader_menu_init\<close> and \<^verbatim>\<open>loader_menu_show\<close> up to the keyboard.\<close>

definition loader_menu_init :: "(nat \<Rightarrow> bool \<times> bool) \<Rightarrow> menu \<Rightarrow> stuck + menu \<times> menu_out list \<times> bool" where
  "loader_menu_init bufs m =
     (let a0 = (menu_attr m)\<lparr>a_xpos := (a_width (menu_attr m) - logo_width m) div 2, a_ypos := 2\<rparr>;
          m = m\<lparr>menu_attr := a0\<lparr>a_ypos := 4 + logo_height m div 2\<rparr>\<rparr>;
          a1 = (menu_attr m)\<lparr>a_xpos := (a_width (menu_attr m) - of_nat (length control_text)) div 2,
                             a_ypos := a_height (menu_attr m) - 3\<rparr>;
          a2 = (menu_attr m)\<lparr>a_ypos := a_ypos (menu_attr m) + 3\<rparr>
      in map_sum id (\<lambda>(o1, failed).
           (m, [Reset a0, Paint, Reset a1, Write (logo_width m) control_text, Reset a2] @ o1, failed))
         (show_entries bufs m [0..<nat (number m)] a2))"

text \<open>\<^verbatim>\<open>loader_boot_choice\<close>: the screen is cleared and the module of the chosen entry is loaded.\<close>

definition loader_boot_choice :: "'w machine \<Rightarrow> menu \<Rightarrow> 'w \<Rightarrow> menu \<times> menu_out list \<times> 'w \<times> status" where
  "loader_boot_choice k m w =
     (let m = m\<lparr>menu_attr := (menu_attr m)\<lparr>a_active := 1, a_xpos := 0, a_ypos := 0\<rparr>\<rparr>
      in (m, [Clean (Some (menu_attr m))], loader_init_module k (options m ! nat (choice m)) w))"

text \<open>\<^verbatim>\<open>lib/tmg\<close>: the picture is read into the heap and kept when it has the signature. \<open>junk\<close> is
  what the allocated memory held.\<close>

definition libtmg_verify :: "u8 list \<Rightarrow> bool" where
  "libtmg_verify bs = (take 3 bs = str ''TMG'')"

definition libtmg_open :: "open_file \<Rightarrow> u8 list \<Rightarrow> vfs \<Rightarrow> (vfs \<times> (u32 \<times> u8 list) option) option" where
  "libtmg_open f junk v =
     do { (v, a) \<leftarrow> vmalloc (file_length f) v;
          if a = 0 then Some (v, None)
          else do {
            (v, n, bs) \<leftarrow> file_read f (file_length f) junk v;
            if libtmg_verify bs then Some (v, Some (a, bs))
            else do { v \<leftarrow> vfree a v; Some (v, None) } } }"

declare select_loop.simps [simp del] wait_key.simps [simp del]

section \<open>Configurations\<close>

lemma fields_line: "set l \<inter> set ds = {} \<Longrightarrow> d \<in> set ds \<Longrightarrow> Cstring.fields ds (l @ d # rest) = l # Cstring.fields ds rest"
  by (induction l) auto

lemma fields_last: "set l \<inter> set ds = {} \<Longrightarrow> Cstring.fields ds l = [l]"
  by (induction l) auto

lemma tokens_line:
  "l \<noteq> [] \<Longrightarrow> set l \<inter> set ds = {} \<Longrightarrow> d \<in> set ds \<Longrightarrow> tokens ds (l @ d # rest) = l # tokens ds rest"
  by (simp add: tokens_def fields_line)

lemma tokens_last: "l \<noteq> [] \<Longrightarrow> set l \<inter> set ds = {} \<Longrightarrow> tokens ds l = [l]"
  by (simp add: tokens_def fields_last)

lemma tokens_lines:
  "\<forall>l \<in> set ls. l \<noteq> [] \<and> d \<notin> set l \<Longrightarrow> tokens [d] (concat (map (\<lambda>l. l @ [d]) ls)) = ls"
  by (induction ls) (simp_all add: tokens_line, simp add: tokens_def)

text \<open>How an entry is written in \<^verbatim>\<open>elfboot.cfg\<close>, and what it may be made of.\<close>

definition protocol_word :: "u32 \<Rightarrow> u8 list" where
  "protocol_word p =
     (if p = LOADER_PROTOCOL_MULTIBOOT1 then str ''multiboot1''
      else if p = LOADER_PROTOCOL_MULTIBOOT2 then str ''multiboot2'' else str ''linux'')"

definition entry_lines :: "boot_entry \<Rightarrow> u8 list list" where
  "entry_lines e =
     [str ''bootentry '' @ [NAME_DELIMITER] @ the (bname e) @ [NAME_DELIMITER] @ str '' {'',
      INFO_DELIMITER # str ''kernel '' @ protocol_word (prot e) @ [WORD_DELIMITER] @ the (kernel_path e),
      INFO_DELIMITER # str ''initrd '' @ the (initrd_path e),
      INFO_DELIMITER # str ''cmdline '' @ the (cmdline e),
      [BOOT_DELIMITER]]"

definition config_of :: "boot_entry list \<Rightarrow> u8 list" where
  "config_of es = concat (map (\<lambda>l. l @ [LINE_DELIMITER]) (concat (map entry_lines es)))"

definition is_word :: "u8 list \<Rightarrow> bool" where
  "is_word w \<longleftrightarrow> w \<noteq> [] \<and> WORD_DELIMITER \<notin> set w \<and> LINE_DELIMITER \<notin> set w \<and> 0 \<notin> set w"

definition plain_entry :: "boot_entry \<Rightarrow> bool" where
  "plain_entry e \<longleftrightarrow>
     (\<exists>nm k i c. e = \<lparr>bname = Some nm, kernel_path = Some k, initrd_path = Some i, cmdline = Some c, prot = prot e\<rparr> \<and>
        NAME_DELIMITER \<notin> set nm \<and> LINE_DELIMITER \<notin> set nm \<and> 0 \<notin> set nm \<and> is_word k \<and> is_word i \<and>
        LINE_DELIMITER \<notin> set c \<and> 0 \<notin> set c \<and>
        k \<notin> {str ''multiboot1'', str ''multiboot2'', str ''linux''}) \<and>
     prot e \<in> {LOADER_PROTOCOL_MULTIBOOT1, LOADER_PROTOCOL_MULTIBOOT2, LOADER_PROTOCOL_LINUX}"

definition generous :: "'h allocator \<Rightarrow> bool" where
  "generous al \<longleftrightarrow> (\<forall>n h. snd (take_mem al n h))"

lemma ldup_generous: "generous al \<Longrightarrow> \<exists>h. ldup al bs s = (s\<lparr>lheap := h\<rparr>, Some bs)"
  by (cases "take_mem al (of_nat (length bs) + 1) (lheap s)")
    (simp add: ldup_def lalloc_def generous_def Let_def, metis snd_conv)

lemmas delimiters = LINE_DELIMITER_def NAME_DELIMITER_def INFO_DELIMITER_def WORD_DELIMITER_def
  BOOT_DELIMITER_def CHAR_COMMENT_def

lemmas protocols = LOADER_PROTOCOL_MULTIBOOT1_def LOADER_PROTOCOL_MULTIBOOT2_def LOADER_PROTOCOL_LINUX_def

lemma protocol_word_simps [simp]:
  "protocol_word p \<noteq> []" "LINE_DELIMITER \<notin> set (protocol_word p)" "WORD_DELIMITER \<notin> set (protocol_word p)"
  "0 \<notin> set (protocol_word p)"
  by (simp_all add: protocol_word_def str_def delimiters)

lemma quoted_name:
  assumes "NAME_DELIMITER \<notin> set nm"
  shows "quoted (str ''bootentry '' @ [NAME_DELIMITER] @ nm @ [NAME_DELIMITER] @ str '' {'') = Some nm"
proof -
  have "dropWhile (\<lambda>c. c \<noteq> NAME_DELIMITER) (str ''bootentry '' @ [NAME_DELIMITER] @ nm @ [NAME_DELIMITER] @ str '' {'') =
      NAME_DELIMITER # nm @ [NAME_DELIMITER] @ str '' {''"
    by (simp add: str_def NAME_DELIMITER_def)
  moreover have "takeWhile (\<lambda>c. c \<noteq> NAME_DELIMITER) (nm @ [NAME_DELIMITER] @ str '' {'') = nm"
    using assms by (simp add: takeWhile_append)
  ultimately show ?thesis by (simp add: quoted_def)
qed

lemma parse_name_line:
  assumes "generous al" "NAME_DELIMITER \<notin> set nm"
  shows "\<exists>h. parse_line al (str ''bootentry '' @ [NAME_DELIMITER] @ nm @ [NAME_DELIMITER] @ str '' {'') No_entry s =
    Inr (Entry \<lparr>bname = Some nm, kernel_path = None, initrd_path = None, cmdline = None, prot = 0\<rparr>, s\<lparr>lheap := h\<rparr>)"
proof -
  let ?line = "str ''bootentry '' @ [NAME_DELIMITER] @ nm @ [NAME_DELIMITER] @ str '' {''"
  obtain h where h: "ldup al nm s = (s\<lparr>lheap := h\<rparr>, Some nm)" using ldup_generous [OF assms(1)] by blast
  obtain h2 where h2: "take_mem al BOOT_ENTRY_BYTES h = (h2, True)"
    using assms(1) unfolding generous_def by (metis prod.collapse)
  have name: "loader_parse_name al ?line s = (s\<lparr>lheap := h\<rparr>, Some nm)"
    using h quoted_name [OF assms(2)] by (simp add: loader_parse_name_def)
  have create: "loader_create_entry al nm (s\<lparr>lheap := h\<rparr>) =
      (s\<lparr>lheap := h2\<rparr>, Some \<lparr>bname = Some nm, kernel_path = None, initrd_path = None, cmdline = None, prot = 0\<rparr>)"
    using h2 by (simp add: loader_create_entry_def lalloc_def Let_def)
  have "starts_with ?line (str ''bootentry'')"
    by (simp add: starts_with_def str_def)
  moreover have "hd ?line \<noteq> CHAR_COMMENT" by (simp add: str_def CHAR_COMMENT_def)
  ultimately show ?thesis
    unfolding parse_line_def using name create by (intro exI [of _ h2]) (simp add: Let_def)
qed

lemma option_line:
  "parse_line al (INFO_DELIMITER # opt) (Entry e) s =
     map_sum id (\<lambda>(e, s, st). (Entry e, s)) (loader_parse_entry al (INFO_DELIMITER # opt) e s)"
  by (simp add: parse_line_def delimiters starts_with_def str_def)

lemma parse_kernel_line:
  assumes "generous al" "is_word k" "k \<notin> {str ''multiboot1'', str ''multiboot2'', str ''linux''}"
    "p \<in> {LOADER_PROTOCOL_MULTIBOOT1, LOADER_PROTOCOL_MULTIBOOT2, LOADER_PROTOCOL_LINUX}"
  shows "\<exists>h. parse_line al (INFO_DELIMITER # str ''kernel '' @ protocol_word p @ [WORD_DELIMITER] @ k) (Entry e) s =
    Inr (Entry (e\<lparr>prot := p, kernel_path := Some k\<rparr>), s\<lparr>lheap := h\<rparr>)"
proof -
  obtain h where h: "ldup al k s = (s\<lparr>lheap := h\<rparr>, Some k)" using ldup_generous [OF assms(1)] by blast
  have toks: "tokens [WORD_DELIMITER] (protocol_word p @ WORD_DELIMITER # k) = [protocol_word p, k]"
    using assms(2) by (simp add: tokens_line tokens_last is_word_def)
  have words: "parse_kernel_words al [protocol_word p, k] e s =
      (e\<lparr>prot := p, kernel_path := Some k\<rparr>, s\<lparr>lheap := h\<rparr>, ok)"
    using assms(3,4) h by (auto simp: protocol_word_def protocols str_def)
  have "loader_strip_entry_line (INFO_DELIMITER # str ''kernel '' @ protocol_word p @ [WORD_DELIMITER] @ k) =
      str ''kernel '' @ protocol_word p @ [WORD_DELIMITER] @ k"
    by (simp add: loader_strip_entry_line_def str_def delimiters)
  moreover have "starts_with (str ''kernel '' @ rest) (str ''kernel'')" "after_keyword 7 (str ''kernel '' @ rest) = Inr rest" for rest
    by (simp_all add: starts_with_def str_def after_keyword_def)
  ultimately show ?thesis
    unfolding option_line loader_parse_entry_def using toks words
    by (intro exI [of _ h]) (simp add: Let_def loader_parse_kernel_def)
qed

lemma parse_initrd_line:
  assumes "generous al" "is_word i"
  shows "\<exists>h. parse_line al (INFO_DELIMITER # str ''initrd '' @ i) (Entry e) s =
    Inr (Entry (e\<lparr>initrd_path := Some i\<rparr>), s\<lparr>lheap := h\<rparr>)"
proof -
  obtain h where h: "ldup al i s = (s\<lparr>lheap := h\<rparr>, Some i)" using ldup_generous [OF assms(1)] by blast
  have toks: "tokens [WORD_DELIMITER] i = [i]" using assms(2) by (simp add: tokens_last is_word_def)
  have "loader_strip_entry_line (INFO_DELIMITER # str ''initrd '' @ i) = str ''initrd '' @ i"
    by (simp add: loader_strip_entry_line_def str_def delimiters)
  moreover have "\<not> starts_with (str ''initrd '' @ i) (str ''kernel'')" "starts_with (str ''initrd '' @ i) (str ''initrd'')"
    "after_keyword 7 (str ''initrd '' @ i) = Inr i"
    by (simp_all add: starts_with_def str_def after_keyword_def)
  ultimately show ?thesis
    unfolding option_line loader_parse_entry_def using toks h
    by (intro exI [of _ h]) (simp add: Let_def loader_parse_initrd_def)
qed

lemma parse_cmdline_line:
  assumes "generous al"
  shows "\<exists>h. parse_line al (INFO_DELIMITER # str ''cmdline '' @ c) (Entry e) s =
    Inr (Entry (e\<lparr>cmdline := Some c\<rparr>), s\<lparr>lheap := h\<rparr>)"
proof -
  obtain h where h: "ldup al c s = (s\<lparr>lheap := h\<rparr>, Some c)" using ldup_generous [OF assms(1)] by blast
  have "loader_strip_entry_line (INFO_DELIMITER # str ''cmdline '' @ c) = str ''cmdline '' @ c"
    by (simp add: loader_strip_entry_line_def str_def delimiters)
  moreover have "\<not> starts_with (str ''cmdline '' @ c) (str ''kernel'')" "\<not> starts_with (str ''cmdline '' @ c) (str ''initrd'')"
    "starts_with (str ''cmdline '' @ c) (str ''cmdline'')" "after_keyword 8 (str ''cmdline '' @ c) = Inr c"
    by (simp_all add: starts_with_def str_def after_keyword_def)
  ultimately show ?thesis
    unfolding option_line loader_parse_entry_def using h
    by (intro exI [of _ h]) (simp add: Let_def loader_parse_cmdline_def)
qed

lemma parse_end_line: "parse_line al [BOOT_DELIMITER] (Entry e) s = Inr (No_entry, loader_store_entry e s)"
  by (simp add: parse_line_def delimiters starts_with_def str_def)

lemma parse_entry_lines:
  assumes "generous al" "plain_entry e"
  shows "\<exists>h. parse_lines al (entry_lines e @ ls) No_entry s =
    parse_lines al ls No_entry (loader_store_entry e (s\<lparr>lheap := h\<rparr>))"
proof -
  obtain nm k i c where e: "e = \<lparr>bname = Some nm, kernel_path = Some k, initrd_path = Some i, cmdline = Some c, prot = prot e\<rparr>"
    and ok: "NAME_DELIMITER \<notin> set nm" "is_word k" "is_word i"
      "k \<notin> {str ''multiboot1'', str ''multiboot2'', str ''linux''}"
      "prot e \<in> {LOADER_PROTOCOL_MULTIBOOT1, LOADER_PROTOCOL_MULTIBOOT2, LOADER_PROTOCOL_LINUX}"
    using assms(2) unfolding plain_entry_def by blast
  have parts: "bname e = Some nm" "kernel_path e = Some k" "initrd_path e = Some i" "cmdline e = Some c"
    using e by (metis boot_entry.select_convs)+
  let ?e0 = "\<lparr>bname = Some nm, kernel_path = None, initrd_path = None, cmdline = None, prot = 0\<rparr>"
  let ?e1 = "?e0\<lparr>prot := prot e, kernel_path := Some k\<rparr>"
  let ?e2 = "?e1\<lparr>initrd_path := Some i\<rparr>"
  obtain h1 where 1: "parse_line al (str ''bootentry '' @ [NAME_DELIMITER] @ nm @ [NAME_DELIMITER] @ str '' {'') No_entry s =
      Inr (Entry ?e0, s\<lparr>lheap := h1\<rparr>)"
    using parse_name_line [OF assms(1) ok(1)] by blast
  obtain h2 where 2: "parse_line al (INFO_DELIMITER # str ''kernel '' @ protocol_word (prot e) @ [WORD_DELIMITER] @ k)
      (Entry ?e0) (s\<lparr>lheap := h1\<rparr>) = Inr (Entry ?e1, s\<lparr>lheap := h2\<rparr>)"
    using parse_kernel_line [OF assms(1) ok(2,4,5), of ?e0 "s\<lparr>lheap := h1\<rparr>"] by auto
  obtain h3 where 3: "parse_line al (INFO_DELIMITER # str ''initrd '' @ i) (Entry ?e1) (s\<lparr>lheap := h2\<rparr>) =
      Inr (Entry ?e2, s\<lparr>lheap := h3\<rparr>)"
    using parse_initrd_line [OF assms(1) ok(3), of ?e1 "s\<lparr>lheap := h2\<rparr>"] by auto
  obtain h4 where 4: "parse_line al (INFO_DELIMITER # str ''cmdline '' @ c) (Entry ?e2) (s\<lparr>lheap := h3\<rparr>) =
      Inr (Entry (?e2\<lparr>cmdline := Some c\<rparr>), s\<lparr>lheap := h4\<rparr>)"
    using parse_cmdline_line [OF assms(1), of c ?e2 "s\<lparr>lheap := h3\<rparr>"] by auto
  have "?e2\<lparr>cmdline := Some c\<rparr> = e" by (subst e) simp
  then show ?thesis
    unfolding entry_lines_def parts using 1 2 3 4
    by (intro exI [of _ h4]) (simp only: append_Cons append_Nil option.sel parse_lines.simps sum.case prod.case parse_end_line)
qed

lemma entry_lines_clean:
  assumes "plain_entry e"
  shows "\<forall>l \<in> set (entry_lines e). l \<noteq> [] \<and> LINE_DELIMITER \<notin> set l \<and> 0 \<notin> set l"
  using assms protocol_word_simps(2,4) [of "prot e"]
  by (auto simp: plain_entry_def entry_lines_def is_word_def str_def delimiters)

lemma parse_entries_list:
  assumes "generous al"
  shows "\<forall>e \<in> set es. plain_entry e \<Longrightarrow> \<exists>h. parse_lines al (concat (map entry_lines es)) No_entry s =
    Inr (s\<lparr>lheap := h, boot_list := boot_list s @ es, boot_number := boot_number s + int (length es),
           boot_choice := boot_choice s + int (length es)\<rparr>)"
proof (induction es arbitrary: s)
  case Nil
  show ?case by (intro exI [of _ "lheap s"]) simp
next
  case (Cons e es)
  obtain h where h: "parse_lines al (entry_lines e @ concat (map entry_lines es)) No_entry s =
      parse_lines al (concat (map entry_lines es)) No_entry (loader_store_entry e (s\<lparr>lheap := h\<rparr>))"
    using parse_entry_lines [OF assms] Cons.prems by (meson list.set_intros(1))
  show ?case
    using Cons.IH [of "loader_store_entry e (s\<lparr>lheap := h\<rparr>)"] Cons.prems h
    by (auto simp: loader_store_entry_def algebra_simps)
qed

lemma fill_options_order:
  "int (length es) = ch \<Longrightarrow> 0 \<le> ch \<Longrightarrow> ch \<le> n \<Longrightarrow> length arr = nat n \<Longrightarrow>
     fill_options es arr n ch = (take (nat (n - ch)) arr @ es, 0)"
proof (induction es arbitrary: arr ch)
  case (Cons e es)
  have k: "nat (n - ch) < length arr" "nat (n - (ch - 1)) = Suc (nat (n - ch))" using Cons.prems by auto
  have "fill_options es (arr[nat (n - ch) := e]) n (ch - 1) =
      (take (nat (n - (ch - 1))) (arr[nat (n - ch) := e]) @ es, 0)"
    using Cons.prems by (intro Cons.IH) auto
  then show ?case using k by (simp add: take_Suc_conv_app_nth)
qed simp

section \<open>Properties\<close>

text \<open>A comment line is never left.\<close>

lemma comment_line_loops:
  "loader_parse_entries al (str ''# x'' @ [10] @ rest) s = Inl Loops"
proof -
  have "tokens [LINE_DELIMITER] (str ''# x'' @ LINE_DELIMITER # rest) = str ''# x'' # tokens [LINE_DELIMITER] rest"
    by (rule tokens_line) (simp_all add: str_def LINE_DELIMITER_def)
  then show ?thesis
    by (simp add: loader_parse_entries_def LINE_DELIMITER_def parse_line_def str_def CHAR_COMMENT_def)
qed

definition loader_start :: "'h \<Rightarrow> 'h loader" where
  "loader_start h = \<lparr>lheap = h, boot_list = [], boot_number = 0, boot_choice = 0, low_write = False\<rparr>"

lemma boot_config_read:
  assumes "generous al" and "es \<noteq> []" and "\<forall>e \<in> set es. plain_entry e" and "length arr = length es"
  shows "\<exists>s1 s2. loader_init_boot_entries al (config_of es) (0 # beyond) (loader_start h) = Inr (s1, ok) \<and>
    loader_init_boot_options al arr s1 = (s2, es, ok) \<and>
    boot_list s2 = es \<and> boot_number s2 = int (length es) \<and> boot_choice s2 = 0 \<and> \<not> low_write s2"
proof -
  let ?lines = "concat (map entry_lines es)"
  have clean: "\<forall>l \<in> set ?lines. l \<noteq> [] \<and> LINE_DELIMITER \<notin> set l \<and> 0 \<notin> set l"
    using assms(3) entry_lines_clean by auto
  have toks: "tokens [LINE_DELIMITER] (config_of es) = ?lines"
    unfolding config_of_def using clean by (intro tokens_lines) blast
  have zero: "0 \<notin> set (config_of es)"
    using clean by (auto simp: config_of_def LINE_DELIMITER_def)
  have cfg: "config_of es \<noteq> []"
    using assms(2) by (cases es) (auto simp: config_of_def entry_lines_def)
  have str: "takeWhile (\<lambda>c. c \<noteq> 0) (config_of es @ 0 # beyond) = config_of es"
    using zero by (subst takeWhile_append2) auto
  obtain h1 where h1: "take_mem al (of_nat (length (config_of es))) h = (h1, True)"
    using assms(1) unfolding generous_def by (metis prod.collapse)
  obtain h2 where h2: "parse_lines al ?lines No_entry ((loader_start h)\<lparr>lheap := h1\<rparr>) =
      Inr ((loader_start h)\<lparr>lheap := h2, boot_list := es, boot_number := int (length es), boot_choice := int (length es)\<rparr>)"
    using parse_entries_list [OF assms(1,3), of "(loader_start h)\<lparr>lheap := h1\<rparr>"] by (auto simp: loader_start_def)
  define s1 where "s1 = (loader_start h)\<lparr>lheap := h2, boot_list := es, boot_number := int (length es), boot_choice := int (length es)\<rparr>"
  have entries: "loader_init_boot_entries al (config_of es) (0 # beyond) (loader_start h) = Inr (s1, ok)"
    using h1 h2 toks str cfg
    by (simp add: loader_init_boot_entries_def lalloc_def loader_parse_entries_def loader_start_def s1_def Let_def)
  obtain h3 where h3: "take_mem al (BOOT_ENTRY_BYTES * word_of_int (int (length es))) h2 = (h3, True)"
    using assms(1) unfolding generous_def by (metis prod.collapse)
  have "fill_options es arr (int (length es)) (int (length es)) = (es, 0)"
    using fill_options_order [of es "int (length es)" "int (length es)" arr] assms(4) by simp
  then have "loader_init_boot_options al arr s1 = (s1\<lparr>lheap := h3, boot_choice := 0\<rparr>, es, ok)"
    using assms(2) h3 by (simp add: loader_init_boot_options_def s1_def lalloc_def Let_def)
  with entries show ?thesis by (auto simp: s1_def loader_start_def)
qed

text \<open>
  C9: the configuration that is written for a list of boot entries is read back as exactly these
  entries: they are in the array of the boot options in their order, with their number, and the first of
  them is the one selected, as long as memory does not run out.
\<close>

theorem boot_config_roundtrip:
  assumes "generous al" and "es \<noteq> []" and "\<forall>e \<in> set es. plain_entry e" and "length arr = length es"
  shows "\<exists>s1 s2. loader_init_boot_entries al (config_of es) (0 # beyond) (loader_start h) = Inr (s1, ok) \<and>
    loader_init_boot_options al arr s1 = (s2, es, ok) \<and>
    boot_list s2 = es \<and> boot_number s2 = int (length es) \<and> boot_choice s2 = 0 \<and> \<not> low_write s2"
  by (rule boot_config_read [OF assms])

text \<open>An allocator that counts its calls.\<close>

definition demo_allocator :: "nat allocator" where
  "demo_allocator = \<lparr>take_mem = (\<lambda>n h. (h + 1, True)), give_back = id\<rparr>"

definition demo_entry :: boot_entry where
  "demo_entry = \<lparr>bname = Some (str ''Linux''), kernel_path = Some (str ''/boot/vmlinuz''),
     initrd_path = Some (str ''/boot/initrd''), cmdline = Some (str ''quiet splash''), prot = 3\<rparr>"

theorem boot_config_roundtrip_witness:
  "\<exists>s1. loader_init_boot_entries demo_allocator
      (str ''bootentry '' @ [34] @ str ''Linux'' @ [34] @ str '' {'' @ [10, 9] @ str ''kernel linux /boot/vmlinuz'' @ [10, 9] @
       str ''initrd /boot/initrd'' @ [10, 9] @ str ''cmdline quiet splash'' @ [10, 125, 10]) [0] (loader_start 0) = Inr (s1, ok) \<and>
     snd (loader_init_boot_options demo_allocator [demo_entry] s1) = ([demo_entry], ok)"
proof -
  have gen: "generous demo_allocator" by (simp add: generous_def demo_allocator_def)
  have plain: "plain_entry demo_entry"
    by (simp add: plain_entry_def demo_entry_def is_word_def str_def delimiters protocols)
  have "config_of [demo_entry] =
      str ''bootentry '' @ [34] @ str ''Linux'' @ [34] @ str '' {'' @ [10, 9] @ str ''kernel linux /boot/vmlinuz'' @ [10, 9] @
       str ''initrd /boot/initrd'' @ [10, 9] @ str ''cmdline quiet splash'' @ [10, 125, 10]"
    by (simp add: config_of_def entry_lines_def demo_entry_def protocol_word_def protocols delimiters str_def)
  then show ?thesis
    using boot_config_roundtrip [OF gen, of "[demo_entry]" "[demo_entry]" "[]" 0] plain by auto
qed

lemma select_loop_bounds:
  assumes "0 \<le> cur" "cur < n"
  shows "(\<forall>sel i rest. select_loop redraw n c ks cur = Some (sel, i, rest) \<longrightarrow> 0 \<le> i \<and> i < n) \<and>
    (CONSOLE_CTRL_ENTER \<in> set (c # ks) \<longrightarrow> select_loop redraw n c ks cur \<noteq> None)"
  using assms
proof (induction ks arbitrary: c cur)
  case Nil
  then show ?case by (subst (1 2) select_loop.simps) (auto simp: Let_def)
next
  case (Cons k ks)
  define nw where "nw = (if c = CONSOLE_CTRL_ARRUP then (if cur \<le> 0 then cur else cur - 1)
    else if c = CONSOLE_CTRL_ARRDO then (if cur \<ge> n - 1 then cur else cur + 1) else cur)"
  have new: "0 \<le> nw" "nw < n" using Cons.prems by (auto simp: nw_def)
  show ?case
  proof (cases "c = CONSOLE_CTRL_ENTER")
    case True
    then show ?thesis using Cons.prems by (subst (1 2) select_loop.simps) simp
  next
    case False
    have step: "select_loop redraw n c (k # ks) cur =
        (if nw \<noteq> cur \<and> redraw cur nw then Some (Redraw_failed, nw, k # ks) else select_loop redraw n k ks nw)"
      unfolding nw_def using False by (subst select_loop.simps) (simp only: Let_def list.case if_False)
    show ?thesis
    proof (cases "nw \<noteq> cur \<and> redraw cur nw")
      case True
      then show ?thesis unfolding step using new by (simp only: if_True) auto
    next
      case stay: False
      have "CONSOLE_CTRL_ENTER \<in> set (c # k # ks) \<longleftrightarrow> CONSOLE_CTRL_ENTER \<in> set (k # ks)" using False by auto
      then show ?thesis unfolding step using Cons.IH [OF new, of k] stay by (simp only: if_False)
    qed
  qed
qed

lemma menu_index_bounds:
  assumes "0 \<le> cur" "cur < n" "loader_menu_init_selected got redraw n c ks cur = Some (Inr i)"
  shows "0 \<le> i \<and> i < n"
  using select_loop_bounds [OF assms(1,2), of redraw c ks] assms
  by (auto simp: loader_menu_init_selected_def split: if_splits)

text \<open>
  The menu boots an entry that exists, whatever keys are pressed and whether or not the
  redrawing fails, and once the enter key is pressed it does not wait any longer.
\<close>

theorem menu_selects_existing_entry:
  assumes "0 \<le> cur" and "cur < n"
  shows "(\<forall>i. loader_menu_init_selected got redraw n c ks cur = Some (Inr i) \<longrightarrow> 0 \<le> i \<and> i < n) \<and>
    (CONSOLE_CTRL_ENTER \<in> set (c # ks) \<longrightarrow> loader_menu_init_selected got redraw n c ks cur \<noteq> None)"
  using select_loop_bounds [OF assms, of redraw c ks] assms
  by (auto simp: loader_menu_init_selected_def split: if_splits)

theorem menu_selects_existing_entry_witness:
  "\<exists>i. loader_menu_init_selected True (\<lambda>_ _. False) 2 0xA4 [0xA4, 0xA4, 10] 0 = Some (Inr i) \<and> 0 \<le> i \<and> i < 2"
proof -
  have "loader_menu_init_selected True (\<lambda>_ _. False) 2 0xA4 [0xA4, 0xA4, 10] 0 = Some (Inr 1)"
    by (simp add: loader_menu_init_selected_def select_loop.simps CONSOLE_CTRL_ENTER_def CONSOLE_CTRL_ARRUP_def CONSOLE_CTRL_ARRDO_def)
  then show ?thesis
    using menu_selects_existing_entry [of 0 2 True "\<lambda>_ _. False" "0xA4" "[0xA4, 0xA4, 10]"] by auto
qed

end
