(* ===== verification/Libata.thy ===== *)
theory Libata
  imports Cmath Blockdev
begin

text \<open>
  \<^verbatim>\<open>src/lib/ata/libata.c\<close>: what the drivers read out of the 256 words that a drive answers to
  the identify command. The words are a list. A value of several words is put together with shifts of
  an \<^verbatim>\<open>int\<close>: the word that lands on the sign bit is sign-extended to the 64 bits of the value, and
  a shift by 32 or more is undefined. \<open>wide\<close>, a parameter, is what such a shift gives on the target;
  of the processor's own shift only the result for 0 is used, which is 0 whatever the count.
\<close>

section \<open>Identify data\<close>

definition ATA_BLOCK_WORDS :: nat where "ATA_BLOCK_WORDS = 256"
definition ATA_BLOCK_SIZE :: u32 where "ATA_BLOCK_SIZE = 512"
definition ATA_IDENTIFY_SIZE :: u32 where "ATA_IDENTIFY_SIZE = ATA_BLOCK_SIZE"
definition ATA_SUPPORT_LBA :: u64 where "ATA_SUPPORT_LBA = 0x0200"
definition ATA_SUPPORT_ADDRESS48 :: u64 where "ATA_SUPPORT_ADDRESS48 = 0x0400"
definition ATA_PSS_VALID_VALUE :: u64 where "ATA_PSS_VALID_VALUE = 0x4000"

definition ATA_INVALID_BLOCK_SIZE :: "u32 \<Rightarrow> bool" where
  "ATA_INVALID_BLOCK_SIZE x \<longleftrightarrow> x AND (x - 1) \<noteq> 0 \<or> x = 0 \<or> x > 0x100000"

type_synonym wide_shift = "u32 \<Rightarrow> nat \<Rightarrow> u32"

definition shifted :: "wide_shift \<Rightarrow> u16 \<Rightarrow> nat \<Rightarrow> u64" where
  "shifted wide w k = scast (if k < 32 then push_bit k (ucast w) else wide (ucast w) k)"

fun libata_read_from :: "wide_shift \<Rightarrow> u16 list \<Rightarrow> nat \<Rightarrow> nat \<Rightarrow> nat \<Rightarrow> u64 \<Rightarrow> u64" where
  "libata_read_from wide params word 0 i v = v"
| "libata_read_from wide params word (Suc n) i v =
     libata_read_from wide params word n (i + 1) (v OR shifted wide (params ! (word + i)) (16 * i))"

definition libata_read :: "wide_shift \<Rightarrow> u16 list \<Rightarrow> nat \<Rightarrow> nat \<Rightarrow> u64" where
  "libata_read wide params word n = libata_read_from wide params word n 0 0"

definition libata_has_lba_support :: "wide_shift \<Rightarrow> u16 list \<Rightarrow> bool" where
  "libata_has_lba_support wide params \<longleftrightarrow> libata_read wide params 49 1 AND ATA_SUPPORT_LBA \<noteq> 0"

definition libata_has_lba48_support :: "wide_shift \<Rightarrow> u16 list \<Rightarrow> bool" where
  "libata_has_lba48_support wide params \<longleftrightarrow> libata_read wide params 83 1 AND ATA_SUPPORT_ADDRESS48 \<noteq> 0"

definition libata_cylinders :: "wide_shift \<Rightarrow> u16 list \<Rightarrow> u32" where
  "libata_cylinders wide params = ucast (libata_read wide params 1 1)"

definition libata_heads :: "wide_shift \<Rightarrow> u16 list \<Rightarrow> u32" where
  "libata_heads wide params = ucast (libata_read wide params 3 1)"

definition libata_sectors_per_track :: "wide_shift \<Rightarrow> u16 list \<Rightarrow> u32" where
  "libata_sectors_per_track wide params = ucast (libata_read wide params 6 1)"

definition libata_last_block :: "wide_shift \<Rightarrow> u16 list \<Rightarrow> u32" where
  "libata_last_block wide params =
     (if \<not> libata_has_lba48_support wide params then ucast (libata_read wide params 60 2)
      else ucast (libata_read wide params 100 4))"

definition libata_block_size :: "wide_shift \<Rightarrow> u16 list \<Rightarrow> u32" where
  "libata_block_size wide params =
     (if libata_read wide params 106 1 AND ATA_PSS_VALID_VALUE \<noteq> 0 then
        let bs = ucast (libata_read wide params 117 2)
        in if ATA_INVALID_BLOCK_SIZE bs then ATA_BLOCK_SIZE else bs
      else ATA_BLOCK_SIZE)"

section \<open>Values of one and two words\<close>

lemma ucast_scast [simp]: "ucast (scast (x::u32) :: u64) = x"
proof (rule bit_word_eqI)
  fix n assume "n < LENGTH(32)"
  moreover from this have "n \<noteq> 31 \<Longrightarrow> n < 31" by simp
  ultimately show "bit (ucast (scast x :: u64) :: u32) n = bit x n"
    by (cases "n = 31") (simp_all add: bit_simps min_def)
qed

lemma ucast_or32: "ucast (a OR b :: u64) = (ucast a OR ucast b :: u32)"
  by (rule bit_word_eqI) (simp add: bit_simps)

lemma scast_small: "scast (ucast (w::u16) :: u32) = (ucast w :: u64)"
proof (rule bit_word_eqI)
  fix n assume "n < LENGTH(64)"
  then show "bit (scast (ucast w :: u32) :: u64) n = bit (ucast w :: u64) n"
    by (cases "n < 31") (auto simp: bit_simps min_def dest: bit_imp_le_length)
qed

lemma libata_read_1: "libata_read wide params word 1 = ucast (params ! word)"
  by (simp add: libata_read_def shifted_def numeral_eq_Suc scast_small)

text \<open>The low half of a value of two words is right, whatever the sign bit does to the high half.\<close>

definition le_words32 :: "u16 \<Rightarrow> u16 \<Rightarrow> u32" where
  "le_words32 lo hi = ucast lo OR push_bit 16 (ucast hi)"

lemma libata_read_2: "ucast (libata_read wide params word 2) = le_words32 (params ! word) (params ! (word + 1))"
proof -
  have "libata_read wide params word 2 =
      shifted wide (params ! word) 0 OR shifted wide (params ! (word + 1)) 16"
    by (simp add: libata_read_def numeral_2_eq_2)
  then show ?thesis
    by (simp add: shifted_def le_words32_def ucast_or32)
qed

lemma libata_read_4:
  "ucast (libata_read wide params word 4) =
   le_words32 (params ! word) (params ! (word + 1)) OR wide (ucast (params ! (word + 2))) 32
     OR wide (ucast (params ! (word + 3))) 48"
proof -
  have "libata_read wide params word 4 =
      ((shifted wide (params ! word) 0 OR shifted wide (params ! (word + 1)) 16) OR
        shifted wide (params ! (word + 2)) 32) OR shifted wide (params ! (word + 3)) 48"
    by (simp add: libata_read_def eval_nat_numeral)
  then show ?thesis
    by (simp add: shifted_def le_words32_def ucast_or32 or.assoc)
qed

lemma unat_le_words32: "unat (le_words32 lo hi) = unat lo + 65536 * unat hi"
proof -
  have e: "le_words32 lo hi = ucast lo + push_bit 16 (ucast hi)"
    unfolding le_words32_def
    by (rule disjunctive_add [symmetric]) (auto simp: bit_simps dest: bit_imp_le_length)
  have b: "unat lo < 65536" "unat hi < 65536"
    using unsigned_less [of hi] unsigned_less [of lo] by simp_all
  then have h: "unat (push_bit 16 (ucast hi :: u32)) = 65536 * unat hi"
    by (simp add: push_bit_eq_mult unat_word_ariths unsigned_ucast_eq take_bit_eq_mod)
  have l: "unat (ucast lo :: u32) = unat lo"
    using b by (simp add: unsigned_ucast_eq take_bit_eq_mod)
  show ?thesis
    unfolding e using b by (simp add: unat_word_ariths h l)
qed

section \<open>What the getters return\<close>

text \<open>
  A count of four words is right for a drive of fewer than 2^32 sectors: its two upper words are 0, and
  a shift of 0 gives 0.
\<close>

lemma libata_last_block_small:
  assumes "\<And>n. wide 0 n = 0"
    and "libata_has_lba48_support wide params \<Longrightarrow> params ! 102 = 0 \<and> params ! 103 = 0"
  shows "unat (libata_last_block wide params) =
    (let w = (if libata_has_lba48_support wide params then 100 else 60)
     in unat (params ! w) + 65536 * unat (params ! (w + 1)))"
  using assms libata_read_2 [of wide params 60] libata_read_4 [of wide params 100]
  by (auto simp: libata_last_block_def Let_def unat_le_words32)

text \<open>On the target the count of a shift is taken modulo 32, so the upper words of a larger drive are
  mixed into the lower ones.\<close>

definition x86_shift :: wide_shift where
  "x86_shift v n = push_bit (n mod 32) v"

lemma libata_last_block_x86:
  assumes "libata_has_lba48_support x86_shift params"
  shows "libata_last_block x86_shift params =
    le_words32 (params ! 100) (params ! 101) OR le_words32 (params ! 102) (params ! 103)"
  using assms libata_read_4 [of x86_shift params 100]
  by (simp add: libata_last_block_def x86_shift_def le_words32_def or.assoc)

lemma libata_block_size_valid:
  "\<exists>k \<le> 20. libata_block_size wide params = 2 ^ k"
proof -
  let ?b = "libata_block_size wide params"
  have "\<not> ATA_INVALID_BLOCK_SIZE ?b"
    by (simp add: libata_block_size_def Let_def) (simp add: ATA_BLOCK_SIZE_def ATA_INVALID_BLOCK_SIZE_def)
  then have p: "is_pow2 ?b" and le: "?b \<le> 0x100000"
    by (auto simp: ATA_INVALID_BLOCK_SIZE_def is_pow2_def)
  from p obtain k where k: "k < 32" "?b = 2 ^ k" unfolding is_pow2_iff by blast
  then have "(2::nat) ^ k \<le> 2 ^ 20"
    using le unat_pow2 [of k] by (simp add: word_le_nat_alt)
  then have "k \<le> 20" using power_le_imp_le_exp [of "2::nat" k 20] by simp
  with k show ?thesis by blast
qed

end
