(* ===== verification/Ide.thy ===== *)
theory Ide
  imports Libata Vfs Pci
begin

text \<open>
  The IDE driver \<^verbatim>\<open>src/drivers/ide/ide.c\<close> with the registers and commands of
  \<^verbatim>\<open>drivers/ata.h\<close> and the packets of \<^verbatim>\<open>drivers/scsi.h\<close>. The drive is a parameter: a state of
  type \<open>'d\<close> that every access to a port reads and changes. A data buffer is the bytes that the driver
  has put at its start so far, a packet the bytes of the structure that is sent.
\<close>

section \<open>Ports\<close>

record 'd drive =
  rd8 :: "u16 \<Rightarrow> 'd \<Rightarrow> u8 \<times> 'd"
  rd16 :: "u16 \<Rightarrow> 'd \<Rightarrow> u16 \<times> 'd"
  wr8 :: "u16 \<Rightarrow> u8 \<Rightarrow> 'd \<Rightarrow> 'd"
  wr16 :: "u16 \<Rightarrow> u16 \<Rightarrow> 'd \<Rightarrow> 'd"

definition ATA_SR_BSY :: u8 where "ATA_SR_BSY = 0x80"
definition ATA_SR_DF :: u8 where "ATA_SR_DF = 0x20"
definition ATA_SR_DRQ :: u8 where "ATA_SR_DRQ = 0x08"
definition ATA_SR_ERR :: u8 where "ATA_SR_ERR = 0x01"
definition ATA_SR_POLL :: u8 where "ATA_SR_POLL = ATA_SR_ERR OR ATA_SR_DRQ OR ATA_SR_DF"

definition ATA_CMD_READ_PIO_EXT :: u8 where "ATA_CMD_READ_PIO_EXT = 0x24"
definition ATA_CMD_PACKET :: u8 where "ATA_CMD_PACKET = 0xA0"
definition ATA_CMD_IDENTIFY_PACKET :: u8 where "ATA_CMD_IDENTIFY_PACKET = 0xA1"
definition ATA_CMD_IDENTIFY :: u8 where "ATA_CMD_IDENTIFY = 0xEC"

definition ATA_REG_DATA :: nat where "ATA_REG_DATA = 0"
definition ATA_REG_ERROR :: nat where "ATA_REG_ERROR = 1"
definition ATA_REG_FEATURES :: nat where "ATA_REG_FEATURES = 1"
definition ATA_REG_SECTORS :: nat where "ATA_REG_SECTORS = 2"
definition ATAPI_REG_IREASON :: nat where "ATAPI_REG_IREASON = 2"
definition ATAPI_REG_CNTLOW :: nat where "ATAPI_REG_CNTLOW = 4"
definition ATA_REG_LBAHIGH :: nat where "ATA_REG_LBAHIGH = 5"
definition ATAPI_REG_CNTHIGH :: nat where "ATAPI_REG_CNTHIGH = 5"
definition ATA_REG_HDDEVSEL :: nat where "ATA_REG_HDDEVSEL = 6"
definition ATA_REG_COMMAND :: nat where "ATA_REG_COMMAND = 7"
definition ATA_REG_STATUS :: nat where "ATA_REG_STATUS = 7"
definition ATA_REG_ALTSTATUS :: nat where "ATA_REG_ALTSTATUS = 12"

definition ATAPI_IREASON_MASK :: u8 where "ATAPI_IREASON_MASK = 3"
definition ATAPI_IREASON_CMD_OUT :: u8 where "ATAPI_IREASON_CMD_OUT = 1"
definition ATAPI_IREASON_DATA_IN :: u8 where "ATAPI_IREASON_DATA_IN = 2"

definition ATA_IO_TIMEOUT :: nat where "ATA_IO_TIMEOUT = 1000000"

definition IDE_MAX_CHANNELS :: nat where "IDE_MAX_CHANNELS = 2"
definition IDE_PORT_PRIMARY :: u16 where "IDE_PORT_PRIMARY = 0x1f0"
definition IDE_PORT_SECONDARY :: u16 where "IDE_PORT_SECONDARY = 0x170"
definition IDE_CTRL_OFFSET :: u16 where "IDE_CTRL_OFFSET = 0x206"
definition ide_ports :: "u16 list" where "ide_ports = [IDE_PORT_PRIMARY, IDE_PORT_SECONDARY]"

lemmas ata_regs = ATA_REG_DATA_def ATA_REG_ERROR_def ATA_REG_FEATURES_def ATA_REG_SECTORS_def
  ATAPI_REG_IREASON_def ATAPI_REG_CNTLOW_def ATA_REG_LBAHIGH_def ATAPI_REG_CNTHIGH_def
  ATA_REG_HDDEVSEL_def ATA_REG_COMMAND_def ATA_REG_STATUS_def ATA_REG_ALTSTATUS_def

text \<open>The record \<^verbatim>\<open>private\<close> of a drive is the identify data behind the pointer.\<close>

record ide_dev =
  io_base :: u16
  control :: u16
  channel :: u16
  bmaster :: u32
  slave :: bool
  disk :: u8
  irq :: u8
  iprivate :: u32

definition ide_outb :: "'d drive \<Rightarrow> ide_dev \<Rightarrow> nat \<Rightarrow> u8 \<Rightarrow> 'd \<Rightarrow> 'd" where
  "ide_outb hw dev r v d = wr8 hw (io_base dev + of_nat r) v d"

definition ide_inb :: "'d drive \<Rightarrow> ide_dev \<Rightarrow> nat \<Rightarrow> 'd \<Rightarrow> u8 \<times> 'd" where
  "ide_inb hw dev r d = rd8 hw (io_base dev + of_nat r) d"

fun read_words :: "'d drive \<Rightarrow> ide_dev \<Rightarrow> nat \<Rightarrow> 'd \<Rightarrow> u16 list \<times> 'd" where
  "read_words hw dev 0 d = ([], d)"
| "read_words hw dev (Suc n) d =
     (let (w, d) = rd16 hw (io_base dev + of_nat ATA_REG_DATA) d; (ws, d) = read_words hw dev n d in (w # ws, d))"

definition word16_bytes :: "u16 \<Rightarrow> u8 list" where
  "word16_bytes w = [ucast w, ucast (drop_bit 8 w)]"

definition words16_bytes :: "u16 list \<Rightarrow> u8 list" where
  "words16_bytes ws = concat (map word16_bytes ws)"

definition ide_read_io :: "'d drive \<Rightarrow> ide_dev \<Rightarrow> u64 \<Rightarrow> 'd \<Rightarrow> u16 list \<times> 'd" where
  "ide_read_io hw dev sz d = read_words hw dev (unat (drop_bit 1 sz)) d"

text \<open>The words of a buffer of bytes; the words go out in the order of the memory.\<close>

fun bytes_words :: "u8 list \<Rightarrow> u16 list" where
  "bytes_words (a # b # bs) = (ucast a OR push_bit 8 (ucast b)) # bytes_words bs"
| "bytes_words _ = []"

definition ide_write_io :: "'d drive \<Rightarrow> ide_dev \<Rightarrow> u8 list \<Rightarrow> u64 \<Rightarrow> 'd \<Rightarrow> 'd" where
  "ide_write_io hw dev bs sz d =
     fold (\<lambda>w. wr16 hw (io_base dev + of_nat ATA_REG_DATA) w) (take (unat (drop_bit 1 sz)) (bytes_words bs)) d"

definition ide_poll_piodel :: "'d drive \<Rightarrow> ide_dev \<Rightarrow> 'd \<Rightarrow> 'd" where
  "ide_poll_piodel hw dev d =
     (let d = snd (ide_inb hw dev ATA_REG_ALTSTATUS d);
          d = snd (ide_inb hw dev ATA_REG_ALTSTATUS d);
          d = snd (ide_inb hw dev ATA_REG_ALTSTATUS d)
      in snd (ide_inb hw dev ATA_REG_ALTSTATUS d))"

fun poll_status :: "'d drive \<Rightarrow> ide_dev \<Rightarrow> nat \<Rightarrow> u8 \<Rightarrow> 'd \<Rightarrow> u8 \<times> 'd" where
  "poll_status hw dev 0 status d = (status, d)"
| "poll_status hw dev (Suc n) status d =
     (let (status, d) = ide_inb hw dev ATA_REG_STATUS d in
      if status AND ATA_SR_BSY = 0 then (status, d) else poll_status hw dev n status d)"

text \<open>The variable \<^verbatim>\<open>status\<close> starts uninitialised; the loop runs at least once.\<close>

definition ide_poll_status :: "'d drive \<Rightarrow> ide_dev \<Rightarrow> 'd \<Rightarrow> u8 \<times> 'd" where
  "ide_poll_status hw dev d = poll_status hw dev ATA_IO_TIMEOUT 0 d"

definition ide_poll_io :: "'d drive \<Rightarrow> ide_dev \<Rightarrow> 'd \<Rightarrow> u8 \<times> 'd" where
  "ide_poll_io hw dev d = ide_poll_status hw dev (ide_poll_piodel hw dev d)"

section \<open>Commands\<close>

text \<open>
  The union \<^verbatim>\<open>ata_regs_t\<close> is its bytes \<^verbatim>\<open>raw\<close>: features or error, sectors, the three address
  bytes, the drive, the command or status, and the upper bytes of sectors and address.
\<close>

record ata_cmd =
  wbuf :: "u8 list"
  bufsize :: u32
  packet :: "u8 list option"
  cmdsize :: u32
  cwrite :: bool
  reg :: "u8 list"

definition no_cmd :: ata_cmd where
  "no_cmd = \<lparr>wbuf = [], bufsize = 0, packet = None, cmdsize = 0, cwrite = False, reg = replicate 11 0\<rparr>"

definition reg_disk :: nat where "reg_disk = 5"
definition reg_cmd :: nat where "reg_cmd = 6"

fun out_regs :: "'d drive \<Rightarrow> ide_dev \<Rightarrow> nat list \<Rightarrow> (nat \<Rightarrow> u8) \<Rightarrow> 'd \<Rightarrow> 'd" where
  "out_regs hw dev [] f d = d"
| "out_regs hw dev (i # is) f d = out_regs hw dev is f (ide_outb hw dev i (f i) d)"

fun in_regs :: "'d drive \<Rightarrow> ide_dev \<Rightarrow> nat list \<Rightarrow> u8 list \<Rightarrow> 'd \<Rightarrow> u8 list \<times> 'd" where
  "in_regs hw dev [] r d = (r, d)"
| "in_regs hw dev (i # is) r d =
     (let (v, d) = ide_inb hw dev i d in in_regs hw dev is (r[i - ATA_REG_FEATURES := v]) d)"

text \<open>
  The loop over the data. The two counts of the packet protocol are read in the order of the
  expression. A step moves at least one byte, so the bytes that remain are the measure. The result is
  whether the loop failed, the number of bytes that it counts and the bytes it put into the buffer.
\<close>

definition chunk_ok :: "u32 \<Rightarrow> u32 \<Rightarrow> bool" where
  "chunk_ok n rest \<longleftrightarrow> n > 0 \<and> n \<le> rest \<and> (n AND 1 = 0 \<or> n = rest)"

definition chunk_size :: "'d drive \<Rightarrow> ide_dev \<Rightarrow> ata_cmd \<Rightarrow> u32 \<Rightarrow> 'd \<Rightarrow> u32 option \<times> 'd" where
  "chunk_size hw dev cmd rest d =
     (if cmdsize cmd \<noteq> 0 then
        let (status, d) = ide_inb hw dev ATAPI_REG_IREASON d in
        if status AND ATAPI_IREASON_MASK \<noteq> ATAPI_IREASON_DATA_IN then (None, d)
        else
          let (hi, d) = ide_inb hw dev ATAPI_REG_CNTHIGH d;
              (lo, d) = ide_inb hw dev ATAPI_REG_CNTLOW d;
              n = push_bit 8 (ucast hi) OR ucast lo
          in if chunk_ok n rest then (Some n, d) else (None, d)
      else (Some (if 512 > rest then rest else 512), d))"

lemma chunk_size_bounds:
  "chunk_size hw dev cmd rest d = (Some n, d') \<Longrightarrow> rest \<noteq> 0 \<Longrightarrow> 0 < n \<and> n \<le> rest"
  by (auto simp: chunk_size_def chunk_ok_def word_neq_0_conv Let_def split: if_splits prod.splits)

function data_loop :: "'d drive \<Rightarrow> ide_dev \<Rightarrow> ata_cmd \<Rightarrow> u32 \<Rightarrow> u8 list \<Rightarrow> u8 \<Rightarrow> 'd \<Rightarrow>
    bool \<times> u32 \<times> u8 list \<times> 'd" where
  "data_loop hw dev cmd nbread buf status d =
     (if \<not> nbread < bufsize cmd then (True, nbread, buf, d)
      else let rest = bufsize cmd - nbread in
      if status AND ATA_SR_POLL \<noteq> ATA_SR_DRQ then (True, nbread, buf, d)
      else case chunk_size hw dev cmd rest d of
        (None, d) \<Rightarrow> (False, nbread, buf, d)
      | (Some n, d) \<Rightarrow>
          let (buf, d) =
            (if cwrite cmd then (buf, ide_write_io hw dev (drop (unat nbread) (wbuf cmd)) (ucast n) d)
             else let (ws, d) = ide_read_io hw dev (ucast n) d in (buf @ words16_bytes ws, d));
            (status, d) = ide_poll_io hw dev d
          in data_loop hw dev cmd (nbread + n) buf status d)"
  by pat_completeness auto
termination
proof (relation "measure (\<lambda>(hw, dev, cmd, nbread, buf, status, d). unat (bufsize cmd - nbread))", goal_cases)
  case (2 hw dev cmd nbread buf status d rest r d1 n)
  then have lt: "nbread < bufsize cmd" and rest: "rest = bufsize cmd - nbread" by auto
  have nz: "rest \<noteq> 0" using lt rest by auto
  have "chunk_size hw dev cmd rest d = (Some n, d1)" using 2 by simp
  from chunk_size_bounds [OF this nz] have c: "0 < n" "n \<le> rest" by auto
  have "unat (bufsize cmd - (nbread + n)) = unat (rest - n)" by (simp only: rest diff_diff_eq)
  also have "\<dots> = unat rest - unat n" using c by (simp add: unat_sub)
  finally have "unat (bufsize cmd - (nbread + n)) = unat rest - unat n" .
  moreover have "0 < unat n" using c by (simp add: word_less_nat_alt)
  moreover have "0 < unat rest" using nz by (simp add: unat_gt_0)
  ultimately show ?case using rest by simp
qed simp

declare data_loop.simps [simp del]

text \<open>
  \<^verbatim>\<open>ide_send_command\<close> in its three parts: the registers and the packet go out, the data is moved, the
  registers are read back. The status register is not among those.
\<close>

definition issue_command :: "'d drive \<Rightarrow> ide_dev \<Rightarrow> ata_cmd \<Rightarrow> 'd \<Rightarrow> bool \<times> u8 \<times> 'd" where
  "issue_command hw dev cmd d =
     (let r = reg cmd;
          d = ide_outb hw dev ATA_REG_HDDEVSEL ((r ! reg_disk AND 0xef) OR push_bit 4 (of_bool (slave dev))) d;
          d = out_regs hw dev [ATA_REG_SECTORS..<ATA_REG_LBAHIGH + 1] (\<lambda>i. r ! (7 + (i - ATA_REG_SECTORS))) d;
          d = out_regs hw dev [ATA_REG_FEATURES..<ATA_REG_LBAHIGH + 1] (\<lambda>i. r ! (i - ATA_REG_FEATURES)) d;
          d = ide_outb hw dev ATA_REG_COMMAND (r ! reg_cmd) d;
          (status, d) = ide_poll_io hw dev d
      in case packet cmd of
           Some p \<Rightarrow>
             if cmdsize cmd = 0 then (True, status, d)
             else if status AND ATA_SR_POLL \<noteq> ATA_SR_DRQ then (False, status, d)
             else let (status, d) = ide_inb hw dev ATAPI_REG_IREASON d in
               if status AND ATAPI_IREASON_MASK \<noteq> ATAPI_IREASON_CMD_OUT then (False, status, d)
               else let d = ide_write_io hw dev p (ucast (cmdsize cmd)) d; (status, d) = ide_poll_io hw dev d
                 in (True, status, d)
         | None \<Rightarrow> (True, status, d))"

definition finish_command :: "'d drive \<Rightarrow> ide_dev \<Rightarrow> ata_cmd \<Rightarrow> u32 \<Rightarrow> 'd \<Rightarrow> status \<times> ata_cmd \<times> 'd" where
  "finish_command hw dev cmd nbread d =
     (let (status, d) = (if cwrite cmd then ide_poll_io hw dev d else (0, d)) in
      if cwrite cmd \<and> status AND (ATA_SR_DRQ OR ATA_SR_ERR) \<noteq> 0 then (Inl EFAULT, cmd, d)
      else
        let cmd = cmd\<lparr>bufsize := nbread\<rparr>;
            (_, d) = ide_poll_io hw dev d;
            (r, d) = in_regs hw dev [ATA_REG_ERROR..<ATA_REG_STATUS] (reg cmd) d;
            cmd = cmd\<lparr>reg := r\<rparr>
        in if r ! reg_cmd AND (ATA_SR_DRQ OR ATA_SR_ERR) \<noteq> 0 then (Inl EFAULT, cmd, d)
           else (ok, cmd, d))"

definition ide_send_command :: "'d drive \<Rightarrow> ide_dev \<Rightarrow> ata_cmd \<Rightarrow> 'd \<Rightarrow> status \<times> ata_cmd \<times> u8 list \<times> 'd" where
  "ide_send_command hw dev cmd d =
     (let (sent, status, d) = issue_command hw dev cmd d in
      if \<not> sent then (Inl EFAULT, cmd, [], d)
      else let (moved, nbread, buf, d) = data_loop hw dev cmd 0 [] status d in
      if \<not> moved then (Inl EFAULT, cmd, buf, d)
      else let (st, cmd, d) = finish_command hw dev cmd nbread d in (st, cmd, buf, d))"

section \<open>Packets\<close>

definition SCSI_CMD_REQUEST_SENSE :: u8 where "SCSI_CMD_REQUEST_SENSE = 0x03"
definition SCSI_CMD_READ_CAPACITY10 :: u8 where "SCSI_CMD_READ_CAPACITY10 = 0x25"
definition SCSI_CMD_READ12 :: u8 where "SCSI_CMD_READ12 = 0xA8"

definition le_bytes32 :: "u32 \<Rightarrow> u8 list" where
  "le_bytes32 v = [ucast v, ucast (drop_bit 8 v), ucast (drop_bit 16 v), ucast (drop_bit 24 v)]"

text \<open>The structures as they lie in memory, and the sizes of the answers.\<close>

definition scsi_request_sense :: "u8 list" where
  "scsi_request_sense = [SCSI_CMD_REQUEST_SENSE, 0, 0, 0, 18, 0] @ replicate 12 0"

definition scsi_request_sense_data_size :: u32 where "scsi_request_sense_data_size = 18"

definition scsi_read_capacity10 :: "u8 list" where
  "scsi_read_capacity10 = [SCSI_CMD_READ_CAPACITY10, 0] @ le_bytes32 0 @ [0, 0, 0, 0] @ [0, 0]"

definition scsi_read_capacity10_data_size :: u32 where "scsi_read_capacity10_data_size = 8"

definition scsi_xfer12 :: "u32 \<Rightarrow> u32 \<Rightarrow> u8 list" where
  "scsi_xfer12 lba num = [SCSI_CMD_READ12, 0] @ le_bytes32 lba @ le_bytes32 num @ [0, 0]"

text \<open>The status is an \<^verbatim>\<open>int\<close>: 0, a negated error, or the 1 of a failed logical expression.\<close>

definition ide_atapi_send :: "'d drive \<Rightarrow> ide_dev \<Rightarrow> u8 list \<Rightarrow> u32 \<Rightarrow> 'd \<Rightarrow> int \<times> u8 list \<times> 'd" where
  "ide_atapi_send hw dev pkg buflen d =
     (let r = (reg no_cmd)[4 := ucast (drop_bit 8 buflen AND 0xff), 3 := ucast (buflen AND 0xff), reg_cmd := ATA_CMD_PACKET];
          cmd = no_cmd\<lparr>packet := Some pkg, cmdsize := of_nat (length pkg), bufsize := buflen, reg := r\<rparr>;
          (st, cmd, buf, d) = ide_send_command hw dev cmd d
      in (of_bool (st \<noteq> ok \<or> bufsize cmd \<noteq> buflen), buf, d))"

definition ide_atapi_request_sense :: "'d drive \<Rightarrow> ide_dev \<Rightarrow> 'd \<Rightarrow> int \<times> 'd" where
  "ide_atapi_request_sense hw dev d =
     (let (r, _, d) = ide_atapi_send hw dev scsi_request_sense scsi_request_sense_data_size d in (r, d))"

text \<open>A block device with the fields of \<^verbatim>\<open>struct bdev\<close> that the drivers fill. The two 64-bit
  fields share their memory with the four 32-bit fields of the CHS geometry.\<close>

record blkdev = bdev +
  bd_init_block :: u64
  bd_last_block :: u64

definition set_low :: "u32 \<Rightarrow> u64 \<Rightarrow> u64" where
  "set_low v x = push_bit 32 (drop_bit 32 x) OR ucast v"

definition set_high :: "u32 \<Rightarrow> u64 \<Rightarrow> u64" where
  "set_high v x = push_bit 32 (ucast v) OR take_bit 32 x"

text \<open>The answer is on the stack; \<open>stack\<close> is what was there before.\<close>

definition be32_of :: "u8 list \<Rightarrow> u8 list \<Rightarrow> nat \<Rightarrow> u32" where
  "be32_of bs stack i =
     (let all = bs @ drop (length bs) stack in
      swap_bytes32 (ucast (all ! i) OR push_bit 8 (ucast (all ! (i + 1)))
        OR push_bit 16 (ucast (all ! (i + 2))) OR push_bit 24 (ucast (all ! (i + 3)))))"

definition ide_atapi_read_capacity :: "'d drive \<Rightarrow> ide_dev \<Rightarrow> u8 list \<Rightarrow> blkdev \<Rightarrow> 'd \<Rightarrow> int \<times> blkdev \<times> 'd" where
  "ide_atapi_read_capacity hw dev stack b d =
     (let (ret, rcd, d) = ide_atapi_send hw dev scsi_read_capacity10 scsi_read_capacity10_data_size d;
          (rs, d) = ide_atapi_request_sense hw dev d
      in if rs \<noteq> 0 then (- errno_val EFAULT, b, d)
      else if ret \<noteq> 0 then (ret, b, d)
      else (0, b\<lparr>bd_last_block := ucast (be32_of rcd stack 0), bdev_block_size := ucast (be32_of rcd stack 4)\<rparr>, d))"

section \<open>Operations of the block devices\<close>

definition ide_ata_send :: "'d drive \<Rightarrow> ide_dev \<Rightarrow> ata_cmd \<Rightarrow> u8 \<Rightarrow> 'd \<Rightarrow> status \<times> ata_cmd \<times> u8 list \<times> 'd" where
  "ide_ata_send hw dev cmd c d =
     ide_send_command hw dev (cmd\<lparr>reg := (reg cmd)[reg_disk := disk dev, reg_cmd := c]\<rparr>) d"

definition byte_of :: "u64 \<Rightarrow> nat \<Rightarrow> u8" where
  "byte_of v k = ucast (drop_bit k v AND 0xFF)"

definition lba_regs :: "bool \<Rightarrow> u64 \<Rightarrow> u64 \<Rightarrow> u8 list" where
  "lba_regs lba sector blknum =
     [0, byte_of blknum 0, byte_of sector 0, byte_of sector 8, byte_of sector 16, 0, 0] @
     (if lba then [byte_of blknum 8, byte_of sector 24, byte_of sector 32, byte_of sector 40]
      else [0, 0, 0, 0])"

definition ide_ata_read :: "'d drive \<Rightarrow> ide_dev \<Rightarrow> blkdev \<Rightarrow> u64 \<Rightarrow> u64 \<Rightarrow> 'd \<Rightarrow> int \<times> u8 list \<times> 'd" where
  "ide_ata_read hw dev b sector blknum d =
     (let len = ucast (bdev_block_size b) * blknum :: u64;
          cmd = no_cmd\<lparr>reg := lba_regs (bdev_flags b AND BDEV_FLAGS_LBA \<noteq> 0) sector blknum, bufsize := ucast len\<rparr>;
          (st, cmd, buf, d) = ide_ata_send hw dev cmd ATA_CMD_READ_PIO_EXT d
      in if st \<noteq> ok then (- errno_val EFAULT, buf, d)
      else if ucast (bufsize cmd) \<noteq> len then (- errno_val EFAULT, buf, d)
      else (0, buf, d))"

definition ide_ata_write :: "blkdev \<Rightarrow> u64 \<Rightarrow> u64 \<Rightarrow> u8 list \<Rightarrow> int" where
  "ide_ata_write b sector blknum buffer = 0"

definition ide_ata_ioctl :: "blkdev \<Rightarrow> int \<Rightarrow> int" where
  "ide_ata_ioctl b request = 0"

definition ide_atapi_read :: "'d drive \<Rightarrow> ide_dev \<Rightarrow> blkdev \<Rightarrow> u64 \<Rightarrow> u64 \<Rightarrow> 'd \<Rightarrow> int \<times> u8 list \<times> 'd" where
  "ide_atapi_read hw dev b sector blknum d =
     (let xf = scsi_xfer12 (swap_bytes32 (ucast sector)) (swap_bytes32 (ucast blknum));
          (ret, buf, d) = ide_atapi_send hw dev xf (ucast (blknum * ucast (bdev_block_size b))) d;
          (rs, d) = ide_atapi_request_sense hw dev d
      in if rs \<noteq> 0 then (- errno_val EFAULT, buf, d)
      else if ret \<noteq> 0 then (ret, buf, d) else (0, buf, d))"

definition ide_atapi_write :: "blkdev \<Rightarrow> u64 \<Rightarrow> u64 \<Rightarrow> u8 list \<Rightarrow> int" where
  "ide_atapi_write b sector blknum buffer = - errno_val ENOTSUP"

definition ide_atapi_ioctl :: "blkdev \<Rightarrow> int \<Rightarrow> int" where
  "ide_atapi_ioctl b request = 0"

text \<open>
  The tables of operations, for a drive in a given state: the layers above see a read as a function of
  the sector.
\<close>

definition ide_ata_bdev_ops :: "'d drive \<Rightarrow> ide_dev \<Rightarrow> blkdev \<Rightarrow> 'd \<Rightarrow> bdev_ops" where
  "ide_ata_bdev_ops hw dev b d =
     \<lparr>bread = Some (\<lambda>s n. let (r, buf, _) = ide_ata_read hw dev b s n d in (r, buf)),
      bwrite = Some (ide_ata_write b), bioctl = Some (ide_ata_ioctl b)\<rparr>"

definition ide_atapi_bdev_ops :: "'d drive \<Rightarrow> ide_dev \<Rightarrow> blkdev \<Rightarrow> 'd \<Rightarrow> bdev_ops" where
  "ide_atapi_bdev_ops hw dev b d =
     \<lparr>bread = Some (\<lambda>s n. let (r, buf, _) = ide_atapi_read hw dev b s n d in (r, buf)),
      bwrite = Some (ide_atapi_write b), bioctl = Some (ide_atapi_ioctl b)\<rparr>"

section \<open>Finding the drives\<close>

text \<open>
  The state of the driver: the drives and the file system, which holds the allocator and the devices.
  Memory from \<^verbatim>\<open>bmalloc\<close> is not cleared: what it holds at an address, read as a block device or
  as a drive of this driver, is a parameter. \<open>None\<close> is undefined behaviour in the file system or the
  allocator.
\<close>

record old_memory =
  old_bdev :: "u32 \<Rightarrow> blkdev"
  old_idedev :: "u32 \<Rightarrow> ide_dev"
  old_stack :: "u8 list"
  old_shift :: wide_shift

definition BDEV_BYTES :: u32 where "BDEV_BYTES = 52"
definition IDE_DEV_BYTES :: u32 where "IDE_DEV_BYTES = 24"

definition digit :: "nat \<Rightarrow> char" where "digit n = char_of (48 + n)"

definition ide_dev_name :: "ide_dev \<Rightarrow> string" where
  "ide_dev_name dev = ''ide'' @ [digit (unat (push_bit 1 (channel dev))), CHR ''-'', digit (of_bool (slave dev))]"

definition name_bdev :: "string \<Rightarrow> blkdev \<Rightarrow> vfs \<Rightarrow> (vfs \<times> blkdev option) option" where
  "name_bdev name b v =
     do { (v, p) \<leftarrow> vfs_strdup (str name) v;
          Some (v, if p = 0 then None else Some (b\<lparr>bdev_name := name\<rparr>)) }"

text \<open>The fields that follow from the identify data; \<^verbatim>\<open>flags\<close> keeps what the memory held.\<close>

definition ide_fill_ata :: "wide_shift \<Rightarrow> u16 list \<Rightarrow> blkdev \<Rightarrow> blkdev" where
  "ide_fill_ata wide params b =
     (let b = b\<lparr>bd_init_block := 0\<rparr>;
          b = (if libata_has_lba_support wide params then
                 b\<lparr>bdev_flags := bdev_flags b OR BDEV_FLAGS_LBA,
                   bd_last_block := ucast (libata_last_block wide params)\<rparr>
               else
                 b\<lparr>bd_init_block := set_high (libata_heads wide params) (set_low (libata_cylinders wide params) 0),
                   bd_last_block := set_low (libata_sectors_per_track wide params) (bd_last_block b)\<rparr>)
      in b\<lparr>bdev_block_size := ucast (libata_block_size wide params)\<rparr>)"

type_synonym 'd ide_result = "('d \<times> vfs \<times> status) option"

definition ide_init_ata :: "'d drive \<Rightarrow> old_memory \<Rightarrow> ide_dev \<Rightarrow> 'd \<Rightarrow> vfs \<Rightarrow> 'd ide_result" where
  "ide_init_ata hw old dev d v =
     do { (v, p) \<leftarrow> vmalloc ATA_IDENTIFY_SIZE v;
          if p = 0 then Some (d, v, Inl ENOMEM)
          else do {
            let dev = dev\<lparr>iprivate := p\<rparr>;
            let (params, d) = ide_read_io hw dev (ucast ATA_IDENTIFY_SIZE) d;
            (v, q) \<leftarrow> vmalloc BDEV_BYTES v;
            if q = 0 then do { v \<leftarrow> vfree p v; Some (d, v, Inl EFAULT) }
            else do {
              (v, named) \<leftarrow> name_bdev (ide_dev_name dev) ((old_bdev old q)\<lparr>bd_init_block := 0\<rparr>) v;
              case named of
                None \<Rightarrow> do { v \<leftarrow> vfree q v; v \<leftarrow> vfree p v; Some (d, v, Inl EFAULT) }
              | Some b \<Rightarrow>
                  let dev = dev\<lparr>disk := 0xe0\<rparr>; b = ide_fill_ata (old_shift old) params b
                  in do { (v, st) \<leftarrow> bdev_init (bdev.truncate b) (ide_ata_bdev_ops hw dev b d) v;
                          Some (d, v, st) } } } }"

definition ide_fill_atapi :: "'d drive \<Rightarrow> ide_dev \<Rightarrow> u8 list \<Rightarrow> blkdev \<Rightarrow> 'd \<Rightarrow> status \<times> blkdev \<times> 'd" where
  "ide_fill_atapi hw dev stack b d =
     (let (r, b, d) = ide_atapi_read_capacity hw dev stack b d in
      if r \<noteq> 0 then (Inl EFAULT, b, d)
      else (ok, b\<lparr>bdev_flags := bdev_flags b OR BDEV_FLAGS_LBA\<rparr>, d))"

definition ide_init_atapi :: "'d drive \<Rightarrow> old_memory \<Rightarrow> ide_dev \<Rightarrow> 'd \<Rightarrow> vfs \<Rightarrow> 'd ide_result" where
  "ide_init_atapi hw old dev d v =
     do { (v, q) \<leftarrow> vmalloc BDEV_BYTES v;
          if q = 0 then do { v \<leftarrow> vfree (iprivate dev) v; Some (d, v, Inl EFAULT) }
          else do {
            (v, named) \<leftarrow> name_bdev (ide_dev_name dev) (old_bdev old q) v;
            case named of
              None \<Rightarrow> do { v \<leftarrow> vfree q v; v \<leftarrow> vfree (iprivate dev) v; Some (d, v, Inl EFAULT) }
            | Some b \<Rightarrow>
                let dev = dev\<lparr>disk := 0\<rparr>; (st, b, d) = ide_fill_atapi hw dev (old_stack old) b d
                in case st of
                  Inl _ \<Rightarrow> do { v \<leftarrow> vfree q v; v \<leftarrow> vfree (iprivate dev) v; Some (d, v, Inl EFAULT) }
                | Inr _ \<Rightarrow> do { (v, st) \<leftarrow> bdev_init (bdev.truncate b) (ide_atapi_bdev_ops hw dev b d) v;
                               Some (d, v, st) } } }"

definition ide_identify :: "'d drive \<Rightarrow> old_memory \<Rightarrow> ide_dev \<Rightarrow> 'd \<Rightarrow> vfs \<Rightarrow> 'd ide_result" where
  "ide_identify hw old dev d v =
     (let d = ide_outb hw dev ATA_REG_HDDEVSEL (push_bit 4 (of_bool (slave dev))) d;
          d = ide_outb hw dev ATA_REG_COMMAND ATA_CMD_IDENTIFY d;
          (status, d) = ide_poll_io hw dev d
      in if status = 0 then Some (d, v, Inl ENODEV)
      else if status AND ATA_SR_POLL = ATA_SR_ERR then
        do { (d, v, st) \<leftarrow> ide_init_atapi hw old dev d v;
             if st = ok then Some (d, v, ok) else ide_init_ata hw old dev d v }
      else ide_init_ata hw old dev d v)"

definition PCI_BAR_MASK :: u32 where "PCI_BAR_MASK = 0xfffffffc"

definition ide_init_devchn :: "'d drive \<Rightarrow> old_memory \<Rightarrow> pci_dev \<Rightarrow> nat \<Rightarrow> bool \<Rightarrow> 'd \<Rightarrow> vfs \<Rightarrow> 'd ide_result" where
  "ide_init_devchn hw old pcidev chn sl d v =
     do { (v, p) \<leftarrow> vmalloc IDE_DEV_BYTES v;
          if p = 0 then Some (d, v, Inl ENOMEM)
          else
            let bm = bar pcidev ! 4;
                dev = (old_idedev old p)\<lparr>io_base := ide_ports ! chn, control := ide_ports ! chn + IDE_CTRL_OFFSET,
                  channel := of_nat chn, slave := sl, bmaster := (if bm AND 1 \<noteq> 0 then bm AND PCI_BAR_MASK else bm)\<rparr>
            in ide_identify hw old dev d v }"

fun init_channels :: "'d drive \<Rightarrow> old_memory \<Rightarrow> pci_dev \<Rightarrow> nat list \<Rightarrow> 'd \<Rightarrow> vfs \<Rightarrow> ('d \<times> vfs) option" where
  "init_channels hw old pcidev [] d v = Some (d, v)"
| "init_channels hw old pcidev (chn # chns) d v =
     do { (d, v, _) \<leftarrow> ide_init_devchn hw old pcidev chn False d v;
          (d, v, _) \<leftarrow> ide_init_devchn hw old pcidev chn True d v;
          init_channels hw old pcidev chns d v }"

definition ide_init_controller :: "'d drive \<Rightarrow> old_memory \<Rightarrow> pci_dev \<Rightarrow> 'd \<Rightarrow> vfs \<Rightarrow> 'd ide_result" where
  "ide_init_controller hw old pcidev d v =
     do { (d, v) \<leftarrow> init_channels hw old pcidev [0..<IDE_MAX_CHANNELS] d v; Some (d, v, ok) }"

definition PCI_CLASS_STORAGE :: u8 where "PCI_CLASS_STORAGE = 0x01"
definition PCI_SUBCLASS_STORAGE_IDE :: u8 where "PCI_SUBCLASS_STORAGE_IDE = 0x01"

definition PCI_DEVICE_CLASS :: "u8 \<Rightarrow> u8 \<Rightarrow> u8 \<Rightarrow> u32" where
  "PCI_DEVICE_CLASS cls sub prog = push_bit 24 (ucast cls) OR push_bit 16 (ucast sub) OR push_bit 8 (ucast prog)"

definition PCI_CLASS_IDE :: u32 where
  "PCI_CLASS_IDE = PCI_DEVICE_CLASS PCI_CLASS_STORAGE PCI_SUBCLASS_STORAGE_IDE 0x80"

definition ide_init :: "'d drive \<Rightarrow> old_memory \<Rightarrow> pci_dev list \<Rightarrow> 'd \<Rightarrow> vfs \<Rightarrow> 'd ide_result" where
  "ide_init hw old devs d v =
     do { found \<leftarrow> pci_get_class devs PCI_CLASS_IDE None;
          case found of None \<Rightarrow> Some (d, v, ok) | Some pcidev \<Rightarrow> ide_init_controller hw old pcidev d v }"

end
