(* ===== verification/IdeRead.thy ===== *)
theory IdeRead
  imports Ide
begin

text \<open>
  Reading through \<^verbatim>\<open>ide_ata_read\<close> against a drive that does what the ATA standard says of a
  PIO read. The drive is a parameter; \<open>ata_device\<close> states the documented behaviour that the driver relies
  on, over a view of the drive's state: the registers with their previous contents, the words that wait to
  be read and the number of status reads that will still answer busy.
\<close>

section \<open>The drive\<close>

record ata_view =
  taskfile :: "nat \<Rightarrow> u8"
  upper :: "nat \<Rightarrow> u8"
  pending :: "u16 list"
  busy :: nat

definition view_count :: "ata_view \<Rightarrow> nat" where
  "view_count a =
     (let n = unat (taskfile a 2) + 256 * unat (upper a 2) in if n = 0 then 65536 else n)"

definition view_lba :: "ata_view \<Rightarrow> nat" where
  "view_lba a =
     unat (taskfile a 3) + 256 * (unat (taskfile a 4) + 256 * (unat (taskfile a 5) + 256 *
       (unat (upper a 3) + 256 * (unat (upper a 4) + 256 * unat (upper a 5)))))"

text \<open>A sector is its list of words.\<close>

type_synonym sectors = "nat \<Rightarrow> u16 list"

definition sector_words :: "sectors \<Rightarrow> nat \<Rightarrow> nat \<Rightarrow> u16 list" where
  "sector_words dsk lba n = concat (map dsk [lba..<lba + n])"

definition takes_registers :: "'d drive \<Rightarrow> u16 \<Rightarrow> ('d \<Rightarrow> ata_view) \<Rightarrow> bool" where
  "takes_registers hw io view \<longleftrightarrow>
     (\<forall>d v. \<forall>i \<in> {1..5}. view (wr8 hw (io + of_nat i) v d) =
        (view d)\<lparr>upper := (upper (view d))(i := taskfile (view d) i), taskfile := (taskfile (view d))(i := v)\<rparr>) \<and>
     (\<forall>d v. view (wr8 hw (io + of_nat 6) v d) = view d)"

definition takes_read_command :: "'d drive \<Rightarrow> u16 \<Rightarrow> sectors \<Rightarrow> ('d \<Rightarrow> ata_view) \<Rightarrow> bool" where
  "takes_read_command hw io dsk view \<longleftrightarrow>
     (\<forall>d. \<exists>b < ATA_IO_TIMEOUT. view (wr8 hw (io + of_nat 7) ATA_CMD_READ_PIO_EXT d) =
        (view d)\<lparr>pending := sector_words dsk (view_lba (view d)) (view_count (view d)), busy := b\<rparr>)"

definition answers_status :: "'d drive \<Rightarrow> u16 \<Rightarrow> ('d \<Rightarrow> ata_view) \<Rightarrow> bool" where
  "answers_status hw io view \<longleftrightarrow>
     (\<forall>d. let (s, d') = rd8 hw (io + of_nat 7) d in
        if busy (view d) > 0 then s AND ATA_SR_BSY \<noteq> 0 \<and> view d' = (view d)\<lparr>busy := busy (view d) - 1\<rparr>
        else s AND ATA_SR_BSY = 0 \<and> view d' = view d \<and>
          s AND ATA_SR_POLL = (if pending (view d) = [] then 0 else ATA_SR_DRQ))"

definition answers_registers :: "'d drive \<Rightarrow> u16 \<Rightarrow> ('d \<Rightarrow> ata_view) \<Rightarrow> bool" where
  "answers_registers hw io view \<longleftrightarrow>
     (\<forall>d. \<forall>i \<in> {1, 2, 3, 4, 5, 6, 12}. view (snd (rd8 hw (io + of_nat i) d)) = view d)"

text \<open>Between the blocks of 256 words the drive may be busy again.\<close>

definition gives_data :: "'d drive \<Rightarrow> u16 \<Rightarrow> ('d \<Rightarrow> ata_view) \<Rightarrow> bool" where
  "gives_data hw io view \<longleftrightarrow>
     (\<forall>d w ws. busy (view d) = 0 \<and> pending (view d) = w # ws \<longrightarrow>
        fst (rd16 hw (io + of_nat 0) d) = w \<and>
        (\<exists>b < ATA_IO_TIMEOUT. (length ws mod 256 \<noteq> 0 \<longrightarrow> b = 0) \<and>
           view (snd (rd16 hw (io + of_nat 0) d)) = (view d)\<lparr>pending := ws, busy := b\<rparr>))"

definition ata_device :: "'d drive \<Rightarrow> u16 \<Rightarrow> sectors \<Rightarrow> ('d \<Rightarrow> ata_view) \<Rightarrow> bool" where
  "ata_device hw io dsk view \<longleftrightarrow>
     takes_registers hw io view \<and> takes_read_command hw io dsk view \<and> answers_status hw io view \<and>
     answers_registers hw io view \<and> gives_data hw io view"

section \<open>Polling and moving words\<close>

lemma poll_status_ready:
  assumes "answers_status hw (io_base dev) view" "busy (view d) < n"
  shows "\<exists>s d'. poll_status hw dev n st d = (s, d') \<and> view d' = (view d)\<lparr>busy := 0\<rparr> \<and>
    s AND ATA_SR_POLL = (if pending (view d) = [] then 0 else ATA_SR_DRQ)"
  using assms(2)
proof (induction n arbitrary: d st)
  case (Suc n)
  obtain s d' where r: "rd8 hw (io_base dev + of_nat 7) d = (s, d')" by (metis surj_pair)
  have a: "if busy (view d) > 0 then s AND ATA_SR_BSY \<noteq> 0 \<and> view d' = (view d)\<lparr>busy := busy (view d) - 1\<rparr>
      else s AND ATA_SR_BSY = 0 \<and> view d' = view d \<and>
        s AND ATA_SR_POLL = (if pending (view d) = [] then 0 else ATA_SR_DRQ)"
    using spec [OF assms(1) [unfolded answers_status_def], of d] by (simp only: r Let_def prod.case)
  have i: "ide_inb hw dev ATA_REG_STATUS d = (s, d')"
    using r by (simp add: ide_inb_def ata_regs)
  show ?case
  proof (cases "busy (view d) > 0")
    case True
    with a Suc.prems have "busy (view d') < n" by simp
    from Suc.IH [OF this, of s] True a show ?thesis by (simp add: i)
  next
    case False
    with a have "view d' = (view d)\<lparr>busy := 0\<rparr>" by simp
    with a False show ?thesis by (simp add: i)
  qed
qed simp

lemma poll_io_ready:
  assumes "ata_device hw (io_base dev) dsk view" "busy (view d) < ATA_IO_TIMEOUT"
  shows "\<exists>s d'. ide_poll_io hw dev d = (s, d') \<and> view d' = (view d)\<lparr>busy := 0\<rparr> \<and>
    s AND ATA_SR_POLL = (if pending (view d) = [] then 0 else ATA_SR_DRQ)"
proof -
  let ?e = "ide_poll_piodel hw dev d"
  have "\<And>d. view (snd (ide_inb hw dev ATA_REG_ALTSTATUS d)) = view d"
    using assms(1) unfolding ata_device_def answers_registers_def by (simp add: ide_inb_def ata_regs)
  then have e: "view ?e = view d" by (simp add: ide_poll_piodel_def)
  have "answers_status hw (io_base dev) view" using assms(1) by (simp add: ata_device_def)
  from poll_status_ready [OF this, of ?e ATA_IO_TIMEOUT 0] assms(2)
  show ?thesis by (simp add: e ide_poll_io_def ide_poll_status_def)
qed

lemma read_words_pending:
  assumes "gives_data hw (io_base dev) view"
  shows "busy (view d) = 0 \<Longrightarrow> pending (view d) = ws @ rest \<Longrightarrow> length ws \<le> 256 \<Longrightarrow> ws \<noteq> [] \<Longrightarrow>
    length rest mod 256 = 0 \<Longrightarrow>
    \<exists>d' b. b < ATA_IO_TIMEOUT \<and> read_words hw dev (length ws) d = (ws, d') \<and>
      view d' = (view d)\<lparr>pending := rest, busy := b\<rparr>"
proof (induction ws arbitrary: d)
  case (Cons w ws)
  obtain x d1 where r: "rd16 hw (io_base dev + of_nat 0) d = (x, d1)" by (metis surj_pair)
  have "busy (view d) = 0 \<and> pending (view d) = w # (ws @ rest)" using Cons.prems(1,2) by simp
  from assms [unfolded gives_data_def, rule_format, OF this, unfolded r fst_conv snd_conv]
  obtain b where b: "x = w" "b < ATA_IO_TIMEOUT" "length (ws @ rest) mod 256 \<noteq> 0 \<longrightarrow> b = 0"
      "view d1 = (view d)\<lparr>pending := ws @ rest, busy := b\<rparr>"
    by blast
  have io: "rd16 hw (io_base dev + of_nat ATA_REG_DATA) d = (w, d1)" using r b(1) by (simp add: ata_regs)
  show ?case
  proof (cases "ws = []")
    case True
    with b io show ?thesis by auto
  next
    case False
    have "length (ws @ rest) mod 256 = length ws mod 256"
      using Cons.prems(5) by (simp add: mod_add_right_eq [symmetric])
    also have "\<dots> = length ws" using Cons.prems(3) by simp
    finally have z: "b = 0" using b(3) False by simp
    have "busy (view d1) = 0" "pending (view d1) = ws @ rest" using b(4) z by simp_all
    from Cons.IH [OF this _ False Cons.prems(5)] Cons.prems(3) obtain d' b'
      where "b' < ATA_IO_TIMEOUT" "read_words hw dev (length ws) d1 = (ws, d')"
        "view d' = (view d1)\<lparr>pending := rest, busy := b'\<rparr>" by auto
    with io b(4) show ?thesis by auto
  qed
qed simp

lemma words16_bytes_append: "words16_bytes (xs @ ys) = words16_bytes xs @ words16_bytes ys"
  by (simp add: words16_bytes_def)

lemma length_words16_bytes: "length (words16_bytes ws) = 2 * length ws"
  by (induction ws) (simp_all add: words16_bytes_def word16_bytes_def)

lemma read_chunk:
  assumes dev: "ata_device hw (io_base dev) dsk view"
    and d: "busy (view d) = 0" "length (pending (view d)) = 256 * Suc k"
  shows "\<exists>d' s e. ide_read_io hw dev (ucast (512::u32)) d = (take 256 (pending (view d)), e) \<and>
    ide_poll_io hw dev e = (s, d') \<and>
    view d' = (view d)\<lparr>pending := drop 256 (pending (view d)), busy := 0\<rparr> \<and>
    s AND ATA_SR_POLL = (if drop 256 (pending (view d)) = [] then 0 else ATA_SR_DRQ)"
proof -
  let ?p = "pending (view d)"
  have g: "gives_data hw (io_base dev) view" using dev by (simp add: ata_device_def)
  have l: "length (take 256 ?p) = 256" using d(2) by simp
  have nonempty: "take 256 ?p \<noteq> []" using l by auto
  have rest: "length (drop 256 ?p) mod 256 = 0" using d(2) by simp
  obtain e b where e: "b < ATA_IO_TIMEOUT" "read_words hw dev 256 d = (take 256 ?p, e)"
      "view e = (view d)\<lparr>pending := drop 256 ?p, busy := b\<rparr>"
    using read_words_pending [OF g d(1), of "take 256 ?p" "drop 256 ?p"] l nonempty rest by auto
  have "unat (drop_bit 1 (ucast (512::u32) :: u64)) = 256" by simp
  then have r: "ide_read_io hw dev (ucast (512::u32)) d = (take 256 ?p, e)"
    using e(2) by (simp add: ide_read_io_def)
  from poll_io_ready [OF dev, of e] e(1,3) obtain s d' where
    "ide_poll_io hw dev e = (s, d')" "view d' = (view e)\<lparr>busy := 0\<rparr>"
    "s AND ATA_SR_POLL = (if drop 256 ?p = [] then 0 else ATA_SR_DRQ)" by auto
  with r e(3) show ?thesis by auto
qed

lemma data_loop_reads:
  assumes dev: "ata_device hw (io_base dev) dsk view" and cmd: "\<not> cwrite cmd" "cmdsize cmd = 0"
  shows "busy (view d) = 0 \<Longrightarrow> length (pending (view d)) = 256 * k \<Longrightarrow>
    unat (bufsize cmd) = unat nbread + 512 * k \<Longrightarrow>
    status AND ATA_SR_POLL = (if pending (view d) = [] then 0 else ATA_SR_DRQ) \<Longrightarrow>
    \<exists>d'. data_loop hw dev cmd nbread buf status d =
        (True, bufsize cmd, buf @ words16_bytes (pending (view d)), d') \<and>
      view d' = (view d)\<lparr>pending := [], busy := 0\<rparr>"
proof (induction k arbitrary: nbread buf status d)
  case 0
  then have "unat nbread = unat (bufsize cmd)" by simp
  then have "nbread = bufsize cmd" by (simp only: unsigned_word_eqI)
  moreover have "pending (view d) = []" using 0 by simp
  moreover have "view d = (view d)\<lparr>pending := [], busy := 0\<rparr>" using 0 calculation(2) by simp
  ultimately show ?case
    by (subst data_loop.simps) (simp add: words16_bytes_def)
next
  case (Suc k)
  let ?p = "pending (view d)"
  have lt: "nbread < bufsize cmd" using Suc.prems(3) by (simp add: word_less_nat_alt)
  have left: "unat (bufsize cmd - nbread) = 512 * Suc k"
    using lt Suc.prems(3) by (simp add: unat_sub)
  have "?p \<noteq> []" using Suc.prems(2) by auto
  then have st: "status AND ATA_SR_POLL = ATA_SR_DRQ" using Suc.prems(4) by simp
  have ge: "\<not> bufsize cmd - nbread < 512" using left by (simp add: word_less_nat_alt)
  then have c: "chunk_size hw dev cmd (bufsize cmd - nbread) d = (Some 512, d)"
    using cmd(2) by (simp only: chunk_size_def cmd(2) simp_thms if_False)
  from read_chunk [OF dev Suc.prems(1,2)] obtain d1 s e where
    r: "ide_read_io hw dev (ucast (512::u32)) d = (take 256 ?p, e)" and
    io: "ide_poll_io hw dev e = (s, d1)" and
    v: "view d1 = (view d)\<lparr>pending := drop 256 ?p, busy := 0\<rparr>" and
    s: "s AND ATA_SR_POLL = (if drop 256 ?p = [] then 0 else ATA_SR_DRQ)" by blast
  have step: "data_loop hw dev cmd nbread buf status d =
      data_loop hw dev cmd (nbread + 512) (buf @ words16_bytes (take 256 ?p)) s d1"
    unfolding data_loop.simps [of hw dev cmd nbread]
    by (simp only: lt st c cmd(1) r io Let_def simp_thms if_False if_True prod.case option.case)
  have "unat nbread + unat (512::u32) < 2 ^ LENGTH(32)"
    using Suc.prems(3) unat_lt32 [of "bufsize cmd"] by simp
  then have "unat (nbread + 512) = unat nbread + 512" by (simp add: unat_plus_lt)
  then have "unat (bufsize cmd) = unat (nbread + 512) + 512 * k" using Suc.prems(3) by simp
  from Suc.IH [OF _ _ this, of d1 s "buf @ words16_bytes (take 256 ?p)"] v s Suc.prems(2) show ?case
    by (auto simp: step words16_bytes_append [symmetric])
qed

section \<open>Registers\<close>

lemma out_regs_view:
  assumes "takes_registers hw (io_base dev) view"
  shows "distinct is \<Longrightarrow> set is \<subseteq> {1..5} \<Longrightarrow>
    view (out_regs hw dev is f d) =
      (view d)\<lparr>upper := (\<lambda>i. if i \<in> set is then taskfile (view d) i else upper (view d) i),
        taskfile := (\<lambda>i. if i \<in> set is then f i else taskfile (view d) i)\<rparr>"
proof (induction "is" arbitrary: d)
  case (Cons i "is")
  have "view (ide_outb hw dev i (f i) d) =
      (view d)\<lparr>upper := (upper (view d))(i := taskfile (view d) i), taskfile := (taskfile (view d))(i := f i)\<rparr>"
    using assms Cons.prems(2) by (simp add: takes_registers_def ide_outb_def)
  with Cons show ?case by (auto simp: fun_eq_iff)
qed simp

lemma in_regs_view:
  assumes "answers_registers hw (io_base dev) view"
  shows "set is \<subseteq> {1, 2, 3, 4, 5, 6, 12} \<Longrightarrow>
    \<exists>r' d'. in_regs hw dev is r d = (r', d') \<and> view d' = view d \<and> (\<forall>k. Suc k \<notin> set is \<longrightarrow> r' ! k = r ! k)"
proof (induction "is" arbitrary: r d)
  case (Cons i "is")
  obtain v d1 where i: "ide_inb hw dev i d = (v, d1)" by (metis surj_pair)
  have i1: "i \<ge> 1" using Cons.prems by auto
  have v: "view d1 = view d"
    using assms Cons.prems i unfolding answers_registers_def ide_inb_def
    by (metis insert_subset list.simps(15) snd_conv)
  obtain r' d' where "in_regs hw dev is (r[i - 1 := v]) d1 = (r', d')" "view d' = view d1"
      "\<forall>k. Suc k \<notin> set is \<longrightarrow> r' ! k = r[i - 1 := v] ! k"
    using Cons.IH [of "r[i - 1 := v]" d1] Cons.prems by auto
  moreover have "r[i - 1 := v] ! k = r ! k" if "Suc k \<noteq> i" for k
    using that i1 by (intro nth_list_update_neq) auto
  ultimately show ?case using i v by (auto simp: ata_regs)
qed simp

lemma unat_byte_of: "unat (byte_of v k) = unat v div 2 ^ k mod 256"
proof -
  have m: "(0xFF::u64) = mask 8" by (simp add: mask_eq_exp_minus_1)
  have "byte_of v k = ucast (drop_bit k v)"
    unfolding byte_of_def m by (rule bit_word_eqI) (auto simp: bit_simps)
  moreover have "unat v < 2 ^ LENGTH(64)" by (rule unsigned_less)
  ultimately show ?thesis
    by (simp add: unsigned_ucast_eq unsigned_drop_bit_eq take_bit_eq_mod) (simp add: drop_bit_eq_div)
qed


lemma mod_digits: "(n::nat) mod 256 + 256 * (n div 256 mod m) = n mod (256 * m)"
  by (simp add: mod_mult2_eq)

lemma lba_regs_view:
  assumes "\<And>i. i \<in> {1..5} \<Longrightarrow> taskfile a i = lba_regs True sector blknum ! (i - 1)"
    and "\<And>i. i \<in> {2..5} \<Longrightarrow> upper a i = lba_regs True sector blknum ! (5 + i)"
    and "unat sector < 2 ^ 48" "1 \<le> unat blknum" "unat blknum \<le> 65536"
  shows "view_lba a = unat sector" "view_count a = unat blknum"
proof -
  have t: "taskfile a 2 = byte_of blknum 0" "taskfile a 3 = byte_of sector 0"
      "taskfile a 4 = byte_of sector 8" "taskfile a 5 = byte_of sector 16"
    using assms(1) [of 2] assms(1) [of 3] assms(1) [of 4] assms(1) [of 5]
    by (simp_all add: lba_regs_def)
  have u: "upper a 2 = byte_of blknum 8" "upper a 3 = byte_of sector 24"
      "upper a 4 = byte_of sector 32" "upper a 5 = byte_of sector 40"
    using assms(2) [of 2] assms(2) [of 3] assms(2) [of 4] assms(2) [of 5]
    by (simp_all add: lba_regs_def)
  have d: "n div 2 ^ 16 = n div 256 div 256" "n div 2 ^ 24 = n div 256 div 256 div 256"
      "n div 2 ^ 32 = n div 256 div 256 div 256 div 256"
      "n div 2 ^ 40 = n div 256 div 256 div 256 div 256 div 256" for n :: nat
    by (simp_all add: div_mult2_eq [symmetric])
  have "view_lba a = unat sector mod 2 ^ 48"
    by (simp only: view_lba_def t u unat_byte_of d mod_digits) (simp add: mod_digits)
  then show "view_lba a = unat sector" using assms(3) by simp
  show "view_count a = unat blknum"
  proof (cases "unat blknum = 65536")
    case True
    then show ?thesis by (simp add: view_count_def t u unat_byte_of)
  next
    case False
    have "unat blknum mod 256 + 256 * (unat blknum div 2 ^ 8 mod 256) = unat blknum"
      using assms(5) False by (simp add: mod_digits)
    then show ?thesis using assms(4) by (simp add: view_count_def t u unat_byte_of Let_def)
  qed
qed

lemma finish_read:
  assumes "\<not> cwrite cmd" "ide_poll_io hw dev d = (s, d1)"
    "in_regs hw dev [ATA_REG_ERROR..<ATA_REG_STATUS] (reg cmd) d1 = (r, d2)"
    "r ! reg_cmd AND (ATA_SR_DRQ OR ATA_SR_ERR) = 0"
  shows "finish_command hw dev cmd n d = (ok, cmd\<lparr>bufsize := n, reg := r\<rparr>, d2)"
  using assms by (simp add: finish_command_def)

lemma send_command_parts:
  assumes "issue_command hw dev cmd d = (True, s, d1)" "finish_command hw dev cmd n d2 = (st, cmd', d3)"
    "data_loop hw dev cmd 0 [] s d1 = (True, n, buf, d2)"
  shows "ide_send_command hw dev cmd d = (st, cmd', buf, d3)"
  using assms by (simp add: ide_send_command_def)

section \<open>Reading sectors\<close>

lemma ucast_u32_u64: "unat (x::u64) < 2 ^ 32 \<Longrightarrow> ucast (ucast x :: u32) = x"
proof -
  assume a: "unat x < 2 ^ 32"
  have "unat (ucast (ucast x :: u32) :: u64) = take_bit LENGTH(64) (take_bit LENGTH(32) (unat x))"
    by (subst unsigned_ucast_eq, subst unsigned_ucast_eq) (rule refl)
  also have "\<dots> = unat x" using a by (simp add: take_bit_nat_eq_self)
  finally show ?thesis by (simp only: unsigned_word_eqI)
qed

lemma length_sector_words:
  "(\<And>n. length (dsk n) = w) \<Longrightarrow> length (sector_words dsk lba n) = w * n"
  by (simp add: sector_words_def length_concat o_def sum_list_triv)

lemma upd_view: "pending (a\<lparr>pending := p, busy := b\<rparr>) = p" "busy (a\<lparr>pending := p, busy := b\<rparr>) = b"
  by simp_all

lemma selects_drive:
  "takes_registers hw (io_base dev) view \<Longrightarrow> view (ide_outb hw dev ATA_REG_HDDEVSEL v d) = view d"
  by (simp add: takes_registers_def ide_outb_def ata_regs)

lemma send_read_registers:
  assumes dev: "ata_device hw (io_base dev) dsk view"
    and r: "r = lba_regs True sector blknum" and regs: "r' = r[reg_disk := x, reg_cmd := ATA_CMD_READ_PIO_EXT]"
    and range: "unat sector < 2 ^ 48" "1 \<le> unat blknum" "unat blknum \<le> 65536"
  shows "\<exists>d' b. b < ATA_IO_TIMEOUT \<and> pending (view d') = sector_words dsk (unat sector) (unat blknum) \<and>
    busy (view d') = b \<and>
    ide_outb hw dev ATA_REG_COMMAND (r' ! reg_cmd)
      (out_regs hw dev [ATA_REG_FEATURES..<ATA_REG_LBAHIGH + 1] (\<lambda>i. r' ! (i - ATA_REG_FEATURES))
        (out_regs hw dev [ATA_REG_SECTORS..<ATA_REG_LBAHIGH + 1] (\<lambda>i. r' ! (7 + (i - ATA_REG_SECTORS))) d)) = d'"
proof -
  let ?d1 = "out_regs hw dev [ATA_REG_SECTORS..<ATA_REG_LBAHIGH + 1] (\<lambda>i. r' ! (7 + (i - ATA_REG_SECTORS))) d"
  let ?d2 = "out_regs hw dev [ATA_REG_FEATURES..<ATA_REG_LBAHIGH + 1] (\<lambda>i. r' ! (i - ATA_REG_FEATURES)) ?d1"
  have tr: "takes_registers hw (io_base dev) view" using dev by (simp add: ata_device_def)
  have low: "r' ! k = lba_regs True sector blknum ! k" if "k < 5 \<or> 6 < k" for k
    using that by (auto simp: regs r reg_disk_def reg_cmd_def)
  have s: "set [ATA_REG_SECTORS..<ATA_REG_LBAHIGH + 1] = {2..5}" "set [ATA_REG_FEATURES..<ATA_REG_LBAHIGH + 1] = {1..5}"
    by (auto simp: ata_regs)
  have "{2..5} \<subseteq> {1..5::nat}" by auto
  note w1 = out_regs_view [OF tr distinct_upt, of ATA_REG_SECTORS "ATA_REG_LBAHIGH + 1", unfolded s, OF this]
  note w2 = out_regs_view [OF tr distinct_upt, of ATA_REG_FEATURES "ATA_REG_LBAHIGH + 1", unfolded s, OF order_refl]
  have v1: "taskfile (view ?d1) i = r' ! (7 + (i - 2))" if "i \<in> {2..5}" for i
    using that by (simp only: w1) (simp add: ATA_REG_SECTORS_def)
  have v2: "taskfile (view ?d2) i = r' ! (i - 1)" "upper (view ?d2) i = taskfile (view ?d1) i"
    if "i \<in> {1..5}" for i
    using that by (simp_all only: w2) (simp_all add: ATA_REG_FEATURES_def)
  have t: "taskfile (view ?d2) i = lba_regs True sector blknum ! (i - 1)" if "i \<in> {1..5}" for i
  proof -
    have "i - 1 < 5" using that by auto
    then show ?thesis using low [of "i - 1"] by (simp only: v2(1) [OF that] simp_thms)
  qed
  have u: "upper (view ?d2) i = lba_regs True sector blknum ! (5 + i)" if "i \<in> {2..5}" for i
  proof -
    have i: "6 < 5 + i" "i \<in> {1..5}" "7 + (i - 2) = 5 + i" using that by auto
    then show ?thesis using low [of "5 + i"] by (simp only: v2(2) [OF i(2)] v1 [OF that] simp_thms)
  qed
  note at = lba_regs_view [of "view ?d2", OF t u range]
  have "r' ! reg_cmd = ATA_CMD_READ_PIO_EXT"
    by (simp add: regs r reg_disk_def reg_cmd_def lba_regs_def)
  then have "ide_outb hw dev ATA_REG_COMMAND (r' ! reg_cmd) ?d2 =
      wr8 hw (io_base dev + of_nat 7) ATA_CMD_READ_PIO_EXT ?d2"
    by (simp add: ide_outb_def ata_regs)
  moreover have "takes_read_command hw (io_base dev) dsk view" using dev by (simp add: ata_device_def)
  then obtain b where "b < ATA_IO_TIMEOUT" "view (wr8 hw (io_base dev + of_nat 7) ATA_CMD_READ_PIO_EXT ?d2) =
      (view ?d2)\<lparr>pending := sector_words dsk (view_lba (view ?d2)) (view_count (view ?d2)), busy := b\<rparr>"
    unfolding takes_read_command_def by blast
  moreover from this have "pending (view (wr8 hw (io_base dev + of_nat 7) ATA_CMD_READ_PIO_EXT ?d2)) =
      sector_words dsk (unat sector) (unat blknum)"
    "busy (view (wr8 hw (io_base dev + of_nat 7) ATA_CMD_READ_PIO_EXT ?d2)) = b"
    by (simp_all only: at upd_view)
  ultimately show ?thesis by (intro exI conjI)
qed


text \<open>A read command that went out to the drive, with a buffer for all the words that wait.\<close>

lemma send_read_command:
  assumes dev: "ata_device hw (io_base dev) dsk view"
    and cmd: "packet cmd = None" "cwrite cmd = False" "cmdsize cmd = 0" "reg cmd ! reg_cmd = ATA_CMD_READ_PIO_EXT"
    and out: "ide_outb hw dev ATA_REG_COMMAND (reg cmd ! reg_cmd)
      (out_regs hw dev [ATA_REG_FEATURES..<ATA_REG_LBAHIGH + 1] (\<lambda>i. reg cmd ! (i - ATA_REG_FEATURES))
        (out_regs hw dev [ATA_REG_SECTORS..<ATA_REG_LBAHIGH + 1] (\<lambda>i. reg cmd ! (7 + (i - ATA_REG_SECTORS)))
          (ide_outb hw dev ATA_REG_HDDEVSEL ((reg cmd ! reg_disk AND 0xef) OR push_bit 4 (of_bool (slave dev))) d))) = d1"
    and d1: "busy (view d1) < ATA_IO_TIMEOUT" "pending (view d1) = ws"
    and w: "length ws = 256 * k" "unat (bufsize cmd) = 512 * k"
  shows "\<exists>r d'. ide_send_command hw dev cmd d = (ok, cmd\<lparr>bufsize := bufsize cmd, reg := r\<rparr>, words16_bytes ws, d') \<and>
    pending (view d') = [] \<and> busy (view d') = 0"
proof -
  from poll_io_ready [OF dev d1(1)] obtain s d2 where
    p1: "ide_poll_io hw dev d1 = (s, d2)" and v2: "view d2 = (view d1)\<lparr>busy := 0\<rparr>" and
    s: "s AND ATA_SR_POLL = (if ws = [] then 0 else ATA_SR_DRQ)" using d1(2) by auto
  have "\<not> cwrite cmd" "unat (bufsize cmd) = unat (0::u32) + 512 * k" using cmd(2) w(2) by simp_all
  from data_loop_reads [OF dev this(1) cmd(3), of d2 k 0 s "[]", OF _ _ this(2)] v2 d1(2) w(1) s
  obtain d3 where loop: "data_loop hw dev cmd 0 [] s d2 = (True, bufsize cmd, words16_bytes ws, d3)" and
    v3: "view d3 = (view d2)\<lparr>pending := [], busy := 0\<rparr>" by auto
  from poll_io_ready [OF dev, of d3] v3 obtain s4 d4 where
    p4: "ide_poll_io hw dev d3 = (s4, d4)" and v4: "view d4 = (view d3)\<lparr>busy := 0\<rparr>"
    by (auto simp: ATA_IO_TIMEOUT_def)
  have ar: "answers_registers hw (io_base dev) view" using dev by (simp add: ata_device_def)
  have "set [ATA_REG_ERROR..<ATA_REG_STATUS] \<subseteq> {1, 2, 3, 4, 5, 6, 12}" by (auto simp: ata_regs)
  from in_regs_view [OF ar this, of "reg cmd" d4] obtain r5 d5 where
    in5: "in_regs hw dev [ATA_REG_ERROR..<ATA_REG_STATUS] (reg cmd) d4 = (r5, d5)" and v5: "view d5 = view d4" and
    "\<forall>k. Suc k \<notin> set [ATA_REG_ERROR..<ATA_REG_STATUS] \<longrightarrow> r5 ! k = reg cmd ! k" by blast
  then have "r5 ! reg_cmd = ATA_CMD_READ_PIO_EXT" using cmd(4) by (simp add: ata_regs reg_cmd_def)
  then have last: "r5 ! reg_cmd AND (ATA_SR_DRQ OR ATA_SR_ERR) = 0"
    by (simp add: ATA_CMD_READ_PIO_EXT_def ATA_SR_DRQ_def ATA_SR_ERR_def)
  have "issue_command hw dev cmd d = (True, s, d2)"
    unfolding issue_command_def cmd(1-3) Let_def out p1 by (simp only: prod.case option.case)
  moreover have "finish_command hw dev cmd (bufsize cmd) d3 = (ok, cmd\<lparr>bufsize := bufsize cmd, reg := r5\<rparr>, d5)"
    by (rule finish_read [OF _ p4 _ last]) (simp_all only: cmd in5 simp_thms)
  ultimately have "ide_send_command hw dev cmd d = (ok, cmd\<lparr>bufsize := bufsize cmd, reg := r5\<rparr>, words16_bytes ws, d5)"
    using loop by (intro send_command_parts)
  moreover have "pending (view d5) = [] \<and> busy (view d5) = 0" using v5 v4 v3 by simp
  ultimately show ?thesis by blast
qed

text \<open>
  C7: a read of a drive that keeps to the standard returns the sectors.
\<close>

theorem ide_ata_read_sectors:
  assumes dev: "ata_device hw (io_base dev) dsk view"
    and sectors: "\<And>n. length (dsk n) = 256 * m" "unat (bdev_block_size b) = 512 * m"
    and lba: "bdev_flags b AND BDEV_FLAGS_LBA \<noteq> 0"
    and range: "unat sector < 2 ^ 48" "1 \<le> unat blknum" "unat blknum \<le> 65536"
    and size: "unat (bdev_block_size b) * unat blknum < 2 ^ 32"
  shows "\<exists>d'. ide_ata_read hw dev b sector blknum d =
      (0, words16_bytes (sector_words dsk (unat sector) (unat blknum)), d') \<and>
    pending (view d') = [] \<and> busy (view d') = 0"
proof -
  let ?len = "ucast (bdev_block_size b) * blknum :: u64"
  let ?ws = "sector_words dsk (unat sector) (unat blknum)"
  let ?r = "lba_regs True sector blknum"
  let ?r' = "?r[reg_disk := disk dev, reg_cmd := ATA_CMD_READ_PIO_EXT]"
  let ?cmd = "no_cmd\<lparr>bufsize := ucast ?len, reg := ?r'\<rparr>"
  have "unat (bdev_block_size b) < 2 ^ LENGTH(16)" by (rule unsigned_less)
  then have "unat (ucast (bdev_block_size b) :: u64) = unat (bdev_block_size b)"
    by (simp add: unsigned_ucast_eq take_bit_eq_mod)
  then have len: "unat ?len = unat (bdev_block_size b) * unat blknum"
    using size by (simp add: unat_word_ariths)
  have len32: "unat (ucast ?len :: u32) = unat ?len"
    using len size by (simp add: unsigned_ucast_eq take_bit_eq_mod)
  have widen: "ucast (ucast ?len :: u32) = ?len"
    by (rule ucast_u32_u64) (simp only: len size)
  from send_read_registers [OF dev refl refl range] obtain d1 c where
    d1: "c < ATA_IO_TIMEOUT" "pending (view d1) = ?ws" "busy (view d1) = c" and
    out: "ide_outb hw dev ATA_REG_COMMAND (?r' ! reg_cmd)
      (out_regs hw dev [ATA_REG_FEATURES..<ATA_REG_LBAHIGH + 1] (\<lambda>i. ?r' ! (i - ATA_REG_FEATURES))
        (out_regs hw dev [ATA_REG_SECTORS..<ATA_REG_LBAHIGH + 1] (\<lambda>i. ?r' ! (7 + (i - ATA_REG_SECTORS)))
          (ide_outb hw dev ATA_REG_HDDEVSEL ((?r' ! reg_disk AND 0xef) OR push_bit 4 (of_bool (slave dev))) d))) = d1"
    by blast
  have w: "length ?ws = 256 * (m * unat blknum)" "unat (bufsize ?cmd) = 512 * (m * unat blknum)"
    using length_sector_words [OF sectors(1)] len len32 sectors(2) by simp_all
  have cmd: "packet ?cmd = None" "cwrite ?cmd = False" "cmdsize ?cmd = 0" "reg ?cmd = ?r'"
    "reg ?cmd ! reg_cmd = ATA_CMD_READ_PIO_EXT"
    by (simp_all add: no_cmd_def reg_cmd_def reg_disk_def lba_regs_def)
  have "\<exists>r d'. ide_send_command hw dev ?cmd d = (ok, ?cmd\<lparr>bufsize := bufsize ?cmd, reg := r\<rparr>, words16_bytes ?ws, d') \<and>
      pending (view d') = [] \<and> busy (view d') = 0"
    by (rule send_read_command [OF dev cmd(1-3,5) _ _ d1(2) w]) (simp_all only: cmd(4) out d1)
  then obtain r d' where "ide_send_command hw dev ?cmd d = (ok, ?cmd\<lparr>bufsize := bufsize ?cmd, reg := r\<rparr>, words16_bytes ?ws, d')"
      and v: "pending (view d') = [] \<and> busy (view d') = 0"
    by blast
  then have "ide_ata_send hw dev (no_cmd\<lparr>reg := ?r, bufsize := ucast ?len\<rparr>) ATA_CMD_READ_PIO_EXT d =
      (ok, ?cmd\<lparr>bufsize := ucast ?len, reg := r\<rparr>, words16_bytes ?ws, d')"
    by (simp add: ide_ata_send_def)
  then have "ide_ata_read hw dev b sector blknum d = (0, words16_bytes ?ws, d')"
    using lba by (simp add: ide_ata_read_def widen)
  with v show ?thesis by blast
qed

text \<open>A drive that keeps to the standard: its state is the view itself.\<close>

definition model_drive :: "u16 \<Rightarrow> sectors \<Rightarrow> ata_view drive" where
  "model_drive io dsk =
     \<lparr>rd8 = (\<lambda>p a.
        if p = io + 7 then
          if busy a > 0 then (ATA_SR_BSY, a\<lparr>busy := busy a - 1\<rparr>)
          else (if pending a = [] then 0x40 else 0x48, a)
        else (0, a)),
      rd16 = (\<lambda>p a. case pending a of [] \<Rightarrow> (0, a)
        | w # ws \<Rightarrow> (w, a\<lparr>pending := ws, busy := (if length ws mod 256 = 0 then 2 else 0)\<rparr>)),
      wr8 = (\<lambda>p v a.
        let i = unat (p - io) in
        if 1 \<le> i \<and> i \<le> 5 then
          a\<lparr>upper := (upper a)(i := taskfile a i), taskfile := (taskfile a)(i := v)\<rparr>
        else if i = 7 \<and> v = ATA_CMD_READ_PIO_EXT then
          a\<lparr>pending := sector_words dsk (view_lba a) (view_count a), busy := 3\<rparr>
        else a),
      wr16 = (\<lambda>p v a. a)\<rparr>"

lemma model_drive_device: "ata_device (model_drive io dsk) io dsk (\<lambda>a. a)"
proof -
  have p: "unat (io + of_nat i - io) = i" if "i \<le> 12" for i
    using that by (simp add: unat_of_nat_lt)
  have n: "(io + of_nat i = io + 7) = (i = 7)" if "i \<le> 12" for i
  proof -
    have "(of_nat i = (7::u16)) = (unat (of_nat i :: u16) = unat (7::u16))" by (simp only: word_eq_iff_unsigned)
    with that show ?thesis by (simp add: unat_of_nat_lt)
  qed
  have "takes_registers (model_drive io dsk) io (\<lambda>a. a)"
    using p by (auto simp: takes_registers_def model_drive_def Let_def simp del: of_nat_numeral)
  moreover have "takes_read_command (model_drive io dsk) io dsk (\<lambda>a. a)"
    using p [of 7] unfolding takes_read_command_def
    by (intro allI exI [of _ 3]) (simp add: model_drive_def Let_def ATA_IO_TIMEOUT_def)
  moreover have "answers_status (model_drive io dsk) io (\<lambda>a. a)"
    by (auto simp: answers_status_def model_drive_def ATA_SR_BSY_def ATA_SR_POLL_def ATA_SR_ERR_def
        ATA_SR_DRQ_def ATA_SR_DF_def)
  moreover have "answers_registers (model_drive io dsk) io (\<lambda>a. a)"
    using n by (auto simp: answers_registers_def model_drive_def)
  moreover have "gives_data (model_drive io dsk) io (\<lambda>a. a)"
    unfolding gives_data_def
  proof (intro allI impI conjI)
    fix d :: ata_view and w ws assume "busy d = 0 \<and> pending d = w # ws"
    then have e: "rd16 (model_drive io dsk) (io + of_nat 0) d =
        (w, d\<lparr>pending := ws, busy := (if length ws mod 256 = 0 then 2 else 0)\<rparr>)"
      by (simp add: model_drive_def)
    show "fst (rd16 (model_drive io dsk) (io + of_nat 0) d) = w" by (simp only: e fst_conv)
    show "\<exists>b < ATA_IO_TIMEOUT. (length ws mod 256 \<noteq> 0 \<longrightarrow> b = 0) \<and>
        snd (rd16 (model_drive io dsk) (io + of_nat 0) d) = d\<lparr>pending := ws, busy := b\<rparr>"
      unfolding e by (intro exI [of _ "if length ws mod 256 = 0 then 2 else 0"]) (simp add: ATA_IO_TIMEOUT_def)
  qed
  ultimately show ?thesis by (simp add: ata_device_def)
qed

definition demo_ide :: ide_dev where
  "demo_ide = \<lparr>io_base = 0x1f0, control = 0x3f6, channel = 0, bmaster = 0, slave = False, disk = 0xe0,
     irq = 0, iprivate = 0\<rparr>"

definition demo_blkdev :: blkdev where
  "demo_blkdev = \<lparr>bdev_name = ''ide0-0'', bdev_flags = BDEV_FLAGS_LBA, bdev_block_size = 512,
     bdev_block_logs = 9, bops = None, bd_init_block = 0, bd_last_block = 100\<rparr>"

definition demo_view :: ata_view where
  "demo_view = \<lparr>taskfile = (\<lambda>_. 0), upper = (\<lambda>_. 0), pending = [], busy = 0\<rparr>"

theorem ide_ata_read_sectors_witness:
  "\<exists>d'. ide_ata_read (model_drive 0x1f0 (\<lambda>n. replicate 256 (of_nat n))) demo_ide demo_blkdev 5 2 demo_view =
      (0, words16_bytes (replicate 256 5 @ replicate 256 6), d') \<and> pending d' = [] \<and> busy d' = 0"
proof -
  have d: "ata_device (model_drive 0x1f0 (\<lambda>n. replicate 256 (of_nat n))) (io_base demo_ide)
      (\<lambda>n. replicate 256 (of_nat n)) (\<lambda>a. a)"
    using model_drive_device by (simp add: demo_ide_def)
  have b: "unat (bdev_block_size demo_blkdev) = 512 * 1" "bdev_flags demo_blkdev AND BDEV_FLAGS_LBA \<noteq> 0"
    by (simp_all add: demo_blkdev_def BDEV_FLAGS_LBA_def)
  have s: "sector_words (\<lambda>n. replicate 256 (of_nat n)) (unat (5::u64)) (unat (2::u64)) =
      replicate 256 5 @ replicate 256 6"
    by (simp add: sector_words_def upt_rec)
  show ?thesis
    using ide_ata_read_sectors [OF d _ b(1) b(2), of 5 2 demo_view] b(1) unfolding s by simp
qed

section \<open>Whatever the drive answers\<close>

text \<open>The driver never puts more bytes into a buffer than the command asks for.\<close>

lemma length_read_words: "length (fst (read_words hw dev n d)) = n"
  by (induction n arbitrary: d) (auto simp: case_prod_beta Let_def)

lemma length_ide_read_io: "length (fst (ide_read_io hw dev (ucast (n::u32)) d)) = unat n div 2"
proof -
  have "unat (ucast n :: u64) = unat n" using unat_lt32 [of n] by (simp add: unsigned_ucast_eq take_bit_eq_mod)
  then show ?thesis
    by (simp add: ide_read_io_def length_read_words drop_bit_eq_div unat_div)
qed

lemma data_loop_stop:
  "\<not> (nbread < bufsize cmd \<and> status AND ATA_SR_POLL = ATA_SR_DRQ) \<Longrightarrow>
   data_loop hw dev cmd nbread buf status d = (True, nbread, buf, d)"
  by (subst data_loop.simps) (auto simp: Let_def simp del: not_less)

lemma data_loop_error:
  "nbread < bufsize cmd \<and> status AND ATA_SR_POLL = ATA_SR_DRQ \<Longrightarrow>
   chunk_size hw dev cmd (bufsize cmd - nbread) d = (None, d') \<Longrightarrow>
   data_loop hw dev cmd nbread buf status d = (False, nbread, buf, d')"
  by (subst data_loop.simps) (simp add: Let_def)

lemma data_loop_bounded:
  "data_loop hw dev cmd nbread buf status d = (m, n, buf', d') \<Longrightarrow>
   length buf \<le> unat nbread \<Longrightarrow> nbread \<le> bufsize cmd \<Longrightarrow>
   length buf' \<le> unat n \<and> n \<le> bufsize cmd"
proof (induction hw dev cmd nbread buf status d rule: data_loop.induct)
  case (1 hw dev cmd nbread buf status d)
  show ?case
  proof (cases "nbread < bufsize cmd \<and> status AND ATA_SR_POLL = ATA_SR_DRQ")
    case False
    from "1.prems" data_loop_stop [OF False, of hw dev buf d] show ?thesis by simp
  next
    case True
    obtain c d1 where c: "chunk_size hw dev cmd (bufsize cmd - nbread) d = (c, d1)" by (metis surj_pair)
    show ?thesis
    proof (cases c)
      case None
      from "1.prems" data_loop_error [OF True c [unfolded None], of buf] show ?thesis by simp
    next
      case (Some k)
      have nz: "bufsize cmd - nbread \<noteq> 0" using True by auto
      have k: "k \<le> bufsize cmd - nbread"
        using chunk_size_bounds [OF _ nz, of hw dev cmd d k d1] c Some by simp
      have sum: "unat nbread + unat k \<le> unat (bufsize cmd)"
        using k "1.prems"(3) by (simp add: word_le_nat_alt unat_sub)
      have lt: "unat nbread + unat k < 2 ^ LENGTH(32)"
        using sum unat_lt32 [of "bufsize cmd"] by simp
      then have n': "unat (nbread + k) = unat nbread + unat k" by (rule unat_plus_lt)
      define res where "res = (if cwrite cmd then (buf, ide_write_io hw dev (drop (unat nbread) (wbuf cmd)) (ucast k) d1)
             else let (ws, d) = ide_read_io hw dev (ucast k) d1 in (buf @ words16_bytes ws, d))"
      obtain buf1 d2 where r: "res = (buf1, d2)" by (metis surj_pair)
      obtain s d3 where p: "ide_poll_io hw dev d2 = (s, d3)" by (metis surj_pair)
      have l: "length buf1 \<le> unat (nbread + k)"
      proof (cases "cwrite cmd")
        case True
        then show ?thesis using r "1.prems"(2) by (simp add: res_def n')
      next
        case False
        then have "buf1 = buf @ words16_bytes (fst (ide_read_io hw dev (ucast k) d1))"
          using r by (simp add: res_def case_prod_beta)
        then show ?thesis
          using "1.prems"(2) length_ide_read_io [of hw dev k d1] by (simp add: n' length_words16_bytes)
      qed
      have le: "nbread + k \<le> bufsize cmd" using sum n' by (simp add: word_le_nat_alt)
      have step: "data_loop hw dev cmd nbread buf status d = data_loop hw dev cmd (nbread + k) buf1 s d3"
        using True c Some r p unfolding data_loop.simps [of hw dev cmd nbread] by (simp add: Let_def res_def)
      show ?thesis
        using "1.IH" [OF _ refl _ c [symmetric] Some r [unfolded res_def, symmetric] refl p [symmetric]]
          True l le "1.prems"(1) step by simp
    qed
  qed
qed

text \<open>C17: no answer of a drive makes the driver overrun a buffer.\<close>

theorem ide_send_command_bounded:
  "length (fst (snd (snd (ide_send_command hw dev cmd d)))) \<le> unat (bufsize cmd)"
proof -
  have "length buf \<le> unat (bufsize cmd)"
    if "data_loop hw dev cmd 0 [] status e = (m, n, buf, d')" for status e m n buf d'
    using data_loop_bounded [OF that] by (simp add: word_le_nat_alt)
  then show ?thesis
    by (auto simp: ide_send_command_def Let_def split: prod.split option.split)
qed

text \<open>
  The last check of \<^verbatim>\<open>ide_send_command\<close> looks at the byte of the registers that still holds the
  command, since the status register is not among those read back: for the commands of this driver the
  check never fails, and a read reports no error that the drive has put into its status.
\<close>

lemma in_regs_keeps_cmd:
  "set is \<subseteq> {1..6} \<Longrightarrow> in_regs hw dev is r d = (r', d') \<Longrightarrow> r' ! reg_cmd = r ! reg_cmd"
proof (induction "is" arbitrary: r d)
  case (Cons i "is")
  obtain v d1 where v: "ide_inb hw dev i d = (v, d1)" by (metis surj_pair)
  have "i - 1 \<noteq> 6" using Cons.prems(1) by auto
  with Cons v show ?case by (simp add: ata_regs reg_cmd_def)
qed simp

lemma issue_no_packet: "packet cmd = None \<Longrightarrow> fst (issue_command hw dev cmd d)"
  by (simp add: issue_command_def Let_def case_prod_beta)

theorem ide_read_reports_no_error:
  assumes "packet cmd = None" "cmdsize cmd = 0" "\<not> cwrite cmd" "reg cmd ! reg_cmd = ATA_CMD_READ_PIO_EXT"
  shows "fst (ide_send_command hw dev cmd d) = ok"
proof -
  have moved: "fst (data_loop hw dev cmd n buf status e)" for n buf status e
    using assms(2)
  proof (induction hw dev cmd n buf status e rule: data_loop.induct)
    case (1 hw dev cmd n buf status d)
    show ?case
      by (subst data_loop.simps)
        (use 1 in \<open>auto simp: Let_def chunk_size_def split: prod.split\<close>)
  qed
  obtain status d1 where i: "issue_command hw dev cmd d = (True, status, d1)"
    using issue_no_packet [OF assms(1)] by (metis eq_fst_iff)
  obtain n buf d2 where l: "data_loop hw dev cmd 0 [] status d1 = (True, n, buf, d2)"
    using moved [of 0 "[]" status d1] by (metis eq_fst_iff)
  obtain s d3 where p: "ide_poll_io hw dev d2 = (s, d3)" by (metis surj_pair)
  obtain r d4 where r: "in_regs hw dev [ATA_REG_ERROR..<ATA_REG_STATUS] (reg cmd) d3 = (r, d4)" by (metis surj_pair)
  have "set [ATA_REG_ERROR..<ATA_REG_STATUS] \<subseteq> {1..6}" by (auto simp: ata_regs)
  from in_regs_keeps_cmd [OF this r] have "r ! reg_cmd = ATA_CMD_READ_PIO_EXT" using assms(4) by simp
  then have z: "r ! reg_cmd AND (ATA_SR_DRQ OR ATA_SR_ERR) = 0"
    by (simp add: ATA_CMD_READ_PIO_EXT_def ATA_SR_DRQ_def ATA_SR_ERR_def)
  show ?thesis
    by (simp add: send_command_parts [OF i finish_read [OF assms(3) p r z] l])
qed

end
