(* ===== verification/Lxboot.thy ===== *)
theory Lxboot
  imports Loader
begin

text \<open>
  The Linux boot protocol \<^verbatim>\<open>src/loaders/lxboot.c\<close>: the kernel image is split into its real-mode part,
  whose header the loader fills in, and its protected-mode part, which goes to 1 MB; the initial ramdisk
  goes to 16 MB. Files come from the file system of theory Vfs; the memory is that of the file system's
  state. A read puts its bytes at an address; a read that gives more bytes than it was asked for is \<open>None\<close>,
  as is undefined behaviour elsewhere.
\<close>

section \<open>Files in memory\<close>

definition read_to :: "open_file \<Rightarrow> u32 \<Rightarrow> u32 \<Rightarrow> vfs \<Rightarrow> (vfs \<times> u32) option" where
  "read_to f n p s =
     do { (s, r, bs) \<leftarrow> file_read f n (mem_bytes (vmem s) p (unat n)) s;
          Some (s\<lparr>vmem := put_bytes (vmem s) p bs\<rparr>, r) }"

definition set_mem :: "mem \<Rightarrow> vfs \<Rightarrow> vfs" where "set_mem m s = s\<lparr>vmem := m\<rparr>"

section \<open>The header\<close>

text \<open>The fields that the loader uses, by their offsets in the packed structure.\<close>

definition LXBOOT_BZIMAGE_SIGNATURE :: u32 where "LXBOOT_BZIMAGE_SIGNATURE = 0x53726448"
definition LXBOOT_KERNEL_ADDR :: u32 where "LXBOOT_KERNEL_ADDR = 0x00100000"
definition LXBOOT_INITRD_ADDR :: u32 where "LXBOOT_INITRD_ADDR = 0x01000000"

definition rm_header_bytes :: u32 where "rm_header_bytes = 119"
definition o_setup_sects :: u32 where "o_setup_sects = 0"
definition o_vid_mode :: u32 where "o_vid_mode = 9"
definition o_header :: u32 where "o_header = 17"
definition o_version :: u32 where "o_version = 21"
definition o_type_of_loader :: u32 where "o_type_of_loader = 31"
definition o_loadflags :: u32 where "o_loadflags = 32"
definition o_ramdisk_image :: u32 where "o_ramdisk_image = 39"
definition o_ramdisk_size :: u32 where "o_ramdisk_size = 43"
definition o_heap_end_ptr :: u32 where "o_heap_end_ptr = 51"
definition o_cmd_line_ptr :: u32 where "o_cmd_line_ptr = 55"

lemmas lx_offsets = o_setup_sects_def o_vid_mode_def o_header_def o_version_def o_type_of_loader_def
  o_loadflags_def o_ramdisk_image_def o_ramdisk_size_def o_heap_end_ptr_def o_cmd_line_ptr_def

record lxboot_info =
  signature :: u32
  bprotvers :: u16
  rmcodesec :: u8
  rmcodelen :: u32
  pmcodelen :: u32
  rmcodehdr :: u32
  rmcodebuf :: u32

definition no_info :: lxboot_info where
  "no_info = \<lparr>signature = 0, bprotvers = 0, rmcodesec = 0, rmcodelen = 0, pmcodelen = 0, rmcodehdr = 0, rmcodebuf = 0\<rparr>"

section \<open>Preparing the kernel\<close>

definition heap_end_of :: "u16 \<Rightarrow> u8 \<Rightarrow> u16" where
  "heap_end_of version loadflags = (if version \<ge> 0x0202 \<and> loadflags AND 1 \<noteq> 0 then 0xe000 else 0x9800)"

text \<open>The command line of the entry; \<^verbatim>\<open>strcpy\<close> (of theory Cstring) copies no terminator. An entry
  without a command line has a NULL pointer, from which the bytes are copied.\<close>

definition copy_cmdline :: "mem \<Rightarrow> u32 \<Rightarrow> u8 list option \<Rightarrow> mem option" where
  "copy_cmdline m dst c = (case c of None \<Rightarrow> strcpy m dst 0 | Some bs \<Rightarrow> Some (put_bytes m dst bs))"

definition lxboot_prepare_fields :: "boot_entry \<Rightarrow> lxboot_info \<Rightarrow> mem \<Rightarrow> (mem \<times> status) option" where
  "lxboot_prepare_fields e info m =
     (let h = rmcodehdr info; vers = bprotvers info in
      if vers < 0x0200 then Some (m, Inl ENOTSUP)
      else
        let m = m(h + o_type_of_loader := 0xff);
            heap_end = heap_end_of vers (m (h + o_loadflags));
            m = (if vers \<ge> 0x0201 then
                   let m = store16 m (h + o_heap_end_ptr) (heap_end - 0x200)
                   in m(h + o_loadflags := m (h + o_loadflags) OR 0x80)
                 else m)
        in if vers < 0x0202 then Some (m, Inl ENOTSUP)
        else
          let p = rmcodebuf info + ucast heap_end; m = store32 m (h + o_cmd_line_ptr) p
          in do { m \<leftarrow> copy_cmdline m (load32 m (h + o_cmd_line_ptr)) (cmdline e); Some (m, ok) })"

definition lxboot_prepare_kernel :: "boot_entry \<Rightarrow> open_file \<Rightarrow> lxboot_info \<Rightarrow> vfs \<Rightarrow>
    (vfs \<times> lxboot_info \<times> status) option" where
  "lxboot_prepare_kernel e kn info s =
     do { (s, hdr) \<leftarrow> vmalloc rm_header_bytes s;
          if hdr = 0 then Some (s, info, Inl EFAULT)
          else do {
            (s, r) \<leftarrow> read_to (file_seek kn FILE_SET 0x1f1) rm_header_bytes hdr s;
            if r = 0 then Some (s, info, Inl EFAULT)
            else if load32 (vmem s) (hdr + o_header) \<noteq> LXBOOT_BZIMAGE_SIGNATURE then Some (s, info, Inl EFAULT)
            else do {
              let sects = vmem s (hdr + o_setup_sects);
              let sects = (if sects = 0 then 4 else sects);
              let info = info\<lparr>signature := load32 (vmem s) (hdr + o_header),
                bprotvers := load16 (vmem s) (hdr + o_version), rmcodesec := sects\<rparr>;
              s \<leftarrow> vfree hdr s;
              let len = push_bit 9 (ucast sects) + 512;
              (s, buf) \<leftarrow> vmalloc len s;
              let info = info\<lparr>rmcodelen := len, rmcodebuf := buf\<rparr>;
              if buf = 0 then Some (s, info, Inl ENOMEM)
              else do {
                (s, r) \<leftarrow> read_to (file_seek kn FILE_SET 0) len buf s;
                if r = 0 then Some (s, info, Inl EFAULT)
                else do {
                  let info = info\<lparr>rmcodehdr := buf + 0x1f1\<rparr>;
                  (m, st) \<leftarrow> lxboot_prepare_fields e info (vmem s);
                  let s = set_mem m s;
                  if st \<noteq> ok then Some (s, info, Inl EFAULT)
                  else do {
                    let s = set_mem (store16 (vmem s) (rmcodehdr info + o_vid_mode) 0xffff) s;
                    let info = info\<lparr>pmcodelen := file_length kn - len\<rparr>;
                    (s, r) \<leftarrow> read_to (file_seek kn FILE_SET len) (pmcodelen info) LXBOOT_KERNEL_ADDR s;
                    Some (s, info, if r = 0 then Inl EFAULT else ok) } } } } } }"

definition lxboot_prepare_initrd :: "open_file \<Rightarrow> lxboot_info \<Rightarrow> vfs \<Rightarrow> (vfs \<times> status) option" where
  "lxboot_prepare_initrd initrd info s =
     do { (s, r) \<leftarrow> read_to initrd (file_length initrd) LXBOOT_INITRD_ADDR s;
          if r = 0 then Some (s, Inl EFAULT)
          else
            let m = store32 (vmem s) (rmcodehdr info + o_ramdisk_image) LXBOOT_INITRD_ADDR;
                m = store32 m (rmcodehdr info + o_ramdisk_size) (file_length initrd)
            in Some (set_mem m s, ok) }"

section \<open>Booting\<close>

text \<open>A boot ends in the jump to real mode, with the segment of the data and that of the code, or returns.\<close>

datatype boot_end = Real_mode u16 u16 vfs | Returns status vfs

definition RM_SEG :: "u32 \<Rightarrow> u32" where "RM_SEG x = drop_bit 4 (x AND 0x000ffff0)"

definition lxboot_prepare_farjmp :: "lxboot_info \<Rightarrow> vfs \<Rightarrow> boot_end" where
  "lxboot_prepare_farjmp info s =
     (let seg = ucast (RM_SEG (rmcodebuf info)) in Real_mode seg (seg + 0x20) s)"

text \<open>An entry without a path opens a NULL path, which is undefined.\<close>

definition open_path :: "u8 list option \<Rightarrow> vfs \<Rightarrow> (vfs \<times> open_file option) option" where
  "open_path p s = (case p of None \<Rightarrow> None | Some path \<Rightarrow> file_open path 0 s)"

definition lxboot_boot :: "boot_entry \<Rightarrow> vfs \<Rightarrow> boot_end option" where
  "lxboot_boot e s =
     do { (s, kn) \<leftarrow> open_path (kernel_path e) s;
          case kn of None \<Rightarrow> Some (Returns (Inl ENOENT) s)
          | Some kn \<Rightarrow> do {
              (s, initrd) \<leftarrow> open_path (initrd_path e) s;
              case initrd of None \<Rightarrow> Some (Returns (Inl ENOENT) s)
              | Some initrd \<Rightarrow> do {
                  (s, info, st) \<leftarrow> lxboot_prepare_kernel e kn no_info s;
                  if st \<noteq> ok then Some (Returns (Inl EFAULT) s)
                  else do {
                    (s, st) \<leftarrow> lxboot_prepare_initrd initrd info s;
                    if st \<noteq> ok then Some (Returns (Inl EFAULT) s)
                    else Some (lxboot_prepare_farjmp info s) } } } }"

text \<open>The module registers the loader under its protocol.\<close>

definition lxboot_init :: "'b \<Rightarrow> (u32 \<times> 'b) list \<Rightarrow> (u32 \<times> 'b) list \<times> status" where
  "lxboot_init boot ls = (loader_register (LOADER_PROTOCOL_LINUX, boot) ls, ok)"

section \<open>The header that the kernel finds\<close>

lemma heap_end_cases: "heap_end_of v f = 0xe000 \<or> heap_end_of v f = 0x9800"
  by (simp add: heap_end_of_def)

definition filled_header :: "mem \<Rightarrow> u32 \<Rightarrow> u16 \<Rightarrow> mem" where
  "filled_header m h e =
     (let m = m(h + o_type_of_loader := 0xff);
          m = store16 m (h + o_heap_end_ptr) (e - 0x200)
      in m(h + o_loadflags := m (h + o_loadflags) OR 0x80))"

lemma store32_elsewhere:
  "k < j \<or> j + 3 < k \<Longrightarrow> unat j < 0x1000 \<Longrightarrow> unat (k::u32) < 0x1000 \<Longrightarrow>
   store32 m (b + j) v (b + k) = m (b + k)"
proof -
  assume a: "k < j \<or> j + 3 < k" "unat j < 0x1000" "unat k < 0x1000"
  have "k \<noteq> j + n" if "n \<le> 3" for n
  proof
    assume e: "k = j + n"
    have n: "unat n \<le> 3" using that by (simp add: word_le_nat_alt)
    then have "unat (j + n) = unat j + unat n" "unat (j + 3) = unat j + 3"
      using a(2) by (simp_all add: unat_plus_lt)
    with a(1) e n show False by (auto simp: word_less_nat_alt)
  qed
  from this [of 0] this [of 1] this [of 2] this [of 3] show ?thesis
    by (simp add: store32_def add.assoc)
qed

text \<open>The memory that the code leaves for a kernel of protocol 2.02 or later.\<close>

lemma lxboot_fields_run:
  assumes "bprotvers info \<ge> 0x0202" and "cmdline e = Some bs"
  shows "lxboot_prepare_fields e info m =
    (let h = rmcodehdr info; t = heap_end_of (bprotvers info) (m (h + o_loadflags)); p = rmcodebuf info + ucast t
     in Some (put_bytes (store32 (filled_header m h t) (h + o_cmd_line_ptr) p) p bs, ok))"
proof -
  have v: "\<not> bprotvers info < 0x0200" "bprotvers info \<ge> 0x0201" "\<not> bprotvers info < 0x0202"
    using assms(1) by (simp_all add: word_le_nat_alt word_less_nat_alt)
  have flags: "(m(rmcodehdr info + o_type_of_loader := 0xff)) (rmcodehdr info + o_loadflags) = m (rmcodehdr info + o_loadflags)"
    by (simp add: lx_offsets)
  show ?thesis
    unfolding lxboot_prepare_fields_def Let_def flags
    using v by (simp add: filled_header_def Let_def copy_cmdline_def assms(2))
qed

text \<open>
  The command line lies behind the buffer of the real-mode part when that has at most 75 sectors, as the
  kernels in use have; the buffer that was asked for ends before it.
\<close>

lemma lxboot_cmdline_outside_buffer:
  assumes "unat (sects::u8) \<le> 75"
  shows "unat (push_bit 9 (ucast sects) + 512 :: u32) \<le> unat (heap_end_of v f)"
proof -
  have "unat (push_bit 9 (ucast sects) :: u32) = 512 * unat sects"
    using assms by (simp add: push_bit_eq_mult unat_word_ariths unsigned_ucast_eq take_bit_eq_mod)
  then have "unat (push_bit 9 (ucast sects) + 512 :: u32) = 512 * unat sects + 512"
    using assms by (simp add: unat_plus_lt)
  then show ?thesis using heap_end_cases [of v f] assms by auto
qed

lemma copy_cmdline_no_terminator:
  assumes "length bs < 2 ^ 32" "copy_cmdline m p (Some bs) = Some m'"
  shows "m' (p + of_nat (length bs)) = m (p + of_nat (length bs))"
  using assms by (auto simp: copy_cmdline_def put_bytes_def unat_of_nat32)

lemma load32_two_stores:
  "load32 (store32 (store32 m (h + o_ramdisk_image) v) (h + o_ramdisk_size) w) (h + o_ramdisk_image) = v"
proof -
  have "load32 (store32 (store32 m (h + 39) v) (h + 43) w) (h + 39) = load32 (store32 m (h + 39) v) (h + 39)"
    by (simp add: load32_def store32_elsewhere add.assoc)
  then show ?thesis by (simp add: o_ramdisk_image_def o_ramdisk_size_def)
qed

lemma lxboot_prepare_initrd_fields:
  "lxboot_prepare_initrd f info s = Some (s', ok) \<Longrightarrow>
   load32 (vmem s') (rmcodehdr info + o_ramdisk_image) = LXBOOT_INITRD_ADDR \<and>
   load32 (vmem s') (rmcodehdr info + o_ramdisk_size) = file_length f"
  by (auto simp: lxboot_prepare_initrd_def Let_def set_mem_def load32_two_stores
      split: Option.bind_splits prod.splits if_splits)

text \<open>A boot of Linux that comes back has failed.\<close>

lemma lxboot_boot_returns_error: "lxboot_boot e s = Some (Returns st s') \<Longrightarrow> st \<noteq> ok"
  by (auto simp: lxboot_boot_def lxboot_prepare_farjmp_def Let_def
      split: Option.bind_splits prod.splits option.splits if_splits)

text \<open>An entry of the configuration.\<close>

definition demo_lx_entry :: boot_entry where
  "demo_lx_entry = \<lparr>bname = Some (str ''linux''), kernel_path = Some (str ''/root/vmlinuz''),
     initrd_path = Some (str ''/root/initrd''), cmdline = Some (str ''quiet''), prot = LOADER_PROTOCOL_LINUX\<rparr>"

end
