(* ===== verification/Mboot1.thy ===== *)
theory Mboot1
  imports Lxboot E820
begin

text \<open>
  The Multiboot 1 loader \<^verbatim>\<open>src/loaders/mboot1.c\<close>: the search for the header in the kernel image and the
  information structure that is built for the kernel. What the code does not do yet (loading the sections and
  jumping to the kernel) is not there to be modelled: the boot function returns when the structure is
  ready. The preparations that only return 0 are left out.
\<close>

section \<open>Constants\<close>

definition MBOOT1_SEARCH :: nat where "MBOOT1_SEARCH = 8192"
definition MBOOT1_HEADER_MAGIC :: u32 where "MBOOT1_HEADER_MAGIC = 0x1BADB002"
definition MBOOT1_HEADER_SIZE :: u32 where "MBOOT1_HEADER_SIZE = 48"
definition MBOOT1_SEARCH_LIMIT :: u32 where "MBOOT1_SEARCH_LIMIT = of_nat MBOOT1_SEARCH - MBOOT1_HEADER_SIZE"
definition MBOOT1_SEARCH_COUNT :: nat where "MBOOT1_SEARCH_COUNT = MBOOT1_SEARCH div 4"
definition MBOOT1_INFO_MEMORY :: u32 where "MBOOT1_INFO_MEMORY = 1"
definition MBOOT1_INFO_BOOTDEV :: u32 where "MBOOT1_INFO_BOOTDEV = 2"
definition MBOOT1_INFO_CMDLINE :: u32 where "MBOOT1_INFO_CMDLINE = 4"
definition multiboot_info_bytes :: u32 where "multiboot_info_bytes = 120"
definition elf32_ehdr_bytes :: u32 where "elf32_ehdr_bytes = 52"

text \<open>The fields of the header and of the information structure by their offsets.\<close>

definition mh_flags :: u32 where "mh_flags = 4"
definition mh_checksum :: u32 where "mh_checksum = 8"
definition mi_flags :: u32 where "mi_flags = 0"
definition mi_mem_lower :: u32 where "mi_mem_lower = 4"
definition mi_mem_upper :: u32 where "mi_mem_upper = 8"
definition mi_boot_device :: u32 where "mi_boot_device = 12"
definition mi_cmdline :: u32 where "mi_cmdline = 16"

lemmas mi_offsets = mi_flags_def mi_mem_lower_def mi_mem_upper_def mi_boot_device_def mi_cmdline_def

record mboot1_info =
  mb_flags :: u32
  mb_align :: u32
  mb_header :: u32
  mb_mbinfo :: u32

section \<open>The header in the kernel\<close>

definition find_magic :: "mem \<Rightarrow> u32 \<Rightarrow> nat option" where
  "find_magic m buf = find (\<lambda>i. load32 m (buf + 4 * of_nat i) = MBOOT1_HEADER_MAGIC) [0..<MBOOT1_SEARCH_COUNT]"

definition mboot1_compare_signature :: "open_file \<Rightarrow> mboot1_info \<Rightarrow> vfs \<Rightarrow> (vfs \<times> mboot1_info \<times> status) option" where
  "mboot1_compare_signature kn info s =
     do { (s, buf) \<leftarrow> vmalloc MBOOT1_SEARCH_LIMIT s;
          if buf = 0 then Some (s, info, Inl ENOMEM)
          else do {
            (s, r) \<leftarrow> read_to kn MBOOT1_SEARCH_LIMIT buf s;
            if r = 0 then do { s \<leftarrow> vfree buf s; Some (s, info, Inl EFAULT) }
            else case find_magic (vmem s) buf of
              None \<Rightarrow> do { s \<leftarrow> vfree buf s; Some (s, info, Inl EFAULT) }
            | Some i \<Rightarrow> do {
                (s, hdr) \<leftarrow> vmalloc MBOOT1_HEADER_SIZE s;
                let info = info\<lparr>mb_header := hdr\<rparr>;
                if hdr = 0 then Some (s, info, Inl ENOMEM)
                else do {
                  (s, r) \<leftarrow> read_to (file_seek kn FILE_SET (of_nat i * 4)) MBOOT1_HEADER_SIZE hdr s;
                  if r = 0 then do { s \<leftarrow> vfree buf s; Some (s, info, Inl EFAULT) }
                  else do {
                    let info = info\<lparr>mb_flags := load32 (vmem s) (hdr + mh_flags)\<rparr>;
                    if load32 (vmem s) (hdr + mh_checksum) \<noteq> - (mb_flags info + MBOOT1_HEADER_MAGIC)
                    then do { s \<leftarrow> vfree hdr s; s \<leftarrow> vfree buf s; Some (s, info, Inl EFAULT) }
                    else do { s \<leftarrow> vfree buf s; Some (s, info, ok) } } } } } }"

text \<open>The memory for the ELF header is not compared with \<^verbatim>\<open>NULL\<close>, and stays allocated.\<close>

definition mboot1_prepare_kernel :: "open_file \<Rightarrow> vfs \<Rightarrow> (vfs \<times> status) option" where
  "mboot1_prepare_kernel kn s =
     do { (s, ehdr) \<leftarrow> vmalloc elf32_ehdr_bytes s;
          (s, r) \<leftarrow> read_to (file_seek kn FILE_SET 0) elf32_ehdr_bytes ehdr s;
          if r = 0 then do { s \<leftarrow> vfree ehdr s; Some (s, Inl EFAULT) } else Some (s, ok) }"

section \<open>The information structure\<close>

definition or_flags :: "u32 \<Rightarrow> u32 \<Rightarrow> mem \<Rightarrow> mem" where
  "or_flags p v m = store32 m (p + mi_flags) (load32 m (p + mi_flags) OR v)"

definition mboot1_prepare_mem :: "boot_memory \<Rightarrow> u32 \<Rightarrow> mem \<Rightarrow> mem" where
  "mboot1_prepare_mem bp p m =
     (let m = store32 m (p + mi_mem_lower) (memory_lower bp);
          m = store32 m (p + mi_mem_upper) (memory_upper bp)
      in or_flags p MBOOT1_INFO_MEMORY m)"

definition mboot1_prepare_dev :: "u32 \<Rightarrow> u32 \<Rightarrow> mem \<Rightarrow> mem" where
  "mboot1_prepare_dev drive p m = or_flags p MBOOT1_INFO_BOOTDEV (store32 m (p + mi_boot_device) drive)"

text \<open>\<open>data\<close> is \<^verbatim>\<open>multiboot_data\<close>; a missing command line is a NULL pointer, the string at address 0.\<close>

definition mboot1_prepare_cmd :: "u32 \<Rightarrow> u8 list option \<Rightarrow> u32 \<times> mem \<Rightarrow> (u32 \<times> mem) option" where
  "mboot1_prepare_cmd p c = (\<lambda>(data, m).
     do { n \<leftarrow> (case c of None \<Rightarrow> strlen m 0 | Some bs \<Rightarrow> Some (of_nat (length bs)));
          let cmdsize = n + 1;
          let m = store32 m (p + mi_cmdline) data;
          let m = (case c of None \<Rightarrow> memcpy m data 0 cmdsize | Some bs \<Rightarrow> put_bytes m data (bs @ [0]));
          Some (data + round_up cmdsize 4, or_flags p MBOOT1_INFO_CMDLINE m) })"

text \<open>The state that the loader works on: the file system with its memory, and the boot memory allocator.\<close>

record mb_machine =
  mfs :: vfs
  mblk :: memblock
  multiboot_data :: u32

definition mboot1_prepare_info :: "boot_memory \<Rightarrow> u32 \<Rightarrow> boot_entry \<Rightarrow> mboot1_info \<Rightarrow> mb_machine \<Rightarrow>
    (mb_machine \<times> mboot1_info \<times> status) option" where
  "mboot1_prepare_info bp drive e info w =
     do { (mb, p) \<leftarrow> memblock_alloc_kernel (mblk w) PAGE_SIZE PAGE_SIZE;
          let w = w\<lparr>mblk := mb\<rparr>;
          let info = info\<lparr>mb_mbinfo := p\<rparr>;
          if p = 0 then Some (w, info, Inl ENOMEM)
          else do {
            let info = info\<lparr>mb_align := round_up (p + multiboot_info_bytes) 4\<rparr>;
            let m = mboot1_prepare_dev drive p (mboot1_prepare_mem bp p (vmem (mfs w)));
            (data, m) \<leftarrow> mboot1_prepare_cmd p (cmdline e) (p + multiboot_info_bytes, m);
            Some (w\<lparr>mfs := set_mem m (mfs w), multiboot_data := data\<rparr>, info, ok) } }"

definition no_mb_info :: mboot1_info where
  "no_mb_info = \<lparr>mb_flags = 0, mb_align = 0, mb_header = 0, mb_mbinfo = 0\<rparr>"

definition mboot1_boot :: "boot_memory \<Rightarrow> u32 \<Rightarrow> boot_entry \<Rightarrow> mb_machine \<Rightarrow> (mb_machine \<times> status) option" where
  "mboot1_boot bp drive e w =
     do { (s, kn) \<leftarrow> open_path (kernel_path e) (mfs w);
          let w = w\<lparr>mfs := s\<rparr>;
          case kn of None \<Rightarrow> Some (w, Inl ENOENT)
          | Some kn \<Rightarrow> do {
              (s, info, st) \<leftarrow> mboot1_compare_signature kn no_mb_info (mfs w);
              let w = w\<lparr>mfs := s\<rparr>;
              if st \<noteq> ok then Some (w, Inl ENOENT)
              else do {
                (s, st) \<leftarrow> mboot1_prepare_kernel kn (mfs w);
                let w = w\<lparr>mfs := s\<rparr>;
                if st \<noteq> ok then Some (w, Inl EFAULT)
                else do {
                  (w, info, st) \<leftarrow> mboot1_prepare_info bp drive e info w;
                  Some (w, if st \<noteq> ok then Inl EFAULT else ok) } } } }"

definition mboot1_init :: "'b \<Rightarrow> (u32 \<times> 'b) list \<Rightarrow> (u32 \<times> 'b) list \<times> status" where
  "mboot1_init boot ls = (loader_register (LOADER_PROTOCOL_MULTIBOOT1, boot) ls, ok)"

section \<open>A header that is found is valid\<close>

lemma vfree_vmem: "vfree a s = Some s' \<Longrightarrow> vmem s' = vmem s"
  by (auto simp: vfree_def split: Option.bind_splits)

lemma mboot1_compare_signature_valid:
  assumes "mboot1_compare_signature kn info s = Some (s', info', ok)"
  shows "mb_header info' \<noteq> 0 \<and> mb_flags info' = load32 (vmem s') (mb_header info' + mh_flags) \<and>
    load32 (vmem s') (mb_header info' + mh_checksum) + mb_flags info' + MBOOT1_HEADER_MAGIC = 0"
  using assms
  by (auto simp: mboot1_compare_signature_def Let_def dest!: vfree_vmem
      split: Option.bind_splits prod.splits if_splits option.splits)

text \<open>The search takes the first word that is the magic number, and looks at no other.\<close>

lemma find_magic_first:
  "find_magic m buf = Some i \<Longrightarrow> i < 2048 \<and> load32 m (buf + 4 * of_nat i) = MBOOT1_HEADER_MAGIC \<and>
   (\<forall>j<i. load32 m (buf + 4 * of_nat j) \<noteq> MBOOT1_HEADER_MAGIC)"
  by (auto simp: find_magic_def find_Some_iff MBOOT1_SEARCH_COUNT_def MBOOT1_SEARCH_def nth_append)

section \<open>The structure that is built\<close>

lemma load32_outside:
  assumes "k + 3 < j \<or> j + 3 < k" "unat j < 0x800" "unat (k::u32) < 0x800"
  shows "load32 (store32 m (b + j) v) (b + k) = load32 m (b + k)"
proof -
  have n: "unat (k + n) = unat k + unat n" "unat (j + n) = unat j + unat n" if "n \<le> 3" for n
    using assms(2,3) that by (auto simp: word_le_nat_alt intro!: unat_plus_lt)
  have "store32 m (b + j) v (b + (k + n)) = m (b + (k + n))" if n3: "n \<le> 3" for n
  proof (rule store32_elsewhere)
    have "unat n \<le> 3" using n3 by (simp add: word_le_nat_alt)
    with assms(1) n [OF n3] n [of 3] show "k + n < j \<or> j + 3 < k + n"
      by (auto simp: word_less_nat_alt)
    show "unat (k + n) < 0x1000" using n(1) [OF n3] assms(3) \<open>unat n \<le> 3\<close> by simp
  qed (use assms(2) in simp)
  from this [of 0] this [of 1] this [of 2] this [of 3] show ?thesis
    by (simp add: load32_def add.assoc)
qed

lemma or_flags_load:
  "load32 (or_flags p v m) p = load32 m p OR v"
  "k > 3 \<Longrightarrow> unat k < 0x800 \<Longrightarrow> load32 (or_flags p v m) (p + k) = load32 m (p + k)"
  "k > 3 \<Longrightarrow> unat k < 0x1000 \<Longrightarrow> or_flags p v m (p + k) = m (p + k)"
  using load32_outside [where j = 0] store32_elsewhere [where j = 0]
  by (simp_all add: or_flags_def mi_offsets)

text \<open>A string and its terminator, put at the place of the data behind the structure.\<close>

lemma put_data_below:
  assumes "length bs < 0x1000" "unat (k::u32) < 120"
  shows "put_bytes m (p + 120) bs (p + k) = m (p + k)"
proof (rule put_bytes_outside)
  have "unat (k - 120) = unat k + 2 ^ 32 - 120" using assms(2) by (simp add: unat_sub_if')
  moreover have "p + k - (p + 120) = k - 120" by simp
  ultimately show "length bs \<le> unat (p + k - (p + 120))" using assms(1) by simp
qed

lemma load32_put_data:
  assumes "length bs < 0x1000" "unat (k::u32) < 116"
  shows "load32 (put_bytes m (p + 120) bs) (p + k) = load32 m (p + k)"
proof -
  have "put_bytes m (p + 120) bs (p + (k + n)) = m (p + (k + n))" if "n \<le> 3" for n
  proof (rule put_data_below [OF assms(1)])
    have "unat n \<le> 3" using that by (simp add: word_le_nat_alt)
    then show "unat (k + n) < 120" using assms(2) by (simp add: unat_plus_lt)
  qed
  from this [of 0] this [of 1] this [of 2] this [of 3] show ?thesis
    by (simp add: load32_def add.assoc)
qed

lemma put_data_at:
  assumes "i < length bs" "length bs < 0x1000"
  shows "put_bytes m (p + 120) bs (p + 120 + of_nat i) = bs ! i"
  using assms by (simp add: put_bytes_def unat_of_nat32)

lemma stored_cmdline:
  assumes "0 \<notin> set bs" "length bs < 3976"
  shows "cstr (or_flags p 4 (put_bytes m (p + 120) (bs @ [0]))) (p + 120) bs"
proof -
  let ?m = "or_flags p 4 (put_bytes m (p + 120) (bs @ [0]))"
  have len: "length (bs @ [0]) < 0x1000" using assms(2) by simp
  have at: "?m (p + 120 + of_nat i) = (bs @ [0]) ! i" if "i < length (bs @ [0])" for i
  proof -
    have "unat (of_nat i :: u32) = i" using that len by (intro unat_of_nat32) simp
    then have u: "unat (120 + of_nat i :: u32) = 120 + i" using that len by (simp add: unat_plus_lt)
    then have "?m (p + (120 + of_nat i)) = put_bytes m (p + 120) (bs @ [0]) (p + (120 + of_nat i))"
      using that assms(2) by (intro or_flags_load(3)) (simp_all add: word_less_nat_alt)
    also have "\<dots> = (bs @ [0]) ! i"
      using put_data_at [OF that len, of m p] by (simp add: add.assoc)
    finally show ?thesis by (simp add: add.assoc)
  qed
  show ?thesis using at [of "length bs"] assms(1) by (intro cstrI) (auto simp: at nth_append)
qed

text \<open>C18: the information structure of a Multiboot kernel.\<close>

theorem mboot1_prepare_info_correct:
  assumes "memblock_alloc_kernel (mblk w) PAGE_SIZE PAGE_SIZE = Some (mb, p)" "p \<noteq> 0"
    and "cmdline e = Some bs" "0 \<notin> set bs" "length bs < 3976"
  shows "\<exists>w' info'. mboot1_prepare_info bp drive e info w = Some (w', info', ok) \<and> mblk w' = mb \<and>
    mb_mbinfo info' = p \<and> multiboot_data w' = p + 120 + round_up (of_nat (length bs) + 1) 4 \<and>
    (let m' = vmem (mfs w') in
     load32 m' (p + mi_flags) = load32 (vmem (mfs w)) (p + mi_flags) OR 7 \<and>
     load32 m' (p + mi_mem_lower) = memory_lower bp \<and> load32 m' (p + mi_mem_upper) = memory_upper bp \<and>
     load32 m' (p + mi_boot_device) = drive \<and> load32 m' (p + mi_cmdline) = p + 120 \<and> cstr m' (p + 120) bs)"
proof -
  let ?m = "vmem (mfs w)"
  define m1 where "m1 = store32 (store32 ?m (p + 4) (memory_lower bp)) (p + 8) (memory_upper bp)"
  define m2 where "m2 = store32 (or_flags p 1 m1) (p + 12) drive"
  define m3 where "m3 = store32 (or_flags p 2 m2) (p + 16) (p + 120)"
  define m4 where "m4 = put_bytes m3 (p + 120) (bs @ [0])"
  define m5 where "m5 = or_flags p 4 m4"
  let ?w = "w\<lparr>mblk := mb, mfs := set_mem m5 (mfs w), multiboot_data := p + 120 + round_up (of_nat (length bs) + 1) 4\<rparr>"
  let ?i = "info\<lparr>mb_mbinfo := p, mb_align := round_up (p + multiboot_info_bytes) 4\<rparr>"
  have run: "mboot1_prepare_info bp drive e info w = Some (?w, ?i, ok)"
    using assms(1-3) by (simp add: mboot1_prepare_info_def mboot1_prepare_mem_def mboot1_prepare_dev_def
        mboot1_prepare_cmd_def m5_def m4_def m3_def m2_def m1_def Let_def mi_offsets MBOOT1_INFO_MEMORY_def
        MBOOT1_INFO_BOOTDEV_def MBOOT1_INFO_CMDLINE_def multiboot_info_bytes_def)
  have len: "length (bs @ [0]) < 0x1000" using assms(5) by simp
  have l4: "load32 m4 (p + k) = load32 m3 (p + k)" if "unat k < 116" for k
    unfolding m4_def by (rule load32_put_data [OF len that])
  have "load32 m4 p = load32 m3 p" using l4 [of 0] by simp
  then have flags: "load32 m5 p = load32 ?m p OR 7"
    using load32_outside [of 0 16 "or_flags p 2 m2" p "p + 120"] load32_outside [of 0 12 "or_flags p 1 m1" p drive]
      load32_outside [of 0 8 "store32 ?m (p + 4) (memory_lower bp)" p "memory_upper bp"]
      load32_outside [of 0 4 ?m p "memory_lower bp"]
    by (simp add: m5_def or_flags_load(1) m3_def m2_def m1_def or.assoc)
  have lower: "load32 m5 (p + 4) = memory_lower bp" and upper: "load32 m5 (p + 8) = memory_upper bp"
    and dev: "load32 m5 (p + 12) = drive" and cmd: "load32 m5 (p + 16) = p + 120"
    by (simp_all add: m5_def l4 m3_def m2_def m1_def or_flags_load(2) load32_outside)
  have str: "cstr m5 (p + 120) bs" unfolding m5_def m4_def by (rule stored_cmdline [OF assms(4,5)])
  show ?thesis
    using run flags lower upper dev cmd str by (simp add: set_mem_def mi_offsets Let_def)
qed

definition demo_mb_machine :: mb_machine where
  "demo_mb_machine =
     \<lparr>mfs = demo_vfs,
      mblk = memblock_init\<lparr>kernmem := \<lparr>cnt = 1, total_size = 0x100000,
        regions = \<lparr>base = 0x100000, size = 0x100000\<rparr> # replicate 7 \<lparr>base = 0, size = 0\<rparr>\<rparr>\<rparr>,
      multiboot_data = 0\<rparr>"

lemma demo_mb_alloc: "\<exists>mb. memblock_alloc_kernel (mblk demo_mb_machine) PAGE_SIZE PAGE_SIZE = Some (mb, 0x100000)"
  by (simp add: memblock_alloc_kernel_def memblock_alloc_range_def memblock_find_in_range_def demo_mb_machine_def
      MEMBLOCK_LIMIT_def memblock_beg_def memblock_end_def clamp_def round_up_def round_down_def round_mask_def
      memblock_reserve_type_def memblock_del_region_def memblock_adjust_region_def PAGE_SIZE_def
      MEMBLOCK_INVLD_def del_loop.simps region_at_def set_region_def move_regions_def memblock_init_def)

theorem mboot1_prepare_info_correct_witness:
  "\<exists>w' info'. mboot1_prepare_info \<lparr>e820_table = [], memory_lower = 640, memory_upper = 1024\<rparr> 0x80000000
      demo_lx_entry no_mb_info demo_mb_machine = Some (w', info', ok) \<and>
    load32 (vmem (mfs w')) 0x100000 = 7 \<and> load32 (vmem (mfs w')) 0x100004 = 640 \<and>
    cstr (vmem (mfs w')) 0x100078 (str ''quiet'')"
proof -
  obtain mb where a: "memblock_alloc_kernel (mblk demo_mb_machine) PAGE_SIZE PAGE_SIZE = Some (mb, 0x100000)"
    using demo_mb_alloc by blast
  have c: "cmdline demo_lx_entry = Some (str ''quiet'')" "0 \<notin> set (str ''quiet'')" "length (str ''quiet'') < 3976"
    by (simp_all add: demo_lx_entry_def str_def)
  have z: "load32 (vmem (mfs demo_mb_machine)) 0x100000 = 0"
    by (simp add: demo_mb_machine_def demo_vfs_def load32_def)
  show ?thesis
    using mboot1_prepare_info_correct [OF a _ c, of "\<lparr>e820_table = [], memory_lower = 640, memory_upper = 1024\<rparr>"
        "0x80000000" no_mb_info] z
    by (auto simp: mi_offsets Let_def)
qed

end
