(* ===== verification/Bios.thy ===== *)
theory Bios
  imports Bytes Module Tty
begin

text \<open>
  The small parts of \<^verbatim>\<open>src/arch/x86\<close> that look into the firmware: the BIOS data area
  (\<^verbatim>\<open>bda.c\<close>), the search for the ACPI root pointer (\<^verbatim>\<open>acpi.c\<close>), reading through the BIOS
  (\<^verbatim>\<open>edd.c\<close>), the video modes (\<^verbatim>\<open>video.c\<close>, \<^verbatim>\<open>video-vesa.c\<close>) and the dump of the
  stack (\<^verbatim>\<open>ptrace.c\<close>). A BIOS call is a parameter: a function of the interrupt, the registers, the
  memory and a state of the firmware. The build leaves out \<^verbatim>\<open>acpi.c\<close> and \<^verbatim>\<open>edd.c\<close>.
\<close>

section \<open>The BIOS data area\<close>

definition BDA_ADDRESS :: u32 where "BDA_ADDRESS = 0x400"
definition BDA_MAX_SIZE :: u32 where "BDA_MAX_SIZE = 0x100"
definition EBDA_MAX_SIZE :: u32 where "EBDA_MAX_SIZE = 128 * 1024"
definition EBDA_LOWMEM_LIMIT :: u32 where "EBDA_LOWMEM_LIMIT = 0xA0000"
definition EBDA_LOWMEM_START :: u32 where "EBDA_LOWMEM_START = EBDA_LOWMEM_LIMIT - EBDA_MAX_SIZE"

text \<open>The offset of \<^verbatim>\<open>ebda_segment\<close> behind four serial and three parallel ports.\<close>

definition o_ebda_segment :: u32 where "o_ebda_segment = 14"

definition fptr_val :: "u32 \<Rightarrow> u32 \<Rightarrow> u32" where
  "fptr_val seg off = push_bit 4 seg + off"

definition bios_get_ebda_addr :: "mem \<Rightarrow> u32" where
  "bios_get_ebda_addr m =
     (let ebda = fptr_val (ucast (load16 m (BDA_ADDRESS + o_ebda_segment))) 0 in
      if ebda < EBDA_LOWMEM_START \<or> ebda > EBDA_LOWMEM_LIMIT then - 1 else ebda)"

definition bios_get_ebda_ptr :: "mem \<Rightarrow> u32" where
  "bios_get_ebda_ptr m = (let a = bios_get_ebda_addr m in if a = - 1 then 0 else a)"

section \<open>The ACPI root pointer\<close>

definition ACPI_EBDA_RANGE :: u32 where "ACPI_EBDA_RANGE = 1024"
definition ACPI_HMEM_BASE :: u32 where "ACPI_HMEM_BASE = 0xE0000"
definition ACPI_HMEM_RANGE :: u32 where "ACPI_HMEM_RANGE = 0x20000"
definition ACPI_RSDP_CHECKSUM_LENGTH :: u32 where "ACPI_RSDP_CHECKSUM_LENGTH = 20"
definition ACPI_RSDP_XCHECKSUM_LENGTH :: u32 where "ACPI_RSDP_XCHECKSUM_LENGTH = 36"
definition o_rsdp_revision :: u32 where "o_rsdp_revision = 15"

function checksum_loop :: "mem \<Rightarrow> u32 \<Rightarrow> u32 \<Rightarrow> u8 \<Rightarrow> u8" where
  "checksum_loop m addr stop acc = (if addr < stop then checksum_loop m (addr + 1) stop (acc + m addr) else acc)"
  by auto
termination
proof (relation "measure (\<lambda>(m, addr, stop, acc). unat stop - unat addr)", goal_cases)
  case (2 m addr stop acc)
  then have lt: "unat addr < unat stop" by (simp add: word_less_nat_alt)
  then have "unat (addr + 1) = unat addr + 1"
    using unat_lt32 [of stop] by (simp add: unat_plus_lt)
  with lt show ?case by simp
qed simp

declare checksum_loop.simps [simp del]

definition acpi_rsdp_checksum :: "mem \<Rightarrow> u32 \<Rightarrow> u32 \<Rightarrow> u8" where
  "acpi_rsdp_checksum m buffer len = checksum_loop m buffer (buffer + len) 0"

text \<open>\<open>sig\<close> is the address of the constant \<^verbatim>\<open>ACPI_RSDP_SIGNATURE\<close>.\<close>

definition rsdp_here :: "mem \<Rightarrow> u32 \<Rightarrow> u32 \<Rightarrow> bool" where
  "rsdp_here m sig addr \<longleftrightarrow>
     strncmp m addr sig 8 = 0 \<and> acpi_rsdp_checksum m addr ACPI_RSDP_CHECKSUM_LENGTH = 0 \<and>
     \<not> (m (addr + o_rsdp_revision) \<ge> 2 \<and> acpi_rsdp_checksum m addr ACPI_RSDP_XCHECKSUM_LENGTH \<noteq> 0)"

partial_function (option) scan_loop :: "mem \<Rightarrow> u32 \<Rightarrow> u32 \<Rightarrow> u32 \<Rightarrow> u32 option" where
  "scan_loop m sig addr stop =
     (if addr < stop then if rsdp_here m sig addr then Some addr else scan_loop m sig (addr + 16) stop
      else Some 0)"

definition acpi_scan_rsdp_memory :: "mem \<Rightarrow> u32 \<Rightarrow> u32 \<Rightarrow> u32 \<Rightarrow> u32 option" where
  "acpi_scan_rsdp_memory m sig start len = scan_loop m sig start (start + len)"

definition acpi_get_rsdp :: "mem \<Rightarrow> u32 \<Rightarrow> u32 option" where
  "acpi_get_rsdp m sig =
     do { rsdp \<leftarrow> acpi_scan_rsdp_memory m sig (bios_get_ebda_addr m) ACPI_EBDA_RANGE;
          if rsdp \<noteq> 0 then Some rsdp else acpi_scan_rsdp_memory m sig ACPI_HMEM_BASE ACPI_HMEM_RANGE }"

section \<open>BIOS calls\<close>

text \<open>The union \<^verbatim>\<open>struct biosregs\<close> by its 32-bit registers; the parts are reached by masks.\<close>

record biosregs =
  edi :: u32
  esi :: u32
  ebp :: u32
  ebx :: u32
  edx :: u32
  ecx :: u32
  eax :: u32
  eflags :: u32

type_synonym 'b bios = "u8 \<Rightarrow> biosregs \<Rightarrow> mem \<Rightarrow> 'b \<Rightarrow> biosregs \<times> mem \<times> 'b"

definition X86_EFLAGS_CF :: u32 where "X86_EFLAGS_CF = 1"

definition initregs :: biosregs where
  "initregs = \<lparr>edi = 0, esi = 0, ebp = 0, ebx = 0, edx = 0, ecx = 0, eax = 0, eflags = X86_EFLAGS_CF\<rparr>"

definition set_word :: "u16 \<Rightarrow> u32 \<Rightarrow> u32" where
  "set_word v r = (r AND NOT 0xFFFF) OR ucast v"

definition set_lo :: "u8 \<Rightarrow> u32 \<Rightarrow> u32" where
  "set_lo v r = (r AND NOT 0xFF) OR ucast v"

definition set_hi :: "u8 \<Rightarrow> u32 \<Rightarrow> u32" where
  "set_hi v r = (r AND NOT 0xFF00) OR push_bit 8 (ucast v)"

definition hi_byte :: "u32 \<Rightarrow> u8" where "hi_byte r = ucast (drop_bit 8 r)"

definition carry :: "biosregs \<Rightarrow> bool" where "carry r \<longleftrightarrow> eflags r AND X86_EFLAGS_CF \<noteq> 0"

section \<open>Disks through the BIOS\<close>

definition EDD_MAGIC1 :: u16 where "EDD_MAGIC1 = 0x55AA"
definition EDD_MAGIC2 :: u16 where "EDD_MAGIC2 = 0xAA55"

definition edd_extensions_present :: "'b bios \<Rightarrow> u8 \<Rightarrow> mem \<Rightarrow> 'b \<Rightarrow> int \<times> mem \<times> 'b" where
  "edd_extensions_present bios devno m w =
     (let ireg = initregs\<lparr>eax := set_hi 0x41 0, ebx := set_word EDD_MAGIC1 0, edx := set_lo devno 0\<rparr>;
          (oreg, m, w) = bios 0x13 ireg m w
      in if carry oreg then (uint (hi_byte (eax oreg)), m, w)
         else if ucast (ebx oreg) \<noteq> EDD_MAGIC2 then (- 1, m, w)
         else (0, m, w))"

text \<open>The parameters are read into a buffer on the stack, at \<open>ebuf\<close>, and copied to \<open>edp\<close>.\<close>

definition edd_params_bytes :: u32 where "edd_params_bytes = 74"

definition edd_read_device_params :: "'b bios \<Rightarrow> u32 \<Rightarrow> u8 \<Rightarrow> u32 \<Rightarrow> mem \<Rightarrow> 'b \<Rightarrow> int \<times> mem \<times> 'b" where
  "edd_read_device_params bios ebuf devno edp m w =
     (let ireg = initregs\<lparr>eax := set_hi 0x48 0, edx := set_lo devno 0, esi := set_word (ucast ebuf) 0\<rparr>;
          m = m(ebuf := ucast edd_params_bytes, ebuf + 1 := ucast (drop_bit 8 edd_params_bytes));
          (oreg, m, w) = bios 0x13 ireg m w
      in if carry oreg then (uint (hi_byte (eax oreg)), m, w)
         else (0, memcpy m edp ebuf edd_params_bytes, w))"

definition edd_read_device_info :: "'b bios \<Rightarrow> u32 \<Rightarrow> u8 \<Rightarrow> u32 \<Rightarrow> mem \<Rightarrow> 'b \<Rightarrow> status \<times> mem \<times> 'b" where
  "edd_read_device_info bios ebuf devno params m w =
     (let (r, m, w) = edd_extensions_present bios devno m w in
      if r \<noteq> 0 then (Inl ENODEV, m, w)
      else let (r, m, w) = edd_read_device_params bios ebuf devno params m w in
        (if r \<noteq> 0 then Inl ENODEV else ok, m, w))"

record edd_extfer_info =
  xdev :: u8
  bps :: u16
  xlba :: u32
  xnum :: u16
  xbuf :: u32

text \<open>The packet for the BIOS is in memory, at \<open>dap\<close>: its length, the number of sectors, the buffer and
  the first sector. The number of sectors that fit the buffer is a division: by 0 it traps.\<close>

definition o_dap_num :: u32 where "o_dap_num = 2"
definition o_dap_buf :: u32 where "o_dap_buf = 4"
definition o_dap_lba :: u32 where "o_dap_lba = 8"

definition sectors_that_fit :: "u32 \<Rightarrow> edd_extfer_info \<Rightarrow> u16 option" where
  "sectors_that_fit bytes ext =
     (if bps ext = 0 then None
      else let n = bytes div ucast (bps ext) in Some (if ucast (xnum ext) < n then xnum ext else ucast n))"

definition store64 :: "mem \<Rightarrow> u32 \<Rightarrow> u64 \<Rightarrow> mem" where
  "store64 m p v = store32 (store32 m p (ucast v)) (p + 4) (ucast (drop_bit 32 v))"

partial_function (option) edd_read_loop :: "'b bios \<Rightarrow> u32 \<Rightarrow> u32 \<Rightarrow> biosregs \<Rightarrow> edd_extfer_info \<Rightarrow> mem \<Rightarrow> 'b \<Rightarrow>
    (int \<times> edd_extfer_info \<times> mem \<times> 'b) option" where
  "edd_read_loop bios bytes dap ireg ext m w =
     (if xnum ext = 0 then Some (0, ext, m, w)
      else let (oreg, m, w) = bios 0x13 ireg m w in
        if carry oreg then Some (uint (hi_byte (eax oreg)), ext, m, w)
        else
          let n = load16 m (dap + o_dap_num); buf = load32 m (dap + o_dap_buf);
              len = ucast n * ucast (bps ext);
              m = memcpy m (xbuf ext) buf len;
              ext = ext\<lparr>xnum := xnum ext - n, xbuf := xbuf ext + len\<rparr>;
              m = store64 m (dap + o_dap_lba) (load64 m (dap + o_dap_lba) + ucast n);
              m = store32 m (dap + o_dap_buf) (buf + len)
          in do { k \<leftarrow> sectors_that_fit bytes ext;
                  edd_read_loop bios bytes dap ireg ext (store16 m (dap + o_dap_num) k) w })"

definition edd_extended_read :: "'b bios \<Rightarrow> u32 \<Rightarrow> u32 \<Rightarrow> u32 \<Rightarrow> edd_extfer_info \<Rightarrow> mem \<Rightarrow> 'b \<Rightarrow>
    (int \<times> edd_extfer_info \<times> mem \<times> 'b) option" where
  "edd_extended_read bios start bytes dap ext m w =
     do { k \<leftarrow> sectors_that_fit bytes ext;
          let m = m(dap := 16, dap + 1 := 0);
          let m = store16 m (dap + o_dap_num) k;
          let m = store32 m (dap + o_dap_buf) start;
          let m = store64 m (dap + o_dap_lba) (ucast (xlba ext));
          let ireg = initregs\<lparr>eax := set_hi 0x42 0, edx := set_lo (xdev ext) 0, esi := set_word (ucast dap) 0\<rparr>;
          edd_read_loop bios bytes dap ireg ext m w }"

section \<open>Video modes\<close>

text \<open>A VESA function with its number in \<^verbatim>\<open>ax\<close> and the registers that it takes.\<close>

definition vesa_call :: "'b bios \<Rightarrow> biosregs \<Rightarrow> mem \<Rightarrow> 'b \<Rightarrow> bool \<times> biosregs \<times> mem \<times> 'b" where
  "vesa_call bios ireg m w =
     (let (oreg, m, w) = bios 0x10 ireg m w in (ucast (eax oreg) = (0x004f::u16), oreg, m, w))"

definition vesa_status :: "bool \<Rightarrow> status" where
  "vesa_status done_ok = (if done_ok then ok else Inl EFAULT)"

definition get_vesa_info :: "'b bios \<Rightarrow> u32 \<Rightarrow> mem \<Rightarrow> 'b \<Rightarrow> status \<times> mem \<times> 'b" where
  "get_vesa_info bios info m w =
     (let (good, _, m, w) = vesa_call bios (initregs\<lparr>eax := set_word 0x4f00 0, edi := set_word (ucast info) 0\<rparr>) m w
      in (vesa_status good, m, w))"

definition get_vesa_mode :: "'b bios \<Rightarrow> u16 \<Rightarrow> u32 \<Rightarrow> mem \<Rightarrow> 'b \<Rightarrow> status \<times> mem \<times> 'b" where
  "get_vesa_mode bios mode p m w =
     (let (good, _, m, w) = vesa_call bios (initregs\<lparr>eax := set_word 0x4f01 0, ecx := set_word (0x4000 + mode) 0,
        edi := set_word (ucast p) 0\<rparr>) m w
      in (vesa_status good, m, w))"

definition set_vesa_mode :: "'b bios \<Rightarrow> u16 \<Rightarrow> mem \<Rightarrow> 'b \<Rightarrow> status \<times> mem \<times> 'b" where
  "set_vesa_mode bios mode m w =
     (let (good, _, m, w) = vesa_call bios (initregs\<lparr>eax := set_word 0x4f02 0, ebx := set_word (0x4000 + mode) 0\<rparr>) m w
      in (vesa_status good, m, w))"

text \<open>The error is returned as the unsigned mode.\<close>

definition get_current_vesa_mode :: "'b bios \<Rightarrow> mem \<Rightarrow> 'b \<Rightarrow> u16 \<times> mem \<times> 'b" where
  "get_current_vesa_mode bios m w =
     (let (good, oreg, m, w) = vesa_call bios (initregs\<lparr>eax := set_word 0x4f03 0\<rparr>) m w
      in (if good then ucast (ebx oreg) else - word_of_int (errno_val EFAULT), m, w))"

definition video_default_mode :: "'b bios \<Rightarrow> mem \<Rightarrow> 'b \<Rightarrow> status \<times> mem \<times> 'b" where
  "video_default_mode bios m w =
     (let ireg = initregs\<lparr>eax := set_word 0x1003 0, ebx := set_hi 0 (set_lo 0 0)\<rparr>; (_, m, w) = bios 0x10 ireg m w
      in (ok, m, w))"

definition detect_videos :: "'b bios \<Rightarrow> mem \<Rightarrow> 'b \<Rightarrow> status \<times> mem \<times> 'b" where
  "detect_videos bios m w = video_default_mode bios m w"

section \<open>The dump of the stack\<close>

definition PTRACE_MAX_FRAMES :: nat where "PTRACE_MAX_FRAMES = 10"

definition lookup_stack_symbol :: "elfboot_symbol list \<Rightarrow> u32 \<Rightarrow> u8 list" where
  "lookup_stack_symbol syms addr = (case symbol_lookup_caller syms addr of Some s \<Rightarrow> s | None \<Rightarrow> str ''<?>'')"

text \<open>A line of the output: an address with its symbol, or the mark that frames are missing.\<close>

datatype stack_line = Frame u32 "u8 list" | More

definition dump_stack_symbol :: "elfboot_symbol list \<Rightarrow> u32 \<Rightarrow> stack_line" where
  "dump_stack_symbol syms addr = Frame addr (lookup_stack_symbol syms addr)"

text \<open>\<open>n\<close> is the number of frames that may still be shown.\<close>

fun dump_frames :: "elfboot_symbol list \<Rightarrow> mem \<Rightarrow> nat \<Rightarrow> u32 \<Rightarrow> stack_line list" where
  "dump_frames syms m 0 bp = [More]"
| "dump_frames syms m (Suc n) bp =
     (if bp = 0 then [] else dump_stack_symbol syms (load32 m (bp + 4)) # dump_frames syms m n (load32 m bp))"

definition dump_stack :: "elfboot_symbol list \<Rightarrow> mem \<Rightarrow> u32 \<Rightarrow> u32 \<Rightarrow> stack_line list" where
  "dump_stack syms m eip bp = dump_stack_symbol syms eip # dump_frames syms m PTRACE_MAX_FRAMES bp"

section \<open>Finding the root pointer\<close>

lemma checksum_loop_bytes:
  "unat p + n < 2 ^ 32 \<Longrightarrow> checksum_loop m p (p + of_nat n) acc = acc + sum_list (mem_bytes m p n)"
proof (induction n arbitrary: p acc)
  case 0
  then show ?case by (subst checksum_loop.simps) (simp add: mem_bytes_def)
next
  case (Suc n)
  have n: "unat (of_nat (Suc n) :: u32) = Suc n" using Suc.prems by (intro unat_of_nat32) simp
  have "unat (p + of_nat (Suc n)) = unat p + Suc n" using Suc.prems n by (simp add: unat_plus_lt)
  then have lt: "p < p + of_nat (Suc n)" by (simp add: word_less_nat_alt)
  have "unat (p + 1) = unat p + 1" using Suc.prems by (simp add: unat_plus_lt)
  then have "unat (p + 1) + n < 2 ^ 32" using Suc.prems by simp
  moreover have "p + of_nat (Suc n) = (p + 1) + of_nat n" by (simp add: algebra_simps)
  ultimately show ?case
    using Suc.IH [of "p + 1" "acc + m p"] lt
    by (subst checksum_loop.simps) (simp add: mem_bytes_Suc add.assoc)
qed

lemma acpi_rsdp_checksum_bytes:
  "unat p + n < 2 ^ 32 \<Longrightarrow> acpi_rsdp_checksum m p (of_nat n) = sum_list (mem_bytes m p n)"
  by (simp add: acpi_rsdp_checksum_def checksum_loop_bytes)

text \<open>The specification: the bytes of the structure, without the loops of the code.\<close>

definition rsdp_valid :: "mem \<Rightarrow> u32 \<Rightarrow> bool" where
  "rsdp_valid m p \<longleftrightarrow>
     mem_bytes m p 8 = str ''RSD PTR '' \<and> sum_list (mem_bytes m p 20) = 0 \<and>
     (m (p + 15) \<ge> 2 \<longrightarrow> sum_list (mem_bytes m p 36) = 0)"

lemma strncmp_bytes:
  "cstr m q s \<Longrightarrow> n \<le> length s \<Longrightarrow> strncmp_loop m p q n = 0 \<longleftrightarrow> mem_bytes m p n = take n s"
proof (induction n arbitrary: p q s)
  case (Suc n)
  then obtain c t where s: "s = c # t" by (cases s) auto
  with Suc.prems have c: "m q = c" "c \<noteq> 0" "cstr m (q + 1) t" "n \<le> length t" by auto
  show ?case
    using Suc.IH [OF c(3,4), of "p + 1"] c by (auto simp: s mem_bytes_Suc Let_def)
qed (simp add: mem_bytes_def)

lemma rsdp_here_valid:
  assumes "cstr m sig (str ''RSD PTR '')" "unat p + 36 < 2 ^ 32"
  shows "rsdp_here m sig p = rsdp_valid m p"
proof -
  have l: "length (str ''RSD PTR '') = 8" by (simp add: str_def)
  have "strncmp m p sig 8 = 0 \<longleftrightarrow> mem_bytes m p 8 = str ''RSD PTR ''"
    using strncmp_bytes [OF assms(1), of 8 p] l by (simp add: strncmp_def)
  moreover have "acpi_rsdp_checksum m p 20 = sum_list (mem_bytes m p 20)"
      "acpi_rsdp_checksum m p 36 = sum_list (mem_bytes m p 36)"
    using acpi_rsdp_checksum_bytes [of p 20 m] acpi_rsdp_checksum_bytes [of p 36 m] assms(2) by simp_all
  ultimately show ?thesis
    by (auto simp: rsdp_here_def rsdp_valid_def ACPI_RSDP_CHECKSUM_LENGTH_def ACPI_RSDP_XCHECKSUM_LENGTH_def
        o_rsdp_revision_def)
qed

definition paragraphs :: "u32 \<Rightarrow> nat \<Rightarrow> u32 list" where
  "paragraphs p n = map (\<lambda>i. p + 16 * of_nat i) [0..<n]"

definition first_or_null :: "(u32 \<Rightarrow> bool) \<Rightarrow> u32 list \<Rightarrow> u32" where
  "first_or_null P ps = (case find P ps of Some p \<Rightarrow> p | None \<Rightarrow> 0)"

lemma paragraphs_Suc: "paragraphs p (Suc n) = p # paragraphs (p + 16) n"
  unfolding paragraphs_def upt_conv_Cons [OF zero_less_Suc] list.map map_Suc_upt [symmetric] map_map
  by (simp add: o_def algebra_simps)

lemma scan_loop_first:
  "unat p + 16 * n < 2 ^ 32 \<Longrightarrow>
   scan_loop m sig p (p + of_nat (16 * n)) = Some (first_or_null (rsdp_here m sig) (paragraphs p n))"
proof (induction n arbitrary: p)
  case 0
  then show ?case by (subst scan_loop.simps) (simp add: paragraphs_def first_or_null_def)
next
  case (Suc n)
  have n: "unat (of_nat (16 * Suc n) :: u32) = 16 * Suc n" using Suc.prems by (intro unat_of_nat32) simp
  have "unat (p + of_nat (16 * Suc n)) = unat p + 16 * Suc n" using Suc.prems n by (simp add: unat_plus_lt)
  then have lt: "p < p + of_nat (16 * Suc n)" by (simp add: word_less_nat_alt)
  have "unat (p + 16) = unat p + 16" using Suc.prems by (simp add: unat_plus_lt)
  then have "unat (p + 16) + 16 * n < 2 ^ 32" using Suc.prems by simp
  moreover have "p + of_nat (16 * Suc n) = (p + 16) + of_nat (16 * n)" by (simp add: algebra_simps)
  ultimately show ?case
    using Suc.IH [of "p + 16"] lt by (subst scan_loop.simps) (simp add: paragraphs_Suc first_or_null_def add.assoc)
qed

lemma first_or_null_cong: "(\<And>p. p \<in> set ps \<Longrightarrow> P p = Q p) \<Longrightarrow> first_or_null P ps = first_or_null Q ps"
  unfolding first_or_null_def by (metis find_cong)

text \<open>The addresses at which the firmware may put the structure: the extended data area, if there is
  one, and the area below 1 MB.\<close>

definition rsdp_places :: "mem \<Rightarrow> u32 list" where
  "rsdp_places m =
     (if bios_get_ebda_addr m = - 1 then [] else paragraphs (bios_get_ebda_addr m) 64) @ paragraphs 0xE0000 8192"

lemma ebda_bounds:
  "bios_get_ebda_addr m \<noteq> - 1 \<Longrightarrow> 0x80000 \<le> unat (bios_get_ebda_addr m) \<and> unat (bios_get_ebda_addr m) \<le> 0xA0000"
  by (auto simp: bios_get_ebda_addr_def Let_def EBDA_LOWMEM_START_def EBDA_LOWMEM_LIMIT_def EBDA_MAX_SIZE_def
      word_less_nat_alt not_less)

lemma paragraphs_bound:
  assumes "q \<in> set (paragraphs p n)" "unat p + 16 * n < 2 ^ 32"
  shows "unat q < unat p + 16 * n" "unat p \<le> unat q"
proof -
  from assms(1) obtain i where i: "i < n" "q = p + 16 * of_nat i" by (auto simp: paragraphs_def)
  have "unat (of_nat (16 * i) :: u32) = 16 * i" using i assms(2) by (intro unat_of_nat32) simp
  then have "unat (p + of_nat (16 * i)) = unat p + 16 * i" using i assms(2) by (simp add: unat_plus_lt)
  then have "unat q = unat p + 16 * i" using i(2) by simp
  with i show "unat q < unat p + 16 * n" "unat p \<le> unat q" by auto
qed

lemma first_or_null_append:
  "(\<And>p. p \<in> set ps \<Longrightarrow> p \<noteq> 0) \<Longrightarrow> first_or_null P (ps @ qs) =
   (if first_or_null P ps \<noteq> 0 then first_or_null P ps else first_or_null P qs)"
  by (induction ps) (auto simp: first_or_null_def)

text \<open>
  C24: the search returns the first place that holds a valid root pointer.
\<close>

theorem acpi_get_rsdp_first:
  assumes sig: "cstr m sig (str ''RSD PTR '')"
  shows "acpi_get_rsdp m sig = Some (first_or_null (rsdp_valid m) (rsdp_places m))"
proof -
  let ?e = "bios_get_ebda_addr m"
  have high: "acpi_scan_rsdp_memory m sig ACPI_HMEM_BASE ACPI_HMEM_RANGE =
      Some (first_or_null (rsdp_valid m) (paragraphs 0xE0000 8192))"
  proof -
    have "first_or_null (rsdp_here m sig) (paragraphs 0xE0000 8192) =
        first_or_null (rsdp_valid m) (paragraphs 0xE0000 8192)"
      by (rule first_or_null_cong, rule rsdp_here_valid [OF sig])
        (use paragraphs_bound(1) [where p = "0xE0000" and n = 8192] in fastforce)
    then show ?thesis
      using scan_loop_first [of "0xE0000" 8192 m sig]
      by (simp add: acpi_scan_rsdp_memory_def ACPI_HMEM_BASE_def ACPI_HMEM_RANGE_def)
  qed
  show ?thesis
  proof (cases "?e = - 1")
    case True
    have "acpi_scan_rsdp_memory m sig (- 1) ACPI_EBDA_RANGE = Some 0"
      by (simp add: acpi_scan_rsdp_memory_def ACPI_EBDA_RANGE_def scan_loop.simps)
    then show ?thesis using True high by (simp add: acpi_get_rsdp_def rsdp_places_def)
  next
    case False
    from ebda_bounds [OF this] have b: "0x80000 \<le> unat ?e" "unat ?e \<le> 0xA0000" by auto
    then have fits: "unat ?e + 16 * 64 < 2 ^ 32" by simp
    note in_ebda = paragraphs_bound [where p = "?e" and n = 64, OF _ fits]
    have "first_or_null (rsdp_here m sig) (paragraphs ?e 64) = first_or_null (rsdp_valid m) (paragraphs ?e 64)"
      by (rule first_or_null_cong, rule rsdp_here_valid [OF sig]) (use in_ebda(1) b in fastforce)
    then have low: "acpi_scan_rsdp_memory m sig ?e ACPI_EBDA_RANGE =
        Some (first_or_null (rsdp_valid m) (paragraphs ?e 64))"
      using scan_loop_first [of ?e 64 m sig] fits
      by (simp add: acpi_scan_rsdp_memory_def ACPI_EBDA_RANGE_def)
    have "q \<noteq> 0" if "q \<in> set (paragraphs ?e 64)" for q
      using in_ebda(2) [OF that] b by auto
    then show ?thesis
      using False low high by (simp add: acpi_get_rsdp_def rsdp_places_def first_or_null_append)
  qed
qed

text \<open>A machine with an extended data area at 0x9fc00 that begins with the root pointer.\<close>

definition demo_firmware :: mem where
  "demo_firmware = (\<lambda>a.
     if a = 0x40E then 0xC0 else if a = 0x40F then 0x9F
     else if a - 0x9FC00 < 9 then (str ''RSD PTR '' @ [225]) ! unat (a - 0x9FC00)
     else if a - 0x2000 < 8 then str ''RSD PTR '' ! unat (a - 0x2000) else 0)"

lemma demo_firmware_ebda: "bios_get_ebda_addr demo_firmware = 0x9FC00"
  by (simp add: bios_get_ebda_addr_def fptr_val_def load16_def demo_firmware_def BDA_ADDRESS_def
      o_ebda_segment_def EBDA_LOWMEM_START_def EBDA_LOWMEM_LIMIT_def EBDA_MAX_SIZE_def Let_def)

theorem acpi_get_rsdp_first_witness: "acpi_get_rsdp demo_firmware 0x2000 = Some 0x9FC00"
proof -
  have "cstr demo_firmware 0x2000 (str ''RSD PTR '')"
    by (simp add: str_def demo_firmware_def)
  from acpi_get_rsdp_first [OF this] have
    "acpi_get_rsdp demo_firmware 0x2000 =
      Some (first_or_null (rsdp_valid demo_firmware) (rsdp_places demo_firmware))" .
  moreover have "rsdp_valid demo_firmware 0x9FC00"
    by (simp add: rsdp_valid_def mem_bytes_def upt_rec demo_firmware_def str_def)
  moreover have "rsdp_places demo_firmware = 0x9FC00 # paragraphs 0x9FC10 63 @ paragraphs 0xE0000 8192"
    using paragraphs_Suc [of "0x9FC00" 63] by (simp add: rsdp_places_def demo_firmware_ebda)
  ultimately show ?thesis by (simp add: first_or_null_def)
qed

section \<open>The frames of the stack\<close>

text \<open>The return addresses of a chain of frames that ends in a frame pointer of 0.\<close>

fun stack_frames :: "mem \<Rightarrow> u32 \<Rightarrow> u32 list \<Rightarrow> bool" where
  "stack_frames m bp [] \<longleftrightarrow> bp = 0"
| "stack_frames m bp (r # rs) \<longleftrightarrow> bp \<noteq> 0 \<and> load32 m (bp + 4) = r \<and> stack_frames m (load32 m bp) rs"

lemma dump_frames_chain:
  "stack_frames m bp rs \<Longrightarrow>
   dump_frames syms m n bp = map (dump_stack_symbol syms) (take n rs) @ (if length rs \<ge> n then [More] else [])"
proof (induction n arbitrary: bp rs)
  case (Suc n)
  then show ?case by (cases rs) auto
qed simp

text \<open>The mark stands also behind a chain of exactly ten frames, none of which is missing.\<close>

lemma dump_stack_chain:
  "stack_frames m bp rs \<Longrightarrow>
   dump_stack syms m eip bp = map (dump_stack_symbol syms) (eip # take 10 rs) @ (if length rs \<ge> 10 then [More] else [])"
  by (simp add: dump_stack_def dump_frames_chain PTRACE_MAX_FRAMES_def)

end
