(* ===== verification/Setup.thy ===== *)
theory Setup
  imports Bios E820 Vfs Crc32 Module Interrupt
begin

text \<open>
  \<^verbatim>\<open>src/arch/x86/setup.c\<close> and \<^verbatim>\<open>src/core/main.c\<close>: what is reserved of the memory, how the boot
  device is recognised, and the order in which the parts of the program are started.
\<close>

section \<open>Reserving memory\<close>

definition IVT_ADDRESS :: u32 where "IVT_ADDRESS = 0x0000"
definition IVT_MAX_SIZE :: u32 where "IVT_MAX_SIZE = 0x0400"
definition BOOT_STACK_START :: u32 where "BOOT_STACK_START = 0x6000"
definition BOOT_STACK_END :: u32 where "BOOT_STACK_END = 0x5000"
definition BOOT_STACK_SIZE :: u32 where "BOOT_STACK_SIZE = BOOT_STACK_START - BOOT_STACK_END"

text \<open>The results of the calls are not looked at.\<close>

fun reserve_all :: "(u32 \<times> u32) list \<Rightarrow> memblock \<Rightarrow> memblock option" where
  "reserve_all [] mb = Some mb"
| "reserve_all ((b, s) # rs) mb = do { (mb, _) \<leftarrow> memblock_reserve mb b s; reserve_all rs mb }"

text \<open>The bootloader itself is where the linker put it, from \<open>boot\<close> on.\<close>

definition reserved_regions :: "mem \<Rightarrow> u32 \<Rightarrow> u32 \<Rightarrow> (u32 \<times> u32) list" where
  "reserved_regions m boot boot_size =
     [(IVT_ADDRESS, IVT_MAX_SIZE), (BDA_ADDRESS, BDA_MAX_SIZE), (bios_get_ebda_addr m, EBDA_MAX_SIZE),
      (BOOT_STACK_START, BOOT_STACK_SIZE), (boot, boot_size)]"

definition bootmem_reserve_regions :: "mem \<Rightarrow> u32 \<Rightarrow> u32 \<Rightarrow> memblock \<Rightarrow> memblock option" where
  "bootmem_reserve_regions m boot boot_size mb = reserve_all (reserved_regions m boot boot_size) mb"

section \<open>The boot device\<close>

record boot_info_table =
  pvdlba :: u32
  elfboot_lba :: u32
  elfboot_len :: u32
  bootuid_lba :: u32
  bootuid_len :: u32

text \<open>
  The state of the verification: the file system, the pointer of \<^verbatim>\<open>strtok\<close>, the table of
  \<^verbatim>\<open>crc32\<close> and the boot information. \<open>space\<close> and \<open>name\<close> are the addresses of the
  constants \<^verbatim>\<open>" "\<close> and \<^verbatim>\<open>ELFBOOT\<close>; \<open>mem_ok\<close> is whether the table finds memory. The bytes
  of a read go to a buffer of one block, however many blocks are read.
\<close>

record boot_state =
  bfs :: vfs
  tok :: u32
  crc_table :: "u32 list option"
  binfo :: boot_info_table

definition ELFBOOT :: "u8 list" where "ELFBOOT = str ''ELFBOOT''"

definition uid_matches :: "u32 \<Rightarrow> u32 \<Rightarrow> bool \<Rightarrow> u32 \<Rightarrow> boot_state \<Rightarrow> (boot_state \<times> bool) option" where
  "uid_matches space name mem_ok buffer s =
     do { (uid, m, p) \<leftarrow> strtok (vmem (bfs s)) (tok s) buffer space;
          let s = s\<lparr>bfs := (bfs s)\<lparr>vmem := m\<rparr>, tok := p\<rparr>;
          d \<leftarrow> strcmp m uid name;
          if d \<noteq> 0 then Some (s, False)
          else do {
            (uid, m, p) \<leftarrow> strtok m p 0 space;
            let s = s\<lparr>bfs := (bfs s)\<lparr>vmem := m\<rparr>, tok := p\<rparr>;
            (v, _) \<leftarrow> strtoul m uid 16;
            let (tab, c) = crc32 mem_ok (crc_table s) ELFBOOT;
            Some (s\<lparr>crc_table := tab\<rparr>, v = c) } }"

text \<open>The flag of the device is set in the device's node and in the list of devices.\<close>

definition mark_boot :: "u32 \<Rightarrow> bdev \<Rightarrow> vfs \<Rightarrow> vfs" where
  "mark_boot n b v =
     (let b' = b\<lparr>bdev_flags := bdev_flags b OR BDEV_FLAGS_BOOT\<rparr> in
      upd_node n (\<lambda>x. x\<lparr>ndev := Block_device b'\<rparr>) (v\<lparr>vbdevs := map (\<lambda>x. if x = b then b' else x) (vbdevs v)\<rparr>))"

definition arch_init_boot_verify :: "u32 \<Rightarrow> u32 \<Rightarrow> bool \<Rightarrow> u32 \<Rightarrow> boot_state \<Rightarrow> (boot_state \<times> status) option" where
  "arch_init_boot_verify space name mem_ok n s =
     (case ndev (fsnodes (bfs s) n) of
        Block_device b \<Rightarrow> do {
          (v, buffer) \<leftarrow> vmalloc (ucast (bdev_block_size b)) (bfs s);
          let s = s\<lparr>bfs := v\<rparr>;
          if buffer = 0 then Some (s, Inl ENOMEM)
          else do {
            let t = binfo s;
            let t = t\<lparr>bootuid_lba := elfboot_lba t + ucast (bdev_blknum b (ucast (elfboot_len t)))\<rparr>;
            let s = s\<lparr>binfo := t\<rparr>;
            let uidlen = bdev_blknum b (ucast (bootuid_len t)) AND 0xFFFFFFFF;
            let (r, bs) = bdev_read b (ucast (bootuid_lba t)) uidlen;
            let s = s\<lparr>bfs := (bfs s)\<lparr>vmem := Bytes.put_bytes (vmem (bfs s)) buffer bs\<rparr>\<rparr>;
            (s, good) \<leftarrow> (if r \<noteq> 0 then Some (s, False) else uid_matches space name mem_ok buffer s);
            let s = (if good then s\<lparr>bfs := mark_boot n b (bfs s)\<rparr> else s);
            v \<leftarrow> vfree buffer (bfs s);
            Some (s\<lparr>bfs := v\<rparr>, if good then ok else Inl EFAULT) } }
      | _ \<Rightarrow> None)"

text \<open>The loop over the entries of \<^verbatim>\<open>/dev\<close>; the result is the entry that it stops at, or none.\<close>

partial_function (option) find_boot :: "u32 \<Rightarrow> u32 \<Rightarrow> bool \<Rightarrow> u32 option \<Rightarrow> boot_state \<Rightarrow> (boot_state \<times> u32 option) option" where
  "find_boot space name mem_ok pos s =
     (case pos of None \<Rightarrow> Some (s, None)
      | Some n \<Rightarrow>
          if nflags (fsnodes (bfs s) n) AND FS_BLOCKDEVICE = 0
          then find_boot space name mem_ok (tree_next_sibling_or_null n (vtree (bfs s))) s
          else do {
            (s, st) \<leftarrow> arch_init_boot_verify space name mem_ok n s;
            if st = ok then Some (s, Some n)
            else find_boot space name mem_ok (tree_next_sibling_or_null n (vtree (bfs s))) s })"

definition arch_init_bootdevice :: "u32 \<Rightarrow> u32 \<Rightarrow> bool \<Rightarrow> boot_state \<Rightarrow> (boot_state \<times> status) option" where
  "arch_init_bootdevice space name mem_ok s =
     do { (v, node) \<leftarrow> vfs_open (str ''/dev'') (bfs s);
          let s = s\<lparr>bfs := v\<rparr>;
          if node = 0 then Some (s, Inl ENOENT)
          else do {
            (s, found) \<leftarrow> find_boot space name mem_ok (tree_first_child_or_null node (vtree v)) s;
            case found of None \<Rightarrow> Some (s, Inl ENODEV)
            | Some n \<Rightarrow>
                (case ndev (fsnodes (bfs s) n) of
                   Block_device b \<Rightarrow> do {
                     (v, st) \<leftarrow> vfs_mount b (str ''/'') (str ''root'') (bfs s);
                     Some (s\<lparr>bfs := v\<rparr>, if st = ok then ok else Inl EFAULT) }
                 | _ \<Rightarrow> Some (s, Inl ENODEV)) } }"

section \<open>Starting up\<close>

text \<open>
  The parts of the program are started one after the other; each is a step on the state \<open>'w\<close> of the
  machine, and the first that fails ends the start with \<^verbatim>\<open>-EFAULT\<close>.
\<close>

type_synonym 'w stage = "'w \<Rightarrow> ('w \<times> status) option"

fun run_stages :: "'w stage list \<Rightarrow> 'w stage" where
  "run_stages [] w = Some (w, ok)"
| "run_stages (f # fs) w = do { (w, st) \<leftarrow> f w; if st = ok then run_stages fs w else Some (w, Inl EFAULT) }"

definition elfboot_init :: "'w stage list \<Rightarrow> 'w stage" where
  "elfboot_init modinits = run_stages modinits"

record 'w parts =
  p_page_alloc_init :: "'w stage"
  p_bmalloc_init :: "'w stage"
  p_vfs_init :: "'w stage"
  p_pci_init :: "'w stage"
  p_modules_init :: "'w stage"
  p_init_interrupts :: "'w stage"
  p_arch_init_interrupts :: "'w stage"
  p_arch_init_bootdevice :: "'w stage"
  p_detect_videos :: "'w stage"
  p_symbols_init :: "'w stage"
  p_module_open :: "u8 list \<Rightarrow> 'w stage"
  p_loader_init :: "'w stage"

definition arch_init_late :: "'w parts \<Rightarrow> 'w stage" where
  "arch_init_late p =
     run_stages [p_init_interrupts p, p_arch_init_interrupts p, p_arch_init_bootdevice p, p_detect_videos p]"

text \<open>\<open>tty_is_module\<close> is the choice of the configuration.\<close>

definition modules_load :: "bool \<Rightarrow> 'w parts \<Rightarrow> 'w stage" where
  "modules_load tty_is_module p =
     run_stages ((if tty_is_module then [p_module_open p (str ''tty'')] else []) @
       [p_module_open p (str ''pit''), p_module_open p (str ''kbd'')])"

definition elfboot_main :: "bool \<Rightarrow> 'w parts \<Rightarrow> 'w stage" where
  "elfboot_main tty_is_module p =
     run_stages [p_page_alloc_init p, p_bmalloc_init p, p_vfs_init p, p_pci_init p, p_modules_init p,
       arch_init_late p, p_symbols_init p, modules_load tty_is_module p, p_loader_init p]"

text \<open>The symbol map: the file is read into a buffer of its length, without a terminator.\<close>

definition symbols_init :: "u32 \<Rightarrow> elfboot_symbol list \<Rightarrow> vfs \<Rightarrow> (vfs \<times> elfboot_symbol list \<times> status) option" where
  "symbols_init delim syms s =
     do { (s, f) \<leftarrow> file_open (str ''/root/elfboot.map'') 0 s;
          case f of None \<Rightarrow> Some (s, syms, Inl ENOENT)
          | Some f \<Rightarrow> do {
              (s, p) \<leftarrow> vmalloc (file_length f) s;
              if p = 0 then Some (s, syms, Inl ENOMEM)
              else do {
                (s, r, bs) \<leftarrow> file_read f (file_length f) (mem_bytes (vmem s) p (unat (file_length f))) s;
                let s = s\<lparr>vmem := Bytes.put_bytes (vmem s) p bs\<rparr>;
                if r = 0 then do { s \<leftarrow> vfree p s; Some (s, syms, Inl EFAULT) }
                else do {
                  (m, sl, syms, st) \<leftarrow> symbol_parse_map delim p (vmem s) (vslub s) syms;
                  Some (s\<lparr>vmem := m, vslub := sl\<rparr>, syms, st) } } } }"

text \<open>The parameters that later parts of the program ask for.\<close>

record boot_params =
  bp_memory :: boot_memory
  disk_drive :: u32

definition arch_memory_lower_size :: "boot_params \<Rightarrow> u32" where "arch_memory_lower_size p = memory_lower (bp_memory p)"
definition arch_memory_upper_size :: "boot_params \<Rightarrow> u32" where "arch_memory_upper_size p = memory_upper (bp_memory p)"
definition arch_bootdev_partitions :: "boot_params \<Rightarrow> u32" where "arch_bootdev_partitions p = disk_drive p"

text \<open>\<^verbatim>\<open>arch_setup\<close> until it calls \<^verbatim>\<open>elfboot_main\<close>, whose result it ignores: it returns
  an error in any case.\<close>

definition arch_setup :: "u16 \<Rightarrow> (u32 \<Rightarrow> bios_reply) \<Rightarrow> mem \<Rightarrow> u32 \<Rightarrow> u32 \<Rightarrow> memblock \<Rightarrow>
    (boot_params \<times> memblock \<Rightarrow> 'r option) \<Rightarrow> (status \<times> 'r option) option" where
  "arch_setup drive bios m boot boot_size mb elfboot =
     do { r \<leftarrow> detect_memory bios mb;
          case r of Inl _ \<Rightarrow> Some (Inl EFAULT, None)
          | Inr (bm, mb) \<Rightarrow> do {
              mb \<leftarrow> bootmem_reserve_regions m boot boot_size mb;
              w \<leftarrow> elfboot (\<lparr>bp_memory = bm, disk_drive = push_bit 24 (ucast drive)\<rparr>, mb);
              Some (Inl EFAULT, Some w) } }"

section \<open>What is reserved\<close>

lemma length_cut:
  assumes "lo < hi"
  shows "separated is \<Longrightarrow> length (cut lo hi is) \<le> length is + 1"
proof (induction "is")
  case (Cons x "is")
  obtain a e where x: "x = (a, e)" by (cases x)
  have rest: "separated is" "\<forall>y \<in> set is. e < fst y" using Cons.prems by (auto simp: separated_Cons x)
  show ?case
  proof (cases "a < lo \<and> hi < e")
    case True
    then have "cut lo hi is = is" using rest assms by (intro cut_above) auto
    then show ?thesis by (simp add: pieces_def x)
  next
    case False
    then have "length (pieces lo hi x) \<le> 1" using assms by (auto simp: pieces_def x)
    then show ?thesis using Cons.IH [OF rest(1)] by simp
  qed
qed simp

definition pages_of :: "u32 \<times> u32 \<Rightarrow> nat set" where
  "pages_of r = {page_floor (unat (fst r))..<page_ceil (unat (fst r) + unat (snd r))}"

definition reservable :: "u32 \<times> u32 \<Rightarrow> bool" where
  "reservable r \<longleftrightarrow> 0 < unat (snd r) \<and> unat (fst r) + unat (snd r) + 4095 < 2 ^ 32"

lemma reserve_step:
  assumes "wf_type (bootmem mb)" "cnt (bootmem mb) < 8" "reservable (b, s)"
  shows "\<exists>mb' d. memblock_reserve mb b s = Some (mb', d) \<and> wf_type (bootmem mb') \<and>
    cnt (bootmem mb') \<le> cnt (bootmem mb) + 1 \<and>
    covered (intervals (bootmem mb')) = covered (intervals (bootmem mb)) - pages_of (b, s)"
proof -
  have sz: "0 < unat s" "unat b + unat s + 4095 < 2 ^ 32" using assms(3) by (auto simp: reservable_def)
  let ?lo = "page_floor (unat b)" and ?hi = "page_ceil (unat b + unat s)"
  obtain t d where d: "memblock_del_region (bootmem mb) b s = Some (t, d)" "wf_type t"
    "intervals t = cut ?lo ?hi (intervals (bootmem mb))"
    using del_region_intervals [OF assms(1,2) sz] by blast
  have lt: "?lo < ?hi"
    using page_floor_le [of "unat b"] page_ceil_ge [of "unat b + unat s"] sz(1) by linarith
  have len: "length (intervals t) = cnt t" if "wf_type t" for t
    using that by (simp add: wf_type_def intervals_def live_def MEMBLOCK_MAX_REGIONS_def)
  have "separated (intervals (bootmem mb))" using assms(1) by (simp add: wf_type_def intervals_def)
  from length_cut [OF lt this] have "cnt t \<le> cnt (bootmem mb) + 1"
    using len [OF assms(1)] len [OF d(2)] d(3) by simp
  with d lt show ?thesis
    by (intro exI [of _ "mb\<lparr>bootmem := t\<rparr>"]) (auto simp: memblock_reserve_def covered_cut pages_of_def)
qed

lemma reserve_all_removes:
  "wf_type (bootmem mb) \<Longrightarrow> cnt (bootmem mb) + length rs \<le> 8 \<Longrightarrow> \<forall>r \<in> set rs. reservable r \<Longrightarrow>
   \<exists>mb'. reserve_all rs mb = Some mb' \<and> wf_type (bootmem mb') \<and>
     covered (intervals (bootmem mb')) = covered (intervals (bootmem mb)) - \<Union> (pages_of ` set rs)"
proof (induction rs arbitrary: mb)
  case (Cons r rs)
  obtain b s where r: "r = (b, s)" by (cases r)
  from reserve_step [of mb b s] Cons.prems obtain mb1 d where
    s: "memblock_reserve mb b s = Some (mb1, d)" "wf_type (bootmem mb1)"
      "cnt (bootmem mb1) \<le> cnt (bootmem mb) + 1"
      "covered (intervals (bootmem mb1)) = covered (intervals (bootmem mb)) - pages_of (b, s)"
    by (auto simp: r)
  from Cons.IH [OF s(2)] Cons.prems s(3) obtain mb' where
    "reserve_all rs mb1 = Some mb'" "wf_type (bootmem mb')"
    "covered (intervals (bootmem mb')) = covered (intervals (bootmem mb1)) - \<Union> (pages_of ` set rs)"
    by auto
  with s show ?case by (auto simp: r)
qed simp



text \<open>The stack of the bootloader grows down from 0x6000: what is reserved is the page above it.\<close>

lemma boot_stack_not_reserved:
  "pages_of (BOOT_STACK_START, BOOT_STACK_SIZE) \<inter> {unat BOOT_STACK_END..<unat BOOT_STACK_START} = {}"
  by (simp add: pages_of_def page_floor_def page_ceil_def BOOT_STACK_START_def BOOT_STACK_SIZE_def BOOT_STACK_END_def)

section \<open>The order of the start\<close>

text \<open>The start is complete exactly when every part succeeds on the state that the parts before it left.\<close>

fun all_ok :: "'w stage list \<Rightarrow> 'w \<Rightarrow> 'w \<Rightarrow> bool" where
  "all_ok [] w w' \<longleftrightarrow> w = w'"
| "all_ok (f # fs) w w' \<longleftrightarrow> (\<exists>w1. f w = Some (w1, ok) \<and> all_ok fs w1 w')"

lemma run_stages_all_ok: "run_stages fs w = Some (w', ok) \<longleftrightarrow> all_ok fs w w'"
  by (induction fs arbitrary: w) (auto split: Option.bind_splits if_splits)

lemma run_stages_append:
  "run_stages (fs @ gs) w = do { (w, st) \<leftarrow> run_stages fs w; if st = ok then run_stages gs w else Some (w, st) }"
  by (induction fs arbitrary: w) (auto split: Option.bind_splits prod.splits)

lemma elfboot_main_stops:
  "p_page_alloc_init p w = Some (w1, ok) \<Longrightarrow> p_bmalloc_init p w1 = Some (w2, Inl e) \<Longrightarrow>
   elfboot_main tty p w = Some (w2, Inl EFAULT)"
  by (simp add: elfboot_main_def)

end
