(* ===== verification/Elfconf.thy ===== *)
theory Elfconf
  imports Bytes
begin

text \<open>
  The build tool \<^verbatim>\<open>tools/elfconf.c\<close>, which writes a value over a symbol of an ELF file. It runs on the
  64-bit host: offsets are natural numbers. The file is the list of its bytes; a read behind the end of the
  buffer is \<open>None\<close>, as are the other cases of undefined behaviour. Of the host's library the parsing of the
  options and of numbers are parameters.
\<close>

section \<open>Structures\<close>

datatype conf_error = Enavail | Efault | Ebadfd | Enotsup | Enomem

type_synonym bytes = "u8 list"

definition o_e_shoff :: nat where "o_e_shoff = 32"
definition o_e_shnum :: nat where "o_e_shnum = 48"
definition o_e_shstrndx :: nat where "o_e_shstrndx = 50"
definition shdr_size :: nat where "shdr_size = 40"
definition o_sh_name :: nat where "o_sh_name = 0"
definition o_sh_addr :: nat where "o_sh_addr = 12"
definition o_sh_offset :: nat where "o_sh_offset = 16"
definition o_sh_size :: nat where "o_sh_size = 20"
definition o_sh_entsize :: nat where "o_sh_entsize = 36"
definition sym_size :: nat where "sym_size = 16"
definition o_st_name :: nat where "o_st_name = 0"
definition o_st_value :: nat where "o_st_value = 4"
definition o_st_size :: nat where "o_st_size = 8"
definition o_st_shndx :: nat where "o_st_shndx = 14"
definition HOST_SHN_UNDEF :: u16 where "HOST_SHN_UNDEF = 0"

text \<open>Pointers into the buffer are offsets.\<close>

record elfconf_elf32file =
  shdr :: nat
  symtab :: nat
  numsyms :: nat
  strtab :: nat
  shstrtab :: nat

definition field32 :: "bytes \<Rightarrow> nat \<Rightarrow> nat option" where
  "field32 f i = map_option unat (le32_at f i)"

definition elf_section_header :: "elfconf_elf32file \<Rightarrow> nat \<Rightarrow> nat" where
  "elf_section_header elf i = shdr elf + shdr_size * i"

definition elf_section :: "bytes \<Rightarrow> elfconf_elf32file \<Rightarrow> nat \<Rightarrow> nat option" where
  "elf_section f elf i = field32 f (elf_section_header elf i + o_sh_offset)"

definition elf_symbol :: "elfconf_elf32file \<Rightarrow> nat \<Rightarrow> nat" where
  "elf_symbol elf i = symtab elf + sym_size * i"

text \<open>The offset of a symbol in the file is computed in 32 bits.\<close>

definition elf_symbol_offset :: "bytes \<Rightarrow> elfconf_elf32file \<Rightarrow> nat \<Rightarrow> u32 option" where
  "elf_symbol_offset f elf sy =
     do { ndx \<leftarrow> le16_at f (sy + o_st_shndx);
          let sec = elf_section_header elf (unat ndx);
          v \<leftarrow> le32_at f (sy + o_st_value);
          a \<leftarrow> le32_at f (sec + o_sh_addr);
          off \<leftarrow> le32_at f (sec + o_sh_offset);
          Some (v - a + off) }"

text \<open>\<^verbatim>\<open>strcmp(name, p) == 0\<close> for a name without zeros and a pointer into the buffer.\<close>

fun name_at :: "bytes \<Rightarrow> nat \<Rightarrow> bytes \<Rightarrow> bool option" where
  "name_at f i [] = map_option (\<lambda>b. b = 0) (byte_at f i)"
| "name_at f i (c # cs) =
     do { b \<leftarrow> byte_at f i; if b = c then name_at f (i + 1) cs else Some False }"

section \<open>Parsing\<close>

text \<open>The search for a section by its name; the number of its entries is asked for by \<open>counted\<close>, a
  division by the entry size. The inner None is \<^verbatim>\<open>NULL\<close>.\<close>

fun find_section_from :: "bytes \<Rightarrow> elfconf_elf32file \<Rightarrow> bytes \<Rightarrow> bool \<Rightarrow> nat \<Rightarrow> nat \<Rightarrow> (nat \<times> nat) option option" where
  "find_section_from f elf name counted 0 i = Some None"
| "find_section_from f elf name counted (Suc n) i =
     do { nm \<leftarrow> field32 f (elf_section_header elf i + o_sh_name);
          same \<leftarrow> name_at f (shstrtab elf + nm) name;
          if \<not> same then find_section_from f elf name counted n (i + 1)
          else do {
            num \<leftarrow> (if counted then do {
                sz \<leftarrow> field32 f (elf_section_header elf i + o_sh_size);
                ent \<leftarrow> field32 f (elf_section_header elf i + o_sh_entsize);
                if ent = 0 then None else Some (sz div ent) }
              else Some 0);
            p \<leftarrow> elf_section f elf i;
            Some (Some (p, num)) } }"

definition find_elf32_section :: "bytes \<Rightarrow> elfconf_elf32file \<Rightarrow> bytes \<Rightarrow> bool \<Rightarrow> (nat \<times> nat) option option" where
  "find_elf32_section f elf name counted =
     do { n \<leftarrow> le16_at f o_e_shnum; find_section_from f elf name counted (unat n) 0 }"

definition ELFCONF_SECTION_SYMTAB :: bytes where "ELFCONF_SECTION_SYMTAB = str ''.symtab''"
definition ELFCONF_SECTION_STRTAB :: bytes where "ELFCONF_SECTION_STRTAB = str ''.strtab''"

definition parse_elf32_file :: "bytes \<Rightarrow> (conf_error + elfconf_elf32file) option" where
  "parse_elf32_file f =
     do { off \<leftarrow> field32 f o_e_shoff;
          let elf = \<lparr>shdr = off, symtab = 0, numsyms = 0, strtab = 0, shstrtab = 0\<rparr>;
          ndx \<leftarrow> le16_at f o_e_shstrndx;
          p \<leftarrow> elf_section f elf (unat ndx);
          let elf = elf\<lparr>shstrtab := p\<rparr>;
          st \<leftarrow> find_elf32_section f elf ELFCONF_SECTION_SYMTAB True;
          case st of None \<Rightarrow> Some (Inl Enavail)
          | Some (p, num) \<Rightarrow> do {
              let elf = elf\<lparr>symtab := p, numsyms := num\<rparr>;
              st \<leftarrow> find_elf32_section f elf ELFCONF_SECTION_STRTAB False;
              case st of None \<Rightarrow> Some (Inl Enavail) | Some (p, _) \<Rightarrow> Some (Inr (elf\<lparr>strtab := p\<rparr>)) } }"

fun find_symbol_from :: "bytes \<Rightarrow> elfconf_elf32file \<Rightarrow> bytes \<Rightarrow> nat \<Rightarrow> nat \<Rightarrow> nat option option" where
  "find_symbol_from f elf name 0 i = Some None"
| "find_symbol_from f elf name (Suc n) i =
     (let sy = elf_symbol elf i in
      do { nm \<leftarrow> field32 f (sy + o_st_name);
           same \<leftarrow> name_at f (strtab elf + nm) name;
           if \<not> same then find_symbol_from f elf name n (i + 1)
           else do { ndx \<leftarrow> le16_at f (sy + o_st_shndx); Some (if ndx = HOST_SHN_UNDEF then None else Some sy) } })"

definition find_elf32_symbol :: "bytes \<Rightarrow> elfconf_elf32file \<Rightarrow> bytes \<Rightarrow> nat option option" where
  "find_elf32_symbol f elf name = find_symbol_from f elf name (numsyms elf) 0"

section \<open>Writing\<close>

text \<open>A write at an offset of a file; a gap behind the end is filled with zeros.\<close>

definition write_at :: "bytes \<Rightarrow> nat \<Rightarrow> bytes \<Rightarrow> bytes" where
  "write_at f off bs =
     (if bs = [] then f
      else take off (f @ replicate (off - length f) 0) @ bs @ drop (off + length bs) f)"

definition le_bytes64 :: "u64 \<Rightarrow> bytes" where
  "le_bytes64 v = map (\<lambda>i. ucast (drop_bit (8 * i) v)) [0..<8]"

text \<open>The value is an \<^verbatim>\<open>unsigned long\<close> of 8 bytes: a larger symbol reads the memory behind it.\<close>

definition configure_elf32_symbol :: "bytes \<Rightarrow> u64 \<Rightarrow> bytes \<Rightarrow> elfconf_elf32file \<Rightarrow> (conf_error + bytes) option" where
  "configure_elf32_symbol name val f elf =
     do { r \<leftarrow> find_elf32_symbol f elf name;
          case r of None \<Rightarrow> Some (Inl Enavail)
          | Some sy \<Rightarrow> do {
              off \<leftarrow> elf_symbol_offset f elf sy;
              sz \<leftarrow> field32 f (sy + o_st_size);
              if sz > 8 then None else Some (Inr (write_at f (unat off) (take sz (le_bytes64 val)))) } }"

definition apply_elf32_args :: "bytes \<Rightarrow> u64 \<Rightarrow> bytes \<Rightarrow> (conf_error + bytes) option" where
  "apply_elf32_args name val f =
     do { r \<leftarrow> parse_elf32_file f;
          case r of Inl _ \<Rightarrow> Some (Inl Efault)
          | Inr elf \<Rightarrow> do {
              r \<leftarrow> configure_elf32_symbol name val f elf;
              Some (case r of Inl _ \<Rightarrow> Inl Efault | Inr f \<Rightarrow> Inr f) } }"

definition ELFMAG :: bytes where "ELFMAG = [0x7f, 0x45, 0x4c, 0x46]"

definition parse_elfconf_file :: "bytes \<Rightarrow> u64 \<Rightarrow> bytes \<Rightarrow> (conf_error + bytes) option" where
  "parse_elfconf_file name val f =
     (if length f < 4 then None
      else if take 4 f \<noteq> ELFMAG then Some (Inl Enotsup)
      else if length f < 5 then None
      else if f ! 4 = 1 then apply_elf32_args name val f
      else Some (Inl Enotsup))"

text \<open>\<open>opened\<close> is the content of the file if it opens, \<open>mem_ok\<close> whether the buffer is found; the file is read
  in full.\<close>

definition apply_elfconf_args :: "bytes option \<Rightarrow> bool \<Rightarrow> bytes \<Rightarrow> u64 \<Rightarrow> (conf_error + bytes) option" where
  "apply_elfconf_args opened mem_ok name val =
     (case opened of None \<Rightarrow> Some (Inl Ebadfd)
      | Some f \<Rightarrow>
          if \<not> mem_ok then Some (Inl Enomem)
          else do { r \<leftarrow> parse_elfconf_file name val f;
                    Some (case r of Inl _ \<Rightarrow> Inl Efault | Inr f \<Rightarrow> Inr f) })"

text \<open>The options as \<^verbatim>\<open>getopt\<close> gives them, with their arguments; the fields start
  uninitialised, which here is None.\<close>

record elfconf_arguments =
  a_elf :: "bytes option"
  a_sym :: "bytes option"
  a_val :: "u64 option"

definition no_args :: elfconf_arguments where
  "no_args = \<lparr>a_elf = None, a_sym = None, a_val = None\<rparr>"

fun parse_elfconf_args :: "(bytes \<Rightarrow> u64) \<Rightarrow> (char \<times> bytes) list \<Rightarrow> elfconf_arguments \<Rightarrow> conf_error + elfconf_arguments" where
  "parse_elfconf_args number [] args = Inr args"
| "parse_elfconf_args number ((c, arg) # opts) args =
     (if c = CHR ''f'' then parse_elfconf_args number opts (args\<lparr>a_elf := Some arg\<rparr>)
      else if c = CHR ''s'' then parse_elfconf_args number opts (args\<lparr>a_sym := Some arg\<rparr>)
      else if c = CHR ''v'' then parse_elfconf_args number opts (args\<lparr>a_val := Some (number arg)\<rparr>)
      else Inl Efault)"

text \<open>\<open>disk\<close> is the file system of the host. An option that is missing leaves its field undefined.\<close>

definition main :: "(bytes \<Rightarrow> u64) \<Rightarrow> (bytes \<Rightarrow> bytes option) \<Rightarrow> bool \<Rightarrow> (char \<times> bytes) list \<Rightarrow> (conf_error + bytes) option" where
  "main number disk mem_ok opts =
     (case parse_elfconf_args number opts no_args of
        Inl _ \<Rightarrow> Some (Inl Efault)
      | Inr args \<Rightarrow> do {
          path \<leftarrow> a_elf args; name \<leftarrow> a_sym args; val \<leftarrow> a_val args;
          r \<leftarrow> apply_elfconf_args (disk path) mem_ok name val;
          Some (case r of Inl _ \<Rightarrow> Inl Efault | Inr f \<Rightarrow> Inr f) })"

section \<open>What is written\<close>

lemma write_at_in:
  assumes "off + length bs \<le> length f"
  shows "length (write_at f off bs) = length f"
    "k < length bs \<Longrightarrow> write_at f off bs ! (off + k) = bs ! k"
    "k < off \<or> off + length bs \<le> k \<Longrightarrow> write_at f off bs ! k = f ! k"
  using assms by (auto simp: write_at_def nth_append)

text \<open>The first symbol of the name, if it is a defined one.\<close>

definition symbol_named :: "bytes \<Rightarrow> elfconf_elf32file \<Rightarrow> bytes \<Rightarrow> nat \<Rightarrow> bool" where
  "symbol_named f elf name i \<longleftrightarrow>
     Option.bind (field32 f (elf_symbol elf i + o_st_name)) (\<lambda>nm. name_at f (strtab elf + nm) name) = Some True"

lemma find_symbol_from_first:
  "find_symbol_from f elf name n i = Some (Some sy) \<Longrightarrow>
   \<exists>j. i \<le> j \<and> j < i + n \<and> sy = elf_symbol elf j \<and> symbol_named f elf name j \<and>
     (\<forall>k. i \<le> k \<and> k < j \<longrightarrow> \<not> symbol_named f elf name k) \<and>
     (\<exists>ndx. le16_at f (sy + o_st_shndx) = Some ndx \<and> ndx \<noteq> HOST_SHN_UNDEF)"
proof (induction n arbitrary: i)
  case (Suc n)
  obtain nm same where e: "field32 f (elf_symbol elf i + o_st_name) = Some nm"
      "name_at f (strtab elf + nm) name = Some same"
    using Suc.prems by (auto simp: Let_def split: Option.bind_splits)
  show ?case
  proof (cases same)
    case True
    with Suc.prems e show ?thesis
      by (intro exI [of _ i]) (auto simp: Let_def symbol_named_def split: Option.bind_splits if_splits)
  next
    case False
    with Suc.prems e have r: "find_symbol_from f elf name n (i + 1) = Some (Some sy)" by (simp add: Let_def)
    have "\<not> symbol_named f elf name i" using e False by (simp add: symbol_named_def)
    with Suc.IH [OF r] show ?thesis
      by (metis (no_types, lifting) Suc_eq_plus1 add_Suc_right add_Suc_shift le_eq_less_or_eq less_eq_Suc_le not_less_eq_eq)
  qed
qed simp

text \<open>
  C20: a successful run changes exactly the bytes of the first symbol of the name, which get the value.
\<close>

theorem configure_elf32_symbol_writes:
  assumes "configure_elf32_symbol name val f elf = Some (Inr f')"
  shows "\<exists>i off n. i < numsyms elf \<and> symbol_named f elf name i \<and> (\<forall>k<i. \<not> symbol_named f elf name k) \<and>
    elf_symbol_offset f elf (elf_symbol elf i) = Some off \<and>
    field32 f (elf_symbol elf i + o_st_size) = Some n \<and> n \<le> 8 \<and>
    (unat off + n \<le> length f \<longrightarrow> length f' = length f \<and>
      (\<forall>k < n. f' ! (unat off + k) = ucast (drop_bit (8 * k) val)) \<and>
      (\<forall>k. k < unat off \<or> unat off + n \<le> k \<longrightarrow> f' ! k = f ! k))"
proof -
  obtain sy off n where r: "find_elf32_symbol f elf name = Some (Some sy)"
      "elf_symbol_offset f elf sy = Some off" "field32 f (sy + o_st_size) = Some n" "n \<le> 8"
      "f' = write_at f (unat off) (take n (le_bytes64 val))"
    using assms by (auto simp: configure_elf32_symbol_def split: Option.bind_splits option.splits if_splits)
  obtain i where i: "i < numsyms elf" "sy = elf_symbol elf i" "symbol_named f elf name i"
      "\<forall>k<i. \<not> symbol_named f elf name k"
    using find_symbol_from_first [OF r(1) [unfolded find_elf32_symbol_def]] by auto
  have len: "length (take n (le_bytes64 val)) = n" using r(4) by (simp add: le_bytes64_def)
  have at: "take n (le_bytes64 val) ! k = ucast (drop_bit (8 * k) val)" if "k < n" for k
    using that r(4) by (simp add: le_bytes64_def)
  have "length f' = length f \<and> (\<forall>k < n. f' ! (unat off + k) = ucast (drop_bit (8 * k) val)) \<and>
      (\<forall>k. k < unat off \<or> unat off + n \<le> k \<longrightarrow> f' ! k = f ! k)" if "unat off + n \<le> length f"
    using write_at_in [of "unat off" "take n (le_bytes64 val)" f] that at unfolding len r(5) by auto
  with r i show ?thesis by auto
qed

definition demo_conf_file :: bytes where
  "demo_conf_file = replicate 56 0 @ [98, 0, 0, 0] @ replicate 20 0 @
     [0, 0, 0, 0, 0, 0, 0, 0, 4, 0, 0, 0, 0, 0, 1, 0] @ [97, 0] @ [1, 2, 3, 4]"

definition demo_conf_elf :: elfconf_elf32file where
  "demo_conf_elf = \<lparr>shdr = 0, symtab = 80, numsyms = 1, strtab = 96, shstrtab = 0\<rparr>"

lemma demo_conf_run:
  "configure_elf32_symbol [97] 0x0807 demo_conf_file demo_conf_elf =
     Some (Inr (take 98 demo_conf_file @ [7, 8, 0, 0]))"
  by code_simp

theorem configure_elf32_symbol_writes_witness:
  "\<exists>i off n. i < numsyms demo_conf_elf \<and> symbol_named demo_conf_file demo_conf_elf [97] i \<and>
    elf_symbol_offset demo_conf_file demo_conf_elf (elf_symbol demo_conf_elf i) = Some off \<and>
    field32 demo_conf_file (elf_symbol demo_conf_elf i + o_st_size) = Some n \<and> n \<le> 8"
  using configure_elf32_symbol_writes [OF demo_conf_run] by blast

end
