(* ===== verification/Ahci.thy ===== *)
theory Ahci
  imports Ide
begin

text \<open>
  The AHCI driver \<^verbatim>\<open>src/drivers/ahci/ahci.c\<close>. The controller is a parameter: every access to one
  of its registers reads and changes its state \<open>'d\<close> and the memory, into which it transfers data by
  itself. The driver's state is that of the controller and the file system, which holds the memory and the
  allocator. Loops that wait for the controller may not end: \<open>None\<close> is not returning or undefined
  behaviour of the allocator.
\<close>

section \<open>Registers\<close>

record 'd controller =
  reg_read :: "u32 \<Rightarrow> 'd \<Rightarrow> mem \<Rightarrow> u32 \<times> 'd \<times> mem"
  reg_write :: "u32 \<Rightarrow> u32 \<Rightarrow> 'd \<Rightarrow> mem \<Rightarrow> 'd \<times> mem"

type_synonym 'd sys = "'d \<times> vfs"

definition rd :: "'d controller \<Rightarrow> u32 \<Rightarrow> 'd sys \<Rightarrow> u32 \<times> 'd sys" where
  "rd hw a s = (let (x, d, m) = reg_read hw a (fst s) (vmem (snd s)) in (x, d, (snd s)\<lparr>vmem := m\<rparr>))"

definition wr :: "'d controller \<Rightarrow> u32 \<Rightarrow> u32 \<Rightarrow> 'd sys \<Rightarrow> 'd sys" where
  "wr hw a x s = (let (d, m) = reg_write hw a x (fst s) (vmem (snd s)) in (d, (snd s)\<lparr>vmem := m\<rparr>))"

definition set_reg :: "'d controller \<Rightarrow> u32 \<Rightarrow> (u32 \<Rightarrow> u32) \<Rightarrow> 'd sys \<Rightarrow> 'd sys" where
  "set_reg hw a f s = (let (x, s) = rd hw a s in wr hw a (f x) s)"

text \<open>The structure \<^verbatim>\<open>hba_port\<close> and the fields of \<^verbatim>\<open>hba_memory\<close> that are used.\<close>

definition o_clb :: u32 where "o_clb = 0"
definition o_clbu :: u32 where "o_clbu = 4"
definition o_fb :: u32 where "o_fb = 8"
definition o_fbu :: u32 where "o_fbu = 12"
definition o_is :: u32 where "o_is = 16"
definition o_cmd :: u32 where "o_cmd = 24"
definition o_tfd :: u32 where "o_tfd = 32"
definition o_sig :: u32 where "o_sig = 36"
definition o_ssts :: u32 where "o_ssts = 40"
definition o_sact :: u32 where "o_sact = 52"
definition o_ci :: u32 where "o_ci = 56"

definition o_cap :: u32 where "o_cap = 0"
definition o_pi :: u32 where "o_pi = 12"

definition hba_port :: "u32 \<Rightarrow> nat \<Rightarrow> u32" where
  "hba_port hba n = hba + 0x100 + 128 * of_nat n"

definition AHCI_MAX_DEVICES :: nat where "AHCI_MAX_DEVICES = 32"
definition SATA_SIG_ATA :: u32 where "SATA_SIG_ATA = 0x00000101"
definition SATA_SIG_ATAPI :: u32 where "SATA_SIG_ATAPI = 0xeb140101"
definition HBA_PxIS_TFES :: u32 where "HBA_PxIS_TFES = push_bit 30 1"
definition HBA_PxCMD_ST :: u32 where "HBA_PxCMD_ST = 0x0001"
definition HBA_PxCMD_FRE :: u32 where "HBA_PxCMD_FRE = 0x0010"
definition HBA_PxCMD_CR :: u32 where "HBA_PxCMD_CR = 0x8000"
definition FIS_TYPE_REG_H2D :: u8 where "FIS_TYPE_REG_H2D = 0x27"

definition HBA_CAP_NP :: "u32 \<Rightarrow> u32" where "HBA_CAP_NP v = v AND 0x1f"

definition HBA_IDBC :: "u32 \<Rightarrow> u32 \<Rightarrow> u32" where
  "HBA_IDBC dbc i = (dbc AND 0x3fffff) OR push_bit 31 (i AND 1)"

definition HBA_PWACFL :: "u8 \<Rightarrow> u8 \<Rightarrow> u8 \<Rightarrow> u8 \<Rightarrow> u8" where
  "HBA_PWACFL cfl a w p = (cfl AND 0x1f) OR push_bit 5 (a AND 1) OR push_bit 6 (w AND 1) OR push_bit 7 (p AND 1)"

definition HBA_PMIC :: "u8 \<Rightarrow> u8 \<Rightarrow> u8 \<Rightarrow> u8" where
  "HBA_PMIC pmp i c = (pmp AND 0x0f) OR push_bit 6 (i AND 1) OR push_bit 7 (c AND 1)"

text \<open>The structures in memory: the command header, the command table with its buffers, the frame.\<close>

definition hba_cmd_hdr_size :: u32 where "hba_cmd_hdr_size = 32"
definition h_pwacfl :: u32 where "h_pwacfl = 0"
definition h_prdtl :: u32 where "h_prdtl = 2"
definition h_ctba :: u32 where "h_ctba = 8"
definition h_ctbau :: u32 where "h_ctbau = 12"
definition hba_cmd_tbl_size :: u32 where "hba_cmd_tbl_size = 128"
definition t_acmd :: u32 where "t_acmd = 64"
definition t_prdt :: u32 where "t_prdt = 128"
definition hba_prdt_size :: u32 where "hba_prdt_size = 16"
definition p_dba :: u32 where "p_dba = 0"
definition p_idbc :: u32 where "p_idbc = 12"
definition f_type :: u32 where "f_type = 0"
definition f_pmic :: u32 where "f_pmic = 1"
definition f_command :: u32 where "f_command = 2"
definition f_feature :: u32 where "f_feature = 3"
definition f_device :: u32 where "f_device = 7"
definition f_control :: u32 where "f_control = 15"

lemmas hba_layout = hba_cmd_hdr_size_def h_pwacfl_def h_prdtl_def h_ctba_def h_ctbau_def hba_cmd_tbl_size_def
  t_acmd_def t_prdt_def hba_prdt_size_def p_dba_def p_idbc_def f_type_def f_pmic_def f_command_def
  f_feature_def f_device_def f_control_def

text \<open>A device; \<^verbatim>\<open>private\<close> is the address of its identify data.\<close>

record ahci_dev =
  portno :: nat
  aport :: u32
  atapi :: u8
  aprivate :: u32

text \<open>Writes of the driver to the memory, and the allocator.\<close>

definition poke :: "u32 \<Rightarrow> u8 list \<Rightarrow> 'd sys \<Rightarrow> 'd sys" where
  "poke a bs s = (fst s, (snd s)\<lparr>vmem := put_bytes (vmem (snd s)) a bs\<rparr>)"

definition peek32 :: "u32 \<Rightarrow> 'd sys \<Rightarrow> u32" where
  "peek32 a s = load32 (vmem (snd s)) a"

definition alloc :: "u32 \<Rightarrow> 'd sys \<Rightarrow> ('d sys \<times> u32) option" where
  "alloc n s = do { (v, p) \<leftarrow> vmalloc n (snd s); Some ((fst s, v), p) }"

definition zalloc :: "u32 \<Rightarrow> 'd sys \<Rightarrow> ('d sys \<times> u32) option" where
  "zalloc n s =
     do { (m, b, p) \<leftarrow> bzalloc n (vmem (snd s)) (vslub (snd s));
          Some ((fst s, (snd s)\<lparr>vmem := m, vslub := b\<rparr>), p) }"

definition free :: "u32 \<Rightarrow> 'd sys \<Rightarrow> 'd sys option" where
  "free p s = do { v \<leftarrow> vfree p (snd s); Some (fst s, v) }"

section \<open>Ports\<close>

text \<open>The order of the two reads of the expression is the compiler's; here it is that of the text.\<close>

fun find_slot_from :: "'d controller \<Rightarrow> u32 \<Rightarrow> nat \<Rightarrow> nat \<Rightarrow> 'd sys \<Rightarrow> (errno + nat) \<times> 'd sys" where
  "find_slot_from hw port 0 i s = (Inl EFAULT, s)"
| "find_slot_from hw port (Suc n) i s =
     (let (a, s) = rd hw (port + o_sact) s; (c, s) = rd hw (port + o_ci) s in
      if (a OR c) AND push_bit i 1 \<noteq> 0 then find_slot_from hw port n (i + 1) s else (Inr i, s))"

definition ahci_find_slot :: "'d controller \<Rightarrow> u32 \<Rightarrow> 'd sys \<Rightarrow> (errno + nat) \<times> 'd sys" where
  "ahci_find_slot hw port s = find_slot_from hw port AHCI_MAX_DEVICES 0 s"

partial_function (option) ahci_port_wait :: "'d controller \<Rightarrow> u32 \<Rightarrow> 'd sys \<Rightarrow> 'd sys option" where
  "ahci_port_wait hw port s =
     (let (t, s) = rd hw (port + o_tfd) s in
      if t AND ucast ATA_SR_BSY \<noteq> 0 then ahci_port_wait hw port s
      else let (t, s) = rd hw (port + o_tfd) s in
      if t AND ucast ATA_SR_DRQ \<noteq> 0 then ahci_port_wait hw port s else Some s)"

partial_function (option) wait_stopped :: "'d controller \<Rightarrow> u32 \<Rightarrow> 'd sys \<Rightarrow> 'd sys option" where
  "wait_stopped hw port s =
     (let (x, s) = rd hw (port + o_cmd) s in
      if x AND HBA_PxCMD_CR \<noteq> 0 then wait_stopped hw port s else Some s)"

definition ahci_start_command :: "'d controller \<Rightarrow> u32 \<Rightarrow> 'd sys \<Rightarrow> 'd sys option" where
  "ahci_start_command hw port s =
     do { s \<leftarrow> wait_stopped hw port (set_reg hw (port + o_cmd) (\<lambda>x. x AND NOT HBA_PxCMD_ST) s);
          let s = set_reg hw (port + o_cmd) (\<lambda>x. x OR HBA_PxCMD_FRE) s;
          Some (set_reg hw (port + o_cmd) (\<lambda>x. x OR HBA_PxCMD_ST) s) }"

definition ahci_stop_command :: "'d controller \<Rightarrow> u32 \<Rightarrow> 'd sys \<Rightarrow> 'd sys option" where
  "ahci_stop_command hw port s =
     do { s \<leftarrow> wait_stopped hw port (set_reg hw (port + o_cmd) (\<lambda>x. x AND NOT HBA_PxCMD_ST) s);
          Some (set_reg hw (port + o_cmd) (\<lambda>x. x AND NOT HBA_PxCMD_FRE) s) }"

definition ahci_is_atapi :: "'d controller \<Rightarrow> u32 \<Rightarrow> 'd sys \<Rightarrow> bool \<times> 'd sys" where
  "ahci_is_atapi hw port s = (let (x, s) = rd hw (port + o_sig) s in (x = SATA_SIG_ATAPI, s))"

fun rebase_headers_from :: "u32 \<Rightarrow> nat \<Rightarrow> nat \<Rightarrow> 'd sys \<Rightarrow> ('d sys \<times> status) option" where
  "rebase_headers_from hdr 0 i s = Some (s, ok)"
| "rebase_headers_from hdr (Suc n) i s =
     (let h = hdr + hba_cmd_hdr_size * of_nat i; s = poke (h + h_prdtl) (word16_bytes 8) s in
      do { (s, p) \<leftarrow> zalloc 256 s;
           let s = poke (h + h_ctba) (le_bytes32 p) s;
           if p = 0 then Some (s, Inl EFAULT) else rebase_headers_from hdr n (i + 1) s })"

definition ahci_port_rebase_headers :: "u32 \<Rightarrow> 'd sys \<Rightarrow> ('d sys \<times> status) option" where
  "ahci_port_rebase_headers hdr s = rebase_headers_from hdr AHCI_MAX_DEVICES 0 s"

text \<open>The steps of \<^verbatim>\<open>ahci_port_rebase\<close> that free what it has set up, in the order of its labels.\<close>

definition free_at_reg :: "'d controller \<Rightarrow> u32 \<Rightarrow> 'd sys \<Rightarrow> 'd sys option" where
  "free_at_reg hw a s = (let (p, s) = rd hw a s in free p s)"

definition ahci_port_rebase :: "'d controller \<Rightarrow> u32 \<Rightarrow> 'd sys \<Rightarrow> ('d sys \<times> status) option" where
  "ahci_port_rebase hw port s =
     do { s \<leftarrow> ahci_stop_command hw port s;
          (s, p) \<leftarrow> zalloc 1024 s;
          let (x, s) = rd hw (port + o_clb) (wr hw (port + o_clb) p s);
          if x = 0 then Some (s, Inl ENOMEM)
          else do {
            (s, p) \<leftarrow> zalloc 256 (wr hw (port + o_clbu) 0 s);
            let (x, s) = rd hw (port + o_fb) (wr hw (port + o_fb) p s);
            if x = 0 then do { s \<leftarrow> free_at_reg hw (port + o_clb) s; Some (s, Inl EFAULT) }
            else do {
              let (hdr, s) = rd hw (port + o_clb) (wr hw (port + o_fbu) 0 s);
              (s, st) \<leftarrow> ahci_port_rebase_headers hdr s;
              case st of
                Inl _ \<Rightarrow> do { s \<leftarrow> free_at_reg hw (port + o_fb) s; s \<leftarrow> free_at_reg hw (port + o_clb) s; Some (s, Inl EFAULT) }
              | Inr _ \<Rightarrow> do { s \<leftarrow> ahci_start_command hw port s; Some (s, ok) } } } }"

section \<open>Commands\<close>

definition cmd_hdr :: "'d controller \<Rightarrow> u32 \<Rightarrow> nat \<Rightarrow> 'd sys \<Rightarrow> u32 \<times> 'd sys" where
  "cmd_hdr hw port sl s = (let (x, s) = rd hw (port + o_clb) s in (x + of_nat sl * hba_cmd_hdr_size, s))"

definition ahci_get_cmd_tbl :: "'d controller \<Rightarrow> u32 \<Rightarrow> nat \<Rightarrow> 'd sys \<Rightarrow> u32 \<times> 'd sys" where
  "ahci_get_cmd_tbl hw port sl s = (let (h, s) = cmd_hdr hw port sl s in (peek32 (h + h_ctba) s, s))"

definition ahci_get_fis_reg :: "'d controller \<Rightarrow> u32 \<Rightarrow> nat \<Rightarrow> 'd sys \<Rightarrow> u32 \<times> 'd sys" where
  "ahci_get_fis_reg hw port sl s = ahci_get_cmd_tbl hw port sl s"

definition ahci_prepare_command :: "'d controller \<Rightarrow> ahci_dev \<Rightarrow> u32 \<Rightarrow> u8 \<Rightarrow> 'd sys \<Rightarrow> ('d sys \<times> (errno + nat)) option" where
  "ahci_prepare_command hw dev num_prdts write s =
     (let (r, s) = ahci_find_slot hw (aport dev) s in
      case r of Inl _ \<Rightarrow> Some (s, Inl EFAULT)
      | Inr sl \<Rightarrow> do {
          (s, ctbl) \<leftarrow> zalloc (hba_cmd_tbl_size + hba_prdt_size * num_prdts) s;
          if ctbl = 0 then Some (s, Inl ENOMEM)
          else do {
            let (h, s) = cmd_hdr hw (aport dev) sl s;
            let s = poke (h + h_pwacfl) [HBA_PWACFL 5 (atapi dev) write 0] s;
            let s = poke (h + h_ctba) (le_bytes32 ctbl) s;
            let s = poke (h + h_ctbau) (le_bytes32 0) s;
            let s = poke (h + h_prdtl) (word16_bytes (ucast num_prdts)) s;
            let (freg, s) = ahci_get_fis_reg hw (aport dev) sl s;
            let s = poke (freg + f_type) [FIS_TYPE_REG_H2D] s;
            let s = poke (freg + f_pmic) [HBA_PMIC 0 0 1] s;
            let s = poke (freg + f_control) [0x08] s;
            Some (s, Inr sl) } })"

definition ahci_destroy_command :: "'d controller \<Rightarrow> u32 \<Rightarrow> nat \<Rightarrow> 'd sys \<Rightarrow> 'd sys option" where
  "ahci_destroy_command hw port sl s = (let (t, s) = ahci_get_cmd_tbl hw port sl s in free t s)"

partial_function (option) idle_loop :: "'d controller \<Rightarrow> u32 \<Rightarrow> nat \<Rightarrow> 'd sys \<Rightarrow> ('d sys \<times> status) option" where
  "idle_loop hw port sl s =
     (let (c, s) = rd hw (port + o_ci) s in
      if c AND push_bit sl 1 = 0 then Some (s, ok)
      else let (x, s) = rd hw (port + o_is) s in
      if x AND HBA_PxIS_TFES \<noteq> 0 then Some (s, Inl EFAULT) else idle_loop hw port sl s)"

definition ahci_idle :: "'d controller \<Rightarrow> ahci_dev \<Rightarrow> nat \<Rightarrow> 'd sys \<Rightarrow> ('d sys \<times> status) option" where
  "ahci_idle hw dev sl s =
     do { (s, st) \<leftarrow> idle_loop hw (aport dev) sl s;
          case st of Inl e \<Rightarrow> Some (s, Inl e)
          | Inr _ \<Rightarrow> let (x, s) = rd hw (aport dev + o_is) s in
              Some (s, if x AND HBA_PxIS_TFES \<noteq> 0 then Inl EFAULT else ok) }"

record ahci_cmd =
  apacket :: "u8 list"
  abuffer :: u32
  abuflen :: u32

text \<open>\<^verbatim>\<open>ahci_send_command\<close> up to the wait for the port, and the rest.\<close>

definition build_packet :: "'d controller \<Rightarrow> ahci_dev \<Rightarrow> ahci_cmd \<Rightarrow> 'd sys \<Rightarrow> ('d sys \<times> (errno + nat)) option" where
  "build_packet hw dev cmd s =
     do { (s, r) \<leftarrow> ahci_prepare_command hw dev 1 0 s;
          case r of Inl e \<Rightarrow> Some (s, Inl e)
          | Inr sl \<Rightarrow> do {
              let (freg, s) = ahci_get_fis_reg hw (aport dev) sl s;
              let s = poke (freg + f_command) [ATA_CMD_PACKET] s;
              let s = poke (freg + f_device) [0xA0 OR push_bit 6 1] s;
              let s = poke (freg + f_feature) [0x01] s;
              let (ctbl, s) = ahci_get_cmd_tbl hw (aport dev) sl s;
              let s = poke (ctbl + t_prdt + p_idbc) (le_bytes32 (HBA_IDBC (abuflen cmd - 1) 0)) s;
              let s = poke (ctbl + t_prdt + p_dba) (le_bytes32 (abuffer cmd)) s;
              let s = poke (ctbl + t_acmd) (apacket cmd) s;
              Some (s, Inr sl) } }"

definition issue_slot :: "'d controller \<Rightarrow> ahci_dev \<Rightarrow> nat \<Rightarrow> 'd sys \<Rightarrow> ('d sys \<times> status) option" where
  "issue_slot hw dev sl s =
     do { s \<leftarrow> ahci_port_wait hw (aport dev) s;
          ahci_idle hw dev sl (set_reg hw (aport dev + o_ci) (\<lambda>x. x OR push_bit sl 1) s) }"

definition ahci_send_command :: "'d controller \<Rightarrow> ahci_dev \<Rightarrow> ahci_cmd \<Rightarrow> 'd sys \<Rightarrow> ('d sys \<times> status) option" where
  "ahci_send_command hw dev cmd s =
     do { (s, r) \<leftarrow> build_packet hw dev cmd s;
          case r of Inl e \<Rightarrow> Some (s, Inl e)
          | Inr sl \<Rightarrow> do {
              (s, st) \<leftarrow> issue_slot hw dev sl s;
              s \<leftarrow> ahci_destroy_command hw (aport dev) sl s;
              Some (s, if st = ok then ok else Inl EFAULT) } }"

definition ahci_satapi_send :: "'d controller \<Rightarrow> ahci_dev \<Rightarrow> u8 list \<Rightarrow> u32 \<Rightarrow> u32 \<Rightarrow> 'd sys \<Rightarrow> ('d sys \<times> status) option" where
  "ahci_satapi_send hw dev pkg buffer buflen s =
     ahci_send_command hw dev \<lparr>apacket = pkg, abuffer = buffer, abuflen = buflen\<rparr> s"

section \<open>Operations of the block devices\<close>

text \<open>
  Beside what \<^typ>\<open>old_memory\<close> holds: the addresses of the answers on the stack and, for the table of
  operations, of the buffer into which the layers above let the device read.
\<close>

record ahci_env = old_memory +
  rsd_at :: u32
  rcd_at :: u32
  dma_at :: u32

definition ahci_sata_read :: "blkdev \<Rightarrow> u64 \<Rightarrow> u64 \<Rightarrow> int" where
  "ahci_sata_read b offset num = 0"

definition ahci_sata_write :: "blkdev \<Rightarrow> u64 \<Rightarrow> u64 \<Rightarrow> u8 list \<Rightarrow> int" where
  "ahci_sata_write b offset num buffer = 0"

definition ahci_sata_ioctl :: "blkdev \<Rightarrow> int \<Rightarrow> int" where
  "ahci_sata_ioctl b request = 0"

definition ahci_satapi_request_sense :: "'d controller \<Rightarrow> ahci_dev \<Rightarrow> ahci_env \<Rightarrow> 'd sys \<Rightarrow> ('d sys \<times> status) option" where
  "ahci_satapi_request_sense hw dev env s =
     ahci_satapi_send hw dev scsi_request_sense (rsd_at env) scsi_request_sense_data_size s"

text \<open>A command and the request for its sense data; the command's own status counts last.\<close>

definition send_and_sense :: "'d controller \<Rightarrow> ahci_dev \<Rightarrow> ahci_env \<Rightarrow> u8 list \<Rightarrow> u32 \<Rightarrow> u32 \<Rightarrow> 'd sys \<Rightarrow> ('d sys \<times> status) option" where
  "send_and_sense hw dev env pkg buffer buflen s =
     do { (s, ret) \<leftarrow> ahci_satapi_send hw dev pkg buffer buflen s;
          (s, st) \<leftarrow> ahci_satapi_request_sense hw dev env s;
          Some (s, if st \<noteq> ok then Inl EFAULT else ret) }"

definition ahci_satapi_read :: "'d controller \<Rightarrow> ahci_dev \<Rightarrow> ahci_env \<Rightarrow> blkdev \<Rightarrow> u64 \<Rightarrow> u64 \<Rightarrow> u32 \<Rightarrow> 'd sys \<Rightarrow> ('d sys \<times> status) option" where
  "ahci_satapi_read hw dev env b offset num buffer s =
     send_and_sense hw dev env (scsi_xfer12 (swap_bytes32 (ucast offset)) (swap_bytes32 (ucast num)))
       buffer (ucast (num * ucast (bdev_block_size b))) s"

definition ahci_satapi_write :: "blkdev \<Rightarrow> u64 \<Rightarrow> u64 \<Rightarrow> u8 list \<Rightarrow> int" where
  "ahci_satapi_write b offset num buffer = 0"

definition ahci_satapi_ioctl :: "blkdev \<Rightarrow> int \<Rightarrow> int" where
  "ahci_satapi_ioctl b request = 0"

definition ahci_sata_bdev_ops :: "blkdev \<Rightarrow> bdev_ops" where
  "ahci_sata_bdev_ops b =
     \<lparr>bread = Some (\<lambda>off n. (ahci_sata_read b off n, [])), bwrite = Some (ahci_sata_write b), bioctl = Some (ahci_sata_ioctl b)\<rparr>"

definition status_val :: "status \<Rightarrow> int" where
  "status_val st = (case st of Inl e \<Rightarrow> - errno_val e | Inr _ \<Rightarrow> 0)"

text \<open>A read that does not return has no result: \<open>the\<close> of \<open>None\<close> is unspecified.\<close>

definition ahci_satapi_bdev_ops :: "'d controller \<Rightarrow> ahci_dev \<Rightarrow> ahci_env \<Rightarrow> blkdev \<Rightarrow> 'd sys \<Rightarrow> bdev_ops" where
  "ahci_satapi_bdev_ops hw dev env b s =
     \<lparr>bread = Some (\<lambda>off n.
        let (s, st) = the (ahci_satapi_read hw dev env b off n (dma_at env) s)
        in (status_val st, mem_bytes (vmem (snd s)) (dma_at env) (unat (n * ucast (bdev_block_size b))))),
      bwrite = Some (ahci_satapi_write b), bioctl = Some (ahci_satapi_ioctl b)\<rparr>"

section \<open>Finding the devices\<close>

definition ahci_dev_name :: "ahci_dev \<Rightarrow> string" where
  "ahci_dev_name dev =
     ''ahci'' @ (if portno dev < 10 then [digit (portno dev)] else [digit (portno dev div 10), digit (portno dev mod 10)])"

definition new_bdev :: "ahci_dev \<Rightarrow> ahci_env \<Rightarrow> 'd sys \<Rightarrow> ('d sys \<times> (errno + u32 \<times> blkdev)) option" where
  "new_bdev dev env s =
     do { (s, q) \<leftarrow> alloc BDEV_BYTES s;
          if q = 0 then Some (s, Inl ENOMEM)
          else do {
            (v, named) \<leftarrow> name_bdev (ahci_dev_name dev) (old_bdev env q) (snd s);
            let s = (fst s, v);
            case named of None \<Rightarrow> do { s \<leftarrow> free q s; Some (s, Inl EFAULT) } | Some b \<Rightarrow> Some (s, Inr (q, b)) } }"

definition register_bdev :: "blkdev \<Rightarrow> bdev_ops \<Rightarrow> 'd sys \<Rightarrow> ('d sys \<times> status) option" where
  "register_bdev b ops s = do { (v, st) \<leftarrow> bdev_init (bdev.truncate b) ops (snd s); Some ((fst s, v), st) }"

definition identify_words :: "u32 \<Rightarrow> 'd sys \<Rightarrow> u16 list" where
  "identify_words p s = map (\<lambda>i. load16 (vmem (snd s)) (p + 2 * of_nat i)) [0..<ATA_BLOCK_WORDS]"

definition ahci_fill_sata :: "ahci_dev \<Rightarrow> ahci_env \<Rightarrow> 'd sys \<Rightarrow> ('d sys \<times> status) option" where
  "ahci_fill_sata dev env s =
     do { (s, r) \<leftarrow> new_bdev dev env s;
          case r of Inl e \<Rightarrow> Some (s, Inl e)
          | Inr (_, b) \<Rightarrow>
              let b = ide_fill_ata (old_shift env) (identify_words (aprivate dev) s) b
              in register_bdev b (ahci_sata_bdev_ops b) s }"

definition ahci_satapi_read_capacity :: "'d controller \<Rightarrow> ahci_dev \<Rightarrow> ahci_env \<Rightarrow> blkdev \<Rightarrow> 'd sys \<Rightarrow> ('d sys \<times> status \<times> blkdev) option" where
  "ahci_satapi_read_capacity hw dev env b s =
     do { (s, st) \<leftarrow> send_and_sense hw dev env scsi_read_capacity10 (rcd_at env) scsi_read_capacity10_data_size s;
          Some (if st \<noteq> ok then (s, st, b)
                else (s, ok, b\<lparr>bd_last_block := ucast (get_be32 (vmem (snd s)) (rcd_at env)),
                  bdev_block_size := ucast (get_be32 (vmem (snd s)) (rcd_at env + 4))\<rparr>)) }"

definition ahci_fill_satapi :: "'d controller \<Rightarrow> ahci_dev \<Rightarrow> ahci_env \<Rightarrow> 'd sys \<Rightarrow> ('d sys \<times> status) option" where
  "ahci_fill_satapi hw dev env s =
     (let dev = dev\<lparr>atapi := 1\<rparr> in
      do { (s, r) \<leftarrow> new_bdev dev env s;
           case r of Inl e \<Rightarrow> Some (s, Inl e)
           | Inr (q, b) \<Rightarrow> do {
               let b = b\<lparr>bdev_flags := bdev_flags b OR BDEV_FLAGS_LBA, bd_init_block := 0\<rparr>;
               (s, st, b) \<leftarrow> ahci_satapi_read_capacity hw dev env b s;
               if st \<noteq> ok then do { s \<leftarrow> free q s; Some (s, Inl EFAULT) }
               else register_bdev b (ahci_satapi_bdev_ops hw dev env b s) s } })"

text \<open>The transfer has a byte count of one more than the data: the field holds the count less one.\<close>

definition build_identify :: "'d controller \<Rightarrow> ahci_dev \<Rightarrow> 'd sys \<Rightarrow> ('d sys \<times> (errno + nat)) option" where
  "build_identify hw dev s =
     do { (s, r) \<leftarrow> ahci_prepare_command hw dev 1 0 s;
          case r of Inl _ \<Rightarrow> Some (s, Inl EFAULT)
          | Inr sl \<Rightarrow> do {
              let (packet_dev, s) = ahci_is_atapi hw (aport dev) s;
              let (freg, s) = ahci_get_fis_reg hw (aport dev) sl s;
              let s = poke (freg + f_command) [if packet_dev then ATA_CMD_IDENTIFY_PACKET else ATA_CMD_IDENTIFY] s;
              let s = poke (freg + f_device) [0xA0] s;
              let (ctbl, s) = ahci_get_cmd_tbl hw (aport dev) sl s;
              let s = poke (ctbl + t_prdt + p_idbc) (le_bytes32 (HBA_IDBC ATA_IDENTIFY_SIZE 0)) s;
              let s = poke (ctbl + t_prdt + p_dba) (le_bytes32 (aprivate dev)) s;
              Some (s, Inr sl) } }"

definition ahci_identify_ahcidev :: "'d controller \<Rightarrow> ahci_dev \<Rightarrow> ahci_env \<Rightarrow> 'd sys \<Rightarrow> ('d sys \<times> status) option" where
  "ahci_identify_ahcidev hw dev env s =
     do { (s, r) \<leftarrow> build_identify hw dev s;
          case r of Inl e \<Rightarrow> Some (s, Inl e)
          | Inr sl \<Rightarrow> do {
              (s, st) \<leftarrow> issue_slot hw dev sl s;
              (s, st) \<leftarrow> (case st of
                  Inl _ \<Rightarrow> Some (s, Inl EFAULT)
                | Inr _ \<Rightarrow> let (x, s) = rd hw (aport dev + o_sig) s in
                    if x = SATA_SIG_ATA then ahci_fill_sata dev env s
                    else if x = SATA_SIG_ATAPI then ahci_fill_satapi hw dev env s
                    else Some (s, ok));
              s \<leftarrow> ahci_destroy_command hw (aport dev) sl s;
              Some (s, st) } }"

definition ahci_init_ahcidev :: "'d controller \<Rightarrow> ahci_dev \<Rightarrow> u32 \<Rightarrow> ahci_env \<Rightarrow> 'd sys \<Rightarrow> ('d sys \<times> status) option" where
  "ahci_init_ahcidev hw dev port env s =
     do { (s, st) \<leftarrow> ahci_port_rebase hw port s;
          if st \<noteq> ok then Some (s, Inl EFAULT)
          else do {
            (s, p) \<leftarrow> alloc ATA_IDENTIFY_SIZE s;
            if p = 0 then Some (s, Inl ENOMEM)
            else do {
              (s, st) \<leftarrow> ahci_identify_ahcidev hw (dev\<lparr>aprivate := p, aport := port\<rparr>) env s;
              s \<leftarrow> free p s;
              Some (s, st) } } }"

text \<open>The field \<^verbatim>\<open>atapi\<close> keeps what the memory held.\<close>

definition AHCI_DEV_BYTES :: u32 where "AHCI_DEV_BYTES = 16"
definition o_atapi :: u32 where "o_atapi = 8"

definition ahci_init_port :: "'d controller \<Rightarrow> ahci_env \<Rightarrow> pci_dev \<Rightarrow> nat \<Rightarrow> 'd sys \<Rightarrow> ('d sys \<times> status) option" where
  "ahci_init_port hw env pcidev port s =
     do { (s, a) \<leftarrow> alloc AHCI_DEV_BYTES s;
          if a = 0 then Some (s, Inl ENOMEM)
          else do {
            let dev = \<lparr>portno = port, aport = 0, atapi = vmem (snd s) (a + o_atapi), aprivate = 0\<rparr>;
            (s, st) \<leftarrow> ahci_init_ahcidev hw dev (hba_port (bar pcidev ! 5) port) env s;
            if st \<noteq> ok then do { s \<leftarrow> free a s; Some (s, Inl EFAULT) } else Some (s, ok) } }"

definition ahci_check_type :: "'d controller \<Rightarrow> u32 \<Rightarrow> nat \<Rightarrow> 'd sys \<Rightarrow> status \<times> 'd sys" where
  "ahci_check_type hw hba port s =
     (let (det, s) = rd hw (hba_port hba port + o_ssts) s; (ipm, s) = rd hw (hba_port hba port + o_ssts) s in
      (if det AND 0x0f \<noteq> 0x03 \<or> drop_bit 8 ipm AND 0x0f \<noteq> 0x01 then Inl ENODEV else ok, s))"

definition ahci_probe_port :: "'d controller \<Rightarrow> pci_dev \<Rightarrow> nat \<Rightarrow> 'd sys \<Rightarrow> status \<times> 'd sys" where
  "ahci_probe_port hw pcidev port s =
     (let (x, s) = rd hw (bar pcidev ! 5 + o_pi) s in
      if x AND push_bit port 1 = 0 then (Inl ENODEV, s) else ahci_check_type hw (bar pcidev ! 5) port s)"

fun init_ports :: "'d controller \<Rightarrow> ahci_env \<Rightarrow> pci_dev \<Rightarrow> nat list \<Rightarrow> 'd sys \<Rightarrow> 'd sys option" where
  "init_ports hw env pcidev [] s = Some s"
| "init_ports hw env pcidev (port # ports) s =
     (let (st, s) = ahci_probe_port hw pcidev port s in
      if st \<noteq> ok then init_ports hw env pcidev ports s
      else do { (s, _) \<leftarrow> ahci_init_port hw env pcidev port s; init_ports hw env pcidev ports s })"

text \<open>The result has the accesses to the configuration space that make the device a bus master.\<close>

definition ahci_init_controller :: "'d controller \<Rightarrow> ahci_env \<Rightarrow> hardware \<Rightarrow> pci_dev \<Rightarrow> u32 \<Rightarrow> 'd sys \<Rightarrow>
    ('d sys \<times> io_write list \<times> status) option" where
  "ahci_init_controller hw env pci pcidev hba s =
     (let ios = pci_set_master pci pcidev; (cap, s) = rd hw (hba + o_cap) s in
      do { s \<leftarrow> init_ports hw env pcidev [0..<unat (HBA_CAP_NP cap) + 1] s; Some (s, ios, ok) })"

definition PCI_SUBCLASS_STORAGE_RAID :: u8 where "PCI_SUBCLASS_STORAGE_RAID = 0x04"
definition PCI_SUBCLASS_STORAGE_SATA :: u8 where "PCI_SUBCLASS_STORAGE_SATA = 0x06"
definition PCI_CLASS_RAID :: u32 where
  "PCI_CLASS_RAID = PCI_DEVICE_CLASS PCI_CLASS_STORAGE PCI_SUBCLASS_STORAGE_RAID 0x00"
definition PCI_CLASS_SATA :: u32 where
  "PCI_CLASS_SATA = PCI_DEVICE_CLASS PCI_CLASS_STORAGE PCI_SUBCLASS_STORAGE_SATA 0x01"

definition ahci_init :: "'d controller \<Rightarrow> ahci_env \<Rightarrow> hardware \<Rightarrow> pci_dev list \<Rightarrow> 'd sys \<Rightarrow>
    ('d sys \<times> io_write list \<times> status) option" where
  "ahci_init hw env pci devs s =
     do { found \<leftarrow> pci_get_class devs PCI_CLASS_SATA None;
          found \<leftarrow> (if found = None then pci_get_class devs PCI_CLASS_RAID None else Some found);
          case found of None \<Rightarrow> Some (s, [], ok)
          | Some pcidev \<Rightarrow> ahci_init_controller hw env pci pcidev (bar pcidev ! 5) s }"

section \<open>Waiting\<close>

text \<open>One round of the wait for a command, and whether the wait ends in it.\<close>

definition idle_round :: "'d controller \<Rightarrow> u32 \<Rightarrow> 'd sys \<Rightarrow> 'd sys" where
  "idle_round hw port s = snd (rd hw (port + o_is) (snd (rd hw (port + o_ci) s)))"

definition idle_stops :: "'d controller \<Rightarrow> u32 \<Rightarrow> nat \<Rightarrow> 'd sys \<Rightarrow> bool" where
  "idle_stops hw port sl s \<longleftrightarrow>
     (let (c, s) = rd hw (port + o_ci) s in
      c AND push_bit sl 1 = 0 \<or> fst (rd hw (port + o_is) s) AND HBA_PxIS_TFES \<noteq> 0)"

lemma idle_loop_stops:
  "idle_stops hw port sl s \<Longrightarrow> \<exists>y. idle_loop hw port sl s = Some y"
  by (subst idle_loop.simps) (auto simp: idle_stops_def Let_def split: prod.splits)

lemma idle_loop_round:
  "\<not> idle_stops hw port sl s \<Longrightarrow> idle_loop hw port sl s = idle_loop hw port sl (idle_round hw port s)"
  by (subst idle_loop.simps) (auto simp: idle_stops_def idle_round_def Let_def split: prod.splits)

lemma idle_loop_returns:
  assumes "idle_loop hw port sl s = Some y"
  shows "\<exists>k. idle_stops hw port sl ((idle_round hw port ^^ k) s)"
  using assms
proof (induction rule: idle_loop.raw_induct [rotated, consumes 1, case_names 1])
  case (1 f hw port sl s y)
  show ?case
  proof (cases "idle_stops hw port sl s")
    case True
    then have "idle_stops hw port sl ((idle_round hw port ^^ 0) s)" by simp
    then show ?thesis by blast
  next
    case False
    with 1(2) have "f hw port sl (idle_round hw port s) = Some y"
      by (auto simp: idle_stops_def idle_round_def Let_def split: prod.splits)
    from 1(1) [OF this] obtain k where "idle_stops hw port sl ((idle_round hw port ^^ k) (idle_round hw port s))" ..
    then have "idle_stops hw port sl ((idle_round hw port ^^ Suc k) s)" by (simp add: funpow_swap1)
    then show ?thesis by blast
  qed
qed

lemma idle_loop_ends:
  "idle_stops hw port sl ((idle_round hw port ^^ k) s) \<Longrightarrow> \<exists>y. idle_loop hw port sl s = Some y"
proof (induction k arbitrary: s)
  case (Suc k)
  show ?case
  proof (cases "idle_stops hw port sl s")
    case True
    then show ?thesis by (rule idle_loop_stops)
  next
    case False
    from Suc.prems have "idle_stops hw port sl ((idle_round hw port ^^ k) (idle_round hw port s))"
      by (simp add: funpow_Suc_right del: funpow.simps)
    from Suc.IH [OF this] show ?thesis by (simp add: idle_loop_round [OF False])
  qed
qed (metis funpow_0 idle_loop_stops)


text \<open>A port that stays busy holds the driver for ever, too.\<close>

lemma ahci_port_wait_returns:
  assumes "ahci_port_wait hw port s = Some y"
  shows "\<exists>s. fst (rd hw (port + o_tfd) s) AND ucast ATA_SR_BSY = 0"
  using assms
proof (induction rule: ahci_port_wait.raw_induct [rotated, consumes 1, case_names 1])
  case (1 f hw port s y)
  show ?case
  proof (cases "fst (rd hw (port + o_tfd) s) AND ucast ATA_SR_BSY = 0")
    case False
    with 1(2) have "f hw port (snd (rd hw (port + o_tfd) s)) = Some y" by (auto simp: Let_def split: prod.splits)
    from 1(1) [OF this] show ?thesis .
  qed blast
qed

lemma ahci_port_wait_stuck:
  assumes "\<And>s. fst (rd hw (port + o_tfd) s) AND ucast ATA_SR_BSY \<noteq> 0"
  shows "ahci_port_wait hw port s = None"
  using ahci_port_wait_returns [of hw port s] assms by (cases "ahci_port_wait hw port s") auto

section \<open>The command that the controller finds\<close>

text \<open>Registers that a read does not change, as those of a port that does not run a new command.\<close>

definition steady :: "'d controller \<Rightarrow> u32 \<Rightarrow> 'd \<Rightarrow> u32 \<Rightarrow> u32 \<Rightarrow> u32 \<Rightarrow> bool" where
  "steady hw port d clb sact ci \<longleftrightarrow>
     (\<forall>m. reg_read hw (port + o_clb) d m = (clb, d, m) \<and> reg_read hw (port + o_sact) d m = (sact, d, m) \<and>
        reg_read hw (port + o_ci) d m = (ci, d, m))"

lemma steady_rd:
  assumes "steady hw port d clb sact ci"
  shows "rd hw (port + o_clb) (d, v) = (clb, d, v)" "rd hw (port + o_sact) (d, v) = (sact, d, v)"
    "rd hw (port + o_ci) (d, v) = (ci, d, v)"
  using assms by (simp_all add: steady_def rd_def)

lemma find_slot_first:
  assumes "steady hw port d clb sact ci" "i \<le> k" "k < i + n"
    "\<And>j. i \<le> j \<Longrightarrow> j < k \<Longrightarrow> bit (sact OR ci) j" "\<not> bit (sact OR ci) k"
  shows "find_slot_from hw port n i (d, v) = (Inr k, d, v)"
  using assms(2-5)
proof (induction n arbitrary: i)
  case (Suc n)
  show ?case
  proof (cases "i = k")
    case True
    with Suc.prems(4) have "(sact OR ci) AND push_bit k 1 = 0" by (simp add: bit_iff_and_push_bit_not_eq_0)
    then show ?thesis by (simp add: True steady_rd [OF assms(1)])
  next
    case False
    with Suc.prems(1) Suc.prems(3) [of i] have "(sact OR ci) AND push_bit i 1 \<noteq> 0"
      by (simp add: bit_iff_and_push_bit_not_eq_0)
    then show ?thesis
      using False Suc.prems Suc.IH [of "i + 1"] by (simp add: steady_rd [OF assms(1)])
  qed
qed simp

lemma put_at_same:
  "put_bytes m (p + j) bs (p + k) = (if unat (k - j) < length bs then bs ! unat (k - j) else m (p + k))"
  by (simp add: put_bytes_def)

text \<open>Two structures of \<open>n\<close> and \<open>w\<close> bytes that do not overlap.\<close>

lemma apart_offset:
  fixes h t k j :: u32
  assumes "n \<le> unat (h - t)" "unat k < w" "w \<le> unat (t - h)" "unat j + len \<le> n"
  shows "len \<le> unat (h + k - (t + j))"
proof -
  define x where "x = h - t"
  have w: "w \<le> unat (- x)" using assms(3) by (simp add: x_def)
  have "unat x < 2 ^ 32" using unsigned_less [of x] by simp
  then have s: "unat x + unat (- x) \<le> 2 ^ 32"
    using unat_sub_if' [of 0 x] by (cases "x = 0") simp_all
  have xk: "unat (x + k) = unat x + unat k"
    using s w assms(2) by (intro unat_plus_lt) simp
  have n: "n \<le> unat x" using assms(1) by (simp add: x_def)
  then have "j \<le> x + k" using assms(4) by (simp add: word_le_nat_alt xk)
  then have "unat (x + k - j) = unat x + unat k - unat j" by (simp add: unat_sub xk)
  then have l: "len \<le> unat (x + k - j)" using n assms(4) by simp
  have e: "h + k - (t + j) = x + k - j" by (simp add: x_def)
  show ?thesis unfolding e by (rule l)
qed

definition header_written :: "u32 \<Rightarrow> u32 \<Rightarrow> u8 \<Rightarrow> mem \<Rightarrow> mem" where
  "header_written h t a m =
     put_bytes (put_bytes (put_bytes (put_bytes m (h + h_pwacfl) [HBA_PWACFL 5 a 0 0])
       (h + h_ctba) (le_bytes32 t)) (h + h_ctbau) (le_bytes32 0)) (h + h_prdtl) (word16_bytes 1)"

definition frame_written :: "u32 \<Rightarrow> mem \<Rightarrow> mem" where
  "frame_written t m =
     put_bytes (put_bytes (put_bytes m (t + f_type) [FIS_TYPE_REG_H2D]) (t + f_pmic) [HBA_PMIC 0 0 1]) (t + f_control) [0x08]"

definition packet_frame :: "u32 \<Rightarrow> mem \<Rightarrow> mem" where
  "packet_frame t m =
     put_bytes (put_bytes (put_bytes m (t + f_command) [ATA_CMD_PACKET]) (t + f_device) [0xA0 OR push_bit 6 1]) (t + f_feature) [0x01]"

definition table_written :: "u32 \<Rightarrow> ahci_cmd \<Rightarrow> mem \<Rightarrow> mem" where
  "table_written t cmd m =
     put_bytes (put_bytes (put_bytes m (t + t_prdt + p_idbc) (le_bytes32 (HBA_IDBC (abuflen cmd - 1) 0)))
       (t + t_prdt + p_dba) (le_bytes32 (abuffer cmd))) (t + t_acmd) (apacket cmd)"

lemma length_le_bytes [simp]: "length (le_bytes32 x) = 4" "length (word16_bytes y) = 2"
  by (simp_all add: le_bytes32_def word16_bytes_def)

lemma load32_le_bytes32: "load32 (put_bytes m a (le_bytes32 x)) a = x"
proof (rule bit_word_eqI)
  fix n assume "n < LENGTH(32)"
  then show "bit (load32 (put_bytes m a (le_bytes32 x)) a) n = bit x n"
    by (cases "n < 8"; cases "n < 16"; cases "n < 24") (auto simp: load32_def put_bytes_def le_bytes32_def bit_simps nth_Cons')
qed

lemma load32_put_outside:
  assumes "length bs \<le> unat (b - a)" "length bs \<le> unat (b + 1 - a)" "length bs \<le> unat (b + 2 - a)"
    "length bs \<le> unat (b + 3 - a)"
  shows "load32 (put_bytes m a bs) b = load32 m b"
  using assms by (simp add: load32_def put_bytes_outside)

text \<open>The header at \<open>h\<close>, of which 16 bytes are used, and the table at \<open>t\<close> with one buffer do not overlap.\<close>

definition hba_apart :: "u32 \<Rightarrow> u32 \<Rightarrow> bool" where
  "hba_apart h t \<longleftrightarrow> 144 \<le> unat (h - t) \<and> 16 \<le> unat (t - h)"

lemma header_kept: "hba_apart h t \<Longrightarrow> unat k < 16 \<Longrightarrow> unat j + length bs \<le> 144 \<Longrightarrow> put_bytes m (t + j) bs (h + k) = m (h + k)"
  unfolding hba_apart_def by (rule put_bytes_outside, rule apart_offset; fastforce)

lemma table_kept: "hba_apart h t \<Longrightarrow> unat k < 144 \<Longrightarrow> unat j + length bs \<le> 16 \<Longrightarrow> put_bytes m (h + j) bs (t + k) = m (t + k)"
  unfolding hba_apart_def by (rule put_bytes_outside, rule apart_offset; fastforce)

lemma ctba_kept: "hba_apart h t \<Longrightarrow> unat j + length bs \<le> 144 \<Longrightarrow> load32 (put_bytes m (t + j) bs) (h + 8) = load32 m (h + 8)"
  using header_kept [of h t 8 j bs m] header_kept [of h t 9 j bs m] header_kept [of h t 10 j bs m] header_kept [of h t 11 j bs m]
  by (simp add: load32_def add.assoc)

lemma ctba_written: "load32 (header_written h t a m) (h + 8) = t"
proof -
  have "load32 (header_written h t a m) (h + 8) = load32 (put_bytes (put_bytes m h [HBA_PWACFL 5 a 0 0]) (h + 8) (le_bytes32 t)) (h + 8)"
    unfolding header_written_def hba_layout
    by (subst load32_put_outside load32_put_outside; simp add: unsigned_minus_1_eq_mask mask_eq_exp_minus_1)+
  then show ?thesis by (simp only: load32_le_bytes32)
qed

text \<open>All that the code has put into the memory for a command.\<close>

definition build_written :: "u32 \<Rightarrow> u32 \<Rightarrow> u8 \<Rightarrow> ahci_cmd \<Rightarrow> mem \<Rightarrow> mem" where
  "build_written h t a cmd m =
     table_written t cmd (packet_frame t (frame_written t (header_written h t a (memset m t 0 144))))"

lemma ctba_frames:
  assumes "hba_apart h t"
  shows "load32 (frame_written t m) (h + 8) = load32 m (h + 8)"
  "load32 (packet_frame t m) (h + 8) = load32 m (h + 8)"
  using assms by (simp_all add: frame_written_def packet_frame_def hba_layout ctba_kept ctba_kept [of _ _ 0, simplified])

lemma build_packet_run:
  assumes apart: "hba_apart h t"
    and "steady hw (aport dev) d clb sact ci" "h = clb + of_nat k * 32" "k < 32"
    "\<And>j. j < k \<Longrightarrow> bit (sact OR ci) j" "\<not> bit (sact OR ci) k"
    "bmalloc 144 (vslub v) = Some (b, t)" "t \<noteq> 0"
  shows "build_packet hw dev cmd (d, v) =
    Some ((d, v\<lparr>vmem := build_written h t (atapi dev) cmd (vmem v), vslub := b\<rparr>), Inr k)"
proof -
  let ?v = "\<lambda>m. v\<lparr>vmem := m, vslub := b\<rparr>"
  have slot: "ahci_find_slot hw (aport dev) (d, v) = (Inr k, d, v)"
    unfolding ahci_find_slot_def AHCI_MAX_DEVICES_def
    by (rule find_slot_first [OF assms(2)]) (use assms in auto)
  have z: "zalloc (hba_cmd_tbl_size + hba_prdt_size) (d, v) = Some ((d, ?v (memset (vmem v) t 0 144)), t)"
    using assms(7,8) by (simp add: zalloc_def bzalloc_def hba_layout)
  have hdr: "cmd_hdr hw (aport dev) k (d, w) = (h, d, w)" for w
    by (simp add: cmd_hdr_def steady_rd [OF assms(2)] assms(3) hba_layout)
  have tbl: "load32 m (h + 8) = t \<Longrightarrow> ahci_get_cmd_tbl hw (aport dev) k (d, ?v m) = (t, d, ?v m)" for m
    by (simp add: ahci_get_cmd_tbl_def hdr peek32_def h_ctba_def)
  have pk: "poke a bs (d, ?v m) = (d, ?v (put_bytes m a bs))" for a bs m by (simp add: poke_def)
  let ?m1 = "header_written h t (atapi dev) (memset (vmem v) t 0 144)"
  have p: "ahci_prepare_command hw dev 1 0 (d, v) = Some ((d, ?v (frame_written t ?m1)), Inr k)"
    using tbl [OF ctba_written [where a = "atapi dev", unfolded header_written_def]] assms(8)
    unfolding ahci_prepare_command_def slot ahci_get_fis_reg_def
    by (simp add: z hdr pk header_written_def frame_written_def)
  have t1: "load32 (frame_written t ?m1) (h + 8) = t" by (simp add: ctba_frames [OF apart] ctba_written)
  have t2: "load32 (packet_frame t (frame_written t ?m1)) (h + 8) = t" by (simp add: ctba_frames [OF apart] ctba_written)
  show ?thesis
    unfolding build_packet_def p ahci_get_fis_reg_def build_written_def
    using tbl [OF t1] tbl [OF t2, unfolded packet_frame_def]
    by (simp add: pk packet_frame_def table_written_def)
qed

text \<open>
  What the AHCI standard wants in memory for a packet command: in the header at \<open>h\<close> a frame of five words,
  the packet bit, reading, one buffer and the table at \<open>t\<close>; in the table the frame of a packet command
  by DMA, the packet, and the buffer with the number of its bytes less one.
\<close>

definition command_block :: "mem \<Rightarrow> u32 \<Rightarrow> u32 \<Rightarrow> bool \<Rightarrow> ahci_cmd \<Rightarrow> bool" where
  "command_block m h t packet_dev cmd \<longleftrightarrow>
     m h AND 0x1f = 5 \<and> bit (m h) 5 = packet_dev \<and> \<not> bit (m h) 6 \<and> load16 m (h + 2) = 1 \<and>
     load32 m (h + 8) = t \<and> load32 m (h + 12) = 0 \<and>
     m t = 0x27 \<and> bit (m (t + 1)) 7 \<and> m (t + 2) = 0xA0 \<and> bit (m (t + 3)) 0 \<and>
     mem_bytes m (t + 64) (length (apacket cmd)) = apacket cmd \<and>
     load32 m (t + 128) = abuffer cmd \<and> load32 m (t + 132) = 0 \<and>
     unat (load32 m (t + 140) AND 0x3fffff) + 1 = unat (abuflen cmd)"

lemma le_bytes32_nonempty [simp]: "le_bytes32 x \<noteq> []"
  by (simp add: le_bytes32_def)

lemma join_le_bytes32:
  "ucast (le_bytes32 x ! 0) OR push_bit 8 (ucast (le_bytes32 x ! 1)) OR push_bit 16 (ucast (le_bytes32 x ! 2)) OR
    push_bit 24 (ucast (le_bytes32 x ! 3)) = (x :: u32)"
  using load32_le_bytes32 [of "\<lambda>_. 0" 0 x] by (simp add: load32_def put_bytes_def)

lemma byte_count:
  assumes "0 < n" "n \<le> 0x400000"
  shows "unat (HBA_IDBC (n - 1) 0 AND 0x3fffff) + 1 = unat n"
proof -
  have m: "(0x3fffff :: u32) = mask 22" by (simp add: mask_eq_exp_minus_1)
  have u: "unat (n - 1) = unat n - 1" "0 < unat n" using assms(1) by (simp_all add: unat_sub word_le_nat_alt word_less_nat_alt)
  have "unat n \<le> 0x400000" using assms(2) by (simp add: word_le_nat_alt)
  then have "unat (n - 1) < 2 ^ 22" using u by simp
  then have "unat ((n - 1) AND mask 22) = unat (n - 1)"
    by (simp add: take_bit_eq_mask [symmetric] unsigned_take_bit_eq take_bit_nat_eq_self)
  then show ?thesis using u by (simp add: HBA_IDBC_def m and.assoc)
qed

lemmas put_at = put_at_same put_at_same [of _ _ 0, simplified] put_at_same [of _ _ _ _ 0, simplified]
  put_at_same [of _ _ 0 _ 0, simplified]

lemmas hba_bytes = load16_def load32_def le_bytes32_def word16_bytes_def put_at add.assoc

lemma header_bytes:
  "header_written h t a m h = HBA_PWACFL 5 a 0 0" "load16 (header_written h t a m) (h + 2) = 1"
  "load32 (header_written h t a m) (h + 12) = 0"
  by (simp_all add: header_written_def hba_layout hba_bytes)

lemma pwacfl_bits:
  "HBA_PWACFL 5 a 0 0 AND 0x1f = 5" "bit (HBA_PWACFL 5 a 0 0) 5 = bit a 0" "\<not> bit (HBA_PWACFL 5 a 0 0) 6"
  by (cases "even a"; simp add: HBA_PWACFL_def and_one_eq mod_2_eq_odd bit_0)+

lemma header_build:
  assumes "hba_apart h t" "length (apacket cmd) \<le> 64" "unat k < 16"
  shows "build_written h t a cmd m (h + k) = header_written h t a (memset m t 0 144) (h + k)"
  using assms header_kept [of h t k 0, simplified]
  by (simp add: build_written_def table_written_def packet_frame_def frame_written_def hba_layout header_kept add.assoc)

lemma table_header_written:
  "hba_apart h t \<Longrightarrow> unat k < 144 \<Longrightarrow> header_written h t a m (t + k) = m (t + k)"
  using table_kept [of h t k 0, simplified] by (simp add: header_written_def hba_layout table_kept)

lemma table_build:
  assumes "hba_apart h t" "unat k < 144"
  shows "build_written h t a cmd m (t + k) =
    table_written t cmd (packet_frame t (frame_written t (\<lambda>_. 0))) (t + k)"
  using assms table_header_written [OF assms]
  by (simp add: build_written_def table_written_def packet_frame_def frame_written_def hba_layout add.assoc
    put_at filled_def memset_filled)

lemma command_block_built:
  assumes apart: "hba_apart h t"
    and "length (apacket cmd) \<le> 64" "0 < abuflen cmd" "abuflen cmd \<le> 0x400000"
  shows "command_block (build_written h t a cmd m) h t (bit a 0) cmd"
proof -
  let ?m = "build_written h t a cmd m"
  note hk = header_build [OF apart assms(2), of _ a m] header_build [OF apart assms(2), of 0 a m, simplified]
  note tk = table_build [OF apart, of _ a cmd m] table_build [OF apart, of 0 a cmd m, simplified]
  note table_frames = table_written_def packet_frame_def frame_written_def hba_layout put_at
    FIS_TYPE_REG_H2D_def HBA_PMIC_def ATA_CMD_PACKET_def add.assoc
    unsigned_minus_1_eq_mask mask_eq_exp_minus_1
  have "?m h = HBA_PWACFL 5 a 0 0" by (simp add: hk header_bytes)
  moreover have "load16 ?m (h + 2) = 1" "load32 ?m (h + 12) = 0" "load32 ?m (h + 8) = t"
    using header_bytes(2,3) [of h t a "memset m t 0 144"] ctba_written [of h t a "memset m t 0 144"]
    by (simp_all add: load16_def load32_def add.assoc hk)
  moreover have "?m t = 0x27" "?m (t + 1) = 0x80" "?m (t + 2) = 0xA0" "?m (t + 3) = 1"
    using assms(2) by (simp_all add: tk table_frames)
  moreover have "load32 ?m (t + 128) = abuffer cmd" "load32 ?m (t + 132) = 0" 
    "load32 ?m (t + 140) = HBA_IDBC (abuflen cmd - 1) 0"
    using assms(2) join_le_bytes32 [of "abuffer cmd"] join_le_bytes32 [of "HBA_IDBC (abuflen cmd - 1) 0"]
    by (simp_all add: load32_def add.assoc tk table_frames)
  moreover have "mem_bytes ?m (t + 64) (length (apacket cmd)) = apacket cmd"
    using assms(2) by (simp add: build_written_def table_written_def t_acmd_def mem_bytes_put_bytes)
  ultimately show ?thesis
    using byte_count [OF assms(3,4)] by (simp add: command_block_def pwacfl_bits)
qed

lemma build_written_outside:
  assumes "length (apacket cmd) \<le> 64" "16 \<le> unat (x - h)" "144 \<le> unat (x - t)"
  shows "build_written h t a cmd m x = m x"
proof -
  have h: "put_bytes m (h + j) bs x = m x" if "unat j + length bs \<le> 16" for m j bs
    using apart_offset [of 16 x h 0 1 j "length bs"] assms(2) that by (intro put_bytes_outside) (cases "x = h"; simp add: unat_gt_0 Suc_le_eq)
  have t: "put_bytes m (t + j) bs x = m x" if "unat j + length bs \<le> 144" for m j bs
    using apart_offset [of 144 x t 0 1 j "length bs"] assms(3) that by (intro put_bytes_outside) (cases "x = t"; simp add: unat_gt_0 Suc_le_eq)
  show ?thesis
    using assms h [of 0, simplified] t [of 0, simplified]
    by (simp add: build_written_def table_written_def packet_frame_def frame_written_def header_written_def hba_layout
      h t add.assoc memset_filled filled_def)
qed

end
