(* ===== verification/Hashtable.thy ===== *)
theory Hashtable
  imports Slub
begin

text \<open>
  The hash lists of \<^verbatim>\<open>elfboot/list.h\<close> and the hash tables of \<^verbatim>\<open>elfboot/hashtable.h\<close>. A node's
  \<^verbatim>\<open>pprev\<close> is the address of the pointer that points to it, in a node or in the head; the memory is the
  pointers by their addresses, so that a write through it needs no case distinction. An
  undefined shift is \<open>None\<close>.
\<close>

section \<open>Hash lists\<close>

type_synonym pmem = "u32 \<Rightarrow> u32"

definition o_next :: u32 where "o_next = 0"
definition o_pprev :: u32 where "o_pprev = 4"

definition next_at :: "u32 \<Rightarrow> u32" where "next_at n = n + o_next"
definition pprev_at :: "u32 \<Rightarrow> u32" where "pprev_at n = n + o_pprev"

definition INIT_HLIST_NODE :: "u32 \<Rightarrow> pmem \<Rightarrow> pmem" where
  "INIT_HLIST_NODE n m = m(next_at n := 0, pprev_at n := 0)"

definition hlist_unhashed :: "u32 \<Rightarrow> pmem \<Rightarrow> bool" where
  "hlist_unhashed n m \<longleftrightarrow> m (pprev_at n) = 0"

definition hlist_empty :: "u32 \<Rightarrow> pmem \<Rightarrow> bool" where
  "hlist_empty h m \<longleftrightarrow> m h = 0"

definition hlist_unlink :: "u32 \<Rightarrow> pmem \<Rightarrow> pmem" where
  "hlist_unlink n m =
     (let nx = m (next_at n); pp = m (pprev_at n); m = m(pp := nx)
      in if nx \<noteq> 0 then m(pprev_at nx := pp) else m)"

definition hlist_del :: "u32 \<Rightarrow> pmem \<Rightarrow> pmem" where
  "hlist_del n m = (hlist_unlink n m)(next_at n := 0, pprev_at n := 0)"

definition hlist_del_init :: "u32 \<Rightarrow> pmem \<Rightarrow> pmem" where
  "hlist_del_init n m = (if \<not> hlist_unhashed n m then INIT_HLIST_NODE n (hlist_unlink n m) else m)"

definition hlist_add_head :: "u32 \<Rightarrow> u32 \<Rightarrow> pmem \<Rightarrow> pmem" where
  "hlist_add_head n h m =
     (let first = m h;
          m = m(next_at n := first);
          m = (if first \<noteq> 0 then m(pprev_at first := next_at n) else m)
      in m(h := n, pprev_at n := h))"

definition hlist_add_before :: "u32 \<Rightarrow> u32 \<Rightarrow> pmem \<Rightarrow> pmem" where
  "hlist_add_before n nx m =
     (let m = m(pprev_at n := m (pprev_at nx));
          m = m(next_at n := nx);
          m = m(pprev_at nx := next_at n)
      in m(m (pprev_at n) := n))"

definition hlist_add_behind :: "u32 \<Rightarrow> u32 \<Rightarrow> pmem \<Rightarrow> pmem" where
  "hlist_add_behind n prev m =
     (let m = m(next_at n := m (next_at prev));
          m = m(next_at prev := n);
          m = m(pprev_at n := next_at prev)
      in if m (next_at n) \<noteq> 0 then m(pprev_at (m (next_at n)) := next_at n) else m)"

text \<open>The nodes that \<^verbatim>\<open>hlist_for_each\<close> visits, from the node \<open>pos\<close> on.\<close>

partial_function (option) hlist_for_each :: "u32 \<Rightarrow> pmem \<Rightarrow> u32 list option" where
  "hlist_for_each pos m =
     (if pos = 0 then Some [] else do { ns \<leftarrow> hlist_for_each (m (next_at pos)) m; Some (pos # ns) })"

section \<open>Hash tables\<close>

definition GOLDEN_RATIO :: u32 where "GOLDEN_RATIO = 0x61C88647"

record hlist_table =
  tbits :: u32
  thead :: u32

definition hashtable_size :: "hlist_table \<Rightarrow> u32 option" where
  "hashtable_size t = (if tbits t < 32 then Some (push_bit (unat (tbits t)) 1) else None)"

definition hlist_table_init :: "hlist_table \<Rightarrow> slub \<Rightarrow> (slub \<times> hlist_table \<times> status) option" where
  "hlist_table_init t s =
     do { sz \<leftarrow> hashtable_size t;
          (s, p) \<leftarrow> bmalloc (sz * 4) s;
          let t = t\<lparr>thead := p\<rparr>;
          Some (s, t, if p = 0 then Inl ENOMEM else ok) }"

definition hash_32 :: "u32 \<Rightarrow> u32 \<Rightarrow> u32 option" where
  "hash_32 val bits = (if 32 - bits < 32 then Some (drop_bit (unat (32 - bits)) (val * GOLDEN_RATIO)) else None)"

definition hash_ptr :: "u32 \<Rightarrow> u32 \<Rightarrow> u32 option" where
  "hash_ptr p bits = hash_32 p bits"

definition hash_hashed :: "u32 \<Rightarrow> pmem \<Rightarrow> bool" where
  "hash_hashed n m \<longleftrightarrow> \<not> hlist_unhashed n m"

definition hash_del :: "u32 \<Rightarrow> pmem \<Rightarrow> pmem" where
  "hash_del n m = hlist_del_init n m"

text \<open>The bucket of an index: a head is a pointer.\<close>

definition bucket :: "hlist_table \<Rightarrow> u32 \<Rightarrow> u32" where
  "bucket t b = thead t + 4 * b"

definition hashtable_for_each_hash :: "hlist_table \<Rightarrow> u32 \<Rightarrow> pmem \<Rightarrow> u32 list option" where
  "hashtable_for_each_hash t b m = hlist_for_each (m (bucket t b)) m"

fun for_each_bucket :: "hlist_table \<Rightarrow> nat \<Rightarrow> nat \<Rightarrow> pmem \<Rightarrow> u32 list option" where
  "for_each_bucket t 0 b m = Some []"
| "for_each_bucket t (Suc n) b m =
     do { ns \<leftarrow> hashtable_for_each_hash t (of_nat b) m; ms \<leftarrow> for_each_bucket t n (b + 1) m; Some (ns @ ms) }"

definition hashtable_for_each :: "hlist_table \<Rightarrow> pmem \<Rightarrow> u32 list option" where
  "hashtable_for_each t m = do { n \<leftarrow> hashtable_size t; for_each_bucket t (unat n) 0 m }"

section \<open>Lists\<close>

text \<open>The pointer at \<open>p\<close> leads to the nodes \<open>ns\<close>, each of which knows the pointer to it.\<close>

fun chain :: "pmem \<Rightarrow> u32 \<Rightarrow> u32 list \<Rightarrow> bool" where
  "chain m p [] \<longleftrightarrow> m p = 0"
| "chain m p (n # ns) \<longleftrightarrow> m p = n \<and> n \<noteq> 0 \<and> m (pprev_at n) = p \<and> chain m (next_at n) ns"

definition cells :: "u32 list \<Rightarrow> u32 list" where
  "cells ns = concat (map (\<lambda>n. [next_at n, pprev_at n]) ns)"

lemma cells_simps [simp]:
  "cells [] = []" "cells (n # ns) = next_at n # pprev_at n # cells ns" "cells (xs @ ys) = cells xs @ cells ys"
  by (simp_all add: cells_def)

lemma next_pprev [simp]: "next_at n \<noteq> pprev_at n" "pprev_at n \<noteq> next_at n"
  by (simp_all add: next_at_def pprev_at_def o_next_def o_pprev_def)

text \<open>A list with its head: no two of the pointers in it share their memory, and the head is not at 0.\<close>

definition hlist :: "pmem \<Rightarrow> u32 \<Rightarrow> u32 list \<Rightarrow> bool" where
  "hlist m h ns \<longleftrightarrow> chain m h ns \<and> h \<noteq> 0 \<and> distinct (h # cells ns) \<and> 0 \<notin> set (cells ns)"

text \<open>The pointers that lead through \<open>xs\<close>, and the pointer behind them.\<close>

fun seg :: "pmem \<Rightarrow> u32 \<Rightarrow> u32 list \<Rightarrow> bool" where
  "seg m p [] \<longleftrightarrow> True"
| "seg m p (n # ns) \<longleftrightarrow> m p = n \<and> n \<noteq> 0 \<and> m (pprev_at n) = p \<and> seg m (next_at n) ns"

fun tail_ptr :: "u32 \<Rightarrow> u32 list \<Rightarrow> u32" where
  "tail_ptr p [] = p"
| "tail_ptr p (n # ns) = tail_ptr (next_at n) ns"

lemma chain_append: "chain m p (xs @ ys) \<longleftrightarrow> seg m p xs \<and> chain m (tail_ptr p xs) ys"
  by (induction xs arbitrary: p) auto

lemma tail_ptr_append [simp]: "tail_ptr p (xs @ ys) = tail_ptr (tail_ptr p xs) ys"
  by (induction xs arbitrary: p) auto

lemma tail_ptr_in: "tail_ptr p xs \<in> set (p # cells xs)"
  by (induction xs arbitrary: p) auto

lemma chain_cong:
  assumes "\<And>a. a \<in> set (p # cells ns) \<Longrightarrow> m' a = m a"
  shows "chain m' p ns \<longleftrightarrow> chain m p ns"
  using assms
proof (induction ns arbitrary: p)
  case (Cons n ns)
  have "chain m' (next_at n) ns \<longleftrightarrow> chain m (next_at n) ns"
    by (rule Cons.IH) (use Cons.prems in auto)
  with Cons.prems show ?case by simp
qed simp

lemma seg_cong:
  assumes "distinct (p # cells xs)" "\<And>a. a \<in> set (p # cells xs) \<Longrightarrow> a \<noteq> tail_ptr p xs \<Longrightarrow> m' a = m a"
  shows "seg m' p xs \<longleftrightarrow> seg m p xs"
  using assms
proof (induction xs arbitrary: p)
  case (Cons n xs)
  have "tail_ptr (next_at n) xs \<in> set (next_at n # cells xs)" by (rule tail_ptr_in)
  then have t: "tail_ptr (next_at n) xs \<noteq> p" "tail_ptr (next_at n) xs \<noteq> pprev_at n" using Cons.prems(1) by auto
  have "seg m' (next_at n) xs \<longleftrightarrow> seg m (next_at n) xs"
    using Cons.prems by (intro Cons.IH) auto
  with t Cons.prems(2) [of p] Cons.prems(2) [of "pprev_at n"] show ?case by auto
qed simp

section \<open>The operations on lists\<close>

definition fresh :: "u32 \<Rightarrow> u32 \<Rightarrow> u32 list \<Rightarrow> bool" where
  "fresh n h ns \<longleftrightarrow> n \<noteq> 0 \<and> {next_at n, pprev_at n} \<inter> set (0 # h # cells ns) = {}"

lemma hlist_add_head_list:
  assumes "hlist m h ns" "fresh n h ns"
  shows "hlist (hlist_add_head n h m) h (n # ns)"
proof -
  let ?m = "hlist_add_head n h m"
  have "chain ?m (next_at n) ns"
  proof (cases ns)
    case Nil
    then show ?thesis using assms by (auto simp: hlist_def fresh_def hlist_add_head_def Let_def)
  next
    case (Cons y ys)
    then have "chain ?m (next_at y) ys \<longleftrightarrow> chain m (next_at y) ys"
      using assms by (intro chain_cong) (auto simp: hlist_def fresh_def hlist_add_head_def Let_def)
    then show ?thesis using Cons assms by (auto simp: hlist_def fresh_def hlist_add_head_def Let_def)
  qed
  then show ?thesis using assms by (auto simp: hlist_def fresh_def hlist_add_head_def Let_def)
qed

lemma hlist_unlink_list:
  assumes "hlist m h (xs @ n # ys)"
  shows "hlist (hlist_unlink n m) h (xs @ ys)"
proof -
  let ?p = "tail_ptr h xs" and ?m = "hlist_unlink n m"
  have p: "?p \<in> set (h # cells xs)" by (rule tail_ptr_in)
  have c: "seg m h xs" "m ?p = n" "m (pprev_at n) = ?p" "chain m (next_at n) ys"
    using assms by (auto simp: hlist_def chain_append)
  have "seg ?m h xs \<longleftrightarrow> seg m h xs"
    using assms c by (intro seg_cong) (cases ys; auto simp: hlist_def hlist_unlink_def Let_def)+
  moreover have "chain ?m ?p ys"
  proof (cases ys)
    case Nil
    then show ?thesis using c by (simp add: hlist_unlink_def)
  next
    case (Cons y zs)
    then have "chain ?m (next_at y) zs \<longleftrightarrow> chain m (next_at y) zs"
      using assms c p by (intro chain_cong) (auto simp: hlist_def hlist_unlink_def Let_def)
    then show ?thesis using Cons assms c p by (auto simp: hlist_def hlist_unlink_def Let_def)
  qed
  ultimately show ?thesis using assms c by (auto simp: hlist_def chain_append)
qed

lemma hlist_del_list:
  assumes "hlist m h (xs @ n # ys)"
  shows "hlist (hlist_del n m) h (xs @ ys)" "hlist_unhashed n (hlist_del n m)"
proof -
  have "hlist (hlist_unlink n m) h (xs @ ys)" by (rule hlist_unlink_list [OF assms])
  moreover have "chain (hlist_del n m) h (xs @ ys) \<longleftrightarrow> chain (hlist_unlink n m) h (xs @ ys)"
    using assms by (intro chain_cong) (auto simp: hlist_def hlist_del_def)
  ultimately show "hlist (hlist_del n m) h (xs @ ys)" by (simp add: hlist_def)
qed (simp add: hlist_unhashed_def hlist_del_def)

lemma hlist_del_init_hashed:
  assumes "hlist m h (xs @ n # ys)"
  shows "hlist_del_init n m = hlist_del n m"
proof -
  have "m (pprev_at n) = tail_ptr h xs" using assms by (simp add: hlist_def chain_append)
  moreover have "tail_ptr h xs \<noteq> 0" using tail_ptr_in [of h xs] assms by (auto simp: hlist_def)
  ultimately show ?thesis
    by (simp add: hlist_del_init_def hlist_unhashed_def hlist_del_def INIT_HLIST_NODE_def)
qed

lemma hlist_add_before_list:
  assumes "hlist m h (xs @ y # ys)" "fresh n h (xs @ y # ys)"
  shows "hlist (hlist_add_before n y m) h (xs @ n # y # ys)"
proof -
  let ?p = "tail_ptr h xs" and ?m = "hlist_add_before n y m"
  have p: "?p \<in> set (h # cells xs)" by (rule tail_ptr_in)
  have c: "seg m h xs" "m ?p = y" "y \<noteq> 0" "m (pprev_at y) = ?p" "chain m (next_at y) ys"
    using assms(1) by (auto simp: hlist_def chain_append)
  have a: "?m = m(pprev_at n := ?p, next_at n := y, pprev_at y := next_at n, ?p := n)"
    using assms c p by (auto simp: hlist_add_before_def Let_def hlist_def fresh_def)
  have "seg ?m h xs \<longleftrightarrow> seg m h xs"
    using assms by (intro seg_cong) (auto simp: a hlist_def fresh_def)
  moreover have "chain ?m (next_at y) ys \<longleftrightarrow> chain m (next_at y) ys"
    using assms p by (intro chain_cong) (auto simp: a hlist_def fresh_def)
  moreover have "?p \<noteq> pprev_at n" "?p \<noteq> next_at n" "?p \<noteq> pprev_at y" "pprev_at y \<noteq> next_at n" "pprev_at y \<noteq> pprev_at n" "n \<noteq> 0"
    using assms p by (auto simp: hlist_def fresh_def)
  ultimately have "chain ?m h (xs @ n # y # ys)" using c(1,3,5) by (simp add: a chain_append)
  moreover have "h \<noteq> 0 \<and> distinct (h # cells (xs @ n # y # ys)) \<and> 0 \<notin> set (cells (xs @ n # y # ys))"
    using assms by (auto simp: hlist_def fresh_def)
  ultimately show ?thesis by (simp only: hlist_def simp_thms)
qed

lemma hlist_add_behind_list:
  assumes "hlist m h (xs @ y # ys)" "fresh n h (xs @ y # ys)"
  shows "hlist (hlist_add_behind n y m) h (xs @ y # n # ys)"
proof -
  let ?p = "tail_ptr h xs" and ?m = "hlist_add_behind n y m"
  have c: "seg m h xs" "m ?p = y" "y \<noteq> 0" "m (pprev_at y) = ?p" "chain m (next_at y) ys"
    using assms(1) by (auto simp: hlist_def chain_append)
  have p: "?p \<in> set (h # cells xs)" by (rule tail_ptr_in)
  have ne: "next_at n \<noteq> next_at y" "next_at y \<noteq> pprev_at n" "pprev_at y \<noteq> next_at n" "pprev_at y \<noteq> pprev_at n"
      "?p \<noteq> pprev_at n" "?p \<noteq> next_at n" "?p \<noteq> next_at y" "?p \<noteq> pprev_at y" "n \<noteq> 0"
    using assms p by (auto simp: hlist_def fresh_def)
  have "chain ?m h (xs @ y # n # ys)"
  proof (cases ys)
    case Nil
    have a: "?m = m(next_at n := 0, next_at y := n, pprev_at n := next_at y)"
      using c ne Nil by (auto simp: hlist_add_behind_def Let_def)
    have "seg ?m h xs \<longleftrightarrow> seg m h xs"
      using assms by (intro seg_cong) (auto simp: a hlist_def fresh_def)
    then show ?thesis using c ne Nil by (simp add: a chain_append)
  next
    case (Cons z zs)
    have a: "?m = m(next_at n := z, next_at y := n, pprev_at n := next_at y, pprev_at z := next_at n)"
      using c ne Cons by (auto simp: hlist_add_behind_def Let_def)
    have z: "pprev_at z \<noteq> next_at n" "pprev_at z \<noteq> pprev_at n" "pprev_at z \<noteq> next_at y" "pprev_at z \<noteq> pprev_at y"
        "pprev_at z \<noteq> ?p"
      using assms p Cons by (auto simp: hlist_def fresh_def)
    have "seg ?m h xs \<longleftrightarrow> seg m h xs"
      using assms Cons by (intro seg_cong) (auto simp: a hlist_def fresh_def)
    moreover have "chain ?m (next_at z) zs \<longleftrightarrow> chain m (next_at z) zs"
      using assms Cons by (intro chain_cong) (auto simp: a hlist_def fresh_def)
    ultimately show ?thesis using c ne z Cons by (simp add: a chain_append)
  qed
  moreover have "h \<noteq> 0 \<and> distinct (h # cells (xs @ y # n # ys)) \<and> 0 \<notin> set (cells (xs @ y # n # ys))"
    using assms by (auto simp: hlist_def fresh_def)
  ultimately show ?thesis by (simp only: hlist_def simp_thms)
qed

lemma hlist_for_each_chain: "chain m p ns \<Longrightarrow> hlist_for_each (m p) m = Some ns"
proof (induction ns arbitrary: p)
  case Nil
  then show ?case by (subst hlist_for_each.simps) simp
next
  case (Cons n ns)
  then have "hlist_for_each (m (next_at n)) m = Some ns" by simp
  then show ?case using Cons.prems by (subst hlist_for_each.simps) simp
qed

section \<open>Sequences of operations\<close>

datatype hlist_op = Add_head u32 | Add_before u32 u32 | Add_behind u32 u32 | Del u32

fun run_op :: "u32 \<Rightarrow> hlist_op \<Rightarrow> pmem \<Rightarrow> pmem" where
  "run_op h (Add_head n) m = hlist_add_head n h m"
| "run_op h (Add_before n y) m = hlist_add_before n y m"
| "run_op h (Add_behind n y) m = hlist_add_behind n y m"
| "run_op h (Del n) m = hlist_del n m"

fun list_op :: "hlist_op \<Rightarrow> u32 list \<Rightarrow> u32 list" where
  "list_op (Add_head n) ns = n # ns"
| "list_op (Add_before n y) ns = takeWhile (\<lambda>x. x \<noteq> y) ns @ n # dropWhile (\<lambda>x. x \<noteq> y) ns"
| "list_op (Add_behind n y) ns = takeWhile (\<lambda>x. x \<noteq> y) ns @ y # n # tl (dropWhile (\<lambda>x. x \<noteq> y) ns)"
| "list_op (Del n) ns = takeWhile (\<lambda>x. x \<noteq> n) ns @ tl (dropWhile (\<lambda>x. x \<noteq> n) ns)"

fun permitted_op :: "u32 \<Rightarrow> hlist_op \<Rightarrow> u32 list \<Rightarrow> bool" where
  "permitted_op h (Add_head n) ns \<longleftrightarrow> fresh n h ns"
| "permitted_op h (Add_before n y) ns \<longleftrightarrow> fresh n h ns \<and> y \<in> set ns"
| "permitted_op h (Add_behind n y) ns \<longleftrightarrow> fresh n h ns \<and> y \<in> set ns"
| "permitted_op h (Del n) ns \<longleftrightarrow> n \<in> set ns"

fun permitted :: "u32 \<Rightarrow> hlist_op list \<Rightarrow> u32 list \<Rightarrow> bool" where
  "permitted h [] ns \<longleftrightarrow> True"
| "permitted h (op # ops) ns \<longleftrightarrow> permitted_op h op ns \<and> permitted h ops (list_op op ns)"

fun new_node :: "hlist_op \<Rightarrow> u32 list" where
  "new_node (Add_head n) = [n]"
| "new_node (Add_before n y) = [n]"
| "new_node (Add_behind n y) = [n]"
| "new_node (Del n) = []"

lemma split_at_first:
  "y \<in> set ns \<Longrightarrow> \<exists>xs ys. ns = xs @ y # ys \<and> takeWhile (\<lambda>x. x \<noteq> y) ns = xs \<and> dropWhile (\<lambda>x. x \<noteq> y) ns = y # ys"
  by (drule split_list_first) (auto simp: takeWhile_append dropWhile_append)

lemma run_op_list:
  assumes "hlist m h ns" "permitted_op h op ns"
  shows "hlist (run_op h op m) h (list_op op ns)"
proof (cases op)
  case (Add_head n)
  with assms show ?thesis by (simp add: hlist_add_head_list)
next
  case (Add_before n y)
  with assms split_at_first [of y ns] hlist_add_before_list [of m h _ y _ n] show ?thesis by auto
next
  case (Add_behind n y)
  with assms split_at_first [of y ns] hlist_add_behind_list [of m h _ y _ n] show ?thesis by auto
next
  case (Del n)
  with assms split_at_first [of n ns] hlist_del_list(1) [of m h _ n] show ?thesis by auto
qed

lemma pprev_in:
  assumes "hlist m h ns" "y \<in> set ns"
  shows "m (pprev_at y) \<in> set (h # cells ns)"
proof -
  obtain xs ys where ns: "ns = xs @ y # ys" using assms(2) by (auto dest: split_list)
  have "m (pprev_at y) = tail_ptr h xs" using assms(1) by (simp add: ns hlist_def chain_append)
  with tail_ptr_in [of h xs] show ?thesis by (auto simp: ns)
qed

lemma cells_in: "y \<in> set ns \<Longrightarrow> next_at y \<in> set (cells ns) \<and> pprev_at y \<in> set (cells ns)"
  by (auto simp: cells_def)

lemma next_in:
  assumes "hlist m h ns" "y \<in> set ns" "m (next_at y) \<noteq> 0"
  shows "m (next_at y) \<in> set ns"
proof -
  obtain xs ys where ns: "ns = xs @ y # ys" using assms(2) by (auto dest: split_list)
  with assms show ?thesis by (cases ys) (auto simp: hlist_def chain_append)
qed

lemma run_op_outside:
  assumes "hlist m h ns" "permitted_op h op ns" "a \<notin> set (h # cells ns @ cells (new_node op))"
  shows "run_op h op m a = m a"
proof (cases op)
  case (Add_head n)
  have "m h \<noteq> 0 \<Longrightarrow> m h \<in> set ns" using assms(1) by (cases ns) (auto simp: hlist_def)
  with Add_head assms(3) cells_in [of "m h" ns] show ?thesis by (auto simp: hlist_add_head_def Let_def)
next
  case (Add_before n y)
  with assms pprev_in [OF assms(1), of y] cells_in [of y ns] show ?thesis
    by (auto simp: hlist_add_before_def Let_def)
next
  case (Add_behind n y)
  with assms next_in [OF assms(1), of y] cells_in [of y ns] cells_in [of "m (next_at y)" ns] show ?thesis
    by (auto simp: hlist_add_behind_def Let_def)
next
  case (Del n)
  with assms pprev_in [OF assms(1), of n] next_in [OF assms(1), of n] cells_in [of n ns]
    cells_in [of "m (next_at n)" ns] show ?thesis
    by (auto simp: hlist_del_def hlist_unlink_def Let_def)
qed

lemma set_list_op: "permitted_op h op ns \<Longrightarrow> set (list_op op ns) \<subseteq> set ns \<union> set (new_node op)"
proof (cases op)
  case (Add_before n y)
  then show ?thesis by (auto dest: set_takeWhileD set_dropWhileD)
next
  case (Add_behind n y)
  assume "permitted_op h op ns"
  with Add_behind obtain xs ys where "ns = xs @ y # ys" "takeWhile (\<lambda>x. x \<noteq> y) ns = xs" "dropWhile (\<lambda>x. x \<noteq> y) ns = y # ys"
    using split_at_first [of y ns] by auto
  with Add_behind show ?thesis by auto
next
  case (Del n)
  assume "permitted_op h op ns"
  with Del obtain xs ys where "ns = xs @ n # ys" "takeWhile (\<lambda>x. x \<noteq> n) ns = xs" "dropWhile (\<lambda>x. x \<noteq> n) ns = n # ys"
    using split_at_first [of n ns] by auto
  with Del show ?thesis by auto
qed auto

text \<open>
  C21: any sequence of permitted operations on the pointers implements the operations on the abstract
  lists, the loop over the list visits the nodes in order, and no pointer outside the list and the
  nodes that are added is written, so the other buckets of a table keep their lists.
\<close>

theorem hlist_ops_simulate:
  assumes "hlist m h ns" "permitted h ops ns"
  shows "hlist (fold (run_op h) ops m) h (fold list_op ops ns) \<and>
    hlist_for_each (fold (run_op h) ops m h) (fold (run_op h) ops m) = Some (fold list_op ops ns) \<and>
    (\<forall>a. a \<notin> set (h # cells (ns @ concat (map new_node ops))) \<longrightarrow> fold (run_op h) ops m a = m a)"
proof -
  have "hlist (fold (run_op h) ops m) h (fold list_op ops ns) \<and>
    (\<forall>a. a \<notin> set (h # cells (ns @ concat (map new_node ops))) \<longrightarrow> fold (run_op h) ops m a = m a)"
    using assms
  proof (induction ops arbitrary: m ns)
    case (Cons op ops)
    then have p: "permitted_op h op ns" and l: "hlist (run_op h op m) h (list_op op ns)" by (simp_all add: run_op_list)
    have out: "a \<notin> set (h # cells (list_op op ns @ concat (map new_node ops))) \<and> run_op h op m a = m a"
      if "a \<notin> set (h # cells (ns @ concat (map new_node (op # ops))))" for a
      using that set_list_op [OF p] run_op_outside [OF Cons.prems(1) p, of a] by (auto simp: cells_def)
    from Cons.IH [OF l] Cons.prems(2) out show ?case by auto
  qed simp
  then show ?thesis using hlist_for_each_chain by (auto simp: hlist_def)
qed

theorem hlist_ops_simulate_witness:
  "hlist_for_each (fold (run_op 0x100) [Add_head 0x200, Add_behind 0x300 0x200, Add_before 0x400 0x300, Del 0x200] (\<lambda>_. 0) 0x100)
     (fold (run_op 0x100) [Add_head 0x200, Add_behind 0x300 0x200, Add_before 0x400 0x300, Del 0x200] (\<lambda>_. 0)) = Some [0x400, 0x300]"
proof -
  have "hlist (\<lambda>_. 0) 0x100 []" by (simp add: hlist_def)
  moreover have "permitted 0x100 [Add_head 0x200, Add_behind 0x300 0x200, Add_before 0x400 0x300, Del 0x200] []"
    by (simp add: fresh_def next_at_def pprev_at_def o_next_def o_pprev_def)
  ultimately show ?thesis
    using hlist_ops_simulate [of "\<lambda>_. 0" "0x100" "[]" "[Add_head 0x200, Add_behind 0x300 0x200, Add_before 0x400 0x300, Del 0x200]"]
    by simp
qed

section \<open>Indexes\<close>

text \<open>For 1 to 31 bits an index is always that of a bucket of the table.\<close>

lemma hash_32_bucket:
  assumes "tbits t = bits" "0 < bits" "bits < 32"
  shows "\<exists>b n. hash_32 val bits = Some b \<and> hashtable_size t = Some n \<and> b < n"
proof -
  have u: "unat bits < 32" "0 < unat bits" using assms(2,3) by (simp_all add: word_less_nat_alt)
  have s: "unat (32 - bits) = 32 - unat bits" using assms(3) by (simp add: unat_sub word_le_nat_alt word_less_nat_alt)
  have "unat (drop_bit (32 - unat bits) (val * GOLDEN_RATIO)) = unat (val * GOLDEN_RATIO) div 2 ^ (32 - unat bits)"
    by (subst unat_drop_bit_eq) (rule drop_bit_eq_div)
  also have "\<dots> < 2 ^ unat bits"
    using u unsigned_less [of "val * GOLDEN_RATIO"] by (simp add: div_less_iff_less_mult flip: power_add)
  finally show ?thesis
    using u by (simp add: hash_32_def hashtable_size_def s word_less_nat_alt assms(1) unat_pow2 push_bit_eq_mult)
qed

text \<open>A table of one bucket shifts by the whole width.\<close>

lemma hash_32_one_bucket: "hash_32 val 0 = None"
  by (simp add: hash_32_def)

end
