(* ===== verification/LoaderInit.thy ===== *)
theory LoaderInit
  imports Loader
begin

text \<open>
  The way from the configuration to the booted kernel: \<^verbatim>\<open>loader_init\<close> and \<^verbatim>\<open>loader_menu\<close> of
  \<^verbatim>\<open>src/core/loader.c\<close>, composed of the functions of theory Loader. What the files hold and whether
  they and the memory for the drawing are found are parameters; the events are the ticks of the
  clock and the keys, in their order.
\<close>

section \<open>The menu from start to end\<close>

text \<open>
  \<open>cfg\<close>: the bytes of the configuration and those of the memory behind its buffer; \<open>picture\<close>: width and
  height of the logo that \<^verbatim>\<open>libtmg_open\<close> returns; \<open>attributes\<close>: what the request for the console's
  attributes writes into the memory that is allocated for them.
\<close>

record boot_files =
  cfg :: "(u8 list \<times> u8 list) option"
  tmg_opens :: bool
  tty_opens :: bool
  picture :: "(u32 \<times> u32) option"
  attributes :: "console_attr option"

record menu_memory =
  show_bufs :: "nat \<Rightarrow> bool \<times> bool"
  draw_bufs :: "int \<Rightarrow> int \<Rightarrow> (bool \<times> bool) \<times> bool \<times> bool"
  message_buf :: bool
  count_buf :: bool

definition boot_timeout :: int where "boot_timeout = 10000"

text \<open>
  A redraw prints entries that were printed before into buffers of the same size, so it does not overrun.
\<close>

definition redraw_fails :: "menu_memory \<Rightarrow> menu \<Rightarrow> int \<Rightarrow> int \<Rightarrow> bool" where
  "redraw_fails mm m prev new =
     (case loader_init_update (draw_bufs mm prev new) prev (m\<lparr>choice := new\<rparr>) of
        Inl _ \<Rightarrow> True | Inr (_, _, failed) \<Rightarrow> failed)"

fun keys_of :: "event list \<Rightarrow> u8 list" where
  "keys_of [] = []"
| "keys_of (Tick # evs) = keys_of evs"
| "keys_of (Key c # evs) = c # keys_of evs"

text \<open>
  The count of the seconds is printed from the clock handler, which sets the position in the menu's
  attributes; the first tick prints.
\<close>

definition after_count :: "bool \<Rightarrow> int \<Rightarrow> menu \<Rightarrow> menu" where
  "after_count got t m =
     (if got \<and> t \<noteq> boot_timeout then
        m\<lparr>menu_attr := (menu_attr m)
          \<lparr>a_xpos := (a_width (menu_attr m) - of_nat (length control_text)) div 2,
           a_ypos := a_height (menu_attr m) - 2\<rparr>\<rparr>
      else m)"

text \<open>None is waiting for the next event.\<close>

definition loader_menu_init_keyboard :: "menu_memory \<Rightarrow> 'w machine \<Rightarrow> menu \<Rightarrow> event list \<Rightarrow> 'w \<Rightarrow>
    (menu_out list \<times> 'w \<times> status) option" where
  "loader_menu_init_keyboard mm k m evs w =
     do { (c, t, evs) \<leftarrow> wait_key evs boot_timeout;
          let m = after_count (count_buf mm) t m;
          r \<leftarrow> loader_menu_init_selected (message_buf mm) (redraw_fails mm m) (number m) c (keys_of evs) (choice m);
          Some (case r of Inl e \<Rightarrow> ([], w, Inl e) | Inr i \<Rightarrow> snd (loader_boot_choice k (m\<lparr>choice := i\<rparr>) w)) }"

definition loader_menu_draw_and_wait :: "menu_memory \<Rightarrow> 'w machine \<Rightarrow> menu \<Rightarrow> event list \<Rightarrow> 'w \<Rightarrow>
    stuck + menu_out list \<times> ('w \<times> status) option" where
  "loader_menu_draw_and_wait mm k m evs w =
     (case loader_menu_init (show_bufs mm) m of
        Inl x \<Rightarrow> Inl x
      | Inr (m, o1, failed) \<Rightarrow>
          if failed then Inr (o1, Some (w, Inl EFAULT))
          else case loader_menu_init_keyboard mm k m evs w of
            None \<Rightarrow> Inr (o1, None)
          | Some (o2, r) \<Rightarrow> Inr (o1 @ o2, Some r))"

definition loader_menu :: "bool \<Rightarrow> boot_files \<Rightarrow> menu_memory \<Rightarrow> 'w machine \<Rightarrow> boot_entry list \<Rightarrow> int \<Rightarrow> int \<Rightarrow>
    event list \<Rightarrow> 'w \<Rightarrow> stuck + menu_out list \<times> ('w \<times> status) option" where
  "loader_menu autoboot files mm k opts num ch evs w =
     (if \<not> tmg_opens files \<or> \<not> tty_opens files then Inr ([], Some (w, Inl EFAULT))
      else case (picture files, attributes files) of
        (Some (lw, lh), Some a) \<Rightarrow>
          let m = \<lparr>menu_attr = a, logo_width = lw, logo_height = lh, options = opts, number = num, choice = ch\<rparr> in
          if autoboot \<and> num = 1 then
            let (_, out, r) = loader_boot_choice k m w in Inr (Clean None # out, Some r)
          else map_sum id (\<lambda>(out, r). (Clean None # out, r)) (loader_menu_draw_and_wait mm k m evs w)
      | _ \<Rightarrow> Inr ([], Some (w, Inl EFAULT)))"

definition loader_init :: "bool \<Rightarrow> 'h allocator \<Rightarrow> boot_files \<Rightarrow> menu_memory \<Rightarrow> 'w machine \<Rightarrow> boot_entry list \<Rightarrow>
    event list \<Rightarrow> 'h loader \<Rightarrow> 'w \<Rightarrow> stuck + 'h loader \<times> menu_out list \<times> ('w \<times> status) option" where
  "loader_init autoboot al files mm k arr evs s w =
     (case cfg files of
        None \<Rightarrow> Inr (s, [], Some (w, Inl EFAULT))
      | Some (bytes, beyond) \<Rightarrow>
          (case loader_init_boot_entries al bytes beyond s of
             Inl x \<Rightarrow> Inl x
           | Inr (s, Inl _) \<Rightarrow> Inr (lfree al s, [], Some (w, Inl EFAULT))
           | Inr (s, Inr _) \<Rightarrow>
               (case loader_init_boot_options al arr s of
                  (s, _, Inl _) \<Rightarrow> Inr (lfree al s, [], Some (w, Inl EFAULT))
                | (s, opts, Inr _) \<Rightarrow>
                    let s = lfree al s
                    in map_sum id (\<lambda>(out, r). (s, out, r))
                      (loader_menu autoboot files mm k opts (boot_number s) (boot_choice s) evs w))))"

section \<open>From the configuration to the kernel\<close>
lemma wait_key_ticks: "wait_key (replicate n Tick @ evs) (int n) = Some (0, 0, evs)"
proof (induction n)
  case 0
  show ?case by (subst wait_key.simps) simp
next
  case (Suc n)
  have "fst (loader_timeout_callback (int (Suc n))) = int n" by (simp add: loader_timeout_callback_def)
  then show ?case using Suc by (subst wait_key.simps) simp
qed

text \<open>The text of an entry fits into the width of the logo.\<close>

definition fits :: "u32 \<Rightarrow> boot_entry \<Rightarrow> bool" where
  "fits lw e \<longleftrightarrow> length (the (bname e)) + length (the (cmdline e)) + 5 < unat lw"

lemma entry_text_fits:
  assumes "plain_entry e" "fits (logo_width m) e"
  shows "\<exists>t. entry_text m e = Inr t"
  using assms by (auto simp: plain_entry_def fits_def entry_text_def Let_def str_def)

lemma show_entry_fits:
  assumes "plain_entry (options m ! i)" "fits (logo_width m) (options m ! i)" "int i < number m"
  shows "\<exists>a' out. loader_menu_show_entry (True, True) m (int i) a = Inr (a', out, False)"
  using entry_text_fits [OF assms(1,2)] assms(3)
  by (auto simp: loader_menu_show_entry_def loader_menu_font_def Let_def)

lemma show_entries_fit:
  assumes "\<forall>i \<in> set is. bufs i = (True, True) \<and> plain_entry (options m ! i) \<and> fits (logo_width m) (options m ! i) \<and> int i < number m"
  shows "\<exists>out. show_entries bufs m is a = Inr (out, False)"
  using assms
proof (induction "is" arbitrary: a)
  case (Cons i "is")
  then obtain a' out where "loader_menu_show_entry (True, True) m (int i) a = Inr (a', out, False)"
    using show_entry_fits [of m i a] by auto
  moreover obtain out' where "show_entries bufs m is a' = Inr (out', False)" using Cons by auto
  ultimately show ?case using Cons.prems by simp
qed simp

lemma loader_menu_init_fits:
  assumes "\<forall>i < length (options m). show i = (True, True)" "\<forall>e \<in> set (options m). plain_entry e \<and> fits (logo_width m) e"
    "number m = int (length (options m))"
  shows "\<exists>m' out. loader_menu_init show m = Inr (m', out, False) \<and> options m' = options m \<and> number m' = number m \<and> choice m' = choice m"
proof -
  have "\<forall>b a. \<exists>out. show_entries show (m\<lparr>menu_attr := b\<rparr>) [0..<nat (number m)] a = Inr (out, False)"
    using assms by (intro allI show_entries_fit) auto
  then obtain f where "\<And>b a. show_entries show (m\<lparr>menu_attr := b\<rparr>) [0..<nat (number m)] a = Inr (f b a, False)"
    by metis
  then show ?thesis by (simp add: loader_menu_init_def Let_def)
qed

text \<open>What the menu may end with for an array of entries.\<close>

definition proper_end :: "'w machine \<Rightarrow> boot_entry list \<Rightarrow> 'w \<Rightarrow> ('w \<times> status) option \<Rightarrow> bool" where
  "proper_end k es w r \<longleftrightarrow>
     r = None \<or> (\<exists>e. r = Some (w, Inl e)) \<or> (\<exists>i < length es. r = Some (loader_init_module k (es ! i) w))"

lemma after_count_simps [simp]:
  "options (after_count got t m) = options m" "number (after_count got t m) = number m" "choice (after_count got t m) = choice m"
  by (simp_all add: after_count_def)

lemma init_keyboard_end:
  assumes "0 \<le> choice m" "choice m < number m" "number m = int (length (options m))"
    and "loader_menu_init_keyboard mm k m evs w = Some (os, r)"
  shows "proper_end k (options m) w (Some r)"
proof -
  obtain c t es where "wait_key evs boot_timeout = Some (c, t, es)"
    using assms(4) by (auto simp: loader_menu_init_keyboard_def split: Option.bind_splits)
  then obtain sel where sel: "loader_menu_init_selected (message_buf mm) (redraw_fails mm (after_count (count_buf mm) t m))
        (number m) c (keys_of es) (choice m) = Some sel"
      and r: "(case sel of Inl e \<Rightarrow> ([], w, Inl e)
        | Inr i \<Rightarrow> snd (loader_boot_choice k ((after_count (count_buf mm) t m)\<lparr>choice := i\<rparr>) w)) = (os, r)"
    using assms(4) by (auto simp: loader_menu_init_keyboard_def Let_def split: Option.bind_splits)
  show ?thesis
  proof (cases sel)
    case (Inl e)
    with r show ?thesis by (auto simp: proper_end_def)
  next
    case (Inr i)
    with menu_index_bounds [OF assms(1,2)] sel have "0 \<le> i" "i < number m" by blast+
    moreover have "r = loader_init_module k (options m ! nat i) w" using r Inr by (auto simp: loader_boot_choice_def Let_def)
    ultimately have "nat i < length (options m) \<and> Some r = Some (loader_init_module k (options m ! nat i) w)"
      using assms(3) by auto
    then show ?thesis unfolding proper_end_def by blast
  qed
qed

lemma menu_draw_and_wait_end:
  assumes "\<forall>i < length (options m). show_bufs mm i = (True, True)" "\<forall>e \<in> set (options m). plain_entry e \<and> fits (logo_width m) e"
    "0 \<le> choice m" "choice m < number m" "number m = int (length (options m))"
  shows "\<exists>os r. loader_menu_draw_and_wait mm k m evs w = Inr (os, r) \<and> proper_end k (options m) w r"
proof -
  obtain m' o1 where m': "loader_menu_init (show_bufs mm) m = Inr (m', o1, False)"
      "options m' = options m" "number m' = number m" "choice m' = choice m"
    using loader_menu_init_fits [OF assms(1,2,5)] by blast
  show ?thesis
  proof (cases "loader_menu_init_keyboard mm k m' evs w")
    case None
    with m' show ?thesis by (simp add: loader_menu_draw_and_wait_def proper_end_def)
  next
    case (Some x)
    then obtain o2 r where x: "loader_menu_init_keyboard mm k m' evs w = Some (o2, r)" by (cases x) auto
    with m' init_keyboard_end [OF _ _ _ x] assms(3-5) show ?thesis by (auto simp: loader_menu_draw_and_wait_def)
  qed
qed

lemma menu_times_out:
  assumes "\<forall>i < length (options m). show_bufs mm i = (True, True)" "\<forall>e \<in> set (options m). plain_entry e \<and> fits (logo_width m) e"
    "choice m = 0" "number m = int (length (options m))" "message_buf mm"
  shows "\<exists>os. loader_menu_draw_and_wait mm k m (replicate 10000 Tick @ evs) w =
    Inr (os, Some (loader_init_module k (options m ! 0) w))"
proof -
  obtain m' o1 where m': "loader_menu_init (show_bufs mm) m = Inr (m', o1, False)"
      "options m' = options m" "number m' = number m" "choice m' = choice m"
    using loader_menu_init_fits [OF assms(1,2,4)] by blast
  have "wait_key (replicate 10000 Tick @ evs) boot_timeout = Some (0, 0, evs)"
    using wait_key_ticks [of 10000 evs] by (simp add: boot_timeout_def)
  then have "\<exists>o2. loader_menu_init_keyboard mm k m' (replicate 10000 Tick @ evs) w =
      Some (o2, loader_init_module k (options m ! 0) w)"
    using assms(3,5) m' by (auto simp: loader_menu_init_keyboard_def loader_menu_init_selected_def loader_boot_choice_def Let_def)
  with m' show ?thesis by (auto simp: loader_menu_draw_and_wait_def)
qed

text \<open>
  C10: with the configuration that is written for a list of entries, files that open, memory and a logo as
  wide as the entries, the boot loader boots one of the entries, reports an error or waits for a key, whatever
  keys are pressed; and when no key is pressed for ten seconds it boots the first entry.
\<close>

theorem loader_init_boots_entry:
  assumes "generous al" "es \<noteq> []" "\<forall>e \<in> set es. plain_entry e \<and> fits lw e" "length arr = length es"
    and "cfg files = Some (config_of es, 0 # beyond)" "tmg_opens files" "tty_opens files"
    and "picture files = Some (lw, lh)" "attributes files = Some a" "\<forall>i < length es. show_bufs mm i = (True, True)"
  shows "(\<exists>s os r. loader_init False al files mm k arr evs (loader_start h) w = Inr (s, os, r) \<and> proper_end k es w r) \<and>
    (message_buf mm \<longrightarrow> (\<exists>s os. loader_init False al files mm k arr (replicate 10000 Tick @ evs) (loader_start h) w =
      Inr (s, os, Some (loader_init_module k (hd es) w))))"
proof -
  have "\<forall>e \<in> set es. plain_entry e" using assms(3) by blast
  from boot_config_read [OF assms(1,2) this assms(4), of beyond h]
  obtain s1 s2 where s: "loader_init_boot_entries al (config_of es) (0 # beyond) (loader_start h) = Inr (s1, ok)"
      "loader_init_boot_options al arr s1 = (s2, es, ok)" "boot_number s2 = int (length es)" "boot_choice s2 = 0"
    by blast
  define m where "m = \<lparr>menu_attr = a, logo_width = lw, logo_height = lh, options = es,
    number = int (length es), choice = 0\<rparr>"
  have run: "loader_init False al files mm k arr evs (loader_start h) w =
      map_sum id (\<lambda>(os, r). (lfree al s2, Clean None # os, r)) (loader_menu_draw_and_wait mm k m evs w)" for evs
    using s assms(5-9) by (cases "loader_menu_draw_and_wait mm k m evs w")
      (auto simp: loader_init_def loader_menu_def m_def lfree_def)
  obtain os r where "loader_menu_draw_and_wait mm k m evs w = Inr (os, r)" "proper_end k es w r"
    using menu_draw_and_wait_end [of m mm k evs w] assms(2,3,10) by (auto simp: m_def)
  moreover have "message_buf mm \<Longrightarrow> \<exists>os. loader_menu_draw_and_wait mm k m (replicate 10000 Tick @ evs) w =
      Inr (os, Some (loader_init_module k (hd es) w))"
    using menu_times_out [of m mm k evs w] assms(2,3,10) by (auto simp: m_def hd_conv_nth)
  ultimately show ?thesis unfolding run by auto
qed

text \<open>A loader machine that counts the kernels that are booted.\<close>

definition demo_machine :: "nat machine" where
  "demo_machine = \<lparr>registered = (\<lambda>w. [(3, \<lambda>e w. (w + 1, ok))]), open_module = (\<lambda>name w. (w, ok))\<rparr>"

definition demo_files :: boot_files where
  "demo_files = \<lparr>cfg = Some (config_of [demo_entry], [0]), tmg_opens = True, tty_opens = True, picture = Some (64, 8),
     attributes = Some \<lparr>a_active = 1, a_width = 80, a_height = 25, a_xpos = 0, a_ypos = 0, a_fgcolor = 7, a_bgcolor = 0\<rparr>\<rparr>"

definition demo_memory :: menu_memory where
  "demo_memory = \<lparr>show_bufs = \<lambda>_. (True, True), draw_bufs = \<lambda>_ _. ((True, True), True, True),
     message_buf = True, count_buf = True\<rparr>"

theorem loader_init_boots_entry_witness:
  "\<exists>s os. loader_init False demo_allocator demo_files demo_memory demo_machine [demo_entry] (replicate 10000 Tick)
     (loader_start 0) 0 = Inr (s, os, Some (1, ok))"
proof -
  have gen: "generous demo_allocator" by (simp add: generous_def demo_allocator_def)
  have plain: "\<forall>e \<in> set [demo_entry]. plain_entry e \<and> fits 64 e"
    by (simp add: plain_entry_def demo_entry_def is_word_def str_def delimiters protocols fits_def)
  have "loader_init_module demo_machine demo_entry 0 = (1, ok)"
    by (simp add: loader_init_module_def demo_machine_def demo_entry_def loader_boot_kernel_def loader_get_loader_def)
  then show ?thesis
    using loader_init_boots_entry [OF gen _ plain, of "[demo_entry]" demo_files "[]" 8
      "the (attributes demo_files)" demo_memory demo_machine "[]" 0 0]
    by (simp add: demo_files_def demo_memory_def)
qed

end
