(* ===== verification/Console.thy ===== *)
theory Console
  imports Printf Vfs
begin

text \<open>
  Printing to the console: \<^verbatim>\<open>bprintf\<close> and \<^verbatim>\<open>dprintf\<close> of \<^verbatim>\<open>src/core/printf.c\<close> on the open
  files of theory Vfs, without the debug port, which the configurations leave out; the time stamps of
  \<^verbatim>\<open>src/arch/x86/timestamp.c\<close>; and \<^verbatim>\<open>memset32\<close> of \<^verbatim>\<open>src/arch/x86/copy.S\<close>.
\<close>

text \<open>The text goes through 256 bytes on the stack: a longer one with its zero runs over them.\<close>

definition PRINT_BUFFER :: nat where "PRINT_BUFFER = 256"

definition format_message :: "mem \<Rightarrow> u8 list \<Rightarrow> u32 list \<Rightarrow> u8 list option" where
  "format_message m fmt args =
     do { t \<leftarrow> vsprintf m fmt args; if length t < PRINT_BUFFER then Some t else None }"

text \<open>The result is what \<^verbatim>\<open>file_write\<close> returned, which the code does not look at, and the length.\<close>

definition bprintf :: "open_file option \<Rightarrow> vfs \<Rightarrow> u8 list \<Rightarrow> u32 list \<Rightarrow> (u32 \<times> int) option" where
  "bprintf fcons s fmt args =
     do { t \<leftarrow> format_message (vmem s) fmt args;
          r \<leftarrow> file_write fcons (of_nat (length t)) t s;
          Some (r, int (length t)) }"

definition dprintf :: "mem \<Rightarrow> u8 list \<Rightarrow> u32 list \<Rightarrow> int option" where
  "dprintf m fmt args = map_option (\<lambda>t. int (length t)) (format_message m fmt args)"

text \<open>Before the console is opened the text is dropped.\<close>

lemma bprintf_no_console:
  "format_message (vmem s) fmt args = Some t \<Longrightarrow>
   bprintf None s fmt args = Some (- word_of_int (errno_val ENOENT), int (length t))"
  by (simp add: bprintf_def file_write_def)

text \<open>A message of 256 characters or more is not printed but runs over the buffer.\<close>

lemma bprintf_overruns:
  "vsprintf (vmem s) fmt args = Some t \<Longrightarrow> PRINT_BUFFER \<le> length t \<Longrightarrow> bprintf fcons s fmt args = None"
  by (simp add: bprintf_def format_message_def)

text \<open>\<open>now\<close> is the time stamp counter of the processor.\<close>

record stamps =
  tsc :: u64
  tsc_start :: u64

definition print_timestamp :: "u64 \<Rightarrow> open_file option \<Rightarrow> vfs \<Rightarrow> stamps \<Rightarrow> (stamps \<times> u32 \<times> int) option" where
  "print_timestamp now fcons s st =
     (let st = st\<lparr>tsc := now\<rparr>;
          st = (if tsc_start st = 0 then st\<lparr>tsc_start := tsc st\<rparr> else st);
          d = tsc st - tsc_start st
      in do { (r, n) \<leftarrow> bprintf fcons s (str ''[%10llu.0] '') [ucast d, ucast (drop_bit 32 d)]; Some (st, r, n) })"

text \<open>The first call sets the start and prints 0.\<close>

lemma print_timestamp_first:
  assumes "tsc_start st = 0"
  shows "print_timestamp now fcons s st =
    map_option (\<lambda>(r, n). (st\<lparr>tsc := now, tsc_start := now\<rparr>, r, n)) (bprintf fcons s (str ''[%10llu.0] '') [0, 0])"
  using assms by (cases "bprintf fcons s (str ''[%10llu.0] '') [0, 0]") (auto simp: print_timestamp_def Let_def)

section \<open>Filling by double words\<close>

definition filled32 :: "mem \<Rightarrow> u32 \<Rightarrow> u32 \<Rightarrow> nat \<Rightarrow> mem" where
  "filled32 m d v n = (\<lambda>a. if unat (a - d) < 4 * n then ucast (drop_bit (8 * (unat (a - d) mod 4)) v) else m a)"

fun rep_stosl :: "nat \<Rightarrow> u32 \<Rightarrow> mem \<times> u32 \<Rightarrow> mem \<times> u32" where
  "rep_stosl 0 v s = s"
| "rep_stosl (Suc k) v (m, d) = rep_stosl k v (store32 m d v, d + 4)"

text \<open>The length is in bytes; the bytes of an incomplete double word at the end are left.\<close>

definition memset32 :: "mem \<Rightarrow> u32 \<Rightarrow> u32 \<Rightarrow> u32 \<Rightarrow> mem" where
  "memset32 m d v len = fst (rep_stosl (unat (drop_bit 2 len)) v (m, d))"

lemma store32_offset:
  "store32 m d v (d + x) = (if unat x < 4 then ucast (drop_bit (8 * unat x) v) else m (d + x))"
proof -
  have e: "x = of_nat n" if "unat x = n" for n using that by auto
  have "unat x < 4 \<Longrightarrow> unat x = 0 \<or> unat x = 1 \<or> unat x = 2 \<or> unat x = 3" by linarith
  then have "unat x < 4 \<Longrightarrow> x \<in> {0, 1, 2, 3}" using e [of 0] e [of 1] e [of 2] e [of 3] by auto
  moreover have "\<not> unat x < 4 \<Longrightarrow> x \<notin> {0, 1, 2, 3}" by auto
  ultimately show ?thesis by (cases "unat x < 4") (auto simp: store32_def)
qed

lemma store32_pattern:
  "store32 m d v a = (if unat (a - d) < 4 then ucast (drop_bit (8 * unat (a - d)) v) else m a)"
  using store32_offset [of m d v "a - d"] by simp

lemma rep_stosl_eq: "4 * k \<le> 2 ^ 32 \<Longrightarrow> fst (rep_stosl k v (m, d)) = filled32 m d v k"
proof (induction k arbitrary: m d)
  case 0
  show ?case by (simp add: filled32_def)
next
  case (Suc k)
  have "filled32 (store32 m d v) (d + 4) v k a = filled32 m d v (Suc k) a" for a
  proof (cases "unat (a - d) < 4")
    case True
    have "unat (a - (d + 4)) = 2 ^ 32 + unat (a - d) - 4"
      using True unat_sub_if' [of "a - d" 4] by (simp add: diff_diff_eq)
    with True Suc.prems show ?thesis by (simp add: filled32_def store32_pattern)
  next
    case False
    then have "unat (a - (d + 4)) = unat (a - d) - 4"
      using unat_sub_if' [of "a - d" 4] by (simp add: diff_diff_eq)
    moreover from this False have "unat (a - (d + 4)) mod 4 = unat (a - d) mod 4"
      by (metis le_mod_geq linorder_not_le)
    ultimately show ?thesis using False by (auto simp: filled32_def store32_pattern)
  qed
  then show ?case using Suc by (simp add: fun_eq_iff)
qed

lemma memset32_filled: "memset32 m d v len = filled32 m d v (unat len div 4)"
proof -
  have "unat (drop_bit 2 len) = unat len div 4" by (subst unat_drop_bit_eq) (simp add: drop_bit_eq_div)
  moreover have "unat len < 2 ^ 32" using unsigned_less [of len] by simp
  ultimately show ?thesis unfolding memset32_def by (subst rep_stosl_eq) auto
qed

end
