(* ===== verification/Allocator.thy ===== *)
theory Allocator
  imports Fsnode
begin

text \<open>
  The interface between the allocator and the code that borrows memory from it for a while: as long as
  objects are free an allocation succeeds, and giving an object back makes it free again. The slab
  allocator of \<open>Slub\<close> provides it for every size that has a cache with partly used slabs, and so does
  \<open>bmalloc\<close> on the state of the file systems. The clients are the reads of the file systems.
\<close>

section \<open>The interface\<close>

text \<open>An account \<open>L\<close> of the allocator gives for every kind the objects that are handed out and a number of
  those that can still be: every kind of \<open>K\<close> has at least \<open>n\<close>, and the objects \<open>H\<close> are handed out.\<close>

definition has_free :: "('k \<rightharpoonup> u32 set \<times> nat) \<Rightarrow> 'k set \<Rightarrow> nat \<Rightarrow> bool" where
  "has_free L K n \<longleftrightarrow> (\<forall>k \<in> K. \<exists>X m. L k = Some (X, m) \<and> n \<le> m)"

definition holds :: "('k \<rightharpoonup> u32 set \<times> nat) \<Rightarrow> ('k \<times> u32) set \<Rightarrow> bool" where
  "holds L H \<longleftrightarrow> (\<forall>(k, a) \<in> H. \<exists>X m. L k = Some (X, m) \<and> a \<in> X)"

text \<open>There are allocators of several kinds, with a size each. \<open>inv L s\<close>: of the kind \<open>k\<close> with
  \<open>L k = Some (X, n)\<close> the objects \<open>X\<close> are handed out and at least \<open>n\<close> more can be.\<close>

locale allocator =
  fixes inv :: "('k \<rightharpoonup> u32 set \<times> nat) \<Rightarrow> 's \<Rightarrow> bool"
    and alloc :: "'k \<Rightarrow> 's \<Rightarrow> ('s \<times> u32) option"
    and free :: "u32 \<Rightarrow> 's \<Rightarrow> 's option"
  assumes alloc_law: "inv L s \<Longrightarrow> L k = Some (X, Suc n) \<Longrightarrow>
      \<exists>s' a. alloc k s = Some (s', a) \<and> a \<noteq> 0 \<and> a \<notin> X \<and> inv (L(k \<mapsto> (insert a X, n))) s'"
    and free_law: "inv L s \<Longrightarrow> L k = Some (X, n) \<Longrightarrow> a \<in> X \<Longrightarrow>
      \<exists>s'. free a s = Some s' \<and> inv (L(k \<mapsto> (X - {a}, Suc n))) s'"
begin

text \<open>An object that is borrowed and given back, whatever happens in between, as long as the rest is kept.\<close>

lemma borrow:
  assumes "inv L s" and "L k = Some (X, Suc n)"
  obtains s' a where "alloc k s = Some (s', a)" and "a \<noteq> 0" and "inv (L(k \<mapsto> (insert a X, n))) s'"
    and "\<And>t. inv (L(k \<mapsto> (insert a X, n))) t \<Longrightarrow> \<exists>t'. free a t = Some t' \<and> inv L t'"
proof -
  obtain s' a where a: "alloc k s = Some (s', a)" "a \<noteq> 0" "a \<notin> X" "inv (L(k \<mapsto> (insert a X, n))) s'"
    using alloc_law [OF assms] by blast
  have "L(k \<mapsto> (insert a X, n), k \<mapsto> (insert a X - {a}, Suc n)) = L" using assms(2) a(3) by (auto simp: fun_eq_iff)
  then have "\<exists>t'. free a t = Some t' \<and> inv L t'" if "inv (L(k \<mapsto> (insert a X, n))) t" for t
    using free_law [OF that, of k "insert a X" n a] by simp
  with a that show thesis by blast
qed

lemma take:
  assumes inv: "inv L s" and f: "has_free L K (Suc n)" and h: "holds L H" and k: "k \<in> K"
  shows "\<exists>s' a L'. alloc k s = Some (s', a) \<and> a \<noteq> 0 \<and> (k, a) \<notin> H \<and> inv L' s' \<and> has_free L' K n \<and> holds L' (insert (k, a) H)"
proof -
  obtain X m where "L k = Some (X, m)" "Suc n \<le> m" using f k by (auto simp: has_free_def)
  then obtain i where i: "L k = Some (X, Suc i)" "n \<le> i" by (cases m) auto
  obtain s' a where a: "alloc k s = Some (s', a)" "a \<noteq> 0" "a \<notin> X" "inv (L(k \<mapsto> (insert a X, i))) s'"
    using alloc_law [OF inv i(1)] by blast
  have "has_free (L(k \<mapsto> (insert a X, i))) K n" using f i(2) by (fastforce simp: has_free_def)
  moreover have "holds (L(k \<mapsto> (insert a X, i))) (insert (k, a) H)" using h i(1) by (fastforce simp: holds_def)
  moreover have "(k, a) \<notin> H" using h i(1) a(3) by (auto simp: holds_def)
  ultimately show ?thesis using a by blast
qed

lemma give:
  assumes inv: "inv L s" and f: "has_free L K n" and h: "holds L (insert (k, a) H)" and a: "(k, a) \<notin> H"
  shows "\<exists>s' L'. free a s = Some s' \<and> inv L' s' \<and> has_free L' K n \<and> holds L' H"
proof -
  obtain X m where X: "L k = Some (X, m)" "a \<in> X" using h by (auto simp: holds_def)
  obtain s' where s': "free a s = Some s'" "inv (L(k \<mapsto> (X - {a}, Suc m))) s'" using free_law [OF inv X] by blast
  have "has_free (L(k \<mapsto> (X - {a}, Suc m))) K n" using f X(1) by (fastforce simp: has_free_def)
  moreover have "holds (L(k \<mapsto> (X - {a}, Suc m))) H" using h X(1) a by (fastforce simp: holds_def)
  ultimately show ?thesis using s' by blast
qed

end

section \<open>The slab allocator\<close>

text \<open>The head page of the block that holds an object.\<close>

definition obj_head :: "slub \<Rightarrow> u32 \<Rightarrow> nat" where
  "obj_head s a = compound_head (page_map (pages s) (phys_to_page a))"

definition on_slab :: "slub \<Rightarrow> cache_id \<Rightarrow> nat set \<Rightarrow> u32 \<Rightarrow> bool" where
  "on_slab s c P a \<longleftrightarrow>
     in_map (phys_to_page a) \<and> obj_head s a \<in> P \<and> slab_cache (page_map (pages s) (obj_head s a)) = Some c"

text \<open>
  The cache \<open>c\<close> is well formed and has \<open>n\<close> free objects; every object lies on a page of
  one of its slabs, and on every slab more objects are in use than those in \<open>X\<close>, so that giving these
  back never gives back the slab.
\<close>

definition slab_state ::
  "cache_id \<Rightarrow> u32 set \<Rightarrow> nat \<Rightarrow> slub \<Rightarrow> mnode family \<Rightarrow> nat list \<Rightarrow> nat list \<Rightarrow> (nat \<Rightarrow> u32 list) \<Rightarrow> bool" where
  "slab_state c X n s F ps fs os \<longleftrightarrow>
     wf_cache s F c ps fs os \<and> n \<le> card (free_objects ps os) \<and>
     (\<forall>p \<in> set ps. \<forall>a \<in> set (os p). obj_head s a = p) \<and>
     (\<forall>a \<in> free_objects ps os \<union> X. on_slab s c (set ps \<union> set fs) a) \<and>
     (\<forall>x \<in> X. Obj x \<notin> nodes F) \<and>
     (\<forall>p \<in> set ps \<union> set fs. card {x \<in> X. obj_head s x = p} < unat (inuse (page_map (pages s) p)))"

text \<open>What never changes: which cache serves which size, the sizes of the objects, the constructors, and the
  cache to whose slabs an address belongs.\<close>

definition obj_cache :: "slub \<Rightarrow> u32 \<Rightarrow> cache_id option" where
  "obj_cache s a = (if in_map (phys_to_page a) then slab_cache (page_map (pages s) (obj_head s a)) else None)"

type_synonym layout = "(nat \<Rightarrow> cache_id option) \<times> (cache_id \<Rightarrow> u32 \<times> ctor option) \<times> (u32 \<Rightarrow> cache_id option)"

definition heap_layout :: "slub \<Rightarrow> layout" where
  "heap_layout s = (bmalloc_caches s, \<lambda>c. (osize (caches s c), cctor (caches s c)), obj_cache s)"

definition heap_inv ::
  "layout \<Rightarrow> (cache_id \<rightharpoonup> u32 set \<times> nat) \<Rightarrow> slub \<Rightarrow> bool" where
  "heap_inv y L s \<longleftrightarrow> heap_layout s = y \<and>
     (\<exists>F ps fs os. \<forall>c X n. L c = Some (X, n) \<longrightarrow>
        cctor (caches s c) \<noteq> Some Ctor_cache_init \<and> finite X \<and> 0 \<notin> X \<and> slab_state c X n s F (ps c) (fs c) (os c))"

text \<open>Only the counts of the objects in use change on the pages.\<close>

lemma head_cong:
  assumes "page_map (pages s') = (page_map (pages s))(p := (page_map (pages s) p)\<lparr>inuse := k\<rparr>)"
  shows "obj_head s' = obj_head s" and "on_slab s' c P = on_slab s c P"
  using assms by (auto simp: obj_head_def on_slab_def fun_eq_iff)

lemma finite_free_objects: "finite (free_objects ps os)"
  by (simp add: free_objects_def)

text \<open>A step on one slab of the cache \<open>c\<close> for the object \<open>a\<close>, and what it leaves alone.\<close>

definition slab_step ::
  "cache_id \<Rightarrow> nat set \<Rightarrow> u32 \<Rightarrow> slub \<Rightarrow> mnode family \<Rightarrow> slub \<Rightarrow> mnode family \<Rightarrow> bool" where
  "slab_step c P a s F s' F' \<longleftrightarrow>
     (\<forall>x. Obj x \<in> nodes F' \<longrightarrow> Obj x \<in> nodes F \<or> x = a) \<and>
     (\<exists>p k f. p \<in> P \<and> (\<forall>l. l \<notin> {Page_freelist p, Slabs_partial c, Slabs_full c} \<longrightarrow> F' l = F l) \<and>
        page_map (pages s') = (page_map (pages s))(p := (page_map (pages s) p)\<lparr>inuse := k\<rparr>) \<and>
        caches s' = (caches s)(c := (caches s c)\<lparr>free_objs := f\<rparr>)) \<and>
     bmalloc_caches s' = bmalloc_caches s"

lemma step_layout: "slab_step c P a s F s' F' \<Longrightarrow> heap_layout s' = heap_layout s"
  by (auto simp: slab_step_def heap_layout_def obj_cache_def obj_head_def fun_eq_iff)

lemma slab_lists:
  assumes "slab_state c X n s F ps fs os"
  shows "F (Slabs_partial c) = Some (map Page_list ps)" and "F (Slabs_full c) = Some (map Page_list fs)"
    and "wf_lists (mlinks (pages s)) F"
  using assms by (simp_all add: slab_state_def wf_cache_def)

text \<open>Two caches have no slab in common.\<close>

lemma slabs_disjoint:
  assumes "slab_state c X n s F ps fs os" and "slab_state c' X' n' s F ps' fs' os'" and "c \<noteq> c'"
  shows "(set ps \<union> set fs) \<inter> (set ps' \<union> set fs') = {}"
proof -
  note 1 = slab_lists [OF assms(1)] and 2 = slab_lists [OF assms(2)]
  have "set ps \<inter> set ps' = {}" using wf_disj [OF 1(3,1) 2(1)] assms(3) by auto
  moreover have "set ps \<inter> set fs' = {}" using wf_disj [OF 1(3,1) 2(2)] by auto
  moreover have "set fs \<inter> set ps' = {}" using wf_disj [OF 1(3,2) 2(1)] by auto
  moreover have "set fs \<inter> set fs' = {}" using wf_disj [OF 1(3,2) 2(2)] assms(3) by auto
  ultimately show ?thesis by blast
qed

text \<open>A step on one cache leaves the others as they are.\<close>

lemma slab_state_frame:
  assumes st: "slab_state c X n s F ps fs os" and st': "slab_state c' X' n' s F ps' fs' os'" and c: "c \<noteq> c'"
    and step: "slab_step c (set ps \<union> set fs) a s F s' F'" and wf: "wf_lists (mlinks (pages s')) F'"
    and a: "on_slab s c (set ps \<union> set fs) a"
  shows "slab_state c' X' n' s' F' ps' fs' os'"
proof -
  obtain p k f where p: "p \<in> set ps \<union> set fs" "\<And>l. l \<notin> {Page_freelist p, Slabs_partial c, Slabs_full c} \<Longrightarrow> F' l = F l"
    "page_map (pages s') = (page_map (pages s))(p := (page_map (pages s) p)\<lparr>inuse := k\<rparr>)"
    "caches s' = (caches s)(c := (caches s c)\<lparr>free_objs := f\<rparr>)"
    and nd: "\<And>x. Obj x \<in> nodes F' \<Longrightarrow> Obj x \<in> nodes F \<or> x = a"
    using step unfolding slab_step_def by blast
  have np: "p \<notin> set ps' \<union> set fs'" using slabs_disjoint [OF st st' c] p(1) by blast
  have sl: "slab_counts s' F' c' os' q = slab_counts s F c' os' q" if "q \<in> set ps' \<union> set fs'" for q
    using that np c p(2) [of "Page_freelist q"] by (auto simp: slab_counts_def p(3,4))
  have wf': "wf_cache s' F' c' ps' fs' os'"
    using st' wf sl c p(2) by (auto simp: slab_state_def wf_cache_def p(4))
  note head = head_cong [OF p(3)]
  have ax: "x \<noteq> a" if "x \<in> X'" for x
    using st' that a slabs_disjoint [OF st st' c] by (auto simp: slab_state_def on_slab_def)
  have iu: "inuse (page_map (pages s') q) = inuse (page_map (pages s) q)" if "q \<in> set ps' \<union> set fs'" for q
    using that np by (auto simp: p(3))
  have "\<forall>x \<in> X'. Obj x \<notin> nodes F" using st' by (simp add: slab_state_def)
  then have "\<forall>x \<in> X'. Obj x \<notin> nodes F'" using nd ax by blast
  then show ?thesis
    using st' wf' iu unfolding slab_state_def head by simp
qed

lemma slab_state_alloc:
  assumes st: "slab_state c X (Suc n) s F ps fs os" and X: "finite X" "cctor (caches s c) \<noteq> Some Ctor_cache_init"
  shows "\<exists>s' a F' ps' fs' os'. bmem_cache_alloc c s = Some (s', a) \<and> a \<noteq> 0 \<and> a \<notin> X \<and>
    slab_state c (insert a X) n s' F' ps' fs' os' \<and> slab_step c (set ps \<union> set fs) a s F s' F' \<and>
    on_slab s c (set ps \<union> set fs) a"
proof -
  have wf: "wf_cache s F c ps fs os" and n: "Suc n \<le> card (free_objects ps os)"
    and hd: "\<And>p a. p \<in> set ps \<Longrightarrow> a \<in> set (os p) \<Longrightarrow> obj_head s a = p"
    and on: "\<And>a. a \<in> free_objects ps os \<union> X \<Longrightarrow> on_slab s c (set ps \<union> set fs) a"
    and xs: "\<And>x. x \<in> X \<Longrightarrow> Obj x \<notin> nodes F"
    and cnt: "\<And>p. p \<in> set ps \<union> set fs \<Longrightarrow> card {x \<in> X. obj_head s x = p} < unat (inuse (page_map (pages s) p))"
    using st unfolding slab_state_def by blast+
  obtain p qs where ps: "ps = p # qs" using n by (cases ps) (auto simp: free_objects_def)
  have sc: "slab_counts s F c os p" "os p \<noteq> []" using wf by (auto simp: ps wf_cache_def)
  then obtain a rest where os: "os p = a # rest" "a \<noteq> 0" by (cases "os p") (auto simp: slab_counts_def)
  let ?ps = "if rest = [] then qs else p # qs" and ?fs = "if rest = [] then p # fs else fs" and ?os = "os(p := rest)"
  obtain s' F' where s': "bmem_cache_alloc c s = Some (s', a)" "wf_cache s' F' c ?ps ?fs ?os"
    "\<And>x. Obj x \<in> nodes F' \<Longrightarrow> Obj x \<in> nodes F \<and> x \<noteq> a"
    "\<And>l. l \<notin> {Page_freelist p, Slabs_partial c, Slabs_full c} \<Longrightarrow> F' l = F l"
    "page_map (pages s') = (page_map (pages s))(p := (page_map (pages s) p)\<lparr>inuse := inuse (page_map (pages s) p) + 1\<rparr>)"
    "caches s' = (caches s)(c := (caches s c)\<lparr>free_objs := free_objs (caches s c) - 1\<rparr>)"
    "bmalloc_caches s' = bmalloc_caches s"
    using slab_alloc_partial [OF wf [unfolded ps] X(2) os(1)] by blast
  note head = head_cong [OF s'(5)]
  have P: "set ?ps \<union> set ?fs = set ps \<union> set fs" by (auto simp: ps)
  have a: "a \<in> free_objects ps os" "obj_head s a = p" using os(1) hd by (simp_all add: ps free_objects_def)
  have fr: "free_objects ?ps ?os = free_objects ps os - {a}"
    using free_objects_pop [OF wf [unfolded ps] os(1)] by (auto simp: ps free_objects_def)
  have "F (Page_freelist p) = Some (map Obj (os p))" using sc(1) by (simp add: slab_counts_def)
  from nodes_mem [of F, OF this] have "Obj a \<in> nodes F" using os(1) by auto
  then have aX: "a \<notin> X" using xs by blast
  have "unat (inuse (page_map (pages s) p)) + 1 < 2 ^ 32"
    using sc(1) os(1) unat_lt32 [of "nums (caches s c)"] by (simp add: slab_counts_def)
  then have inc: "unat (inuse (page_map (pages s) p) + 1) = unat (inuse (page_map (pages s) p)) + 1"
    by (simp add: unat_plus_lt)
  have "card {x \<in> insert a X. obj_head s x = q} < unat (inuse (page_map (pages s') q))" if q: "q \<in> set ps \<union> set fs" for q
  proof (cases "q = p")
    case True
    then have "{x \<in> insert a X. obj_head s x = q} = insert a {x \<in> X. obj_head s x = q}" using a(2) by auto
    then show ?thesis using cnt [OF q] X(1) aX True by (simp add: s'(5) inc)
  next
    case False
    then have "{x \<in> insert a X. obj_head s x = q} = {x \<in> X. obj_head s x = q}" using a(2) by auto
    then show ?thesis using cnt [OF q] False by (simp add: s'(5))
  qed
  moreover have "n \<le> card (free_objects ?ps ?os)" unfolding fr using n a(1) finite_free_objects by simp
  moreover have "obj_head s b = q" if "q \<in> set ?ps" "b \<in> set (?os q)" for q b
    using that hd os(1) by (auto simp: ps split: if_splits)
  ultimately have "slab_state c (insert a X) n s' F' ?ps ?fs ?os"
    unfolding slab_state_def head P fr using s'(2,3) on xs a(1) by blast
  moreover have "slab_step c (set ps \<union> set fs) a s F s' F'"
    unfolding slab_step_def using s'(3-7) ps by (intro conjI) (auto 0 3)
  ultimately show ?thesis using s'(1) os(2) aX on a(1) by blast
qed

lemma slab_state_free:
  assumes st: "slab_state c X n s F ps fs os" and X: "finite X" "a \<in> X" "a \<noteq> 0"
  shows "\<exists>s' F' ps' fs' os'. bfree a s = Some s' \<and> slab_state c (X - {a}) (Suc n) s' F' ps' fs' os' \<and>
    slab_step c (set ps \<union> set fs) a s F s' F' \<and> on_slab s c (set ps \<union> set fs) a"
proof -
  have wf: "wf_cache s F c ps fs os" and n: "n \<le> card (free_objects ps os)"
    and hd: "\<And>p a. p \<in> set ps \<Longrightarrow> a \<in> set (os p) \<Longrightarrow> obj_head s a = p"
    and on: "\<And>a. a \<in> free_objects ps os \<union> X \<Longrightarrow> on_slab s c (set ps \<union> set fs) a"
    and xs: "\<And>x. x \<in> X \<Longrightarrow> Obj x \<notin> nodes F"
    and cnt: "\<And>p. p \<in> set ps \<union> set fs \<Longrightarrow> card {x \<in> X. obj_head s x = p} < unat (inuse (page_map (pages s) p))"
    using st unfolding slab_state_def by blast+
  define p where "p = obj_head s a"
  have p: "p \<in> set ps \<union> set fs" "in_map (phys_to_page a)" "slab_cache (page_map (pages s) p) = Some c"
    "compound_head (page_map (pages s) (phys_to_page a)) = p"
    using on [of a] X(2) by (simp_all add: on_slab_def p_def obj_head_def)
  have "0 < card {x \<in> X. obj_head s x = p}" using X by (auto simp: card_gt_0_iff p_def)
  then have used: "1 < unat (inuse (page_map (pages s) p))" using cnt [OF p(1)] by linarith
  let ?ps = "p # remove1 p ps" and ?fs = "remove1 p fs" and ?os = "os(p := os p @ [a])"
  obtain s' F' where s': "bfree a s = Some s'" "wf_cache s' F' c ?ps ?fs ?os"
    "\<And>x. Obj x \<in> nodes F' \<Longrightarrow> Obj x \<in> nodes F \<or> x = a"
    "\<And>l. l \<notin> {Page_freelist p, Slabs_partial c, Slabs_full c} \<Longrightarrow> F' l = F l"
    "page_map (pages s') = (page_map (pages s))(p := (page_map (pages s) p)\<lparr>inuse := inuse (page_map (pages s) p) - 1\<rparr>)"
    "caches s' = (caches s)(c := (caches s c)\<lparr>free_objs := free_objs (caches s c) + 1\<rparr>)"
    "bmalloc_caches s' = bmalloc_caches s"
    using slab_free_used [OF wf p(1) used X(3) xs [OF X(2)] p(2,4,3)] by blast
  note head = head_cong [OF s'(5)] and dist = wf_cache_distinct [OF wf]
  have P: "set ?ps \<union> set ?fs = set ps \<union> set fs" using p(1) dist by auto
  have fr: "free_objects ?ps ?os = insert a (free_objects ps os)" by (rule free_objects_push [OF wf p(1)])
  have "a \<notin> free_objects ps os"
  proof
    assume "a \<in> free_objects ps os"
    then obtain q where q: "q \<in> set ps" "a \<in> set (os q)" by (auto simp: free_objects_def)
    then have "F (Page_freelist q) = Some (map Obj (os q))" using wf by (simp add: wf_cache_def slab_counts_def)
    from nodes_mem [of F, OF this] q(2) xs [OF X(2)] show False by auto
  qed
  then have "Suc n \<le> card (free_objects ?ps ?os)" unfolding fr using n finite_free_objects by simp
  moreover have dec: "unat (inuse (page_map (pages s) p) - 1) = unat (inuse (page_map (pages s) p)) - 1"
    using used unat_minus_le [of 1 "inuse (page_map (pages s) p)"] by (simp add: word_le_nat_alt)
  have "card {x \<in> X - {a}. obj_head s x = q} < unat (inuse (page_map (pages s') q))" if q: "q \<in> set ps \<union> set fs" for q
  proof (cases "q = p")
    case True
    then have "{x \<in> X - {a}. obj_head s x = q} = {x \<in> X. obj_head s x = q} - {a}" "a \<in> {x \<in> X. obj_head s x = q}"
      using X(2) by (auto simp: p_def)
    then show ?thesis using cnt [OF q] X(1) used True by (simp add: s'(5) dec card_Diff_singleton)
  next
    case False
    then have "{x \<in> X - {a}. obj_head s x = q} = {x \<in> X. obj_head s x = q}" by (auto simp: p_def)
    then show ?thesis using cnt [OF q] False by (simp add: s'(5))
  qed
  moreover have "obj_head s b = q" if "q \<in> set ?ps" "b \<in> set (?os q)" for q b
  proof (cases "q = p")
    case True
    then show ?thesis using that(2) hd [of p b] wf p(1) by (auto simp: p_def wf_cache_def)
  next
    case False
    then show ?thesis using that hd dist by (auto split: if_splits)
  qed
  ultimately have "slab_state c (X - {a}) (Suc n) s' F' ?ps ?fs ?os"
    unfolding slab_state_def head P fr using s'(2,3) on xs X(2) by blast
  moreover have "slab_step c (set ps \<union> set fs) a s F s' F'"
    unfolding slab_step_def using s'(3-7) p(1) by (intro conjI) blast+
  ultimately show ?thesis using s'(1) on X(2) by blast
qed

text \<open>A step of one cache in the whole allocator.\<close>

lemma heap_inv_step:
  assumes inv: "heap_inv y L s" and st: "\<And>c X n. L c = Some (X, n) \<Longrightarrow> slab_state c X n s F (ps c) (fs c) (os c)"
    and k: "L k = Some (X, n)" and step: "slab_step k (set (ps k) \<union> set (fs k)) a s F s' F'"
    and a: "on_slab s k (set (ps k) \<union> set (fs k)) a" and Y: "finite Y" "0 \<notin> Y"
    and st': "slab_state k Y m s' F' ps' fs' os'"
  shows "heap_inv y (L(k \<mapsto> (Y, m))) s'"
proof -
  have lay: "heap_layout s' = y" "heap_layout s = y" using inv step_layout [OF step] by (simp_all add: heap_inv_def)
  then have ct: "cctor (caches s' c) = cctor (caches s c)" for c
    by (auto simp: heap_layout_def fun_eq_iff)
  have old: "cctor (caches s c) \<noteq> Some Ctor_cache_init \<and> finite Z \<and> 0 \<notin> Z" if "L c = Some (Z, i)" for c Z i
    using inv that unfolding heap_inv_def by blast
  have "cctor (caches s' c) \<noteq> Some Ctor_cache_init \<and> finite Z \<and> 0 \<notin> Z \<and>
      slab_state c Z i s' F' ((ps(k := ps')) c) ((fs(k := fs')) c) ((os(k := os')) c)"
    if L: "(L(k \<mapsto> (Y, m))) c = Some (Z, i)" for c Z i
  proof (cases "c = k")
    case True
    then show ?thesis using old [OF k] st' Y ct L by auto
  next
    case False
    then have Lc: "L c = Some (Z, i)" using L by simp
    have "slab_state c Z i s' F' (ps c) (fs c) (os c)"
      by (rule slab_state_frame [OF st [OF k] st [OF Lc] _ step slab_lists(3) [OF st'] a]) (use False in simp)
    then show ?thesis using False old [OF Lc] ct by simp
  qed
  then show ?thesis unfolding heap_inv_def using lay(1) by blast
qed

lemma heap_invE:
  assumes "heap_inv y L s"
  obtains F ps fs os where "\<And>c X n. L c = Some (X, n) \<Longrightarrow> slab_state c X n s F (ps c) (fs c) (os c)"
    and "\<And>c X n. L c = Some (X, n) \<Longrightarrow> finite X \<and> 0 \<notin> X \<and> cctor (caches s c) \<noteq> Some Ctor_cache_init"
  using assms unfolding heap_inv_def by blast

text \<open>An object that is handed out lies on a slab of its cache.\<close>

lemma inv_object:
  assumes "heap_inv y L s" and "L c = Some (X, n)" and "a \<in> X"
  shows "obj_cache s a = Some c" and "a \<noteq> 0"
proof -
  obtain F ps fs os where "slab_state c X n s F (ps c) (fs c) (os c)" using heap_invE [OF assms(1)] assms(2) by metis
  then have "on_slab s c (set (ps c) \<union> set (fs c)) a" using assms(3) by (simp add: slab_state_def)
  then show "obj_cache s a = Some c" by (simp add: on_slab_def obj_cache_def)
  show "a \<noteq> 0" using heap_invE [OF assms(1)] assms(2,3) by metis
qed

interpretation slabs: allocator "heap_inv y" bmem_cache_alloc bfree for y
proof
  fix L s k X n assume inv: "heap_inv y L s" and k: "L k = Some (X, Suc n)"
  obtain F ps fs os where st: "\<And>c X n. L c = Some (X, n) \<Longrightarrow> slab_state c X n s F (ps c) (fs c) (os c)"
    and X: "finite X" "0 \<notin> X" "cctor (caches s k) \<noteq> Some Ctor_cache_init"
    using heap_invE [OF inv] k by metis
  from slab_state_alloc [OF st [OF k] X(1,3)] obtain s' a F' ps' fs' os' where
    a: "bmem_cache_alloc k s = Some (s', a)" "a \<noteq> 0" "a \<notin> X" "slab_state k (insert a X) n s' F' ps' fs' os'"
    "slab_step k (set (ps k) \<union> set (fs k)) a s F s' F'" "on_slab s k (set (ps k) \<union> set (fs k)) a" by blast
  then have "heap_inv y (L(k \<mapsto> (insert a X, n))) s'"
    using heap_inv_step [OF inv st k a(5,6) _ _ a(4)] X(1,2) by simp
  with a show "\<exists>s' a. bmem_cache_alloc k s = Some (s', a) \<and> a \<noteq> 0 \<and> a \<notin> X \<and> heap_inv y (L(k \<mapsto> (insert a X, n))) s'"
    by blast
next
  fix L s k X n a assume inv: "heap_inv y L s" and k: "L k = Some (X, n)" and a: "a \<in> X"
  obtain F ps fs os where st: "\<And>c X n. L c = Some (X, n) \<Longrightarrow> slab_state c X n s F (ps c) (fs c) (os c)"
    and X: "finite X" "0 \<notin> X"
    using heap_invE [OF inv] k by metis
  then have "a \<noteq> 0" using a by blast
  from slab_state_free [OF st [OF k] X(1) a this] obtain s' F' ps' fs' os' where
    f: "bfree a s = Some s'" "slab_state k (X - {a}) (Suc n) s' F' ps' fs' os'"
    "slab_step k (set (ps k) \<union> set (fs k)) a s F s' F'" "on_slab s k (set (ps k) \<union> set (fs k)) a" by blast
  then have "heap_inv y (L(k \<mapsto> (X - {a}, Suc n))) s'"
    using heap_inv_step [OF inv st k f(3,4) _ _ f(2)] X by simp
  with f(1) show "\<exists>s'. bfree a s = Some s' \<and> heap_inv y (L(k \<mapsto> (X - {a}, Suc n))) s'" by blast
qed

section \<open>The allocator in the state of the file systems\<close>

definition cache_alloc :: "cache_id \<Rightarrow> vfs \<Rightarrow> (vfs \<times> u32) option" where
  "cache_alloc c t = map_option (\<lambda>(m, a). (t\<lparr>vslub := m\<rparr>, a)) (bmem_cache_alloc c (vslub t))"

text \<open>The state is \<open>s\<close> but for the allocator.\<close>

definition vheap :: "vfs \<Rightarrow> (cache_id \<rightharpoonup> u32 set \<times> nat) \<Rightarrow> vfs \<Rightarrow> bool" where
  "vheap s L t \<longleftrightarrow> t = s\<lparr>vslub := vslub t\<rparr> \<and> heap_inv (heap_layout (vslub s)) L (vslub t)"

lemma vheap_upd: "vheap s L t \<Longrightarrow> t\<lparr>vslub := m\<rparr> = s\<lparr>vslub := m\<rparr>"
  unfolding vheap_def by (metis vfs.surjective vfs.update_convs(1))

interpretation vs: allocator "vheap s" cache_alloc vfree for s
proof
  fix L t k X n assume t: "vheap s L t" and k: "L k = Some (X, Suc n)"
  then have "heap_inv (heap_layout (vslub s)) L (vslub t)" by (simp add: vheap_def)
  from slabs.alloc_law [OF this k] vheap_upd [OF t]
  show "\<exists>s' a. cache_alloc k t = Some (s', a) \<and> a \<noteq> 0 \<and> a \<notin> X \<and> vheap s (L(k \<mapsto> (insert a X, n))) s'"
    by (auto simp: cache_alloc_def vheap_def)
next
  fix L t k X n a assume t: "vheap s L t" and k: "L k = Some (X, n)" "a \<in> X"
  then have "heap_inv (heap_layout (vslub s)) L (vslub t)" by (simp add: vheap_def)
  from slabs.free_law [OF this k] vheap_upd [OF t]
  show "\<exists>s'. vfree a t = Some s' \<and> vheap s (L(k \<mapsto> (X - {a}, Suc n))) s'"
    by (auto simp: vfree_def vheap_def)
qed

text \<open>The cache that serves a size, with objects of at least this size.\<close>

definition serves :: "vfs \<Rightarrow> cache_id \<Rightarrow> u32 \<Rightarrow> bool" where
  "serves s c sz \<longleftrightarrow> bmalloc_cache (vslub s) sz = Some (Some c) \<and> sz \<le> osize (caches (vslub s) c)"

lemma vheap_keeps:
  assumes "vheap s L t"
  shows "sbs t = sbs s" and "fsnodes t = fsnodes s" and "vmem t = vmem s" and "vtree t = vtree s"
    and "fs_node_cache t = fs_node_cache s" and "heap_layout (vslub t) = heap_layout (vslub s)" and "vheap t L t"
proof -
  obtain m where t: "t = s\<lparr>vslub := m\<rparr>" and m: "heap_inv (heap_layout (vslub s)) L m"
    using assms unfolding vheap_def by metis
  show "sbs t = sbs s" "fsnodes t = fsnodes s" "vmem t = vmem s" "vtree t = vtree s" "fs_node_cache t = fs_node_cache s"
    by (simp_all add: t)
  show lay: "heap_layout (vslub t) = heap_layout (vslub s)" using m by (simp add: t heap_inv_def)
  show "vheap t L t" using m lay by (simp add: vheap_def) (simp add: t)
qed

lemma serves_layout: "heap_layout (vslub t) = heap_layout (vslub s) \<Longrightarrow> serves t = serves s"
proof -
  assume "heap_layout (vslub t) = heap_layout (vslub s)"
  then have e: "bmalloc_caches (vslub t) = bmalloc_caches (vslub s)"
    "osize (caches (vslub t) c) = osize (caches (vslub s) c)" for c
    by (simp_all add: heap_layout_def fun_eq_iff)
  show ?thesis unfolding serves_def bmalloc_cache_def e ..
qed

lemma serves_alloc: "serves s c sz \<Longrightarrow> vmalloc sz s = cache_alloc c s"
  by (cases "bmem_cache_alloc c (vslub s)") (auto simp: serves_def vmalloc_def cache_alloc_def bmalloc_def)

lemma serves_size: "serves s c sz \<Longrightarrow> object_size s sz = unat (osize (caches (vslub s) c))"
  by (simp add: serves_def object_size_def)

text \<open>The same for a state in which other parts change as well: every cache of \<open>K\<close> has at least \<open>n\<close> free
  objects, and the objects \<open>H\<close> are handed out.\<close>

definition heap_state :: "vfs \<Rightarrow> cache_id set \<Rightarrow> nat \<Rightarrow> (cache_id \<times> u32) set \<Rightarrow> bool" where
  "heap_state s K n H \<longleftrightarrow> (\<exists>L. heap_inv (heap_layout (vslub s)) L (vslub s) \<and> has_free L K n \<and> holds L H)"

lemma heap_state_cong: "vslub t = vslub s \<Longrightarrow> heap_state t K n H = heap_state s K n H"
  by (simp add: heap_state_def)

lemma heap_state_less: "heap_state s K n H \<Longrightarrow> m \<le> n \<Longrightarrow> H' \<subseteq> H \<Longrightarrow> heap_state s K m H'"
  unfolding heap_state_def has_free_def holds_def by (meson le_trans subsetD)

lemma held_object:
  assumes "heap_state s K n H" and "(c, a) \<in> H"
  shows "obj_cache (vslub s) a = Some c" and "a \<noteq> 0"
proof -
  obtain L X i where L: "heap_inv (heap_layout (vslub s)) L (vslub s)" "L c = Some (X, i)" "a \<in> X"
    using assms unfolding heap_state_def holds_def by (auto split: option.splits)
  show "obj_cache (vslub s) a = Some c" "a \<noteq> 0" by (rule inv_object [OF L])+
qed

lemma take_object:
  assumes "heap_state s K (Suc n) H" and "c \<in> K"
  obtains m a where "cache_alloc c s = Some (s\<lparr>vslub := m\<rparr>, a)" and "a \<noteq> 0" and "(c, a) \<notin> H"
    and "heap_layout m = heap_layout (vslub s)" and "heap_state (s\<lparr>vslub := m\<rparr>) K n (insert (c, a) H)"
proof -
  obtain L where L: "heap_inv (heap_layout (vslub s)) L (vslub s)" "has_free L K (Suc n)" "holds L H"
    using assms(1) unfolding heap_state_def by blast
  obtain m a L' where m: "bmem_cache_alloc c (vslub s) = Some (m, a)" "a \<noteq> 0" "(c, a) \<notin> H"
    "heap_inv (heap_layout (vslub s)) L' m" "has_free L' K n" "holds L' (insert (c, a) H)"
    using slabs.take [OF L assms(2)] by blast
  have "heap_layout m = heap_layout (vslub s)" using m(4) by (simp add: heap_inv_def)
  with m that show thesis by (auto simp: cache_alloc_def heap_state_def)
qed

lemma give_object:
  assumes "heap_state s K n (insert (c, a) H)" and "(c, a) \<notin> H"
  obtains m where "vfree a s = Some (s\<lparr>vslub := m\<rparr>)" and "heap_layout m = heap_layout (vslub s)"
    and "heap_state (s\<lparr>vslub := m\<rparr>) K n H"
proof -
  obtain L where L: "heap_inv (heap_layout (vslub s)) L (vslub s)" "has_free L K n" "holds L (insert (c, a) H)"
    using assms(1) unfolding heap_state_def by blast
  obtain m L' where m: "bfree a (vslub s) = Some m" "heap_inv (heap_layout (vslub s)) L' m" "has_free L' K n" "holds L' H"
    using slabs.give [OF L assms(2)] by blast
  have "heap_layout m = heap_layout (vslub s)" using m(2) by (simp add: heap_inv_def)
  with m that show thesis by (auto simp: vfree_def heap_state_def)
qed

end
