(* ===== verification/FileRead.thy ===== *)
theory FileRead
  imports Vfs Allocator
begin

text \<open>
  Reading files end to end: the contents of a file as its file system keeps them on the device, and the
  proof that \<^verbatim>\<open>file_read\<close>, through the virtual file system, the file system, the superblock
  and the allocator, delivers exactly these bytes.
\<close>

section \<open>Borrowed memory\<close>

text \<open>The cache \<open>c\<close> serves the blocks of the superblock with objects of exactly their size.\<close>

definition block_cache :: "vfs \<Rightarrow> cache_id \<Rightarrow> u32 \<Rightarrow> bool" where
  "block_cache s c bs \<longleftrightarrow> serves s c bs \<and> osize (caches (vslub s) c) = bs"

lemma block_cache_layout: "heap_layout (vslub t) = heap_layout (vslub s) \<Longrightarrow> block_cache t = block_cache s"
proof -
  assume y: "heap_layout (vslub t) = heap_layout (vslub s)"
  then have "osize (caches (vslub t) c) = osize (caches (vslub s) c)" for c by (simp add: heap_layout_def fun_eq_iff)
  then show ?thesis by (simp add: fun_eq_iff block_cache_def serves_layout [OF y])
qed

lemma vheap_block_cache: "vheap s L t \<Longrightarrow> block_cache t c bs = block_cache s c bs"
  using block_cache_layout [OF vheap_keeps(6)] by simp

text \<open>A block that is borrowed for a while.\<close>

lemma borrow_block:
  assumes h: "vheap s L t" and k: "L c = Some (X, Suc n)" and bc: "block_cache s c bs"
  obtains t1 a where "vmalloc bs t = Some (t1, a)" and "a \<noteq> 0" and "vheap s (L(c \<mapsto> (insert a X, n))) t1"
    and "length (fresh_buffer t1 a bs) = unat bs"
    and "\<And>t2. vheap s (L(c \<mapsto> (insert a X, n))) t2 \<Longrightarrow> \<exists>t'. vfree a t2 = Some t' \<and> vheap s L t'"
proof -
  obtain t1 a where a: "cache_alloc c t = Some (t1, a)" "a \<noteq> 0" "vheap s (L(c \<mapsto> (insert a X, n))) t1"
    "\<And>t2. vheap s (L(c \<mapsto> (insert a X, n))) t2 \<Longrightarrow> \<exists>t'. vfree a t2 = Some t' \<and> vheap s L t'"
    using vs.borrow [OF h k] by blast
  have "block_cache t c bs" "block_cache t1 c bs" using bc vheap_block_cache [OF h] vheap_block_cache [OF a(3)] by simp_all
  then have "vmalloc bs t = Some (t1, a)" "length (fresh_buffer t1 a bs) = unat bs"
    using a(1) serves_alloc [of t c bs] serves_size [of t1 c bs] by (simp_all add: block_cache_def fresh_buffer_def)
  with a that show thesis by blast
qed

lemma sb_read_offset_heap:
  assumes h: "vheap s L t" and k: "L c = Some (X, Suc n)" and bc: "block_cache s c (ucast (block_size (super (sbs s sb))))"
    and D: "disk_of (super (sbs s sb)) D" and len: "0 < len" "off + len \<le> length D" "len \<le> length buf" "length buf < 2 ^ 32"
  shows "\<exists>t'. sb_read_offset sb (of_nat off) (of_nat len) buf t =
    Some (t', 0, take len (drop off D) @ drop len buf) \<and> vheap s L t'"
proof -
  let ?b = "super (sbs s sb)"
  obtain t1 a where a: "vmalloc (ucast (block_size ?b)) t = Some (t1, a)" "a \<noteq> 0"
    "vheap s (L(c \<mapsto> (insert a X, n))) t1" "length (fresh_buffer t1 a (ucast (block_size ?b))) = unat (ucast (block_size ?b) :: u32)"
    "\<And>t2. vheap s (L(c \<mapsto> (insert a X, n))) t2 \<Longrightarrow> \<exists>t'. vfree a t2 = Some t' \<and> vheap s L t'"
    using borrow_block [OF h k bc] by blast
  obtain t' where t': "vfree a t1 = Some t'" "vheap s L t'" using a(5) [OF a(3)] by blast
  have "unat (ucast (block_size ?b) :: u32) = unat (block_size ?b)"
    unfolding ucast_nat using unsigned_less [of "block_size ?b", where 'a = nat] by (intro unat_of_nat32) simp
  then have "superblock_read_offset ?b (of_nat off) (of_nat len) (Some (fresh_buffer t1 a (ucast (block_size ?b)))) buf =
    Some (0, take len (drop off D) @ drop len buf)"
    using superblock_read_offset_exact [OF D len(1-4)] a(4) by metis
  then show ?thesis using a(1,2) t' vheap_keeps(1) [OF h] by (simp add: sb_read_offset_def Let_def)
qed

section \<open>Files of ext2\<close>

text \<open>
  The first \<open>k\<close> blocks of the file that the pointers \<open>ps\<close> describe lie on the device \<open>D\<close> of \<open>n\<close>
  pointers to a block, within the reach of the double indirect block, and none is a hole; the file's
  bytes are those of these blocks.
\<close>

definition ext2_blocks :: "u8 list \<Rightarrow> nat \<Rightarrow> u32 list \<Rightarrow> nat \<Rightarrow> bool" where
  "ext2_blocks D n ps k \<longleftrightarrow> 15 \<le> length ps \<and> k \<le> 12 + n + n * n \<and> k * (4 * n) < 2 ^ 32 \<and>
     (\<forall>c<k. case file_block D (4 * n) ps c of None \<Rightarrow> False
        | Some b \<Rightarrow> b \<noteq> 0 \<and> (unat b + 1) * (4 * n) \<le> length D)"

definition ext2_block :: "u8 list \<Rightarrow> nat \<Rightarrow> u32 list \<Rightarrow> nat \<Rightarrow> u8 list" where
  "ext2_block D n ps c = (case file_block D (4 * n) ps c of None \<Rightarrow> [] | Some b \<Rightarrow> block_of D (4 * n) (unat b))"

definition ext2_bytes :: "u8 list \<Rightarrow> nat \<Rightarrow> u32 list \<Rightarrow> nat \<Rightarrow> u8 list" where
  "ext2_bytes D n ps k = concat (map (ext2_block D n ps) [0..<k])"

lemma length_block_of: "(b + 1) * bs \<le> length D \<Longrightarrow> length (block_of D bs b) = bs"
  by (simp add: block_of_def algebra_simps)

lemma ext2_blocksE:
  assumes "ext2_blocks D n ps k" and "c < k"
  obtains b where "file_block D (4 * n) ps c = Some b" and "b \<noteq> 0" and "(unat b + 1) * (4 * n) \<le> length D"
    and "ext2_block D n ps c = block_of D (4 * n) (unat b)" and "length (ext2_block D n ps c) = 4 * n"
  using assms that by (auto simp: ext2_blocks_def ext2_block_def length_block_of split: option.splits dest!: spec [of _ c])

text \<open>A block of a concatenation of blocks of one size.\<close>

lemma concat_blocks:
  assumes "\<And>c. c < k \<Longrightarrow> length (f c) = bs" and "c < k"
  shows "take bs (drop (c * bs) (concat (map f [0..<k]))) = f c"
proof -
  have len: "length (concat (map f [0..<c])) = c * bs"
    using assms by (induction c) auto
  have "[0..<k] = [0..<c] @ c # [Suc c..<k]" using assms(2) by (metis le_add_diff_inverse less_imp_le upt_add_eq_append upt_conv_Cons zero_le)
  then show ?thesis using len assms by simp
qed

lemma length_concat_blocks:
  "(\<And>c. c < k \<Longrightarrow> length (f c) = bs) \<Longrightarrow> length (concat (map f [0..<k])) = k * bs"
  by (induction k) auto

lemma length_ext2_bytes:
  assumes "ext2_blocks D n ps k"
  shows "length (ext2_bytes D n ps k) = k * (4 * n)"
  unfolding ext2_bytes_def by (rule length_concat_blocks) (rule ext2_blocksE [OF assms])

lemma ext2_piece:
  assumes B: "ext2_blocks D n ps k" and c: "c < k" and m: "io + m \<le> 4 * n"
  shows "take m (drop io (ext2_block D n ps c)) = take m (drop (c * (4 * n) + io) (ext2_bytes D n ps k))"
proof -
  have "ext2_block D n ps c = take (4 * n) (drop (c * (4 * n)) (ext2_bytes D n ps k))"
    unfolding ext2_bytes_def by (rule concat_blocks [symmetric]) (use c in \<open>auto elim: ext2_blocksE [OF B]\<close>)
  then show ?thesis using m by (simp add: drop_take add.commute min_def)
qed

lemma inode_block_heap:
  assumes h: "vheap s L t" and k: "L c = Some (X, Suc m)" and bc: "block_cache s c (of_nat (4 * n))"
    and P: "pointer_disk (super (sbs s sb)) D n" and B: "ext2_blocks D n (dbp inode) kb" and i: "i < kb"
    and p: "file_block D (4 * n) (dbp inode) i = Some p"
  shows "\<exists>t'. ext2fs_inode_block sb inode (of_nat (i * (4 * n))) t = Some (t', p) \<and> vheap s L t'"
proof -
  obtain t1 a where a: "vmalloc (of_nat (4 * n)) t = Some (t1, a)" "a \<noteq> 0"
    "vheap s (L(c \<mapsto> (insert a X, m))) t1" "length (fresh_buffer t1 a (of_nat (4 * n))) = unat (of_nat (4 * n) :: u32)"
    "\<And>t2. vheap s (L(c \<mapsto> (insert a X, m))) t2 \<Longrightarrow> \<exists>t'. vfree a t2 = Some t' \<and> vheap s L t'"
    using borrow_block [OF h k bc] by blast
  obtain t' where t': "vfree a t1 = Some t'" "vheap s L t'" using a(5) [OF a(3)] by blast
  have n: "0 < n" "4 * n < 2 ^ 32" using P pointer_disk_bound [OF P] by (simp_all add: pointer_disk_def)
  have os: "object_size t1 (of_nat (4 * n)) = 4 * n"
    using a(4) n(2) by (simp only: fresh_buffer_def length_mem_bytes unat_of_nat32)
  have "i * (4 * n) \<le> kb * (4 * n)" using i by (intro mult_le_mono1) simp
  also have "\<dots> < 2 ^ 32" using B by (simp only: ext2_blocks_def)
  finally have io: "i * (4 * n) < 2 ^ 32" "i * (4 * n) div (4 * n) = i" using n(1) by simp_all
  have P': "pointer_disk (super (sbs t sb)) D n" using P vheap_keeps(1) [OF h] by simp
  have "15 \<le> length (dbp inode)" "i < 12 + n + n * n" using B i by (simp_all add: ext2_blocks_def)
  from ext2fs_inode_block_correct [OF P' this io(2,1) p a(1,2) os t'(1)]
  show ?thesis using t'(2) h by (cases "i < 12") auto
qed

text \<open>What the loop reads of a range that starts at \<open>io\<close> in its first block, with \<open>j\<close> blocks left.\<close>

lemma of_nat_min: "m < 2 ^ 32 \<Longrightarrow> k < 2 ^ 32 \<Longrightarrow> (if (of_nat m :: u32) < of_nat k then of_nat m else of_nat k) = (of_nat (min m k) :: u32)"
  by (simp add: word_less_nat_alt unat_of_nat32 min_def)

lemma ucast_of_nat_down: "(ucast (of_nat x :: u64) :: u32) = of_nat x"
  by (rule bit_word_eqI) (simp add: bit_simps)

lemma put_at_piece:
  assumes "bo + length pc \<le> length buf"
  shows "put_at buf bo pc = Some (take bo buf @ pc @ drop (bo + length pc) buf)"
  using assms by (simp add: put_at_def)

lemma inode_read_loop_bytes:
  assumes k: "L c = Some (X, Suc m)" and bc: "block_cache s c (of_nat (4 * n))"
    and P: "pointer_disk (super (sbs s sb)) D n" and B: "ext2_blocks D n (dbp inode) kb"
  shows "vheap s L t \<Longrightarrow> io < 4 * n \<Longrightarrow> len < 2 ^ 32 \<Longrightarrow> length iblock = 4 * n \<Longrightarrow> length buf < 2 ^ 32 \<Longrightarrow>
    bo + len \<le> length buf \<Longrightarrow> (sec + i) * (4 * n) + io + len \<le> kb * (4 * n) \<Longrightarrow> r = min len (j * (4 * n) - io) \<Longrightarrow>
    \<exists>t'. inode_read_loop sb inode (of_nat sec) j (of_nat i) (of_nat io) (of_nat len) (of_nat bo) iblock buf t =
      Some (t', of_nat (len - r), take bo buf @ take r (drop ((sec + i) * (4 * n) + io) (ext2_bytes D n (dbp inode) kb)) @ drop (bo + r) buf) \<and>
    vheap s L t'"
proof (induction j arbitrary: i io len bo iblock buf t r)
  case 0
  then show ?case by auto
next
  case (Suc j)
  let ?C = "ext2_bytes D n (dbp inode) kb" and ?bs = "4 * n"
  have n: "0 < n" "4 * n < 2 ^ 32" using P pointer_disk_bound [OF P] by (simp_all add: pointer_disk_def)
  show ?case
  proof (cases "len = 0")
    case True
    then show ?thesis using Suc.prems by auto
  next
    case False
    define q where "q = min (?bs - io) len"
    have q: "0 < q" "q \<le> len" "io + q \<le> ?bs" "q < 2 ^ 32" using False Suc.prems(2,3) n by (auto simp: q_def)
    have ub: "unat (of_nat len :: u32) = len" "unat (of_nat q :: u32) = q" "unat (of_nat io :: u32) = io"
      "unat (of_nat bo :: u32) = bo"
      using Suc.prems(2,3,5,6) n q by (simp_all add: unat_of_nat32)
    have lz: "(of_nat len :: u32) \<noteq> 0" using False ub(1) by (metis unat_0)
    have "(sec + i) * ?bs < kb * ?bs" using Suc.prems(7) False by linarith
    then have si: "sec + i < kb" by simp
    obtain b where b: "file_block D ?bs (dbp inode) (sec + i) = Some b" "b \<noteq> 0" "(unat b + 1) * ?bs \<le> length D"
      "ext2_block D n (dbp inode) (sec + i) = block_of D ?bs (unat b)" using ext2_blocksE [OF B si] by blast
    obtain t1 where t1: "ext2fs_inode_block sb inode (of_nat ((sec + i) * ?bs)) t = Some (t1, b)" "vheap s L t1"
      using inode_block_heap [OF Suc.prems(1) k bc P B si b(1)] by blast
    have sbt: "sbs t = sbs s" "sbs t1 = sbs s" using vheap_keeps(1) Suc.prems(1) t1(2) by blast+
    have bz: "ucast (block_size (super (sbs t sb))) = (of_nat ?bs :: u32)" using per_block(1) [OF P] sbt by simp
    have pos: "(ucast ((of_nat i + of_nat sec) * ucast (of_nat ?bs :: u32) :: u64) :: u32) = of_nat ((sec + i) * ?bs)"
    proof -
      have "(ucast (of_nat ?bs :: u32) :: u64) = of_nat ?bs" unfolding ucast_nat by (simp only: unat_of_nat32 [OF n(2)])
      then have "(of_nat i + of_nat sec) * ucast (of_nat ?bs :: u32) = (of_nat ((sec + i) * ?bs) :: u64)" by (simp add: algebra_simps)
      then show ?thesis by (simp only: ucast_of_nat_down)
    qed
    have rem: "(if (of_nat ?bs :: u32) - of_nat io < of_nat len then of_nat ?bs - of_nat io else of_nat len) = (of_nat q :: u32)"
    proof -
      have "(of_nat ?bs :: u32) - of_nat io = of_nat (?bs - io)" using Suc.prems(2) by (simp add: of_nat_diff)
      moreover have "?bs - io < 2 ^ 32" using n(2) by simp
      ultimately show ?thesis unfolding q_def by (simp only: of_nat_min [OF _ Suc.prems(3)])
    qed
    have rd: "sb_read_block sb (ucast b) iblock t1 = Some (0, block_of D ?bs (unat b))"
      using read_pointers(1) [OF P b(3) Suc.prems(4)] sbt by (simp add: sb_read_block_def)
    have lb: "length (block_of D ?bs (unat b)) = ?bs" by (rule length_block_of [OF b(3)])
    define pc where "pc = take q (drop io (block_of D ?bs (unat b)))"
    have pc: "length pc = q" "pc = take q (drop ((sec + i) * ?bs + io) ?C)"
      using q(3) lb unfolding pc_def b(4) [symmetric] ext2_piece [OF B si q(3), symmetric] by (simp_all add: b(4))
    let ?buf = "take bo buf @ pc @ drop (bo + q) buf"
    have put: "put_at buf bo pc = Some ?buf" using put_at_piece [of bo pc buf] pc(1) q(2) Suc.prems(6) by simp
    have step: "inode_read_loop sb inode (of_nat sec) (Suc j) (of_nat i) (of_nat io) (of_nat len) (of_nat bo) iblock buf t =
      inode_read_loop sb inode (of_nat sec) j (of_nat (i + 1)) (of_nat 0) (of_nat (len - q)) (of_nat (bo + q)) (block_of D ?bs (unat b)) ?buf t1"
      using q(2,3) lb unfolding inode_read_loop.simps Let_def bz rem pos if_not_P [OF lz] t1(1)
        Option.bind.simps prod.case if_not_P [OF b(2)] rd ub pc_def [symmetric] put
      by (simp add: of_nat_diff add.commute)
    define r' where "r' = min (len - q) (j * ?bs - 0)"
    have lbuf: "length ?buf = length buf" using pc(1) q(2) Suc.prems(6) by simp
    have room: "(sec + (i + 1)) * ?bs + 0 + (len - q) \<le> kb * ?bs"
    proof (cases "q = len")
      case True
      then show ?thesis using si by (simp add: Suc_le_eq del: mult_Suc)
    next
      case False
      then have "q = ?bs - io" by (auto simp: q_def)
      then show ?thesis using Suc.prems(2,7) q(2) by (simp add: algebra_simps)
    qed
    obtain t' where t': "inode_read_loop sb inode (of_nat sec) j (of_nat (i + 1)) (of_nat 0) (of_nat (len - q)) (of_nat (bo + q)) (block_of D ?bs (unat b)) ?buf t1 =
      Some (t', of_nat (len - q - r'), take (bo + q) ?buf @ take r' (drop ((sec + (i + 1)) * ?bs + 0) ?C) @ drop (bo + q + r') ?buf)"
      "vheap s L t'"
    proof -
      have "0 < ?bs" "len - q < 2 ^ 32" "length ?buf < 2 ^ 32" "bo + q + (len - q) \<le> length ?buf"
        unfolding lbuf using n q(2) Suc.prems(3,5,6) by simp_all
      from Suc.IH [OF t1(2) this(1,2) lb this(3,4) room r'_def] show thesis using that by blast
    qed
    have r: "r = q + r'"
      unfolding Suc.prems(8) r'_def q_def using Suc.prems(2) by (auto simp: min_def)
    have tail: "pc @ take r' (drop ((sec + (i + 1)) * ?bs + 0) ?C) @ ys =
      take r (drop ((sec + i) * ?bs + io) ?C) @ ys" for ys
    proof (cases "r' = 0")
      case True
      then show ?thesis by (simp only: r pc(2)) simp
    next
      case False
      then have "q = ?bs - io" unfolding r'_def q_def by (auto simp: min_def split: if_splits)
      then have "drop ((sec + (i + 1)) * ?bs + 0) ?C = drop q (drop ((sec + i) * ?bs + io) ?C)"
        using Suc.prems(2) by (simp add: algebra_simps)
      then show ?thesis by (simp only: r pc(2) take_add append_assoc)
    qed
    have e: "take (bo + q) ?buf = take bo buf @ pc" "drop (bo + q + r') ?buf = drop (bo + r) buf" "len - q - r' = len - r"
      using pc(1) q(2) Suc.prems(6) by (simp_all add: r ac_simps)
    show ?thesis unfolding step t'(1) e append_assoc tail using t'(2) by blast
  qed
qed

text \<open>How many bytes a request of \<open>len\<close> gets: the number of blocks is taken from its length alone, so one
  that starts inside of a block and reaches into one block more ends at the border before.\<close>

definition ext2_reach :: "nat \<Rightarrow> nat \<Rightarrow> nat \<Rightarrow> nat" where
  "ext2_reach bs off len = (if len = 0 then 0 else min len (((len - 1) div bs + 1) * bs - off mod bs))"

lemma ext2_reach_aligned: "off mod bs = 0 \<Longrightarrow> 0 < bs \<Longrightarrow> ext2_reach bs off len = len"
proof -
  assume "off mod bs = 0" "0 < bs"
  moreover have "len - 1 < ((len - 1) div bs + 1) * bs" if "0 < bs"
    using dividend_less_div_times [OF that, of "len - 1"] by (simp add: algebra_simps)
  ultimately show ?thesis by (auto simp: ext2_reach_def min_def)
qed

lemma inode_read_bytes:
  assumes h: "vheap s L t" and k: "L c = Some (X, Suc (Suc m))" and bc: "block_cache s c (of_nat (4 * n))"
    and P: "pointer_disk (super (sbs s sb)) D n" and B: "ext2_blocks D n (dbp inode) kb"
    and len: "off + len \<le> kb * (4 * n)" "len \<le> length buf" "length buf < 2 ^ 32"
  shows "\<exists>t'. ext2fs_inode_read sb inode (of_nat off) (of_nat len) buf t =
      Some (t', of_nat (ext2_reach (4 * n) off len),
        take (ext2_reach (4 * n) off len) (drop off (ext2_bytes D n (dbp inode) kb)) @ drop (ext2_reach (4 * n) off len) buf) \<and>
    vheap s L t'"
proof -
  let ?bs = "4 * n" and ?r = "ext2_reach (4 * n) off len"
  have n: "0 < n" "?bs < 2 ^ 32" using P pointer_disk_bound [OF P] by (simp_all add: pointer_disk_def)
  obtain t1 a where a: "vmalloc (of_nat ?bs) t = Some (t1, a)" "a \<noteq> 0"
    "vheap s (L(c \<mapsto> (insert a X, Suc m))) t1" "length (fresh_buffer t1 a (of_nat ?bs)) = unat (of_nat ?bs :: u32)"
    "\<And>t2. vheap s (L(c \<mapsto> (insert a X, Suc m))) t2 \<Longrightarrow> \<exists>t'. vfree a t2 = Some t' \<and> vheap s L t'"
    using borrow_block [OF h k bc] by blast
  have k1: "(L(c \<mapsto> (insert a X, Suc m))) c = Some (insert a X, Suc m)" by simp
  have fb: "length (fresh_buffer t1 a (of_nat ?bs)) = ?bs" using a(4) n(2) by (simp only: unat_of_nat32)
  have bz: "ucast (block_size (super (sbs t sb))) = (of_nat ?bs :: u32)" using per_block(1) [OF P] vheap_keeps(1) [OF h] by simp
  have nz: "(of_nat ?bs :: u32) \<noteq> 0" using n unat_of_nat32 [OF n(2)] by (metis mult_eq_0_iff not_gr_zero unat_0 zero_neq_numeral)
  have kb: "kb * ?bs < 2 ^ 32" using B by (simp only: ext2_blocks_def)
  then have ol: "off < 2 ^ 32" "len < 2 ^ 32" using len(1) by simp_all
  have dr: "div_rem (of_nat x) (of_nat ?bs) = Some (of_nat (x div ?bs), of_nat (x mod ?bs))" if "x < 2 ^ 32" for x
    unfolding div_rem_def arch_div_eq [OF nz] unat_of_nat32 [OF n(2)] using that by (simp add: unat_of_nat_lt)
  define w where "w = unat ((of_nat len :: u32) - 1)"
  have w: "w < 2 ^ 32" "(ucast ((of_nat len :: u32) - 1) :: u64) = of_nat w" "0 < len \<Longrightarrow> w = len - 1"
  proof -
    show "w < 2 ^ 32" "(ucast ((of_nat len :: u32) - 1) :: u64) = of_nat w" unfolding w_def ucast_nat by (rule unat_lt32 refl)+
    assume "0 < len"
    then have "(of_nat len :: u32) - 1 = of_nat (len - 1)" by (simp add: of_nat_diff)
    then show "w = len - 1" unfolding w_def using ol(2) by (simp only: unat_of_nat32)
  qed
  define j where "j = w div ?bs + 1"
  have "w div ?bs < 2 ^ 32" using w(1) by (rule le_less_trans [OF div_le_dividend])
  then have "w div ?bs + 1 < 2 ^ 64" by simp
  then have "unat (of_nat (w div ?bs + 1) :: u64) = j" unfolding j_def by (intro unat_of_nat_lt) simp
  then have uj: "unat (of_nat (w div ?bs) + 1 :: u64) = j" by (simp only: of_nat_add of_nat_1)
  have r: "?r = min len (j * ?bs - off mod ?bs)" using w(3) by (cases "len = 0") (simp_all add: ext2_reach_def j_def)
  have md: "off mod ?bs < ?bs" using n by simp
  have pos: "(off div ?bs + 0) * ?bs + off mod ?bs = off" by (simp only: add_0_right div_mult_mod_eq)
  then have "(off div ?bs + 0) * ?bs + off mod ?bs + len \<le> kb * ?bs" using len(1) by linarith
  from inode_read_loop_bytes [OF k1 bc P B a(3) md ol(2) fb len(3) _ this r, of 0] len(2) obtain t2 where
    t2: "inode_read_loop sb inode (of_nat (off div ?bs)) j 0 (of_nat (off mod ?bs)) (of_nat len) 0
      (fresh_buffer t1 a (of_nat ?bs)) buf t1 =
      Some (t2, of_nat (len - ?r), take ?r (drop off (ext2_bytes D n (dbp inode) kb)) @ drop ?r buf)"
    "vheap s (L(c \<mapsto> (insert a X, Suc m))) t2" unfolding pos by auto
  obtain t' where t': "vfree a t2 = Some t'" "vheap s L t'" using a(5) [OF t2(2)] by blast
  have "(of_nat len :: u32) - of_nat (len - ?r) = of_nat ?r" unfolding r by (simp add: of_nat_diff)
  then have "ext2fs_inode_read sb inode (of_nat off) (of_nat len) buf t =
      Some (t', of_nat ?r, take ?r (drop off (ext2_bytes D n (dbp inode) kb)) @ drop ?r buf)"
    unfolding ext2fs_inode_read_def bz Let_def a(1) Option.bind.simps prod.case if_not_P [OF a(2)] w(2) dr [OF w(1)] dr [OF ol(1)] uj t2(1) t'(1)
    by simp
  with t'(2) show ?thesis by blast
qed

section \<open>Files of ISO 9660\<close>

lemma isofs_read_bytes:
  assumes h: "vheap s L t" and k: "L c = Some (X, Suc m)"
    and bc: "block_cache s c (ucast (block_size (super (sbs s (nsb (fsnodes s nd))))))"
    and D: "disk_of (super (sbs s (nsb (fsnodes s nd)))) D"
    and e: "e = unat (block_size (super (sbs s (nsb (fsnodes s nd))))) * unat (ninode (fsnodes s nd))"
    and len: "0 < len" "e + off + len \<le> length D" "len \<le> length buf" "length buf < 2 ^ 32"
  shows "\<exists>t'. isofs_read nd (of_nat off) (of_nat len) buf t = Some (t', of_nat len, take len (drop (e + off) D) @ drop len buf) \<and>
    vheap s L t'"
proof -
  let ?n = "fsnodes s nd" and ?b = "super (sbs s (nsb (fsnodes s nd)))"
  have "length D < 2 ^ 32" using D unfolding disk_of_def by blast
  then have e32: "e < 2 ^ 32" "len < 2 ^ 32" using len by simp_all
  have "(ucast (block_size ?b) * ninode ?n :: u32) = of_nat e"
    unfolding e ucast_nat by (simp add: of_nat_unat)
  then have "(ucast (ucast (block_size ?b) * ninode ?n :: u32) :: u64) + of_nat off = of_nat (e + off)"
    unfolding ucast_nat using e32(1) by (simp only: unat_of_nat32 of_nat_add)
  moreover have "(ucast (of_nat len :: u32) :: u64) = of_nat len"
    unfolding ucast_nat using e32(2) by (simp only: unat_of_nat32)
  moreover obtain t' where "sb_read_offset (nsb ?n) (of_nat (e + off)) (of_nat len) buf t =
      Some (t', 0, take len (drop (e + off) D) @ drop len buf)" "vheap s L t'"
    using sb_read_offset_heap [OF h k bc D len(1) _ len(3,4), of "e + off"] len(2) by auto
  ultimately show ?thesis
    using vheap_keeps(1,2) [OF h] by (auto simp: isofs_read_def Let_def)
qed

section \<open>Files\<close>

text \<open>The bytes \<open>C\<close> of the file behind a node, from the device \<open>D\<close> of its file system.\<close>

definition file_on :: "vfs \<Rightarrow> u32 \<Rightarrow> u8 list \<Rightarrow> u8 list \<Rightarrow> bool" where
  "file_on s nd D C \<longleftrightarrow>
     (let x = fsnodes s nd; b = super (sbs s (nsb x)); sz = unat (nlength x) in
      nflags x AND FS_FLAGS_MASK \<notin> {FS_CHARDEVICE, FS_BLOCKDEVICE} \<and> length C = sz \<and>
      (case nops x of
         Some Isofs_ops \<Rightarrow> disk_of b D \<and> C = take sz (drop (unat (block_size b) * unat (ninode x)) D)
       | Some Ext2fs_ops \<Rightarrow> (\<exists>n k i. nprivate x = Some i \<and> pointer_disk b D n \<and> ext2_blocks D n (dbp i) k \<and>
           C = take sz (ext2_bytes D n (dbp i) k))
       | _ \<Rightarrow> False))"

definition node_block :: "vfs \<Rightarrow> u32 \<Rightarrow> u16" where
  "node_block s nd = block_size (super (sbs s (nsb (fsnodes s nd))))"

text \<open>A request on an open file. It is cut at the end of the file; on ext2 the loop may deliver less.\<close>

lemma file_read_bytes:
  assumes "file_on s (file_node f) D C" and "vheap s L s" and "L c = Some (X, Suc (Suc m))"
    and "block_cache s c (ucast (node_block s (file_node f)))"
    and "unat (file_length f) = length C" and "unat (file_offset f) = off"
    and "len = min (unat nbytes) (length C - off)" and "0 < len" and "len \<le> length buf" and "length buf < 2 ^ 32"
    and "r = (if nops (fsnodes s (file_node f)) = Some Ext2fs_ops
           then ext2_reach (unat (node_block s (file_node f))) off len else len)"
  shows "\<exists>t. file_read f nbytes buf s = Some (t, of_nat r, take r (drop off C) @ drop r buf) \<and> vheap s L t \<and>
    (off mod unat (node_block s (file_node f)) = 0 \<longrightarrow> r = len)"
proof -
  let ?nd = "file_node f" and ?x = "fsnodes s (file_node f)" and ?b = "super (sbs s (nsb (fsnodes s (file_node f))))"
  have C: "nflags ?x AND FS_FLAGS_MASK \<notin> {FS_CHARDEVICE, FS_BLOCKDEVICE}" "length C = unat (nlength ?x)"
    using assms(1) by (auto simp: file_on_def Let_def)
  have off: "file_offset f = of_nat off" "off + len \<le> length C" "off < 2 ^ 32"
    using assms(6-8) unat_lt32 [of "file_offset f"] by auto
  have fo: "(ucast (file_offset f) :: u64) = of_nat off" unfolding ucast_nat assms(6) ..
  have lt: "len < 2 ^ 32" using assms(9,10) by simp
  have "unat (file_length f - file_offset f) = length C - off"
    using assms(5,6) off(2) by (simp add: unat_minus_le word_le_nat_alt)
  then have "length C - off = unat (file_length f - file_offset f)" by simp
  then have ln: "(if nbytes < file_length f - file_offset f then nbytes else file_length f - file_offset f) = of_nat len"
    unfolding word_less_nat_alt assms(7) by (simp add: min_def)
  have vr: "file_read f nbytes buf s = (case nops ?x of Some ops \<Rightarrow> node_read ops ?nd (of_nat off) (of_nat len) buf s
      | None \<Rightarrow> Some (s, - word_of_int (errno_val ENOTSUP), buf))"
    using C(1) unfolding file_read_def Let_def ln fo vfs_read_def by simp
  show ?thesis
  proof (cases "nops ?x = Some Isofs_ops")
    case True
    then have D: "disk_of ?b D" and Ce: "C = take (unat (nlength ?x)) (drop (unat (block_size ?b) * unat (ninode ?x)) D)"
      using assms(1) by (simp_all add: file_on_def Let_def)
    let ?e = "unat (block_size ?b) * unat (ninode ?x)"
    have "unat (nlength ?x) \<le> length D - ?e" using arg_cong [OF Ce, of length] C(2) by simp
    then have l: "?e + off + len \<le> length D" using off(2) assms(8) C(2) by linarith
    have "take len (drop (?e + off) D) = take len (drop off C)"
      using off(2) C(2) by (subst Ce) (simp add: drop_take min_def ac_simps)
    then show ?thesis
      using isofs_read_bytes [OF assms(2,3) assms(4) [unfolded node_block_def] D refl assms(8) l assms(9,10)] True
      unfolding vr by (auto simp: node_read_def assms(11))
  next
    case False
    then obtain n k i where i: "nops ?x = Some Ext2fs_ops" "nprivate ?x = Some i" "pointer_disk ?b D n" "ext2_blocks D n (dbp i) k"
      "C = take (unat (nlength ?x)) (ext2_bytes D n (dbp i) k)"
      using assms(1) by (auto simp: file_on_def Let_def split: option.splits fs_ops.splits)
    have bs: "unat (node_block s ?nd) = 4 * n" "0 < n" using i(3) by (simp_all add: node_block_def pointer_disk_def)
    have bc: "block_cache s c (of_nat (4 * n))" using assms(4) per_block(1) [OF i(3)] by (simp add: node_block_def)
    have r: "r = ext2_reach (4 * n) off len" using assms(11) i(1) bs by simp
    then have rl: "r \<le> len" by (simp add: ext2_reach_def)
    have "unat (nlength ?x) \<le> k * (4 * n)" using arg_cong [OF i(5), of length] C(2) length_ext2_bytes [OF i(4)] by simp
    then have l: "off + len \<le> k * (4 * n)" using off(2) C(2) by linarith
    have "take r (drop off (ext2_bytes D n (dbp i) k)) = take r (drop off C)"
      using off(2) C(2) rl by (subst i(5)) (simp add: drop_take min_def)
    then show ?thesis
      using inode_read_bytes [OF assms(2,3) bc i(3,4) l assms(9,10)] i(1,2) ext2_reach_aligned [of off "4 * n" len] bs
      unfolding vr by (auto simp: node_read_def ext2fs_read_def r)
  qed
qed

section \<open>Properties\<close>

text \<open>
  C3: an open file of an ISO 9660 or ext2 file system is read from its position: \<^verbatim>\<open>file_read\<close>
  returns the number of bytes delivered, and puts exactly the bytes of the file there into the buffer, as many as
  asked for but not past the end of the file; every block of memory borrowed on the way is given back. On
  ext2 a request that starts inside of a block is cut off at a border of blocks.
\<close>

theorem file_read_delivers:
  assumes "file_on s (file_node f) D C" and "vheap s L s" and "L c = Some (X, Suc (Suc m))"
    and "block_cache s c (ucast (node_block s (file_node f)))"
    and "unat (file_length f) = length C" and "unat (file_offset f) = off"
    and "len = min (unat nbytes) (length C - off)" and "0 < len" and "len \<le> length buf" and "length buf < 2 ^ 32"
    and "r = (if nops (fsnodes s (file_node f)) = Some Ext2fs_ops
           then ext2_reach (unat (node_block s (file_node f))) off len else len)"
  shows "\<exists>t. file_read f nbytes buf s = Some (t, of_nat r, take r (drop off C) @ drop r buf) \<and> vheap s L t \<and>
    (off mod unat (node_block s (file_node f)) = 0 \<longrightarrow> r = len)"
  using assms by (rule file_read_bytes)

text \<open>A file of 1000 bytes in block 1 of the demonstration device, with the two free objects of its slab.\<close>

definition demo_file_vfs :: vfs where
  "demo_file_vfs = demo_vfs\<lparr>fsnodes := (\<lambda>_. zero_node\<lparr>nops := Some Ext2fs_ops, nlength := 1000,
     nprivate := Some \<lparr>size_lower = 1000, dbp = 1 # replicate 14 0\<rparr>\<rparr>)\<rparr>"

definition demo_file :: open_file where
  "demo_file = \<lparr>file_addr = 0x400, file_name = 0x500, file_node = 0x300, file_flags = 0, file_offset = 0, file_length = 1000\<rparr>"

lemma demo_vheap: "vslub s = demo_heap \<Longrightarrow> vheap s [Boot_cache \<mapsto> ({}, 2)] s"
proof -
  have wf: "wf_cache demo_heap demo_slab_family Boot_cache [16] [] (\<lambda>_. [0x10000, 0x10800])"
    using demo_slab by (simp add: wf_cache_def slab_counts_def demo_heap_def)
  have "phys_to_page 0x10000 = 16" "phys_to_page 0x10800 = 16" "in_map 16"
    by (simp_all add: in_map_def phys_to_page_def phys_to_pfn_def page_num_def PAGE_SHIFT_def)
  then have "slab_state Boot_cache {} 2 demo_heap demo_slab_family [16] [] (\<lambda>_. [0x10000, 0x10800])"
    using wf by (simp add: slab_state_def free_objects_def on_slab_def obj_head_def demo_heap_def demo_slab_def)
  then have "heap_inv (heap_layout demo_heap) [Boot_cache \<mapsto> ({}, 2)] demo_heap"
    unfolding heap_inv_def
    by (intro conjI refl exI [of _ demo_slab_family] exI [of _ "\<lambda>_. [16]"] exI [of _ "\<lambda>_. []"]
      exI [of _ "\<lambda>_ _. [0x10000, 0x10800]"]) (simp add: demo_heap_def demo_slab_def split: if_splits)
  then show "vslub s = demo_heap \<Longrightarrow> vheap s [Boot_cache \<mapsto> ({}, 2)] s" by (simp add: vheap_def)
qed

lemma demo_block_cache: "vslub s = demo_heap \<Longrightarrow> block_cache s Boot_cache 1024"
  using demo_heap_cache [of 1024] by (simp add: block_cache_def serves_def) (simp add: demo_heap_def demo_slab_def)

theorem file_read_delivers_witness:
  "\<exists>t. file_read demo_file 2000 (replicate 2000 0) demo_file_vfs =
    Some (t, 1000, take 1000 (drop 1024 demo_disk) @ replicate 1000 0)"
proof -
  have sl: "vslub demo_file_vfs = demo_heap" by (simp add: demo_file_vfs_def demo_vfs_def)
  have nb: "node_block demo_file_vfs (file_node demo_file) = 1024"
    by (simp add: node_block_def demo_file_vfs_def demo_vfs_def demo_sb_def)
  let ?C = "take 1000 (ext2_bytes demo_disk 256 (1 # replicate 14 0) 1)"
  have b: "block_of demo_disk 1024 1 = drop 1024 demo_disk" by (simp add: block_of_def) (simp add: demo_sb(2))
  have e: "ext2_bytes demo_disk 256 (1 # replicate 14 0) 1 = drop 1024 demo_disk"
    by (simp add: ext2_bytes_def ext2_block_def file_block_def b [unfolded One_nat_def])
  have "ext2_blocks demo_disk 256 (1 # replicate 14 0) 1"
    by (simp add: ext2_blocks_def file_block_def demo_sb(2))
  moreover have "length ?C = 1000" unfolding e by (simp add: demo_sb(2))
  ultimately have f: "file_on demo_file_vfs (file_node demo_file) demo_disk ?C"
    using demo_pointers unfolding file_on_def Let_def
    by (simp add: demo_file_vfs_def demo_vfs_def zero_node_def FS_CHARDEVICE_def FS_BLOCKDEVICE_def)
      (rule exI [of _ 256], simp, rule exI [of _ 1], simp)
  have C: "?C = take 1000 (drop 1024 demo_disk)" "length ?C = 1000" unfolding e by (simp_all add: demo_sb(2))
  have L: "[Boot_cache \<mapsto> ({}, 2)] Boot_cache = Some ({} :: u32 set, Suc (Suc 0))" by simp
  have bc: "block_cache demo_file_vfs Boot_cache (ucast (node_block demo_file_vfs (file_node demo_file)))"
    unfolding nb using demo_block_cache [OF sl] by simp
  have "nops (fsnodes demo_file_vfs (file_node demo_file)) = Some Ext2fs_ops" "ext2_reach 1024 0 1000 = 1000"
    by (simp_all add: demo_file_vfs_def ext2_reach_def)
  then have "\<exists>t. file_read demo_file 2000 (replicate 2000 0) demo_file_vfs =
    Some (t, of_nat 1000, take 1000 (drop 0 ?C) @ drop 1000 (replicate 2000 0))"
    using file_read_delivers [OF f demo_vheap [OF sl] L bc _ refl refl _ _ _ refl, of 2000 "replicate 2000 0"] C(2) nb
    by (simp add: demo_file_def) blast
  then show ?thesis unfolding C(1) by simp
qed

end
