(* ===== verification/FileOpen.thy ===== *)
theory FileOpen
  imports FileRead
begin

text \<open>
  Opening a file of an ISO 9660 file system by its path: the lookup walks the tree, asks the file system for the
  last name, which searches the directory on the device and creates a node, and the open file that results
  is read with exactly the bytes that the directory record names.
\<close>

section \<open>Creating a node\<close>

text \<open>The state after a node was put at \<open>a\<close>, with the allocator \<open>m\<close>.\<close>

definition with_node :: "vfs \<Rightarrow> slub \<Rightarrow> u32 \<Rightarrow> fs_node \<Rightarrow> vfs" where
  "with_node s m a x = s\<lparr>vslub := m, fsnodes := (fsnodes s)(a := x), vtree := tree_node_init a (vtree s)\<rparr>"

lemma fs_node_alloc_run:
  assumes "cache_alloc (Cache_at (fs_node_cache s)) s = Some (s\<lparr>vslub := m\<rparr>, a)" and "a \<noteq> 0" and "length name \<le> 64"
  shows "fs_node_alloc name s = Some (with_node s m a (zero_node\<lparr>nname := name\<rparr>), a)"
  using assms by (auto simp: fs_node_alloc_def cache_alloc_def with_node_def upd_node_def bind_eq_Some_conv)

text \<open>The node of a directory record.\<close>

definition record_node :: "u32 \<Rightarrow> u8 list \<Rightarrow> iso_record \<Rightarrow> fs_node" where
  "record_node sb name r = zero_node\<lparr>nname := name, nops := Some Isofs_ops, nsb := sb, ninode := r_extent r,
     nlength := r_size r, nflags := (if r_flags r AND 2 \<noteq> 0 then FS_DIRECTORY else 0)\<rparr>"

lemma record_fields:
  "isonum_733 (pre @ record_bytes r @ rest) (length pre + dent_extent) = Some (r_extent r)"
  "isonum_733 (pre @ record_bytes r @ rest) (length pre + dent_size) = Some (r_size r)"
  "byte_at (pre @ record_bytes r @ rest) (length pre + dent_flags) = Some (r_flags r)"
proof -
  obtain h where h: "record_bytes r = h @ r_name r @ r_tail r" "length h = 33" "h ! 25 = r_flags r"
    "take 4 (drop 2 h) = le32_bytes (r_extent r)" "take 4 (drop 10 h) = le32_bytes (r_size r)"
    using record_bytes_header by blast
  have "take 4 (drop (length pre + k) (pre @ record_bytes r @ rest)) = take 4 (drop k h)" if "k \<le> 10" for k
    unfolding h(1) using h(2) that by simp
  from this [of 2] this [of 10]
  show "isonum_733 (pre @ record_bytes r @ rest) (length pre + dent_extent) = Some (r_extent r)"
    "isonum_733 (pre @ record_bytes r @ rest) (length pre + dent_size) = Some (r_size r)"
    using h(4,5) by (simp_all add: isonum_733_def le32_at_bytes dent_extent_def dent_size_def)
  show "byte_at (pre @ record_bytes r @ rest) (length pre + dent_flags) = Some (r_flags r)"
    unfolding h(1) using h(2,3) by (simp add: dent_flags_def byte_at_header)
qed

lemma isofs_alloc_dent_run:
  assumes "cache_alloc (Cache_at (fs_node_cache s)) s = Some (s\<lparr>vslub := m\<rparr>, a)" and "a \<noteq> 0" and "length name \<le> 64"
  shows "isofs_alloc_dent sb (pre @ record_bytes r @ rest) (length pre) name s =
    Some (with_node s m a (record_node sb name r), a)"
  unfolding isofs_alloc_dent_def isofs_alloc_node_def fs_node_alloc_run [OF assms] record_fields Option.bind.simps
    prod.case if_not_P [OF assms(2)] Let_def
  by (simp add: upd_node_def with_node_def record_node_def zero_node_def)

section \<open>Directories\<close>

text \<open>The directory behind the node \<open>nd\<close> is one block of the device \<open>D\<close>, with the records \<open>rs\<close>.\<close>

definition directory_on :: "vfs \<Rightarrow> u32 \<Rightarrow> u8 list \<Rightarrow> iso_record list \<Rightarrow> bool" where
  "directory_on s nd D rs \<longleftrightarrow>
     (let x = fsnodes s nd; b = super (sbs s (nsb x)); bs = unat (block_size b) in
      nops x = Some Isofs_ops \<and> disk_of b D \<and> nlength x = ucast (block_size b) \<and>
      (unat (ninode x) + 1) * bs \<le> length D \<and> (\<forall>r \<in> set rs. wf_record r) \<and>
      (\<exists>post. block_of D bs (unat (ninode x)) = concat (map record_bytes rs) @ 0 # post))"

text \<open>The record that a name finds: the first whose shown name the name begins with.\<close>

definition finds_record :: "u8 list \<Rightarrow> iso_record list \<Rightarrow> iso_record \<Rightarrow> bool" where
  "finds_record name rs r \<longleftrightarrow> find (name_matches name) rs = Some r"

lemma first_record_found:
  "find (name_matches name) rs = Some r \<Longrightarrow>
   \<exists>us vs. rs = us @ r # vs \<and> first_record name rs d = Some (d + length (concat (map record_bytes us)))"
proof (induction rs arbitrary: d)
  case (Cons q rs)
  show ?case
  proof (cases "name_matches name q")
    case True
    then show ?thesis using Cons.prems by (intro exI [of _ "[]"] exI [of _ rs]) simp
  next
    case False
    then have "find (name_matches name) rs = Some r" using Cons.prems by simp
    from Cons.IH [OF this, of "d + record_len q"] obtain us vs where
      "rs = us @ r # vs" "first_record name rs (d + record_len q) = Some (d + record_len q + length (concat (map record_bytes us)))"
      by blast
    then show ?thesis using False by (intro exI [of _ "q # us"] exI [of _ vs]) (simp add: length_record)
  qed
qed simp

lemma read_directory:
  assumes D: "disk_of b D" and sz: "sz = (ucast (block_size b) :: u32)" and k: "(unat k + 1) * unat (block_size b) \<le> length D"
    and buf: "length buf = unat (block_size b)"
  shows "superblock_read_blocks b (ucast (k :: u32)) (ucast (drop_bit (unat (block_logs b)) sz)) buf =
    Some (0, block_of D (unat (block_size b)) (unat k))"
proof -
  obtain bl where bl: "block_logs b = of_nat bl" "bl < 16" "block_size b = 2 ^ bl" using D unfolding disk_of_def by blast
  have logs: "unat (block_logs b) = bl" using bl(1,2) unat_of_nat_lt [of bl, where 'a = 16] by simp
  have "(2::nat) ^ bl < 2 ^ 32" using bl(2) by (intro power_strict_increasing) simp_all
  then have "unat sz = 2 ^ bl" unfolding sz ucast_nat bl(3) unat_u16_pow [OF bl(2)] by (rule unat_of_nat32)
  then have "unat (drop_bit bl sz) = 1" unfolding unat_drop_bit_eq drop_bit_nat_def by simp
  then have one: "drop_bit bl sz = 1" by (intro unsigned_word_eqI) (simp only: unsigned_1)
  have "superblock_read_block b (of_nat (unat k)) buf =
    Some (0, block_of D (unat (block_size b)) (unat k))"
    using read_block_disk [OF D k buf] by (simp add: block_of_def)
  then have "superblock_read_block b (ucast k) buf = Some (0, block_of D (unat (block_size b)) (unat k))"
    by (simp only: ucast_nat)
  then show ?thesis by (simp add: superblock_read_blocks_def logs one)
qed

text \<open>The search of a directory on the device: the node of the record, and nothing else kept.\<close>

lemma with_node_simps [simp]:
  "vslub (with_node s m a x) = m" "sbs (with_node s m a x) = sbs s" "fsnodes (with_node s m a x) = (fsnodes s)(a := x)"
  "(with_node s m a x)\<lparr>vslub := m'\<rparr> = with_node s m' a x" "with_node (s\<lparr>vslub := m'\<rparr>) m a x = with_node s m a x"
  "fs_node_cache (with_node s m a x) = fs_node_cache s" "vtree (with_node s m a x) = tree_node_init a (vtree s)"
  by (simp_all add: with_node_def)

lemma isofs_finddir_run:
  assumes h: "heap_state s K (Suc (Suc n)) H" and K: "Cache_at (fs_node_cache s) \<in> K" "c \<in> K"
    and bc: "block_cache s c (nlength (fsnodes s nd))"
    and dir: "directory_on s nd D rs" and r: "find (name_matches name) rs = Some r" and nm: "0 \<notin> set name" "length name \<le> 64"
  shows "\<exists>m a. isofs_finddir nd name s = Some (with_node s m a (record_node (nsb (fsnodes s nd)) name r), a) \<and> a \<noteq> 0 \<and>
    (Cache_at (fs_node_cache s), a) \<notin> H \<and> heap_layout m = heap_layout (vslub s) \<and>
    heap_state (with_node s m a (record_node (nsb (fsnodes s nd)) name r)) K n (insert (Cache_at (fs_node_cache s), a) H)"
proof -
  let ?x = "fsnodes s nd" and ?b = "super (sbs s (nsb (fsnodes s nd)))" and ?cn = "Cache_at (fs_node_cache s)"
  let ?node = "record_node (nsb ?x) name r"
  have D: "disk_of ?b D" and sz: "nlength ?x = ucast (block_size ?b)" and k: "(unat (ninode ?x) + 1) * unat (block_size ?b) \<le> length D"
    and wf: "\<forall>r \<in> set rs. wf_record r" using dir by (simp_all add: directory_on_def Let_def)
  obtain post where post: "block_of D (unat (block_size ?b)) (unat (ninode ?x)) = concat (map record_bytes rs) @ 0 # post"
    using dir by (auto simp: directory_on_def Let_def)
  obtain bl where bl: "block_size ?b = 2 ^ bl" "bl < 16" using D unfolding disk_of_def by blast
  obtain m1 d where d: "cache_alloc c s = Some (s\<lparr>vslub := m1\<rparr>, d)" "d \<noteq> 0" "(c, d) \<notin> H"
    "heap_layout m1 = heap_layout (vslub s)" "heap_state (s\<lparr>vslub := m1\<rparr>) K (Suc n) (insert (c, d) H)"
    using take_object [OF h K(2)] by blast
  obtain m2 a where a: "cache_alloc ?cn (s\<lparr>vslub := m1\<rparr>) = Some (s\<lparr>vslub := m2\<rparr>, a)" "a \<noteq> 0" "(?cn, a) \<notin> insert (c, d) H"
    "heap_layout m2 = heap_layout (vslub s)" "heap_state (s\<lparr>vslub := m2\<rparr>) K n (insert (?cn, a) (insert (c, d) H))"
    using take_object [OF d(5) K(1)] d(4) by auto
  have h3: "heap_state (with_node s m2 a ?node) K n (insert (c, d) (insert (?cn, a) H))"
    using a(5) by (simp add: heap_state_cong [of "with_node s m2 a ?node" "s\<lparr>vslub := m2\<rparr>"] insert_commute)
  have "(c, d) \<notin> insert (?cn, a) H" using d(3) a(3) by auto
  from give_object [OF h3 this] obtain m3 where m3: "vfree d (with_node s m2 a ?node) = Some (with_node s m3 a ?node)"
    "heap_layout m3 = heap_layout (vslub s)" "heap_state (with_node s m3 a ?node) K n (insert (?cn, a) H)"
    using a(4) by auto
  have vm: "vmalloc (nlength ?x) s = Some (s\<lparr>vslub := m1\<rparr>, d)"
    using serves_alloc [of s c "nlength ?x"] bc d(1) by (simp add: block_cache_def)
  have "(2::nat) ^ bl < 2 ^ 32" using bl(2) by (intro power_strict_increasing) simp_all
  then have us: "unat (nlength ?x) = unat (block_size ?b)"
    unfolding sz ucast_nat bl(1) unat_u16_pow [OF bl(2)] by (rule unat_of_nat32)
  have "block_cache (s\<lparr>vslub := m1\<rparr>) c (nlength ?x)" using bc block_cache_layout [of "s\<lparr>vslub := m1\<rparr>" s] d(4) by simp
  then have lb: "length (fresh_buffer (s\<lparr>vslub := m1\<rparr>) d (nlength ?x)) = unat (block_size ?b)"
    using serves_size [of "s\<lparr>vslub := m1\<rparr>" c "nlength ?x"] us by (simp add: block_cache_def fresh_buffer_def)
  note rd = read_directory [OF D sz k lb, unfolded post]
  obtain us vs where uv: "rs = us @ r # vs" "first_record name rs 0 = Some (length (concat (map record_bytes us)))"
    using first_record_found [OF r, of 0] by auto
  have nz: "(ucast (block_size ?b) :: u32) \<noteq> 0"
    using us sz by (metis bl power_not_zero unat_0 unat_u16_pow zero_neq_numeral)
  have fl: "finddir_loop name (concat (map record_bytes rs) @ 0 # post) (block_size ?b) (nlength ?x) 0 0 =
      Some (Some (length (concat (map record_bytes us))))"
    using isofs_finddir_first [OF wf nm(1) nz] uv(2) unfolding sz by simp
  have buf: "concat (map record_bytes rs) @ 0 # post =
    concat (map record_bytes us) @ record_bytes r @ (concat (map record_bytes vs) @ 0 # post)" by (simp add: uv(1))
  have "cache_alloc (Cache_at (fs_node_cache (s\<lparr>vslub := m1\<rparr>))) (s\<lparr>vslub := m1\<rparr>) = Some ((s\<lparr>vslub := m1\<rparr>)\<lparr>vslub := m2\<rparr>, a)"
    using a(1) by simp
  note ad = isofs_alloc_dent_run [OF this a(2) nm(2)]
  have "isofs_finddir nd name s = Some (with_node s m3 a ?node, a)"
    unfolding isofs_finddir_def Let_def vm Option.bind.simps prod.case if_not_P [OF d(2)] rd
    by (simp add: fl) (simp add: buf ad m3(1))
  then show ?thesis using a(2,3) m3(2,3) by blast
qed

section \<open>Lookup\<close>

lemma lookup_parts_append:
  "lookup_parts ps r s = Some (s', r', ok) \<Longrightarrow> lookup_parts (ps @ qs) r s = lookup_parts qs r' s'"
  by (induction ps r s rule: lookup_parts.induct) (auto simp: bind_eq_Some_conv split: if_splits bind_splits)

lemma lookup_fast_none:
  assumes wf: "wf_tree (vtree s) T" and cs: "T n = Some cs" "0 \<notin> set cs" and no: "\<forall>c \<in> set cs. nname (fsnodes s c) \<noteq> p"
  shows "vfs_lookup_tree_fast n p s = Some 0"
proof -
  have "child_family T (Children n) = Some (map Siblings cs)" using cs(1) by (simp add: child_family_def)
  then have "ring (tlinks (vtree s)) (Children n) (map Siblings cs)"
    using wf wf_ring [of "tlinks (vtree s)" "child_family T"] by (simp add: wf_tree_def)
  then have l: "linked (tlinks (vtree s)) (Children n) (map Siblings cs) (Children n)" by (simp add: ring_def)
  have par: "\<forall>c \<in> set cs. parent (vtree s) c = Some n" using wf cs(1) by (auto simp: wf_tree_def)
  have "find (\<lambda>c. nname (fsnodes s c) = p) cs = None" using no by (simp add: find_None_iff)
  with lookup_fast_find [OF l par cs(2) refl, of p] show ?thesis
    by (simp add: vfs_lookup_tree_fast_def tree_first_child_or_null_def Let_def)
qed

text \<open>The last part of a path is not in the tree yet, and the file system makes a node for it.\<close>

lemma lookup_new:
  assumes wf: "wf_tree (vtree s) T" and z: "\<forall>n cs. T n = Some cs \<longrightarrow> 0 \<notin> set cs" "\<forall>n. parent (vtree s) n \<noteq> Some 0"
    and ps: "resolve s T ps (rnode r) = Some nd" "rnode r \<noteq> 0" "nd \<noteq> 0"
    and cs: "T nd = Some cs" "\<forall>c \<in> set cs. nname (fsnodes s c) \<noteq> name" and nm: "name \<noteq> str ''.''" "name \<noteq> str ''..''"
    and fs: "nops (fsnodes s nd) = Some Isofs_ops" "isofs_finddir nd name s = Some (t, a)" "a \<noteq> 0"
  shows "\<exists>q. lookup_parts (ps @ [name]) r s = Some (t\<lparr>vtree := tree_node_insert a nd (vtree t)\<rparr>, r\<lparr>rnode := a, rpath := q\<rparr>, ok)"
proof -
  obtain q where q: "lookup_parts ps r s = Some (s, r\<lparr>rnode := nd, rpath := q\<rparr>, ok)"
    using lookup_parts_resolve [OF wf z ps(2,1)] by blast
  have "vfs_lookup_tree_node nd name s = Some 0"
    using lookup_fast_none [OF wf cs(1) _ cs(2)] z(1) cs(1) nm by (simp add: vfs_lookup_tree_node_def)
  then have "lookup_parts [name] (r\<lparr>rnode := nd, rpath := q\<rparr>) s =
    Some (t\<lparr>vtree := tree_node_insert a nd (vtree t)\<rparr>, r\<lparr>rnode := a, rpath := name\<rparr>, ok)"
    using ps(3) fs by (simp add: vfs_lookup_tree_slow_def vfs_finddir_def)
  then show ?thesis using lookup_parts_append [OF q, of "[name]"] by auto
qed

section \<open>Opening\<close>

text \<open>The state in which the new node is linked behind the directory.\<close>

definition opened :: "vfs \<Rightarrow> slub \<Rightarrow> u32 \<Rightarrow> u32 \<Rightarrow> fs_node \<Rightarrow> vfs" where
  "opened s m a nd x = (with_node s m a x)\<lparr>vtree := tree_node_insert a nd (tree_node_init a (vtree s))\<rparr>"

lemma opened_simps [simp]:
  "vslub (opened s m a nd x) = m" "sbs (opened s m a nd x) = sbs s" "fsnodes (opened s m a nd x) = (fsnodes s)(a := x)"
  "(opened s m a nd x)\<lparr>vslub := m'\<rparr> = opened s m' a nd x" "opened (s\<lparr>vslub := m'\<rparr>) m a nd x = opened s m a nd x"
  "vtree (opened s m a nd x) = tree_node_insert a nd (tree_node_init a (vtree s))"
  by (simp_all add: opened_def with_node_def)

text \<open>The memory for opening: the caches of \<open>K\<close> serve the structure of a file, the copies of the path and of
  the name, the block of the directory and the node.\<close>

definition open_memory :: "vfs \<Rightarrow> cache_id set \<Rightarrow> u8 list \<Rightarrow> u8 list \<Rightarrow> u32 \<Rightarrow> bool" where
  "open_memory s K path name nd \<longleftrightarrow>
     Cache_at (fs_node_cache s) \<in> K \<and> (\<exists>c \<in> K. serves s c FILE_BYTES) \<and>
     (\<exists>c \<in> K. serves s c (of_nat (length path) + 1)) \<and> (\<exists>c \<in> K. serves s c (of_nat (length name) + 1)) \<and>
     (\<exists>c \<in> K. block_cache s c (nlength (fsnodes s nd)))"

text \<open>A copy or a structure that is kept.\<close>

lemma take_served:
  assumes "heap_state s K (Suc n) H" and "c \<in> K" and "serves s c sz"
  obtains m a where "vmalloc sz s = Some (s\<lparr>vslub := m\<rparr>, a)" and "a \<noteq> 0" and "(c, a) \<notin> H"
    and "heap_layout m = heap_layout (vslub s)" and "heap_state (s\<lparr>vslub := m\<rparr>) K n (insert (c, a) H)"
  using take_object [OF assms(1,2)] serves_alloc [OF assms(3)] by metis

text \<open>The name \<open>name\<close> is not in the tree below the directory \<open>nd\<close>, to which the parts \<open>ps\<close> of the path lead,
  but its record is the first on the device that the name finds.\<close>

definition fresh_path :: "vfs \<Rightarrow> (u32 \<Rightarrow> u32 list option) \<Rightarrow> u8 list \<Rightarrow> u8 list \<Rightarrow> u32 \<Rightarrow> u8 list \<Rightarrow> iso_record \<Rightarrow> bool" where
  "fresh_path s T path name nd D r \<longleftrightarrow>
     wf_tree (vtree s) T \<and> (\<forall>n cs. T n = Some cs \<longrightarrow> 0 \<notin> set cs) \<and> (\<forall>n. parent (vtree s) n \<noteq> Some 0) \<and>
     fs_root s \<noteq> 0 \<and> nd \<noteq> 0 \<and> (\<exists>ps. tokens (str ''/'') path = ps @ [name] \<and> resolve s T ps (fs_root s) = Some nd) \<and>
     (case T nd of None \<Rightarrow> False | Some cs \<Rightarrow> \<forall>c \<in> set cs. nname (fsnodes s c) \<noteq> name) \<and>
     name \<noteq> str ''.'' \<and> name \<noteq> str ''..'' \<and> 0 \<notin> set name \<and> length name \<le> 64 \<and>
     (\<exists>rs. directory_on s nd D rs \<and> find (name_matches name) rs = Some r)"

lemma resolve_slub: "resolve (s\<lparr>vslub := m\<rparr>) T ps = resolve s T ps"
  by (induction ps; rule ext) (simp_all add: child_named_def)

lemma lookup_fresh:
  assumes f: "fresh_path s T path name nd D r" and h: "heap_state (s\<lparr>vslub := m\<rparr>) K (Suc (Suc n)) H"
    and y: "heap_layout m = heap_layout (vslub s)" and mem: "open_memory s K path name nd"
  shows "\<exists>m' a q. lookup_parts (tokens (str ''/'') path) \<lparr>rflags = 0, rpath = path, rnode = fs_root s\<rparr> (s\<lparr>vslub := m\<rparr>) =
      Some (opened s m' a nd (record_node (nsb (fsnodes s nd)) name r), \<lparr>rflags = 0, rpath = q, rnode = a\<rparr>, ok) \<and>
    a \<noteq> 0 \<and> (Cache_at (fs_node_cache s), a) \<notin> H \<and> heap_layout m' = heap_layout (vslub s) \<and>
    heap_state (opened s m' a nd (record_node (nsb (fsnodes s nd)) name r)) K n (insert (Cache_at (fs_node_cache s), a) H)"
proof -
  let ?s = "s\<lparr>vslub := m\<rparr>" and ?x = "record_node (nsb (fsnodes s nd)) name r" and ?cn = "Cache_at (fs_node_cache s)"
  obtain ps cs rs where ps: "tokens (str ''/'') path = ps @ [name]" "resolve s T ps (fs_root s) = Some nd"
    and cs: "T nd = Some cs" "\<forall>c \<in> set cs. nname (fsnodes s c) \<noteq> name"
    and rs: "directory_on s nd D rs" "find (name_matches name) rs = Some r"
    using f by (auto simp: fresh_path_def split: option.splits)
  obtain c where c: "c \<in> K" "block_cache s c (nlength (fsnodes s nd))" using mem by (auto simp: open_memory_def)
  have bc: "block_cache ?s c (nlength (fsnodes ?s nd))" using c(2) block_cache_layout [of ?s s] y by simp
  have dir: "directory_on ?s nd D rs" using rs(1) by (simp add: directory_on_def)
  have cn: "Cache_at (fs_node_cache ?s) \<in> K" using mem by (simp add: open_memory_def)
  have nm: "0 \<notin> set name" "length name \<le> 64" using f by (simp_all add: fresh_path_def)
  obtain m' a where fd: "isofs_finddir nd name ?s = Some (with_node s m' a ?x, a)" "a \<noteq> 0" "(?cn, a) \<notin> H"
    "heap_layout m' = heap_layout (vslub s)" "heap_state (with_node s m' a ?x) K n (insert (?cn, a) H)"
    using isofs_finddir_run [OF h cn c(1) bc dir rs(2) nm] y by auto
  have "nops (fsnodes ?s nd) = Some Isofs_ops" using rs(1) by (simp add: directory_on_def Let_def)
  then obtain q where q: "lookup_parts (ps @ [name]) \<lparr>rflags = 0, rpath = path, rnode = fs_root s\<rparr> ?s =
      Some ((with_node s m' a ?x)\<lparr>vtree := tree_node_insert a nd (vtree (with_node s m' a ?x))\<rparr>, \<lparr>rflags = 0, rpath = q, rnode = a\<rparr>, ok)"
    using lookup_new [of ?s T ps "\<lparr>rflags = 0, rpath = path, rnode = fs_root s\<rparr>" nd cs name, OF _ _ _ _ _ _ _ _ _ _ _ fd(1,2)]
      f cs ps(2) resolve_slub [of m s T ps] by (auto simp: fresh_path_def)
  have "heap_state (opened s m' a nd ?x) K n (insert (?cn, a) H)"
    using fd(5) heap_state_cong [of "opened s m' a nd ?x" "with_node s m' a ?x"] by simp
  with q fd(2-4) show ?thesis unfolding ps(1) opened_def [symmetric] by (auto simp: opened_def)
qed

lemma file_open_fresh:
  assumes f: "fresh_path s T path name nd D r" and h: "heap_state s K (n + 5) H" and mem: "open_memory s K path name nd"
  shows "\<exists>m a fa na. file_open path flags s =
      Some (opened s m a nd (record_node (nsb (fsnodes s nd)) name r),
        Some \<lparr>file_addr = fa, file_name = na, file_node = a, file_flags = flags, file_offset = 0, file_length = r_size r\<rparr>) \<and>
    (Cache_at (fs_node_cache s), a) \<notin> H \<and> heap_layout m = heap_layout (vslub s) \<and>
    heap_state (opened s m a nd (record_node (nsb (fsnodes s nd)) name r)) K n (insert (Cache_at (fs_node_cache s), a) H)"
proof -
  let ?x = "record_node (nsb (fsnodes s nd)) name r" and ?cn = "Cache_at (fs_node_cache s)"
  obtain cf cp cm where c: "cf \<in> K" "serves s cf FILE_BYTES" "cp \<in> K" "serves s cp (of_nat (length path) + 1)"
    "cm \<in> K" "serves s cm (of_nat (length name) + 1)" using mem by (auto simp: open_memory_def)
  have h5: "heap_state s K (Suc (Suc (Suc (Suc (Suc n))))) H" using h by (simp add: eval_nat_numeral)
  obtain m1 fa where 1: "vmalloc FILE_BYTES s = Some (s\<lparr>vslub := m1\<rparr>, fa)" "fa \<noteq> 0" "(cf, fa) \<notin> H"
    "heap_layout m1 = heap_layout (vslub s)" "heap_state (s\<lparr>vslub := m1\<rparr>) K (Suc (Suc (Suc (Suc n)))) (insert (cf, fa) H)"
    using take_served [OF h5 c(1,2)] by blast
  have "serves (s\<lparr>vslub := m1\<rparr>) cp (of_nat (length path) + 1)" using c(4) serves_layout [of "s\<lparr>vslub := m1\<rparr>" s] 1(4) by simp
  from take_served [OF 1(5) c(3) this] obtain m2 pa where
    2: "vmalloc (of_nat (length path) + 1) (s\<lparr>vslub := m1\<rparr>) = Some (s\<lparr>vslub := m2\<rparr>, pa)" "pa \<noteq> 0" "(cp, pa) \<notin> insert (cf, fa) H"
    "heap_layout m2 = heap_layout (vslub s)" "heap_state (s\<lparr>vslub := m2\<rparr>) K (Suc (Suc (Suc n))) (insert (cp, pa) (insert (cf, fa) H))"
    using 1(4) by auto
  obtain m3 a q where 3: "lookup_parts (tokens (str ''/'') path) \<lparr>rflags = 0, rpath = path, rnode = fs_root s\<rparr> (s\<lparr>vslub := m2\<rparr>) =
      Some (opened s m3 a nd ?x, \<lparr>rflags = 0, rpath = q, rnode = a\<rparr>, ok)" "a \<noteq> 0"
    "(?cn, a) \<notin> insert (cp, pa) (insert (cf, fa) H)" "heap_layout m3 = heap_layout (vslub s)"
    "heap_state (opened s m3 a nd ?x) K (Suc n) (insert (?cn, a) (insert (cp, pa) (insert (cf, fa) H)))"
    using lookup_fresh [OF f 2(5,4) mem] by blast
  have "heap_state (opened s m3 a nd ?x) K (Suc n) (insert (cp, pa) (insert (?cn, a) (insert (cf, fa) H)))"
    "(cp, pa) \<notin> insert (?cn, a) (insert (cf, fa) H)" using 3(3,5) 2(3) by (auto simp: insert_commute)
  from give_object [OF this] obtain m4 where 4: "vfree pa (opened s m3 a nd ?x) = Some (opened s m4 a nd ?x)"
    "heap_layout m4 = heap_layout (vslub s)" "heap_state (opened s m4 a nd ?x) K (Suc n) (insert (?cn, a) (insert (cf, fa) H))"
    using 3(4) by auto
  have "serves (opened s m4 a nd ?x) cm (of_nat (length name) + 1)"
    using c(6) serves_layout [of "opened s m4 a nd ?x" s] 4(2) by simp
  from take_served [OF 4(3) c(5) this, unfolded opened_simps 4(2)] obtain m5 na where
    5: "vmalloc (of_nat (length name) + 1) (opened s m4 a nd ?x) = Some (opened s m5 a nd ?x, na)" "na \<noteq> 0"
    "heap_layout m5 = heap_layout (vslub s)" "heap_state (opened s m5 a nd ?x) K n (insert (cm, na) (insert (?cn, a) (insert (cf, fa) H)))"
    by blast
  have vo: "vfs_open path (s\<lparr>vslub := m1\<rparr>) = Some (opened s m4 a nd ?x, a)"
    using f 2(1,2) 3(1) 4(1)
    by (simp add: fresh_path_def vfs_open_def vfs_lookup_def vfs_lookup_node_def vfs_lookup_tree_def
        vfs_lookup_request_valid_def vfs_strdup_def)
  have x: "nname ?x = name" "nlength ?x = r_size r" by (simp_all add: record_node_def)
  have "file_open path flags s = Some (opened s m5 a nd ?x, Some \<lparr>file_addr = fa, file_name = na, file_node = a,
      file_flags = flags, file_offset = 0, file_length = r_size r\<rparr>)"
    using 1(1,2) 3(2) 5(1,2) by (simp add: file_open_def vo vfs_strdup_def x)
  moreover have "(?cn, a) \<notin> H" using 3(3) by blast
  moreover have "heap_state (opened s m5 a nd ?x) K n (insert (?cn, a) H)"
    using 5(4) by (rule heap_state_less) auto
  ultimately show ?thesis using 5(3) by blast
qed

lemma opened_tree:
  assumes wf: "wf_tree (vtree s) T" and nd: "T nd = Some cs" and a: "T a = None" "\<forall>p cs. T p = Some cs \<longrightarrow> a \<notin> set cs"
  shows "wf_tree (vtree (opened s m a nd x)) (T(a \<mapsto> [], nd \<mapsto> cs @ [a]))"
proof -
  have "wf_tree (tree_node_init a (vtree s)) (T(a \<mapsto> []))" by (rule tree_init_wf [OF wf a])
  moreover have "(T(a \<mapsto> [])) nd = Some cs" using nd a(1) by auto
  ultimately show ?thesis using tree_insert_wf [of "tree_node_init a (vtree s)" "T(a \<mapsto> [])" nd cs a] a(2) by (auto split: if_splits)
qed

text \<open>Reading with the account of several caches.\<close>

lemma file_read_state:
  assumes "file_on s (file_node f) D C" and h: "heap_state s K (Suc (Suc n)) H" and c: "c \<in> K"
    and "block_cache s c (ucast (node_block s (file_node f)))" and "nops (fsnodes s (file_node f)) = Some Isofs_ops"
    and "unat (file_length f) = length C" and "unat (file_offset f) = off"
    and "len = min (unat nbytes) (length C - off)" and "0 < len" and "len \<le> length buf" and "length buf < 2 ^ 32"
  shows "\<exists>m. file_read f nbytes buf s = Some (s\<lparr>vslub := m\<rparr>, of_nat len, take len (drop off C) @ drop len buf) \<and>
    heap_layout m = heap_layout (vslub s) \<and> heap_state (s\<lparr>vslub := m\<rparr>) K (Suc (Suc n)) H"
proof -
  obtain L where L: "heap_inv (heap_layout (vslub s)) L (vslub s)" "has_free L K (Suc (Suc n))" "holds L H"
    using h unfolding heap_state_def by blast
  then obtain X i where X: "L c = Some (X, i)" "Suc (Suc n) \<le> i" using c by (auto simp: has_free_def)
  then have Lc: "L c = Some (X, Suc (Suc (i - 2)))" by simp
  have v: "vheap s L s" using L(1) by (simp add: vheap_def)
  have r: "(if nops (fsnodes s (file_node f)) = Some Ext2fs_ops then ext2_reach (unat (node_block s (file_node f))) off len else len) = len"
    using assms(5) by simp
  obtain t where t: "file_read f nbytes buf s = Some (t, of_nat len, take len (drop off C) @ drop len buf)" "vheap s L t"
    using file_read_bytes [OF assms(1) v Lc assms(4,6-11) refl, unfolded r] by blast
  have lay: "heap_layout (vslub t) = heap_layout (vslub s)" by (rule vheap_keeps(6) [OF t(2)])
  obtain m where m: "t = s\<lparr>vslub := m\<rparr>" "vslub t = m" using t(2) by (auto simp: vheap_def)
  have "heap_inv (heap_layout (vslub s)) L m" using t(2) m(2) by (simp add: vheap_def)
  then have "heap_state (s\<lparr>vslub := m\<rparr>) K (Suc (Suc n)) H"
    using L(2,3) lay m(2) by (auto simp: heap_state_def)
  moreover have "heap_layout m = heap_layout (vslub s)" using lay m(2) by simp
  ultimately show ?thesis using t(1) m(1) by blast
qed

lemma record_file_on:
  assumes "fsnodes t a = record_node sb name r" and "disk_of (super (sbs t sb)) D" and "bs = unat (block_size (super (sbs t sb)))"
    and "bs * unat (r_extent r) + unat (r_size r) \<le> length D"
  shows "file_on t a D (take (unat (r_size r)) (drop (bs * unat (r_extent r)) D))"
  using assms by (simp add: file_on_def record_node_def zero_node_def FS_FLAGS_MASK_def FS_CHARDEVICE_def
      FS_BLOCKDEVICE_def FS_DIRECTORY_def)

section \<open>Properties\<close>


text \<open>A device of three blocks whose second one is a directory with the file \<open>KERNEL\<close> in the third, under a root node
  at 0x10000, and a heap with fourteen free objects of 1 KiB.\<close>

definition kernel_record :: iso_record where
  "kernel_record = \<lparr>r_extent = 2, r_size = 1000, r_flags = 0, r_name = str ''KERNEL.;1'', r_tail = []\<rparr>"

definition kernel_bytes :: "u8 list" where
  "kernel_bytes = map of_nat [0..<1000]"

definition iso_disk :: "u8 list" where
  "iso_disk = replicate 1024 0 @ (record_bytes kernel_record @ 0 # replicate 981 0) @ (kernel_bytes @ replicate 24 0)"

text \<open>A device that holds the bytes \<open>D\<close>, with blocks of 1 KiB.\<close>

definition disk_sb :: "u8 list \<Rightarrow> superblock" where
  "disk_sb D = \<lparr>sb_bdev = \<lparr>bdev_name = [], bdev_flags = 0, bdev_block_size = 512, bdev_block_logs = 9,
       bops = Some \<lparr>bread = Some (\<lambda>s n. (0, take (unat n * 512) (drop (unat s * 512) D))), bwrite = None, bioctl = None\<rparr>\<rparr>,
     sb_null = False, block_size = 1024, block_logs = 10\<rparr>"

definition open_objects :: "u32 list" where
  "open_objects = [0x10800, 0x10C00, 0x11000, 0x11400, 0x11800, 0x11C00, 0x12000, 0x12400,
     0x12800, 0x12C00, 0x13000, 0x13400, 0x13800, 0x13C00]"

definition open_links :: "mnode links" where
  "open_links =
     (let c = Cache_at 0x900; e = \<lparr>prv = (\<lambda>_. None), nxt = (\<lambda>_. None)\<rparr>;
          e = list_init (Slabs_free c) (list_init (Slabs_full c) (list_init (Slabs_partial c) (list_init (Page_freelist 16) e)));
          e = fold (\<lambda>n. list_add_tail n (Page_freelist 16)) (map Obj open_objects) e
      in list_add (Page_list 16) (Slabs_partial c) e)"

definition open_heap :: slub where
  "open_heap =
     \<lparr>pages = \<lparr>page_map = (\<lambda>p. if 16 \<le> p \<and> p < 20
          then \<lparr>pflags = 0, paddr = 0x10000, porder = 2, compound_head = 16, slab_cache = Some (Cache_at 0x900), inuse = 2\<rparr>
          else \<lparr>pflags = 0, paddr = 0, porder = 0, compound_head = p, slab_cache = None, inuse = 0\<rparr>),
        nr_free = (\<lambda>_. 0), mlinks = open_links\<rparr>,
      caches = (\<lambda>_. \<lparr>cname = None, osize = 0x400, nums = 16, corder = 2, free_objs = 14, free_slabs = 0,
        total_slabs = 1, cctor = Some Ctor_object\<rparr>), bmalloc_caches = (\<lambda>_. Some (Cache_at 0x900))\<rparr>"

definition disk_vfs :: "u8 list \<Rightarrow> vfs" where
  "disk_vfs D = demo_vfs\<lparr>vslub := open_heap, fs_node_cache := 0x900, fs_root := 0x10000,
     sbs := (\<lambda>_. \<lparr>super = disk_sb D, sroot = 0x10000, smount = 0x10000, sprivate = None\<rparr>),
     fsnodes := (\<lambda>_. zero_node\<lparr>nops := Some Isofs_ops, ninode := 1, nlength := 1024, nflags := FS_DIRECTORY\<rparr>),
     vtree := tree_node_init 0x10000 (vtree demo_vfs)\<rparr>"

lemma disk_vfs_simps [simp]:
  "vslub (disk_vfs D) = open_heap" "fs_node_cache (disk_vfs D) = 0x900" "fs_root (disk_vfs D) = 0x10000"
  "super (sbs (disk_vfs D) n) = disk_sb D" "nlength (fsnodes (disk_vfs D) n) = 1024" "block_size (disk_sb D) = 1024"
  by (simp_all add: disk_vfs_def disk_sb_def)

lemma disk_sb_disk: "1024 dvd length D \<Longrightarrow> length D < 2 ^ 32 \<Longrightarrow> disk_of (disk_sb D) D"
  unfolding disk_of_def by (intro exI [of _ 10] exI [of _ 9]) (simp add: disk_sb_def bdev_read_def)

lemma iso_disk: "length iso_disk = 3072" "block_of iso_disk 1024 1 = record_bytes kernel_record @ 0 # replicate 981 0"
  "take 1000 (drop 2048 iso_disk) = kernel_bytes"
proof -
  have l: "length (record_bytes kernel_record) = 42" "length kernel_bytes = 1000"
    by (simp_all add: length_record record_len_def DENT_BYTES_def kernel_record_def str_def kernel_bytes_def)
  show n: "length iso_disk = 3072" unfolding iso_disk_def by (simp add: l)
  show "block_of iso_disk 1024 1 = record_bytes kernel_record @ 0 # replicate 981 0"
    unfolding block_of_def iso_disk_def by (simp add: l)
  show "take 1000 (drop 2048 iso_disk) = kernel_bytes" unfolding iso_disk_def by (simp add: l)
qed

lemma open_heap_state: "vslub s = open_heap \<Longrightarrow> heap_state s {Cache_at 0x900} 14 {(Cache_at 0x900, 0x10000)}"
proof -
  let ?c = "Cache_at 0x900" and ?e = "\<lparr>prv = (\<lambda>_. None), nxt = (\<lambda>_. None)\<rparr> :: mnode links" and ?F0 = "\<lambda>_. None"
    and ?f = "Page_freelist 16 :: mnode" and ?os = "map Obj open_objects"
  have w0: "wf_lists ?e ?F0" by (simp add: wf_lists_def)
  note w1 = wf_init [OF w0, of ?f]
  note w2 = wf_init [OF w1, of "Slabs_partial ?c"]
  note w3 = wf_init [OF w2, of "Slabs_full ?c"]
  note w4 = wf_init [OF w3, of "Slabs_free ?c"]
  let ?F4 = "?F0(?f \<mapsto> [], Slabs_partial ?c \<mapsto> [], Slabs_full ?c \<mapsto> [], Slabs_free ?c \<mapsto> [])"
  have d: "distinct ?os" "set ?os \<inter> nodes ?F4 = {}"
    by (auto simp: open_objects_def nodes_def split: if_splits)
  have "wf_lists (list_init (Slabs_free ?c) (list_init (Slabs_full ?c) (list_init (Slabs_partial ?c) (list_init ?f ?e)))) ?F4"
    by (rule w4) (simp_all add: not_nodes)
  from lh.append_all [OF this, of ?f "[]" ?os] d
  have w5: "wf_lists (fold (\<lambda>n. list_add_tail n ?f) ?os
      (list_init (Slabs_free ?c) (list_init (Slabs_full ?c) (list_init (Slabs_partial ?c) (list_init ?f ?e))))) (?F4(?f \<mapsto> ?os))"
    by simp
  let ?F = "?F4(?f \<mapsto> ?os, Slabs_partial ?c \<mapsto> [Page_list 16])"
  have n16: "Page_list 16 \<notin> nodes (?F4(?f \<mapsto> ?os))"
    by (auto simp: nodes_def open_objects_def split: if_splits)
  have wl: "wf_lists open_links ?F"
    unfolding open_links_def Let_def by (rule wf_add [OF w5 _ n16]) simp
  have wf: "wf_cache open_heap ?F ?c [16] [] (\<lambda>_. open_objects)"
    using wl by (simp add: wf_cache_def slab_counts_def open_heap_def open_objects_def)
  have hd: "\<forall>a \<in> insert 0x10000 (set open_objects). obj_head open_heap a = 16 \<and> in_map (phys_to_page a)"
    by (simp add: open_objects_def obj_head_def open_heap_def in_map_def phys_to_page_def phys_to_pfn_def page_num_def PAGE_SHIFT_def)
  have p16: "slab_cache (page_map (pages open_heap) 16) = Some ?c" "inuse (page_map (pages open_heap) 16) = 2"
    by (simp_all add: open_heap_def)
  have "card {x \<in> {0x10000}. obj_head open_heap x = 16} \<le> card {0x10000 :: u32}" by (intro card_mono) auto
  moreover have "Obj 0x10000 \<notin> nodes ?F" by (auto simp: nodes_def open_objects_def split: if_splits)
  moreover have "card (set open_objects) = 14" by (simp add: open_objects_def)
  ultimately have "slab_state ?c {0x10000} 14 open_heap ?F [16] [] (\<lambda>_. open_objects)"
    using wf hd by (simp add: slab_state_def free_objects_def on_slab_def p16)
  then have "heap_inv (heap_layout open_heap) [?c \<mapsto> ({0x10000}, 14)] open_heap"
    unfolding heap_inv_def
    by (intro conjI refl exI [of _ ?F] exI [of _ "\<lambda>_. [16]"] exI [of _ "\<lambda>_. []"] exI [of _ "\<lambda>_ _. open_objects"])
      (simp add: open_heap_def split: if_splits)
  then show "vslub s = open_heap \<Longrightarrow> heap_state s {?c} 14 {(?c, 0x10000)}"
    unfolding heap_state_def by (intro exI [of _ "[?c \<mapsto> ({0x10000}, 14)]"]) (simp add: has_free_def holds_def)
qed

lemma open_serves:
  assumes "heap_layout (vslub s) = heap_layout open_heap" and "sz \<noteq> 0" and "unat sz \<le> 0x400"
  shows "serves s (Cache_at 0x900) sz"
proof -
  let ?s = "s\<lparr>vslub := open_heap\<rparr>"
  have "unat sz \<le> 2 ^ 15" using assms(3) by simp
  from demo_heap_cache [OF assms(2) this] obtain i where i: "bmalloc_index sz = Some i" "\<not> i < 0"
    by (auto simp: bmalloc_cache_def bind_eq_Some_conv split: if_splits)
  have "sz \<le> 0x400" using assms(3) by (simp add: word_le_nat_alt)
  then have "serves ?s (Cache_at 0x900) sz" using i by (simp add: serves_def bmalloc_cache_def open_heap_def)
  then show ?thesis using serves_layout [of ?s s] assms(1) by simp
qed

lemma open_region:
  assumes "obj_cache open_heap a = Some (Cache_at 0x900)"
  shows "0x10000 \<le> unat a" and "unat a < 0x14000"
proof -
  have "16 \<le> phys_to_page a \<and> phys_to_page a < 20"
    using assms by (simp add: obj_cache_def obj_head_def open_heap_def split: if_splits)
  then have "16 \<le> drop_bit 12 (unat a) \<and> drop_bit 12 (unat a) < 20"
    by (simp add: phys_to_page_def phys_to_pfn_def PAGE_SHIFT_def unat_drop_bit_eq)
  then have "16 \<le> unat a div 4096" "unat a div 4096 < 20" by (simp_all add: drop_bit_eq_div)
  then show "0x10000 \<le> unat a" "unat a < 0x14000" by simp_all
qed

lemma demo_block:
  assumes y: "heap_layout (vslub s) = heap_layout open_heap"
  shows "block_cache s (Cache_at 0x900) 0x400"
proof -
  have "osize (caches (vslub s) c) = 0x400" for c using y by (simp add: heap_layout_def open_heap_def fun_eq_iff)
  then show ?thesis using open_serves [OF y, of "0x400"] by (simp add: block_cache_def)
qed

lemma demo_memory:
  assumes y: "heap_layout (vslub s) = heap_layout open_heap" and "fs_node_cache s = 0x900" and "nlength (fsnodes s nd) = 1024"
    and "length path < 1000" and "length name < 1000"
  shows "open_memory s {Cache_at 0x900} path name nd"
proof -
  note sv = open_serves [OF y]
  have l: "(of_nat n :: u32) + 1 \<noteq> 0 \<and> unat ((of_nat n :: u32) + 1) \<le> 0x400" if "n < 1000" for n
  proof -
    have "unat (of_nat (Suc n) :: u32) = Suc n" by (rule unat_of_nat32) (use that in simp)
    then show ?thesis using that by (auto simp: add.commute unat_eq_zero [symmetric])
  qed
  show ?thesis
    using demo_block [OF y] sv [of FILE_BYTES] sv [of "of_nat (length path) + 1"] sv [of "of_nat (length name) + 1"] l [of "length path"] l [of "length name"] assms
    by (simp add: open_memory_def FILE_BYTES_def)
qed

text \<open>A file in the root directory of such a device.\<close>

lemma disk_root:
  assumes "1024 dvd length D" and "2048 \<le> length D" and "length D < 2 ^ 32" and "block_of D 1024 1 = concat (map record_bytes rs) @ 0 # post"
    and "\<forall>r \<in> set rs. wf_record r"
  shows "directory_on (disk_vfs D) 0x10000 D rs"
  using assms disk_sb_disk [OF assms(1,3)] by (auto simp: directory_on_def) (simp_all add: disk_vfs_def)

lemma disk_path:
  assumes "directory_on (disk_vfs D) 0x10000 D rs" and "find (name_matches name) rs = Some r"
    and "tokens (str ''/'') path = [name]" and "name \<noteq> str ''.''" "name \<noteq> str ''..''" "0 \<notin> set name" "length name \<le> 64"
  shows "fresh_path (disk_vfs D) [0x10000 \<mapsto> []] path name 0x10000 D r"
proof -
  let ?t = "vtree demo_vfs"
  have "wf_tree ?t (\<lambda>_. None)" by (simp add: demo_vfs_def wf_tree_def wf_lists_def child_family_def split: tnode.split)
  from tree_init_wf [OF this, of "0x10000"] have "wf_tree (vtree (disk_vfs D)) [0x10000 \<mapsto> []]" by (simp add: disk_vfs_def)
  moreover have "\<forall>n. parent (vtree (disk_vfs D)) n \<noteq> Some 0" by (simp add: disk_vfs_def demo_vfs_def tree_node_init_def)
  ultimately show ?thesis
    using assms unfolding fresh_path_def by (auto split: if_splits)
qed


end
