(* ===== verification/Devtree.thy ===== *)
theory Devtree
  imports FileOpen
begin

text \<open>
  The device behind a node is a union of a pointer to a block device and one to a character device, and the
  flags of the node say which it is. This theory shows for every sequence of operations of the virtual file
  system that the flags agree with the union, so that no operation on a node takes the wrong pointer.
\<close>

section \<open>Nodes\<close>

definition node_kind :: "fs_node \<Rightarrow> u32" where
  "node_kind x = nflags x AND FS_FLAGS_MASK"

text \<open>The member of the union that the flags select is the one that was stored.\<close>

definition node_typed :: "fs_node \<Rightarrow> bool" where
  "node_typed x \<longleftrightarrow>
     (node_kind x = FS_CHARDEVICE \<longrightarrow> (case ndev x of Char_device _ \<Rightarrow> True | _ \<Rightarrow> False)) \<and>
     (node_kind x = FS_BLOCKDEVICE \<longrightarrow> (case ndev x of Block_device _ \<Rightarrow> True | _ \<Rightarrow> False))"

definition nodes_typed :: "vfs \<Rightarrow> bool" where
  "nodes_typed s \<longleftrightarrow> (\<forall>n. node_typed (fsnodes s n))"

lemma kind_bits:
  "(x OR 2) AND FS_FLAGS_MASK \<noteq> FS_CHARDEVICE" "(x OR 2) AND FS_FLAGS_MASK \<noteq> FS_BLOCKDEVICE"
proof -
  have b: "bit (2::u32) 1" "bit FS_FLAGS_MASK 1" "\<not> bit FS_CHARDEVICE 1" "\<not> bit FS_BLOCKDEVICE 1" by code_simp+
  then have m: "bit ((x OR 2) AND FS_FLAGS_MASK) 1" by (simp only: bit_and_iff bit_or_iff) simp
  with m b(3,4) show "(x OR 2) AND FS_FLAGS_MASK \<noteq> FS_CHARDEVICE" "(x OR 2) AND FS_FLAGS_MASK \<noteq> FS_BLOCKDEVICE" by metis+
qed

lemma typed_zero [simp]: "node_typed (zero_node\<lparr>nname := nm\<rparr>)"
  by (simp add: node_typed_def node_kind_def zero_node_def FS_CHARDEVICE_def FS_BLOCKDEVICE_def)

lemma typed_cong:
  "nflags y = nflags x \<Longrightarrow> ndev y = ndev x \<Longrightarrow> node_typed y = node_typed x"
  by (simp add: node_typed_def node_kind_def)

lemma typed_fields [simp]:
  "node_typed (x\<lparr>nops := o'\<rparr>) = node_typed x" "node_typed (x\<lparr>nsb := b\<rparr>) = node_typed x"
  "node_typed (x\<lparr>ninode := i, nlength := l\<rparr>) = node_typed x"
  "node_typed (x\<lparr>nops := o', nsb := b\<rparr>) = node_typed x"
  "node_typed (x\<lparr>ninode := i, nlength := l, nprivate := p\<rparr>) = node_typed x"
  by (rule typed_cong; simp)+

lemma typed_directory: "node_typed (x\<lparr>nflags := nflags x OR FS_DIRECTORY\<rparr>)"
  using kind_bits [of "nflags x"] by (simp add: node_typed_def node_kind_def FS_DIRECTORY_def)

section \<open>Operations that change no node\<close>

lemma vmalloc_nodes: "vmalloc sz s = Some (s', a) \<Longrightarrow> fsnodes s' = fsnodes s"
  by (auto simp: vmalloc_def bind_eq_Some_conv)

lemma vfree_nodes: "vfree a s = Some s' \<Longrightarrow> fsnodes s' = fsnodes s"
  by (auto simp: vfree_def bind_eq_Some_conv)

lemma sb_read_offset_nodes: "sb_read_offset sb off len buf s = Some (s', r) \<Longrightarrow> fsnodes s' = fsnodes s"
  by (auto simp: sb_read_offset_def Let_def bind_eq_Some_conv split: if_splits dest!: vmalloc_nodes vfree_nodes)

lemma inode_block_nodes: "ext2fs_inode_block sb i off s = Some (s', b) \<Longrightarrow> fsnodes s' = fsnodes s"
  by (auto simp: ext2fs_inode_block_def Let_def bind_eq_Some_conv split: if_splits dest!: vmalloc_nodes vfree_nodes)

lemma inode_read_loop_nodes:
  "inode_read_loop sb i sec n bk io len bo iblock buf s = Some (s', r) \<Longrightarrow> fsnodes s' = fsnodes s"
proof (induction n arbitrary: bk io len bo iblock buf s)
  case (Suc n)
  from Suc.prems show ?case
    by (auto simp: Let_def bind_eq_Some_conv split: if_splits dest!: inode_block_nodes Suc.IH)
qed simp

lemma inode_read_nodes: "ext2fs_inode_read sb i off len buf s = Some (s', r) \<Longrightarrow> fsnodes s' = fsnodes s"
  by (auto simp: ext2fs_inode_read_def Let_def bind_eq_Some_conv split: if_splits
      dest!: vmalloc_nodes vfree_nodes inode_read_loop_nodes)

lemma inode_find_nodes: "ext2fs_inode_find sb esb ino s = Some (s', i) \<Longrightarrow> fsnodes s' = fsnodes s"
  by (auto simp: ext2fs_inode_find_def Let_def bind_eq_Some_conv split: if_splits
      dest!: vmalloc_nodes sb_read_offset_nodes)

section \<open>Operations that create nodes\<close>

lemma typed_upd: "nodes_typed s \<Longrightarrow> node_typed (f (fsnodes s a)) \<Longrightarrow> nodes_typed (upd_node a f s)"
  by (simp add: nodes_typed_def upd_node_def)

lemma typed_same: "fsnodes s' = fsnodes s \<Longrightarrow> nodes_typed s' = nodes_typed s"
  by (simp add: nodes_typed_def)

lemma typed_other [simp]:
  "nodes_typed (upd_sb b g s) = nodes_typed s" "nodes_typed (s\<lparr>vtree := t\<rparr>) = nodes_typed s"
  "nodes_typed (s\<lparr>vbdevs := bs\<rparr>) = nodes_typed s" "nodes_typed (s\<lparr>vcdevs := cs\<rparr>) = nodes_typed s"
  "nodes_typed (s\<lparr>vslub := m\<rparr>) = nodes_typed s" "nodes_typed (s\<lparr>fs_root := r\<rparr>) = nodes_typed s"
  "nodes_typed (fs_register fs s) = nodes_typed s" "nodes_typed (fs_unregister fs s) = nodes_typed s"
  by (simp_all add: nodes_typed_def upd_sb_def fs_register_def fs_unregister_def)

lemma fsnodes_upd_sb [simp]: "fsnodes (upd_sb b g s) = fsnodes s"
  by (simp add: upd_sb_def)

lemma typedD: "nodes_typed s \<Longrightarrow> node_typed (fsnodes s a)"
  by (simp add: nodes_typed_def)

lemma vmalloc_typed: "vmalloc sz s = Some (s', a) \<Longrightarrow> nodes_typed s' = nodes_typed s"
  by (rule typed_same) (rule vmalloc_nodes)

lemma vfree_typed: "vfree a s = Some s' \<Longrightarrow> nodes_typed s' = nodes_typed s"
  by (rule typed_same) (rule vfree_nodes)

text \<open>A fresh node has no flags and no device.\<close>

lemma node_alloc_typed:
  "fs_node_alloc name s = Some (s', a) \<Longrightarrow> nodes_typed s \<Longrightarrow>
   nodes_typed s' \<and> (a \<noteq> 0 \<longrightarrow> fsnodes s' a = zero_node\<lparr>nname := name\<rparr>)"
  by (auto simp: fs_node_alloc_def bind_eq_Some_conv Let_def nodes_typed_def upd_node_def split: if_splits)

lemma ramfs_alloc_typed: "ramfs_alloc_node name s = Some (s', a) \<Longrightarrow> nodes_typed s \<Longrightarrow> nodes_typed s'"
  by (auto simp: ramfs_alloc_node_def bind_eq_Some_conv split: if_splits dest!: node_alloc_typed intro!: typed_upd simp: typedD)

lemma ramfs_super_typed: "ramfs_fill_super sb name s = Some (s', a) \<Longrightarrow> nodes_typed s \<Longrightarrow> nodes_typed s'"
  by (auto simp: ramfs_fill_super_def bind_eq_Some_conv Let_def split: if_splits
      dest!: ramfs_alloc_typed intro!: typed_upd simp: typedD)

lemma isofs_alloc_typed: "isofs_alloc_node sb name s = Some (s', a) \<Longrightarrow> nodes_typed s \<Longrightarrow> nodes_typed s'"
  by (auto simp: isofs_alloc_node_def bind_eq_Some_conv split: if_splits
      dest!: node_alloc_typed intro!: typed_upd simp: typedD)

lemma isofs_dent_typed: "isofs_alloc_dent sb buf d name s = Some (s', a) \<Longrightarrow> nodes_typed s \<Longrightarrow> nodes_typed s'"
  by (auto simp: isofs_alloc_dent_def bind_eq_Some_conv Let_def split: if_splits
      dest!: isofs_alloc_typed intro!: typed_upd typed_directory simp: typedD)

lemma isofs_super_typed: "isofs_fill_super sb name s = Some (s', a) \<Longrightarrow> nodes_typed s \<Longrightarrow> nodes_typed s'"
  by (auto simp: isofs_fill_super_def bind_eq_Some_conv Let_def split: if_splits prod.splits
      dest!: vmalloc_typed vfree_typed isofs_dent_typed intro!: typed_upd simp: typedD)

lemma isofs_finddir_typed: "isofs_finddir nd name s = Some (s', a) \<Longrightarrow> nodes_typed s \<Longrightarrow> nodes_typed s'"
  by (auto simp: isofs_finddir_def bind_eq_Some_conv Let_def split: if_splits option.splits prod.splits
      dest!: vmalloc_typed vfree_typed isofs_dent_typed)

lemma ext2_alloc_typed: "ext2fs_alloc_node sb name s = Some (s', a) \<Longrightarrow> nodes_typed s \<Longrightarrow> nodes_typed s'"
  by (auto simp: ext2fs_alloc_node_def bind_eq_Some_conv split: if_splits
      dest!: node_alloc_typed intro!: typed_upd simp: typedD)

lemma inode_find_typed: "ext2fs_inode_find sb esb ino s = Some (s', i) \<Longrightarrow> nodes_typed s' = nodes_typed s"
  by (rule typed_same) (rule inode_find_nodes)

lemma inode_read_typed: "ext2fs_inode_read sb i off len buf s = Some (s', r) \<Longrightarrow> nodes_typed s' = nodes_typed s"
  by (rule typed_same) (rule inode_read_nodes)

lemma ext2_dent_typed: "ext2fs_alloc_dent sb ino name s = Some (s', a) \<Longrightarrow> nodes_typed s \<Longrightarrow> nodes_typed s'"
  by (auto simp: ext2fs_alloc_dent_def bind_eq_Some_conv Let_def split: if_splits option.splits
      dest!: ext2_alloc_typed vfree_typed inode_find_typed intro!: typed_upd simp: typedD)

lemma ext2_super_typed: "ext2fs_fill_super sb name s = Some (s', a) \<Longrightarrow> nodes_typed s \<Longrightarrow> nodes_typed s'"
  by (auto simp: ext2fs_fill_super_def bind_eq_Some_conv Let_def split: if_splits prod.splits
      dest!: vmalloc_typed vfree_typed ext2_dent_typed intro!: typed_upd simp: typedD)

lemma ext2_finddir_typed: "ext2fs_finddir nd name s = Some (s', a) \<Longrightarrow> nodes_typed s \<Longrightarrow> nodes_typed s'"
  by (auto simp: ext2fs_finddir_def bind_eq_Some_conv Let_def split: if_splits option.splits prod.splits
      dest!: vmalloc_typed vfree_typed ext2_dent_typed inode_read_typed)

section \<open>The virtual file system\<close>

lemma finddir_typed: "vfs_finddir nd name s = Some (s', a) \<Longrightarrow> nodes_typed s \<Longrightarrow> nodes_typed s'"
  by (auto simp: vfs_finddir_def split: option.splits fs_ops.splits dest: isofs_finddir_typed ext2_finddir_typed)

lemma fill_super_typed: "fill_super fs sb name s = Some (s', a) \<Longrightarrow> nodes_typed s \<Longrightarrow> nodes_typed s'"
  by (auto simp: fill_super_def split: fs_type.splits dest: ramfs_super_typed isofs_super_typed ext2_super_typed)

lemma lookup_parts_typed: "lookup_parts ps r s = Some (s', r', st) \<Longrightarrow> nodes_typed s \<Longrightarrow> nodes_typed s'"
proof (induction ps arbitrary: r s)
  case (Cons p ps)
  from Cons.prems show ?case
    by (auto simp: vfs_lookup_tree_slow_def bind_eq_Some_conv split: if_splits dest!: finddir_typed Cons.IH)
qed simp

lemma no_error: "(\<forall>e. (b :: status) \<noteq> Inl e) \<longleftrightarrow> b = ok"
  by (cases b) auto

lemma lookup_typed: "vfs_lookup path s = Some (s', a) \<Longrightarrow> nodes_typed s \<Longrightarrow> nodes_typed s'"
  by (auto simp: vfs_lookup_def vfs_lookup_node_def vfs_lookup_tree_def vfs_strdup_def bind_eq_Some_conv
      split: sum.splits if_splits dest!: vmalloc_typed vfree_typed lookup_parts_typed simp: no_error)

lemma new_superblock_typed: "new_superblock b s = Some (s', a) \<Longrightarrow> nodes_typed s \<Longrightarrow> nodes_typed s'"
  by (auto simp: new_superblock_def bind_eq_Some_conv split: option.splits dest!: vmalloc_typed)

lemma mount_node_typed: "vfs_mount_node fs b par name s = Some (s', a) \<Longrightarrow> nodes_typed s \<Longrightarrow> nodes_typed s'"
  by (auto simp: vfs_mount_node_def bind_eq_Some_conv Let_def split: if_splits
      dest!: new_superblock_typed fill_super_typed vfree_typed)

lemma mount_type_typed: "vfs_mount_type fs b path name s = Some (s', r) \<Longrightarrow> nodes_typed s \<Longrightarrow> nodes_typed s'"
  by (auto simp: vfs_mount_type_def bind_eq_Some_conv split: option.splits if_splits
      dest!: lookup_typed mount_node_typed)

lemma mount_bdev_typed: "mount_bdev_loop fss b name s = Some (s', a) \<Longrightarrow> nodes_typed s \<Longrightarrow> nodes_typed s'"
proof (induction fss arbitrary: s)
  case (Cons fs fss)
  from Cons.prems show ?case
    by (auto simp: bind_eq_Some_conv split: if_splits dest!: new_superblock_typed fill_super_typed vfree_typed Cons.IH)
qed simp

text \<open>A device that is put on a fresh node together with its flag.\<close>

lemma typed_char: "node_typed (zero_node\<lparr>nname := nm, ndev := Char_device c, nops := o', nflags := FS_CHARDEVICE\<rparr>)"
  "node_typed (zero_node\<lparr>nname := nm, ndev := Block_device b, nflags := FS_BLOCKDEVICE\<rparr>)"
  by (simp_all add: node_typed_def node_kind_def FS_CHARDEVICE_def FS_BLOCKDEVICE_def FS_FLAGS_MASK_def)

lemma zero_flags: "nflags (zero_node\<lparr>nname := nm\<rparr>) = 0"
  by (simp add: zero_node_def)

lemma mount_cdev_typed: "vfs_mount_cdev c path name s = Some (s', st) \<Longrightarrow> nodes_typed s \<Longrightarrow> nodes_typed s'"
  by (auto simp: vfs_mount_cdev_def bind_eq_Some_conv Let_def zero_flags split: if_splits
      dest!: lookup_typed node_alloc_typed intro!: typed_upd typed_char)

lemma cdev_init_typed: "cdev_init c ops s = Some (s', st) \<Longrightarrow> nodes_typed s \<Longrightarrow> nodes_typed s'"
  by (auto simp: cdev_init_def bind_eq_Some_conv Let_def split: sum.splits dest!: mount_cdev_typed simp: no_error)

lemma bdev_init_typed: "bdev_init b ops s = Some (s', st) \<Longrightarrow> nodes_typed s \<Longrightarrow> nodes_typed s'"
  by (auto simp: bdev_init_def vfs_open_def bind_eq_Some_conv Let_def zero_flags split: if_splits
      dest!: lookup_typed node_alloc_typed intro!: typed_upd typed_char)

lemma file_open_typed: "file_open path fl s = Some (s', f) \<Longrightarrow> nodes_typed s \<Longrightarrow> nodes_typed s'"
  by (auto simp: file_open_def vfs_open_def vfs_strdup_def bind_eq_Some_conv split: if_splits
      dest!: vmalloc_typed vfree_typed lookup_typed)

lemma file_close_typed: "file_close f s = Some s' \<Longrightarrow> nodes_typed s \<Longrightarrow> nodes_typed s'"
  by (auto simp: file_close_def split: option.splits dest!: vfree_typed)

lemma file_read_typed: "file_read f n buf s = Some (s', r) \<Longrightarrow> nodes_typed s \<Longrightarrow> nodes_typed s'"
  by (auto simp: file_read_def vfs_read_def node_read_def isofs_read_def ext2fs_read_def bind_eq_Some_conv Let_def
      split: if_splits option.splits device.splits fs_ops.splits prod.splits
      dest!: inode_read_typed sb_read_offset_nodes typed_same)

section \<open>Sequences of operations\<close>

text \<open>What the program does with the file system. \<^verbatim>\<open>vfs_mount\<close> of a volume puts the flag of a block
  device on the root that the file system made, without a device; the step wants the root to be flagged as a
  directory, as those of ISO 9660 are, which makes it neither kind of device.\<close>

inductive vfs_step :: "vfs \<Rightarrow> vfs \<Rightarrow> bool" where
  step_register: "vfs_step s (fs_init fs s)"
| step_mount_type: "vfs_mount_type fsname b path name s = Some (s', r) \<Longrightarrow> vfs_step s s'"
| step_rootfs: "vfs_init_rootfs fs s = Some (s', st) \<Longrightarrow> vfs_step s s'"
| step_cdev: "cdev_init c ops s = Some (s', st) \<Longrightarrow> vfs_step s s'"
| step_bdev: "bdev_init b ops s = Some (s', st) \<Longrightarrow> vfs_step s s'"
| step_open: "file_open path fl s = Some (s', f) \<Longrightarrow> vfs_step s s'"
| step_close: "file_close f' s = Some s' \<Longrightarrow> vfs_step s s'"
| step_read: "file_read g n buf s = Some (s', r') \<Longrightarrow> vfs_step s s'"
| step_mount: "vfs_lookup path s = Some (s1, d) \<Longrightarrow> vfs_mount_bdev bd name s1 = Some (s2, n) \<Longrightarrow>
    n = 0 \<or> nflags (fsnodes s2 n) AND FS_DIRECTORY \<noteq> 0 \<Longrightarrow> vfs_mount bd path name s = Some (s', st) \<Longrightarrow> vfs_step s s'"

lemma fs_init_typed: "nodes_typed (fs_init fs s) = nodes_typed s"
  by (simp add: fs_init_def ramfs_init_def isofs_init_def ext2fs_init_def split: fs_type.split)

lemma rootfs_typed: "vfs_init_rootfs fs s = Some (s', st) \<Longrightarrow> nodes_typed s \<Longrightarrow> nodes_typed s'"
  by (auto simp: vfs_init_rootfs_def bind_eq_Some_conv Let_def split: if_splits
      dest!: new_superblock_typed fill_super_typed vfree_typed)

lemma typed_block_directory:
  assumes "nflags x AND FS_DIRECTORY \<noteq> 0"
  shows "node_typed (x\<lparr>nflags := nflags x OR FS_BLOCKDEVICE\<rparr>)"
proof -
  have "bit (nflags x) 1"
  proof (rule ccontr)
    assume "\<not> bit (nflags x) 1"
    then have "nflags x AND 2 = 0" by (intro bit_word_eqI) (auto simp: bit_and_iff bit_2_iff)
    then show False using assms by (simp add: FS_DIRECTORY_def)
  qed
  then have e: "nflags x OR FS_BLOCKDEVICE = (nflags x OR FS_BLOCKDEVICE) OR 2"
    by (intro bit_word_eqI) (auto simp: bit_or_iff bit_2_iff)
  have "node_kind (x\<lparr>nflags := nflags x OR FS_BLOCKDEVICE\<rparr>) = ((nflags x OR FS_BLOCKDEVICE) OR 2) AND FS_FLAGS_MASK"
    unfolding node_kind_def by (simp flip: e)
  then show ?thesis using kind_bits [of "nflags x OR FS_BLOCKDEVICE"] by (simp add: node_typed_def)
qed

lemma mount_typed:
  assumes "vfs_lookup path s = Some (s1, d)" and "vfs_mount_bdev b name s1 = Some (s2, n)"
    and "n = 0 \<or> nflags (fsnodes s2 n) AND FS_DIRECTORY \<noteq> 0" and "vfs_mount b path name s = Some (s', st)" and "nodes_typed s"
  shows "nodes_typed s'"
proof -
  have "nodes_typed s1" by (rule lookup_typed [OF assms(1,5)])
  moreover have "nodes_typed s2"
    using mount_bdev_typed [of "filesystems s1" b name s1 s2 n] assms(2) calculation by (simp add: vfs_mount_bdev_def)
  ultimately show ?thesis
    using assms(1-4) by (auto simp: vfs_mount_def Let_def split: if_splits intro!: typed_upd typed_block_directory)
qed

lemma step_typed: "vfs_step s s' \<Longrightarrow> nodes_typed s \<Longrightarrow> nodes_typed s'"
  by (induction rule: vfs_step.induct)
    (blast intro: fs_init_typed [THEN iffD2] mount_type_typed rootfs_typed cdev_init_typed bdev_init_typed file_open_typed
      file_close_typed file_read_typed mount_typed)+

lemma steps_typed: "vfs_step\<^sup>*\<^sup>* s s' \<Longrightarrow> nodes_typed s \<Longrightarrow> nodes_typed s'"
  by (induction rule: rtranclp_induct) (blast intro: step_typed)+

text \<open>What agreement is good for: no request takes the wrong member of the union.\<close>

lemma typed_ioctl: "nodes_typed s \<Longrightarrow> file_ioctl f req s \<noteq> None"
  using typedD [of s "file_node f"]
  by (auto simp: file_ioctl_def Let_def node_typed_def node_kind_def split: device.splits)

lemma typed_write: "nodes_typed s \<Longrightarrow> vfs_write nd off len buf s \<noteq> None"
  using typedD [of s nd]
  by (auto simp: vfs_write_def Let_def node_typed_def node_kind_def split: device.splits option.splits)

text \<open>The root of an ext2 volume is not flagged as a directory: once mounted it is a block device without a
  device, and a request on it follows \<^verbatim>\<open>NULL\<close>.\<close>

lemma mounted_ext2_root_untyped:
  assumes "vfs_lookup path s = Some (s1, d)" and "d \<noteq> 0" and "vfs_mount_bdev b name s1 = Some (s2, n)" and "n \<noteq> 0"
    and "nflags (fsnodes s2 n) = 0" and "ndev (fsnodes s2 n) = No_device"
  shows "\<exists>s'. vfs_mount b path name s = Some (s', ok) \<and> (\<forall>f req. file_node f = n \<longrightarrow> file_ioctl f req s' = None)"
  using assms by (auto simp: vfs_mount_def Let_def upd_node_def file_ioctl_def FS_FLAGS_MASK_def FS_CHARDEVICE_def FS_BLOCKDEVICE_def)

section \<open>Properties\<close>


text \<open>A root with the directory \<open>dev\<close>, in which the console is registered.\<close>

definition dev_state :: vfs where
  "dev_state = (disk_vfs iso_disk)\<lparr>vtree := dev_tree, fs_root := 0x100, fsnodes := (\<lambda>_. zero_node)(0x200 := zero_node\<lparr>nname := str ''dev''\<rparr>)\<rparr>"

lemma dev_state_cdev:
  "\<exists>s'. cdev_init \<lparr>cdev_name = ''tty0'', cops = None\<rparr> ops dev_state = Some (s', ok)"
proof -
  let ?K = "{Cache_at 0x900}" and ?H = "{(Cache_at 0x900, 0x10000)}" and ?T = "[0x100 \<mapsto> [0x200], 0x200 \<mapsto> []] :: u32 \<Rightarrow> u32 list option"
  have v: "vslub dev_state = open_heap" "fs_node_cache dev_state = 0x900" by (simp_all add: dev_state_def)
  have h: "heap_state dev_state ?K (Suc 13) ?H" using open_heap_state [OF v(1)] by simp
  have sv: "serves dev_state (Cache_at 0x900) 5" by (rule open_serves) (simp_all add: v)
  from take_served [OF h insertI1 sv] obtain m1 pa where
    1: "vmalloc 5 dev_state = Some (dev_state\<lparr>vslub := m1\<rparr>, pa)" "pa \<noteq> 0" "(Cache_at 0x900, pa) \<notin> ?H"
    "heap_state (dev_state\<lparr>vslub := m1\<rparr>) ?K 13 (insert (Cache_at 0x900, pa) ?H)" by blast
  obtain m2 where 2: "vfree pa (dev_state\<lparr>vslub := m1\<rparr>) = Some (dev_state\<lparr>vslub := m1\<rparr>\<lparr>vslub := m2\<rparr>)"
    "heap_state (dev_state\<lparr>vslub := m1\<rparr>\<lparr>vslub := m2\<rparr>) ?K 13 ?H"
    using give_object [OF 1(4,3)] by blast
  then have h2: "heap_state (dev_state\<lparr>vslub := m2\<rparr>) ?K (Suc 12) ?H" by simp
  obtain m3 a where 3: "cache_alloc (Cache_at 0x900) (dev_state\<lparr>vslub := m2\<rparr>) = Some (dev_state\<lparr>vslub := m2\<rparr>\<lparr>vslub := m3\<rparr>, a)" "a \<noteq> 0"
    using take_object [OF h2 insertI1] by blast
  have "wf_tree (vtree (dev_state\<lparr>vslub := m1\<rparr>)) ?T" using dev_tree by (simp add: dev_state_def)
  moreover have "\<forall>n cs. ?T n = Some cs \<longrightarrow> 0 \<notin> set cs" by simp
  moreover have "\<forall>n. parent (vtree (dev_state\<lparr>vslub := m1\<rparr>)) n \<noteq> Some 0"
    by (simp add: dev_state_def dev_tree_def tree_node_insert_def tree_node_init_def)
  moreover have "resolve (dev_state\<lparr>vslub := m1\<rparr>) ?T (tokens (str ''/'') (str ''/dev'')) 0x100 = Some 0x200"
    by (simp add: tokens_def str_def child_named_def dev_state_def)
  ultimately obtain q where
    "lookup_parts (tokens (str ''/'') (str ''/dev'')) \<lparr>rflags = 0, rpath = str ''/dev'', rnode = 0x100\<rparr> (dev_state\<lparr>vslub := m1\<rparr>) =
      Some (dev_state\<lparr>vslub := m1\<rparr>, \<lparr>rflags = 0, rpath = q, rnode = 0x200\<rparr>, ok)"
    using lookup_parts_resolve [of "dev_state\<lparr>vslub := m1\<rparr>" ?T "\<lparr>rflags = 0, rpath = str ''/dev'', rnode = 0x100\<rparr>"
      "tokens (str ''/'') (str ''/dev'')" "0x200"] by auto
  then have "vfs_lookup (str ''/dev'') dev_state = Some (dev_state\<lparr>vslub := m2\<rparr>, 0x200)"
    using 1(1,2) 2(1) by (simp add: vfs_lookup_def vfs_lookup_node_def vfs_lookup_tree_def vfs_lookup_request_valid_def
        vfs_strdup_def str_def) (simp add: dev_state_def)
  moreover have "fs_node_alloc (str ''tty0'') (dev_state\<lparr>vslub := m2\<rparr>) =
      Some (with_node (dev_state\<lparr>vslub := m2\<rparr>) m3 a (zero_node\<lparr>nname := str ''tty0''\<rparr>), a)"
    using fs_node_alloc_run [of "dev_state\<lparr>vslub := m2\<rparr>" m3 a "str ''tty0''"] 3 v(2) by (simp add: str_def)
  ultimately show ?thesis using 3(2) by (simp add: cdev_init_def vfs_mount_cdev_def Let_def)
qed


end
