(* ===== verification/LxLoad.thy ===== *)
theory LxLoad
  imports Lxboot FileOpen
begin

text \<open>
  Loading Linux from an ISO 9660 device: the functions of theory Lxboot run with files whose bytes are known
  (theories FileRead and FileOpen) and the memory is followed until the jump.
\<close>

section \<open>Writes to the memory\<close>

definition patch :: "nat \<Rightarrow> u8 list \<Rightarrow> u8 list \<Rightarrow> u8 list" where
  "patch k xs bs = take k bs @ xs @ drop (k + length xs) bs"

lemma put_bytes_Nil [simp]: "put_bytes m a [] = m"
  by (simp add: put_bytes_def)

lemma put_bytes_Cons: "put_bytes m a (x # xs) = (put_bytes m (a + 1) xs)(a := x)"
proof (rule ext)
  fix b
  have "unat (b - (a + 1)) = unat (b - a) - 1" if "b \<noteq> a"
    using that unat_minus_one [of "b - a"] by (simp add: diff_diff_eq)
  moreover have "unat (b - a) \<noteq> 0" if "b \<noteq> a" using that by (simp add: unat_eq_zero)
  ultimately show "put_bytes m a (x # xs) b = ((put_bytes m (a + 1) xs)(a := x)) b"
    by (auto simp: put_bytes_def nth_Cons')
qed

definition le16_bytes :: "u16 \<Rightarrow> u8 list" where "le16_bytes v = [ucast v, ucast (drop_bit 8 v)]"

lemma store_put_bytes:
  "store16 m a v = put_bytes m a (le16_bytes v)" "store32 m a w = put_bytes m a (le32_bytes w)" "m(a := x) = put_bytes m a [x]"
  by (auto simp: store16_def store32_def le16_bytes_def le32_bytes_def put_bytes_Cons fun_eq_iff)

lemma length_field_bytes [simp]: "length (le16_bytes v) = 2" "length (le32_bytes w) = 4"
  by (simp_all add: le16_bytes_def le32_bytes_def)

lemma length_patch [simp]: "k + length xs \<le> length bs \<Longrightarrow> length (patch k xs bs) = length bs"
  by (simp add: patch_def)

text \<open>A range after a write inside it, and after one beside it.\<close>

lemma mem_bytes_patch:
  assumes "k + length xs \<le> n" and "n < 2 ^ 32"
  shows "mem_bytes (put_bytes m (a + of_nat k) xs) a n = patch k xs (mem_bytes m a n)"
proof (rule nth_equalityI)
  fix i assume "i < length (mem_bytes (put_bytes m (a + of_nat k) xs) a n)"
  then have i: "i < n" by simp
  have "unat (of_nat i - of_nat k :: u32) = (if k \<le> i then i - k else i + 2 ^ 32 - k)"
    using i assms by (simp add: unat_sub_if' unat_of_nat32)
  then show "mem_bytes (put_bytes m (a + of_nat k) xs) a n ! i = patch k xs (mem_bytes m a n) ! i"
    using i assms by (auto simp: mem_bytes_def put_bytes_def patch_def nth_append)
qed (use assms in simp)

lemma mem_bytes_apart:
  assumes "unat q + length xs \<le> unat a \<or> unat a + n \<le> unat q" and "unat a + n \<le> 2 ^ 32" and "unat q + length xs \<le> 2 ^ 32"
  shows "mem_bytes (put_bytes m q xs) a n = mem_bytes m a n"
proof -
  have "put_bytes m q xs (a + of_nat i) = m (a + of_nat i)" if "i < n" for i
  proof (rule put_bytes_outside)
    have "unat (a + of_nat i) = unat a + i" using that assms(2) by (simp add: unat_plus_lt unat_of_nat32)
    then show "length xs \<le> unat (a + of_nat i - q)" using that assms by (auto simp: unat_sub_if')
  qed
  then show ?thesis by (simp add: mem_bytes_def)
qed

text \<open>The bytes that a read leaves in place.\<close>

lemma put_bytes_back:
  "length pc \<le> n \<Longrightarrow> n < 2 ^ 32 \<Longrightarrow> put_bytes m p (pc @ drop (length pc) (mem_bytes m p n)) = put_bytes m p pc"
  by (rule ext) (auto simp: put_bytes_def nth_append mem_bytes_def of_nat_unat)

lemma join_halves:
  "(ucast (a :: u8) OR push_bit 8 (ucast (b :: u8)) OR push_bit 16 (ucast (c :: u8)) OR push_bit 24 (ucast (d :: u8)) :: u32) =
   ucast (ucast a OR push_bit 8 (ucast b) :: u16) OR push_bit 16 (ucast (ucast c OR push_bit 8 (ucast d) :: u16))"
proof (rule bit_word_eqI)
  fix n assume n: "n < LENGTH(32)"
  consider "n < 8" | "8 \<le> n \<and> n < 16" | "16 \<le> n \<and> n < 24" | "24 \<le> n" by linarith
  then show "bit (ucast a OR push_bit 8 (ucast b) OR push_bit 16 (ucast c) OR push_bit 24 (ucast d) :: u32) n =
      bit (ucast (ucast a OR push_bit 8 (ucast b) :: u16) OR push_bit 16 (ucast (ucast c OR push_bit 8 (ucast d) :: u16)) :: u32) n"
    by cases (use n in \<open>auto simp: bit_simps dest: bit_imp_le_length\<close>)
qed

lemma le_mem_bytes:
  "k + 2 \<le> n \<Longrightarrow> le16_at (mem_bytes m a n) k = Some (load16 m (a + of_nat k))"
  "k + 4 \<le> n \<Longrightarrow> le32_at (mem_bytes m a n) k = Some (load32 m (a + of_nat k))"
proof -
  have b: "byte_at (mem_bytes m a n) j = Some (m (a + of_nat j))" if "j < n" for j
    using that by (simp add: byte_at_def mem_bytes_def)
  have w: "le16_at (mem_bytes m a n) j = Some (load16 m (a + of_nat j))" if "j + 2 \<le> n" for j
    using that b [of j] b [of "j + 1"] by (simp add: le16_at_def load16_def ac_simps)
  show "k + 2 \<le> n \<Longrightarrow> le16_at (mem_bytes m a n) k = Some (load16 m (a + of_nat k))" by (rule w)
  assume k: "k + 4 \<le> n"
  have "load32 m (a + of_nat k) = ucast (load16 m (a + of_nat k)) OR push_bit 16 (ucast (load16 m (a + of_nat (k + 2))))"
    using join_halves [of "m (a + of_nat k)" "m (a + of_nat k + 1)" "m (a + of_nat k + 2)" "m (a + of_nat k + 3)"]
    by (simp add: load32_def load16_def add.assoc add.commute add.left_commute)
  then show "le32_at (mem_bytes m a n) k = Some (load32 m (a + of_nat k))"
    using w [of k] w [of "k + 2"] k by (simp add: le32_at_def)
qed

section \<open>Reads of the loader\<close>

text \<open>An open file of an ISO 9660 device with the content \<open>C\<close>, which the caches of \<open>K\<close> let the code read.\<close>

definition iso_file :: "vfs \<Rightarrow> cache_id set \<Rightarrow> open_file \<Rightarrow> u8 list \<Rightarrow> bool" where
  "iso_file s K f C \<longleftrightarrow> (\<exists>D. file_on s (file_node f) D C) \<and> (\<exists>c \<in> K. block_cache s c (ucast (node_block s (file_node f)))) \<and>
     nops (fsnodes s (file_node f)) = Some Isofs_ops \<and> unat (file_length f) = length C"

lemma iso_file_cong:
  assumes "heap_layout (vslub t) = heap_layout (vslub s)" and "fsnodes t = fsnodes s" and "sbs t = sbs s"
  shows "iso_file t K f C = iso_file s K f C"
  using block_cache_layout [OF assms(1)] assms(2,3) by (simp add: iso_file_def file_on_def node_block_def)

lemma iso_file_seek [simp]: "iso_file s K (file_seek f pos off) C = iso_file s K f C"
  by (simp add: iso_file_def file_seek_def)

lemma seek_fields [simp]:
  "file_offset (file_seek f FILE_SET off) = off" "file_length (file_seek f pos off) = file_length f"
  by (simp_all add: file_seek_def)

lemma read_to_state:
  assumes "iso_file s K f C" and h: "heap_state s K (Suc (Suc n)) H" and "unat (file_offset f) = off"
    and "len = min (unat nbytes) (length C - off)" and "0 < len"
  obtains m where "read_to f nbytes p s = Some (s\<lparr>vslub := m, vmem := put_bytes (vmem s) p (take len (drop off C))\<rparr>, of_nat len)"
    and "heap_layout m = heap_layout (vslub s)"
    and "heap_state (s\<lparr>vslub := m, vmem := put_bytes (vmem s) p (take len (drop off C))\<rparr>) K (Suc (Suc n)) H"
proof -
  let ?pc = "take len (drop off C)"
  obtain D c where D: "file_on s (file_node f) D C" "c \<in> K" "block_cache s c (ucast (node_block s (file_node f)))"
    "nops (fsnodes s (file_node f)) = Some Isofs_ops" "unat (file_length f) = length C"
    using assms(1) unfolding iso_file_def by blast
  have l: "len \<le> length (mem_bytes (vmem s) p (unat nbytes))" "length (mem_bytes (vmem s) p (unat nbytes)) < 2 ^ 32"
    using assms(4) unat_lt32 [of nbytes] by simp_all
  obtain m where m: "file_read f nbytes (mem_bytes (vmem s) p (unat nbytes)) s =
      Some (s\<lparr>vslub := m\<rparr>, of_nat len, ?pc @ drop len (mem_bytes (vmem s) p (unat nbytes)))"
    "heap_layout m = heap_layout (vslub s)" "heap_state (s\<lparr>vslub := m\<rparr>) K (Suc (Suc n)) H"
    using file_read_state [OF D(1) h D(2-5) assms(3-5) l] by blast
  have pc: "length ?pc = len" using assms(4) by simp
  have "put_bytes (vmem s) p (?pc @ drop len (mem_bytes (vmem s) p (unat nbytes))) = put_bytes (vmem s) p ?pc"
    using put_bytes_back [of ?pc "unat nbytes" "vmem s" p] l unfolding pc by simp
  then have "read_to f nbytes p s = Some (s\<lparr>vslub := m, vmem := put_bytes (vmem s) p ?pc\<rparr>, of_nat len)"
    using m(1) by (simp add: read_to_def)
  with m(2,3) that show thesis by (simp add: heap_state_def)
qed

text \<open>The same in a state that differs from \<open>s\<close> in its memory and its allocator.\<close>

lemma heap_state_vmem [simp]: "heap_state (s\<lparr>vmem := M\<rparr>) K n H = heap_state s K n H"
  by (simp add: heap_state_def)

lemma read_at:
  assumes "iso_file s K f C" and "heap_layout m = heap_layout (vslub s)" and "heap_state (s\<lparr>vslub := m\<rparr>) K (Suc (Suc n)) H"
    and "len = min (unat nbytes) (length C - unat (file_offset f))" and "0 < len"
  obtains m' where "read_to f nbytes p (s\<lparr>vslub := m, vmem := M\<rparr>) =
      Some (s\<lparr>vslub := m', vmem := put_bytes M p (take len (drop (unat (file_offset f)) C))\<rparr>, of_nat len)"
    and "heap_layout m' = heap_layout (vslub s)" and "heap_state (s\<lparr>vslub := m'\<rparr>) K (Suc (Suc n)) H"
proof -
  let ?s = "s\<lparr>vslub := m, vmem := M\<rparr>"
  have f: "iso_file ?s K f C" using iso_file_cong [of ?s s] assms(1,2) by simp
  have h: "heap_state ?s K (Suc (Suc n)) H" using assms(3) by simp
  obtain m' where m': "read_to f nbytes p ?s = Some (?s\<lparr>vslub := m', vmem := put_bytes (vmem ?s) p (take len (drop (unat (file_offset f)) C))\<rparr>, of_nat len)"
    "heap_layout m' = heap_layout (vslub ?s)"
    "heap_state (?s\<lparr>vslub := m', vmem := put_bytes (vmem ?s) p (take len (drop (unat (file_offset f)) C))\<rparr>) K (Suc (Suc n)) H"
    by (rule read_to_state [OF f h refl assms(4,5)])
  show thesis by (rule that [of m']) (use m' assms(2) in simp_all)
qed

lemma alloc_at:
  assumes "heap_layout m = heap_layout (vslub s)" and "heap_state (s\<lparr>vslub := m\<rparr>) K (Suc n) H" and "c \<in> K" and "serves s c sz"
  obtains m' a where "vmalloc sz (s\<lparr>vslub := m, vmem := M\<rparr>) = Some (s\<lparr>vslub := m', vmem := M\<rparr>, a)" and "a \<noteq> 0"
    and "(c, a) \<notin> H" and "heap_layout m' = heap_layout (vslub s)" and "heap_state (s\<lparr>vslub := m'\<rparr>) K n (insert (c, a) H)"
proof -
  let ?s = "s\<lparr>vslub := m, vmem := M\<rparr>"
  have h: "heap_state ?s K (Suc n) H" using assms(2) by simp
  have c: "serves ?s c sz" using serves_layout [of ?s s] assms(1,4) by simp
  obtain m' a where m': "vmalloc sz ?s = Some (?s\<lparr>vslub := m'\<rparr>, a)" "a \<noteq> 0" "(c, a) \<notin> H"
    "heap_layout m' = heap_layout (vslub ?s)" "heap_state (?s\<lparr>vslub := m'\<rparr>) K n (insert (c, a) H)"
    by (rule take_served [OF h assms(3) c])
  show thesis by (rule that [of m' a]) (use m' assms(1) in \<open>simp_all add: heap_state_def\<close>)
qed

lemma free_at:
  assumes "heap_layout m = heap_layout (vslub s)" and "heap_state (s\<lparr>vslub := m\<rparr>) K n (insert (c, a) H)" and "(c, a) \<notin> H"
  obtains m' where "vfree a (s\<lparr>vslub := m, vmem := M\<rparr>) = Some (s\<lparr>vslub := m', vmem := M\<rparr>)"
    and "heap_layout m' = heap_layout (vslub s)" and "heap_state (s\<lparr>vslub := m'\<rparr>) K n H"
proof -
  let ?s = "s\<lparr>vslub := m, vmem := M\<rparr>"
  have h: "heap_state ?s K n (insert (c, a) H)" using assms(2) by simp
  obtain m' where m': "vfree a ?s = Some (?s\<lparr>vslub := m'\<rparr>)" "heap_layout m' = heap_layout (vslub ?s)"
    "heap_state (?s\<lparr>vslub := m'\<rparr>) K n H"
    by (rule give_object [OF h assms(3)])
  show thesis by (rule that [of m']) (use m' assms(1) in \<open>simp_all add: heap_state_def\<close>)
qed

section \<open>The images\<close>

text \<open>The bytes of a kernel: its header, the number of sectors of its setup code, and what the loader needs of them.
  The setup code ends below the command line, and the rest fits between 1 MB and 16 MB.\<close>

definition lx_header :: "u8 list \<Rightarrow> u8 list" where
  "lx_header CK = take 119 (drop 0x1f1 CK)"

definition setup_sects :: "u8 list \<Rightarrow> u8" where
  "setup_sects CK = (if CK ! 0x1f1 = 0 then 4 else CK ! 0x1f1)"

definition lx_image :: "u8 list \<Rightarrow> u16 \<Rightarrow> nat \<Rightarrow> bool" where
  "lx_image CK v len \<longleftrightarrow>
     le32_at (lx_header CK) 17 = Some LXBOOT_BZIMAGE_SIGNATURE \<and> le16_at (lx_header CK) 21 = Some v \<and> v \<ge> 0x0202 \<and>
     len = 512 * unat (setup_sects CK) + 512 \<and> len \<le> 0x9800 \<and> len < length CK \<and> length CK - len \<le> 0xF00000"

text \<open>The setup code with the fields that the protocol asks the loader for.\<close>

definition kernel_setup :: "u8 list \<Rightarrow> u16 \<Rightarrow> u32 \<Rightarrow> u8 list" where
  "kernel_setup bs heap_end cmd =
     patch 0x1fa (le16_bytes 0xffff) (patch 0x228 (le32_bytes cmd) (patch 0x211 [bs ! 0x211 OR 0x80]
       (patch 0x224 (le16_bytes (heap_end - 0x200)) (patch 0x210 [0xff] bs))))"

definition initrd_setup :: "u32 \<Rightarrow> u8 list \<Rightarrow> u8 list" where
  "initrd_setup n bs = patch 0x21c (le32_bytes n) (patch 0x218 (le32_bytes LXBOOT_INITRD_ADDR) bs)"

lemma setup_bytes_word: "lx_image CK v len \<Longrightarrow> (push_bit 9 (ucast (setup_sects CK)) + 512 :: u32) = of_nat len"
proof -
  assume "lx_image CK v len"
  then have "(of_nat len :: u32) = 512 * of_nat (unat (setup_sects CK)) + 512" by (simp add: lx_image_def)
  then show ?thesis unfolding ucast_nat by (simp add: push_bit_eq_mult mult.commute)
qed


section \<open>The kernel\<close>

definition kernel_memory :: "u8 list \<Rightarrow> u16 \<Rightarrow> nat \<Rightarrow> u8 list \<Rightarrow> u32 \<Rightarrow> u32 \<Rightarrow> mem \<Rightarrow> mem" where
  "kernel_memory CK v len bs hdr b m =
     (let t = heap_end_of v (CK ! 0x211); p = b + ucast t;
          m = put_bytes (put_bytes m hdr (lx_header CK)) b (take len CK);
          m = put_bytes (store32 (filled_header m (b + 0x1f1) t) (b + 0x1f1 + o_cmd_line_ptr) p) p bs;
          m = store16 m (b + 0x1f1 + o_vid_mode) 0xffff
      in put_bytes m LXBOOT_KERNEL_ADDR (drop len CK))"

definition kernel_info :: "u8 list \<Rightarrow> u16 \<Rightarrow> nat \<Rightarrow> u32 \<Rightarrow> lxboot_info" where
  "kernel_info CK v len b = \<lparr>signature = LXBOOT_BZIMAGE_SIGNATURE, bprotvers = v, rmcodesec = setup_sects CK,
     rmcodelen = of_nat len, pmcodelen = of_nat (length CK - len), rmcodehdr = b + 0x1f1, rmcodebuf = b\<rparr>"

lemma image_header:
  assumes "lx_image CK v len"
  shows "length (lx_header CK) = 119" and "lx_header CK = take 119 (drop 0x1f1 CK)" and "1024 \<le> len" and "len < length CK"
    and "mem_bytes (put_bytes m a (lx_header CK)) a 119 = lx_header CK"
    and "load32 (put_bytes m a (lx_header CK)) (a + o_header) = LXBOOT_BZIMAGE_SIGNATURE"
    and "load16 (put_bytes m a (lx_header CK)) (a + o_version) = v"
    and "put_bytes m a (lx_header CK) (a + o_setup_sects) = CK ! 0x1f1"
proof -
  have "setup_sects CK \<noteq> 0" by (simp add: setup_sects_def)
  then have "1 \<le> unat (setup_sects CK)" by (simp add: unat_gt_0 Suc_le_eq)
  then show l: "1024 \<le> len" "len < length CK" using assms by (simp_all add: lx_image_def)
  then show n: "length (lx_header CK) = 119" by (simp add: lx_header_def)
  show "lx_header CK = take 119 (drop 0x1f1 CK)" by (rule lx_header_def)
  show b: "mem_bytes (put_bytes m a (lx_header CK)) a 119 = lx_header CK"
    using mem_bytes_put_bytes [of "lx_header CK" m a] n by simp
  show "load32 (put_bytes m a (lx_header CK)) (a + o_header) = LXBOOT_BZIMAGE_SIGNATURE"
    using le_mem_bytes(2) [of 17 119 "put_bytes m a (lx_header CK)" a] assms unfolding b
    by (simp add: lx_image_def o_header_def)
  show "load16 (put_bytes m a (lx_header CK)) (a + o_version) = v"
    using le_mem_bytes(1) [of 21 119 "put_bytes m a (lx_header CK)" a] assms unfolding b
    by (simp add: lx_image_def o_version_def)
  show "put_bytes m a (lx_header CK) (a + o_setup_sects) = CK ! 0x1f1"
    using n l by (simp add: put_bytes_def o_setup_sects_def) (simp add: lx_header_def)
qed

lemma prepare_kernel_run:
  assumes f: "iso_file s K kn CK" and h: "heap_state s K 4 H" and im: "lx_image CK v len"
    and ch: "ch \<in> K" "serves s ch rm_header_bytes" and cl: "cl \<in> K" "serves s cl (of_nat len)"
    and bs: "cmdline e = Some bs"
  shows "\<exists>m hdr b. lxboot_prepare_kernel e kn no_info s =
      Some (s\<lparr>vslub := m, vmem := kernel_memory CK v len bs hdr b (vmem s)\<rparr>, kernel_info CK v len b, ok) \<and>
    b \<noteq> 0 \<and> obj_cache (vslub s) b = Some cl \<and> heap_layout m = heap_layout (vslub s) \<and>
    heap_state (s\<lparr>vslub := m\<rparr>) K 2 (insert (cl, b) H)"
proof -
  note I = image_header [OF im]
  let ?kn = "file_seek kn FILE_SET"
  have f: "iso_file s K (?kn off) CK" for off using f by simp
  have h4: "heap_state (s\<lparr>vslub := vslub s\<rparr>) K (Suc (Suc (Suc (Suc 0)))) H" using h by (simp add: eval_nat_numeral)
  have "len < 2 ^ 32" using im by (simp add: lx_image_def)
  then have len: "unat (of_nat len :: u32) = len" by (rule unat_of_nat32)
  have "length CK - len \<le> 0xF00000" using im unfolding lx_image_def by blast
  then have "length CK - len < 2 ^ 32" by simp
  then have rest: "unat (of_nat (length CK - len) :: u32) = length CK - len" by (rule unat_of_nat32)
  have n: "119 = min (unat rm_header_bytes) (length CK - unat (file_offset (?kn 0x1f1)))"
    "len = min (unat (of_nat len :: u32)) (length CK - unat (file_offset (?kn 0)))"
    "length CK - len = min (unat (of_nat (length CK - len) :: u32)) (length CK - unat (file_offset (?kn (of_nat len))))"
    using I(3,4) len rest by (simp_all add: rm_header_bytes_def)
  obtain m1 hdr where 1: "vmalloc rm_header_bytes (s\<lparr>vslub := vslub s, vmem := vmem s\<rparr>) = Some (s\<lparr>vslub := m1, vmem := vmem s\<rparr>, hdr)"
    "hdr \<noteq> 0" "(ch, hdr) \<notin> H" "heap_layout m1 = heap_layout (vslub s)"
    "heap_state (s\<lparr>vslub := m1\<rparr>) K (Suc (Suc (Suc 0))) (insert (ch, hdr) H)"
    by (rule alloc_at [OF refl h4 ch])
  obtain m2 where 2: "read_to (?kn 0x1f1) rm_header_bytes hdr (s\<lparr>vslub := m1, vmem := vmem s\<rparr>) =
      Some (s\<lparr>vslub := m2, vmem := put_bytes (vmem s) hdr (lx_header CK)\<rparr>, 119)" "heap_layout m2 = heap_layout (vslub s)"
    "heap_state (s\<lparr>vslub := m2\<rparr>) K (Suc (Suc (Suc 0))) (insert (ch, hdr) H)"
    using read_at [OF f 1(4,5) n(1), of hdr "vmem s"] unfolding I(2) by auto
  let ?M1 = "put_bytes (vmem s) hdr (lx_header CK)"
  obtain m3 where 3: "vfree hdr (s\<lparr>vslub := m2, vmem := ?M1\<rparr>) = Some (s\<lparr>vslub := m3, vmem := ?M1\<rparr>)"
    "heap_layout m3 = heap_layout (vslub s)" "heap_state (s\<lparr>vslub := m3\<rparr>) K (Suc (Suc (Suc 0))) H"
    by (rule free_at [OF 2(2,3) 1(3)])
  obtain m4 b where 4: "vmalloc (of_nat len) (s\<lparr>vslub := m3, vmem := ?M1\<rparr>) = Some (s\<lparr>vslub := m4, vmem := ?M1\<rparr>, b)" "b \<noteq> 0"
    "(cl, b) \<notin> H" "heap_layout m4 = heap_layout (vslub s)" "heap_state (s\<lparr>vslub := m4\<rparr>) K (Suc (Suc 0)) (insert (cl, b) H)"
    by (rule alloc_at [OF 3(2,3) cl])
  let ?M2 = "put_bytes ?M1 b (take len CK)"
  obtain m5 where 5: "read_to (?kn 0) (of_nat len) b (s\<lparr>vslub := m4, vmem := ?M1\<rparr>) = Some (s\<lparr>vslub := m5, vmem := ?M2\<rparr>, of_nat len)"
    "heap_layout m5 = heap_layout (vslub s)" "heap_state (s\<lparr>vslub := m5\<rparr>) K (Suc (Suc 0)) (insert (cl, b) H)"
    using read_at [OF f 4(4,5) n(2), of b ?M1] I(3) by auto
  let ?t = "heap_end_of v (CK ! 0x211)" and ?h = "b + 0x1f1"
  let ?M3 = "put_bytes (store32 (filled_header ?M2 ?h ?t) (?h + o_cmd_line_ptr) (b + ucast ?t)) (b + ucast ?t) bs"
  let ?M4 = "store16 ?M3 (?h + o_vid_mode) 0xffff"
  obtain m6 where 6: "read_to (?kn (of_nat len)) (of_nat (length CK - len)) LXBOOT_KERNEL_ADDR (s\<lparr>vslub := m5, vmem := ?M4\<rparr>) =
      Some (s\<lparr>vslub := m6, vmem := put_bytes ?M4 LXBOOT_KERNEL_ADDR (drop len CK)\<rparr>, of_nat (length CK - len))"
    "heap_layout m6 = heap_layout (vslub s)" "heap_state (s\<lparr>vslub := m6\<rparr>) K (Suc (Suc 0)) (insert (cl, b) H)"
    using read_at [OF f 5(2,3) n(3), of LXBOOT_KERNEL_ADDR ?M4] I(4) len by auto
  have fl: "?M2 (?h + o_loadflags) = CK ! 0x211"
    using I(3,4) by (simp add: put_bytes_def o_loadflags_def)
  have fields: "lxboot_prepare_fields e i ?M2 = Some (?M3, ok)"
    if "bprotvers i = v" "rmcodehdr i = ?h" "rmcodebuf i = b" for i
    using lxboot_fields_run [of i e bs ?M2] that bs im fl by (simp add: lx_image_def Let_def)
  have s0: "s\<lparr>vslub := vslub s, vmem := vmem s\<rparr> = s" by simp
  have km: "kernel_memory CK v len bs hdr b (vmem s) = put_bytes ?M4 LXBOOT_KERNEL_ADDR (drop len CK)"
    by (simp add: kernel_memory_def Let_def)
  have nz: "(119 :: u32) \<noteq> 0" "(of_nat len :: u32) \<noteq> 0" "(of_nat (length CK - len) :: u32) \<noteq> 0"
    using len rest I(3,4) by (auto simp: unat_eq_zero)
  have "length CK = unat (file_length kn)" using assms(1) by (simp add: iso_file_def)
  then have "file_length kn = of_nat (length CK)" by simp
  then have pm: "file_length kn - of_nat len = of_nat (length CK - len)" using I(4) by (simp add: of_nat_diff)
  have sects: "(if CK ! 0x1f1 = 0 then 4 else CK ! 0x1f1) = setup_sects CK" by (simp add: setup_sects_def)
  have v: "vmem (s\<lparr>vslub := m, vmem := M\<rparr>) = M" for m M by simp
  have mem: "set_mem M' (s\<lparr>vslub := m, vmem := M\<rparr>) = s\<lparr>vslub := m, vmem := M'\<rparr>" for m M M' by (simp add: set_mem_def)
  have sig: "\<not> LXBOOT_BZIMAGE_SIGNATURE \<noteq> LXBOOT_BZIMAGE_SIGNATURE" by simp
  have "lxboot_prepare_kernel e kn no_info s =
      Some (s\<lparr>vslub := m6, vmem := kernel_memory CK v len bs hdr b (vmem s)\<rparr>, kernel_info CK v len b, ok)"
    unfolding lxboot_prepare_kernel_def 1(1) [unfolded s0] Option.bind.simps prod.case if_not_P [OF 1(2)]
      2(1) [unfolded s0] if_not_P [OF nz(1)] v I(6-8) Let_def sects 3(1) setup_bytes_word [OF im] 4(1) if_not_P [OF 4(2)]
      5(1) if_not_P [OF nz(2)]
      if_not_P [OF sig]
    by (simp add: fields pm v mem 6(1) nz(3) km) (simp add: kernel_info_def no_info_def)
  moreover have "obj_cache (vslub s) b = Some cl"
    using held_object(1) [OF 6(3), of cl b] 6(2) by (simp add: heap_layout_def)
  ultimately show ?thesis using 4(2) 6(2,3) by (auto simp: eval_nat_numeral)
qed


section \<open>The initial ramdisk\<close>

definition initrd_memory :: "u8 list \<Rightarrow> u32 \<Rightarrow> mem \<Rightarrow> mem" where
  "initrd_memory CI b m =
     store32 (store32 (put_bytes m LXBOOT_INITRD_ADDR CI) (b + 0x1f1 + o_ramdisk_image) LXBOOT_INITRD_ADDR)
       (b + 0x1f1 + o_ramdisk_size) (of_nat (length CI))"

lemma prepare_initrd_run:
  assumes "iso_file s K ir CI" and "file_offset ir = 0" and "CI \<noteq> []" and "heap_layout m = heap_layout (vslub s)"
    and "heap_state (s\<lparr>vslub := m\<rparr>) K 2 H" and "rmcodehdr info = b + 0x1f1"
  shows "\<exists>m'. lxboot_prepare_initrd ir info (s\<lparr>vslub := m, vmem := M\<rparr>) = Some (s\<lparr>vslub := m', vmem := initrd_memory CI b M\<rparr>, ok)"
proof -
  have l: "length CI = unat (file_length ir)" using assms(1) by (simp add: iso_file_def)
  then have fl: "file_length ir = of_nat (length CI)" by simp
  have n: "length CI = min (unat (file_length ir)) (length CI - unat (file_offset ir))" using l assms(2) by simp
  have h: "heap_state (s\<lparr>vslub := m\<rparr>) K (Suc (Suc 0)) H" using assms(5) by (simp add: eval_nat_numeral)
  obtain m' where "read_to ir (file_length ir) LXBOOT_INITRD_ADDR (s\<lparr>vslub := m, vmem := M\<rparr>) =
      Some (s\<lparr>vslub := m', vmem := put_bytes M LXBOOT_INITRD_ADDR CI\<rparr>, file_length ir)"
    using read_at [OF assms(1,4) h n, of LXBOOT_INITRD_ADDR M] assms(2,3) fl by auto
  moreover have "file_length ir \<noteq> 0" using l assms(3) by auto
  ultimately show ?thesis
    by (intro exI [of _ m']) (simp add: lxboot_prepare_initrd_def set_mem_def initrd_memory_def assms(6) fl)
qed

section \<open>The memory at the jump\<close>

lemma filled_header_put:
  "store32 (filled_header m (b + 0x1f1) t) (b + 0x1f1 + o_cmd_line_ptr) p =
   put_bytes (put_bytes (put_bytes (put_bytes m (b + of_nat 0x210) [0xff]) (b + of_nat 0x224) (le16_bytes (t - 0x200)))
     (b + of_nat 0x211) [m (b + 0x211) OR 0x80]) (b + of_nat 0x228) (le32_bytes p)"
proof -
  have "store16 (m(b + 0x210 := 0xff)) (b + 0x224) (t - 0x200) (b + 0x211) = m (b + 0x211)" by (simp add: store16_def)
  then show ?thesis
    by (simp add: filled_header_def Let_def lx_offsets add.assoc store_put_bytes(2)) (simp add: store_put_bytes)
qed

lemma kernel_memory_put:
  "kernel_memory CK v len bs hdr b m =
     (let t = heap_end_of v (CK ! 0x211); p = b + ucast t; m = put_bytes (put_bytes m hdr (lx_header CK)) b (take len CK);
          m = put_bytes (put_bytes (put_bytes (put_bytes m (b + of_nat 0x210) [0xff]) (b + of_nat 0x224) (le16_bytes (t - 0x200)))
            (b + of_nat 0x211) [m (b + 0x211) OR 0x80]) (b + of_nat 0x228) (le32_bytes p)
      in put_bytes (put_bytes (put_bytes m p bs) (b + of_nat 0x1fa) (le16_bytes 0xffff)) LXBOOT_KERNEL_ADDR (drop len CK))"
  unfolding kernel_memory_def Let_def filled_header_put by (simp add: store_put_bytes(1) o_vid_mode_def add.assoc)

lemma initrd_memory_put:
  "initrd_memory CI b m = put_bytes (put_bytes (put_bytes m LXBOOT_INITRD_ADDR CI) (b + of_nat 0x218) (le32_bytes LXBOOT_INITRD_ADDR))
     (b + of_nat 0x21c) (le32_bytes (of_nat (length CI)))"
  by (simp add: initrd_memory_def store_put_bytes(2) lx_offsets add.assoc)

definition linux_loaded :: "mem \<Rightarrow> u32 \<Rightarrow> u16 \<Rightarrow> nat \<Rightarrow> u8 list \<Rightarrow> u8 list \<Rightarrow> u8 list \<Rightarrow> bool" where
  "linux_loaded m b v len CK CI bs \<longleftrightarrow>
     (let t = heap_end_of v (CK ! 0x211); p = b + ucast t in
      mem_bytes m b len = initrd_setup (of_nat (length CI)) (kernel_setup (take len CK) t p) \<and>
      mem_bytes m p (length bs) = bs \<and> mem_bytes m LXBOOT_KERNEL_ADDR (length CK - len) = drop len CK \<and>
      mem_bytes m LXBOOT_INITRD_ADDR (length CI) = CI)"

lemma linux_memory:
  assumes im: "lx_image CK v len" and b: "unat b + 0xe000 + length bs \<le> 0x100000" and ci: "length CI \<le> 0xFF000000"
  shows "linux_loaded (initrd_memory CI b (kernel_memory CK v len bs hdr b m)) b v len CK CI bs"
proof -
  let ?t = "heap_end_of v (CK ! 0x211)"
  define p where "p = b + ucast ?t"
  note I = image_header [OF im]
  have len: "1024 \<le> len" "len \<le> 0x9800" "length CK - len \<le> 0xF00000" "len < length CK"
    using im I(3) unfolding lx_image_def by blast+
  have l32: "len < 2 ^ 32" using len(2) by simp
  have "unat (ucast ?t :: u32) = 0xe000 \<or> unat (ucast ?t :: u32) = 0x9800" by (simp add: heap_end_of_def)
  then have p: "unat b + 0x9800 \<le> unat p" "unat p + length bs \<le> 0x100000"
    using b by (auto simp: p_def unat_plus_lt)
  have bk: "unat (b + of_nat k) = unat b + k" if "k \<le> 0x9800" for k
    using that b by (simp add: unat_plus_lt unat_of_nat32)
  have at: "unat LXBOOT_KERNEL_ADDR = 0x100000" "unat LXBOOT_INITRD_ADDR = 0x1000000"
    by (simp_all add: LXBOOT_KERNEL_ADDR_def LXBOOT_INITRD_ADDR_def)
  let ?m0 = "put_bytes (put_bytes m hdr (lx_header CK)) b (take len CK)"
  have m0: "mem_bytes ?m0 b len = take len CK" using mem_bytes_put_bytes [of "take len CK"] len(4) l32 by simp
  have lf: "?m0 (b + 0x211) = take len CK ! 0x211" using len by (simp add: put_bytes_def)
  let ?m1 = "put_bytes (put_bytes (put_bytes (put_bytes ?m0 (b + of_nat 0x210) [0xff]) (b + of_nat 0x224) (le16_bytes (?t - 0x200)))
            (b + of_nat 0x211) [take len CK ! 0x211 OR 0x80]) (b + of_nat 0x228) (le32_bytes p)"
  let ?m2 = "put_bytes ?m1 p bs"
  let ?m3 = "put_bytes (put_bytes ?m2 (b + of_nat 0x1fa) (le16_bytes 0xffff)) LXBOOT_KERNEL_ADDR (drop len CK)"
  let ?m4 = "put_bytes ?m3 LXBOOT_INITRD_ADDR CI"
  let ?m5 = "put_bytes (put_bytes ?m4 (b + of_nat 0x218) (le32_bytes LXBOOT_INITRD_ADDR)) (b + of_nat 0x21c) (le32_bytes (of_nat (length CI)))"
  have final: "initrd_memory CI b (kernel_memory CK v len bs hdr b m) = ?m5"
    unfolding kernel_memory_put initrd_memory_put Let_def lf p_def [symmetric] ..
  have field: "mem_bytes (put_bytes x (b + of_nat k) xs) b len = patch k xs (mem_bytes x b len)" if "k + length xs \<le> 1024" for x k xs
    by (rule mem_bytes_patch [OF _ l32]) (use that len(1) in simp)
  have behind: "mem_bytes (put_bytes x p bs) b len = mem_bytes x b len"
    "mem_bytes (put_bytes x LXBOOT_KERNEL_ADDR (drop len CK)) b len = mem_bytes x b len"
    "mem_bytes (put_bytes x LXBOOT_INITRD_ADDR CI) b len = mem_bytes x b len" for x
    by (rule mem_bytes_apart; use len b p at ci in simp)+
  have "mem_bytes ?m5 b len = initrd_setup (of_nat (length CI)) (kernel_setup (take len CK) ?t p)"
    by (simp add: field behind m0 initrd_setup_def kernel_setup_def del: of_nat_numeral)
  moreover have "mem_bytes ?m5 p (length bs) = bs"
    using len b p at ci by (simp add: mem_bytes_apart bk mem_bytes_put_bytes del: of_nat_numeral)
  moreover have "mem_bytes ?m5 LXBOOT_KERNEL_ADDR (length CK - len) = drop len CK"
    using len b p at ci mem_bytes_put_bytes [of "drop len CK"] by (simp add: mem_bytes_apart bk del: of_nat_numeral)
  moreover have "mem_bytes ?m5 LXBOOT_INITRD_ADDR (length CI) = CI"
    using len b p at ci by (simp add: mem_bytes_apart bk mem_bytes_put_bytes del: of_nat_numeral)
  ultimately show ?thesis unfolding final linux_loaded_def Let_def p_def by blast
qed

lemma real_mode_segment:
  "unat (b :: u32) < 0x100000 \<Longrightarrow> 16 * unat (ucast (RM_SEG b) :: u16) + unat b mod 16 = unat b"
proof -
  assume b: "unat b < 0x100000"
  have m: "(0xffff0 :: u32) = push_bit 4 (mask 16)" by (simp add: mask_eq_exp_minus_1)
  have "RM_SEG b = take_bit 16 (drop_bit 4 b)"
    unfolding RM_SEG_def m by (rule bit_word_eqI) (auto simp: bit_simps)
  then have "unat (RM_SEG b) = take_bit 16 (drop_bit 4 (unat b))" by (simp only: unsigned_take_bit_eq unat_drop_bit_eq)
  also have "\<dots> = unat b div 16" using b by (simp add: take_bit_eq_mod drop_bit_eq_div)
  finally have "unat (ucast (RM_SEG b) :: u16) = unat b div 16"
    using b by (simp add: unsigned_ucast_eq take_bit_eq_mod)
  then show ?thesis by simp
qed

section \<open>Booting\<close>


text \<open>On ext2 with blocks of 1 KiB a request that begins in the middle of a block loses its end: a kernel with four
  setup sectors and 1 KiB of protected-mode code is loaded without the last 512 bytes, and the read returns no error.\<close>

lemma ext2_kernel_tail_lost: "ext2_reach 1024 (512 * 4 + 512) 1024 = 512"
  by (simp add: ext2_reach_def)

text \<open>A second file of the root directory is opened after the first.\<close>

lemma second_path:
  assumes f: "fresh_path s T path name nd D r" and T: "T nd = Some []" "T a = None" and nd: "nd = fs_root s" and a: "a \<noteq> 0"
    and dir: "directory_on s nd D rs" and r: "find (name_matches name') rs = Some r'"
    and nm: "tokens (str ''/'') path' = [name']" "name' \<noteq> name" "name' \<noteq> str ''.''" "name' \<noteq> str ''..''" "0 \<notin> set name'" "length name' \<le> 64"
    and x: "nname x = name" and un: "\<forall>p cs. T p = Some cs \<longrightarrow> a \<notin> set cs"
  shows "fresh_path (opened s m a nd x) (T(a \<mapsto> [], nd \<mapsto> [a])) path' name' nd D r'"
proof -
  have an: "a \<noteq> nd" using T by auto
  have "wf_tree (vtree (opened s m a nd x)) (T(a \<mapsto> [], nd \<mapsto> [] @ [a]))"
    using opened_tree [of s T nd "[]" a m x] f T un by (simp add: fresh_path_def)
  moreover have "directory_on (opened s m a nd x) nd D rs" using dir an by (simp add: directory_on_def)
  moreover have "parent (vtree (opened s m a nd x)) n \<noteq> Some 0" for n
    using f by (simp add: fresh_path_def tree_node_insert_def tree_node_init_def)
  moreover have "fs_root (opened s m a nd x) = nd" "nd \<noteq> 0" using f nd by (simp_all add: fresh_path_def opened_def with_node_def)
  ultimately show ?thesis
    using f r nm x a an unfolding fresh_path_def by auto
qed

text \<open>A device with a kernel of one sector of setup code and an initial ramdisk.\<close>

definition lx_kernel :: "u8 list" where
  "lx_kernel = replicate 0x1f1 0 @ [1] @ replicate 16 0 @ [0x48, 0x64, 0x72, 0x53, 0x0f, 0x02] @ replicate 9 0 @ [1] @ replicate 970 7"

definition lx_kernel_record :: iso_record where
  "lx_kernel_record = \<lparr>r_extent = 2, r_size = 1500, r_flags = 0, r_name = str ''KERNEL.;1'', r_tail = []\<rparr>"

definition lx_initrd_record :: iso_record where
  "lx_initrd_record = \<lparr>r_extent = 4, r_size = 3, r_flags = 0, r_name = str ''INITRD.;1'', r_tail = []\<rparr>"

definition lx_disk :: "u8 list" where
  "lx_disk = replicate 1024 0 @ (record_bytes lx_kernel_record @ record_bytes lx_initrd_record @ 0 # replicate 939 0) @
     (lx_kernel @ replicate 548 0) @ ([1, 2, 3] @ replicate 1021 0)"

lemma lx_disk: "length lx_disk = 5120"
  "block_of lx_disk 1024 1 = concat (map record_bytes [lx_kernel_record, lx_initrd_record]) @ 0 # replicate 939 0"
  "take 1500 (drop 2048 lx_disk) = lx_kernel" "take 3 (drop 4096 lx_disk) = [1, 2, 3]"
proof -
  have l: "length (record_bytes lx_kernel_record) = 42" "length (record_bytes lx_initrd_record) = 42" "length lx_kernel = 1500"
    by (simp_all add: length_record record_len_def DENT_BYTES_def lx_kernel_record_def lx_initrd_record_def str_def lx_kernel_def)
  show "length lx_disk = 5120" unfolding lx_disk_def by (simp add: l)
  show "block_of lx_disk 1024 1 = concat (map record_bytes [lx_kernel_record, lx_initrd_record]) @ 0 # replicate 939 0"
    unfolding block_of_def lx_disk_def by (simp add: l)
  show "take 1500 (drop 2048 lx_disk) = lx_kernel" "take 3 (drop 4096 lx_disk) = [1, 2, 3]"
    unfolding lx_disk_def by (simp_all add: l)
qed

lemma lx_kernel: "lx_image lx_kernel 0x020f 1024" "length lx_kernel = 1500" "lx_kernel ! 0x211 = 1"
proof -
  show l: "length lx_kernel = 1500" by (simp add: lx_kernel_def)
  show "lx_kernel ! 0x211 = 1" by (simp add: lx_kernel_def nth_append)
  have h: "lx_header lx_kernel = [1] @ replicate 16 0 @ [0x48, 0x64, 0x72, 0x53, 0x0f, 0x02] @ replicate 9 0 @ [1] @ replicate 86 7"
    by (simp add: lx_header_def lx_kernel_def)
  have "le32_at (lx_header lx_kernel) 17 = Some LXBOOT_BZIMAGE_SIGNATURE" "le16_at (lx_header lx_kernel) 21 = Some 0x020f"
    unfolding h by (simp_all add: le32_at_def le16_at_def byte_at_def nth_append LXBOOT_BZIMAGE_SIGNATURE_def)
  moreover have "setup_sects lx_kernel = 1" by (simp add: setup_sects_def lx_kernel_def nth_append)
  ultimately show "lx_image lx_kernel 0x020f 1024" using l by (simp add: lx_image_def)
qed

definition lx_entry :: boot_entry where
  "lx_entry = \<lparr>bname = None, kernel_path = Some (str ''/KERNEL''), initrd_path = Some (str ''/INITRD''),
     cmdline = Some (str ''quiet''), prot = LOADER_PROTOCOL_LINUX\<rparr>"

lemma lx_records:
  "\<forall>r \<in> set [lx_kernel_record, lx_initrd_record]. wf_record r"
  "find (name_matches (str ''KERNEL'')) [lx_kernel_record, lx_initrd_record] = Some lx_kernel_record"
  "find (name_matches (str ''INITRD'')) [lx_kernel_record, lx_initrd_record] = Some lx_initrd_record"
  by (simp_all add: wf_record_def record_len_def DENT_BYTES_def lx_kernel_record_def lx_initrd_record_def str_def
      name_matches_def shown_name_def)

lemma lx_directory: "directory_on (disk_vfs lx_disk) 0x10000 lx_disk [lx_kernel_record, lx_initrd_record]"
  by (rule disk_root [where post = "replicate 939 0"]) (use lx_disk lx_records(1) in simp_all)

lemma lx_opened:
  obtains m a fk nk m' a' fi ni where
    "file_open (str ''/KERNEL'') 0 (disk_vfs lx_disk) = Some (opened (disk_vfs lx_disk) m a 0x10000 (record_node 0 (str ''KERNEL'') lx_kernel_record),
       Some \<lparr>file_addr = fk, file_name = nk, file_node = a, file_flags = 0, file_offset = 0, file_length = 1500\<rparr>)"
    and "file_open (str ''/INITRD'') 0 (opened (disk_vfs lx_disk) m a 0x10000 (record_node 0 (str ''KERNEL'') lx_kernel_record)) =
      Some (opened (opened (disk_vfs lx_disk) m a 0x10000 (record_node 0 (str ''KERNEL'') lx_kernel_record)) m' a' 0x10000
          (record_node 0 (str ''INITRD'') lx_initrd_record),
        Some \<lparr>file_addr = fi, file_name = ni, file_node = a', file_flags = 0, file_offset = 0, file_length = 3\<rparr>)"
    and "a \<noteq> a'" and "heap_layout m' = heap_layout open_heap"
    and "heap_state (opened (opened (disk_vfs lx_disk) m a 0x10000 (record_node 0 (str ''KERNEL'') lx_kernel_record)) m' a' 0x10000
          (record_node 0 (str ''INITRD'') lx_initrd_record)) {Cache_at 0x900} 4
        (insert (Cache_at 0x900, a') (insert (Cache_at 0x900, a) {(Cache_at 0x900, 0x10000)}))"
proof -
  let ?s = "disk_vfs lx_disk" and ?c = "Cache_at 0x900" and ?T = "[0x10000 \<mapsto> []] :: u32 \<Rightarrow> u32 list option"
    and ?x = "record_node 0 (str ''KERNEL'') lx_kernel_record" and ?y = "record_node 0 (str ''INITRD'') lx_initrd_record"
  have sb: "nsb (fsnodes ?s 0x10000) = 0" by (simp add: disk_vfs_def zero_node_def)
  have p1: "fresh_path ?s ?T (str ''/KERNEL'') (str ''KERNEL'') 0x10000 lx_disk lx_kernel_record"
    by (rule disk_path [OF lx_directory lx_records(2)]) (simp_all add: tokens_def str_def)
  have h: "heap_state ?s {?c} (9 + 5) {(?c, 0x10000)}" using open_heap_state [of ?s] by simp
  have mem1: "open_memory ?s {?c} (str ''/KERNEL'') (str ''KERNEL'') 0x10000"
    by (rule demo_memory) (simp_all add: str_def)
  obtain m a fk nk where 1: "file_open (str ''/KERNEL'') 0 ?s = Some (opened ?s m a 0x10000 ?x,
       Some \<lparr>file_addr = fk, file_name = nk, file_node = a, file_flags = 0, file_offset = 0, file_length = r_size lx_kernel_record\<rparr>)"
    "(?c, a) \<notin> {(?c, 0x10000)}" "heap_layout m = heap_layout open_heap"
    "heap_state (opened ?s m a 0x10000 ?x) {?c} 9 (insert (?c, a) {(?c, 0x10000)})"
    using file_open_fresh [OF p1 h mem1, of 0] unfolding sb by auto
  let ?s0 = "opened ?s m a 0x10000 ?x"
  have a: "a \<noteq> 0" "a \<noteq> 0x10000" using held_object(2) [OF 1(4), of ?c a] 1(2) by auto
  have p2: "fresh_path ?s0 (?T(a \<mapsto> [], 0x10000 \<mapsto> [a])) (str ''/INITRD'') (str ''INITRD'') 0x10000 lx_disk lx_initrd_record"
    by (rule second_path [OF p1 _ _ _ a(1) lx_directory lx_records(3)])
      (use a in \<open>simp_all add: tokens_def str_def record_node_def split: if_splits\<close>)
  have mem2: "open_memory ?s0 {?c} (str ''/INITRD'') (str ''INITRD'') 0x10000"
    by (rule demo_memory) (use 1(3) a in \<open>simp_all add: str_def opened_def with_node_def\<close>)
  have h2: "heap_state ?s0 {?c} (4 + 5) (insert (?c, a) {(?c, 0x10000)})" using 1(4) by simp
  have sb2: "nsb (fsnodes ?s0 0x10000) = 0" "fs_node_cache ?s0 = 0x900" using sb a by (simp_all add: opened_def with_node_def)
  obtain m' a' fi ni where 2: "file_open (str ''/INITRD'') 0 ?s0 = Some (opened ?s0 m' a' 0x10000 ?y,
       Some \<lparr>file_addr = fi, file_name = ni, file_node = a', file_flags = 0, file_offset = 0, file_length = r_size lx_initrd_record\<rparr>)"
    "(?c, a') \<notin> insert (?c, a) {(?c, 0x10000)}" "heap_layout m' = heap_layout m"
    "heap_state (opened ?s0 m' a' 0x10000 ?y) {?c} 4 (insert (?c, a') (insert (?c, a) {(?c, 0x10000)}))"
    using file_open_fresh [OF p2 h2 mem2, of 0] unfolding sb2 by auto
  have sz: "r_size lx_kernel_record = 1500" "r_size lx_initrd_record = 3"
    by (simp_all add: lx_kernel_record_def lx_initrd_record_def)
  have "a \<noteq> a'" using 2(2) by auto
  then show thesis using that 1(1) 2(1,4) 2(3) [unfolded 1(3)] unfolding sz by blast
qed


end
