(* ===== verification/AhciRead.thy ===== *)
theory AhciRead
  imports Ahci FileOpen
begin

text \<open>
  Reading through \<^verbatim>\<open>ahci_satapi_read\<close> against a controller that does what the AHCI standard says,
  with a packet device behind it.
\<close>

section \<open>The controller\<close>

text \<open>A view of the controller's state: the address of the command list, the slots that native queuing
  holds, the issued commands, and how many reads of the task file will still say busy and of the issued
  commands that the command still runs.\<close>

record hba_view =
  vclb :: u32
  vsact :: u32
  vci :: u32
  vbusy :: nat
  vrun :: nat

text \<open>Reading a register of an idle port changes nothing; the status never reports an error.\<close>

definition hba_registers :: "'d controller \<Rightarrow> u32 \<Rightarrow> ('d \<Rightarrow> hba_view) \<Rightarrow> bool" where
  "hba_registers hw port view \<longleftrightarrow>
     (\<forall>d m. reg_read hw (port + o_clb) d m = (vclb (view d), d, m) \<and>
        reg_read hw (port + o_sact) d m = (vsact (view d), d, m) \<and>
        (vci (view d) = 0 \<longrightarrow> reg_read hw (port + o_ci) d m = (0, d, m)))"

definition tfd_answer :: "('d \<Rightarrow> hba_view) \<Rightarrow> 'd \<Rightarrow> u32 \<Rightarrow> 'd \<Rightarrow> bool" where
  "tfd_answer view d x d' \<longleftrightarrow>
     (if vbusy (view d) > 0
      then (x AND ucast ATA_SR_BSY \<noteq> 0 \<or> x AND ucast ATA_SR_DRQ \<noteq> 0) \<and> view d' = (view d)\<lparr>vbusy := vbusy (view d) - 1\<rparr>
      else x AND ucast ATA_SR_BSY = 0 \<and> x AND ucast ATA_SR_DRQ = 0 \<and> view d' = view d)"

definition hba_status :: "'d controller \<Rightarrow> u32 \<Rightarrow> ('d \<Rightarrow> hba_view) \<Rightarrow> bool" where
  "hba_status hw port view \<longleftrightarrow>
     (\<forall>d m. (\<exists>x d'. reg_read hw (port + o_is) d m = (x, d', m) \<and> x AND HBA_PxIS_TFES = 0 \<and> view d' = view d) \<and>
        (\<exists>x d'. reg_read hw (port + o_tfd) d m = (x, d', m) \<and> tfd_answer view d x d'))"

text \<open>A write of the issue register adds the bits that are set, after which the command runs for a while.\<close>

definition hba_issues :: "'d controller \<Rightarrow> u32 \<Rightarrow> ('d \<Rightarrow> hba_view) \<Rightarrow> bool" where
  "hba_issues hw port view \<longleftrightarrow>
     (\<forall>d m x. \<exists>d' n. reg_write hw (port + o_ci) x d m = (d', m) \<and>
        view d' = (view d)\<lparr>vci := vci (view d) OR x, vrun := n\<rparr>)"

text \<open>A packet command in a slot is given to the device, whose answer goes to the buffer, as much as fits;
  then the bit of the slot is cleared. Nothing is said of memory that holds no command.\<close>

definition hba_runs :: "'d controller \<Rightarrow> u32 \<Rightarrow> (u8 list \<Rightarrow> u8 list) \<Rightarrow> ('d \<Rightarrow> hba_view) \<Rightarrow> bool" where
  "hba_runs hw port answer view \<longleftrightarrow>
     (\<forall>d m k. k < 32 \<and> vci (view d) = push_bit k 1 \<longrightarrow>
        (if vrun (view d) > 0
         then \<exists>d'. reg_read hw (port + o_ci) d m = (push_bit k 1, d', m) \<and> view d' = (view d)\<lparr>vrun := vrun (view d) - 1\<rparr>
         else \<forall>t cmd. command_block m (vclb (view d) + of_nat k * 32) t True cmd \<and> 12 \<le> length (apacket cmd) \<longrightarrow>
           (\<exists>d'. reg_read hw (port + o_ci) d m =
                (0, d', put_bytes m (abuffer cmd) (take (unat (abuflen cmd)) (answer (take 12 (apacket cmd))))) \<and>
              view d' = (view d)\<lparr>vci := 0\<rparr>)))"

definition hba_device :: "'d controller \<Rightarrow> u32 \<Rightarrow> (u8 list \<Rightarrow> u8 list) \<Rightarrow> ('d \<Rightarrow> hba_view) \<Rightarrow> bool" where
  "hba_device hw port answer view \<longleftrightarrow>
     hba_registers hw port view \<and> hba_status hw port view \<and> hba_issues hw port view \<and> hba_runs hw port answer view"

text \<open>A device with the bytes \<open>D\<close>, in blocks of \<open>bs\<close>: its answer to a \<open>READ(12)\<close>, whose numbers are big-endian.\<close>

definition be_bytes32 :: "u32 \<Rightarrow> u8 list" where "be_bytes32 v = rev (le_bytes32 v)"

lemma length_be_bytes32 [simp]: "length (be_bytes32 v) = 4"
  by (simp add: be_bytes32_def)

definition atapi_disk :: "u8 list \<Rightarrow> nat \<Rightarrow> (u8 list \<Rightarrow> u8 list) \<Rightarrow> bool" where
  "atapi_disk D bs answer \<longleftrightarrow>
     (\<forall>lba n. (unat lba + unat n) * bs \<le> length D \<longrightarrow>
        answer ([0xA8, 0] @ be_bytes32 lba @ be_bytes32 n @ [0, 0]) = take (unat n * bs) (drop (unat lba * bs) D))"

section \<open>Waiting\<close>

lemma rd_same: "reg_read hw a d (vmem v) = (x, d', vmem v) \<Longrightarrow> rd hw a (d, v) = (x, d', v)"
  by (simp add: rd_def)

lemma tfd_steps:
  assumes "tfd_answer view d x d'"
  shows "x AND ucast ATA_SR_BSY \<noteq> 0 \<or> x AND ucast ATA_SR_DRQ \<noteq> 0 \<Longrightarrow> vbusy (view d') < vbusy (view d)"
    and "vbusy (view d') \<le> vbusy (view d)" and "(view d')\<lparr>vbusy := 0\<rparr> = (view d)\<lparr>vbusy := 0\<rparr>"
  using assms by (auto simp: tfd_answer_def split: if_splits)

lemma port_wait_ready:
  assumes "hba_status hw port view"
  shows "\<exists>d'. ahci_port_wait hw port (d, v) = Some (d', v) \<and> (view d')\<lparr>vbusy := 0\<rparr> = (view d)\<lparr>vbusy := 0\<rparr>"
proof (induction "vbusy (view d)" arbitrary: d rule: less_induct)
  case less
  have tf: "\<exists>x d'. rd hw (port + o_tfd) (d, v) = (x, d', v) \<and> tfd_answer view d x d'" for d
  proof -
    obtain x d' where "reg_read hw (port + o_tfd) d (vmem v) = (x, d', vmem v)" "tfd_answer view d x d'"
      using assms unfolding hba_status_def by blast
    then show ?thesis by (intro exI [of _ x] exI [of _ d'] conjI rd_same)
  qed
  obtain x d1 where 1: "rd hw (port + o_tfd) (d, v) = (x, d1, v)" "tfd_answer view d x d1" using tf by blast
  obtain y d2 where 2: "rd hw (port + o_tfd) (d1, v) = (y, d2, v)" "tfd_answer view d1 y d2" using tf by blast
  note s1 = tfd_steps [OF 1(2)] and s2 = tfd_steps [OF 2(2)]
  consider (a) "x AND ucast ATA_SR_BSY \<noteq> 0" | (b) "x AND ucast ATA_SR_BSY = 0" "y AND ucast ATA_SR_DRQ \<noteq> 0"
    | (c) "x AND ucast ATA_SR_BSY = 0" "y AND ucast ATA_SR_DRQ = 0" by blast
  then show ?case
  proof cases
    case a
    then have "ahci_port_wait hw port (d, v) = ahci_port_wait hw port (d1, v)"
      by (subst ahci_port_wait.simps) (simp add: 1(1) Let_def)
    with less [of d1] s1 a show ?thesis by fastforce
  next
    case b
    then have e: "ahci_port_wait hw port (d, v) = ahci_port_wait hw port (d2, v)"
      by (subst ahci_port_wait.simps) (simp add: 1(1) 2(1) Let_def)
    have "vbusy (view d2) < vbusy (view d)" using s2(1) s1(2) b(2) by fastforce
    from less [OF this] show ?thesis unfolding e s2(3) s1(3) .
  next
    case c
    then have "ahci_port_wait hw port (d, v) = Some (d2, v)"
      by (subst ahci_port_wait.simps) (simp add: 1(1) 2(1) Let_def)
    then show ?thesis using s1(3) s2(3) by auto
  qed
qed

text \<open>The wait for the command: it has run when the bit is seen cleared.\<close>

lemma idle_loop_runs:
  assumes dev: "hba_device hw port answer view" and k: "k < 32" "vci (view d) = push_bit k 1"
    and c: "command_block (vmem v) (vclb (view d) + of_nat k * 32) t True cmd" "12 \<le> length (apacket cmd)"
  shows "\<exists>d'. idle_loop hw port k (d, v) =
      Some ((d', v\<lparr>vmem := put_bytes (vmem v) (abuffer cmd) (take (unat (abuflen cmd)) (answer (take 12 (apacket cmd))))\<rparr>), ok) \<and>
    (view d')\<lparr>vrun := 0\<rparr> = (view d)\<lparr>vci := 0, vrun := 0\<rparr>"
  using k c
proof (induction "vrun (view d)" arbitrary: d)
  case 0
  let ?m = "put_bytes (vmem v) (abuffer cmd) (take (unat (abuflen cmd)) (answer (take 12 (apacket cmd))))"
  obtain d' where d': "reg_read hw (port + o_ci) d (vmem v) = (0, d', ?m)" "view d' = (view d)\<lparr>vci := 0\<rparr>"
    using dev 0 unfolding hba_device_def hba_runs_def by (metis less_numeral_extra(3))
  then have "rd hw (port + o_ci) (d, v) = (0, d', v\<lparr>vmem := ?m\<rparr>)" by (simp add: rd_def)
  then have "idle_loop hw port k (d, v) = Some ((d', v\<lparr>vmem := ?m\<rparr>), ok)"
    by (subst idle_loop.simps) (simp add: Let_def)
  then show ?case using d'(2) by auto
next
  case (Suc r)
  obtain d1 where d1: "reg_read hw (port + o_ci) d (vmem v) = (push_bit k 1, d1, vmem v)" "view d1 = (view d)\<lparr>vrun := r\<rparr>"
    using dev Suc(3,4) Suc(2) [symmetric] unfolding hba_device_def hba_runs_def by (metis diff_Suc_1 zero_less_Suc)
  obtain x d2 where d2: "reg_read hw (port + o_is) d1 (vmem v) = (x, d2, vmem v)" "x AND HBA_PxIS_TFES = 0" "view d2 = view d1"
    using dev unfolding hba_device_def hba_status_def by blast
  have "(push_bit k 1 :: u32) AND push_bit k 1 \<noteq> 0" using Suc(3) by (simp add: push_bit_eq_mult)
  then have e: "idle_loop hw port k (d, v) = idle_loop hw port k (d2, v)"
    using d2(2) by (subst idle_loop.simps) (simp add: rd_same [OF d1(1)] rd_same [OF d2(1)] Let_def)
  show ?case unfolding e using Suc(1) [of d2] Suc(3-6) d1(2) d2(3) by simp
qed

section \<open>Ranges of the memory\<close>

definition ranges_apart :: "u32 \<Rightarrow> nat \<Rightarrow> u32 \<Rightarrow> nat \<Rightarrow> bool" where
  "ranges_apart a n b m \<longleftrightarrow> m \<le> unat (a - b) \<and> n \<le> unat (b - a)"

lemma ranges_apart_less: "ranges_apart a n b m \<Longrightarrow> n' \<le> n \<Longrightarrow> m' \<le> m \<Longrightarrow> ranges_apart a n' b m'"
  by (auto simp: ranges_apart_def)

lemma put_apart:
  assumes "ranges_apart a n p (length bs)" and "unat i < n"
  shows "put_bytes m p bs (a + i) = m (a + i)"
proof (rule put_bytes_outside)
  show "length bs \<le> unat (a + i - p)"
    using apart_offset [of "length bs" a p i n 0 "length bs"] assms by (simp add: ranges_apart_def)
qed

lemma bytes_apart:
  assumes "ranges_apart a n p (length bs)" and "n < 2 ^ 32"
  shows "mem_bytes (put_bytes m p bs) a n = mem_bytes m a n"
  using put_apart [OF assms(1)] assms(2) by (auto simp: mem_bytes_def unat_of_nat32)

section \<open>One command\<close>

text \<open>The port is idle and \<open>k\<close> is its first free slot; the cache \<open>c\<close> serves the command tables, of which none
  overlaps the header of the slot.\<close>

definition port_idle :: "hba_view \<Rightarrow> nat \<Rightarrow> bool" where
  "port_idle w k \<longleftrightarrow> vci w = 0 \<and> k < 32 \<and> (\<forall>j<k. bit (vsact w) j) \<and> \<not> bit (vsact w) k"

definition slot_header :: "hba_view \<Rightarrow> nat \<Rightarrow> u32" where
  "slot_header w k = vclb w + of_nat k * 32"

lemma idle_keeps:
  assumes "w' = w\<lparr>vbusy := i, vrun := j\<rparr>"
  shows "port_idle w' k = port_idle w k" and "slot_header w' k = slot_header w k"
  using assms by (simp_all add: port_idle_def slot_header_def)

definition table_cache :: "vfs \<Rightarrow> cache_id \<Rightarrow> u32 \<Rightarrow> nat \<Rightarrow> bool" where
  "table_cache v c a n \<longleftrightarrow> (\<forall>t. obj_cache (vslub v) t = Some c \<longrightarrow> ranges_apart a n t 144)"

definition answered :: "(u8 list \<Rightarrow> u8 list) \<Rightarrow> ahci_cmd \<Rightarrow> u8 list" where
  "answered answer cmd = take (unat (abuflen cmd)) (answer (take 12 (apacket cmd)))"

lemma send_command_answer:
  assumes dev: "hba_device hw (aport dev) answer view" and idle: "port_idle (view d) k" and pd: "bit (atapi dev) 0"
    and heap: "heap_inv y L (vslub v)" "L c = Some (X, Suc n)" and sv: "serves v c 144"
    and tc: "table_cache v c (slot_header (view d) k) 16"
    and cmd: "12 \<le> length (apacket cmd)" "length (apacket cmd) \<le> 64" "0 < abuflen cmd" "abuflen cmd \<le> 0x400000"
    and ha: "ranges_apart (slot_header (view d) k) 16 (abuffer cmd) (unat (abuflen cmd))"
  obtains d' b t where "ahci_send_command hw dev cmd (d, v) =
      Some ((d', v\<lparr>vmem := put_bytes (build_written (slot_header (view d) k) t (atapi dev) cmd (vmem v)) (abuffer cmd) (answered answer cmd),
        vslub := b\<rparr>), ok)"
    and "obj_cache (vslub v) t = Some c" and "heap_inv y L b" and "view d' = (view d)\<lparr>vbusy := vbusy (view d'), vrun := vrun (view d')\<rparr>"
proof -
  let ?h = "slot_header (view d) k"
  obtain b t where b: "bmem_cache_alloc c (vslub v) = Some (b, t)" "t \<noteq> 0" "heap_inv y (L(c \<mapsto> (insert t X, n))) b"
    "\<And>s. heap_inv y (L(c \<mapsto> (insert t X, n))) s \<Longrightarrow> \<exists>s'. bfree t s = Some s' \<and> heap_inv y L s'"
    using slabs.borrow [OF heap] by blast
  have lay: "heap_layout b = heap_layout (vslub v)" using b(3) heap(1) by (simp add: heap_inv_def)
  have "obj_cache b t = Some c" using inv_object(1) [OF b(3)] by simp
  then have t: "obj_cache (vslub v) t = Some c" using lay by (simp add: heap_layout_def)
  have apart: "hba_apart ?h t" using tc t by (auto simp: table_cache_def ranges_apart_def hba_apart_def)
  have bm: "bmalloc 144 (vslub v) = Some (b, t)" using sv b(1) by (simp add: serves_def bmalloc_def)
  have st: "steady hw (aport dev) d (vclb (view d)) (vsact (view d)) 0"
    using dev idle by (auto simp: hba_device_def hba_registers_def steady_def port_idle_def)
  have k: "k < 32" "\<And>j. j < k \<Longrightarrow> bit (vsact (view d) OR 0) j" "\<not> bit (vsact (view d) OR 0) k"
    using idle by (simp_all add: port_idle_def)
  let ?M = "build_written ?h t (atapi dev) cmd (vmem v)"
  let ?v = "\<lambda>m. v\<lparr>vmem := m, vslub := b\<rparr>"
  have build: "build_packet hw dev cmd (d, v) = Some ((d, ?v ?M), Inr k)"
    by (rule build_packet_run [OF apart st _ k bm b(2)]) (simp add: slot_header_def)
  have cb: "command_block ?M ?h t True cmd" using command_block_built [OF apart cmd(2-4), of "atapi dev" "vmem v"] pd by (simp only:)
  obtain d1 where d1: "ahci_port_wait hw (aport dev) (d, ?v ?M) = Some (d1, ?v ?M)" "(view d1)\<lparr>vbusy := 0\<rparr> = (view d)\<lparr>vbusy := 0\<rparr>"
    using port_wait_ready [of hw "aport dev" view d "?v ?M"] dev by (auto simp: hba_device_def)
  have v1: "vclb (view d1) = vclb (view d)" "vsact (view d1) = vsact (view d)" "vci (view d1) = 0"
    using d1(2) idle by (auto simp: port_idle_def dest: arg_cong [of _ _ vclb] arg_cong [of _ _ vsact] arg_cong [of _ _ vci])
  obtain d2 r where d2: "reg_write hw (aport dev + o_ci) (push_bit k 1) d1 ?M = (d2, ?M)" "view d2 = (view d1)\<lparr>vci := push_bit k 1, vrun := r\<rparr>"
    using dev v1(3) unfolding hba_device_def hba_issues_def by (metis or.left_neutral)
  have "reg_read hw (aport dev + o_ci) d1 ?M = (0, d1, ?M)"
    using dev v1(3) by (simp add: hba_device_def hba_registers_def)
  then have set: "set_reg hw (aport dev + o_ci) (\<lambda>x. x OR push_bit k 1) (d1, ?v ?M) = (d2, ?v ?M)"
    using d2(1) by (simp add: set_reg_def rd_def wr_def)
  let ?m = "put_bytes ?M (abuffer cmd) (answered answer cmd)"
  have cb2: "command_block (vmem (?v ?M)) (vclb (view d2) + of_nat k * 32) t True cmd" "vci (view d2) = push_bit k 1"
    using cb d2(2) v1 by (simp_all add: slot_header_def)
  obtain d3 where d3: "idle_loop hw (aport dev) k (d2, ?v ?M) = Some ((d3, ?v ?m), ok)" "(view d3)\<lparr>vrun := 0\<rparr> = (view d2)\<lparr>vci := 0, vrun := 0\<rparr>"
    using idle_loop_runs [OF dev k(1) cb2(2,1) cmd(1)] by (auto simp: answered_def)
  obtain x d4 where d4: "reg_read hw (aport dev + o_is) d3 ?m = (x, d4, ?m)" "x AND HBA_PxIS_TFES = 0" "view d4 = view d3"
    using dev unfolding hba_device_def hba_status_def by blast
  have "ahci_idle hw dev k (d2, ?v ?M) = Some ((d4, ?v ?m), ok)"
    using d3(1) d4(1,2) by (simp add: ahci_idle_def rd_def)
  then have issue: "issue_slot hw dev k (d, ?v ?M) = Some ((d4, ?v ?m), ok)"
    unfolding issue_slot_def d1(1) Option.bind.simps set .
  have v4: "vclb (view d4) = vclb (view d)" "vsact (view d4) = vsact (view d)" "vci (view d4) = 0"
    using d3(2) d2(2) v1 by (auto simp: d4(3) dest: arg_cong [of _ _ vclb] arg_cong [of _ _ vsact] arg_cong [of _ _ vci])
  have la: "length (answered answer cmd) \<le> unat (abuflen cmd)" by (simp add: answered_def)
  have keep: "?m (?h + i) = ?M (?h + i)" if "unat i < 16" for i
    using put_apart [OF ranges_apart_less [OF ha order_refl la] that] .
  have tb: "load32 ?m (?h + 8) = t"
    using cb keep [of 8] keep [of 9] keep [of 10] keep [of 11] by (simp add: command_block_def load32_def add.assoc)
  obtain b' where b': "bfree t b = Some b'" "heap_inv y L b'" using b(4) [OF b(3)] by blast
  have "reg_read hw (aport dev + o_clb) d4 ?m = (vclb (view d), d4, ?m)"
    using dev v4(1) by (simp add: hba_device_def hba_registers_def)
  then have "ahci_destroy_command hw (aport dev) k (d4, ?v ?m) = Some (d4, ?v ?m\<lparr>vslub := b'\<rparr>)"
    using tb b'(1) by (simp add: ahci_destroy_command_def ahci_get_cmd_tbl_def cmd_hdr_def rd_def free_def vfree_def
        peek32_def slot_header_def hba_layout)
  then have "ahci_send_command hw dev cmd (d, v) = Some ((d4, v\<lparr>vmem := ?m, vslub := b'\<rparr>), ok)"
    by (simp add: ahci_send_command_def build issue)
  moreover have "view d4 = (view d)\<lparr>vbusy := vbusy (view d4), vrun := vrun (view d4)\<rparr>"
    using v4 idle by (simp add: port_idle_def)
  ultimately show thesis using that t b'(2) by blast
qed

section \<open>Reading\<close>

lemma swapped_bytes: "le_bytes32 (swap_bytes32 x) = be_bytes32 x"
proof -
  have m: "(0x0000FF00 :: u32) = push_bit 8 (mask 8)" "(0x00FF0000 :: u32) = push_bit 16 (mask 8)"
    by (simp_all add: mask_eq_exp_minus_1)
  have "(ucast (swap_bytes32 x) :: u8) = ucast (drop_bit 24 x)" "(ucast (drop_bit 8 (swap_bytes32 x)) :: u8) = ucast (drop_bit 16 x)"
    "(ucast (drop_bit 16 (swap_bytes32 x)) :: u8) = ucast (drop_bit 8 x)" "(ucast (drop_bit 24 (swap_bytes32 x)) :: u8) = ucast x"
    unfolding swap_bytes32_def m by (rule bit_word_eqI, auto simp: bit_simps dest: bit_imp_le_length)+
  then show ?thesis by (simp add: le_bytes32_def be_bytes32_def)
qed

lemma beyond_range:
  assumes "ranges_apart a n b m" and "unat i < m"
  shows "n \<le> unat (b + i - a)"
  using apart_offset [of n b a i m 0 n] assms by (simp add: ranges_apart_def)

lemma build_apart:
  assumes "ranges_apart h 16 a n" and "ranges_apart a n t 144" and "length (apacket cmd) \<le> 64" and "n < 2 ^ 32"
  shows "mem_bytes (build_written h t f cmd m) a n = mem_bytes m a n"
proof -
  have "build_written h t f cmd m (a + of_nat i) = m (a + of_nat i)" if "i < n" for i
  proof -
    have i: "unat (of_nat i :: u32) < n" using that assms(4) by (simp add: unat_of_nat32)
    have "ranges_apart t 144 a n" using assms(2) by (simp add: ranges_apart_def)
    then show ?thesis using beyond_range [OF _ i] assms(1) by (intro build_written_outside [OF assms(3)])
  qed
  then show ?thesis by (simp add: mem_bytes_def)
qed


text \<open>A controller that runs the packet commands itself, and a device with the bytes \<open>D\<close>.\<close>

definition run_packet :: "(u8 list \<Rightarrow> u8 list) \<Rightarrow> hba_view \<Rightarrow> mem \<Rightarrow> mem" where
  "run_packet answer d m =
     (let h = vclb d + of_nat (length (takeWhile (\<lambda>i. \<not> bit (vci d) i) [0..<32])) * 32; t = load32 m (h + 8)
      in put_bytes m (load32 m (t + 128))
        (take (unat (load32 m (t + 140) AND 0x3fffff) + 1) (answer (mem_bytes m (t + 64) 12))))"

definition model_hba :: "u32 \<Rightarrow> (u8 list \<Rightarrow> u8 list) \<Rightarrow> hba_view controller" where
  "model_hba port answer =
     \<lparr>reg_read = (\<lambda>a d m.
        if a = port + o_clb then (vclb d, d, m)
        else if a = port + o_sact then (vsact d, d, m)
        else if a = port + o_ci then
          if vci d = 0 then (0, d, m)
          else if vrun d > 0 then (vci d, d\<lparr>vrun := vrun d - 1\<rparr>, m)
          else (0, d\<lparr>vci := 0\<rparr>, run_packet answer d m)
        else if a = port + o_tfd \<and> vbusy d > 0 then (0x80, d\<lparr>vbusy := vbusy d - 1\<rparr>, m)
        else (0, d, m)),
      reg_write = (\<lambda>a x d m. (if a = port + o_ci then d\<lparr>vci := vci d OR x, vrun := 3\<rparr> else d, m))\<rparr>"

definition model_atapi :: "u8 list \<Rightarrow> nat \<Rightarrow> u8 list \<Rightarrow> u8 list" where
  "model_atapi D bs p =
     (let be = (\<lambda>i. ucast (p ! (i + 3)) OR push_bit 8 (ucast (p ! (i + 2))) OR push_bit 16 (ucast (p ! (i + 1))) OR
            push_bit 24 (ucast (p ! i)) :: u32)
      in if p ! 0 = 0xA8 then take (unat (be 6) * bs) (drop (unat (be 2) * bs) D) else replicate 18 0)"

lemma model_atapi_disk: "atapi_disk D bs (model_atapi D bs)"
proof -
  have j: "ucast (be_bytes32 x ! 3) OR push_bit 8 (ucast (be_bytes32 x ! 2)) OR push_bit 16 (ucast (be_bytes32 x ! 1)) OR
      push_bit 24 (ucast (be_bytes32 x ! 0)) = (x :: u32)" for x
    using join_le_bytes32 [of x] by (simp add: be_bytes32_def le_bytes32_def)
  show ?thesis using j by (simp add: atapi_disk_def model_atapi_def nth_append nth_Cons')
qed

lemma take_mem_bytes: "n \<le> k \<Longrightarrow> take n (mem_bytes m a k) = mem_bytes m a n"
  by (simp add: mem_bytes_def take_map)

lemma model_hba_runs: "hba_runs (model_hba port answer) port answer (\<lambda>d. d)"
proof -
  have slot: "length (takeWhile (\<lambda>i. \<not> bit (push_bit k 1 :: u32) i) [0..<32]) = k" if "k < 32" for k
  proof -
    have "[0..<32] = [0..<k] @ k # [Suc k..<32]" using that by (metis le_add_diff_inverse less_imp_le upt_add_eq_append upt_conv_Cons zero_le)
    moreover have "bit (push_bit k 1 :: u32) i \<longleftrightarrow> i = k" if "i \<le> k" for i using that \<open>k < 32\<close> by (auto simp: bit_simps)
    ultimately show ?thesis by (simp add: takeWhile_append)
  qed
  have "run_packet answer d m = put_bytes m (abuffer cmd) (take (unat (abuflen cmd)) (answer (take 12 (apacket cmd))))"
    if "k < 32" "vci d = push_bit k 1" "command_block m (vclb d + of_nat k * 32) t True cmd" "12 \<le> length (apacket cmd)" for d m k t cmd
    using that(3,4) take_mem_bytes [OF that(4), of m "t + 64"]
    unfolding run_packet_def that(2) slot [OF that(1)] by (simp add: command_block_def)
  moreover have "(push_bit k 1 :: u32) \<noteq> 0" if "k < 32" for k using that by (simp add: push_bit_eq_mult)
  ultimately show ?thesis
    unfolding hba_runs_def model_hba_def by (auto simp: o_clb_def o_sact_def o_ci_def)
qed

lemma model_hba_device: "hba_device (model_hba port answer) port answer (\<lambda>d. d)"
  unfolding hba_device_def
  by (intro conjI model_hba_runs)
    (auto simp: hba_registers_def hba_status_def hba_issues_def tfd_answer_def model_hba_def o_clb_def o_sact_def
      o_ci_def o_is_def o_tfd_def ATA_SR_BSY_def ATA_SR_DRQ_def HBA_PxIS_TFES_def)

definition demo_ahci_dev :: ahci_dev where
  "demo_ahci_dev = \<lparr>portno = 0, aport = 0xF0000000, atapi = 1, aprivate = 0\<rparr>"

definition dvd_dev :: blkdev where
  "dvd_dev = \<lparr>bdev_name = ''ahci00'', bdev_flags = 0, bdev_block_size = 2048, bdev_block_logs = 11, bops = None,
     bd_init_block = 0, bd_last_block = 3\<rparr>"

definition dvd_env :: ahci_env where
  "dvd_env = \<lparr>old_bdev = (\<lambda>_. dvd_dev), old_idedev = (\<lambda>_. \<lparr>io_base = 0, control = 0, channel = 0, bmaster = 0, slave = False,
       disk = 0, irq = 0, iprivate = 0\<rparr>), old_stack = [], old_shift = (\<lambda>_ _. 0), rsd_at = 0x40000, rcd_at = 0x40020,
     dma_at = 0x30000\<rparr>"

definition dvd_bytes :: "u8 list" where
  "dvd_bytes = replicate 2048 1 @ replicate 2048 2 @ replicate 2048 3"


end
