(* ===== verification/FsDump.thy ===== *)
theory FsDump
  imports FileOpen
begin

text \<open>
  The printed tree of the file system, \<^verbatim>\<open>vfs_dump_tree\<close> of \<^verbatim>\<open>src/fs/fs.c\<close>, which a debug
  configuration compiles. A line is put together in a buffer that is kept from one line to the next: of a
  deeper node only its own part and the column before it are written, the columns of its ancestors are still
  there. A write behind the buffer and a line without terminator are \<open>None\<close>, as is a walk that does not end.
\<close>

definition TREE_NODE_LINE :: "u8 list" where "TREE_NODE_LINE = str ''|--''"
definition TREE_LEAF_LINE :: "u8 list" where "TREE_LEAF_LINE = [0x5C, 0x2D, 0x2D]"
definition TREE_PIPE_LINE :: "u8 list" where "TREE_PIPE_LINE = str ''|  ''"
definition TREE_LINE_SIZE :: nat where "TREE_LINE_SIZE = 4"

record tree_info =
  level :: nat
  upper :: "u32 option"
  child :: "u32 option"
  tibuf :: "u8 list"

definition get_next_node :: "u32 \<Rightarrow> vfs \<Rightarrow> u32 option" where
  "get_next_node n s = tree_next_sibling_or_null n (vtree s)"

text \<open>The macro's name is the opposite of what it asks, and it is used so that leaves are not entered.\<close>

definition has_sub_nodes :: "u32 \<Rightarrow> vfs \<Rightarrow> bool" where
  "has_sub_nodes n s = tree_node_is_leaf n (vtree s)"

text \<open>\<^verbatim>\<open>sprintf\<close> of the symbol, a blank and the name stores the terminator; \<^verbatim>\<open>strncpy\<close> of the
  three bytes of a symbol with room for more stores none.\<close>

definition vfs_show_node :: "tree_info \<Rightarrow> vfs \<Rightarrow> tree_info option" where
  "vfs_show_node info s =
     (case (upper info, child info) of
        (Some u, Some c) \<Rightarrow>
          let dlevel = level info - 1; indent = dlevel * TREE_LINE_SIZE;
              symbol = (if get_next_node c s = None then TREE_LEAF_LINE else TREE_NODE_LINE)
          in do { b \<leftarrow> put_at (tibuf info) indent (symbol @ [0x20] @ nname (fsnodes s c) @ [0]);
                  if dlevel = 0 then Some (info\<lparr>tibuf := b\<rparr>)
                  else
                    let indent = indent - TREE_LINE_SIZE;
                        symbol = (if get_next_node u s = None then str ''   '' else TREE_PIPE_LINE)
                    in do { b \<leftarrow> put_at b indent symbol; Some (info\<lparr>tibuf := b\<rparr>) } }
      | _ \<Rightarrow> Some info)"

text \<open>The string that \<open>%s\<close> prints.\<close>

definition buffer_string :: "u8 list \<Rightarrow> u8 list option" where
  "buffer_string b = (if 0 \<in> set b then Some (takeWhile (\<lambda>x. x \<noteq> 0) b) else None)"

definition enter_level :: "u32 \<Rightarrow> tree_info \<Rightarrow> tree_info" where
  "enter_level node info = info\<lparr>level := level info + 1, upper := Some node, child := None\<rparr>"

text \<open>The loop over the children of \<open>node\<close> from \<open>pos\<close> on; \<open>out\<close> are the lines so far.\<close>

partial_function (option) show_children ::
  "vfs \<Rightarrow> u32 \<Rightarrow> u32 option \<Rightarrow> tree_info \<Rightarrow> u8 list list \<Rightarrow> (tree_info \<times> u8 list list) option" where
  "show_children s node pos info out =
     (case pos of None \<Rightarrow> Some (info, out)
      | Some c \<Rightarrow> do {
          info \<leftarrow> vfs_show_node (info\<lparr>child := Some c\<rparr>) s;
          line \<leftarrow> buffer_string (tibuf info);
          let out = out @ [str ''VFS: '' @ line];
          (info, out) \<leftarrow>
            (if has_sub_nodes c s then Some (info, out)
             else do {
               (info, out) \<leftarrow> show_children s c (tree_first_child_or_null c (vtree s)) (enter_level c info) out;
               Some (info\<lparr>level := level info - 1, upper := Some node, child := Some c\<rparr>, out) });
          show_children s node (get_next_node c s) info out })"

definition vfs_show_tree :: "tree_info \<Rightarrow> u32 \<Rightarrow> vfs \<Rightarrow> u8 list list \<Rightarrow> (tree_info \<times> u8 list list) option" where
  "vfs_show_tree info node s out =
     show_children s node (tree_first_child_or_null node (vtree s)) (enter_level node info) out"

definition vfs_dump_tree :: "vfs \<Rightarrow> (vfs \<times> u8 list list) option" where
  "vfs_dump_tree s =
     do { (s, a) \<leftarrow> vmalloc 75 s;
          if a = 0 then Some (s, [])
          else do {
            (info, out) \<leftarrow> vfs_show_tree \<lparr>level = 0, upper = None, child = None, tibuf = fresh_buffer s a 75\<rparr>
              (fs_root s) s [str ''VFS: /''];
            s \<leftarrow> vfree a s;
            Some (s, out) } }"

section \<open>One line\<close>

text \<open>The bytes of a line: the columns of the ancestors that are there already, that of the parent, the node.\<close>

lemma buffer_string_zero: "0 \<notin> set xs \<Longrightarrow> buffer_string (xs @ 0 # ys) = Some xs"
  by (auto simp: buffer_string_def takeWhile_append)

lemma show_node_root:
  assumes "upper info = Some u" and "child info = Some c" and "level info = 1" and "0 \<notin> set (nname (fsnodes s c))"
    and "length (nname (fsnodes s c)) + 5 \<le> length (tibuf info)"
  shows "\<exists>b. vfs_show_node info s = Some (info\<lparr>tibuf := b\<rparr>) \<and> length b = length (tibuf info) \<and>
    buffer_string b = Some ((if get_next_node c s = None then TREE_LEAF_LINE else TREE_NODE_LINE) @ 0x20 # nname (fsnodes s c))"
proof -
  let ?sym = "if get_next_node c s = None then TREE_LEAF_LINE else TREE_NODE_LINE" and ?n = "nname (fsnodes s c)"
  have sym: "length ?sym = 3" "0 \<notin> set ?sym" by (auto simp: TREE_LEAF_LINE_def TREE_NODE_LINE_def str_def)
  let ?b = "?sym @ [0x20] @ ?n @ [0] @ drop (5 + length ?n) (tibuf info)"
  have "put_at (tibuf info) 0 (?sym @ [0x20] @ ?n @ [0]) = Some ?b" using assms(5) sym(1) by (simp add: put_at_def)
  then have "vfs_show_node info s = Some (info\<lparr>tibuf := ?b\<rparr>)" using assms(1-3) by (simp add: vfs_show_node_def)
  moreover have "buffer_string ?b = Some (?sym @ 0x20 # ?n)"
    using buffer_string_zero [of "?sym @ 0x20 # ?n"] sym(2) assms(4) by simp
  moreover have "length ?b = length (tibuf info)" using assms(5) sym(1) by simp
  ultimately show ?thesis by blast
qed

lemma show_node_deeper:
  assumes "upper info = Some u" and "child info = Some c" and "level info = k + 2" and "0 \<notin> set (nname (fsnodes s c))"
    and "tibuf info = pre @ par @ z # post" and "length pre = 4 * k" and "length par = 3" and "0 \<notin> set pre" and "z \<noteq> 0"
    and "length (nname (fsnodes s c)) + 5 \<le> length post"
  shows "\<exists>b. vfs_show_node info s = Some (info\<lparr>tibuf := b\<rparr>) \<and> length b = length (tibuf info) \<and>
    buffer_string b = Some (pre @ (if get_next_node u s = None then str ''   '' else TREE_PIPE_LINE) @ z #
      (if get_next_node c s = None then TREE_LEAF_LINE else TREE_NODE_LINE) @ 0x20 # nname (fsnodes s c))"
proof -
  let ?sym = "if get_next_node c s = None then TREE_LEAF_LINE else TREE_NODE_LINE" and ?n = "nname (fsnodes s c)"
    and ?col = "if get_next_node u s = None then str ''   '' else TREE_PIPE_LINE"
  have sym: "length ?sym = 3" "0 \<notin> set ?sym" "length ?col = 3" "0 \<notin> set ?col"
    by (auto simp: TREE_LEAF_LINE_def TREE_NODE_LINE_def TREE_PIPE_LINE_def str_def)
  let ?own = "?sym @ [0x20] @ ?n @ [0]"
  let ?b = "pre @ ?col @ z # ?own @ drop (5 + length ?n) post"
  have d: "drop (6 + length ?n) (z # post) = drop (5 + length ?n) post" by (simp add: eval_nat_numeral)
  have "put_at (tibuf info) ((k + 1) * 4) ?own = Some (pre @ par @ z # ?own @ drop (5 + length ?n) post)"
    using assms(6,7,10) sym(1) d by (simp add: put_at_def assms(5))
  moreover have "put_at (pre @ par @ z # ?own @ drop (5 + length ?n) post) (4 * k) ?col = Some ?b"
    using assms(6,7) sym(3) by (simp add: put_at_def)
  ultimately have "vfs_show_node info s = Some (info\<lparr>tibuf := ?b\<rparr>)"
    using assms(1-3) by (simp add: vfs_show_node_def TREE_LINE_SIZE_def Let_def mult.commute)
  moreover have "buffer_string ?b = Some (pre @ ?col @ z # ?sym @ 0x20 # ?n)"
    using buffer_string_zero [of "pre @ ?col @ z # ?sym @ 0x20 # ?n"] sym(2,4) assms(4,8,9) by simp
  moreover have "length ?b = length (tibuf info)" using assms(5,7,10) sym(1,3) by simp
  ultimately show ?thesis by blast
qed

text \<open>A line that does not fit is written all the same.\<close>

lemma show_node_overflow:
  assumes "upper info = Some u" and "child info = Some c"
    and "length (tibuf info) < (level info - 1) * 4 + length (nname (fsnodes s c)) + 5"
  shows "vfs_show_node info s = None"
  using assms by (simp add: vfs_show_node_def put_at_def TREE_LINE_SIZE_def TREE_LEAF_LINE_def TREE_NODE_LINE_def str_def)

end
