(* ===== verification/Spec2Isabelle.thy ===== *)
theory Spec2Isabelle
  imports Prelude Cmem Cstring Cmath Printf ListHead Memblock E820 PageAlloc Crc32 Blockdev Slub Bytes Fsnode Iso9660 Ext2 Vfs Elf Module Input Keyboard Interrupt Tty Pci Loader
    Libata Ide IdeRead Lxboot Mboot1 Bios Setup Elfconf Ahci Hashtable LoaderInit Console Allocator FileRead FileOpen Devtree LxLoad AhciRead FsDump
begin

text \<open>
  A verification library for elfboot, a boot loader for 32-bit x86 in C. Paths are below
  \<^verbatim>\<open>src/\<close> of the repository unless they begin with \<^verbatim>\<open>tools/\<close>.

  \<^bold>\<open>The program.\<close> \<^verbatim>\<open>arch/x86/setup.c\<close> asks the BIOS for the memory map (\<^verbatim>\<open>arch/x86/memory.c\<close>),
  which fills the boot memory allocator (\<^verbatim>\<open>mm/memblock.c\<close>), and reserves what is in use.
  \<^verbatim>\<open>core/main.c\<close> then starts the parts in a fixed order: the page allocator (\<^verbatim>\<open>mm/page_alloc.c\<close>), which
  takes the boot memory over, and the slab allocator on it (\<^verbatim>\<open>mm/slub.c\<close>); the tree of the file
  systems (\<^verbatim>\<open>fs/fs.c\<close>); the PCI bus (\<^verbatim>\<open>core/pci.c\<close>); the built-in drivers and file systems; the
  search for the boot device, which is mounted at \<^verbatim>\<open>/root\<close>; the map of the symbols
  (\<^verbatim>\<open>core/symbol.c\<close>); the modules of the console, the clock and the keyboard, relocatable ELF objects
  that \<^verbatim>\<open>core/module.c\<close> links in memory, which register their interrupt handlers
  (\<^verbatim>\<open>core/interrupt.c\<close>, \<^verbatim>\<open>arch/x86/idt.c\<close>, \<^verbatim>\<open>arch/x86/pic.c\<close>) and devices; and last
  \<^verbatim>\<open>core/loader.c\<close>, which reads \<^verbatim>\<open>/root/elfboot.cfg\<close>, shows the menu on the console
  (\<^verbatim>\<open>drivers/char/tty.c\<close>) and calls the loader module of the chosen entry, \<^verbatim>\<open>loaders/lxboot.c\<close> or
  \<^verbatim>\<open>loaders/mboot1.c\<close>. The IDE and AHCI drivers register the block devices that the file systems read.

  \<^bold>\<open>How the code is modelled.\<close> A 32-bit integer or pointer is a word of 32 bits, so that arithmetic
  wraps as on the machine. The memory is a function from addresses to bytes: the program runs without
  paging. A struct is a record, or, where the code overlays it on bytes (ELF, file systems, boot
  headers, descriptors of devices), offsets into the memory or into a list of bytes. State is passed
  explicitly; operations keep the names of the C functions. A negative error is \<open>Inl\<close> of an \<open>errno\<close>.
  \<open>None\<close> is undefined behaviour or not returning, as each theory says: an access outside of an array
  or a buffer, a division by 0, an oversized shift, a loop that does not end. Hardware, the BIOS and
  the code of modules are parameters: functions or records of functions of a state of their own.

  \<^bold>\<open>The theories.\<close>

    \<^item> Prelude: words, \<^verbatim>\<open>uapi/elfboot/errno.h\<close>, the macros of \<^verbatim>\<open>elfboot/core.h\<close>, shared lemmas.
    \<^item> Cmem: \<^verbatim>\<open>arch/x86/copy.S\<close> and \<^verbatim>\<open>elfboot/types.h\<close>; copies and fills equal their reference, the
      backward copy of \<^verbatim>\<open>memmove\<close> does not for some lengths. Bytes: fields in lists of bytes.
    \<^item> Cstring: \<^verbatim>\<open>core/string.c\<close>; each routine against the list of the bytes of the string, with its
      return; \<^verbatim>\<open>strtok_r\<close> delivers exactly the fields.
    \<^item> Cmath: \<^verbatim>\<open>core/math.c\<close>, \<^verbatim>\<open>arch/x86/math.c\<close>; division of 64 by 32 bits, powers of two.
    \<^item> Printf, Console: \<^verbatim>\<open>core/printf.c\<close>; what is printed is read back by \<^verbatim>\<open>strtoul\<close>; the buffer of the
      console output; \<^verbatim>\<open>arch/x86/timestamp.c\<close>.
    \<^item> ListHead, Hashtable: \<^verbatim>\<open>elfboot/list.h\<close>, \<^verbatim>\<open>elfboot/tree.h\<close>, \<^verbatim>\<open>elfboot/hashtable.h\<close>; any
      sequence of operations on the pointers implements lists. The locale \<open>list_heap\<close> is what the page
      and slab allocators use of the lists.
    \<^item> Memblock, E820: \<^verbatim>\<open>mm/memblock.c\<close>, \<^verbatim>\<open>arch/x86/memory.c\<close>; regions against the sets of addresses.
    \<^item> PageAlloc: \<^verbatim>\<open>mm/page_alloc.c\<close>; the buddy allocator keeps its invariant, gives out free aligned
      blocks only, and takes all of the boot memory over.
    \<^item> Slub: \<^verbatim>\<open>mm/slub.c\<close>; objects given out are free ones, and go back. Allocator states this as a
      contract, the locale \<open>allocator\<close>: an account \<open>L\<close> says which objects of every cache are handed out
      and how many more there are, an allocation succeeds while there are any, and a returned object can
      be had again. It is interpreted on the slab allocator and on the file system state around it.
    \<^item> Crc32: \<^verbatim>\<open>crypto/crc32.c\<close>; the table-driven sum equals the bitwise one.
    \<^item> Blockdev: \<^verbatim>\<open>core/bdev.c\<close>, \<^verbatim>\<open>core/cdev.c\<close>, \<^verbatim>\<open>fs/super.c\<close>; reads at any offset.
    \<^item> Fsnode, Iso9660, Ext2, Vfs: \<^verbatim>\<open>fs/ramfs\<close>, \<^verbatim>\<open>fs/isofs\<close>, \<^verbatim>\<open>fs/ext2fs\<close>, \<^verbatim>\<open>fs/fs.c\<close>,
      \<^verbatim>\<open>fs/file.c\<close>; directory searches, block pointers of inodes, resolution of paths.
    \<^item> FileRead, FileOpen, Devtree: properties of these parts together. A read delivers the bytes of the
      file, as the bytes of the device define them, through every layer down to the device, and returns
      all memory that it borrows; a file that is listed on the device is opened by its path and read; and
      the flags of a node never disagree with the kind of device stored in it. FsDump: the printed tree.
    \<^item> Elf, Module: \<^verbatim>\<open>lib/elf\<close>, \<^verbatim>\<open>core/symbol.c\<close>, \<^verbatim>\<open>core/module.c\<close>; relocations write exactly the
      words they should.
    \<^item> Input, Keyboard, Interrupt, Tty: \<^verbatim>\<open>core/input.c\<close>, \<^verbatim>\<open>drivers/input/kbd.c\<close>,
      \<^verbatim>\<open>core/interrupt.c\<close> with \<^verbatim>\<open>arch/x86/pic.c\<close>, \<^verbatim>\<open>idt.c\<close> and \<^verbatim>\<open>drivers/clock/pit.c\<close>,
      \<^verbatim>\<open>drivers/char/tty.c\<close>; no character is lost while interrupts are masked, a typed line is read,
      the screen is that of an abstract terminal. The locale \<open>key_queue\<close> is the buffer's contract.
    \<^item> Pci: \<^verbatim>\<open>core/pci.c\<close>; the enumeration returns and finds every device once.
    \<^item> Libata, Ide, IdeRead: \<^verbatim>\<open>lib/ata\<close>, \<^verbatim>\<open>drivers/ide/ide.c\<close>; against a drive as in the standard a read
      delivers the sectors, and whatever the drive answers the buffer is not overrun.
    \<^item> Ahci, AhciRead: \<^verbatim>\<open>drivers/ahci/ahci.c\<close>; against a controller as in the standard, which transfers the
      data by itself, a read of a packet device delivers the blocks; when the wait for a command ends.
    \<^item> Loader, LoaderInit: \<^verbatim>\<open>core/loader.c\<close>, \<^verbatim>\<open>lib/tmg\<close>; the configuration is read back as it was
      written, and from it one of its entries is booted, the first when nobody presses a key.
    \<^item> Lxboot, Mboot1: \<^verbatim>\<open>loaders/\<close>; the fields that the kernels find. LxLoad follows the boot of Linux
      through opening, reading and memory management up to the memory at the jump.
    \<^item> Bios: \<^verbatim>\<open>arch/x86/bda.c\<close>, \<^verbatim>\<open>acpi.c\<close>, \<^verbatim>\<open>edd.c\<close>, \<^verbatim>\<open>video.c\<close>, \<^verbatim>\<open>video-vesa.c\<close>,
      \<^verbatim>\<open>ptrace.c\<close>; the search for the ACPI pointer ends and finds the first one.
    \<^item> Setup: \<^verbatim>\<open>arch/x86/setup.c\<close>, \<^verbatim>\<open>core/main.c\<close>; the reserved memory is not given out.
    \<^item> Elfconf: \<^verbatim>\<open>tools/elfconf.c\<close>; exactly the bytes of the symbol are written.

  \<^bold>\<open>How the theories depend on each other.\<close> The allocators are stacked as in the program: Slub holds
  the state of PageAlloc, and both work on the pointer heap of ListHead through its locale. The file
  system state of Fsnode holds the slab allocator, the memory and the tree of nodes; Iso9660, Ext2, Vfs,
  Module, Lxboot, Mboot1, Ide and Ahci work on it.
  FileRead, FileOpen, AhciRead and LxLoad rest on Allocator, which they ask only whether a cache that serves a size has
  free objects: a read
  needs two of the size of a block, opening a file five, and booting Linux from open files four. Keyboard extends the state of Input. Of the parts that
  only pass data on, Loader keeps the heap abstract (whether an allocation succeeds), and
  Setup runs the start of the parts as stages.

  \<^bold>\<open>Bounds.\<close> Loops over strings, lists and devices that need not end are \<open>partial_function\<close>s, so that a
  result is a proof of return. The enumeration of the PCI bus has fuel for the depth of bridges: every
  device that is found is new, and there are 65536 addresses, so 65537 suffices for any hardware, which
  is proved (\<open>pci_init_returns\<close>). The fuel of \<open>strtok_r_all\<close> is a count of calls; more than the length
  of the string is enough. \<open>ATA_IO_TIMEOUT\<close> is the code's own bound of one million polls. The
  menu's timeout is the code's ten seconds in milliseconds.

  \<^bold>\<open>Not modelled.\<close> The assembly (boot sectors, mode switches, A20, interrupt stubs, the BIOS call) and
  the port instructions, which the models have as parameters or as logs of writes; the debug output, which
  is configured out; \<^verbatim>\<open>arch/x86/apm.c\<close>, which cannot be compiled; \<^verbatim>\<open>asm/random.h\<close> and
  \<^verbatim>\<open>multibootXXX.h\<close>, which nothing uses; headers of declarations; the build files. Messages that a
  function prints on the way are left out where they are not its purpose. Exit functions of modules only
  print. Of the picture at the top of the menu only the size is used. The order in which two
  reads of volatile registers in one expression happen is fixed as in the text.
\<close>

end
